(* ===== verification/Prelude.thy ===== *)
theory Prelude
  imports Main "HOL-Library.Word" "HOL-Library.Sublist"
begin

text \<open>
  Shared vocabulary of the development: the types every component uses (identifiers,
  instants), the tables of the relational schema as lists of rows with the lookups, updates
  and deletes the SQL statements of the repositories perform on them, and the collections of
  rules (\<open>keeps\<close>, \<open>table_simps\<close>) the component theories draw on.
\<close>

named_theorems table_simps \<open>equations of the table operations\<close>

section \<open>Identifiers and instants\<close>

text \<open>
  A \<open>uuid.UUID\<close> is an array of 16 bytes; read big-endian it is a 128-bit word, and the byte
  order PostgreSQL sorts by is the unsigned order of the word.
\<close>

type_synonym uuid = "128 word"

abbreviation uuid_Nil :: uuid where "uuid_Nil \<equiv> 0"

text \<open>
  A \<open>time.Time\<close> in UTC is the number of nanoseconds since the zero time of Go; a
  \<open>time.Duration\<close> is a number of nanoseconds.
\<close>

type_synonym time = int
type_synonym duration = int

abbreviation microsecond :: duration where "microsecond \<equiv> 1000"
abbreviation millisecond :: duration where "millisecond \<equiv> 1000000"
abbreviation second :: duration where "second \<equiv> 1000000000"

definition time_truncate :: "duration \<Rightarrow> time \<Rightarrow> time" where
  "time_truncate d t = t - t mod d"

lemma time_truncate_le: "0 < d \<Longrightarrow> time_truncate d t \<le> t"
  by (simp add: time_truncate_def)

lemma time_truncate_close: "0 < d \<Longrightarrow> t < time_truncate d t + d"
  using pos_mod_bound [of d t] by (simp add: time_truncate_def)

lemma time_truncate_idem [simp]: "time_truncate d (time_truncate d t) = time_truncate d t"
  by (simp add: time_truncate_def mod_diff_left_eq)

section \<open>Tables\<close>

text \<open>\<open>SELECT ... WHERE key = k\<close>: the first row with the key (the only one, for a primary key).\<close>

definition row_with :: "('r \<Rightarrow> 'k) \<Rightarrow> 'k \<Rightarrow> 'r list \<Rightarrow> 'r option" where
  "row_with key k rs = find (\<lambda>r. key r = k) rs"

definition has_row :: "('r \<Rightarrow> 'k) \<Rightarrow> 'k \<Rightarrow> 'r list \<Rightarrow> bool" where
  "has_row key k rs = list_ex (\<lambda>r. key r = k) rs"

text \<open>\<open>UPDATE ... SET f WHERE p\<close> and \<open>DELETE ... WHERE p\<close>, with the number of affected rows.\<close>

definition update_rows :: "('r \<Rightarrow> bool) \<Rightarrow> ('r \<Rightarrow> 'r) \<Rightarrow> 'r list \<Rightarrow> 'r list" where
  "update_rows p f rs = map (\<lambda>r. if p r then f r else r) rs"

definition delete_rows :: "('r \<Rightarrow> bool) \<Rightarrow> 'r list \<Rightarrow> 'r list" where
  "delete_rows p rs = filter (\<lambda>r. \<not> p r) rs"

definition affected :: "('r \<Rightarrow> bool) \<Rightarrow> 'r list \<Rightarrow> nat" where
  "affected p rs = length (filter p rs)"

text \<open>A column (or tuple of columns) under a \<open>PRIMARY KEY\<close> or \<open>UNIQUE\<close> constraint.\<close>

definition unique_on :: "('r \<Rightarrow> 'k) \<Rightarrow> 'r list \<Rightarrow> bool" where
  "unique_on key rs = distinct (map key rs)"

lemma has_row_iff: "has_row key k rs \<longleftrightarrow> k \<in> key ` set rs"
  by (auto simp: has_row_def list_ex_iff)

lemma has_row_row_with: "has_row key k rs \<longleftrightarrow> row_with key k rs \<noteq> None"
  by (auto simp: has_row_iff row_with_def find_None_iff)

lemma row_with_SomeD: "row_with key k rs = Some r \<Longrightarrow> r \<in> set rs \<and> key r = k"
  unfolding row_with_def by (metis (mono_tags, lifting) find_Some_iff nth_mem)

lemma row_with_Nil [simp]: "row_with key k [] = None"
  by (simp add: row_with_def)

lemma row_with_Cons [table_simps]:
  "row_with key k (r # rs) = (if key r = k then Some r else row_with key k rs)"
  by (simp add: row_with_def)

lemma row_with_append [table_simps]:
  "row_with key k (rs @ [r]) =
     (case row_with key k rs of Some q \<Rightarrow> Some q | None \<Rightarrow> if key r = k then Some r else None)"
  by (induction rs) (auto simp: row_with_def)

lemma row_with_None_iff: "row_with key k rs = None \<longleftrightarrow> k \<notin> key ` set rs"
  by (auto simp: row_with_def find_None_iff)

lemma unique_on_row_with: "unique_on key rs \<Longrightarrow> r \<in> set rs \<Longrightarrow> row_with key (key r) rs = Some r"
  by (induction rs) (auto simp: unique_on_def row_with_def)

lemma row_with_update_key:
  assumes "\<And>r. key (f r) = key r"
  shows "row_with key k (update_rows (\<lambda>r. key r = i) f rs) =
     (if k = i then map_option f (row_with key k rs) else row_with key k rs)"
  using assms by (induction rs) (auto simp: row_with_def update_rows_def)

lemma row_with_delete_key:
  "row_with key k (delete_rows (\<lambda>r. key r = i) rs) = (if k = i then None else row_with key k rs)"
  by (induction rs) (auto simp: row_with_def delete_rows_def)

lemma row_with_delete:
  assumes "unique_on key rs"
  shows "row_with key k (delete_rows p rs) =
     (case row_with key k rs of Some r \<Rightarrow> if p r then None else Some r | None \<Rightarrow> None)"
  using assms
proof (induction rs)
  case Nil
  show ?case by (simp add: delete_rows_def)
next
  case (Cons a rs)
  from Cons.prems have u: "unique_on key rs" and fresh: "key a \<notin> key ` set rs"
    by (auto simp: unique_on_def)
  then have "key a = k \<Longrightarrow> row_with key k rs = None" by (simp add: row_with_None_iff)
  with Cons.IH [OF u] show ?case
    by (auto simp: row_with_Cons delete_rows_def)
qed

lemma affected_pos_iff: "affected p rs = 0 \<longleftrightarrow> \<not> list_ex p rs"
  by (auto simp: affected_def filter_empty_conv list_ex_iff)

lemma affected_key: "affected (\<lambda>r. key r = k) rs = 0 \<longleftrightarrow> \<not> has_row key k rs"
  by (simp add: affected_pos_iff has_row_def)

lemma affected_unique: "unique_on key rs \<Longrightarrow> affected (\<lambda>r. key r = k) rs \<le> 1"
proof -
  assume "unique_on key rs"
  then have "distinct (map key rs)" by (simp add: unique_on_def)
  then show ?thesis
    by (induction rs) (auto simp: affected_def le_Suc_eq filter_empty_conv, metis imageI)
qed

lemma set_delete_rows [simp]: "set (delete_rows p rs) = {r \<in> set rs. \<not> p r}"
  by (auto simp: delete_rows_def)

lemma set_update_rows: "set (update_rows p f rs) = (\<lambda>r. if p r then f r else r) ` set rs"
  by (auto simp: update_rows_def)

lemma map_update_rows:
  "(\<And>r. key (f r) = key r) \<Longrightarrow> map key (update_rows p f rs) = map key rs"
  by (auto simp: update_rows_def)

lemma unique_on_Nil [simp]: "unique_on key []"
  by (simp add: unique_on_def)

lemma unique_on_append [simp]:
  "unique_on key (rs @ [r]) \<longleftrightarrow> unique_on key rs \<and> key r \<notin> key ` set rs"
  by (auto simp: unique_on_def)

lemma unique_on_delete: "unique_on key rs \<Longrightarrow> unique_on key (delete_rows p rs)"
  by (simp add: unique_on_def delete_rows_def distinct_map_filter)

lemma unique_on_update:
  "(\<And>r. key (f r) = key r) \<Longrightarrow> unique_on key (update_rows p f rs) = unique_on key rs"
  by (simp add: unique_on_def map_update_rows)

text \<open>\<open>ORDER BY key LIMIT n\<close> and \<open>ORDER BY key DESC LIMIT n\<close> of a bag of rows.\<close>

definition order_by :: "('r \<Rightarrow> 'k::linorder) \<Rightarrow> 'r list \<Rightarrow> 'r list" where
  "order_by key rs = sort_key key rs"

definition order_by_desc :: "('r \<Rightarrow> 'k::linorder) \<Rightarrow> 'r list \<Rightarrow> 'r list" where
  "order_by_desc key rs = rev (sort_key key rs)"

lemma set_order_by [simp]: "set (order_by key rs) = set rs"
  by (simp add: order_by_def)

lemma set_order_by_desc [simp]: "set (order_by_desc key rs) = set rs"
  by (simp add: order_by_desc_def)

lemma length_order_by [simp]: "length (order_by key rs) = length rs"
  by (simp add: order_by_def)

lemma length_order_by_desc [simp]: "length (order_by_desc key rs) = length rs"
  by (simp add: order_by_desc_def)

lemma sorted_order_by: "sorted (map key (order_by key rs))"
  by (simp add: order_by_def)

lemma sorted_order_by_desc: "sorted_wrt (\<ge>) (map key (order_by_desc key rs))"
  by (simp add: order_by_desc_def sorted_wrt_rev rev_map [symmetric])

lemma distinct_order_by [simp]: "distinct (order_by key rs) = distinct rs"
  by (simp add: order_by_def)

lemma insort_key_snoc: "f y \<le> f x \<Longrightarrow> insort_key f y (zs @ [x]) = insort_key f y zs @ [x]"
  by (induction zs) auto

lemma sort_key_snoc: "\<forall>y \<in> set xs. f y \<le> f x \<Longrightarrow> sort_key f (xs @ [x]) = sort_key f xs @ [x]"
  by (induction xs) (auto simp: insort_key_snoc)

section \<open>Lists without repetition\<close>

text \<open>The loop \<open>seen\<close>/\<open>out\<close> that keeps the first occurrence of every element.\<close>

fun dedupe_from :: "'a list \<Rightarrow> 'a list \<Rightarrow> 'a list" where
  "dedupe_from seen [] = []"
| "dedupe_from seen (x # xs) =
     (if x \<in> set seen then dedupe_from seen xs else x # dedupe_from (x # seen) xs)"

lemma set_dedupe_from: "set (dedupe_from seen xs) = set xs - set seen"
  by (induction seen xs rule: dedupe_from.induct) auto

lemma distinct_dedupe_from: "distinct (dedupe_from seen xs)"
  by (induction seen xs rule: dedupe_from.induct) (auto simp: set_dedupe_from)

lemma subseq_dedupe_from: "subseq (dedupe_from seen xs) xs"
  by (induction seen xs rule: dedupe_from.induct) auto

lemma dedupe_from_distinct:
  "distinct xs \<Longrightarrow> set xs \<inter> set seen = {} \<Longrightarrow> dedupe_from seen xs = xs"
  by (induction seen xs rule: dedupe_from.induct) auto

lemma dedupe_from_cong: "set as = set bs \<Longrightarrow> dedupe_from as ys = dedupe_from bs ys"
proof (induction ys arbitrary: as bs)
  case (Cons y ys)
  have "dedupe_from (y # as) ys = dedupe_from (y # bs) ys"
    by (rule Cons.IH) (simp add: Cons.prems)
  moreover have "dedupe_from as ys = dedupe_from bs ys" using Cons by blast
  ultimately show ?case using Cons.prems by simp
qed simp

lemma dedupe_from_append_seen:
  "set seen2 = set xs \<union> set seen \<Longrightarrow>
     dedupe_from seen (xs @ ys) = dedupe_from seen xs @ dedupe_from seen2 ys"
proof (induction xs arbitrary: seen)
  case Nil
  then show ?case using dedupe_from_cong [of seen seen2] by simp
next
  case (Cons x xs)
  show ?case
  proof (cases "x \<in> set seen")
    case True
    then have "set seen2 = set xs \<union> set seen" using Cons.prems by auto
    with True Cons.IH [of seen] show ?thesis by simp
  next
    case False
    have "set seen2 = set xs \<union> set (x # seen)" using Cons.prems by simp
    with False Cons.IH [of "x # seen"] show ?thesis by simp
  qed
qed

lemma dedupe_from_append: "dedupe_from [] (xs @ ys) = dedupe_from [] xs @ dedupe_from xs ys"
  by (rule dedupe_from_append_seen) simp

lemma dedupe_from_filter: "distinct ys \<Longrightarrow> dedupe_from seen ys = filter (\<lambda>y. y \<notin> set seen) ys"
proof (induction ys arbitrary: seen)
  case (Cons y ys)
  have "dedupe_from (y # seen) ys = filter (\<lambda>z. z \<notin> set (y # seen)) ys"
    using Cons by simp
  also have "\<dots> = filter (\<lambda>z. z \<notin> set seen) ys"
    using Cons.prems by (intro filter_cong) auto
  finally show ?case using Cons by simp
qed simp

end
