(* ===== verification/GoStrings.thy ===== *)
theory GoStrings
  imports Prelude
begin

text \<open>
  The part of Go's \<open>strings\<close>, \<open>unicode\<close> and \<open>unicode/utf8\<close> packages the domain code calls.
  A Go \<open>string\<close> is a sequence of bytes, here the \<open>char list\<close> of Isabelle. \<open>chunks\<close> cuts it
  where a \<open>for range\<close> loop cuts it: one well-formed UTF-8 sequence, or one ill-formed byte,
  at a time. Runes are counted, white space is trimmed and fields are split on these chunks.
\<close>

section \<open>Decoding\<close>

abbreviation byte :: "char \<Rightarrow> nat" where "byte c \<equiv> of_char c"

definition continuation :: "char \<Rightarrow> bool" where
  "continuation c \<longleftrightarrow> 128 \<le> byte c \<and> byte c < 192"

text \<open>\<open>second_ok b0 b1\<close>: the accepted range of the second byte after the lead byte \<open>b0\<close>.\<close>

definition second_ok :: "nat \<Rightarrow> nat \<Rightarrow> bool" where
  "second_ok b0 b1 \<longleftrightarrow>
     (if b0 = 224 then 160 else if b0 = 240 then 144 else 128) \<le> b1 \<and>
     b1 \<le> (if b0 = 237 then 159 else if b0 = 244 then 143 else 191)"

text \<open>
  The number of bytes of the first rune (\<open>utf8.DecodeRuneInString\<close>): 2, 3 or 4 for a
  well-formed sequence, 1 for ASCII and for an ill-formed byte.
\<close>

definition lead_len :: "nat \<Rightarrow> nat" where
  "lead_len b0 =
     (if 194 \<le> b0 \<and> b0 \<le> 223 then 2
      else if 224 \<le> b0 \<and> b0 \<le> 239 then 3
      else if 240 \<le> b0 \<and> b0 \<le> 244 then 4
      else 1)"

fun rune_width :: "string \<Rightarrow> nat" where
  "rune_width [] = 1"
| "rune_width (c # s) =
     (let n = lead_len (byte c) in
      if n - 1 \<le> length s \<and> (1 < n \<longrightarrow> second_ok (byte c) (byte (hd s))) \<and>
         list_all continuation (take (n - 1) s)
      then n else 1)"

lemma lead_len_pos: "0 < lead_len b"
  by (simp add: lead_len_def)

lemma rune_width_pos: "0 < rune_width s"
  by (cases s) (auto simp: Let_def lead_len_pos)

lemma rune_width_le: "s \<noteq> [] \<Longrightarrow> rune_width s \<le> length s"
  by (cases s) (auto simp: Let_def)

lemma rune_width_append: "1 < rune_width s \<Longrightarrow> rune_width (s @ t) = rune_width s"
  by (cases s) (auto simp: Let_def hd_append split: if_splits)

lemma rune_width_take: "rune_width s \<le> n \<Longrightarrow> rune_width (take n s) = rune_width s"
proof (cases s)
  case (Cons c r)
  assume le: "rune_width s \<le> n"
  show ?thesis
  proof (cases "1 < rune_width s")
    case True
    then have w: "rune_width s = lead_len (byte c)" and
      ok: "lead_len (byte c) - 1 \<le> length r" "second_ok (byte c) (byte (hd r))"
          "list_all continuation (take (lead_len (byte c) - 1) r)"
      using Cons by (auto simp: Let_def split: if_splits)
    then obtain m where "n = Suc m" "lead_len (byte c) - 1 \<le> m"
      using le True by (cases n) auto
    with ok True w Cons show ?thesis
      by (auto simp: Let_def hd_take min_absorb1)
  next
    case False
    then have one: "rune_width s = 1" using rune_width_pos [of s] by simp
    have "\<not> 1 < rune_width (take n s)"
      using rune_width_append [of "take n s" "drop n s"] one by auto
    then show ?thesis using one rune_width_pos [of "take n s"] by simp
  qed
qed simp

function chunks :: "string \<Rightarrow> string list" where
  "chunks s = (if s = [] then [] else take (rune_width s) s # chunks (drop (rune_width s) s))"
  by pat_completeness auto
termination
  by (relation "measure length") (auto simp: rune_width_pos)

declare chunks.simps [simp del]

lemma chunks_Nil [simp]: "chunks [] = []"
  by (simp add: chunks.simps)

lemma chunks_Cons:
  "chunks (c # s) = take (rune_width (c # s)) (c # s) # chunks (drop (rune_width (c # s)) (c # s))"
  by (subst chunks.simps) simp

lemma chunks_ne: "s \<noteq> [] \<Longrightarrow> chunks s = take (rune_width s) s # chunks (drop (rune_width s) s)"
  by (subst chunks.simps) simp

lemma chunks_eq_Nil [simp]: "chunks s = [] \<longleftrightarrow> s = []"
  by (cases s) (simp_all add: chunks_Cons)

lemma concat_chunks [simp]: "concat (chunks s) = s"
proof (induction s rule: chunks.induct)
  case (1 s)
  then show ?case by (cases "s = []") (simp_all add: chunks_ne)
qed

lemma chunks_nonempty: "c \<in> set (chunks s) \<Longrightarrow> c \<noteq> []"
proof (induction s rule: chunks.induct)
  case (1 s)
  then show ?case
    using rune_width_pos [of s] by (cases "s = []") (auto simp: chunks_ne)
qed

text \<open>Cutting a string at the boundary of a chunk does not change the chunks of the two parts.\<close>

lemma chunks_suffix: "chunks s = xs @ ys \<Longrightarrow> chunks (concat ys) = ys"
proof (induction xs arbitrary: s)
  case Nil
  then show ?case by (metis append_Nil concat_chunks)
next
  case (Cons x xs)
  then have "s \<noteq> []" by auto
  with Cons.prems have "chunks (drop (rune_width s) s) = xs @ ys" by (simp add: chunks_ne)
  then show ?case by (rule Cons.IH)
qed

lemma chunks_prefix: "chunks s = xs @ ys \<Longrightarrow> chunks (concat xs) = xs"
proof (induction xs arbitrary: s)
  case Nil
  show ?case by simp
next
  case (Cons x xs)
  then have ne: "s \<noteq> []" by auto
  let ?w = "rune_width s"
  have x: "take ?w s = x" and rest: "chunks (drop ?w s) = xs @ ys"
    using Cons.prems ne by (simp_all add: chunks_ne)
  have len: "length x = ?w" using x rune_width_le [OF ne] by auto
  have s: "s = x @ concat xs @ concat ys"
    by (metis x rest append_take_drop_id concat_append concat_chunks)
  have "x \<noteq> []" using len rune_width_pos [of s] by auto
  have "rune_width (take (length (x @ concat xs)) s) = ?w"
    by (rule rune_width_take) (simp add: len)
  then have w: "rune_width (x @ concat xs) = length x" by (simp add: s len)
  have "chunks (x @ concat xs) = x # chunks (concat xs)"
    using \<open>x \<noteq> []\<close> by (simp add: chunks_ne w)
  with Cons.IH [OF rest] show ?case by simp
qed

text \<open>Nor does gluing two strings where the second does not begin inside a rune.\<close>

lemma rune_width_boundary:
  assumes "s \<noteq> []" "t = [] \<or> \<not> continuation (hd t)"
  shows "rune_width (s @ t) = rune_width s"
proof -
  obtain c r where s: "s = c # r" using assms(1) by (cases s) auto
  define n where "n = lead_len (byte c) - 1"
  have "\<not> list_all continuation (take n (r @ t))" if "length r < n" "n \<le> length (r @ t)"
  proof -
    from that have "t \<noteq> []" "take n (r @ t) = r @ take (n - length r) t" by auto
    then show ?thesis using assms(2) that by (cases t; cases "n - length r") auto
  qed
  moreover have "hd (r @ t) = hd r" if "n \<le> length r" "0 < n" using that by (cases r) auto
  ultimately show ?thesis
    by (cases "n \<le> length r") (auto simp: s Let_def n_def)
qed

lemma chunks_append: "t = [] \<or> \<not> continuation (hd t) \<Longrightarrow> chunks (s @ t) = chunks s @ chunks t"
proof (induction s rule: chunks.induct)
  case (1 s)
  show ?case
  proof (cases "s = []")
    case True
    then show ?thesis by simp
  next
    case False
    then have "rune_width (s @ t) = rune_width s" using "1.prems" by (rule rune_width_boundary)
    with False 1 rune_width_le [OF False] show ?thesis
      by (simp add: chunks_ne [of "s @ t"] chunks_ne [of s])
  qed
qed

section \<open>Runes and validity\<close>

text \<open>\<open>utf8.RuneCountInString\<close>.\<close>

definition rune_count :: "string \<Rightarrow> nat" where
  "rune_count s = length (chunks s)"

text \<open>\<open>utf8.ValidString\<close>: no chunk is an ill-formed byte.\<close>

definition valid_utf8 :: "string \<Rightarrow> bool" where
  "valid_utf8 s \<longleftrightarrow> list_all (\<lambda>c. length c \<noteq> 1 \<or> byte (hd c) < 128) (chunks s)"

lemma rune_count_Nil [simp]: "rune_count [] = 0"
  by (simp add: rune_count_def)

lemma rune_count_0 [simp]: "rune_count s = 0 \<longleftrightarrow> s = []"
  by (simp add: rune_count_def)

text \<open>
  What a column of PostgreSQL takes: a \<open>text\<close> is UTF-8 without zero bytes, and its
  \<open>char_length\<close> counts code points; a \<open>timestamptz\<close> keeps microseconds.
\<close>

definition text_ok :: "string \<Rightarrow> bool" where
  "text_ok t \<longleftrightarrow> valid_utf8 t \<and> CHR 0x00 \<notin> set t"

definition text_between :: "nat \<Rightarrow> nat \<Rightarrow> string \<Rightarrow> bool" where
  "text_between a b t \<longleftrightarrow> text_ok t \<and> a \<le> rune_count t \<and> rune_count t \<le> b"

abbreviation pg_time :: "time \<Rightarrow> time" where "pg_time \<equiv> time_truncate microsecond"

section \<open>White space\<close>

text \<open>The encodings of the code points \<open>unicode.IsSpace\<close> accepts.\<close>

definition space_chunks :: "string list" where
  "space_chunks = map (map char_of)
     ([[9], [10], [11], [12], [13], [32], [194, 133], [194, 160], [225, 154, 128]] @
      map (\<lambda>b. [226, 128, b]) ([128..<139] @ [168, 169, 175]) @
      [[226, 129, 159], [227, 128, 128 :: nat]])"

definition is_space :: "string \<Rightarrow> bool" where
  "is_space c \<longleftrightarrow> c \<in> set space_chunks"

text \<open>\<open>strings.TrimSpace\<close>.\<close>

definition trim_space :: "string \<Rightarrow> string" where
  "trim_space s = concat (rev (dropWhile is_space (rev (dropWhile is_space (chunks s)))))"

text \<open>\<open>strings.Fields\<close>: the maximal runs of chunks that are not white space.\<close>

fun fields_of :: "string list \<Rightarrow> string list \<Rightarrow> string list list" where
  "fields_of cur [] = (if cur = [] then [] else [rev cur])"
| "fields_of cur (c # cs) =
     (if is_space c then (if cur = [] then fields_of [] cs else rev cur # fields_of [] cs)
      else fields_of (c # cur) cs)"

definition split_fields :: "string \<Rightarrow> string list" where
  "split_fields s = map concat (fields_of [] (chunks s))"

text \<open>\<open>strings.Join\<close>.\<close>

fun join :: "string \<Rightarrow> string list \<Rightarrow> string" where
  "join sep [] = []"
| "join sep [x] = x"
| "join sep (x # y # xs) = x @ sep @ join sep (y # xs)"

lemma not_space_nil [simp]: "\<not> is_space []"
  by (simp add: is_space_def space_chunks_def image_iff)

lemma is_space_blank [simp]: "is_space '' ''"
  by code_simp


section \<open>Laws of fields and trimming\<close>

lemma chunks_blank: "chunks (CHR '' '' # s) = '' '' # chunks s"
proof -
  have "rune_width (CHR '' '' # s) = 1" by (simp add: lead_len_def)
  then show ?thesis by (simp add: chunks_Cons)
qed

lemma fields_of_infix: "g \<in> set (fields_of cur cs) \<Longrightarrow> \<exists>a b. rev cur @ cs = a @ g @ b"
proof (induction cur cs rule: fields_of.induct)
  case (1 cur)
  then have "rev cur @ [] = [] @ g @ []" by (auto split: if_splits)
  then show ?case by blast
next
  case (2 cur c cs)
  show ?case
  proof (cases "is_space c")
    case True
    with "2.prems" have "g = rev cur \<or> g \<in> set (fields_of [] cs)" by (auto split: if_splits)
    then show ?thesis
    proof
      assume "g = rev cur"
      then show ?thesis by (intro exI [of _ "[]"] exI [of _ "c # cs"]) simp
    next
      assume "g \<in> set (fields_of [] cs)"
      then obtain a b where "cs = a @ g @ b"
        using "2.IH"(1,2) True by (cases "cur = []") auto
      then show ?thesis by (intro exI [of _ "rev cur @ c # a"] exI [of _ b]) simp
    qed
  next
    case False
    with "2" show ?thesis by auto
  qed
qed

lemma fields_of_word: "g \<in> set (fields_of cur cs) \<Longrightarrow> \<forall>c \<in> set cur. \<not> is_space c \<Longrightarrow>
    g \<noteq> [] \<and> (\<forall>c \<in> set g. \<not> is_space c)"
proof (induction cur cs rule: fields_of.induct)
  case (1 cur)
  then show ?case by (cases "cur = []") simp_all
next
  case (2 cur c cs)
  show ?case
  proof (cases "is_space c")
    case True
    with "2.prems"(1) have "cur \<noteq> [] \<and> g = rev cur \<or> g \<in> set (fields_of [] cs)"
      by (cases "cur = []") auto
    moreover have "g \<noteq> [] \<and> (\<forall>c \<in> set g. \<not> is_space c)" if "g \<in> set (fields_of [] cs)"
    proof (cases "cur = []")
      case nil: True
      show ?thesis by (rule "2.IH"(1) [OF True nil that]) simp
    next
      case False
      show ?thesis by (rule "2.IH"(2) [OF True False that]) simp
    qed
    ultimately show ?thesis using "2.prems"(2) by auto
  next
    case False
    have "\<forall>d \<in> set (c # cur). \<not> is_space d" using False "2.prems"(2) by simp
    with False "2.IH"(3) "2.prems"(1) show ?thesis by simp
  qed
qed

text \<open>A word: a non-empty string whose chunks are its own and are not white space.\<close>

definition word :: "string \<Rightarrow> bool" where
  "word f \<longleftrightarrow> f \<noteq> [] \<and> (\<forall>c \<in> set (chunks f). \<not> is_space c)"

lemma chunks_field: "g \<in> set (fields_of [] (chunks s)) \<Longrightarrow> chunks (concat g) = g"
proof -
  assume "g \<in> set (fields_of [] (chunks s))"
  then obtain a b where "rev [] @ chunks s = a @ g @ b" using fields_of_infix by blast
  then have "chunks s = a @ (g @ b)" by simp
  then have "chunks (concat (g @ b)) = g @ b" by (rule chunks_suffix)
  then show ?thesis by (rule chunks_prefix)
qed

lemma fields_words: "f \<in> set (split_fields s) \<Longrightarrow> word f"
proof -
  assume "f \<in> set (split_fields s)"
  then obtain g where g: "g \<in> set (fields_of [] (chunks s))" and f: "f = concat g"
    by (auto simp: split_fields_def)
  then have "chunks f = g" by (simp add: chunks_field)
  with fields_of_word [OF g] show ?thesis by (auto simp: word_def)
qed

lemma fields_of_run:
  "\<forall>c \<in> set g. \<not> is_space c \<Longrightarrow> fields_of cur (g @ cs) = fields_of (rev g @ cur) cs"
  by (induction g arbitrary: cur) auto

lemma chunks_join: "chunks (join '' '' (f # fs)) =
    chunks f @ concat (map (\<lambda>f. '' '' # chunks f) fs)"
proof (induction fs arbitrary: f)
  case (Cons g fs)
  have "chunks (f @ '' '' @ join '' '' (g # fs)) =
      chunks f @ chunks (CHR '' '' # join '' '' (g # fs))"
    by (subst chunks_append) (simp_all add: continuation_def)
  then show ?case by (simp add: chunks_blank Cons.IH)
qed simp

lemma fields_join: "\<forall>f \<in> set fs. word f \<Longrightarrow> split_fields (join '' '' fs) = fs"
proof (cases fs)
  case Nil
  then show ?thesis by (simp add: split_fields_def)
next
  case (Cons f gs)
  assume words: "\<forall>f \<in> set fs. word f"
  have "fields_of [] (chunks f @ concat (map (\<lambda>f. '' '' # chunks f) gs)) = map chunks (f # gs)"
    if "\<forall>f \<in> set (f # gs). word f" for f
    using that
  proof (induction gs arbitrary: f)
    case Nil
    then show ?case using fields_of_run [of "chunks f" "[]" "[]"] by (simp add: word_def)
  next
    case (Cons g gs)
    then show ?case by (simp add: fields_of_run word_def)
  qed
  with words show ?thesis
    unfolding Cons split_fields_def chunks_join by (simp add: map_idI)
qed

lemma rune_count_join:
  "rune_count (join '' '' (f # fs)) = rune_count f + (\<Sum>g\<leftarrow>fs. Suc (rune_count g))"
  unfolding rune_count_def chunks_join by (simp add: length_concat comp_def)

lemma join_eq_Nil: "\<forall>f \<in> set fs. word f \<Longrightarrow> join '' '' fs = [] \<longleftrightarrow> fs = []"
  by (cases fs; cases "tl fs") (auto simp: word_def)

text \<open>Trimming gives a part of the string that neither begins nor ends with white space.\<close>

definition trimmed :: "string \<Rightarrow> bool" where
  "trimmed s \<longleftrightarrow> s = [] \<or> (\<not> is_space (hd (chunks s)) \<and> \<not> is_space (last (chunks s)))"

lemma trim_space_infix: "\<exists>a b. chunks s = a @ rev (dropWhile p (rev (dropWhile q (chunks s)))) @ b"
proof -
  let ?d = "dropWhile q (chunks s)"
  have "?d = rev (dropWhile p (rev ?d)) @ rev (takeWhile p (rev ?d))"
    by (metis rev_append rev_rev_ident takeWhile_dropWhile_id)
  then show ?thesis by (metis takeWhile_dropWhile_id)
qed

lemma chunks_trim_space:
  "chunks (trim_space s) = rev (dropWhile is_space (rev (dropWhile is_space (chunks s))))"
  unfolding trim_space_def
proof -
  let ?m = "rev (dropWhile is_space (rev (dropWhile is_space (chunks s))))"
  obtain a b where "chunks s = a @ ?m @ b" using trim_space_infix by blast
  then have "chunks (concat (?m @ b)) = ?m @ b" by (rule chunks_suffix)
  then show "chunks (concat ?m) = ?m" by (rule chunks_prefix)
qed

lemma trimmed_trim_space [simp]: "trimmed (trim_space s)"
proof (cases "chunks (trim_space s) = []")
  case True
  then show ?thesis by (simp add: trimmed_def)
next
  case False
  let ?d = "dropWhile is_space (chunks s)"
  have ne: "dropWhile is_space (rev ?d) \<noteq> []" using False by (simp add: chunks_trim_space)
  then have last: "\<not> is_space (last (chunks (trim_space s)))"
    by (simp add: chunks_trim_space last_rev hd_dropWhile)
  have "?d \<noteq> []" using ne by (metis dropWhile.simps(1) rev.simps(1))
  then have hd_d: "\<not> is_space (hd ?d)" by (rule hd_dropWhile)
  have "?d = rev (dropWhile is_space (rev ?d)) @ rev (takeWhile is_space (rev ?d))"
    by (metis rev_append rev_rev_ident takeWhile_dropWhile_id)
  then have "hd ?d = hd (rev (dropWhile is_space (rev ?d)))"
    using ne by (metis hd_append rev_is_Nil_conv)
  with hd_d last show ?thesis by (simp add: trimmed_def chunks_trim_space)
qed

lemma trim_space_trimmed: "trimmed s \<Longrightarrow> trim_space s = s"
proof -
  assume t: "trimmed s"
  show ?thesis
  proof (cases "s = []")
    case False
    with t have h: "\<not> is_space (hd (chunks s))" and l: "\<not> is_space (last (chunks s))"
      by (auto simp: trimmed_def)
    have ne: "chunks s \<noteq> []" using False by simp
    have d: "dropWhile is_space (chunks s) = chunks s"
      using h ne by (cases "chunks s") auto
    have "dropWhile is_space (rev (chunks s)) = rev (chunks s)"
      using l ne by (cases "chunks s" rule: rev_cases) auto
    then show ?thesis by (simp add: trim_space_def d)
  qed (simp add: trim_space_def)
qed

lemma rune_count_trim_space: "rune_count (trim_space s) \<le> rune_count s"
  unfolding rune_count_def chunks_trim_space
  by (metis (no_types, lifting) length_dropWhile_le length_rev order_trans)

end
