(* ===== verification/World.thy ===== *)
theory World
  imports GoStrings
begin

text \<open>
  The world a service runs in, and the calls it makes on it. A world has the service's own
  PostgreSQL schema (\<open>db\<close>), the rows of its transactional outbox, the state of the systems
  outside the transaction (\<open>ext\<close>: Redis, other services), and the environment: \<open>fates\<close> says
  for every call in turn whether it is served, lost before it is served, or served with the
  reply lost; \<open>clock\<close> and \<open>fresh\<close> are the readings of \<open>time.Now\<close> and the results of
  \<open>uuid.NewV7\<close>. The environment is arbitrary, so a theorem about every world is a theorem
  about every pattern of failures. An action takes a world to a result, an error or a value,
  and a world; \<open>in_tx\<close> is \<open>postgres.InTx\<close> of \<^verbatim>\<open>libs/platform/postgres/tx.go\<close>.
\<close>

named_theorems act_inv \<open>what the successful run of an action says about its parts\<close>
named_theorems reads \<open>actions that leave the committed state alone\<close>
named_theorems keeps \<open>actions keep an invariant of the committed state\<close>

section \<open>Messages and the outbox\<close>

text \<open>The envelope of \<^verbatim>\<open>libs/contracts/events/envelope.go\<close> around a payload of type \<open>'p\<close>.\<close>

record 'p envelope =
  env_id :: uuid
  env_type :: string
  env_version :: int
  env_at :: time
  env_producer :: string
  env_payload :: 'p

record 'p message =
  msg_topic :: string
  msg_key :: uuid
  msg_value :: "'p envelope"
  msg_headers :: "(string \<times> string) list"

record 'p out_row =
  row_id :: nat
  row_msg :: "'p message"

section \<open>Worlds and actions\<close>

datatype fate = Fine | Dropped | ReplyLost

record ('d, 'x, 'p) world =
  tick :: nat
  fates :: "nat \<Rightarrow> fate"
  clock :: "nat \<Rightarrow> time"
  fresh :: "nat \<Rightarrow> uuid option"
  db :: 'd
  outbox :: "'p out_row list"
  next_row :: nat
  ext :: 'x

text \<open>An error of the domain, or a failure of the infrastructure (wrapped as it comes).\<close>

datatype 'e failure = Domain 'e | Infra

type_synonym ('d, 'x, 'p, 'e, 'a) act =
  "('d, 'x, 'p) world \<Rightarrow> ('e failure + 'a) \<times> ('d, 'x, 'p) world"

abbreviation advance :: "('d, 'x, 'p) world \<Rightarrow> ('d, 'x, 'p) world" where
  "advance w \<equiv> w\<lparr>tick := Suc (tick w)\<rparr>"

definition ret :: "'a \<Rightarrow> ('d, 'x, 'p, 'e, 'a) act" where
  "ret x w = (Inr x, w)"

definition fail :: "'e \<Rightarrow> ('d, 'x, 'p, 'e, 'a) act" where
  "fail e w = (Inl (Domain e), w)"

definition bnd :: "('d, 'x, 'p, 'e, 'a) act \<Rightarrow> ('a \<Rightarrow> ('d, 'x, 'p, 'e, 'b) act) \<Rightarrow>
    ('d, 'x, 'p, 'e, 'b) act" where
  "bnd m f w = (case m w of (Inl e, w1) \<Rightarrow> (Inl e, w1) | (Inr x, w1) \<Rightarrow> f x w1)"

text \<open>The result as a value, for code that looks at the error before it goes on.\<close>

definition attempt :: "('d, 'x, 'p, 'e, 'a) act \<Rightarrow> ('d, 'x, 'p, 'e, 'e failure + 'a) act" where
  "attempt m w = (case m w of (r, w1) \<Rightarrow> (Inr r, w1))"

definition raise :: "'e failure \<Rightarrow> ('d, 'x, 'p, 'e, 'a) act" where
  "raise e w = (Inl e, w)"

text \<open>\<open>time.Now().UTC()\<close> and \<open>uuid.NewV7()\<close>.\<close>

definition now_utc :: "('d, 'x, 'p, 'e, time) act" where
  "now_utc w = (Inr (clock w (tick w)), advance w)"

definition new_uuid :: "('d, 'x, 'p, 'e, uuid) act" where
  "new_uuid w = (case fresh w (tick w) of None \<Rightarrow> Inl Infra | Some i \<Rightarrow> Inr i, advance w)"

text \<open>What may fail outside of every store (a random source, a hasher, a signer).\<close>

definition draw :: "(nat \<Rightarrow> 'a option) \<Rightarrow> ('d, 'x, 'p, 'e, 'a) act" where
  "draw f w = (case f (tick w) of None \<Rightarrow> Inl Infra | Some x \<Rightarrow> Inr x, advance w)"

text \<open>One SQL statement: it reads and changes the schema, or violates a constraint.\<close>

definition stmt :: "('d \<Rightarrow> 'e failure + 'a \<times> 'd) \<Rightarrow> ('d, 'x, 'p, 'e, 'a) act" where
  "stmt f w =
     (case fates w (tick w) of
        Dropped \<Rightarrow> (Inl Infra, advance w)
      | Fine \<Rightarrow> (case f (db w) of
            Inl e \<Rightarrow> (Inl e, advance w)
          | Inr (x, d) \<Rightarrow> (Inr x, (advance w)\<lparr>db := d\<rparr>))
      | ReplyLost \<Rightarrow> (case f (db w) of
            Inl e \<Rightarrow> (Inl Infra, advance w)
          | Inr (x, d) \<Rightarrow> (Inl Infra, (advance w)\<lparr>db := d\<rparr>)))"

definition query :: "('d \<Rightarrow> 'a) \<Rightarrow> ('d, 'x, 'p, 'e, 'a) act" where
  "query f = stmt (\<lambda>d. Inr (f d, d))"

text \<open>One call on a system outside the transaction.\<close>

definition call :: "('x \<Rightarrow> 'e failure + 'a \<times> 'x) \<Rightarrow> ('d, 'x, 'p, 'e, 'a) act" where
  "call f w =
     (case fates w (tick w) of
        Dropped \<Rightarrow> (Inl Infra, advance w)
      | Fine \<Rightarrow> (case f (ext w) of
            Inl e \<Rightarrow> (Inl e, advance w)
          | Inr (x, d) \<Rightarrow> (Inr x, (advance w)\<lparr>ext := d\<rparr>))
      | ReplyLost \<Rightarrow> (case f (ext w) of
            Inl e \<Rightarrow> (Inl Infra, advance w)
          | Inr (x, d) \<Rightarrow> (Inl Infra, (advance w)\<lparr>ext := d\<rparr>)))"

text \<open>\<open>outbox.Write\<close> of one message: the identity column gives the row the next number.\<close>

definition write_row :: "'p message \<Rightarrow> ('d, 'x, 'p, 'e, unit) act" where
  "write_row m w =
     (let w1 = (advance w)\<lparr>next_row := Suc (next_row w)\<rparr>;
          w2 = w1\<lparr>outbox := outbox w @ [\<lparr>row_id = next_row w, row_msg = m\<rparr>]\<rparr>
      in case fates w (tick w) of
           Dropped \<Rightarrow> (Inl Infra, advance w)
         | Fine \<Rightarrow> (Inr (), w2)
         | ReplyLost \<Rightarrow> (Inl Infra, w2))"

primrec write_rows :: "'p message list \<Rightarrow> ('d, 'x, 'p, 'e, unit) act" where
  "write_rows [] = ret ()"
| "write_rows (m # ms) = bnd (write_row m) (\<lambda>_. write_rows ms)"

text \<open>
  \<open>events.New\<close>: an envelope with a fresh identifier. The payload is kept as a value of \<open>'p\<close>
  where the code marshals it to JSON; the trace context is left out.
\<close>

definition new_envelope :: "string \<Rightarrow> int \<Rightarrow> string \<Rightarrow> time \<Rightarrow> 'p \<Rightarrow>
    ('d, 'x, 'p, 'e, 'p envelope) act" where
  "new_envelope typ version producer at payload =
     bnd new_uuid (\<lambda>i. ret \<lparr>env_id = i, env_type = typ, env_version = version, env_at = at,
       env_producer = producer, env_payload = payload\<rparr>)"

text \<open>
  The \<open>Publisher\<close> of a service: every event becomes a message of the topic under the key of
  its aggregate, all messages are encoded first, then they are written to the outbox.
\<close>

record 'p contract =
  ct_type :: string
  ct_key :: uuid
  ct_at :: time
  ct_payload :: 'p

fun encode_events :: "string \<Rightarrow> string \<Rightarrow> 'p contract list \<Rightarrow> ('d, 'x, 'p, 'e, 'p message list) act" where
  "encode_events topic producer [] = ret []"
| "encode_events topic producer (c # cs) =
     bnd (new_envelope (ct_type c) 1 producer (ct_at c) (ct_payload c)) (\<lambda>env.
     bnd (encode_events topic producer cs) (\<lambda>ms.
       ret (\<lparr>msg_topic = topic, msg_key = ct_key c, msg_value = env,
         msg_headers = [(''event-type'', ct_type c), (''event-version'', ''1''),
           (''content-type'', ''application/json'')]\<rparr> # ms)))"

definition publish_events :: "string \<Rightarrow> string \<Rightarrow> 'p contract list \<Rightarrow> ('d, 'x, 'p, 'e, unit) act" where
  "publish_events topic producer cs = bnd (encode_events topic producer cs) write_rows"

text \<open>
  \<open>postgres.InTx\<close> over \<open>pgx.BeginFunc\<close>: begin, run the body, roll back on an error, commit
  otherwise. A commit checks the deferred constraints \<open>ok\<close> and may itself be lost, before
  or after it took effect. Inside a transaction the same combinator is a savepoint. The
  identity column of the outbox is not rolled back, as in PostgreSQL.
\<close>

definition in_tx :: "('d \<Rightarrow> bool) \<Rightarrow> ('d, 'x, 'p, 'e, 'a) act \<Rightarrow> ('d, 'x, 'p, 'e, 'a) act" where
  "in_tx ok m w =
     (if fates w (tick w) \<noteq> Fine then (Inl Infra, advance w)
      else (case m (advance w) of
          (Inl e, w1) \<Rightarrow> (Inl e, w1\<lparr>db := db w, outbox := outbox w\<rparr>)
        | (Inr x, w1) \<Rightarrow>
            (if \<not> ok (db w1) \<or> fates w1 (tick w1) = Dropped
             then (Inl Infra, (advance w1)\<lparr>db := db w, outbox := outbox w\<rparr>)
             else (if fates w1 (tick w1) = ReplyLost then Inl Infra else Inr x, advance w1))))"

section \<open>What a successful run says\<close>

lemma ret_Inr [act_inv]: "ret x w = (Inr y, w1) \<longleftrightarrow> y = x \<and> w1 = w"
  by (auto simp: ret_def)

lemma fail_Inr [act_inv]: "fail e w = (Inr y, w1) \<longleftrightarrow> False"
  by (simp add: fail_def)

lemma raise_Inr [act_inv]: "raise e w = (Inr y, w1) \<longleftrightarrow> False"
  by (simp add: raise_def)

lemma bnd_Inr [act_inv]:
  "bnd m f w = (Inr y, w2) \<longleftrightarrow> (\<exists>x w1. m w = (Inr x, w1) \<and> f x w1 = (Inr y, w2))"
  by (auto simp: bnd_def split: prod.splits sum.splits)

lemma now_Inr [act_inv]: "now_utc w = (Inr t, w1) \<longleftrightarrow> t = clock w (tick w) \<and> w1 = advance w"
  by (auto simp: now_utc_def)

lemma new_uuid_Inr [act_inv]:
  "new_uuid w = (Inr i, w1) \<longleftrightarrow> fresh w (tick w) = Some i \<and> w1 = advance w"
  by (auto simp: new_uuid_def split: option.splits)

lemma draw_Inr [act_inv]: "draw f w = (Inr x, w1) \<longleftrightarrow> f (tick w) = Some x \<and> w1 = advance w"
  by (auto simp: draw_def split: option.splits)

lemma stmt_Inr [act_inv]:
  "stmt f w = (Inr x, w1) \<longleftrightarrow>
     fates w (tick w) = Fine \<and> (\<exists>d. f (db w) = Inr (x, d) \<and> w1 = (advance w)\<lparr>db := d\<rparr>)"
  by (auto simp: stmt_def split: fate.splits sum.splits)

lemma query_Inr [act_inv]:
  "query f w = (Inr x, w1) \<longleftrightarrow> fates w (tick w) = Fine \<and> x = f (db w) \<and> w1 = advance w"
  by (auto simp: query_def stmt_Inr)

lemma call_Inr [act_inv]:
  "call f w = (Inr x, w1) \<longleftrightarrow>
     fates w (tick w) = Fine \<and> (\<exists>d. f (ext w) = Inr (x, d) \<and> w1 = (advance w)\<lparr>ext := d\<rparr>)"
  by (auto simp: call_def split: fate.splits sum.splits)

lemma write_row_Inr [act_inv]:
  "write_row m w = (Inr u, w1) \<longleftrightarrow> fates w (tick w) = Fine \<and>
     w1 = (advance w)\<lparr>next_row := Suc (next_row w),
                      outbox := outbox w @ [\<lparr>row_id = next_row w, row_msg = m\<rparr>]\<rparr>"
  by (auto simp: write_row_def Let_def split: fate.splits)

lemma attempt_Inr [act_inv]: "attempt m w = (Inr r, w1) \<longleftrightarrow> m w = (r, w1)"
  by (auto simp: attempt_def split: prod.splits)

lemma new_envelope_Inr [act_inv]:
  "new_envelope typ v src at p w = (Inr e, w1) \<longleftrightarrow>
     (\<exists>i. fresh w (tick w) = Some i \<and> w1 = advance w \<and>
          e = \<lparr>env_id = i, env_type = typ, env_version = v, env_at = at,
               env_producer = src, env_payload = p\<rparr>)"
  by (auto simp: new_envelope_def act_inv)

section \<open>The committed state\<close>

text \<open>What other transactions and the relay can see: the schema and the logged messages.\<close>

definition log :: "('d, 'x, 'p) world \<Rightarrow> 'p message list" where
  "log w = map row_msg (outbox w)"

abbreviation same_state :: "('d, 'x, 'p) world \<Rightarrow> ('d, 'x, 'p) world \<Rightarrow> bool" where
  "same_state w w1 \<equiv> db w1 = db w \<and> outbox w1 = outbox w"

lemma log_simps [simp]:
  "log (w\<lparr>tick := n\<rparr>) = log w" "log (w\<lparr>db := d\<rparr>) = log w"
  "log (w\<lparr>ext := x\<rparr>) = log w" "log (w\<lparr>next_row := n\<rparr>) = log w"
  "log (w\<lparr>outbox := rs\<rparr>) = map row_msg rs"
  by (simp_all add: log_def)

text \<open>
  \<open>commits m R\<close>: whatever fails, a run of \<open>m\<close> either leaves the committed state as it was
  or has the effect \<open>R\<close> on it, and a run that reports success has the effect.
\<close>

definition commits :: "('d, 'x, 'p, 'e, 'a) act \<Rightarrow>
    ('a \<Rightarrow> 'd \<Rightarrow> 'p message list \<Rightarrow> 'd \<Rightarrow> 'p message list \<Rightarrow> bool) \<Rightarrow> bool" where
  "commits m R \<longleftrightarrow> (\<forall>w. case m w of
      (Inl e, w1) \<Rightarrow> same_state w w1 \<or> (\<exists>x. R x (db w) (log w) (db w1) (log w1))
    | (Inr x, w1) \<Rightarrow> R x (db w) (log w) (db w1) (log w1))"

definition keeps_inv :: "('d \<Rightarrow> 'p message list \<Rightarrow> bool) \<Rightarrow> ('d, 'x, 'p, 'e, 'a) act \<Rightarrow> bool" where
  "keeps_inv I m \<longleftrightarrow> (\<forall>w. I (db w) (log w) \<longrightarrow> (case m w of (r, w1) \<Rightarrow> I (db w1) (log w1)))"

text \<open>Inside a transaction only a successful run counts.\<close>

definition body_keeps :: "('d \<Rightarrow> 'p message list \<Rightarrow> bool) \<Rightarrow> ('d, 'x, 'p, 'e, 'a) act \<Rightarrow> bool" where
  "body_keeps I m \<longleftrightarrow>
     (\<forall>w x w1. I (db w) (log w) \<longrightarrow> m w = (Inr x, w1) \<longrightarrow> I (db w1) (log w1))"

lemma keeps_invD: "keeps_inv I m \<Longrightarrow> I (db w) (log w) \<Longrightarrow> m w = (r, w1) \<Longrightarrow> I (db w1) (log w1)"
  by (fastforce simp: keeps_inv_def)

lemma keeps_ret [keeps]: "keeps_inv I (ret x)"
  by (simp add: keeps_inv_def ret_def)

lemma keeps_fail [keeps]: "keeps_inv I (fail e)"
  by (simp add: keeps_inv_def fail_def)

lemma keeps_raise [keeps]: "keeps_inv I (raise e)"
  by (simp add: keeps_inv_def raise_def)

lemma keeps_now [keeps]: "keeps_inv I now_utc"
  by (simp add: keeps_inv_def now_utc_def)

lemma keeps_new_uuid [keeps]: "keeps_inv I new_uuid"
  by (simp add: keeps_inv_def new_uuid_def)

lemma keeps_draw [keeps]: "keeps_inv I (draw f)"
  by (simp add: keeps_inv_def draw_def)

lemma keeps_query [keeps]: "keeps_inv I (query f)"
  by (auto simp: keeps_inv_def query_def stmt_def split: fate.splits)

lemma keeps_call [keeps]: "keeps_inv I (call f)"
  by (auto simp: keeps_inv_def call_def split: fate.splits sum.splits)

lemma keeps_bnd [keeps]:
  fixes m :: "('d, 'x, 'p, 'e, 'a) act"
  shows "keeps_inv I m \<Longrightarrow> (\<And>x. keeps_inv I (f x)) \<Longrightarrow> keeps_inv I (bnd m f)"
  unfolding keeps_inv_def [of I "bnd m f"]
proof (intro allI impI)
  fix w :: "('d, 'x, 'p) world"
  assume m: "keeps_inv I m" and f: "\<And>x. keeps_inv I (f x)" and I: "I (db w) (log w)"
  obtain r w1 where run: "m w = (r, w1)" by (cases "m w")
  have I1: "I (db w1) (log w1)" using m I run by (rule keeps_invD)
  show "case bnd m f w of (r, w1) \<Rightarrow> I (db w1) (log w1)"
  proof (cases r)
    case (Inl e)
    with run I1 show ?thesis by (simp add: bnd_def)
  next
    case (Inr x)
    obtain r2 w2 where run2: "f x w1 = (r2, w2)" by (cases "f x w1")
    have "I (db w2) (log w2)" using f I1 run2 by (rule keeps_invD)
    with run Inr run2 show ?thesis by (simp add: bnd_def)
  qed
qed

lemma keeps_attempt [keeps]: "keeps_inv I m \<Longrightarrow> keeps_inv I (attempt m)"
  by (fastforce simp: keeps_inv_def attempt_def split: prod.splits)

lemma keeps_if [keeps]: "keeps_inv I m \<Longrightarrow> keeps_inv I n \<Longrightarrow> keeps_inv I (if b then m else n)"
  by simp

lemma keeps_stmt:
  "(\<And>d l x d1. I d l \<Longrightarrow> f d = Inr (x, d1) \<Longrightarrow> I d1 l) \<Longrightarrow> keeps_inv I (stmt f)"
  by (auto simp: keeps_inv_def stmt_def split: fate.splits sum.splits)

lemma in_tx_result:
  assumes "in_tx ok m w = (r, w1)"
  shows "same_state w w1 \<and> (\<exists>e. r = Inl e) \<or>
    (\<exists>x w2. m (advance w) = (Inr x, w2) \<and> ok (db w2) \<and> db w1 = db w2 \<and> outbox w1 = outbox w2 \<and>
        r \<in> {Inr x, Inl Infra})"
proof (cases "m (advance w)")
  case (Pair q w2)
  show ?thesis
  proof (cases q)
    case (Inl e)
    with assms Pair show ?thesis by (cases "fates w (tick w) = Fine") (auto simp: in_tx_def)
  next
    case (Inr y)
    then have m: "m (advance w) = (Inr y, w2)" using Pair by simp
    show ?thesis
    proof (cases "fates w (tick w) = Fine \<and> ok (db w2) \<and> fates w2 (tick w2) \<noteq> Dropped")
      case True
      then have "db w1 = db w2 \<and> outbox w1 = outbox w2 \<and> r \<in> {Inr y, Inl Infra}"
        using assms by (auto simp: in_tx_def m split: if_splits)
      with m True show ?thesis by blast
    next
      case False
      then show ?thesis using assms by (auto simp: in_tx_def m split: if_splits)
    qed
  qed
qed

lemma in_tx_Inr [act_inv]:
  "in_tx ok m w = (Inr x, w1) \<longleftrightarrow> fates w (tick w) = Fine \<and>
     (\<exists>w2. m (advance w) = (Inr x, w2) \<and> ok (db w2) \<and> fates w2 (tick w2) = Fine \<and>
           w1 = advance w2)"
proof (cases "m (advance w)")
  case (Pair r w2)
  show ?thesis
  proof (cases r)
    case (Inl e)
    with Pair show ?thesis by (simp add: in_tx_def)
  next
    case (Inr y)
    show ?thesis
      unfolding in_tx_def Pair Inr
      by (cases "fates w2 (tick w2)"; cases "ok (db w2)"; cases "fates w (tick w)") auto
  qed
qed

text \<open>What is published: the contracts, in order, at the end of the log.\<close>

definition carries :: "'p message \<Rightarrow> 'p contract \<Rightarrow> bool" where
  "carries m c \<longleftrightarrow> msg_key m = ct_key c \<and> env_type (msg_value m) = ct_type c \<and>
     env_at (msg_value m) = ct_at c \<and> env_payload (msg_value m) = ct_payload c"

lemma encode_events_Inr:
  "encode_events topic producer cs w = (Inr ms, w1) \<Longrightarrow> db w1 = db w \<and> log w1 = log w \<and> list_all2 carries ms cs"
  by (induction cs arbitrary: w ms w1) (fastforce simp: act_inv carries_def)+

lemma written_rows: "write_rows ms w = (Inr u, w1) \<Longrightarrow> db w1 = db w \<and> log w1 = log w @ ms"
  by (induction ms arbitrary: w) (auto simp: act_inv log_def)

lemma publish_events_Inr:
  assumes "(publish_events topic producer cs :: ('d, 'x, 'p, 'e, unit) act) w = (Inr u, w1)"
  shows "db w1 = db w \<and> (\<exists>ms. log w1 = log w @ ms \<and> list_all2 carries ms cs)"
proof -
  obtain ms w2 where run: "(encode_events topic producer cs :: ('d, 'x, 'p, 'e, _) act) w = (Inr ms, w2)"
      "(write_rows ms :: ('d, 'x, 'p, 'e, unit) act) w2 = (Inr u, w1)"
    using assms unfolding publish_events_def bnd_Inr by blast
  show ?thesis using encode_events_Inr [OF run(1)] written_rows [OF run(2)] by auto
qed

lemma publish_one:
  assumes "(publish_events topic producer [c] :: ('d, 'x, 'p, 'e, unit) act) w = (Inr u, w1)"
  shows "db w1 = db w \<and> (\<exists>m. log w1 = log w @ [m] \<and> carries m c)"
  using publish_events_Inr [OF assms] by (auto simp: list_all2_Cons2)

section \<open>The unit of work\<close>

text \<open>
  The contract of \<open>ports.Transactor\<close>: what the body did is committed or undone as a whole.
  Every service relies on it for its change and the events that announce it.
\<close>

locale unit_of_work =
  fixes tx :: "('d, 'x, 'p, 'e, 'a) act \<Rightarrow> ('d, 'x, 'p, 'e, 'a) act"
  assumes all_or_nothing: "tx m w = (r, w1) \<Longrightarrow>
    same_state w w1 \<and> (\<exists>e. r = Inl e) \<or>
    (\<exists>x w2. m (advance w) = (Inr x, w2) \<and> db w1 = db w2 \<and> outbox w1 = outbox w2 \<and>
        r \<in> {Inr x, Inl Infra})"
begin

lemma keeps_tx: "body_keeps I m \<Longrightarrow> keeps_inv I (tx m)"
  unfolding keeps_inv_def
proof (intro allI impI, clarify)
  fix w r w1
  assume body: "body_keeps I m" and I: "I (db w) (log w)" and run: "tx m w = (r, w1)"
  from all_or_nothing [OF run] show "I (db w1) (log w1)"
  proof (elim disjE exE conjE)
    assume "db w1 = db w" "outbox w1 = outbox w"
    with I show ?thesis by (simp add: log_def)
  next
    fix x w2
    assume m: "m (advance w) = (Inr x, w2)" and eq: "db w1 = db w2" "outbox w1 = outbox w2"
    have "I (db (advance w)) (log (advance w))" using I by simp
    with body m have "I (db w2) (log w2)" unfolding body_keeps_def by blast
    with eq show ?thesis by (simp add: log_def)
  qed
qed

lemma commits_tx:
  assumes "\<And>w x w1. m w = (Inr x, w1) \<Longrightarrow> R x (db w) (log w) (db w1) (log w1)"
  shows "commits (tx m) R"
  unfolding commits_def
proof (intro allI)
  fix w
  obtain r w1 where run: "tx m w = (r, w1)" by (cases "tx m w")
  from all_or_nothing [OF run]
  show "case tx m w of (Inl e, w1) \<Rightarrow> same_state w w1 \<or> (\<exists>x. R x (db w) (log w) (db w1) (log w1))
    | (Inr x, w1) \<Rightarrow> R x (db w) (log w) (db w1) (log w1)"
  proof (elim disjE conjE exE)
    fix e
    assume "db w1 = db w" "outbox w1 = outbox w" "r = Inl e"
    then show ?thesis by (simp add: run)
  next
    fix x w2
    assume m: "m (advance w) = (Inr x, w2)" and eq: "db w1 = db w2" "outbox w1 = outbox w2"
      and r: "r \<in> {Inr x, Inl Infra}"
    have "R x (db w) (log w) (db w1) (log w1)" using assms [OF m] eq by (simp add: log_def)
    with r show ?thesis by (auto simp: run)
  qed
qed

end

interpretation pg: unit_of_work "in_tx ok"
  by unfold_locales (drule in_tx_result, blast)

lemma keeps_in_tx [keeps]: "body_keeps I m \<Longrightarrow> keeps_inv I (in_tx ok m)"
  by (rule pg.keeps_tx)

lemma body_keepsI:
  "(\<And>w x w1. I (db w) (log w) \<Longrightarrow> m w = (Inr x, w1) \<Longrightarrow> I (db w1) (log w1)) \<Longrightarrow> body_keeps I m"
  by (auto simp: body_keeps_def)

text \<open>Actions that leave the committed state alone: reads, and calls outside the transaction.\<close>

definition reads_only :: "('d, 'x, 'p, 'e, 'a) act \<Rightarrow> bool" where
  "reads_only m \<longleftrightarrow> (\<forall>w. same_state w (snd (m w)))"

lemma reads_ret [reads]: "reads_only (ret x)"
  by (simp add: reads_only_def ret_def)

lemma reads_fail [reads]: "reads_only (fail e)"
  by (simp add: reads_only_def fail_def)

lemma reads_raise [reads]: "reads_only (raise e)"
  by (simp add: reads_only_def raise_def)

lemma reads_now [reads]: "reads_only now_utc"
  by (simp add: reads_only_def now_utc_def)

lemma reads_new_uuid [reads]: "reads_only new_uuid"
  by (simp add: reads_only_def new_uuid_def)

lemma reads_draw [reads]: "reads_only (draw f)"
  by (simp add: reads_only_def draw_def)

lemma reads_query [reads]: "reads_only (query f)"
  by (auto simp: reads_only_def query_def stmt_def split: fate.splits)

lemma reads_call [reads]: "reads_only (call f)"
  by (auto simp: reads_only_def call_def split: fate.splits sum.splits)

lemma reads_bnd [reads]:
  "reads_only m \<Longrightarrow> (\<And>x. reads_only (f x)) \<Longrightarrow> reads_only (bnd m f)"
  by (auto simp: reads_only_def bnd_def split: prod.splits sum.splits) (metis snd_conv)+

lemma reads_attempt [reads]: "reads_only m \<Longrightarrow> reads_only (attempt m)"
  by (auto simp: reads_only_def attempt_def split: prod.splits) (metis snd_conv)+

lemma reads_if [reads]: "reads_only m \<Longrightarrow> reads_only n \<Longrightarrow> reads_only (if b then m else n)"
  by simp

lemma reads_onlyD: "reads_only m \<Longrightarrow> m w = (r, w1) \<Longrightarrow> same_state w w1 \<and> log w1 = log w"
  unfolding reads_only_def log_def by (metis snd_conv)

lemma commits_reads:
  assumes "reads_only m" and "\<And>w x w1. m w = (Inr x, w1) \<Longrightarrow> R x (db w) (log w) (db w) (log w)"
  shows "commits m R"
  unfolding commits_def
proof
  fix w
  obtain r w1 where run: "m w = (r, w1)" by (cases "m w")
  then show "case m w of
      (Inl e, w1) \<Rightarrow> same_state w w1 \<or> (\<exists>x. R x (db w) (log w) (db w1) (log w1))
    | (Inr x, w1) \<Rightarrow> R x (db w) (log w) (db w1) (log w1)"
    using reads_onlyD [OF assms(1) run] assms(2) by (cases r) auto
qed

lemma commits_bnd:
  assumes "reads_only m" and "\<And>x. commits (f x) R"
  shows "commits (bnd m f) R"
  unfolding commits_def
proof
  fix w
  obtain r w1 where run: "m w = (r, w1)" by (cases "m w")
  have same: "db w1 = db w" "log w1 = log w" "outbox w1 = outbox w"
    using reads_onlyD [OF assms(1) run] by simp_all
  show "case bnd m f w of
      (Inl e, w1) \<Rightarrow> same_state w w1 \<or> (\<exists>x. R x (db w) (log w) (db w1) (log w1))
    | (Inr x, w1) \<Rightarrow> R x (db w) (log w) (db w1) (log w1)"
  proof (cases r)
    case (Inl e)
    with run same show ?thesis by (simp add: bnd_def)
  next
    case (Inr x)
    have "case f x w1 of
        (Inl e, w2) \<Rightarrow> same_state w1 w2 \<or> (\<exists>x. R x (db w1) (log w1) (db w2) (log w2))
      | (Inr x, w2) \<Rightarrow> R x (db w1) (log w1) (db w2) (log w2)"
      using assms(2) [of x] unfolding commits_def by (rule spec)
    then show ?thesis
      using run Inr by (cases "f x w1"; cases "fst (f x w1)") (simp_all add: bnd_def same)
  qed
qed

lemma commits_weaken:
  assumes "commits m R" and "\<And>x d l d1 l1. R x d l d1 l1 \<Longrightarrow> S x d l d1 l1"
  shows "commits m S"
  unfolding commits_def
proof
  fix w
  have R: "case m w of (Inl e, w1) \<Rightarrow> same_state w w1 \<or> (\<exists>x. R x (db w) (log w) (db w1) (log w1))
    | (Inr x, w1) \<Rightarrow> R x (db w) (log w) (db w1) (log w1)"
    using assms(1) unfolding commits_def by (rule spec)
  obtain r w1 where run: "m w = (r, w1)" by (cases "m w")
  show "case m w of (Inl e, w1) \<Rightarrow> same_state w w1 \<or> (\<exists>x. S x (db w) (log w) (db w1) (log w1))
    | (Inr x, w1) \<Rightarrow> S x (db w) (log w) (db w1) (log w1)"
    using R run by (cases r) (simp_all, blast intro: assms(2), rule assms(2))
qed

text \<open>What a read found still holds when the action that follows it starts.\<close>

lemma commits_bnd_when:
  assumes m: "reads_only m" and Q: "\<And>w x w1. m w = (Inr x, w1) \<Longrightarrow> Q x (db w)"
    and f: "\<And>x. commits (f x) (\<lambda>y d l d1 l1. Q x d \<longrightarrow> R y d l d1 l1)"
  shows "commits (bnd m f) R"
  unfolding commits_def
proof
  fix w
  obtain r w1 where run: "m w = (r, w1)" by (cases "m w")
  have same: "db w1 = db w" "log w1 = log w" "outbox w1 = outbox w"
    using reads_onlyD [OF m run] by simp_all
  show "case bnd m f w of
      (Inl e, w1) \<Rightarrow> same_state w w1 \<or> (\<exists>x. R x (db w) (log w) (db w1) (log w1))
    | (Inr x, w1) \<Rightarrow> R x (db w) (log w) (db w1) (log w1)"
  proof (cases r)
    case (Inl e)
    with run same show ?thesis by (simp add: bnd_def)
  next
    case (Inr x)
    have q: "Q x (db w)" using Q run Inr by blast
    have "case f x w1 of
        (Inl e, w2) \<Rightarrow> same_state w1 w2 \<or> (\<exists>y. Q x (db w1) \<longrightarrow> R y (db w1) (log w1) (db w2) (log w2))
      | (Inr y, w2) \<Rightarrow> Q x (db w1) \<longrightarrow> R y (db w1) (log w1) (db w2) (log w2)"
      using f [of x] unfolding commits_def by (rule spec)
    then show ?thesis
      using run Inr q by (cases "f x w1"; cases "fst (f x w1)") (simp_all add: bnd_def same)
  qed
qed

lemma keeps_bnd_when:
  fixes m :: "('d, 'x, 'p, 'e, 'a) act"
  assumes m: "keeps_inv I m" and Q: "\<And>w x w1. m w = (Inr x, w1) \<Longrightarrow> Q x"
    and f: "\<And>x. Q x \<Longrightarrow> keeps_inv I (f x)"
  shows "keeps_inv I (bnd m f)"
  unfolding keeps_inv_def [of I "bnd m f"]
proof (intro allI impI)
  fix w :: "('d, 'x, 'p) world"
  assume I: "I (db w) (log w)"
  obtain r w1 where run: "m w = (r, w1)" by (cases "m w")
  have I1: "I (db w1) (log w1)" using m I run by (rule keeps_invD)
  show "case bnd m f w of (r, w1) \<Rightarrow> I (db w1) (log w1)"
  proof (cases r)
    case (Inl e)
    with run I1 show ?thesis by (simp add: bnd_def)
  next
    case (Inr x)
    obtain r2 w2 where run2: "f x w1 = (r2, w2)" by (cases "f x w1")
    have "keeps_inv I (f x)" using f Q run Inr by blast
    then have "I (db w2) (log w2)" using I1 run2 by (rule keeps_invD)
    with run Inr run2 show ?thesis by (simp add: bnd_def)
  qed
qed

lemma commitsD:
  assumes "commits m R" "m w = (r, w1)"
  shows "case r of Inl e \<Rightarrow> same_state w w1 \<or> (\<exists>x. R x (db w) (log w) (db w1) (log w1))
    | Inr x \<Rightarrow> R x (db w) (log w) (db w1) (log w1)"
  using assms unfolding commits_def by (metis (mono_tags, lifting) case_prod_conv)

lemma commits_keeps:
  fixes m :: "('d, 'x, 'p, 'e, 'a) act"
  assumes "commits m R" "\<And>x d l d1 l1. R x d l d1 l1 \<Longrightarrow> I d l \<Longrightarrow> I d1 l1"
  shows "keeps_inv I m"
  unfolding keeps_inv_def
proof (intro allI impI)
  fix w :: "('d, 'x, 'p) world"
  assume I: "I (db w) (log w)"
  obtain r w1 where run: "m w = (r, w1)" by (cases "m w")
  from commitsD [OF assms(1) run] have "I (db w1) (log w1)"
    using I assms(2) by (cases r) (auto simp: log_def)
  with run show "case m w of (r, w1) \<Rightarrow> I (db w1) (log w1)" by simp
qed

end
