(* ===== verification/Paging.thy ===== *)
theory Paging
  imports Prelude
begin

text \<open>
  Keyset pagination, the contract between the listings of the services
  (\<open>WHERE key > cursor ORDER BY key LIMIT n\<close>) and the clients that walk them page by page
  (\<open>EachPlaylist\<close> of the search indexer, the album listing of the catalogue): a page is the
  next \<open>n\<close> rows strictly after the cursor, in the order of the keys. Inside the locale:
  the walk ends and hands over every row after the cursor exactly once, in order, whatever
  the page size.
\<close>

section \<open>The client's loop\<close>

text \<open>
  \<open>EachPlaylist\<close>: ask for the page after the cursor, hand over its rows, stop on an empty
  page, go on from the key of the last row. The loop ends when the server runs out of rows;
  fuel bounds the number of pages and running out of it is \<open>None\<close>.
\<close>

fun walk_pages :: "nat \<Rightarrow> ('k option \<Rightarrow> 'r list) \<Rightarrow> ('r \<Rightarrow> 'k) \<Rightarrow> 'k option \<Rightarrow> 'r list option" where
  "walk_pages 0 page key after = None"
| "walk_pages (Suc n) page key after =
     (let rs = page after in
      if rs = [] then Some []
      else map_option ((@) rs) (walk_pages n page key (Some (key (last rs)))))"

text \<open>
  The listings with a \<open>Next\<close> cursor fetch one row more than the page: if it is there, the page
  is cut and the key of its last row is the cursor. A client keeps the rows of a page and goes
  on with the cursor until there is none.
\<close>

definition split_page :: "('r \<Rightarrow> 'k) \<Rightarrow> nat \<Rightarrow> 'r list \<Rightarrow> 'r list \<times> 'k option" where
  "split_page key n rows =
     (if n < length rows then (take n rows, Some (key (take n rows ! (n - 1)))) else (rows, None))"

fun follow_pages :: "nat \<Rightarrow> ('k option \<Rightarrow> 'r list \<times> 'k option) \<Rightarrow> 'k option \<Rightarrow> 'r list option" where
  "follow_pages 0 page after = None"
| "follow_pages (Suc n) page after =
     (case page after of
        (rows, None) \<Rightarrow> Some rows
      | (rows, Some c) \<Rightarrow> map_option ((@) rows) (follow_pages n page (Some c)))"

section \<open>The contract\<close>

text \<open>Rows strictly after the cursor.\<close>

definition beyond :: "('k \<Rightarrow> 'k \<Rightarrow> bool) \<Rightarrow> ('r \<Rightarrow> 'k) \<Rightarrow> 'k option \<Rightarrow> 'r list \<Rightarrow> 'r list" where
  "beyond lt key after rs = filter (\<lambda>r. case after of None \<Rightarrow> True | Some k \<Rightarrow> lt k (key r)) rs"

locale keyset_paging =
  fixes lt :: "'k \<Rightarrow> 'k \<Rightarrow> bool"
    and key :: "'r \<Rightarrow> 'k"
    and rows :: "'s \<Rightarrow> 'r list"
    and page :: "'s \<Rightarrow> 'k option \<Rightarrow> nat \<Rightarrow> 'r list"
    and valid :: "'s \<Rightarrow> bool"
  assumes lt_trans: "lt a b \<Longrightarrow> lt b c \<Longrightarrow> lt a c"
    and lt_irrefl: "\<not> lt a a"
    and rows_sorted: "valid s \<Longrightarrow> sorted_wrt (\<lambda>x y. lt (key x) (key y)) (rows s)"
    and page_take: "valid s \<Longrightarrow> page s after n = take n (beyond lt key after (rows s))"
begin

lemma beyond_last:
  assumes sorted: "sorted_wrt (\<lambda>x y. lt (key x) (key y)) (xs @ ys)" and "xs \<noteq> []"
  shows "beyond lt key (Some (key (last xs))) (xs @ ys) = ys"
proof -
  have "\<not> lt (key (last xs)) (key x)" if "x \<in> set xs" for x
  proof
    assume less: "lt (key (last xs)) (key x)"
    obtain zs where xs: "xs = zs @ [last xs]" using \<open>xs \<noteq> []\<close> by (metis append_butlast_last_id)
    have "sorted_wrt (\<lambda>x y. lt (key x) (key y)) (zs @ [last xs])"
      using sorted xs by (metis sorted_wrt_append)
    then have "x = last xs \<or> lt (key x) (key (last xs))"
      using that xs by (metis UnE set_append sorted_wrt_append list.set_intros(1) set_ConsD empty_iff empty_set)
    with less show False using lt_irrefl lt_trans by blast
  qed
  then have "filter (\<lambda>r. lt (key (last xs)) (key r)) xs = []" by (simp add: filter_empty_conv)
  moreover have "lt (key (last xs)) (key y)" if "y \<in> set ys" for y
    using sorted that \<open>xs \<noteq> []\<close> by (auto simp: sorted_wrt_append)
  ultimately show ?thesis by (simp add: beyond_def)
qed

lemma beyond_beyond:
  "xs \<noteq> [] \<Longrightarrow> beyond lt key after rs = xs @ ys \<Longrightarrow> sorted_wrt (\<lambda>x y. lt (key x) (key y)) rs \<Longrightarrow>
     beyond lt key (Some (key (last xs))) rs = ys"
proof -
  assume ne: "xs \<noteq> []" and split: "beyond lt key after rs = xs @ ys"
    and sorted: "sorted_wrt (\<lambda>x y. lt (key x) (key y)) rs"
  let ?l = "key (last xs)"
  have "last xs \<in> set (beyond lt key after rs)" using ne split by simp
  then have after: "case after of None \<Rightarrow> True | Some k \<Rightarrow> lt k ?l" by (simp add: beyond_def)
  have "filter (\<lambda>r. lt ?l (key r)) rs = filter (\<lambda>r. lt ?l (key r)) (beyond lt key after rs)"
    unfolding beyond_def filter_filter
    by (rule filter_cong) (use after lt_trans in \<open>auto split: option.splits\<close>)
  also have "\<dots> = beyond lt key (Some ?l) (xs @ ys)" by (simp only: split) (simp add: beyond_def)
  also have "\<dots> = ys"
    using ne sorted split by (intro beyond_last) (auto simp: beyond_def sorted_wrt_filter simp flip: split)
  finally show ?thesis by (simp add: beyond_def)
qed

text \<open>With a positive page size, as many pages as rows and one more are enough.\<close>

theorem walk_complete:
  assumes "valid s" "0 < n" "length (beyond lt key after (rows s)) < fuel"
  shows "walk_pages fuel (\<lambda>a. page s a n) key after = Some (beyond lt key after (rows s))"
  using assms(3)
proof (induction fuel arbitrary: after)
  case (Suc fuel)
  let ?b = "beyond lt key after (rows s)"
  show ?case
  proof (cases "?b = []")
    case True
    then show ?thesis by (simp add: page_take [OF assms(1)])
  next
    case False
    define xs where "xs = take n ?b"
    define ys where "ys = drop n ?b"
    have b: "?b = xs @ ys" and ne: "xs \<noteq> []" using False assms(2) by (simp_all add: xs_def ys_def)
    have rest: "beyond lt key (Some (key (last xs))) (rows s) = ys"
      using ne b rows_sorted [OF assms(1)] by (rule beyond_beyond)
    have "length ys < fuel" using Suc.prems b ne by (cases xs) auto
    then have "walk_pages fuel (\<lambda>a. page s a n) key (Some (key (last xs))) = Some ys"
      using Suc.IH [of "Some (key (last xs))"] by (simp add: rest)
    moreover have "page s after n = xs" by (simp only: page_take [OF assms(1)] xs_def)
    ultimately show ?thesis using ne by (simp add: Let_def b)
  qed
qed simp

text \<open>From the start, the walk delivers the whole listing.\<close>

corollary walk_all:
  "valid s \<Longrightarrow> 0 < n \<Longrightarrow> length (rows s) < fuel \<Longrightarrow>
     walk_pages fuel (\<lambda>a. page s a n) key None = Some (rows s)"
  using walk_complete [of s n None fuel] by (simp add: beyond_def)

text \<open>A client that follows the cursors of the pages gets the rows beyond its cursor.\<close>

theorem follow_complete:
  assumes "valid s" "0 < n"
  shows "length (beyond lt key after (rows s)) < fuel \<Longrightarrow>
    follow_pages fuel (\<lambda>a. split_page key n (page s a (n + 1))) after = Some (beyond lt key after (rows s))"
proof (induction fuel arbitrary: after)
  case (Suc fuel)
  let ?b = "beyond lt key after (rows s)"
  have rows: "page s after (Suc n) = take (Suc n) ?b" using assms(1) by (rule page_take)
  show ?case
  proof (cases "n < length ?b")
    case False
    then show ?thesis by (simp add: split_page_def rows)
  next
    case True
    have take: "take n (take (Suc n) ?b) = take n ?b" by (simp add: min_def)
    have last: "take n ?b ! (n - 1) = last (take n ?b)"
      using True assms(2) by (subst last_conv_nth) auto
    have page: "split_page key n (page s after (n + 1)) = (take n ?b, Some (key (last (take n ?b))))"
      using True last by (simp add: split_page_def rows take min_def)
    have ne: "take n ?b \<noteq> []" using True assms(2) by auto
    have rest: "beyond lt key (Some (key (last (take n ?b)))) (rows s) = drop n ?b"
      by (rule beyond_beyond [OF ne, of after]) (simp_all add: rows_sorted [OF assms(1)])
    have "length (drop n ?b) < fuel" using Suc.prems assms(2) True by simp
    then have "follow_pages fuel (\<lambda>a. split_page key n (page s a (n + 1))) (Some (key (last (take n ?b)))) =
        Some (drop n ?b)"
      by (rule Suc.IH [of "Some (key (last (take n ?b)))", unfolded rest])
    with page show ?thesis by (simp only: follow_pages.simps prod.case option.case option.map append_take_drop_id)
  qed
qed simp

corollary follow_all:
  "valid s \<Longrightarrow> 0 < n \<Longrightarrow> length (rows s) < fuel \<Longrightarrow>
     follow_pages fuel (\<lambda>a. split_page key n (page s a (n + 1))) None = Some (rows s)"
  using follow_complete [of s n None fuel] by (simp add: beyond_def)

end

text \<open>Sorting a column without repetition gives a strictly sorted listing.\<close>

lemma strict_sort_key:
  assumes "unique_on key rs"
  shows "sorted_wrt (\<lambda>x y. key x < key y) (sort_key key rs)"
proof -
  have "distinct (map key (sort_key key rs))"
    using assms by (simp add: unique_on_def distinct_map)
  then have "sorted_wrt (<) (map key (sort_key key rs))"
    by (simp add: strict_sorted_iff)
  then show ?thesis by (simp add: sorted_wrt_map)
qed

lemma filter_sort_key: "filter p (sort_key key rs) = sort_key key (filter p rs)"
  by (simp add: filter_sort)

text \<open>The same in descending order.\<close>

lemma strict_order_by_desc:
  assumes "unique_on key rs"
  shows "sorted_wrt (\<lambda>x y. key y < key x) (order_by_desc key rs)"
  using strict_sort_key [OF assms] by (simp add: order_by_desc_def sorted_wrt_rev)

lemma filter_order_by_desc: "filter p (order_by_desc key rs) = order_by_desc key (filter p rs)"
  by (simp add: order_by_desc_def filter_sort_key rev_filter [symmetric])

lemma unique_on_filter: "unique_on key rs \<Longrightarrow> unique_on key (filter p rs)"
  by (simp add: unique_on_def distinct_map_filter)

end
