(* ===== verification/Playlist.thy ===== *)
theory Playlist
  imports World Paging "HOL-Library.Product_Lexorder" "HOL-Library.Multiset"
begin

text \<open>
  The Playlist service (\<^verbatim>\<open>services/playlist\<close>): the aggregate, its two tables under the
  constraints of the migrations, the repository's statements, the use cases with their
  \<open>playlist.events\<close>, and what ties them together: the committed events, replayed in order,
  rebuild the committed playlists, whatever calls fail and however transactions interleave.
\<close>

section \<open>Domain\<close>

datatype playlist_error = PlaylistNotFound | PlaylistForbidden | PlaylistTrackNotFound
  | InvalidTitle | OrderMismatch

abbreviation MaxTitle :: nat where "MaxTitle \<equiv> 100"

record playlist =
  pl_id :: uuid
  pl_owner :: uuid
  pl_title :: string
  pl_track_count :: nat
  pl_created_at :: time
  pl_updated_at :: time

definition normalize_title :: "string \<Rightarrow> playlist_error + string" where
  "normalize_title s =
     (let t = join '' '' (split_fields s)
      in if t = '''' \<or> MaxTitle < rune_count t then Inl InvalidTitle else Inr t)"

record playlist_track =
  tr_id :: uuid
  tr_position :: int
  tr_added_by :: uuid
  tr_added_at :: time

fun order_loop :: "playlist_track list \<Rightarrow> uuid list \<Rightarrow> uuid list \<Rightarrow> playlist_error + unit" where
  "order_loop current seen [] = Inr ()"
| "order_loop current seen (i # order) =
     (if i \<in> set seen \<or> \<not> list_ex (\<lambda>t. tr_id t = i) current then Inl OrderMismatch
      else order_loop current (i # seen) order)"

definition check_order :: "playlist_track list \<Rightarrow> uuid list \<Rightarrow> playlist_error + unit" where
  "check_order current order =
     (if length order \<noteq> length current then Inl OrderMismatch else order_loop current [] order)"

section \<open>Events\<close>

datatype playlist_event =
    PlaylistCreated uuid uuid string time
  | PlaylistUpdated uuid uuid string time
  | PlaylistDeleted uuid uuid time
  | TrackAdded uuid uuid uuid int time
  | TrackRemoved uuid uuid uuid time
  | TracksReordered uuid uuid "uuid list" time

section \<open>Tables\<close>

record playlist_row =
  pr_id :: uuid
  pr_owner :: uuid
  pr_title :: string
  pr_created_at :: time
  pr_updated_at :: time

record track_row =
  pt_playlist :: uuid
  pt_track :: uuid
  pt_position :: int
  pt_added_by :: uuid
  pt_added_at :: time

record playlist_db =
  playlists :: "playlist_row list"
  playlist_tracks :: "track_row list"

type_synonym 'a playlist_act =
  "(playlist_db, uuid \<Rightarrow> int \<times> string option, playlist_event, playlist_error, 'a) act"

abbreviation pt_key :: "track_row \<Rightarrow> uuid \<times> uuid" where
  "pt_key r \<equiv> (pt_playlist r, pt_track r)"

definition rows_of :: "uuid \<Rightarrow> playlist_db \<Rightarrow> track_row list" where
  "rows_of i d = filter (\<lambda>r. pt_playlist r = i) (playlist_tracks d)"

text \<open>\<open>CHECK (char_length(title) BETWEEN 1 AND 100)\<close>, on a \<open>text\<close> in UTF-8 without zero bytes.\<close>

definition title_column_ok :: "string \<Rightarrow> bool" where
  "title_column_ok t \<longleftrightarrow> valid_utf8 t \<and> CHR 0x00 \<notin> set t \<and> 1 \<le> rune_count t \<and> rune_count t \<le> 100"

text \<open>\<open>UNIQUE (playlist_id, position) DEFERRABLE INITIALLY DEFERRED\<close>, checked by the commit.\<close>

definition positions_unique :: "playlist_db \<Rightarrow> bool" where
  "positions_unique d \<longleftrightarrow> unique_on (\<lambda>r. (pt_playlist r, pt_position r)) (playlist_tracks d)"

section \<open>Repository\<close>

definition scan_playlist :: "playlist_db \<Rightarrow> playlist_row \<Rightarrow> playlist" where
  "scan_playlist d r =
     \<lparr>pl_id = pr_id r, pl_owner = pr_owner r, pl_title = pr_title r,
      pl_track_count = length (rows_of (pr_id r) d),
      pl_created_at = pr_created_at r, pl_updated_at = pr_updated_at r\<rparr>"

definition repo_create :: "playlist \<Rightarrow> unit playlist_act" where
  "repo_create p = stmt (\<lambda>d.
     if has_row pr_id (pl_id p) (playlists d) \<or> \<not> title_column_ok (pl_title p) then Inl Infra
     else Inr ((), d\<lparr>playlists := playlists d @
       [\<lparr>pr_id = pl_id p, pr_owner = pl_owner p, pr_title = pl_title p,
         pr_created_at = pl_created_at p, pr_updated_at = pl_updated_at p\<rparr>]\<rparr>))"

definition repo_get :: "uuid \<Rightarrow> playlist playlist_act" where
  "repo_get i = bnd (query (\<lambda>d. map_option (scan_playlist d) (row_with pr_id i (playlists d))))
     (\<lambda>r. case r of None \<Rightarrow> fail PlaylistNotFound | Some p \<Rightarrow> ret p)"

definition repo_by_owner :: "uuid \<Rightarrow> playlist list playlist_act" where
  "repo_by_owner owner = query (\<lambda>d. map (scan_playlist d)
     (take 200 (order_by_desc (\<lambda>r. (pr_updated_at r, pr_id r))
        (filter (\<lambda>r. pr_owner r = owner) (playlists d)))))"

definition page_rows :: "uuid \<Rightarrow> nat \<Rightarrow> playlist_db \<Rightarrow> playlist list" where
  "page_rows after limit d = map (scan_playlist d)
     (take limit (order_by pr_id (filter (\<lambda>r. after < pr_id r) (playlists d))))"

definition repo_page :: "uuid \<Rightarrow> nat \<Rightarrow> playlist list playlist_act" where
  "repo_page after limit = query (page_rows after limit)"

definition scan_track :: "track_row \<Rightarrow> playlist_track" where
  "scan_track r = \<lparr>tr_id = pt_track r, tr_position = pt_position r,
     tr_added_by = pt_added_by r, tr_added_at = pt_added_at r\<rparr>"

definition tracks_of :: "uuid \<Rightarrow> playlist_db \<Rightarrow> playlist_track list" where
  "tracks_of i d = map scan_track (order_by pt_position (rows_of i d))"

definition repo_tracks :: "uuid \<Rightarrow> playlist_track list playlist_act" where
  "repo_tracks i = query (tracks_of i)"

definition repo_update_title :: "uuid \<Rightarrow> string \<Rightarrow> time \<Rightarrow> unit playlist_act" where
  "repo_update_title i title at = stmt (\<lambda>d.
     if affected (\<lambda>r. pr_id r = i) (playlists d) = 0 then Inl (Domain PlaylistNotFound)
     else if \<not> title_column_ok title then Inl Infra
     else Inr ((), d\<lparr>playlists := update_rows (\<lambda>r. pr_id r = i)
       (\<lambda>r. r\<lparr>pr_title := title, pr_updated_at := at\<rparr>) (playlists d)\<rparr>))"

definition repo_delete :: "uuid \<Rightarrow> bool playlist_act" where
  "repo_delete i = stmt (\<lambda>d. Inr (affected (\<lambda>r. pr_id r = i) (playlists d) = 1,
     d\<lparr>playlists := delete_rows (\<lambda>r. pr_id r = i) (playlists d),
       playlist_tracks := (if has_row pr_id i (playlists d)
         then delete_rows (\<lambda>r. pt_playlist r = i) (playlist_tracks d)
         else playlist_tracks d)\<rparr>))"

definition repo_lock :: "uuid \<Rightarrow> unit playlist_act" where
  "repo_lock i = bnd (query (\<lambda>d. has_row pr_id i (playlists d)))
     (\<lambda>found. if found then ret () else fail PlaylistNotFound)"

definition repo_touch :: "uuid \<Rightarrow> time \<Rightarrow> unit playlist_act" where
  "repo_touch i at = stmt (\<lambda>d. Inr ((), d\<lparr>playlists := update_rows (\<lambda>r. pr_id r = i)
     (\<lambda>r. r\<lparr>pr_updated_at := at\<rparr>) (playlists d)\<rparr>))"

text \<open>\<open>coalesce(max(position), 0) + 1\<close> over an \<open>int\<close> column.\<close>

definition next_position :: "uuid \<Rightarrow> playlist_db \<Rightarrow> int" where
  "next_position i d = foldr max (map pt_position (rows_of i d)) 0 + 1"

definition insert_track :: "uuid \<Rightarrow> playlist_track \<Rightarrow> int option playlist_act" where
  "insert_track i t = stmt (\<lambda>d.
     let pos = next_position i d in
     if 2147483647 < pos then Inl Infra
     else if has_row pt_key (i, tr_id t) (playlist_tracks d) then Inr (None, d)
     else if \<not> has_row pr_id i (playlists d) then Inl Infra
     else Inr (Some pos, d\<lparr>playlist_tracks := playlist_tracks d @
       [\<lparr>pt_playlist = i, pt_track = tr_id t, pt_position = pos,
         pt_added_by = tr_added_by t, pt_added_at = tr_added_at t\<rparr>]\<rparr>))"

definition repo_append_track :: "uuid \<Rightarrow> playlist_track \<Rightarrow> (playlist_track \<times> bool) playlist_act" where
  "repo_append_track i t = in_tx (\<lambda>_. True)
     (bnd (repo_lock i) (\<lambda>_.
      bnd (insert_track i t) (\<lambda>r.
        case r of None \<Rightarrow> ret (t, False)
        | Some pos \<Rightarrow> bnd (repo_touch i (tr_added_at t)) (\<lambda>_. ret (t\<lparr>tr_position := pos\<rparr>, True)))))"

definition delete_track :: "uuid \<Rightarrow> uuid \<Rightarrow> bool playlist_act" where
  "delete_track i track = stmt (\<lambda>d. Inr (affected (\<lambda>r. pt_key r = (i, track)) (playlist_tracks d) = 1,
     d\<lparr>playlist_tracks := delete_rows (\<lambda>r. pt_key r = (i, track)) (playlist_tracks d)\<rparr>))"

definition repo_remove_track :: "uuid \<Rightarrow> uuid \<Rightarrow> time \<Rightarrow> bool playlist_act" where
  "repo_remove_track i track at = in_tx (\<lambda>_. True)
     (bnd (repo_lock i) (\<lambda>_.
      bnd (delete_track i track) (\<lambda>removed.
        if removed then bnd (repo_touch i at) (\<lambda>_. ret True) else ret False)))"

text \<open>\<open>unnest(order) WITH ORDINALITY\<close> numbers the entries from 1.\<close>

fun ordinal :: "int \<Rightarrow> 'a list \<Rightarrow> 'a \<Rightarrow> int option" where
  "ordinal n [] x = None"
| "ordinal n (y # ys) x = (if x = y then Some n else ordinal (n + 1) ys x)"

definition set_positions :: "uuid \<Rightarrow> uuid list \<Rightarrow> track_row list \<Rightarrow> track_row list" where
  "set_positions i order rs = map (\<lambda>r.
     if pt_playlist r = i then
       (case ordinal 1 order (pt_track r) of Some n \<Rightarrow> r\<lparr>pt_position := n\<rparr> | None \<Rightarrow> r)
     else r) rs"

definition repo_reorder :: "uuid \<Rightarrow> uuid list \<Rightarrow> time \<Rightarrow> unit playlist_act" where
  "repo_reorder i order at = in_tx (\<lambda>_. True)
     (bnd (repo_lock i) (\<lambda>_.
      bnd (query (\<lambda>d. map scan_track (rows_of i d))) (\<lambda>current.
        case check_order current order of
          Inl e \<Rightarrow> fail e
        | Inr _ \<Rightarrow>
            bnd (stmt (\<lambda>d. Inr ((), d\<lparr>playlist_tracks := set_positions i order (playlist_tracks d)\<rparr>)))
              (\<lambda>_. repo_touch i at))))"

section \<open>Publisher\<close>

definition playlist_publish :: "uuid \<Rightarrow> string \<Rightarrow> time \<Rightarrow> playlist_event \<Rightarrow> unit playlist_act" where
  "playlist_publish i typ at payload =
     bnd (new_envelope typ 1 ''playlist-service'' at payload) (\<lambda>env.
       write_row \<lparr>msg_topic = ''playlist.events'', msg_key = i, msg_value = env,
         msg_headers = [(''event-type'', typ), (''event-version'', ''1''),
           (''content-type'', ''application/json'')]\<rparr>)"

definition pub_created :: "playlist \<Rightarrow> unit playlist_act" where
  "pub_created p = playlist_publish (pl_id p) ''playlist.created'' (pl_created_at p)
     (PlaylistCreated (pl_id p) (pl_owner p) (pl_title p) (pl_created_at p))"

definition pub_updated :: "playlist \<Rightarrow> unit playlist_act" where
  "pub_updated p = playlist_publish (pl_id p) ''playlist.updated'' (pl_updated_at p)
     (PlaylistUpdated (pl_id p) (pl_owner p) (pl_title p) (pl_updated_at p))"

definition pub_deleted :: "playlist \<Rightarrow> time \<Rightarrow> unit playlist_act" where
  "pub_deleted p at = playlist_publish (pl_id p) ''playlist.deleted'' at
     (PlaylistDeleted (pl_id p) (pl_owner p) at)"

definition pub_track_added :: "playlist \<Rightarrow> playlist_track \<Rightarrow> unit playlist_act" where
  "pub_track_added p t = playlist_publish (pl_id p) ''playlist.track_added'' (tr_added_at t)
     (TrackAdded (pl_id p) (pl_owner p) (tr_id t) (tr_position t) (tr_added_at t))"

definition pub_track_removed :: "playlist \<Rightarrow> uuid \<Rightarrow> time \<Rightarrow> unit playlist_act" where
  "pub_track_removed p track at = playlist_publish (pl_id p) ''playlist.track_removed'' at
     (TrackRemoved (pl_id p) (pl_owner p) track at)"

definition pub_tracks_reordered :: "playlist \<Rightarrow> uuid list \<Rightarrow> time \<Rightarrow> unit playlist_act" where
  "pub_tracks_reordered p order at = playlist_publish (pl_id p) ''playlist.tracks_reordered'' at
     (TracksReordered (pl_id p) (pl_owner p) order at)"

section \<open>Use cases\<close>

text \<open>\<open>Transactor.InTx\<close> over the service's schema.\<close>

definition playlist_tx :: "'a playlist_act \<Rightarrow> 'a playlist_act" where
  "playlist_tx m = in_tx positions_unique m"

definition stamp :: "time playlist_act" where
  "stamp = bnd now_utc (\<lambda>t. ret (time_truncate microsecond t))"

definition create_tx :: "playlist \<Rightarrow> unit playlist_act" where
  "create_tx p = playlist_tx (bnd (repo_create p) (\<lambda>_. pub_created p))"

definition create_playlist :: "uuid \<Rightarrow> string \<Rightarrow> playlist playlist_act" where
  "create_playlist owner title =
     (case normalize_title title of Inl e \<Rightarrow> fail e
      | Inr t \<Rightarrow> bnd stamp (\<lambda>now. bnd new_uuid (\<lambda>i.
          let p = \<lparr>pl_id = i, pl_owner = owner, pl_title = t, pl_track_count = 0,
                   pl_created_at = now, pl_updated_at = now\<rparr>
          in bnd (create_tx p) (\<lambda>_. ret p))))"

definition get_playlist :: "uuid \<Rightarrow> (playlist \<times> playlist_track list) playlist_act" where
  "get_playlist i = bnd (repo_get i) (\<lambda>p. bnd (repo_tracks i) (\<lambda>ts. ret (p, ts)))"

definition my_playlists :: "uuid \<Rightarrow> playlist list playlist_act" where
  "my_playlists owner = repo_by_owner owner"

definition all_playlists :: "uuid \<Rightarrow> int \<Rightarrow> playlist list playlist_act" where
  "all_playlists after limit =
     repo_page after (nat (if limit \<le> 0 \<or> 500 < limit then 500 else limit))"

definition owned :: "uuid \<Rightarrow> uuid \<Rightarrow> playlist playlist_act" where
  "owned caller i = bnd (repo_get i) (\<lambda>p.
     if pl_owner p \<noteq> caller then fail PlaylistForbidden else ret p)"

definition rename_tx :: "playlist \<Rightarrow> uuid \<Rightarrow> unit playlist_act" where
  "rename_tx p i = playlist_tx
     (bnd (repo_update_title i (pl_title p) (pl_updated_at p)) (\<lambda>_. pub_updated p))"

definition rename_playlist :: "uuid \<Rightarrow> uuid \<Rightarrow> string \<Rightarrow> playlist playlist_act" where
  "rename_playlist caller i title =
     (case normalize_title title of Inl e \<Rightarrow> fail e
      | Inr t \<Rightarrow> bnd (owned caller i) (\<lambda>p.
          if pl_title p = t then ret p
          else bnd stamp (\<lambda>now.
            let p1 = p\<lparr>pl_title := t, pl_updated_at := now\<rparr>
            in bnd (rename_tx p1 i) (\<lambda>_. ret p1))))"

definition delete_tx :: "playlist \<Rightarrow> uuid \<Rightarrow> unit playlist_act" where
  "delete_tx p i = playlist_tx (bnd (repo_delete i) (\<lambda>deleted.
     if \<not> deleted then ret () else bnd stamp (\<lambda>at. pub_deleted p at)))"

definition delete_playlist :: "uuid \<Rightarrow> uuid \<Rightarrow> unit playlist_act" where
  "delete_playlist caller i = bnd (owned caller i) (\<lambda>p. delete_tx p i)"

text \<open>\<open>TrackExists\<close> of the Catalog client: the status code, and the \<open>status\<close> of the body.\<close>

definition track_exists :: "uuid \<Rightarrow> unit playlist_act" where
  "track_exists track = bnd (call (\<lambda>catalog. Inr (catalog track, catalog))) (\<lambda>(code, body).
     if code = 404 then fail PlaylistTrackNotFound
     else if code \<noteq> 200 then raise Infra
     else case body of
       None \<Rightarrow> raise Infra
     | Some st \<Rightarrow> if st = ''DELETED'' then fail PlaylistTrackNotFound else ret ())"

definition add_track_tx :: "playlist \<Rightarrow> uuid \<Rightarrow> uuid \<Rightarrow> uuid \<Rightarrow> unit playlist_act" where
  "add_track_tx p caller i track = playlist_tx (bnd stamp (\<lambda>now.
     bnd (repo_append_track i \<lparr>tr_id = track, tr_position = 0, tr_added_by = caller, tr_added_at = now\<rparr>)
       (\<lambda>(t, added). if \<not> added then ret () else pub_track_added p t)))"

definition add_track :: "uuid \<Rightarrow> uuid \<Rightarrow> uuid \<Rightarrow> unit playlist_act" where
  "add_track caller i track = bnd (owned caller i) (\<lambda>p.
     bnd (track_exists track) (\<lambda>_. add_track_tx p caller i track))"

definition remove_track_tx :: "playlist \<Rightarrow> uuid \<Rightarrow> uuid \<Rightarrow> time \<Rightarrow> unit playlist_act" where
  "remove_track_tx p i track now = playlist_tx (bnd (repo_remove_track i track now) (\<lambda>removed.
     if \<not> removed then ret () else pub_track_removed p track now))"

definition remove_track :: "uuid \<Rightarrow> uuid \<Rightarrow> uuid \<Rightarrow> unit playlist_act" where
  "remove_track caller i track = bnd (owned caller i) (\<lambda>p.
     bnd stamp (\<lambda>now. remove_track_tx p i track now))"

definition reorder_tx :: "playlist \<Rightarrow> uuid \<Rightarrow> uuid list \<Rightarrow> time \<Rightarrow> unit playlist_act" where
  "reorder_tx p i order now = playlist_tx (bnd (repo_reorder i order now) (\<lambda>_.
     pub_tracks_reordered p order now))"

definition reorder_tracks :: "uuid \<Rightarrow> uuid \<Rightarrow> uuid list \<Rightarrow> unit playlist_act" where
  "reorder_tracks caller i order = bnd (owned caller i) (\<lambda>p.
     bnd stamp (\<lambda>now. reorder_tx p i order now))"

section \<open>What a consumer of the events sees\<close>

record playlist_view =
  vw_owner :: uuid
  vw_title :: string
  vw_tracks :: "uuid \<rightharpoonup> int"

definition at_view :: "uuid \<Rightarrow> (playlist_view \<Rightarrow> playlist_view) \<Rightarrow>
    (uuid \<rightharpoonup> playlist_view) \<Rightarrow> (uuid \<rightharpoonup> playlist_view)" where
  "at_view i f v = v(i := map_option f (v i))"

fun apply_event :: "playlist_event \<Rightarrow> (uuid \<rightharpoonup> playlist_view) \<Rightarrow> (uuid \<rightharpoonup> playlist_view)" where
  "apply_event (PlaylistCreated i owner title at) v =
     v(i \<mapsto> \<lparr>vw_owner = owner, vw_title = title, vw_tracks = Map.empty\<rparr>)"
| "apply_event (PlaylistUpdated i owner title at) v = at_view i (\<lambda>x. x\<lparr>vw_title := title\<rparr>) v"
| "apply_event (PlaylistDeleted i owner at) v = v(i := None)"
| "apply_event (TrackAdded i owner t pos at) v =
     at_view i (\<lambda>x. x\<lparr>vw_tracks := (vw_tracks x)(t \<mapsto> pos)\<rparr>) v"
| "apply_event (TrackRemoved i owner t at) v =
     at_view i (\<lambda>x. x\<lparr>vw_tracks := (vw_tracks x)(t := None)\<rparr>) v"
| "apply_event (TracksReordered i owner order at) v =
     at_view i (\<lambda>x. x\<lparr>vw_tracks := ordinal 1 order\<rparr>) v"

definition replay :: "playlist_event message list \<Rightarrow> (uuid \<rightharpoonup> playlist_view)" where
  "replay l = fold (\<lambda>m. apply_event (env_payload (msg_value m))) l Map.empty"

definition position_map :: "uuid \<Rightarrow> track_row list \<Rightarrow> (uuid \<rightharpoonup> int)" where
  "position_map i rs t = map_option pt_position (row_with pt_key (i, t) rs)"

definition playlist_abs :: "playlist_db \<Rightarrow> (uuid \<rightharpoonup> playlist_view)" where
  "playlist_abs d i = map_option (\<lambda>r. \<lparr>vw_owner = pr_owner r, vw_title = pr_title r,
     vw_tracks = position_map i (playlist_tracks d)\<rparr>) (row_with pr_id i (playlists d))"

text \<open>The constraints of the schema, as an invariant of the committed tables.\<close>

definition playlist_ok :: "playlist_db \<Rightarrow> bool" where
  "playlist_ok d \<longleftrightarrow> unique_on pr_id (playlists d) \<and> unique_on pt_key (playlist_tracks d) \<and>
     positions_unique d \<and>
     (\<forall>r \<in> set (playlist_tracks d). 0 < pt_position r \<and> has_row pr_id (pt_playlist r) (playlists d)) \<and>
     (\<forall>r \<in> set (playlists d). title_column_ok (pr_title r))"

definition playlist_inv :: "playlist_db \<Rightarrow> playlist_event message list \<Rightarrow> bool" where
  "playlist_inv d l \<longleftrightarrow> playlist_ok d \<and> replay l = playlist_abs d"

lemma replay_snoc: "replay (l @ [m]) = apply_event (env_payload (msg_value m)) (replay l)"
  by (simp add: replay_def)

subsection \<open>The statements on the tables\<close>

lemma playlist_ok_create:
  assumes "playlist_ok d" "\<not> has_row pr_id (pr_id r) (playlists d)" "title_column_ok (pr_title r)"
  shows "playlist_ok (d\<lparr>playlists := playlists d @ [r]\<rparr>)"
  using assms by (auto simp: playlist_ok_def positions_unique_def has_row_iff)

lemma playlist_abs_create:
  assumes "playlist_ok d" "\<not> has_row pr_id (pr_id r) (playlists d)"
  shows "playlist_abs (d\<lparr>playlists := playlists d @ [r]\<rparr>) =
    (playlist_abs d)(pr_id r \<mapsto> \<lparr>vw_owner = pr_owner r, vw_title = pr_title r, vw_tracks = Map.empty\<rparr>)"
proof
  fix i
  have "position_map (pr_id r) (playlist_tracks d) = Map.empty"
    using assms by (auto simp: playlist_ok_def position_map_def row_with_None_iff fun_eq_iff)
  moreover have "row_with pr_id (pr_id r) (playlists d) = None"
    using assms(2) by (simp add: has_row_row_with)
  ultimately show "playlist_abs (d\<lparr>playlists := playlists d @ [r]\<rparr>) i = ((playlist_abs d)
      (pr_id r \<mapsto> \<lparr>vw_owner = pr_owner r, vw_title = pr_title r, vw_tracks = Map.empty\<rparr>)) i"
    by (auto simp: playlist_abs_def row_with_append split: option.splits)
qed

lemma has_row_update: "(\<And>r. key (f r) = key r) \<Longrightarrow>
    has_row key k (update_rows p f rs) = has_row key k rs"
  by (simp add: has_row_iff flip: set_map) (simp add: map_update_rows del: set_map)

lemma playlist_ok_update:
  assumes "playlist_ok d" "\<And>r. pr_id (f r) = pr_id r"
    "\<And>r. title_column_ok (pr_title r) \<Longrightarrow> title_column_ok (pr_title (f r))"
  shows "playlist_ok (d\<lparr>playlists := update_rows p f (playlists d)\<rparr>)"
  using assms by (auto simp: playlist_ok_def positions_unique_def unique_on_update has_row_update set_update_rows)

lemma playlist_abs_title:
  "playlist_abs (d\<lparr>playlists := update_rows (\<lambda>r. pr_id r = i)
      (\<lambda>r. r\<lparr>pr_title := title, pr_updated_at := at\<rparr>) (playlists d)\<rparr>) =
   at_view i (\<lambda>x. x\<lparr>vw_title := title\<rparr>) (playlist_abs d)"
  by (auto simp: playlist_abs_def at_view_def row_with_update_key fun_eq_iff option.map_comp comp_def)

lemma playlist_abs_touch [simp]:
  "playlist_abs (d\<lparr>playlists := update_rows (\<lambda>r. pr_id r = i) (\<lambda>r. r\<lparr>pr_updated_at := at\<rparr>) (playlists d)\<rparr>) =
   playlist_abs d"
  by (auto simp: playlist_abs_def row_with_update_key fun_eq_iff option.map_comp comp_def)

lemma playlist_ok_touch:
  "playlist_ok d \<Longrightarrow> playlist_ok (d\<lparr>playlists := update_rows p (\<lambda>r. r\<lparr>pr_updated_at := at\<rparr>) (playlists d)\<rparr>)"
  by (rule playlist_ok_update) simp_all

lemma playlist_ok_delete:
  assumes "playlist_ok d"
  shows "playlist_ok (d\<lparr>playlists := delete_rows (\<lambda>r. pr_id r = i) (playlists d),
      playlist_tracks := delete_rows (\<lambda>r. pt_playlist r = i) (playlist_tracks d)\<rparr>)"
  using assms by (auto simp: playlist_ok_def positions_unique_def unique_on_delete has_row_iff)

lemma playlist_abs_delete:
  assumes "playlist_ok d"
  shows "playlist_abs (d\<lparr>playlists := delete_rows (\<lambda>r. pr_id r = i) (playlists d),
      playlist_tracks := delete_rows (\<lambda>r. pt_playlist r = i) (playlist_tracks d)\<rparr>) =
    (playlist_abs d)(i := None)"
proof -
  have pos: "position_map j (delete_rows (\<lambda>r. pt_playlist r = i) (playlist_tracks d)) =
      position_map j (playlist_tracks d)" if "j \<noteq> i" for j
  proof
    fix t
    have u: "unique_on pt_key (playlist_tracks d)" using assms by (simp add: playlist_ok_def)
    show "position_map j (delete_rows (\<lambda>r. pt_playlist r = i) (playlist_tracks d)) t =
        position_map j (playlist_tracks d) t"
    proof (cases "row_with pt_key (j, t) (playlist_tracks d)")
      case None
      then show ?thesis by (simp add: position_map_def row_with_delete [OF u])
    next
      case (Some r)
      then have "pt_playlist r = j" by (auto dest: row_with_SomeD)
      with Some that show ?thesis by (simp add: position_map_def row_with_delete [OF u])
    qed
  qed
  show ?thesis
    by (rule ext) (simp add: playlist_abs_def row_with_delete_key pos)
qed

lemma next_position_gt:
  assumes "r \<in> set (playlist_tracks d)" "pt_playlist r = i"
  shows "pt_position r < next_position i d"
proof -
  have "x \<in> set xs \<Longrightarrow> x \<le> foldr max xs (0::int)" for x xs by (induction xs) auto
  from this [of "pt_position r" "map pt_position (rows_of i d)"] assms show ?thesis
    by (auto simp: next_position_def rows_of_def)
qed

lemma next_position_pos: "0 < next_position i d"
proof -
  have "0 \<le> foldr max xs (0::int)" for xs by (induction xs) auto
  then show ?thesis by (simp add: next_position_def add_pos_pos le_imp_0_less)
qed

lemma playlist_ok_insert:
  assumes "playlist_ok d" "has_row pr_id (pt_playlist r) (playlists d)"
    "\<not> has_row pt_key (pt_key r) (playlist_tracks d)"
    "pt_position r = next_position (pt_playlist r) d"
  shows "playlist_ok (d\<lparr>playlist_tracks := playlist_tracks d @ [r]\<rparr>)"
  using assms next_position_gt [of _ d "pt_playlist r"] next_position_pos
  by (fastforce simp: playlist_ok_def positions_unique_def has_row_iff)

lemma playlist_abs_insert:
  assumes "\<not> has_row pt_key (pt_key r) (playlist_tracks d)"
  shows "playlist_abs (d\<lparr>playlist_tracks := playlist_tracks d @ [r]\<rparr>) =
    at_view (pt_playlist r) (\<lambda>x. x\<lparr>vw_tracks := (vw_tracks x)(pt_track r \<mapsto> pt_position r)\<rparr>) (playlist_abs d)"
proof -
  have "row_with pt_key (pt_key r) (playlist_tracks d) = None"
    using assms by (simp add: has_row_row_with)
  then have pos: "position_map i (playlist_tracks d @ [r]) = (if i = pt_playlist r
      then (position_map i (playlist_tracks d))(pt_track r \<mapsto> pt_position r)
      else position_map i (playlist_tracks d))" for i
    by (auto simp: position_map_def row_with_append fun_eq_iff split: option.splits)
  show ?thesis
    by (rule ext) (simp add: playlist_abs_def at_view_def option.map_comp comp_def pos)
qed

lemma playlist_ok_remove:
  "playlist_ok d \<Longrightarrow> playlist_ok (d\<lparr>playlist_tracks := delete_rows (\<lambda>r. pt_key r = k) (playlist_tracks d)\<rparr>)"
  by (auto simp: playlist_ok_def positions_unique_def unique_on_delete)

lemma playlist_abs_remove:
  "playlist_abs (d\<lparr>playlist_tracks := delete_rows (\<lambda>r. pt_key r = (i, t)) (playlist_tracks d)\<rparr>) =
    at_view i (\<lambda>x. x\<lparr>vw_tracks := (vw_tracks x)(t := None)\<rparr>) (playlist_abs d)"
proof -
  have pos: "position_map j (delete_rows (\<lambda>r. pt_key r = (i, t)) (playlist_tracks d)) = (if j = i
      then (position_map i (playlist_tracks d))(t := None) else position_map j (playlist_tracks d))" for j
    unfolding position_map_def fun_eq_iff row_with_delete_key [of pt_key] by auto
  show ?thesis
    by (rule ext) (simp add: playlist_abs_def at_view_def option.map_comp comp_def pos [simplified])
qed

subsection \<open>Reordering\<close>

lemma order_loop_iff:
  "order_loop current seen order = Inr () \<longleftrightarrow>
     distinct order \<and> set order \<inter> set seen = {} \<and> set order \<subseteq> tr_id ` set current"
  by (induction current seen order rule: order_loop.induct) (auto simp: list_ex_iff)

lemma distinct_subset_length:
  assumes "distinct xs" "set xs \<subseteq> set ys" "length xs = length ys"
  shows "mset xs = mset ys"
proof -
  have "card (set ys) \<le> card (set xs)"
    using assms(1,3) card_length [of ys] by (simp add: distinct_card)
  then have eq: "set xs = set ys" using assms(2) by (intro card_seteq) simp_all
  then have "distinct ys" using assms(1,3) by (metis card_distinct distinct_card)
  with eq assms(1) show ?thesis by (simp add: set_eq_iff_mset_eq_distinct)
qed

lemma check_order_iff:
  "check_order current order = Inr () \<longleftrightarrow>
     distinct order \<and> mset order = mset (map tr_id current)"
proof
  assume ok: "check_order current order = Inr ()"
  then have "length order = length current" and loop: "order_loop current [] order = Inr ()"
    by (auto simp: check_order_def split: if_splits)
  then show "distinct order \<and> mset order = mset (map tr_id current)"
    using distinct_subset_length [of order "map tr_id current"] by (simp add: order_loop_iff)
next
  assume ok: "distinct order \<and> mset order = mset (map tr_id current)"
  then have "length order = length current" by (metis length_map size_mset)
  moreover have "set order = tr_id ` set current" using ok by (metis set_map set_mset_mset)
  ultimately show "check_order current order = Inr ()"
    using ok by (simp add: check_order_def order_loop_iff)
qed

lemma ordinal_None_iff: "ordinal n ys x = None \<longleftrightarrow> x \<notin> set ys"
  by (induction ys arbitrary: n) auto

lemma ordinal_ge: "ordinal n ys x = Some k \<Longrightarrow> n \<le> k"
proof (induction ys arbitrary: n)
  case (Cons y ys)
  show ?case
  proof (cases "x = y")
    case False
    with Cons.prems have "ordinal (n + 1) ys x = Some k" by simp
    then have "n + 1 \<le> k" by (rule Cons.IH)
    then show ?thesis by simp
  qed (use Cons.prems in simp)
qed simp

lemma ordinal_inj: "ordinal n ys x = Some k \<Longrightarrow> ordinal n ys y = Some k \<Longrightarrow> x = y"
proof (induction ys arbitrary: n)
  case (Cons z ys)
  then show ?case
    using ordinal_ge [of "n + 1" ys _ k] by (cases "x = z"; cases "y = z") auto
qed simp

lemma ordinal_nth: "k < length ys \<Longrightarrow> distinct ys \<Longrightarrow> ordinal n ys (ys ! k) = Some (n + int k)"
proof (induction ys arbitrary: n k)
  case (Cons y ys)
  show ?case
  proof (cases k)
    case (Suc j)
    with Cons.prems have "ys ! j \<noteq> y" by (auto simp: in_set_conv_nth)
    with Suc Cons show ?thesis by simp
  qed simp
qed simp

definition reposition :: "uuid \<Rightarrow> uuid list \<Rightarrow> track_row \<Rightarrow> track_row" where
  "reposition i order r =
     (if pt_playlist r = i then
       (case ordinal 1 order (pt_track r) of Some n \<Rightarrow> r\<lparr>pt_position := n\<rparr> | None \<Rightarrow> r)
      else r)"

lemma set_positions_map: "set_positions i order rs = map (reposition i order) rs"
  by (simp add: set_positions_def reposition_def [abs_def])

lemma reposition_key [simp]:
  "pt_playlist (reposition i order r) = pt_playlist r" "pt_track (reposition i order r) = pt_track r"
  by (simp_all add: reposition_def split: option.splits)

lemma reposition_pos: "0 < pt_position r \<Longrightarrow> 0 < pt_position (reposition i order r)"
  using ordinal_ge [of 1 order "pt_track r"] by (auto simp: reposition_def split: option.splits)

lemma reposition_clash:
  assumes "pt_playlist r = pt_playlist q"
    "pt_position (reposition i order r) = pt_position (reposition i order q)"
    "\<And>x. x \<in> {r, q} \<Longrightarrow> pt_playlist x = i \<Longrightarrow> pt_track x \<in> set order"
  shows "pt_position r = pt_position q \<or> pt_track r = pt_track q"
proof (cases "pt_playlist r = i")
  case True
  then have "ordinal 1 order (pt_track r) \<noteq> None" "ordinal 1 order (pt_track q) \<noteq> None"
    using assms(1,3) by (auto simp: ordinal_None_iff)
  then show ?thesis
    using True assms(1,2) ordinal_inj by (fastforce simp: reposition_def)
next
  case False
  with assms(1,2) show ?thesis by (simp add: reposition_def)
qed

lemma unique_on_reposition:
  assumes "unique_on pt_key rs" "unique_on (\<lambda>r. (pt_playlist r, pt_position r)) rs"
    "\<And>r. r \<in> set rs \<Longrightarrow> pt_playlist r = i \<Longrightarrow> pt_track r \<in> set order"
  shows "unique_on (\<lambda>r. (pt_playlist r, pt_position r)) (map (reposition i order) rs)"
  using assms
proof (induction rs)
  case (Cons r rs)
  have "(pt_playlist r, pt_position (reposition i order r)) \<noteq>
      (pt_playlist q, pt_position (reposition i order q))" if "q \<in> set rs" for q
  proof
    assume "(pt_playlist r, pt_position (reposition i order r)) =
      (pt_playlist q, pt_position (reposition i order q))"
    then have "pt_position r = pt_position q \<or> pt_track r = pt_track q" and "pt_playlist r = pt_playlist q"
      using reposition_clash [of r q i order] Cons.prems(3) that by auto
    with that Cons.prems(1,2) show False by (auto simp: unique_on_def image_iff)
  qed
  moreover have "unique_on (\<lambda>r. (pt_playlist r, pt_position r)) (map (reposition i order) rs)"
    using Cons by (intro Cons.IH) (auto simp: unique_on_def)
  ultimately show ?case by (auto simp: unique_on_def comp_def)
qed simp

lemma row_with_map:
  assumes "\<And>r. key (f r) = key r"
  shows "row_with key k (map f rs) = map_option f (row_with key k rs)"
  using assms by (induction rs) (auto simp: row_with_def)

definition order_matches :: "uuid \<Rightarrow> uuid list \<Rightarrow> playlist_db \<Rightarrow> bool" where
  "order_matches i order d \<longleftrightarrow> distinct order \<and> mset order = mset (map pt_track (rows_of i d))"

lemma order_matches_mem:
  "order_matches i order d \<Longrightarrow> t \<in> set order \<longleftrightarrow> has_row pt_key (i, t) (playlist_tracks d)"
proof -
  assume "order_matches i order d"
  then have "set order = pt_track ` set (rows_of i d)"
    by (metis order_matches_def set_map set_mset_mset)
  then show ?thesis by (auto simp: rows_of_def has_row_iff)
qed

lemma playlist_ok_reorder:
  assumes "playlist_ok d" "order_matches i order d"
  shows "playlist_ok (d\<lparr>playlist_tracks := set_positions i order (playlist_tracks d)\<rparr>)"
proof -
  have ok: "unique_on pt_key (playlist_tracks d)" "positions_unique d"
    using assms(1) by (simp_all add: playlist_ok_def)
  have "unique_on pt_key (map (reposition i order) (playlist_tracks d))"
    using ok(1) by (simp add: unique_on_def comp_def)
  moreover have "unique_on (\<lambda>r. (pt_playlist r, pt_position r))
      (map (reposition i order) (playlist_tracks d))"
    using ok order_matches_mem [OF assms(2)]
    by (intro unique_on_reposition) (auto simp: positions_unique_def has_row_iff)
  ultimately show ?thesis
    using assms(1) by (auto simp: playlist_ok_def positions_unique_def set_positions_map reposition_pos)
qed

lemma playlist_abs_reorder:
  assumes "order_matches i order d"
  shows "playlist_abs (d\<lparr>playlist_tracks := set_positions i order (playlist_tracks d)\<rparr>) =
    at_view i (\<lambda>x. x\<lparr>vw_tracks := ordinal 1 order\<rparr>) (playlist_abs d)"
proof -
  have pos: "position_map j (map (reposition i order) (playlist_tracks d)) =
      (if j = i then ordinal 1 order else position_map j (playlist_tracks d))" for j
  proof
    fix t
    show "position_map j (map (reposition i order) (playlist_tracks d)) t =
        (if j = i then ordinal 1 order else position_map j (playlist_tracks d)) t"
    proof (cases "row_with pt_key (j, t) (playlist_tracks d)")
      case None
      then have "j = i \<Longrightarrow> ordinal 1 order t = None"
        using order_matches_mem [OF assms, of t] by (simp add: ordinal_None_iff has_row_row_with)
      with None show ?thesis by (simp add: position_map_def row_with_map)
    next
      case (Some r)
      then have r: "pt_playlist r = j" "pt_track r = t" by (auto dest: row_with_SomeD)
      have "j = i \<Longrightarrow> \<exists>n. ordinal 1 order t = Some n"
        using order_matches_mem [OF assms, of t] Some ordinal_None_iff [of 1 order t]
        by (auto simp: has_row_row_with)
      then show ?thesis
        using r by (auto simp: position_map_def row_with_map [of pt_key "reposition i order"] Some)
          (auto simp: reposition_def)
    qed
  qed
  show ?thesis
    by (rule ext) (simp add: playlist_abs_def at_view_def option.map_comp comp_def pos set_positions_map)
qed

section \<open>The transactions\<close>

text \<open>
  A successful body, read backwards through its statements: what it did to the tables and
  which message it logged. The snapshot \<open>p\<close> was read before the transaction began and may be
  stale; only its identifier has to be the one the transaction works on.
\<close>

lemmas repo_defs = repo_create_def repo_update_title_def repo_delete_def repo_lock_def
  repo_touch_def insert_track_def repo_append_track_def delete_track_def repo_remove_track_def
  repo_reorder_def

lemmas pub_defs = playlist_publish_def pub_created_def pub_updated_def pub_deleted_def
  pub_track_added_def pub_track_removed_def pub_tracks_reordered_def

text \<open>Logging one event inside a transaction.\<close>

lemma publish_Inr:
  "playlist_publish i typ at e w = (Inr u, w1) \<Longrightarrow>
     db w1 = db w \<and> (\<exists>m. log w1 = log w @ [m] \<and> env_payload (msg_value m) = e \<and>
       msg_key m = i \<and> msg_topic m = ''playlist.events'')"
  by (auto simp: playlist_publish_def act_inv) (simp add: log_def)

definition logs :: "playlist_event message list \<Rightarrow> playlist_event \<Rightarrow> uuid \<Rightarrow>
    playlist_event message list \<Rightarrow> bool" where
  "logs l e i l1 \<longleftrightarrow> (\<exists>m. l1 = l @ [m] \<and> env_payload (msg_value m) = e \<and> msg_key m = i \<and>
     msg_topic m = ''playlist.events'')"

lemma publish_logs:
  "playlist_publish i typ at e w = (Inr u, w1) \<Longrightarrow> db w1 = db w \<and> logs (log w) e i (log w1)"
  by (auto dest!: publish_Inr simp: logs_def)

lemma replay_logs: "logs l e i l1 \<Longrightarrow> replay l1 = apply_event e (replay l)"
  by (auto simp: logs_def replay_snoc)

lemma inv_logs:
  "playlist_inv d l \<Longrightarrow> logs l e i l1 \<Longrightarrow> playlist_ok d1 \<Longrightarrow> playlist_abs d1 = apply_event e (playlist_abs d) \<Longrightarrow>
    playlist_inv d1 l1"
  by (simp add: playlist_inv_def replay_logs)

text \<open>The committed effects of the use cases.\<close>

definition create_effect :: "playlist \<Rightarrow> unit \<Rightarrow> playlist_db \<Rightarrow> playlist_event message list \<Rightarrow>
    playlist_db \<Rightarrow> playlist_event message list \<Rightarrow> bool" where
  "create_effect p u d l d1 l1 \<longleftrightarrow>
     \<not> has_row pr_id (pl_id p) (playlists d) \<and> title_column_ok (pl_title p) \<and>
     d1 = d\<lparr>playlists := playlists d @
       [\<lparr>pr_id = pl_id p, pr_owner = pl_owner p, pr_title = pl_title p,
         pr_created_at = pl_created_at p, pr_updated_at = pl_updated_at p\<rparr>]\<rparr> \<and>
     logs l (PlaylistCreated (pl_id p) (pl_owner p) (pl_title p) (pl_created_at p)) (pl_id p) l1"

lemma create_body:
  "bnd (repo_create p) (\<lambda>_. pub_created p) w = (Inr u, w1) \<Longrightarrow>
     create_effect p u (db w) (log w) (db w1) (log w1)"
  by (auto simp: repo_create_def act_inv pub_created_def create_effect_def
      dest!: publish_logs split: if_splits)

definition touched :: "uuid \<Rightarrow> time \<Rightarrow> playlist_db \<Rightarrow> playlist_db" where
  "touched i at d = d\<lparr>playlists := update_rows (\<lambda>r. pr_id r = i)
     (\<lambda>r. r\<lparr>pr_updated_at := at\<rparr>) (playlists d)\<rparr>"

definition rename_effect :: "playlist \<Rightarrow> uuid \<Rightarrow> unit \<Rightarrow> playlist_db \<Rightarrow>
    playlist_event message list \<Rightarrow> playlist_db \<Rightarrow> playlist_event message list \<Rightarrow> bool" where
  "rename_effect p i u d l d1 l1 \<longleftrightarrow>
     has_row pr_id i (playlists d) \<and> title_column_ok (pl_title p) \<and>
     d1 = d\<lparr>playlists := update_rows (\<lambda>r. pr_id r = i)
       (\<lambda>r. r\<lparr>pr_title := pl_title p, pr_updated_at := pl_updated_at p\<rparr>) (playlists d)\<rparr> \<and>
     logs l (PlaylistUpdated (pl_id p) (pl_owner p) (pl_title p) (pl_updated_at p)) (pl_id p) l1"

lemma rename_body:
  "bnd (repo_update_title i (pl_title p) (pl_updated_at p)) (\<lambda>_. pub_updated p) w = (Inr u, w1) \<Longrightarrow>
     rename_effect p i u (db w) (log w) (db w1) (log w1)"
  by (auto simp: repo_update_title_def act_inv pub_updated_def rename_effect_def affected_key
      dest!: publish_logs split: if_splits)

definition delete_effect :: "playlist \<Rightarrow> uuid \<Rightarrow> unit \<Rightarrow> playlist_db \<Rightarrow>
    playlist_event message list \<Rightarrow> playlist_db \<Rightarrow> playlist_event message list \<Rightarrow> bool" where
  "delete_effect p i u d l d1 l1 \<longleftrightarrow>
     d1 = d\<lparr>playlists := delete_rows (\<lambda>r. pr_id r = i) (playlists d),
       playlist_tracks := (if has_row pr_id i (playlists d)
         then delete_rows (\<lambda>r. pt_playlist r = i) (playlist_tracks d) else playlist_tracks d)\<rparr> \<and>
     (if affected (\<lambda>r. pr_id r = i) (playlists d) = 1
      then \<exists>at. logs l (PlaylistDeleted (pl_id p) (pl_owner p) at) (pl_id p) l1 else l1 = l)"

lemma stamp_Inr [act_inv]:
  "stamp w = (Inr t, w1) \<longleftrightarrow> t = time_truncate microsecond (clock w (tick w)) \<and> w1 = advance w"
  by (auto simp: stamp_def act_inv)

lemma delete_body:
  "bnd (repo_delete i) (\<lambda>deleted. if \<not> deleted then ret () else bnd stamp (\<lambda>at. pub_deleted p at)) w =
     (Inr u, w1) \<Longrightarrow> delete_effect p i u (db w) (log w) (db w1) (log w1)"
  by (auto simp: repo_delete_def act_inv pub_deleted_def delete_effect_def
      dest!: publish_logs split: if_splits)

definition add_effect :: "playlist \<Rightarrow> uuid \<Rightarrow> uuid \<Rightarrow> uuid \<Rightarrow> unit \<Rightarrow> playlist_db \<Rightarrow>
    playlist_event message list \<Rightarrow> playlist_db \<Rightarrow> playlist_event message list \<Rightarrow> bool" where
  "add_effect p caller i track u d l d1 l1 \<longleftrightarrow> has_row pr_id i (playlists d) \<and>
     (if has_row pt_key (i, track) (playlist_tracks d) then d1 = d \<and> l1 = l
      else \<exists>now. d1 = touched i now (d\<lparr>playlist_tracks := playlist_tracks d @
          [\<lparr>pt_playlist = i, pt_track = track, pt_position = next_position i d,
            pt_added_by = caller, pt_added_at = now\<rparr>]\<rparr>) \<and>
        logs l (TrackAdded (pl_id p) (pl_owner p) track (next_position i d) now) (pl_id p) l1)"

lemma append_Inr:
  "repo_append_track i t w = (Inr (t1, added), w1) \<Longrightarrow> log w1 = log w \<and>
     has_row pr_id i (playlists (db w)) \<and> (added \<longleftrightarrow> \<not> has_row pt_key (i, tr_id t) (playlist_tracks (db w))) \<and>
     (if added then t1 = t\<lparr>tr_position := next_position i (db w)\<rparr> \<and>
        db w1 = touched i (tr_added_at t) ((db w)\<lparr>playlist_tracks := playlist_tracks (db w) @
          [\<lparr>pt_playlist = i, pt_track = tr_id t, pt_position = next_position i (db w),
            pt_added_by = tr_added_by t, pt_added_at = tr_added_at t\<rparr>]\<rparr>)
      else db w1 = db w)"
  by (auto simp: repo_append_track_def repo_lock_def insert_track_def repo_touch_def touched_def
      act_inv Let_def split: if_splits option.splits)

lemma add_body:
  "bnd stamp (\<lambda>now. bnd (repo_append_track i
       \<lparr>tr_id = track, tr_position = 0, tr_added_by = caller, tr_added_at = now\<rparr>)
       (\<lambda>(t, added). if \<not> added then ret () else pub_track_added p t)) w = (Inr u, w1) \<Longrightarrow>
     add_effect p caller i track u (db w) (log w) (db w1) (log w1)"
  by (auto simp: act_inv add_effect_def pub_track_added_def
      dest!: append_Inr publish_logs split: if_splits)

definition remove_effect :: "playlist \<Rightarrow> uuid \<Rightarrow> uuid \<Rightarrow> time \<Rightarrow> unit \<Rightarrow> playlist_db \<Rightarrow>
    playlist_event message list \<Rightarrow> playlist_db \<Rightarrow> playlist_event message list \<Rightarrow> bool" where
  "remove_effect p i track now u d l d1 l1 \<longleftrightarrow> has_row pr_id i (playlists d) \<and>
     (if affected (\<lambda>r. pt_key r = (i, track)) (playlist_tracks d) = 1
      then d1 = touched i now (d\<lparr>playlist_tracks :=
             delete_rows (\<lambda>r. pt_key r = (i, track)) (playlist_tracks d)\<rparr>) \<and>
           logs l (TrackRemoved (pl_id p) (pl_owner p) track now) (pl_id p) l1
      else d1 = d\<lparr>playlist_tracks := delete_rows (\<lambda>r. pt_key r = (i, track)) (playlist_tracks d)\<rparr> \<and>
           l1 = l)"

lemma remove_Inr:
  "repo_remove_track i track now w = (Inr removed, w1) \<Longrightarrow> log w1 = log w \<and>
     has_row pr_id i (playlists (db w)) \<and>
     removed = (affected (\<lambda>r. pt_key r = (i, track)) (playlist_tracks (db w)) = 1) \<and>
     (if removed then db w1 = touched i now ((db w)\<lparr>playlist_tracks :=
             delete_rows (\<lambda>r. pt_key r = (i, track)) (playlist_tracks (db w))\<rparr>)
      else db w1 = (db w)\<lparr>playlist_tracks := delete_rows (\<lambda>r. pt_key r = (i, track)) (playlist_tracks (db w))\<rparr>)"
  by (auto simp: repo_remove_track_def repo_lock_def delete_track_def repo_touch_def touched_def
      act_inv split: if_splits)

lemma remove_body:
  "bnd (repo_remove_track i track now) (\<lambda>removed.
     if \<not> removed then ret () else pub_track_removed p track now) w = (Inr u, w1) \<Longrightarrow>
     remove_effect p i track now u (db w) (log w) (db w1) (log w1)"
  by (auto simp: act_inv remove_effect_def pub_track_removed_def
      dest!: remove_Inr publish_logs split: if_splits)

definition reorder_effect :: "playlist \<Rightarrow> uuid \<Rightarrow> uuid list \<Rightarrow> time \<Rightarrow> unit \<Rightarrow> playlist_db \<Rightarrow>
    playlist_event message list \<Rightarrow> playlist_db \<Rightarrow> playlist_event message list \<Rightarrow> bool" where
  "reorder_effect p i order now u d l d1 l1 \<longleftrightarrow>
     has_row pr_id i (playlists d) \<and> order_matches i order d \<and>
     d1 = touched i now (d\<lparr>playlist_tracks := set_positions i order (playlist_tracks d)\<rparr>) \<and>
     logs l (TracksReordered (pl_id p) (pl_owner p) order now) (pl_id p) l1"

lemma order_matches_check:
  "check_order (map scan_track (rows_of i d)) order = Inr () \<longleftrightarrow> order_matches i order d"
  by (simp add: check_order_iff order_matches_def scan_track_def comp_def)

lemma reorder_Inr:
  "repo_reorder i order now w = (Inr u, w1) \<Longrightarrow> log w1 = log w \<and>
     has_row pr_id i (playlists (db w)) \<and> order_matches i order (db w) \<and>
     db w1 = touched i now ((db w)\<lparr>playlist_tracks := set_positions i order (playlist_tracks (db w))\<rparr>)"
  by (auto simp: repo_reorder_def repo_lock_def repo_touch_def touched_def act_inv
      order_matches_check [symmetric] split: if_splits sum.splits)

lemma reorder_body:
  "bnd (repo_reorder i order now) (\<lambda>_. pub_tracks_reordered p order now) w = (Inr u, w1) \<Longrightarrow>
     reorder_effect p i order now u (db w) (log w) (db w1) (log w1)"
  by (auto simp: act_inv reorder_effect_def pub_tracks_reordered_def dest!: reorder_Inr publish_logs)

text \<open>Each effect, on a transaction whose snapshot has the right identifier, keeps the invariant.\<close>

lemma playlist_inv_touched:
  "playlist_inv d l \<Longrightarrow> playlist_inv (touched i at d) l"
  by (simp add: playlist_inv_def touched_def playlist_ok_touch)

lemma touched_simps [simp]:
  "playlist_abs (touched i at d) = playlist_abs d"
  "playlist_ok d \<Longrightarrow> playlist_ok (touched i at d)"
  by (simp_all add: touched_def playlist_ok_touch)

lemma inv_okD: "playlist_inv d l \<Longrightarrow> playlist_ok d"
  by (simp add: playlist_inv_def)

lemma create_effect_inv:
  assumes "create_effect p u d l d1 l1" "playlist_inv d l"
  shows "playlist_inv d1 l1"
  using assms inv_okD [OF assms(2)]
  by (auto simp: create_effect_def playlist_abs_create elim!: inv_logs intro!: playlist_ok_create)

lemma rename_effect_inv:
  assumes "rename_effect p i u d l d1 l1" "pl_id p = i" "playlist_inv d l"
  shows "playlist_inv d1 l1"
  using assms inv_okD [OF assms(3)]
  by (auto simp: rename_effect_def playlist_abs_title elim!: inv_logs intro!: playlist_ok_update)

lemma delete_rows_none: "\<not> has_row key k rs \<Longrightarrow> delete_rows (\<lambda>r. key r = k) rs = rs"
  by (auto simp: delete_rows_def has_row_iff filter_id_conv)

lemma delete_effect_inv:
  assumes "delete_effect p i u d l d1 l1" "pl_id p = i" "playlist_inv d l"
  shows "playlist_inv d1 l1"
proof (cases "has_row pr_id i (playlists d)")
  case True
  have "unique_on pr_id (playlists d)" using assms(3) by (simp add: playlist_inv_def playlist_ok_def)
  then have "affected (\<lambda>r. pr_id r = i) (playlists d) = 1"
    using True affected_unique [of pr_id "playlists d" i] affected_key [of pr_id i "playlists d"]
    by linarith
  then show ?thesis
    using assms True inv_okD [OF assms(3)]
    by (auto simp: delete_effect_def elim!: inv_logs intro: playlist_ok_delete
        simp: playlist_abs_delete)
next
  case False
  then have "affected (\<lambda>r. pr_id r = i) (playlists d) = 0" by (simp add: affected_key)
  then show ?thesis using assms False by (simp add: delete_effect_def delete_rows_none)
qed

lemma add_effect_inv:
  assumes "add_effect p caller i track u d l d1 l1" "pl_id p = i" "playlist_inv d l"
  shows "playlist_inv d1 l1"
  using assms inv_okD [OF assms(3)]
  by (auto simp: add_effect_def playlist_abs_insert split: if_splits elim!: inv_logs
      intro!: touched_simps(2) playlist_ok_insert)

lemma remove_effect_inv:
  assumes "remove_effect p i track now u d l d1 l1" "pl_id p = i" "playlist_inv d l"
  shows "playlist_inv d1 l1"
proof (cases "has_row pt_key (i, track) (playlist_tracks d)")
  case True
  have "unique_on pt_key (playlist_tracks d)" using assms(3) by (simp add: playlist_inv_def playlist_ok_def)
  then have "affected (\<lambda>r. pt_key r = (i, track)) (playlist_tracks d) = 1"
    using True affected_unique [of pt_key "playlist_tracks d" "(i, track)"]
      affected_key [of pt_key "(i, track)" "playlist_tracks d"]
    by linarith
  then have d1: "d1 = touched i now (d\<lparr>playlist_tracks :=
        delete_rows (\<lambda>r. pt_key r = (i, track)) (playlist_tracks d)\<rparr>)"
    and l1: "logs l (TrackRemoved i (pl_owner p) track now) i l1"
    using assms(1,2) by (simp_all add: remove_effect_def)
  show ?thesis
    unfolding d1 using assms(3) l1
  proof (rule inv_logs)
    show "playlist_ok (touched i now (d\<lparr>playlist_tracks :=
        delete_rows (\<lambda>r. pt_key r = (i, track)) (playlist_tracks d)\<rparr>))"
      by (intro touched_simps(2) playlist_ok_remove inv_okD [OF assms(3)])
  qed (simp only: touched_simps playlist_abs_remove apply_event.simps)
next
  case False
  then have "affected (\<lambda>r. pt_key r = (i, track)) (playlist_tracks d) = 0"
    using affected_key [of pt_key] by blast
  then show ?thesis
    using assms delete_rows_none [OF False] by (simp add: remove_effect_def)
qed

lemma reorder_effect_inv:
  assumes "reorder_effect p i order now u d l d1 l1" "pl_id p = i" "playlist_inv d l"
  shows "playlist_inv d1 l1"
  using assms inv_okD [OF assms(3)]
  by (auto simp: reorder_effect_def playlist_abs_reorder elim!: inv_logs
      intro!: touched_simps(2) playlist_ok_reorder)

section \<open>Interleaved transactions\<close>

text \<open>
  A request reads the playlist before it opens its transaction, so other transactions may
  commit in between. A schedule is therefore a sequence of transactions, each with whatever
  snapshot its request had read; the row lock of the playlist serializes their bodies.
\<close>

datatype playlist_txn =
    TxCreate playlist
  | TxRename playlist
  | TxDelete playlist
  | TxAdd playlist uuid uuid
  | TxRemove playlist uuid time
  | TxReorder playlist "uuid list" time

fun run_txn :: "playlist_txn \<Rightarrow> unit playlist_act" where
  "run_txn (TxCreate p) = create_tx p"
| "run_txn (TxRename p) = rename_tx p (pl_id p)"
| "run_txn (TxDelete p) = delete_tx p (pl_id p)"
| "run_txn (TxAdd p caller track) = add_track_tx p caller (pl_id p) track"
| "run_txn (TxRemove p track now) = remove_track_tx p (pl_id p) track now"
| "run_txn (TxReorder p order now) = reorder_tx p (pl_id p) order now"

type_synonym playlist_world = "(playlist_db, uuid \<Rightarrow> int \<times> string option, playlist_event) world"

fun run_txns :: "playlist_txn list \<Rightarrow> playlist_world \<Rightarrow> playlist_world" where
  "run_txns [] w = w"
| "run_txns (t # ts) w = run_txns ts (snd (run_txn t w))"

definition playlist_start :: "(nat \<Rightarrow> fate) \<Rightarrow> (nat \<Rightarrow> time) \<Rightarrow> (nat \<Rightarrow> uuid option) \<Rightarrow>
    (uuid \<Rightarrow> int \<times> string option) \<Rightarrow> playlist_world" where
  "playlist_start f c u x = \<lparr>tick = 0, fates = f, clock = c, fresh = u,
     db = \<lparr>playlists = [], playlist_tracks = []\<rparr>, outbox = [], next_row = 1, ext = x\<rparr>"

lemma txn_keeps: "keeps_inv playlist_inv (run_txn t)"
  by (cases t; simp add: create_tx_def rename_tx_def delete_tx_def add_track_tx_def
      remove_track_tx_def reorder_tx_def playlist_tx_def; intro keeps_in_tx body_keepsI)
     (blast dest: create_body rename_body delete_body add_body remove_body reorder_body
      intro: create_effect_inv rename_effect_inv delete_effect_inv add_effect_inv
        remove_effect_inv reorder_effect_inv)+

lemma run_txns_inv: "playlist_inv (db w) (log w) \<Longrightarrow>
    playlist_inv (db (run_txns ts w)) (log (run_txns ts w))"
proof (induction ts arbitrary: w)
  case (Cons t ts)
  obtain r w1 where run: "run_txn t w = (r, w1)" by (cases "run_txn t w")
  have "playlist_inv (db w1) (log w1)" using txn_keeps Cons.prems run by (rule keeps_invD)
  then show ?case using Cons.IH run by simp
qed simp

lemma start_inv: "playlist_inv (db (playlist_start f c u x)) (log (playlist_start f c u x))"
  by (auto simp: playlist_inv_def playlist_ok_def positions_unique_def playlist_start_def
      replay_def log_def playlist_abs_def)

text \<open>C1: Whatever calls are lost, whatever the clock and the identifiers, and however the
  transactions of concurrent requests interleave with stale snapshots, the committed
  playlists satisfy the constraints of the schema and equal the replay of the committed
  \<open>playlist.events\<close>: an event is logged exactly when its change took effect.\<close>

theorem playlist_events_rebuild_state:
  "let w = run_txns ts (playlist_start f c u x) in
     playlist_ok (db w) \<and> replay (log w) = playlist_abs (db w)"
  using run_txns_inv [OF start_inv] by (simp add: playlist_inv_def Let_def)

section \<open>Requests\<close>

definition owner_of :: "uuid \<Rightarrow> playlist_db \<Rightarrow> uuid option" where
  "owner_of i d = map_option pr_owner (row_with pr_id i (playlists d))"

lemma reads_repo_get [reads]: "reads_only (repo_get i)"
  unfolding repo_get_def by (intro reads_bnd reads) (auto intro: reads split: option.splits)

lemma reads_stamp [reads]: "reads_only stamp"
  unfolding stamp_def by (intro reads)

lemma reads_owned [reads]: "reads_only (owned caller i)"
  unfolding owned_def by (intro reads)

lemma reads_track_exists [reads]: "reads_only (track_exists t)"
  unfolding track_exists_def
  by (intro reads_bnd reads) (auto intro!: reads split: prod.splits option.splits)

lemma repo_get_Inr [act_inv]:
  "repo_get i w = (Inr p, w1) \<longleftrightarrow> fates w (tick w) = Fine \<and> w1 = advance w \<and>
     (\<exists>r. row_with pr_id i (playlists (db w)) = Some r \<and> p = scan_playlist (db w) r)"
  by (auto simp: repo_get_def act_inv split: option.splits)

lemma owned_Inr:
  "owned caller i w = (Inr p, w1) \<Longrightarrow> pl_id p = i \<and> pl_owner p = caller \<and> owner_of i (db w) = Some caller"
  by (auto simp: owned_def act_inv owner_of_def scan_playlist_def dest: row_with_SomeD split: if_splits)

lemma commits_rename_tx: "commits (rename_tx p i) (rename_effect p i)"
  unfolding rename_tx_def playlist_tx_def by (rule pg.commits_tx) (rule rename_body)

lemma commits_create_tx: "commits (create_tx p) (create_effect p)"
  unfolding create_tx_def playlist_tx_def by (rule pg.commits_tx) (rule create_body)

lemma commits_delete_tx: "commits (delete_tx p i) (delete_effect p i)"
  unfolding delete_tx_def playlist_tx_def by (rule pg.commits_tx) (rule delete_body)

lemma commits_add_tx: "commits (add_track_tx p caller i t) (add_effect p caller i t)"
  unfolding add_track_tx_def playlist_tx_def by (rule pg.commits_tx) (rule add_body)

lemma commits_remove_tx: "commits (remove_track_tx p i t now) (remove_effect p i t now)"
  unfolding remove_track_tx_def playlist_tx_def by (rule pg.commits_tx) (rule remove_body)

lemma commits_reorder_tx: "commits (reorder_tx p i order now) (reorder_effect p i order now)"
  unfolding reorder_tx_def playlist_tx_def by (rule pg.commits_tx) (rule reorder_body)

text \<open>A request on a playlist: the effect of its transaction, and only for the owner.\<close>

lemma commits_owned:
  assumes "\<And>p. commits (f p) (R p)"
  shows "commits (bnd (owned caller i) f) (\<lambda>x d l d1 l1. owner_of i d = Some caller \<and>
    (\<exists>p. pl_id p = i \<and> pl_owner p = caller \<and> R p x d l d1 l1))"
proof (rule commits_bnd_when [where Q = "\<lambda>p d. pl_id p = i \<and> pl_owner p = caller \<and>
    owner_of i d = Some caller"])
  show "reads_only (owned caller i)" by (intro reads)
  fix w p w1
  assume "owned caller i w = (Inr p, w1)"
  then show "pl_id p = i \<and> pl_owner p = caller \<and> owner_of i (db w) = Some caller"
    by (rule owned_Inr)
next
  fix p
  show "commits (f p) (\<lambda>y d l d1 l1. pl_id p = i \<and> pl_owner p = caller \<and> owner_of i d = Some caller \<longrightarrow>
    owner_of i d = Some caller \<and> (\<exists>p. pl_id p = i \<and> pl_owner p = caller \<and> R p y d l d1 l1))"
    using assms by (rule commits_weaken) blast
qed

lemma commits_add_track:
  "commits (add_track caller i track) (\<lambda>x d l d1 l1. owner_of i d = Some caller \<and>
     (\<exists>p. pl_id p = i \<and> pl_owner p = caller \<and> add_effect p caller i track x d l d1 l1))"
  unfolding add_track_def
  by (rule commits_owned, rule commits_bnd) (intro reads commits_add_tx)+

lemma commits_remove_track:
  "commits (remove_track caller i track) (\<lambda>x d l d1 l1. owner_of i d = Some caller \<and>
     (\<exists>p. pl_id p = i \<and> pl_owner p = caller \<and> (\<exists>now. remove_effect p i track now x d l d1 l1)))"
  unfolding remove_track_def
  by (rule commits_owned, rule commits_bnd, intro reads)
     (rule commits_weaken, rule commits_remove_tx, blast)

lemma commits_reorder_tracks:
  "commits (reorder_tracks caller i order) (\<lambda>x d l d1 l1. owner_of i d = Some caller \<and>
     (\<exists>p. pl_id p = i \<and> pl_owner p = caller \<and> (\<exists>now. reorder_effect p i order now x d l d1 l1)))"
  unfolding reorder_tracks_def
  by (rule commits_owned, rule commits_bnd, intro reads)
     (rule commits_weaken, rule commits_reorder_tx, blast)

lemma commits_delete_playlist:
  "commits (delete_playlist caller i) (\<lambda>x d l d1 l1. owner_of i d = Some caller \<and>
     (\<exists>p. pl_id p = i \<and> pl_owner p = caller \<and> delete_effect p i x d l d1 l1))"
  unfolding delete_playlist_def by (rule commits_owned) (rule commits_delete_tx)

lemma commits_rename_playlist:
  "commits (rename_playlist caller i title) (\<lambda>x d l d1 l1. owner_of i d = Some caller \<and>
     (d1 = d \<and> l1 = l \<or>
      (\<exists>p. pl_id p = i \<and> pl_owner p = caller \<and> normalize_title title = Inr (pl_title p) \<and>
         rename_effect p i () d l d1 l1)))"
proof (cases "normalize_title title")
  case (Inl e)
  then show ?thesis by (simp add: rename_playlist_def commits_def fail_def)
next
  case (Inr t)
  let ?R = "\<lambda>(p :: playlist) (x :: playlist) d l d1 l1. d1 = d \<and> l1 = l \<or>
     (\<exists>q :: playlist. pl_id q = pl_id p \<and> pl_owner q = pl_owner p \<and> pl_title q = t \<and>
        rename_effect q i () d l d1 l1)"
  have ret_same: "commits (ret p) (?R p)" for p
    by (simp add: commits_def ret_def)
  have upd: "commits (bnd (rename_tx (p\<lparr>pl_title := t, pl_updated_at := now\<rparr>) i)
      (\<lambda>_. ret (p\<lparr>pl_title := t, pl_updated_at := now\<rparr>))) (?R p)" for p now
  proof -
    let ?q = "p\<lparr>pl_title := t, pl_updated_at := now\<rparr>"
    have "case bnd (rename_tx ?q i) (\<lambda>_. ret ?q) w of
        (Inl e, w1) \<Rightarrow> same_state w w1 \<or> (\<exists>x. ?R p x (db w) (log w) (db w1) (log w1))
      | (Inr x, w1) \<Rightarrow> ?R p x (db w) (log w) (db w1) (log w1)" for w
    proof -
      obtain r w1 where run: "rename_tx ?q i w = (r, w1)" by (cases "rename_tx ?q i w")
      have "pl_id ?q = pl_id p \<and> pl_owner ?q = pl_owner p \<and> pl_title ?q = t" by simp
      with commitsD [OF commits_rename_tx run] run show ?thesis
        by (cases r) (auto simp: bnd_def ret_def)
    qed
    then show ?thesis unfolding commits_def by blast
  qed
  have "commits (if pl_title p = t then ret p else bnd stamp (\<lambda>now.
      let p1 = p\<lparr>pl_title := t, pl_updated_at := now\<rparr> in bnd (rename_tx p1 i) (\<lambda>_. ret p1))) (?R p)" for p
    using ret_same upd by (auto simp: Let_def intro: commits_bnd reads)
  then have "commits (rename_playlist caller i title) (\<lambda>x d l d1 l1. owner_of i d = Some caller \<and>
      (\<exists>p. pl_id p = i \<and> pl_owner p = caller \<and> ?R p x d l d1 l1))"
    unfolding rename_playlist_def Inr sum.case 
    by (rule commits_owned [where R = ?R])
  then show ?thesis by (rule commits_weaken) (auto simp: Inr)
qed

section \<open>Properties\<close>

lemma normalize_title_Inr:
  "normalize_title s = Inr t \<longleftrightarrow>
     t = join '' '' (split_fields s) \<and> split_fields s \<noteq> [] \<and> rune_count t \<le> 100"
  using join_eq_Nil [of "split_fields s"] fields_words
  by (auto simp: normalize_title_def Let_def)

lemma normalize_title_idem: "normalize_title s = Inr t \<Longrightarrow> normalize_title t = Inr t"
proof -
  assume t: "normalize_title s = Inr t"
  then have "split_fields t = split_fields s"
    by (simp add: normalize_title_Inr fields_join fields_words)
  with t show ?thesis by (auto simp: normalize_title_Inr)
qed

text \<open>\<open>NormalizeTitle\<close> keeps the words of the title and nothing else of its white space;
  what it returns has 1 to 100 runes and is a fixed point, and it rejects exactly the titles
  without a word or with more than 100 runes once normalized.\<close>

theorem normalize_title_spec:
  "case normalize_title s of
     Inr t \<Rightarrow> split_fields t = split_fields s \<and> t \<noteq> [] \<and> rune_count t \<le> MaxTitle \<and>
       normalize_title t = Inr t
   | Inl e \<Rightarrow> e = InvalidTitle \<and>
       (split_fields s = [] \<or> MaxTitle < rune_count (join '' '' (split_fields s)))"
proof (cases "normalize_title s")
  case (Inl e)
  then show ?thesis
    using join_eq_Nil [of "split_fields s"] fields_words
    by (auto simp: normalize_title_def Let_def split: if_splits)
next
  case (Inr t)
  then have "split_fields t = split_fields s"
    by (simp add: normalize_title_Inr fields_join fields_words)
  moreover have "t \<noteq> []" using Inr by (auto simp: normalize_title_def Let_def split: if_splits)
  moreover have "rune_count t \<le> MaxTitle" using Inr by (auto simp: normalize_title_Inr)
  ultimately show ?thesis using Inr normalize_title_idem [OF Inr] by simp
qed

text \<open>\<open>CheckOrder\<close> accepts an order exactly when it is a permutation, without
  repetition, of the tracks the playlist has.\<close>

theorem check_order_permutation:
  "check_order current order = Inr () \<longleftrightarrow>
     distinct order \<and> mset order = mset (map tr_id current)"
  by (rule check_order_iff)

lemma commits_only_owner:
  assumes "commits m R" "\<And>x d l d1 l1. R x d l d1 l1 \<Longrightarrow> owner_of i d = Some caller"
    and "owner_of i (db w) \<noteq> Some caller"
  shows "same_state w (snd (m w)) \<and> (\<exists>e. fst (m w) = Inl e)"
proof -
  obtain r w1 where run: "m w = (r, w1)" by (cases "m w")
  from commitsD [OF assms(1) run] assms(2,3) run show ?thesis by (cases r) auto
qed

text \<open>C4: Only its owner changes a playlist: whatever fails, a request of another caller, or on
  a playlist that does not exist, is refused and leaves the tables and the log as they were.\<close>

theorem only_owner_changes_playlist:
  assumes "owner_of i (db w) \<noteq> Some caller"
  shows "same_state w (snd (rename_playlist caller i title w)) \<and>
     same_state w (snd (delete_playlist caller i w)) \<and>
     same_state w (snd (add_track caller i track w)) \<and>
     same_state w (snd (remove_track caller i track w)) \<and>
     same_state w (snd (reorder_tracks caller i order w)) \<and>
     (\<exists>e. fst (add_track caller i track w) = Inl e) \<and>
     (\<exists>e. fst (reorder_tracks caller i order w) = Inl e)"
proof -
  note denied = commits_only_owner [OF _ _ assms]
  show ?thesis
    using denied [OF commits_rename_playlist [of caller i title]]
      denied [OF commits_delete_playlist [of caller i]]
      denied [OF commits_add_track [of caller i track]]
      denied [OF commits_remove_track [of caller i track]]
      denied [OF commits_reorder_tracks [of caller i order]]
    by simp
qed

subsection \<open>The track list a reader gets\<close>

lemma tracks_of_ids: "map tr_id (tracks_of i d) = map pt_track (order_by pt_position (rows_of i d))"
  by (simp add: tracks_of_def scan_track_def comp_def)

lemma rows_of_touched [simp]: "rows_of i (touched j at d) = rows_of i d"
  by (simp add: rows_of_def touched_def)

lemma mem_tracks_of: "t \<in> tr_id ` set (tracks_of i d) \<longleftrightarrow> has_row pt_key (i, t) (playlist_tracks d)"
  by (auto simp: tracks_of_def rows_of_def has_row_iff scan_track_def image_iff)

lemma add_effect_tracks:
  assumes "add_effect p caller i track u d l d1 l1"
  shows "map tr_id (tracks_of i d1) =
    (if track \<in> tr_id ` set (tracks_of i d) then map tr_id (tracks_of i d)
     else map tr_id (tracks_of i d) @ [track])"
proof (cases "has_row pt_key (i, track) (playlist_tracks d)")
  case True
  with assms show ?thesis by (simp add: add_effect_def mem_tracks_of)
next
  case False
  then obtain r now where d1: "d1 = touched i now (d\<lparr>playlist_tracks := playlist_tracks d @ [r]\<rparr>)"
    and r: "pt_playlist r = i" "pt_track r = track" "pt_position r = next_position i d"
    using assms by (auto simp: add_effect_def)
  have "rows_of i (d\<lparr>playlist_tracks := playlist_tracks d @ [r]\<rparr>) = rows_of i d @ [r]"
    using r by (simp add: rows_of_def)
  moreover have "pt_position q \<le> pt_position r" if "q \<in> set (rows_of i d)" for q
    using next_position_gt [of q d i] that r by (simp add: rows_of_def)
  ultimately show ?thesis
    using False r by (simp add: d1 tracks_of_ids order_by_def sort_key_snoc mem_tracks_of)
qed

lemma reorder_effect_tracks:
  assumes "reorder_effect p i order now u d l d1 l1"
  shows "map tr_id (tracks_of i d1) = order"
proof -
  let ?g = "\<lambda>t. the (ordinal 1 order t)"
  let ?rows = "rows_of i (d\<lparr>playlist_tracks := set_positions i order (playlist_tracks d)\<rparr>)"
  have m: "distinct order" "mset order = mset (map pt_track (rows_of i d))"
    and d1: "d1 = touched i now (d\<lparr>playlist_tracks := set_positions i order (playlist_tracks d)\<rparr>)"
    using assms by (auto simp: reorder_effect_def order_matches_def)
  have rows: "?rows = map (reposition i order) (rows_of i d)"
    by (simp add: rows_of_def set_positions_map filter_map comp_def)
  have pos: "pt_position r = ?g (pt_track r)" if mem: "r \<in> set ?rows" for r
  proof -
    obtain q where q: "q \<in> set (rows_of i d)" "r = reposition i order q" using mem unfolding rows by auto
    then have "pt_track q \<in> set order" using m(2) by (metis image_eqI set_map set_mset_mset)
    then obtain n where "ordinal 1 order (pt_track q) = Some n"
      using ordinal_None_iff [of 1 order "pt_track q"] by auto
    with q show ?thesis by (simp add: reposition_def rows_of_def)
  qed
  have "sorted (map pt_position (sort_key pt_position ?rows))" by simp
  moreover have "map pt_position (sort_key pt_position ?rows) =
      map ?g (map pt_track (sort_key pt_position ?rows))"
    using pos by simp
  ultimately have sorted: "sorted (map ?g (map pt_track (sort_key pt_position ?rows)))" by simp
  have mset: "mset (map pt_track (sort_key pt_position ?rows)) = mset order"
    using m(2) by (simp add: rows image_mset.compositionality comp_def)
  have inj: "inj_on ?g (set order)"
  proof (rule inj_onI)
    fix a b
    assume "a \<in> set order" "b \<in> set order" "?g a = ?g b"
    moreover from this obtain m n where "ordinal 1 order a = Some m" "ordinal 1 order b = Some n"
      using ordinal_None_iff [of 1 order] by (metis option.exhaust)
    ultimately show "a = b" using ordinal_inj by (metis option.sel)
  qed
  have "sorted (map ?g order)"
  proof (unfold sorted_iff_nth_mono, intro allI impI)
    fix a b assume "a \<le> b" "b < length (map ?g order)"
    then show "map ?g order ! a \<le> map ?g order ! b" by (simp add: ordinal_nth [OF _ m(1)])
  qed
  then have "sort_key ?g (map pt_track (sort_key pt_position ?rows)) = order"
    using mset inj by (intro sort_key_inj_key_eq) (metis mset_eq_setD)+
  moreover have "sort_key ?g (map pt_track (sort_key pt_position ?rows)) =
      map pt_track (sort_key pt_position ?rows)"
    using sorted by (rule sort_key_id_if_sorted)
  ultimately show ?thesis by (simp add: d1 tracks_of_ids order_by_def)
qed

text \<open>Adding a track puts it at the end of the list a reader gets, once: a track that is
  already there changes nothing; a failure leaves everything or the whole effect.\<close>

theorem add_track_appends:
  "commits (add_track caller i track) (\<lambda>_ d l d1 l1. owner_of i d = Some caller \<and>
     map tr_id (tracks_of i d1) =
       (if track \<in> tr_id ` set (tracks_of i d) then map tr_id (tracks_of i d)
        else map tr_id (tracks_of i d) @ [track]))"
  using commits_add_track by (rule commits_weaken) (auto simp only: add_effect_tracks)

text \<open>C2: A reorder that takes effect was the owner's, listed exactly the tracks of the
  playlist, each once, and the list a reader gets afterwards is the requested order; the
  event carries that order.\<close>

theorem reorder_sets_order:
  "commits (reorder_tracks caller i order) (\<lambda>_ d l d1 l1. owner_of i d = Some caller \<and>
     distinct order \<and> mset order = mset (map tr_id (tracks_of i d)) \<and>
     map tr_id (tracks_of i d1) = order \<and>
     (\<exists>m at. l1 = l @ [m] \<and> env_payload (msg_value m) = TracksReordered i caller order at))"
proof (rule commits_weaken [OF commits_reorder_tracks])
  fix x d l d1 l1
  assume "owner_of i d = Some caller \<and>
    (\<exists>p. pl_id p = i \<and> pl_owner p = caller \<and> (\<exists>now. reorder_effect p i order now x d l d1 l1))"
  then obtain p now where owner: "owner_of i d = Some caller" and p: "pl_id p = i" "pl_owner p = caller"
    and eff: "reorder_effect p i order now x d l d1 l1" by blast
  have "mset (map tr_id (tracks_of i d)) = mset (map pt_track (rows_of i d))"
    by (simp add: tracks_of_ids order_by_def)
  with owner p eff reorder_effect_tracks [OF eff]
  show "owner_of i d = Some caller \<and> distinct order \<and>
      mset order = mset (map tr_id (tracks_of i d)) \<and> map tr_id (tracks_of i d1) = order \<and>
      (\<exists>m at. l1 = l @ [m] \<and> env_payload (msg_value m) = TracksReordered i caller order at)"
    by (auto simp: reorder_effect_def order_matches_def logs_def)
qed

subsection \<open>Walking all playlists\<close>

text \<open>
  \<open>GET /internal/v1/playlists\<close> starts from \<open>uuid.Nil\<close> and continues from \<open>nextAfter\<close>;
  the playlists it can list are those whose identifier is not nil.
\<close>

definition cursor :: "uuid option \<Rightarrow> uuid" where
  "cursor after = (case after of None \<Rightarrow> uuid_Nil | Some i \<Rightarrow> i)"

definition listing :: "playlist_db \<Rightarrow> playlist list" where
  "listing d = map (scan_playlist d)
     (order_by pr_id (filter (\<lambda>r. pr_id r \<noteq> uuid_Nil) (playlists d)))"

lemma scan_id [simp]: "pl_id (scan_playlist d r) = pr_id r"
  by (simp add: scan_playlist_def)

interpretation playlist_pages: keyset_paging "(<)" pl_id listing
    "\<lambda>d after n. page_rows (cursor after) n d" "\<lambda>d. unique_on pr_id (playlists d)"
proof unfold_locales
  fix d :: playlist_db
  assume u: "unique_on pr_id (playlists d)"
  have "unique_on pr_id (filter p (playlists d))" for p
    using u by (simp add: unique_on_def distinct_map_filter)
  then have "sorted_wrt (\<lambda>x y. pr_id x < pr_id y)
      (sort_key pr_id (filter (\<lambda>r. pr_id r \<noteq> 0) (playlists d)))"
    by (rule strict_sort_key)
  then show "sorted_wrt (\<lambda>x y. pl_id x < pl_id y) (listing d)"
    by (simp add: listing_def order_by_def sorted_wrt_map)
next
  fix d :: playlist_db and after n
  have "filter (\<lambda>r. cursor after < pr_id r) (playlists d) =
      filter (\<lambda>r. case after of None \<Rightarrow> True | Some k \<Rightarrow> k < pr_id r)
        (filter (\<lambda>r. pr_id r \<noteq> 0) (playlists d))"
    unfolding filter_filter
    by (rule filter_cong)
      (auto simp: cursor_def word_neq_0_conv split: option.splits
        intro: le_less_trans [OF word_zero_le])
  then show "page_rows (cursor after) n d = take n (beyond (<) pl_id after (listing d))"
    by (simp add: page_rows_def listing_def beyond_def order_by_def filter_map comp_def take_map
        filter_sort_key cong: option.case_cong)
qed auto

text \<open>\<open>EachPlaylist\<close> of the search indexer: pages of 500 until an empty one.\<close>

definition each_playlist :: "nat \<Rightarrow> playlist_db \<Rightarrow> playlist list option" where
  "each_playlist fuel d = walk_pages fuel (\<lambda>after. page_rows (cursor after) 500 d) pl_id None"

text \<open>The search indexer's walk over the internal listing ends and hands over every
  playlist with an identifier exactly once, in the order of the identifiers.\<close>

theorem each_playlist_complete:
  assumes "playlist_ok d" "length (playlists d) < fuel"
  shows "each_playlist fuel d = Some (listing d)"
proof -
  have "length (listing d) \<le> length (playlists d)" by (simp add: listing_def)
  with assms show ?thesis
    unfolding each_playlist_def
    by (intro playlist_pages.walk_all) (simp_all add: playlist_ok_def)
qed

lemma affected_one_title: "playlist_ok d \<Longrightarrow> row_with pr_id i (playlists d) = Some r \<Longrightarrow> title_column_ok (pr_title r)"
  by (auto simp: playlist_ok_def dest: row_with_SomeD)

text \<open>C3: Where nothing is lost, an owner's reorder with a permutation of the tracks succeeds:
  in particular the deferred uniqueness of the positions never refuses the commit.\<close>

theorem reorder_succeeds:
  assumes "\<forall>n. fates w n = Fine" "\<forall>n. fresh w n \<noteq> None" "playlist_ok (db w)"
    "owner_of i (db w) = Some caller" "order_matches i order (db w)"
  shows "\<exists>w1. reorder_tracks caller i order w = (Inr (), w1)"
proof -
  obtain r where r: "row_with pr_id i (playlists (db w)) = Some r" "pr_owner r = caller"
    using assms(4) by (auto simp: owner_of_def)
  have found: "has_row pr_id i (playlists (db w))" using r(1) by (simp add: has_row_row_with)
  obtain g where fresh: "\<And>n. fresh w n = Some (g n)"
    using assms(2) that [of "\<lambda>n. the (fresh w n)"] by simp
  have unique: "positions_unique (touched i at
      ((db w)\<lparr>playlist_tracks := set_positions i order (playlist_tracks (db w))\<rparr>))" for at
    using touched_simps(2) [OF playlist_ok_reorder [OF assms(3,5)]] by (simp add: playlist_ok_def)
  have owner: "pl_owner (scan_playlist (db w) r) = caller" using r(2) by (simp add: scan_playlist_def)
  show ?thesis
    using assms(1) r(1) found owner order_matches_check [of i "db w" order] assms(5)
      unique [unfolded touched_def]
    by (simp add: reorder_tracks_def owned_def reorder_tx_def playlist_tx_def repo_reorder_def
        repo_lock_def repo_touch_def pub_tracks_reordered_def playlist_publish_def act_inv
        fresh)
qed

section \<open>A concrete run\<close>

definition sample_playlist :: playlist where
  "sample_playlist = \<lparr>pl_id = 1, pl_owner = 5, pl_title = ''Night drive'', pl_track_count = 0,
     pl_created_at = 1000, pl_updated_at = 1000\<rparr>"

definition sample_world :: playlist_world where
  "sample_world = run_txns [TxCreate sample_playlist, TxAdd sample_playlist 5 11, TxAdd sample_playlist 5 12]
     (playlist_start (\<lambda>_. Fine) (\<lambda>n. int n * 1500) (\<lambda>n. Some (of_nat n)) (\<lambda>_. (200, Some ''READY'')))"

lemma sample_ok: "playlist_ok (db sample_world)"
  unfolding sample_world_def using run_txns_inv [OF start_inv] inv_okD by blast

lemma sample_owner: "owner_of 1 (db sample_world) = Some 5"
  by code_simp

lemma sample_matches: "order_matches 1 [12, 11] (db sample_world)"
  by code_simp

lemma sample_fine: "fates sample_world n = Fine \<and> fresh sample_world n \<noteq> None"
  by code_simp

text \<open>Witnesses of the properties that have hypotheses, at the run above.\<close>

theorem only_owner_changes_playlist_witness:
  "owner_of 1 (db sample_world) \<noteq> Some 6 \<and>
   same_state sample_world (snd (rename_playlist 6 1 ''Mine'' sample_world))"
proof -
  have other: "owner_of 1 (db sample_world) \<noteq> Some 6" by (simp add: sample_owner)
  from only_owner_changes_playlist [OF other, of "''Mine''" 11 "[12, 11]"] other show ?thesis by blast
qed

theorem each_playlist_complete_witness:
  "playlist_ok (db sample_world) \<and>
   each_playlist 3 (db sample_world) = Some (listing (db sample_world)) \<and>
   map pl_id (listing (db sample_world)) = [1]"
proof -
  have len: "length (playlists (db sample_world)) < 3" by code_simp
  have "map pl_id (listing (db sample_world)) = [1]" by code_simp
  with sample_ok each_playlist_complete [OF sample_ok len] show ?thesis by blast
qed

theorem reorder_succeeds_witness:
  "\<exists>w1. reorder_tracks 5 1 [12, 11] sample_world = (Inr (), w1)"
  using reorder_succeeds [OF _ _ sample_ok sample_owner sample_matches] sample_fine by blast

end
