(* ===== verification/Delivery.thy ===== *)
theory Delivery
  imports Prelude
begin

text \<open>
  At-least-once delivery, the contract between everything that publishes or reads events
  (the outbox relay, the Kafka consumers) and the handlers of the services, which the code
  only asks to be idempotent. A reading of a log is a sequence of sessions: each starts where
  the previous one was acknowledged, reads on, and acknowledges part of what it read. Two
  locales say what a handler has to promise: \<open>replay_safe\<close> handlers may be handed a stretch
  of the log again, \<open>stale_safe\<close> handlers even a single old event after newer ones. Inside
  them: what the handler has done in the end is what handling every event once, in order,
  would have done.
\<close>

section \<open>Sessions\<close>

text \<open>A session \<open>(k, d)\<close> reads \<open>k\<close> events from the start of what is left and acknowledges \<open>d\<close>.\<close>

type_synonym session = "nat \<times> nat"

fun sessions :: "'e list \<Rightarrow> session list \<Rightarrow> 'e list" where
  "sessions xs [] = []"
| "sessions xs ((k, d) # ss) = take k xs @ sessions (drop d xs) ss"

fun valid_sessions :: "'e list \<Rightarrow> session list \<Rightarrow> bool" where
  "valid_sessions xs [] \<longleftrightarrow> True"
| "valid_sessions xs ((k, d) # ss) \<longleftrightarrow> d \<le> k \<and> k \<le> length xs \<and> valid_sessions (drop d xs) ss"

definition acked :: "session list \<Rightarrow> nat" where
  "acked ss = sum_list (map snd ss)"

lemma acked_simps [simp]:
  "acked [] = 0" "acked (s # ss) = snd s + acked ss" "acked (ss @ ts) = acked ss + acked ts"
  by (simp_all add: acked_def)

lemma sessions_snoc:
  "sessions xs (ss @ [(k, d)]) = sessions xs ss @ take k (drop (acked ss) xs)"
  by (induction xs ss rule: sessions.induct) (simp_all add: add.commute)

lemma valid_sessions_snoc:
  "valid_sessions xs (ss @ [(k, d)]) \<longleftrightarrow>
     valid_sessions xs ss \<and> d \<le> k \<and> k \<le> length (drop (acked ss) xs)"
  by (induction xs ss rule: valid_sessions.induct) (auto simp: add.commute)

lemma valid_sessions_acked: "valid_sessions xs ss \<Longrightarrow> acked ss \<le> length xs"
  by (induction xs ss rule: valid_sessions.induct) auto

lemma sessions_grow: "valid_sessions xs ss \<Longrightarrow> sessions (xs @ ys) ss = sessions xs ss"
  by (induction xs ss rule: valid_sessions.induct) auto

lemma valid_sessions_grow: "valid_sessions xs ss \<Longrightarrow> valid_sessions (xs @ ys) ss"
  by (induction xs ss rule: valid_sessions.induct) auto

text \<open>What is acknowledged has been read, in order, before anything later was.\<close>

lemma sessions_first_reads:
  assumes "valid_sessions xs ss" "distinct xs"
  shows "\<exists>n. acked ss \<le> n \<and> n \<le> length xs \<and> set (sessions xs ss) = set (take n xs)"
  using assms
proof (induction xs ss rule: valid_sessions.induct)
  case (2 xs k d ss)
  then obtain n where n: "acked ss \<le> n" "n \<le> length xs - d"
      "set (sessions (drop d xs) ss) = set (take n (drop d xs))"
    by (auto simp: distinct_drop)
  have dk: "d \<le> k" "k \<le> length xs" using "2.prems" by simp_all
  have "take (d + n) xs = take d xs @ take n (drop d xs)" by (simp add: take_add)
  then have "set (sessions xs ((k, d) # ss)) = set (take k xs) \<union> set (take (d + n) xs)"
    using n(3) set_take_subset_set_take [OF dk(1), of xs] by auto
  also have "\<dots> = set (take (max k (d + n)) xs)"
    using set_take_subset_set_take [of k "d + n" xs] set_take_subset_set_take [of "d + n" k xs]
    by (auto simp: max_def)
  finally show ?case
    using n dk by (intro exI [of _ "max k (d + n)"]) auto
qed (auto intro: exI [of _ 0])

section \<open>Handlers\<close>

locale replay_safe =
  fixes step :: "'e \<Rightarrow> 's \<Rightarrow> 's"
  assumes replay: "fold step xs (fold step xs s) = fold step xs s"
begin

lemma replay_tail:
  assumes "a \<le> b"
  shows "fold step (drop a xs) (fold step (take b xs) s) = fold step xs s"
proof -
  have "take b xs = take a xs @ take (b - a) (drop a xs)"
    using assms by (metis le_add_diff_inverse take_add)
  moreover have "drop a xs = take (b - a) (drop a xs) @ drop b xs"
    using assms by (metis append_take_drop_id drop_drop le_add_diff_inverse2)
  ultimately have "fold step (drop a xs) (fold step (take b xs) s) =
      fold step (drop b xs) (fold step (take (b - a) (drop a xs)) (fold step (take a xs) s))"
    using replay by (metis comp_apply fold_append)
  also have "\<dots> = fold step (take a xs @ drop a xs) s"
    using \<open>drop a xs = take (b - a) (drop a xs) @ drop b xs\<close> by (metis comp_apply fold_append)
  finally show ?thesis by simp
qed

text \<open>
  After any sessions, handling what is not acknowledged yet brings the state where handling
  everything once brings it.
\<close>

theorem at_least_once_is_once:
  "valid_sessions xs ss \<Longrightarrow>
     fold step (drop (acked ss) xs) (fold step (sessions xs ss) s) = fold step xs s"
proof (induction xs ss arbitrary: s rule: valid_sessions.induct)
  case (2 xs k d ss)
  then have "fold step (drop (acked ((k, d) # ss)) xs) (fold step (sessions xs ((k, d) # ss)) s) =
      fold step (drop d xs) (fold step (take k xs) s)"
    by (simp add: drop_drop add.commute)
  also have "\<dots> = fold step xs s" using "2.prems" by (intro replay_tail) simp
  finally show ?case .
qed simp

corollary all_acked_is_once:
  "valid_sessions xs ss \<Longrightarrow> acked ss = length xs \<Longrightarrow> fold step (sessions xs ss) s = fold step xs s"
  using at_least_once_is_once [of xs ss s] by simp

end

locale stale_safe =
  fixes step :: "'e \<Rightarrow> 's \<Rightarrow> 's"
  assumes stale: "e \<in> set xs \<Longrightarrow> step e (fold step xs s) = fold step xs s"
begin

lemma absorbs: "set ys \<subseteq> set xs \<Longrightarrow> fold step ys (fold step xs s) = fold step xs s"
  by (induction ys) (auto simp: stale)

text \<open>Only the first occurrence of an event does anything.\<close>

lemma first_occurrences: "fold step (dedupe_from seen ys) (fold step xs s) = fold step ys (fold step xs s)"
  if "set seen \<subseteq> set xs"
  using that
proof (induction ys arbitrary: seen xs)
  case (Cons y ys)
  show ?case
  proof (cases "y \<in> set seen")
    case True
    with Cons.prems have "step y (fold step xs s) = fold step xs s" by (auto intro: stale)
    with True Cons show ?thesis by simp
  next
    case False
    have "step y (fold step xs s) = fold step (xs @ [y]) s" by simp
    moreover have "fold step (dedupe_from (y # seen) ys) (fold step (xs @ [y]) s) =
        fold step ys (fold step (xs @ [y]) s)"
      by (rule Cons.IH) (use Cons.prems in auto)
    ultimately show ?thesis using False by simp
  qed
qed simp

theorem any_repetition_is_once: "fold step ys s = fold step (dedupe_from [] ys) s"
  using first_occurrences [of "[]" "[]" ys s] by simp

end

sublocale stale_safe \<subseteq> replay_safe
  by unfold_locales (simp add: absorbs)

end
