(* ===== verification/Relay.thy ===== *)
theory Relay
  imports World Delivery "HOL-Library.Multiset"
begin

text \<open>
  The outbox relay (\<^verbatim>\<open>libs/platform/outbox/relay.go\<close>) beside the transactions that fill
  its table, as a system of interleaved steps: transactions of a service take the row lock of
  an aggregate, insert outbox rows (the identity column numbers them at once, the commit makes
  them visible later) and commit or abort; replicas of the relay take the advisory lock,
  select a batch, publish it and delete it, and may fail or lose their database session at
  every point, also with a publication still under way. The broker is the sequence of rows in
  each topic partition; how much of a batch it takes is the environment's choice.
\<close>

section \<open>The system\<close>

text \<open>A stream is what Kafka keeps in order: a topic and a key.\<close>

type_synonym stream = "string \<times> uuid"

definition row_stream :: "'p out_row \<Rightarrow> stream" where
  "row_stream w = (msg_topic (row_msg w), msg_key (row_msg w))"

record relay_config =
  cfg_batch :: int
  cfg_interval :: duration
  cfg_backoff :: duration

definition with_defaults :: "relay_config \<Rightarrow> relay_config" where
  "with_defaults c = c\<lparr>cfg_batch := (if cfg_batch c \<le> 0 then 100 else cfg_batch c),
     cfg_interval := (if cfg_interval c \<le> 0 then 200 * millisecond else cfg_interval c),
     cfg_backoff := (if cfg_backoff c \<le> 0 then second else cfg_backoff c)\<rparr>"

text \<open>
  Where a replica is inside \<open>RelayOnce\<close>. An orphan has lost its session, and with it the
  advisory lock, while its call of \<open>Publish\<close> goes on.
\<close>

datatype 'p relay_phase = Idle | Leader | Selected "'p out_row list"
  | Published "'p out_row list" | Orphan "'p out_row list"

record 'p relay_sys =
  held :: "stream \<Rightarrow> nat option"
  uncommitted :: "nat \<Rightarrow> 'p out_row list"
  next_id :: nat
  table :: "'p out_row list"
  history :: "'p out_row list"
  broker :: "nat \<Rightarrow> 'p out_row list"
  leader :: "nat option"
  phase :: "nat \<Rightarrow> 'p relay_phase"

definition relay_init :: "'p relay_sys" where
  "relay_init = \<lparr>held = Map.empty, uncommitted = (\<lambda>_. []), next_id = 1, table = [], history = [],
     broker = (\<lambda>_. []), leader = None, phase = (\<lambda>_. Idle)\<rparr>"

subsection \<open>Transactions of the service\<close>

text \<open>
  The use cases write events of an aggregate while they hold its row lock (\<open>FOR UPDATE\<close>, or
  the update or insert of its row), so a transaction inserts a message of a stream only while
  it holds the stream. Streams written without such a lock (two concurrent sign-ins of one
  user share the key of \<open>auth.events\<close>) are outside this model, and so is their order.
\<close>

definition take_lock :: "nat \<Rightarrow> stream \<Rightarrow> 'p relay_sys \<Rightarrow> 'p relay_sys option" where
  "take_lock t k s = (if held s k \<in> {None, Some t} then Some (s\<lparr>held := (held s)(k \<mapsto> t)\<rparr>) else None)"

definition insert_row :: "nat \<Rightarrow> 'p message \<Rightarrow> 'p relay_sys \<Rightarrow> 'p relay_sys option" where
  "insert_row t m s =
     (let w = \<lparr>row_id = next_id s, row_msg = m\<rparr> in
      if held s (row_stream w) \<noteq> Some t then None
      else Some (s\<lparr>next_id := Suc (next_id s),
        uncommitted := (uncommitted s)(t := uncommitted s t @ [w])\<rparr>))"

definition release_locks :: "nat \<Rightarrow> 'p relay_sys \<Rightarrow> 'p relay_sys" where
  "release_locks t s = s\<lparr>uncommitted := (uncommitted s)(t := []),
     held := (\<lambda>k. if held s k = Some t then None else held s k)\<rparr>"

definition commit_tx :: "nat \<Rightarrow> 'p relay_sys \<Rightarrow> 'p relay_sys" where
  "commit_tx t s = release_locks t (s\<lparr>table := table s @ uncommitted s t,
     history := history s @ uncommitted s t\<rparr>)"

definition abort_tx :: "nat \<Rightarrow> 'p relay_sys \<Rightarrow> 'p relay_sys" where
  "abort_tx t s = release_locks t s"

subsection \<open>The statements of \<open>RelayOnce\<close>\<close>

definition set_phase :: "nat \<Rightarrow> 'p relay_phase \<Rightarrow> 'p relay_sys \<Rightarrow> 'p relay_sys" where
  "set_phase r p s = s\<lparr>phase := (phase s)(r := p)\<rparr>"

text \<open>The end of the relay's transaction, by commit, roll back or a lost session.\<close>

definition end_pass :: "nat \<Rightarrow> 'p relay_sys \<Rightarrow> 'p relay_sys" where
  "end_pass r s = set_phase r Idle
     (s\<lparr>leader := (if leader s = Some r then None else leader s)\<rparr>)"

text \<open>\<open>pg_try_advisory_xact_lock\<close>: without the lock the pass is a no-op.\<close>

definition relay_lock :: "nat \<Rightarrow> 'p relay_sys \<Rightarrow> 'p relay_sys option" where
  "relay_lock r s = (if phase s r \<noteq> Idle then None
     else if leader s \<noteq> None then Some s
     else Some (set_phase r Leader (s\<lparr>leader := Some r\<rparr>)))"

definition pending :: "nat \<Rightarrow> 'p relay_sys \<Rightarrow> 'p out_row list" where
  "pending batch s = take batch (order_by row_id (table s))"

definition relay_select :: "nat \<Rightarrow> nat \<Rightarrow> 'p relay_sys \<Rightarrow> 'p relay_sys option" where
  "relay_select batch r s =
     (case phase s r of
        Leader \<Rightarrow> Some (if pending batch s = [] then end_pass r s
                         else set_phase r (Selected (pending batch s)) s)
      | _ \<Rightarrow> None)"

text \<open>
  \<open>ProduceSync\<close> of an idempotent producer: of the records of a partition a prefix is written;
  the call succeeds when all are. \<open>n\<close> is how many the broker takes of each partition.
\<close>

definition part_rows :: "(stream \<Rightarrow> nat) \<Rightarrow> nat \<Rightarrow> 'p out_row list \<Rightarrow> 'p out_row list" where
  "part_rows part q rows = filter (\<lambda>w. part (row_stream w) = q) rows"

definition produce :: "(stream \<Rightarrow> nat) \<Rightarrow> (nat \<Rightarrow> nat) \<Rightarrow> 'p out_row list \<Rightarrow> 'p relay_sys \<Rightarrow> 'p relay_sys" where
  "produce part n rows s = s\<lparr>broker := (\<lambda>q. broker s q @ take (n q) (part_rows part q rows))\<rparr>"

definition all_written :: "(stream \<Rightarrow> nat) \<Rightarrow> (nat \<Rightarrow> nat) \<Rightarrow> 'p out_row list \<Rightarrow> bool" where
  "all_written part n rows =
     list_all (\<lambda>w. length (part_rows part (part (row_stream w)) rows) \<le> n (part (row_stream w))) rows"

definition relay_publish :: "(stream \<Rightarrow> nat) \<Rightarrow> (nat \<Rightarrow> nat) \<Rightarrow> nat \<Rightarrow> 'p relay_sys \<Rightarrow> 'p relay_sys option" where
  "relay_publish part n r s =
     (case phase s r of
        Selected rows \<Rightarrow> Some (if all_written part n rows
          then set_phase r (Published rows) (produce part n rows s)
          else end_pass r (produce part n rows s))
      | Orphan rows \<Rightarrow> Some (end_pass r (produce part n rows s))
      | _ \<Rightarrow> None)"

text \<open>\<open>DELETE ... WHERE id = ANY(ids)\<close> and the commit, which may be lost before it took effect.\<close>

definition relay_delete :: "fate \<Rightarrow> nat \<Rightarrow> 'p relay_sys \<Rightarrow> 'p relay_sys option" where
  "relay_delete fate r s =
     (case phase s r of
        Published rows \<Rightarrow> Some (end_pass r (if fate = Dropped then s
          else s\<lparr>table := delete_rows (\<lambda>w. row_id w \<in> set (map row_id rows)) (table s)\<rparr>))
      | _ \<Rightarrow> None)"

text \<open>A failed statement, or a crash of the replica; and a session lost during \<open>Publish\<close>.\<close>

definition relay_fail :: "nat \<Rightarrow> 'p relay_sys \<Rightarrow> 'p relay_sys option" where
  "relay_fail r s = (if phase s r = Idle then None else Some (end_pass r s))"

definition relay_orphan :: "nat \<Rightarrow> 'p relay_sys \<Rightarrow> 'p relay_sys option" where
  "relay_orphan r s =
     (case phase s r of
        Selected rows \<Rightarrow> Some (set_phase r (Orphan rows) (end_pass r s))
      | _ \<Rightarrow> None)"

datatype 'p relay_event = TakeLock nat stream | InsertRow nat "'p message" | Commit nat | Abort nat
  | RLock nat | RSelect nat | RPublish nat "nat \<Rightarrow> nat" | RDelete nat fate | RFail nat | ROrphan nat

fun relay_step :: "(stream \<Rightarrow> nat) \<Rightarrow> nat \<Rightarrow> 'p relay_event \<Rightarrow> 'p relay_sys \<Rightarrow> 'p relay_sys option" where
  "relay_step part batch (TakeLock t k) s = take_lock t k s"
| "relay_step part batch (InsertRow t m) s = insert_row t m s"
| "relay_step part batch (Commit t) s = Some (commit_tx t s)"
| "relay_step part batch (Abort t) s = Some (abort_tx t s)"
| "relay_step part batch (RLock r) s = relay_lock r s"
| "relay_step part batch (RSelect r) s = relay_select batch r s"
| "relay_step part batch (RPublish r n) s = relay_publish part n r s"
| "relay_step part batch (RDelete r fate) s = relay_delete fate r s"
| "relay_step part batch (RFail r) s = relay_fail r s"
| "relay_step part batch (ROrphan r) s = relay_orphan r s"

inductive relay_runs :: "(stream \<Rightarrow> nat) \<Rightarrow> nat \<Rightarrow> 'p relay_event list \<Rightarrow> 'p relay_sys \<Rightarrow> bool"
  for part batch where
  start: "relay_runs part batch [] relay_init"
| step: "relay_runs part batch es s \<Longrightarrow> relay_step part batch e s = Some s1 \<Longrightarrow>
    relay_runs part batch (es @ [e]) s1"

text \<open>One pass with nothing in between and nothing lost, and how long \<open>Run\<close> waits after a pass.\<close>

definition relay_once :: "(stream \<Rightarrow> nat) \<Rightarrow> nat \<Rightarrow> nat \<Rightarrow> 'p relay_sys \<Rightarrow> nat \<times> 'p relay_sys" where
  "relay_once part batch r s =
     (case relay_lock r s of None \<Rightarrow> (0, s)
      | Some s1 \<Rightarrow> (case relay_select batch r s1 of None \<Rightarrow> (0, s1)
        | Some s2 \<Rightarrow> (case relay_publish part (\<lambda>_. batch) r s2 of None \<Rightarrow> (0, s2)
          | Some s3 \<Rightarrow> (case relay_delete Fine r s3 of None \<Rightarrow> (0, s3)
            | Some s4 \<Rightarrow> (length (pending batch s1), s4)))))"

datatype relay_pause = Again | Pause duration

definition relay_pause :: "relay_config \<Rightarrow> unit + int \<Rightarrow> relay_pause" where
  "relay_pause c result =
     (case result of Inl _ \<Rightarrow> Pause (cfg_backoff c)
      | Inr n \<Rightarrow> if n = cfg_batch c then Again else Pause (cfg_interval c))"

section \<open>Identifiers\<close>

definition of_stream :: "stream \<Rightarrow> 'p out_row list \<Rightarrow> 'p out_row list" where
  "of_stream k rows = filter (\<lambda>w. row_stream w = k) rows"

lemma of_stream_append [simp]: "of_stream k (xs @ ys) = of_stream k xs @ of_stream k ys"
  by (simp add: of_stream_def)

lemma of_stream_Nil [simp]: "of_stream k [] = []"
  by (simp add: of_stream_def)

lemma set_of_stream [simp]: "set (of_stream k rows) = {w \<in> set rows. row_stream w = k}"
  by (auto simp: of_stream_def)

text \<open>The committed rows of a stream and those its lock holder is about to commit, in order.\<close>

definition chain :: "stream \<Rightarrow> 'p relay_sys \<Rightarrow> 'p out_row list" where
  "chain k s = of_stream k (history s) @
     (case held s k of None \<Rightarrow> [] | Some t \<Rightarrow> of_stream k (uncommitted s t))"

definition ids_ok :: "'p relay_sys \<Rightarrow> bool" where
  "ids_ok s \<longleftrightarrow>
     (\<forall>k. sorted_wrt (<) (map row_id (chain k s))) \<and>
     (\<forall>t. \<forall>w \<in> set (uncommitted s t). held s (row_stream w) = Some t \<and> row_id w < next_id s) \<and>
     (\<forall>w \<in> set (history s). row_id w < next_id s) \<and>
     (\<forall>t. distinct (map row_id (history s @ uncommitted s t))) \<and>
     (\<forall>t u. t \<noteq> u \<longrightarrow> row_id ` set (uncommitted s t) \<inter> row_id ` set (uncommitted s u) = {})"

lemma ids_okD:
  assumes "ids_ok s"
  shows "sorted_wrt (<) (map row_id (chain k s))"
    "w \<in> set (uncommitted s t) \<Longrightarrow> held s (row_stream w) = Some t"
    "w \<in> set (uncommitted s t) \<Longrightarrow> row_id w < next_id s"
    "w \<in> set (history s) \<Longrightarrow> row_id w < next_id s"
    "distinct (map row_id (history s @ uncommitted s t))"
    "t \<noteq> u \<Longrightarrow> row_id ` set (uncommitted s t) \<inter> row_id ` set (uncommitted s u) = {}"
  using assms unfolding ids_ok_def by blast+

lemma of_stream_unheld: "ids_ok s \<Longrightarrow> held s k \<noteq> Some t \<Longrightarrow> of_stream k (uncommitted s t) = []"
  using ids_okD(2) [of s] by (auto simp: of_stream_def filter_empty_conv)

lemma ids_ok_init: "ids_ok relay_init"
  by (simp add: ids_ok_def relay_init_def chain_def)

lemma ids_ok_lock: "ids_ok s \<Longrightarrow> take_lock t k s = Some s1 \<Longrightarrow> ids_ok s1"
proof -
  assume ok: "ids_ok s" and s1: "take_lock t k s = Some s1"
  have s1_def: "s1 = s\<lparr>held := (held s)(k \<mapsto> t)\<rparr>" and free: "held s k = None \<or> held s k = Some t"
    using s1 by (auto simp: take_lock_def split: if_splits)
  have "chain k' s1 = chain k' s" for k'
    using free of_stream_unheld [OF ok, of k t] by (auto simp: chain_def s1_def split: option.splits)
  then show ?thesis using ok free unfolding ids_ok_def by (auto simp: s1_def)
qed

lemma ids_ok_insert:
  assumes ok: "ids_ok s" and "insert_row t m s = Some s1"
  shows "ids_ok s1"
proof -
  let ?w = "\<lparr>row_id = next_id s, row_msg = m\<rparr>"
  have held: "held s (row_stream ?w) = Some t"
    and s1: "s1 = s\<lparr>next_id := Suc (next_id s),
        uncommitted := (uncommitted s)(t := uncommitted s t @ [?w])\<rparr>"
    using assms(2) by (auto simp: insert_row_def Let_def split: if_splits)
  have chain: "chain k s1 = (if k = row_stream ?w then chain k s @ [?w] else chain k s)" for k
    using held by (auto simp: chain_def s1 of_stream_def split: option.splits)
  have below: "row_id v < next_id s" if "v \<in> set (chain k s)" for v k
    using that ids_okD(3,4) [OF ok] by (auto simp: chain_def split: option.splits)
  have new: "next_id s \<notin> row_id ` set (uncommitted s v)" "next_id s \<notin> row_id ` set (history s)" for v
    using ids_okD(3,4) [OF ok] by (metis imageE less_irrefl_nat)+
  have "sorted_wrt (<) (map row_id (chain k s1))" for k
    using ids_okD(1) [OF ok, of k] below by (auto simp: chain sorted_wrt_append)
  moreover have "distinct (map row_id (history s1 @ uncommitted s1 u))" for u
    using ids_okD(5) [OF ok, of u] new by (auto simp: s1)
  moreover have "row_id ` set (uncommitted s1 u) \<inter> row_id ` set (uncommitted s1 v) = {}" if "u \<noteq> v" for u v
    using ids_okD(6) [OF ok that] new that by (auto simp: s1)
  ultimately show ?thesis
    using ids_okD(2-4) [OF ok] held unfolding ids_ok_def
    by (auto simp: s1 less_Suc_eq)
qed

lemma chain_release:
  assumes "ids_ok s"
  shows "chain k (release_locks t (s\<lparr>table := rows, history := history s @ uncommitted s t\<rparr>)) = chain k s"
    and "chain k (release_locks t s) =
      (if held s k = Some t then of_stream k (history s) else chain k s)"
  using of_stream_unheld [OF assms, of k t]
  by (auto simp: chain_def release_locks_def split: option.splits)

lemma ids_ok_abort: "ids_ok s \<Longrightarrow> ids_ok (abort_tx t s)"
proof -
  assume ok: "ids_ok s"
  have "sorted_wrt (<) (map row_id (chain k (abort_tx t s)))" for k
    using ids_okD(1) [OF ok, of k] by (auto simp: abort_tx_def chain_release [OF ok])
      (simp add: chain_def sorted_wrt_append)
  moreover have "distinct (map row_id (history s @ (if u = t then [] else uncommitted s u)))" for u
    using ids_okD(5) [OF ok, of u] by auto
  ultimately show ?thesis
    using ids_okD(2-4,6) [OF ok] unfolding ids_ok_def
    by (auto simp: abort_tx_def release_locks_def) 
qed

lemma ids_ok_commit: "ids_ok s \<Longrightarrow> ids_ok (commit_tx t s)"
proof -
  assume ok: "ids_ok s"
  have "sorted_wrt (<) (map row_id (chain k (commit_tx t s)))" for k
    using ids_okD(1) [OF ok, of k] by (simp add: commit_tx_def chain_release(1) [OF ok])
  moreover have "distinct (map row_id ((history s @ uncommitted s t) @ (if u = t then [] else uncommitted s u)))" for u
    using ids_okD(5) [OF ok, of u] ids_okD(5) [OF ok, of t] ids_okD(6) [OF ok, of t u] by auto
  ultimately show ?thesis
    using ids_okD(2-4,6) [OF ok] unfolding ids_ok_def
    by (auto simp: commit_tx_def release_locks_def)
qed

section \<open>What every stream looks like\<close>

lemma dedupe_segment:
  assumes H: "distinct H" and L: "dedupe_from [] L = take n H" and Q: "prefix Q (drop a H)" and "a \<le> n"
  shows "dedupe_from [] (L @ Q) = take (max n (a + length Q)) H"
proof -
  have Q': "Q = take (length Q) (drop a H)" using Q by (auto simp: prefix_def)
  have dist: "distinct (drop a H)" using H by simp
  then have "distinct Q" using Q by (auto simp: prefix_def distinct_append)
  have seen: "set L = set (take n H)" using set_dedupe_from [of "[]" L] L by simp
  have "dedupe_from [] (L @ Q) = take n H @ filter (\<lambda>y. y \<notin> set (take n H)) Q"
    using \<open>distinct Q\<close> seen by (simp add: dedupe_from_append L dedupe_from_filter)
  moreover have "filter (\<lambda>y. y \<notin> set (take n H)) Q = drop (n - a) Q"
  proof -
    have "set (take (n - a) Q) \<subseteq> set (take n H)"
    proof -
      have "take (n - a) Q = take (min (n - a) (length Q)) (drop a H)" by (subst Q') simp
      also have "\<dots> = drop a (take (a + min (n - a) (length Q)) H)" by (simp add: take_drop add.commute)
      finally show ?thesis
        using \<open>a \<le> n\<close> set_drop_subset set_take_subset_set_take [of "a + min (n - a) (length Q)" n H]
        by (metis (no_types, lifting) le_add_diff_inverse min.cobounded1 nat_add_left_cancel_le order_trans)
    qed
    moreover have "set (drop (n - a) Q) \<inter> set (take n H) = {}"
    proof -
      have "drop (n - a) Q = take (length Q - (n - a)) (drop n H)"
        by (subst Q') (simp add: drop_take \<open>a \<le> n\<close>)
      then have "set (drop (n - a) Q) \<subseteq> set (drop n H)" by (metis set_take_subset)
      with H show ?thesis by (metis append_take_drop_id disjoint_iff distinct_append subsetD)
    qed
    moreover have "filter (\<lambda>y. y \<notin> set (take n H)) Q =
        filter (\<lambda>y. y \<notin> set (take n H)) (take (n - a) Q) @ filter (\<lambda>y. y \<notin> set (take n H)) (drop (n - a) Q)"
      by (metis append_take_drop_id filter_append)
    ultimately show ?thesis by (simp add: filter_False filter_id_conv disjoint_iff subset_iff)
  qed
  moreover have "drop (n - a) Q = take (a + length Q - n) (drop n H)"
    using \<open>a \<le> n\<close> by (subst Q') (simp add: drop_take add.commute)
  moreover have "take n H @ take (a + length Q - n) (drop n H) = take (max n (a + length Q)) H"
    by (cases "n \<le> a + length Q") (simp_all add: take_add [symmetric] max_def)
  ultimately show ?thesis by simp
qed

definition sent :: "(stream \<Rightarrow> nat) \<Rightarrow> stream \<Rightarrow> 'p relay_sys \<Rightarrow> 'p out_row list" where
  "sent part k s = of_stream k (broker s (part k))"

definition waiting :: "stream \<Rightarrow> 'p relay_sys \<Rightarrow> 'p out_row list" where
  "waiting k s = of_stream k (order_by row_id (table s))"

fun phase_ok :: "stream \<Rightarrow> 'p out_row list \<Rightarrow> nat \<Rightarrow> nat \<Rightarrow> 'p relay_phase \<Rightarrow> bool" where
  "phase_ok k H d n (Selected rows) \<longleftrightarrow> prefix (of_stream k rows) (drop d H)"
| "phase_ok k H d n (Published rows) \<longleftrightarrow>
     prefix (of_stream k rows) (drop d H) \<and> d + length (of_stream k rows) \<le> n"
| "phase_ok k H d n (Orphan rows) \<longleftrightarrow> (\<exists>a \<le> n. prefix (of_stream k rows) (drop a H))"
| "phase_ok k H d n _ \<longleftrightarrow> True"

text \<open>
  Of the \<open>H\<close> rows committed to a stream, in order: the first \<open>d\<close> are deleted from the table,
  the others wait; the first \<open>n\<close> have reached the broker, in order if repetitions are dropped.
\<close>

definition stream_view :: "(stream \<Rightarrow> nat) \<Rightarrow> stream \<Rightarrow> 'p relay_sys \<Rightarrow> nat \<Rightarrow> nat \<Rightarrow> bool" where
  "stream_view part k s d n \<longleftrightarrow> d \<le> n \<and> n \<le> length (of_stream k (history s)) \<and>
     waiting k s = drop d (of_stream k (history s)) \<and>
     dedupe_from [] (sent part k s) = take n (of_stream k (history s)) \<and>
     (\<forall>r. phase_ok k (of_stream k (history s)) d n (phase s r))"

fun in_tx_phase :: "'p relay_phase \<Rightarrow> bool" where
  "in_tx_phase (Orphan rows) = False"
| "in_tx_phase Idle = False"
| "in_tx_phase p = True"

definition relay_inv :: "(stream \<Rightarrow> nat) \<Rightarrow> 'p relay_sys \<Rightarrow> bool" where
  "relay_inv part s \<longleftrightarrow> ids_ok s \<and> (\<forall>r. in_tx_phase (phase s r) \<longrightarrow> leader s = Some r) \<and>
     (\<forall>k. \<exists>d n. stream_view part k s d n)"

lemma history_sorted:
  assumes "ids_ok s"
  shows "sorted_wrt (<) (map row_id (of_stream k (history s)))"
    and "distinct (of_stream k (history s))"
proof -
  show "sorted_wrt (<) (map row_id (of_stream k (history s)))"
    using ids_okD(1) [OF assms, of k] by (simp add: chain_def sorted_wrt_append)
  then show "distinct (of_stream k (history s))"
    using strict_sorted_iff distinct_map by blast
qed

subsection \<open>Steps of a service's transaction\<close>

lemma insort_key_gt: "\<forall>y \<in> set ys. f y < f x \<Longrightarrow> insort_key f x ys = ys @ [x]"
  by (induction ys) auto

lemma sort_key_append_sorted:
  fixes f :: "'r \<Rightarrow> 'k::linorder"
  shows "sorted (map f (sort_key f xs @ ys)) \<Longrightarrow> sort_key f (xs @ ys) = sort_key f xs @ ys"
proof (induction ys rule: rev_induct)
  case (snoc y ys)
  have IH: "sort_key f (xs @ ys) = sort_key f xs @ ys"
    using snoc by (auto simp: sorted_append)
  have "\<forall>z \<in> set (xs @ ys). f z \<le> f y" using snoc.prems by (auto simp: sorted_append)
  then have "sort_key f ((xs @ ys) @ [y]) = sort_key f (xs @ ys) @ [y]" by (rule sort_key_snoc)
  with IH show ?case by simp
qed simp

lemma waiting_sort: "waiting k s = sort_key row_id (of_stream k (table s))"
  by (simp add: waiting_def of_stream_def order_by_def filter_sort)

lemma phase_ok_grow:
  assumes "phase_ok k H d n p" "d \<le> length H" "n \<le> length H"
  shows "phase_ok k (H @ ys) d n p"
  using assms by (cases p) (auto intro: prefix_order.trans elim!: order_trans)

lemma chain_committed: "ids_ok s \<Longrightarrow> sorted_wrt (<) (map row_id (of_stream k (history s) @ of_stream k (uncommitted s t)))"
proof (cases "held s k = Some t")
  case True
  assume "ids_ok s"
  with True show ?thesis using ids_okD(1) [of s k] by (simp add: chain_def)
next
  case False
  assume ok: "ids_ok s"
  show ?thesis using history_sorted(1) [OF ok, of k] of_stream_unheld [OF ok False] by simp
qed

lemma commit_waiting:
  assumes ok: "ids_ok s" and T: "waiting k s = drop d (of_stream k (history s))"
    and d: "d \<le> length (of_stream k (history s))"
  shows "waiting k (commit_tx t s) = waiting k s @ of_stream k (uncommitted s t)"
proof -
  let ?H = "of_stream k (history s)" and ?U = "of_stream k (uncommitted s t)"
  have "sorted (map row_id (drop d (?H @ ?U)))"
    using chain_committed [OF ok, of k t] by (metis drop_map sorted_wrt_drop strict_sorted_imp_sorted)
  then have "sorted (map row_id (waiting k s @ ?U))" using T d by simp
  then show ?thesis
    using sort_key_append_sorted [of row_id "of_stream k (table s)" ?U]
    by (simp add: waiting_sort commit_tx_def release_locks_def)
qed

lemma commit_view:
  assumes ok: "ids_ok s" and view: "stream_view part k s d n"
  shows "stream_view part k (commit_tx t s) d n"
proof -
  let ?H = "of_stream k (history s)" and ?U = "of_stream k (uncommitted s t)"
  have H1: "of_stream k (history (commit_tx t s)) = ?H @ ?U"
    by (simp add: commit_tx_def release_locks_def)
  have dn: "d \<le> n" "n \<le> length ?H" using view by (simp_all add: stream_view_def)
  have "waiting k (commit_tx t s) = waiting k s @ ?U"
    using view dn commit_waiting [OF ok, of k d t] by (simp add: stream_view_def)
  moreover have "sent part k (commit_tx t s) = sent part k s" "phase (commit_tx t s) = phase s"
    by (simp_all add: sent_def commit_tx_def release_locks_def)
  ultimately show ?thesis
    using view dn phase_ok_grow [of k ?H d n _ ?U] unfolding stream_view_def H1 by simp
qed

lemma same_view:
  assumes "history s1 = history s" "table s1 = table s" "broker s1 = broker s"
    and "\<And>r. phase s1 r = phase s r \<or> phase s1 r \<in> {Idle, Leader}"
  shows "stream_view part k s d n \<Longrightarrow> stream_view part k s1 d n"
proof -
  assume view: "stream_view part k s d n"
  have "phase_ok k (of_stream k (history s)) d n (phase s1 r)" for r
    using assms(4) [of r] view by (auto simp: stream_view_def)
  with view show ?thesis by (simp add: stream_view_def waiting_def sent_def assms(1-3))
qed

lemma end_pass_simps [simp]:
  "history (end_pass r s) = history s" "table (end_pass r s) = table s"
  "broker (end_pass r s) = broker s" "held (end_pass r s) = held s"
  "uncommitted (end_pass r s) = uncommitted s" "next_id (end_pass r s) = next_id s"
  "phase (end_pass r s) = (phase s)(r := Idle)"
  "leader (end_pass r s) = (if leader s = Some r then None else leader s)"
  by (simp_all add: end_pass_def set_phase_def)

lemma set_phase_simps [simp]:
  "history (set_phase r p s) = history s" "table (set_phase r p s) = table s"
  "broker (set_phase r p s) = broker s" "held (set_phase r p s) = held s"
  "uncommitted (set_phase r p s) = uncommitted s" "next_id (set_phase r p s) = next_id s"
  "phase (set_phase r p s) = (phase s)(r := p)" "leader (set_phase r p s) = leader s"
  by (simp_all add: set_phase_def)

lemma produce_simps [simp]:
  "history (produce part n rows s) = history s" "table (produce part n rows s) = table s"
  "held (produce part n rows s) = held s" "uncommitted (produce part n rows s) = uncommitted s"
  "next_id (produce part n rows s) = next_id s" "phase (produce part n rows s) = phase s"
  "leader (produce part n rows s) = leader s"
  by (simp_all add: produce_def)

lemma ids_ok_cong:
  "held s1 = held s \<Longrightarrow> uncommitted s1 = uncommitted s \<Longrightarrow> next_id s1 = next_id s \<Longrightarrow>
     history s1 = history s \<Longrightarrow> ids_ok s1 = ids_ok s"
  unfolding ids_ok_def chain_def by (simp only:)

subsection \<open>Steps of the relay\<close>

lemma sent_produce:
  "\<exists>j. sent part k (produce part m rows s) = sent part k s @ take j (of_stream k rows) \<and>
     (all_written part m rows \<longrightarrow> length (of_stream k rows) \<le> j)"
proof -
  let ?q = "part_rows part (part k) rows"
  have stream: "of_stream k ?q = of_stream k rows"
    by (auto simp: of_stream_def part_rows_def intro: filter_cong)
  have "prefix (of_stream k (take (m (part k)) ?q)) (of_stream k rows)"
    by (metis append_take_drop_id of_stream_append prefixI stream)
  then obtain j where j: "of_stream k (take (m (part k)) ?q) = take j (of_stream k rows)"
    by (metis append_eq_conv_conj prefix_def)
  show ?thesis
  proof (cases "all_written part m rows \<and> of_stream k rows \<noteq> []")
    case True
    then obtain w where w: "w \<in> set rows" "row_stream w = k" by (auto simp: of_stream_def filter_empty_conv)
    then have "length ?q \<le> m (part k)" using True by (auto simp: all_written_def list_all_iff)
    then have "take (m (part k)) ?q = ?q" by simp
    then show ?thesis using stream by (intro exI [of _ "length (of_stream k rows)"]) (simp add: sent_def produce_def)
  next
    case False
    then show ?thesis using j by (intro exI [of _ j]) (auto simp: sent_def produce_def)
  qed
qed

lemma phase_ok_later: "phase_ok k H d n p \<Longrightarrow> n \<le> n1 \<Longrightarrow> phase_ok k H d n1 p"
  by (cases p) (auto intro: le_trans)

text \<open>Publishing what continues the stream at or before the point it has reached.\<close>

lemma produce_view:
  assumes ok: "ids_ok s" and view: "stream_view part k s d n"
    and rows: "prefix (of_stream k rows) (drop a (of_stream k (history s)))" "a \<le> n"
  shows "\<exists>n1 \<ge> n. stream_view part k (produce part m rows s) d n1 \<and>
    (all_written part m rows \<longrightarrow> a + length (of_stream k rows) \<le> n1)"
proof -
  let ?H = "of_stream k (history s)"
  obtain j where j: "sent part k (produce part m rows s) = sent part k s @ take j (of_stream k rows)"
      "all_written part m rows \<longrightarrow> length (of_stream k rows) \<le> j"
    using sent_produce by blast
  have pre: "prefix (take j (of_stream k rows)) (drop a ?H)"
    using rows(1) take_is_prefix prefix_order.trans by blast
  let ?n = "max n (a + length (take j (of_stream k rows)))"
  have n: "d \<le> n" "n \<le> length ?H" "dedupe_from [] (sent part k s) = take n ?H"
    using view by (simp_all add: stream_view_def)
  have "dedupe_from [] (sent part k (produce part m rows s)) = take ?n ?H"
    unfolding j(1) using history_sorted(2) [OF ok] n(3) pre rows(2) by (rule dedupe_segment)
  moreover have "?n \<le> length ?H"
    using prefix_length_le [OF pre] n(2) rows(2) by auto
  moreover have "waiting k (produce part m rows s) = waiting k s" by (simp add: waiting_def)
  ultimately have "stream_view part k (produce part m rows s) d ?n"
    using view n phase_ok_later [of k ?H d n _ ?n] by (simp add: stream_view_def)
  moreover have "all_written part m rows \<longrightarrow> a + length (of_stream k rows) \<le> ?n" using j(2) by auto
  ultimately show ?thesis by (meson max.cobounded1)
qed

lemma relay_invD:
  assumes "relay_inv part s"
  shows "ids_ok s" "in_tx_phase (phase s r) \<Longrightarrow> leader s = Some r" "\<exists>d n. stream_view part k s d n"
  using assms unfolding relay_inv_def by blast+

lemma relay_invI:
  "ids_ok s \<Longrightarrow> (\<And>r. in_tx_phase (phase s r) \<Longrightarrow> leader s = Some r) \<Longrightarrow>
     (\<And>k. \<exists>d n. stream_view part k s d n) \<Longrightarrow> relay_inv part s"
  unfolding relay_inv_def by blast

lemma inv_end_pass: "relay_inv part s \<Longrightarrow> relay_inv part (end_pass r s)"
proof (rule relay_invI)
  assume inv: "relay_inv part s"
  show "ids_ok (end_pass r s)" using relay_invD(1) [OF inv] ids_ok_cong [of "end_pass r s" s] by simp
  show "leader (end_pass r s) = Some q" if "in_tx_phase (phase (end_pass r s) q)" for q
    using that relay_invD(2) [OF inv, of q] by (auto split: if_splits)
  show "\<exists>d n. stream_view part k (end_pass r s) d n" for k
    using relay_invD(3) [OF inv, of k] same_view [of "end_pass r s" s] by fastforce
qed

lemma inv_set_phase:
  assumes inv: "relay_inv part s" and "in_tx_phase p \<Longrightarrow> leader s = Some r"
    and "\<And>k. \<exists>d n. stream_view part k s d n \<and> phase_ok k (of_stream k (history s)) d n p"
  shows "relay_inv part (set_phase r p s)"
proof (rule relay_invI)
  show "ids_ok (set_phase r p s)" using relay_invD(1) [OF inv] ids_ok_cong [of "set_phase r p s" s] by simp
  show "leader (set_phase r p s) = Some q" if "in_tx_phase (phase (set_phase r p s) q)" for q
    using that relay_invD(2) [OF inv, of q] assms(2) by (auto split: if_splits)
  fix k
  obtain d n where "stream_view part k s d n" "phase_ok k (of_stream k (history s)) d n p"
    using assms(3) by blast
  then have "stream_view part k (set_phase r p s) d n"
    by (simp add: stream_view_def waiting_def sent_def)
  then show "\<exists>d n. stream_view part k (set_phase r p s) d n" by blast
qed

lemma inv_txs:
  assumes inv: "relay_inv part s" and "ids_ok s1" "phase s1 = phase s" "leader s1 = leader s"
    and "\<And>k d n. stream_view part k s d n \<Longrightarrow> stream_view part k s1 d n"
  shows "relay_inv part s1"
  by (rule relay_invI) (use assms relay_invD [OF inv] in \<open>auto, blast\<close>)

lemma inv_lock: "relay_inv part s \<Longrightarrow> relay_lock r s = Some s1 \<Longrightarrow> relay_inv part s1"
proof -
  assume inv: "relay_inv part s" and s1: "relay_lock r s = Some s1"
  show ?thesis
  proof (cases "leader s")
    case None
    have none: "\<not> in_tx_phase (phase s q)" for q using relay_invD(2) [OF inv, of q] None by auto
    have "relay_inv part (s\<lparr>leader := Some r\<rparr>)"
    proof (rule relay_invI)
      show "ids_ok (s\<lparr>leader := Some r\<rparr>)"
        using relay_invD(1) [OF inv] ids_ok_cong [of "s\<lparr>leader := Some r\<rparr>" s] by simp
      show "\<exists>d n. stream_view part k (s\<lparr>leader := Some r\<rparr>) d n" for k
        using relay_invD(3) [OF inv, of k] same_view [of "s\<lparr>leader := Some r\<rparr>" s] by fastforce
    qed (use none in simp)
    then have "relay_inv part (set_phase r Leader (s\<lparr>leader := Some r\<rparr>))"
    proof (rule inv_set_phase)
      show "\<exists>d n. stream_view part k (s\<lparr>leader := Some r\<rparr>) d n \<and>
          phase_ok k (of_stream k (history (s\<lparr>leader := Some r\<rparr>))) d n Leader" for k
        using relay_invD(3) [OF \<open>relay_inv part (s\<lparr>leader := Some r\<rparr>)\<close>, of k] by simp
    qed simp
    then show ?thesis using s1 None by (auto simp: relay_lock_def split: if_splits)
  qed (use inv s1 in \<open>auto simp: relay_lock_def split: if_splits\<close>)
qed

lemma pending_prefix: "prefix (of_stream k (pending b s)) (waiting k s)"
  unfolding pending_def waiting_def of_stream_def
  by (metis append_take_drop_id filter_append prefixI)

lemma inv_select: "relay_inv part s \<Longrightarrow> relay_select b r s = Some s1 \<Longrightarrow> relay_inv part s1"
proof -
  assume inv: "relay_inv part s" and s1: "relay_select b r s = Some s1"
  then have "phase s r = Leader" by (auto simp: relay_select_def split: relay_phase.splits)
  then have "leader s = Some r" using relay_invD(2) [OF inv, of r] by simp
  moreover have "\<exists>d n. stream_view part k s d n \<and> phase_ok k (of_stream k (history s)) d n (Selected (pending b s))"
    for k
  proof -
    obtain d n where view: "stream_view part k s d n" using relay_invD(3) [OF inv] by blast
    then have "phase_ok k (of_stream k (history s)) d n (Selected (pending b s))"
      using pending_prefix [of k b s] by (simp add: stream_view_def)
    with view show ?thesis by blast
  qed
  ultimately have "relay_inv part (set_phase r (Selected (pending b s)) s)"
    by (intro inv_set_phase inv)
  with s1 show ?thesis
    by (auto simp: relay_select_def inv_end_pass [OF inv] split: relay_phase.splits if_splits)
qed

lemma inv_produce:
  assumes inv: "relay_inv part s" and "phase s r = Selected rows \<or> phase s r = Orphan rows"
  shows "relay_inv part (produce part m rows s)"
    and "phase s r = Selected rows \<Longrightarrow> all_written part m rows \<Longrightarrow>
      \<exists>d n. stream_view part k (produce part m rows s) d n \<and> phase_ok k (of_stream k (history s)) d n (Published rows)"
proof -
  let ?s1 = "produce part m rows s"
  have view: "\<exists>d n. stream_view part k ?s1 d n \<and> (phase s r = Selected rows \<and> all_written part m rows \<longrightarrow>
      phase_ok k (of_stream k (history s)) d n (Published rows))" for k
  proof -
    obtain d n where v: "stream_view part k s d n" using relay_invD(3) [OF inv] by blast
    then have "phase_ok k (of_stream k (history s)) d n (phase s r)" and "d \<le> n"
      by (simp_all add: stream_view_def)
    then have "\<exists>a \<le> n. prefix (of_stream k rows) (drop a (of_stream k (history s))) \<and>
        (phase s r = Selected rows \<longrightarrow> a = d)"
      using assms(2) by (elim disjE) (auto intro: exI [of _ d])
    then obtain a where a: "a \<le> n" "prefix (of_stream k rows) (drop a (of_stream k (history s)))"
        "phase s r = Selected rows \<longrightarrow> a = d" by blast
    from produce_view [OF relay_invD(1) [OF inv] v a(2,1), of m] a(2,3)
    show ?thesis by auto
  qed
  show "relay_inv part ?s1"
  proof (rule relay_invI)
    show "ids_ok ?s1" using relay_invD(1) [OF inv] ids_ok_cong [of ?s1 s] by simp
    show "\<exists>d n. stream_view part k ?s1 d n" for k using view [of k] by blast
  qed (use relay_invD(2) [OF inv] in simp)
  show "\<exists>d n. stream_view part k ?s1 d n \<and> phase_ok k (of_stream k (history s)) d n (Published rows)"
    if "phase s r = Selected rows" "all_written part m rows"
    using view [of k] that by blast
qed

lemma inv_publish: "relay_inv part s \<Longrightarrow> relay_publish part m r s = Some s1 \<Longrightarrow> relay_inv part s1"
proof -
  assume inv: "relay_inv part s" and s1: "relay_publish part m r s = Some s1"
  then obtain rows where rows: "phase s r = Selected rows \<or> phase s r = Orphan rows"
    by (auto simp: relay_publish_def split: relay_phase.splits)
  note inv1 = inv_produce(1) [OF inv rows, of m]
  show ?thesis
  proof (cases "phase s r = Selected rows \<and> all_written part m rows")
    case True
    then have "leader s = Some r" using relay_invD(2) [OF inv, of r] by simp
    then have "relay_inv part (set_phase r (Published rows) (produce part m rows s))"
      using inv_produce(2) [OF inv rows, of m] True by (intro inv_set_phase inv1) simp_all
    with True s1 show ?thesis by (simp add: relay_publish_def)
  next
    case False
    with rows s1 show ?thesis by (auto simp: relay_publish_def inv_end_pass [OF inv1])
  qed
qed

lemma delete_waiting:
  assumes ok: "ids_ok s" and pre: "prefix (of_stream k rows) (waiting k s)"
    and rows: "set rows \<subseteq> set (history s)" and table: "set (waiting k s) \<subseteq> set (history s)"
    and dist: "distinct (waiting k s)"
  shows "waiting k (s\<lparr>table := delete_rows (\<lambda>w. row_id w \<in> set (map row_id rows)) (table s)\<rparr>) =
    drop (length (of_stream k rows)) (waiting k s)"
proof -
  let ?R = "of_stream k rows" and ?T = "waiting k s"
  have inj: "inj_on row_id (set (history s))"
    using ids_okD(5) [OF ok, of 0] by (simp add: distinct_map)
  have mem: "row_id w \<in> row_id ` set rows \<longleftrightarrow> w \<in> set ?R" if "w \<in> set ?T" for w
  proof -
    have "row_stream w = k" using that by (simp add: waiting_def)
    then show ?thesis using that inj rows table by (auto dest: inj_onD)
  qed
  have "waiting k (s\<lparr>table := delete_rows (\<lambda>w. row_id w \<in> set (map row_id rows)) (table s)\<rparr>) =
      filter (\<lambda>w. row_id w \<notin> row_id ` set rows) ?T"
    by (simp add: waiting_sort delete_rows_def of_stream_def filter_sort filter_filter conj_commute)
  also have "\<dots> = filter (\<lambda>w. w \<notin> set ?R) ?T"
    using mem by (intro filter_cong) auto
  also have "\<dots> = drop (length ?R) ?T"
  proof -
    obtain zs where T: "?T = ?R @ zs" using pre by (auto simp: prefix_def)
    with dist have "filter (\<lambda>w. w \<notin> set ?R) zs = zs" by (auto simp: filter_id_conv)
    moreover have "filter (\<lambda>w. w \<notin> set ?R) ?R = []" by (simp add: filter_empty_conv)
    ultimately show ?thesis unfolding T filter_append by simp
  qed
  finally show ?thesis .
qed

lemma published_rows:
  assumes inv: "relay_inv part s" and rows: "phase s r = Published rows"
  shows "prefix (of_stream k rows) (waiting k s)"
    and "waiting k (s\<lparr>table := delete_rows (\<lambda>w. row_id w \<in> set (map row_id rows)) (table s)\<rparr>) =
      drop (length (of_stream k rows)) (waiting k s)"
proof -
  note ok = relay_invD(1) [OF inv]
  have pre: "prefix (of_stream k rows) (waiting k s) \<and> set (waiting k s) \<subseteq> set (history s) \<and>
      distinct (waiting k s)" for k
  proof -
    let ?H = "of_stream k (history s)"
    obtain d n where v: "stream_view part k s d n" using relay_invD(3) [OF inv] by blast
    then have "prefix (of_stream k rows) (drop d ?H)" and T: "waiting k s = drop d ?H"
      using rows unfolding stream_view_def by (metis phase_ok.simps(2))+
    then show ?thesis using set_drop_subset [of d ?H] history_sorted(2) [OF ok] by auto
  qed
  then show "prefix (of_stream k rows) (waiting k s)" by blast
  have "set rows \<subseteq> set (history s)"
  proof
    fix w assume "w \<in> set rows"
    then have "w \<in> set (of_stream (row_stream w) rows)" by simp
    also have "\<dots> \<subseteq> set (history s)" using pre [of "row_stream w"] set_mono_prefix by blast
    finally show "w \<in> set (history s)" .
  qed
  with pre [of k] show "waiting k (s\<lparr>table := delete_rows (\<lambda>w. row_id w \<in> set (map row_id rows)) (table s)\<rparr>) =
      drop (length (of_stream k rows)) (waiting k s)"
    by (intro delete_waiting [OF ok]) blast+
qed

lemma inv_delete: "relay_inv part s \<Longrightarrow> relay_delete fate r s = Some s1 \<Longrightarrow> relay_inv part s1"
proof -
  assume inv: "relay_inv part s" and s1: "relay_delete fate r s = Some s1"
  then obtain rows where rows: "phase s r = Published rows"
    by (auto simp: relay_delete_def split: relay_phase.splits)
  let ?s = "s\<lparr>table := delete_rows (\<lambda>w. row_id w \<in> set (map row_id rows)) (table s)\<rparr>"
  note ok = relay_invD(1) [OF inv]
  have other: "\<not> in_tx_phase (phase s q)" if "q \<noteq> r" for q
    using that relay_invD(2) [OF inv, of q] relay_invD(2) [OF inv, of r] rows by auto
  have view: "\<exists>d n. stream_view part k (end_pass r ?s) d n" for k
  proof -
    let ?H = "of_stream k (history s)"
    obtain d n where v: "stream_view part k s d n" using relay_invD(3) [OF inv] by blast
    then have pre: "prefix (of_stream k rows) (drop d ?H)" and le: "d + length (of_stream k rows) \<le> n"
      and T: "waiting k s = drop d ?H"
      using rows unfolding stream_view_def by (metis phase_ok.simps(2))+
    have "waiting k ?s = drop (d + length (of_stream k rows)) ?H"
      using published_rows(2) [OF inv rows, of k] T by (simp add: add.commute)
    moreover have "phase_ok k ?H (d + length (of_stream k rows)) n (phase (end_pass r ?s) q)" for q
    proof (cases "q = r")
      case False
      moreover have "phase_ok k ?H d n (phase s q)" using v by (simp add: stream_view_def)
      ultimately show ?thesis using other [OF False] by (cases "phase s q") auto
    qed simp
    ultimately have "stream_view part k (end_pass r ?s) (d + length (of_stream k rows)) n"
      using v le by (simp add: stream_view_def waiting_def sent_def)
    then show ?thesis by blast
  qed
  have "relay_inv part (end_pass r ?s)"
  proof (rule relay_invI)
    show "ids_ok (end_pass r ?s)" using ok ids_ok_cong [of "end_pass r ?s" s] by simp
    show "leader (end_pass r ?s) = Some q" if "in_tx_phase (phase (end_pass r ?s) q)" for q
      using that other by (auto split: if_splits)
  qed (rule view)
  with rows s1 show ?thesis by (auto simp: relay_delete_def inv_end_pass [OF inv] split: if_splits)
qed

lemma inv_orphan: "relay_inv part s \<Longrightarrow> relay_orphan r s = Some s1 \<Longrightarrow> relay_inv part s1"
proof -
  assume inv: "relay_inv part s" and s1: "relay_orphan r s = Some s1"
  then obtain rows where rows: "phase s r = Selected rows"
    by (auto simp: relay_orphan_def split: relay_phase.splits)
  have "\<exists>d n. stream_view part k (end_pass r s) d n \<and>
      phase_ok k (of_stream k (history (end_pass r s))) d n (Orphan rows)" for k
  proof -
    obtain d n where v: "stream_view part k s d n" using relay_invD(3) [OF inv] by blast
    then have "prefix (of_stream k rows) (drop d (of_stream k (history s)))" "d \<le> n"
      using rows unfolding stream_view_def by (metis phase_ok.simps(1))+
    moreover have "stream_view part k (end_pass r s) d n"
      using v by (rule same_view [rotated 4]) simp_all
    ultimately show ?thesis by auto
  qed
  then have "relay_inv part (set_phase r (Orphan rows) (end_pass r s))"
    by (intro inv_set_phase inv_end_pass inv) simp_all
  with rows s1 show ?thesis by (simp add: relay_orphan_def)
qed

lemma inv_step: "relay_inv part s \<Longrightarrow> relay_step part batch e s = Some s1 \<Longrightarrow> relay_inv part s1"
proof (cases e)
  case (TakeLock t k)
  assume inv: "relay_inv part s" and s1: "relay_step part batch e s = Some s1"
  then have lock: "take_lock t k s = Some s1" using TakeLock by simp
  then have eq: "history s1 = history s" "table s1 = table s" "broker s1 = broker s" "phase s1 = phase s"
      "leader s1 = leader s"
    by (auto simp: take_lock_def split: if_splits)
  show ?thesis
    by (rule inv_txs [OF inv ids_ok_lock [OF relay_invD(1) [OF inv] lock] eq(4,5)],
        rule same_view [OF eq(1-3)]) (simp_all add: eq(4))
next
  case (InsertRow t m)
  assume inv: "relay_inv part s" and s1: "relay_step part batch e s = Some s1"
  then have ins: "insert_row t m s = Some s1" using InsertRow by simp
  then have eq: "history s1 = history s" "table s1 = table s" "broker s1 = broker s" "phase s1 = phase s"
      "leader s1 = leader s"
    by (auto simp: insert_row_def Let_def split: if_splits)
  show ?thesis
    by (rule inv_txs [OF inv ids_ok_insert [OF relay_invD(1) [OF inv] ins] eq(4,5)],
        rule same_view [OF eq(1-3)]) (simp_all add: eq(4))
next
  case (Commit t)
  assume inv: "relay_inv part s" and s1: "relay_step part batch e s = Some s1"
  then have s1: "s1 = commit_tx t s" using Commit by simp
  have eq: "phase (commit_tx t s) = phase s" "leader (commit_tx t s) = leader s"
    by (simp_all add: commit_tx_def release_locks_def)
  note ok = relay_invD(1) [OF inv]
  show ?thesis unfolding s1
    by (rule inv_txs [OF inv ids_ok_commit [OF ok] eq]) (rule commit_view [OF ok])
next
  case (Abort t)
  assume inv: "relay_inv part s" and s1: "relay_step part batch e s = Some s1"
  then have s1: "s1 = abort_tx t s" using Abort by simp
  have eq: "history s1 = history s" "table s1 = table s" "broker s1 = broker s" "phase s1 = phase s"
      "leader s1 = leader s"
    by (simp_all add: s1 abort_tx_def release_locks_def)
  have "ids_ok s1" using ids_ok_abort [OF relay_invD(1) [OF inv]] by (simp add: s1)
  then show ?thesis
    by (rule inv_txs [OF inv _ eq(4,5)], rule_tac same_view [OF eq(1-3)]) (simp_all add: eq(4))
next
  case (RLock r)
  then show "relay_inv part s \<Longrightarrow> relay_step part batch e s = Some s1 \<Longrightarrow> relay_inv part s1"
    by (simp only: relay_step.simps inv_lock)
next
  case (RSelect r)
  then show "relay_inv part s \<Longrightarrow> relay_step part batch e s = Some s1 \<Longrightarrow> relay_inv part s1"
    by (simp only: relay_step.simps inv_select)
next
  case (RPublish r n)
  then show "relay_inv part s \<Longrightarrow> relay_step part batch e s = Some s1 \<Longrightarrow> relay_inv part s1"
    by (simp only: relay_step.simps inv_publish)
next
  case (RDelete r fate)
  then show "relay_inv part s \<Longrightarrow> relay_step part batch e s = Some s1 \<Longrightarrow> relay_inv part s1"
    by (simp only: relay_step.simps inv_delete)
next
  case (ROrphan r)
  then show "relay_inv part s \<Longrightarrow> relay_step part batch e s = Some s1 \<Longrightarrow> relay_inv part s1"
    by (simp only: relay_step.simps inv_orphan)
next
  case (RFail r)
  then show "relay_inv part s \<Longrightarrow> relay_step part batch e s = Some s1 \<Longrightarrow> relay_inv part s1"
    using inv_end_pass by (auto simp only: relay_step.simps relay_fail_def split: if_splits)
qed

lemma inv_init: "relay_inv part relay_init"
proof (rule relay_invI)
  show "\<exists>d n. stream_view part k relay_init d n" for k
    by (intro exI [of _ 0]) (simp add: stream_view_def relay_init_def waiting_def sent_def order_by_def)
qed (simp_all add: ids_ok_init, simp add: relay_init_def)

lemma runs_inv: "relay_runs part batch es s \<Longrightarrow> relay_inv part s"
  by (induction rule: relay_runs.induct) (auto intro: inv_init inv_step)

section \<open>Readings\<close>

text \<open>
  While no session is lost during a publication, what has reached the broker on a stream is
  an at-least-once reading of what was committed to it: a pass that fails is a session that
  acknowledges nothing, and what a pass has published but not deleted yet is in flight.
\<close>

fun in_flight :: "stream \<Rightarrow> 'p relay_phase \<Rightarrow> 'p out_row list" where
  "in_flight k (Published rows) = of_stream k rows"
| "in_flight k p = []"

definition flying :: "stream \<Rightarrow> 'p relay_sys \<Rightarrow> 'p out_row list" where
  "flying k s = (case leader s of None \<Rightarrow> [] | Some r \<Rightarrow> in_flight k (phase s r))"

definition reading :: "(stream \<Rightarrow> nat) \<Rightarrow> stream \<Rightarrow> 'p relay_sys \<Rightarrow> session list \<Rightarrow> bool" where
  "reading part k s ss \<longleftrightarrow> valid_sessions (of_stream k (history s)) ss \<and>
     waiting k s = drop (acked ss) (of_stream k (history s)) \<and>
     sent part k s = sessions (of_stream k (history s)) ss @ flying k s"

definition settled :: "'p relay_sys \<Rightarrow> bool" where
  "settled s \<longleftrightarrow> (\<forall>r rows. phase s r \<noteq> Orphan rows)"

lemma reading_extend:
  assumes "valid_sessions H ss" "T = drop (acked ss) H" "prefix Q T" "d = 0 \<or> d = length Q"
  shows "valid_sessions H (ss @ [(length Q, d)])"
    and "sessions H (ss @ [(length Q, d)]) = sessions H ss @ Q"
    and "drop (acked (ss @ [(length Q, d)])) H = drop d T"
proof -
  have "take (length Q) T = Q" using assms(3) by (auto simp: prefix_def)
  then show "sessions H (ss @ [(length Q, d)]) = sessions H ss @ Q"
    by (simp add: sessions_snoc assms(2))
  show "drop (acked (ss @ [(length Q, d)])) H = drop d T" by (simp add: assms(2) add.commute)
  show "valid_sessions H (ss @ [(length Q, d)])"
    using assms prefix_length_le [OF assms(3)] by (auto simp: valid_sessions_snoc)
qed

lemma reading_commit:
  assumes ok: "ids_ok s" and rd: "reading part k s ss"
  shows "reading part k (commit_tx t s) ss"
proof -
  let ?H = "of_stream k (history s)" and ?U = "of_stream k (uncommitted s t)"
  have v: "valid_sessions ?H ss" using rd by (simp add: reading_def)
  note d = valid_sessions_acked [OF v]
  have "waiting k (commit_tx t s) = waiting k s @ ?U"
    using rd d commit_waiting [OF ok, of k "acked ss" t] by (simp add: reading_def)
  moreover have "of_stream k (history (commit_tx t s)) = ?H @ ?U"
    by (simp add: commit_tx_def release_locks_def)
  moreover have "sent part k (commit_tx t s) = sent part k s" "flying k (commit_tx t s) = flying k s"
    by (simp_all add: sent_def flying_def commit_tx_def release_locks_def split: option.splits)
  ultimately show ?thesis
    using rd d unfolding reading_def
    by (simp add: valid_sessions_grow [OF v] sessions_grow [OF v])
qed

lemma reading_cong:
  assumes "reading part k s ss" "history s1 = history s" "table s1 = table s" "broker s1 = broker s"
    "flying k s1 = flying k s"
  shows "reading part k s1 ss"
  using assms(1) by (simp add: reading_def waiting_def sent_def assms(2-5))

text \<open>The end of a pass: what was in flight becomes a session of its own.\<close>

lemma reading_end_pass:
  assumes inv: "relay_inv part s" and rd: "reading part k s ss"
    and ph: "phase s r = p" and in_tx: "in_tx_phase p"
  shows "\<exists>ts. reading part k (end_pass r s) ts"
proof -
  have lead: "leader s = Some r" using relay_invD(2) [OF inv, of r] ph in_tx by simp
  have fly: "flying k s = in_flight k p" using lead ph by (simp add: flying_def)
  have "prefix (in_flight k p) (waiting k s)"
    using published_rows(1) [OF inv, of r] ph by (cases p) simp_all
  then have "reading part k (end_pass r s) (ss @ [(length (in_flight k p), 0)])"
    using rd fly reading_extend [of "of_stream k (history s)" ss "waiting k s" "in_flight k p" 0] lead
    by (simp add: reading_def waiting_def sent_def flying_def)
  then show ?thesis by blast
qed

lemma reading_delete:
  assumes inv: "relay_inv part s" and rd: "reading part k s ss" and ph: "phase s r = Published rows"
  shows "\<exists>ts. reading part k (end_pass r (s\<lparr>table := delete_rows (\<lambda>w. row_id w \<in> set (map row_id rows)) (table s)\<rparr>)) ts"
proof -
  have lead: "leader s = Some r" using relay_invD(2) [OF inv, of r] ph by simp
  have fly: "flying k s = of_stream k rows" using lead ph by (simp add: flying_def)
  let ?s = "end_pass r (s\<lparr>table := delete_rows (\<lambda>w. row_id w \<in> set (map row_id rows)) (table s)\<rparr>)"
  have "waiting k ?s = drop (length (of_stream k rows)) (waiting k s)"
    using published_rows(2) [OF inv ph, of k] by (simp add: waiting_def)
  moreover have "flying k ?s = []" using lead by (simp add: flying_def)
  moreover have "sent part k ?s = sent part k s" by (simp add: sent_def)
  ultimately have "reading part k ?s (ss @ [(length (of_stream k rows), length (of_stream k rows))])"
    using rd fly published_rows(1) [OF inv ph, of k]
      reading_extend [of "of_stream k (history s)" ss "waiting k s" "of_stream k rows" "length (of_stream k rows)"]
    by (simp add: reading_def)
  then show ?thesis by blast
qed

lemma selected_prefix:
  "relay_inv part s \<Longrightarrow> phase s r = Selected rows \<Longrightarrow> prefix (of_stream k rows) (waiting k s)"
  using relay_invD(3) [of part s k] unfolding stream_view_def by (metis phase_ok.simps(1))

lemma reading_publish:
  assumes inv: "relay_inv part s" and rd: "reading part k s ss" and ph: "phase s r = Selected rows"
    and s1: "relay_publish part m r s = Some s1"
  shows "\<exists>ts. reading part k s1 ts"
proof -
  have lead: "leader s = Some r" using relay_invD(2) [OF inv, of r] ph by simp
  have fly: "flying k s = []" using lead ph by (simp add: flying_def)
  obtain j where j: "sent part k (produce part m rows s) = sent part k s @ take j (of_stream k rows)"
      "all_written part m rows \<longrightarrow> length (of_stream k rows) \<le> j"
    using sent_produce by blast
  show ?thesis
  proof (cases "all_written part m rows")
    case True
    then have "reading part k s1 ss"
      using s1 ph rd j fly lead
      by (auto simp: relay_publish_def reading_def waiting_def sent_def flying_def)
    then show ?thesis by blast
  next
    case False
    let ?Q = "take j (of_stream k rows)"
    have "prefix ?Q (waiting k s)"
      using selected_prefix [OF inv ph] take_is_prefix prefix_order.trans by blast
    then have "reading part k s1 (ss @ [(length ?Q, 0)])"
      using s1 ph False rd j fly lead
        reading_extend [of "of_stream k (history s)" ss "waiting k s" ?Q 0]
      by (auto simp: relay_publish_def reading_def waiting_def sent_def flying_def)
    then show ?thesis by blast
  qed
qed

lemma flying_cong: "leader s1 = leader s \<Longrightarrow> phase s1 = phase s \<Longrightarrow> flying k s1 = flying k s"
  unfolding flying_def by (simp only:)

lemma reading_lock:
  assumes rd: "reading part k s ss" and s1: "relay_lock r s = Some s1"
  shows "reading part k s1 ss"
proof (cases "leader s")
  case None
  with s1 have "s1 = set_phase r Leader (s\<lparr>leader := Some r\<rparr>)"
    by (auto simp: relay_lock_def split: if_splits)
  with None show ?thesis by (intro reading_cong [OF rd]) (simp_all add: flying_def)
next
  case (Some q)
  with s1 rd show ?thesis by (auto simp: relay_lock_def split: if_splits)
qed

lemma reading_select:
  assumes inv: "relay_inv part s" and "reading part k s ss" "relay_select b r s = Some s1"
  shows "\<exists>ts. reading part k s1 ts"
proof -
  have ph: "phase s r = Leader" using assms(3) by (auto simp: relay_select_def split: relay_phase.splits)
  then have lead: "leader s = Some r" using relay_invD(2) [OF inv, of r] by simp
  show ?thesis
  proof (cases "pending b s = []")
    case True
    with ph assms reading_end_pass [OF inv assms(2) ph] show ?thesis by (simp add: relay_select_def)
  next
    case False
    with ph assms(3) have s1: "s1 = set_phase r (Selected (pending b s)) s" by (simp add: relay_select_def)
    have "reading part k s1 ss"
      unfolding s1 by (rule reading_cong [OF assms(2)]) (simp_all add: flying_def lead ph)
    then show ?thesis by blast
  qed
qed

lemma settled_step:
  assumes "settled s" "relay_step part batch e s = Some s1" "\<forall>r. e \<noteq> ROrphan r"
  shows "settled s1"
  using assms
  by (cases e)
    (auto simp: settled_def take_lock_def insert_row_def Let_def commit_tx_def abort_tx_def
      release_locks_def relay_lock_def relay_select_def relay_publish_def relay_delete_def relay_fail_def
      split: if_splits relay_phase.splits)

lemma reading_step:
  assumes inv: "relay_inv part s" and rd: "reading part k s ss" and settled: "settled s"
    and step: "relay_step part batch e s = Some s1" and ev: "\<forall>r. e \<noteq> ROrphan r"
  shows "\<exists>ts. reading part k s1 ts"
proof (cases e)
  case (TakeLock t k')
  with step have eq: "history s1 = history s" "table s1 = table s" "broker s1 = broker s" "phase s1 = phase s"
      "leader s1 = leader s"
    by (auto simp: take_lock_def split: if_splits)
  then have "reading part k s1 ss" by (intro reading_cong [OF rd] flying_cong)
  then show ?thesis by blast
next
  case (InsertRow t m)
  with step have eq: "history s1 = history s" "table s1 = table s" "broker s1 = broker s" "phase s1 = phase s"
      "leader s1 = leader s"
    by (auto simp: insert_row_def Let_def split: if_splits)
  then have "reading part k s1 ss" by (intro reading_cong [OF rd] flying_cong)
  then show ?thesis by blast
next
  case (Commit t)
  with step reading_commit [OF relay_invD(1) [OF inv] rd, of t] show ?thesis by auto
next
  case (Abort t)
  with step have eq: "history s1 = history s" "table s1 = table s" "broker s1 = broker s" "phase s1 = phase s"
      "leader s1 = leader s"
    by (auto simp: abort_tx_def release_locks_def)
  then have "reading part k s1 ss" by (intro reading_cong [OF rd] flying_cong)
  then show ?thesis by blast
next
  case (RLock r)
  with step reading_lock [OF rd, of r s1] show ?thesis by auto
next
  case (RSelect r)
  with step reading_select [OF inv rd, of batch r s1] show ?thesis by simp
next
  case (RPublish r m)
  then have pub: "relay_publish part m r s = Some s1" using step by simp
  then obtain rows where "phase s r = Selected rows"
    using settled by (auto simp: relay_publish_def settled_def split: relay_phase.splits)
  from reading_publish [OF inv rd this pub] show ?thesis .
next
  case (RDelete r fate)
  then obtain rows where rows: "phase s r = Published rows"
    using step by (auto simp: relay_delete_def split: relay_phase.splits)
  with RDelete step reading_delete [OF inv rd rows] reading_end_pass [OF inv rd rows] show ?thesis
    by (auto simp: relay_delete_def split: if_splits)
next
  case (RFail r)
  then have s1: "s1 = end_pass r s" and "phase s r \<noteq> Idle"
    using step by (auto simp: relay_fail_def split: if_splits)
  then have "in_tx_phase (phase s r)" using settled by (cases "phase s r") (auto simp: settled_def)
  from reading_end_pass [OF inv rd refl this] s1 show ?thesis by simp
qed (use ev in simp)

lemma runs_reading:
  "relay_runs part batch es s \<Longrightarrow> \<forall>r. ROrphan r \<notin> set es \<Longrightarrow> settled s \<and> (\<exists>ss. reading part k s ss)"
proof (induction rule: relay_runs.induct)
  case start
  have "reading part k relay_init []"
    by (simp add: reading_def relay_init_def waiting_def sent_def flying_def order_by_def)
  then show ?case by (auto simp: settled_def relay_init_def)
next
  case (step es s e s1)
  then obtain ss where rd: "reading part k s ss" and settled: "settled s" by auto
  have ev: "\<forall>r. e \<noteq> ROrphan r" using step.prems by auto
  show ?case
    using settled_step [OF settled step.hyps(2) ev]
      reading_step [OF runs_inv [OF step.hyps(1)] rd settled step.hyps(2) ev] by blast
qed

section \<open>Properties\<close>

lemma broker_parts:
  "relay_runs part batch es s \<Longrightarrow> w \<in> set (broker s q) \<Longrightarrow> part (row_stream w) = q"
proof (induction rule: relay_runs.induct)
  case (step es s e s1)
  have "w \<in> set (broker s q) \<or> part (row_stream w) = q"
    using step.hyps(2) step.prems
    by (cases e)
      (auto simp: take_lock_def insert_row_def Let_def commit_tx_def abort_tx_def release_locks_def
        relay_lock_def relay_select_def relay_publish_def relay_delete_def relay_fail_def relay_orphan_def
        produce_def part_rows_def split: if_splits relay_phase.splits dest!: in_set_takeD)
  with step show ?case by blast
qed (simp add: relay_init_def)

lemma committed_or_sent:
  assumes "relay_runs part batch es s"
  shows "(\<forall>w \<in> set (history s). w \<in> set (table s) \<or> w \<in> set (broker s (part (row_stream w)))) \<and>
     (\<forall>q. set (broker s q) \<subseteq> set (history s))"
proof -
  note inv = runs_inv [OF assms]
  have stream: "set (sent part k s) \<subseteq> set (history s) \<and>
      (\<forall>w \<in> set (history s). row_stream w = k \<longrightarrow> w \<in> set (table s) \<or> w \<in> set (sent part k s))" for k
  proof -
    let ?H = "of_stream k (history s)"
    obtain d n where v: "d \<le> n" "waiting k s = drop d ?H" "dedupe_from [] (sent part k s) = take n ?H"
      using relay_invD(3) [OF inv, of k] by (auto simp: stream_view_def)
    have set_sent: "set (sent part k s) = set (take n ?H)"
      using set_dedupe_from [of "[]" "sent part k s"] v(3) by simp
    have "w \<in> set (table s) \<or> w \<in> set (sent part k s)" if "w \<in> set ?H" for w
    proof -
      have "w \<in> set (take n ?H) \<or> w \<in> set (drop n ?H)"
        using that by (metis append_take_drop_id set_append UnE)
      moreover have "set (drop n ?H) \<subseteq> set (waiting k s)"
        using v(1,2) set_drop_subset_set_drop by metis
      ultimately show ?thesis using set_sent by (auto simp: waiting_def)
    qed
    then show ?thesis using set_sent set_take_subset [of n ?H] by auto
  qed
  have "set (broker s q) \<subseteq> set (history s)" for q
  proof
    fix w assume w: "w \<in> set (broker s q)"
    then have "w \<in> set (sent part (row_stream w) s)"
      using broker_parts [OF assms w] by (simp add: sent_def)
    then show "w \<in> set (history s)" using stream by blast
  qed
  moreover have "w \<in> set (table s) \<or> w \<in> set (broker s (part (row_stream w)))" if "w \<in> set (history s)" for w
    using stream [of "row_stream w"] that by (auto simp: sent_def)
  ultimately show ?thesis by blast
qed


text \<open>The messages of one key reach their partition in the order in which their transactions
  committed, repetitions aside; this survives failed passes, several replicas and a publication
  that goes on after its replica lost the lock.\<close>

theorem relay_keeps_key_order:
  assumes "relay_runs part batch es s"
  shows "prefix (dedupe_from [] (of_stream k (broker s (part k)))) (of_stream k (history s))"
  using relay_invD(3) [OF runs_inv [OF assms], of k]
  by (auto simp: stream_view_def sent_def take_is_prefix)


subsection \<open>Progress\<close>

lemma distinct_streams: "(\<And>k. distinct (filter (\<lambda>x. f x = k) xs)) \<Longrightarrow> distinct xs"
proof (induction xs)
  case (Cons x xs)
  have "distinct (filter (\<lambda>y. f y = k) xs)" for k using Cons.prems [of k] by (auto split: if_splits)
  moreover have "x \<notin> set xs" using Cons.prems [of "f x"] by auto
  ultimately show ?case using Cons.IH by simp
qed simp

lemma table_ids:
  assumes inv: "relay_inv part s"
  shows "distinct (map row_id (table s))"
proof -
  have W: "distinct (waiting k s) \<and> set (waiting k s) \<subseteq> set (history s)" for k
  proof -
    let ?H = "of_stream k (history s)"
    obtain d where T: "waiting k s = drop d ?H"
      using relay_invD(3) [OF inv, of k] unfolding stream_view_def by blast
    have "distinct ?H" by (rule history_sorted(2) [OF relay_invD(1) [OF inv]])
    moreover have "set (drop d ?H) \<subseteq> set ?H" by (rule set_drop_subset)
    ultimately show ?thesis unfolding T by auto
  qed
  have "distinct (of_stream k (table s))" for k using W [of k] by (simp add: waiting_sort)
  then have "distinct (table s)"
    unfolding of_stream_def by (rule distinct_streams [of row_stream])
  moreover have "set (table s) \<subseteq> set (history s)"
  proof
    fix w assume "w \<in> set (table s)"
    then have "w \<in> set (waiting (row_stream w) s)" by (simp add: waiting_def)
    with W [of "row_stream w"] show "w \<in> set (history s)" by blast
  qed
  moreover have "inj_on row_id (set (history s))"
    using ids_okD(5) [OF relay_invD(1) [OF inv], of 0] by (simp add: distinct_map)
  ultimately show ?thesis by (simp add: distinct_map inj_on_subset)
qed

lemma length_delete_prefix:
  assumes "distinct (map row_id rows)"
  shows "length (delete_rows (\<lambda>w. row_id w \<in> set (map row_id (take b (order_by row_id rows)))) rows) =
    length rows - b"
proof -
  let ?S = "order_by row_id rows"
  let ?P = "\<lambda>w. row_id w \<notin> set (map row_id (take b ?S))"
  have m: "mset ?S = mset rows" by (simp add: order_by_def)
  have dist: "distinct (map row_id ?S)"
    using assms m by (metis mset_eq_imp_distinct_iff mset_map)
  have "length (filter ?P rows) = length (filter ?P ?S)"
    using m by (metis mset_filter size_mset)
  also have "filter ?P ?S = drop b ?S"
  proof -
    have "row_id ` set (take b ?S) \<inter> row_id ` set (drop b ?S) = {}"
      using dist by (metis append_take_drop_id distinct_append map_append set_map)
    then have "filter ?P (drop b ?S) = drop b ?S" by (auto simp: filter_id_conv)
    moreover have "filter ?P (take b ?S) = []" by (simp add: filter_empty_conv)
    ultimately show ?thesis by (metis append_take_drop_id append_Nil filter_append)
  qed
  finally show ?thesis by (simp add: delete_rows_def)
qed

lemma part_rows_all: "length rows \<le> b \<Longrightarrow> all_written part (\<lambda>_. b) rows"
  unfolding all_written_def part_rows_def list_all_iff
  by (meson ballI length_filter_le order_trans)

lemma relay_once_runs:
  assumes run: "relay_runs part batch es s" and free: "leader s = None" "phase s r = Idle"
  defines "s1 \<equiv> snd (relay_once part batch r s)"
  shows "(\<exists>es1. relay_runs part batch (es @ es1) s1) \<and> leader s1 = None \<and> phase s1 r = Idle \<and>
    table s1 = delete_rows (\<lambda>w. row_id w \<in> set (map row_id (pending batch s))) (table s) \<and>
    fst (relay_once part batch r s) = length (pending batch s) \<and> history s1 = history s"
proof -
  let ?a = "set_phase r Leader (s\<lparr>leader := Some r\<rparr>)" and ?rows = "pending batch s"
  have a: "relay_lock r s = Some ?a" using free by (simp add: relay_lock_def)
  have pend: "pending batch ?a = ?rows" by (simp add: pending_def)
  have run1: "relay_runs part batch (es @ [RLock r]) ?a"
    by (rule relay_runs.step [OF run]) (simp add: a)
  show ?thesis
  proof (cases "?rows = []")
    case True
    let ?b = "end_pass r ?a"
    have b: "relay_select batch r ?a = Some ?b" using True pend by (simp add: relay_select_def)
    have once: "relay_once part batch r s = (0, ?b)"
      by (simp add: relay_once_def a b relay_publish_def)
    have "relay_runs part batch ((es @ [RLock r]) @ [RSelect r]) ?b"
      by (rule relay_runs.step [OF run1]) (simp add: b)
    then show ?thesis
      using True by (auto simp: s1_def once delete_rows_def)
  next
    case False
    let ?b = "set_phase r (Selected ?rows) ?a"
    let ?c = "set_phase r (Published ?rows) (produce part (\<lambda>_. batch) ?rows ?b)"
    let ?d = "end_pass r (?c\<lparr>table := delete_rows (\<lambda>w. row_id w \<in> set (map row_id ?rows)) (table ?c)\<rparr>)"
    have b: "relay_select batch r ?a = Some ?b" using False pend by (simp add: relay_select_def)
    have "length ?rows \<le> batch" by (simp add: pending_def)
    then have c: "relay_publish part (\<lambda>_. batch) r ?b = Some ?c"
      by (simp add: relay_publish_def part_rows_all)
    have d: "relay_delete Fine r ?c = Some ?d" by (simp add: relay_delete_def)
    have once: "relay_once part batch r s = (length ?rows, ?d)"
      by (simp only: relay_once_def a b c d option.case pend)
    have "relay_runs part batch ((es @ [RLock r]) @ [RSelect r]) ?b"
      by (rule relay_runs.step [OF run1]) (simp add: b)
    then have "relay_runs part batch (((es @ [RLock r]) @ [RSelect r]) @ [RPublish r (\<lambda>_. batch)]) ?c"
      by (rule relay_runs.step) (simp add: c)
    then have "relay_runs part batch ((((es @ [RLock r]) @ [RSelect r]) @ [RPublish r (\<lambda>_. batch)]) @ [RDelete r Fine]) ?d"
      by (rule relay_runs.step) (simp add: d)
    then have "\<exists>es1. relay_runs part batch (es @ es1) ?d" by (metis append_assoc)
    then show ?thesis by (simp add: s1_def once)
  qed
qed

lemma pending_table_length:
  "relay_runs part batch es s \<Longrightarrow>
     length (delete_rows (\<lambda>w. row_id w \<in> set (map row_id (pending batch s))) (table s)) = length (table s) - batch"
  unfolding pending_def by (rule length_delete_prefix) (rule table_ids [OF runs_inv])

text \<open>C11: Passes that nothing disturbs empty the outbox: each sends the oldest rows, as many as a
  batch holds, and as many passes as there are rows leave none, with every committed message in
  its partition.\<close>

theorem relay_drains:
  assumes "relay_runs part batch es s" "leader s = None" "phase s r = Idle" "0 < batch"
  defines "s1 \<equiv> ((\<lambda>s. snd (relay_once part batch r s)) ^^ length (table s)) s"
  shows "table s1 = [] \<and> (\<forall>w \<in> set (history s). w \<in> set (broker s1 (part (row_stream w))))"
proof -
  have "\<exists>es1. relay_runs part batch es1 (((\<lambda>s. snd (relay_once part batch r s)) ^^ n) s) \<and>
      leader (((\<lambda>s. snd (relay_once part batch r s)) ^^ n) s) = None \<and>
      phase (((\<lambda>s. snd (relay_once part batch r s)) ^^ n) s) r = Idle \<and>
      length (table (((\<lambda>s. snd (relay_once part batch r s)) ^^ n) s)) \<le> length (table s) - n \<and>
      history (((\<lambda>s. snd (relay_once part batch r s)) ^^ n) s) = history s" for n
  proof (induction n)
    case (Suc n)
    let ?t = "((\<lambda>s. snd (relay_once part batch r s)) ^^ n) s"
    obtain es1 where IH: "relay_runs part batch es1 ?t" "leader ?t = None" "phase ?t r = Idle"
        "length (table ?t) \<le> length (table s) - n" "history ?t = history s"
      using Suc by blast
    note once = relay_once_runs [OF IH(1-3)]
    have "length (table (snd (relay_once part batch r ?t))) \<le> length (table s) - Suc n"
      using once pending_table_length [OF IH(1)] IH(4) \<open>0 < batch\<close> by simp
    with once IH(5) show ?case by auto
  qed (use assms(1-3) in auto)
  from this [of "length (table s)"] obtain es1 where end_run: "relay_runs part batch es1 s1"
      "table s1 = []" "history s1 = history s"
    unfolding s1_def by auto
  with committed_or_sent [OF end_run(1)] show ?thesis by simp
qed

section \<open>A concrete run\<close>

fun relay_exec :: "(stream \<Rightarrow> nat) \<Rightarrow> nat \<Rightarrow> 'p relay_event list \<Rightarrow> 'p relay_sys \<Rightarrow> 'p relay_sys option" where
  "relay_exec part batch [] s = Some s"
| "relay_exec part batch (e # es) s =
     (case relay_step part batch e s of None \<Rightarrow> None | Some s1 \<Rightarrow> relay_exec part batch es s1)"

lemma exec_runs_from:
  "relay_exec part batch es s = Some s1 \<Longrightarrow> relay_runs part batch fs s \<Longrightarrow> relay_runs part batch (fs @ es) s1"
proof (induction es arbitrary: fs s)
  case (Cons e es)
  then obtain s2 where s2: "relay_step part batch e s = Some s2" "relay_exec part batch es s2 = Some s1"
    by (auto split: option.splits)
  from Cons.IH [OF s2(2) relay_runs.step [OF Cons.prems(2) s2(1)]] show ?case by simp
qed simp

lemma exec_runs: "relay_exec part batch es relay_init = Some s \<Longrightarrow> relay_runs part batch es s"
  using exec_runs_from [OF _ relay_runs.start] by fastforce

text \<open>Two messages of one stream; a first pass gets only one of them to the broker and fails.\<close>

definition sample_msg :: "nat \<Rightarrow> nat message" where
  "sample_msg n = \<lparr>msg_topic = ''t'', msg_key = 7, msg_value = \<lparr>env_id = of_nat n, env_type = ''e'',
     env_version = 1, env_at = 0, env_producer = ''p'', env_payload = n\<rparr>, msg_headers = []\<rparr>"

definition sample_relay_events :: "nat relay_event list" where
  "sample_relay_events = [TakeLock 0 (''t'', 7), InsertRow 0 (sample_msg 1), InsertRow 0 (sample_msg 2), Commit 0,
     RLock 1, RSelect 1, RPublish 1 (\<lambda>_. 1)]"

definition sample_relay :: "nat relay_sys" where
  "sample_relay = the (relay_exec (\<lambda>_. 0) 10 sample_relay_events relay_init)"

lemma sample_relay_runs: "relay_runs (\<lambda>_. 0) 10 sample_relay_events sample_relay"
proof -
  have "\<not> Option.is_none (relay_exec (\<lambda>_. 0) 10 sample_relay_events (relay_init :: nat relay_sys))"
    by code_simp
  then show ?thesis
    unfolding sample_relay_def by (intro exec_runs) (auto simp: Option.is_none_def)
qed

lemma sample_relay_facts:
  "map row_id (history sample_relay) = [1, 2]" "map row_id (broker sample_relay 0) = [1]"
  "leader sample_relay = None" "map row_id (table sample_relay) = [1, 2]"
  by code_simp+

lemma sample_relay_idle: "phase sample_relay 1 = Idle"
  by code_simp


theorem relay_keeps_key_order_witness:
  "prefix (dedupe_from [] (of_stream (''t'', 7) (broker sample_relay 0))) (of_stream (''t'', 7) (history sample_relay))"
  using relay_keeps_key_order [OF sample_relay_runs, of "(''t'', 7)"] by simp


theorem relay_drains_witness:
  "table (((\<lambda>s. snd (relay_once (\<lambda>_. 0) 10 1 s)) ^^ length (table sample_relay)) sample_relay) = []"
  using relay_drains [OF sample_relay_runs sample_relay_facts(3) sample_relay_idle] by simp

end
