(* ===== verification/Consumer.thy ===== *)
theory Consumer
  imports World Delivery
begin

text \<open>
  The Kafka consumers of \<^verbatim>\<open>libs/platform/kafka\<close>: \<open>Consumer\<close> hands record by record to a
  handler, with retries, a dead-letter topic and commits (consumer.go); \<open>BatchConsumer\<close>
  collects, decodes and flushes batches (batch.go). The handler is a function on the state of
  the application, which also carries whatever the outcome of its calls depends on; the
  group's committed offsets and the dead-letter topics are the member's state; the results of
  the polls, of the commits and of dead-lettering are the environment's choice.
\<close>

section \<open>Records\<close>

record 'v krecord =
  rec_topic :: string
  rec_partition :: int
  rec_offset :: int
  rec_key :: uuid
  rec_value :: 'v
  rec_headers :: "(string \<times> string) list"

definition DLQTopic :: "string \<Rightarrow> string" where
  "DLQTopic topic = topic @ ''.dlq''"

text \<open>An error of a handler: is it permanent, and its text.\<close>

record herr =
  permanent :: bool
  herr_text :: string

text \<open>\<open>strconv.Itoa\<close> and \<open>strconv.FormatInt\<close> in base 10.\<close>

fun digits :: "nat \<Rightarrow> string" where
  "digits n = (if n < 10 then [char_of (48 + n)] else digits (n div 10) @ [char_of (48 + n mod 10)])"

declare digits.simps [simp del]

definition itoa :: "int \<Rightarrow> string" where
  "itoa i = (if i < 0 then CHR ''-'' # digits (nat (- i)) else digits (nat i))"

text \<open>A header map: setting a key drops its earlier value.\<close>

definition set_header :: "string \<Rightarrow> string \<Rightarrow> (string \<times> string) list \<Rightarrow> (string \<times> string) list" where
  "set_header k v hs = filter (\<lambda>h. fst h \<noteq> k) hs @ [(k, v)]"

definition dlq_record :: "'v krecord \<Rightarrow> herr \<Rightarrow> 'v krecord" where
  "dlq_record r cause = r\<lparr>rec_topic := DLQTopic (rec_topic r),
     rec_headers := set_header ''dlq.source.offset'' (itoa (rec_offset r))
       (set_header ''dlq.source.partition'' (itoa (rec_partition r))
         (set_header ''dlq.source.topic'' (rec_topic r)
           (set_header ''dlq.error'' (herr_text cause) (rec_headers r))))\<rparr>"

section \<open>The member\<close>

record consumer_config =
  group :: string
  topics :: "string list"
  max_retries :: int
  retry_backoff :: duration
  use_dlq :: bool

text \<open>\<open>NewConsumer\<close>, up to the client it creates.\<close>

definition new_consumer :: "consumer_config \<Rightarrow> consumer_config option" where
  "new_consumer c = (if group c = '''' \<or> topics c = [] then None
     else Some (c\<lparr>max_retries := (if max_retries c < 0 then 0 else max_retries c),
       retry_backoff := (if retry_backoff c \<le> 0 then 500 * millisecond else retry_backoff c)\<rparr>))"

type_synonym topic_partition = "string \<times> int"

abbreviation tp :: "'v krecord \<Rightarrow> topic_partition" where
  "tp r \<equiv> (rec_topic r, rec_partition r)"

text \<open>
  \<open>marks\<close> are the group's committed offsets, \<open>dead\<close> what is in the dead-letter topics; \<open>handled\<close>
  keeps the records the handler accepted.
\<close>

record ('v, 's) member =
  app :: 's
  marks :: "topic_partition \<Rightarrow> int"
  dead :: "'v krecord list"
  handled :: "'v krecord list"

text \<open>
  The environment: the handler; whether the context is cancelled while the member waits
  before a retry; how the produce to the dead-letter topic goes.
\<close>

record ('v, 's) handling =
  handle :: "'v krecord \<Rightarrow> 's \<Rightarrow> herr option \<times> 's"
  cancelled :: "'s \<Rightarrow> bool"
  dlq_fate :: "'s \<Rightarrow> fate"

datatype attempt_result = Accepted | Refused herr | Cancelled

text \<open>The attempts of \<open>process\<close>: \<open>n\<close> are left, the first one does not wait.\<close>

fun attempts :: "('v, 's) handling \<Rightarrow> 'v krecord \<Rightarrow> bool \<Rightarrow> nat \<Rightarrow> herr \<Rightarrow> 's \<Rightarrow> attempt_result \<times> 's" where
  "attempts h r first 0 e s = (Refused e, s)"
| "attempts h r first (Suc n) e s =
     (if \<not> first \<and> cancelled h s then (Cancelled, s)
      else case handle h r s of
        (None, s1) \<Rightarrow> (Accepted, s1)
      | (Some e1, s1) \<Rightarrow> if permanent e1 then (Refused e1, s1) else attempts h r False n e1 s1)"

text \<open>\<open>toDLQ\<close>: the result is whether it returned an error.\<close>

definition to_dlq :: "('v, 's) handling \<Rightarrow> 'v krecord \<Rightarrow> herr \<Rightarrow> ('v, 's) member \<Rightarrow> bool \<times> ('v, 's) member" where
  "to_dlq h r cause m =
     (dlq_fate h (app m) \<noteq> Fine,
      if dlq_fate h (app m) = Dropped then m else m\<lparr>dead := dead m @ [dlq_record r cause]\<rparr>)"

definition process :: "consumer_config \<Rightarrow> ('v, 's) handling \<Rightarrow> 'v krecord \<Rightarrow> ('v, 's) member \<Rightarrow>
    bool \<times> ('v, 's) member" where
  "process c h r m =
     (case attempts h r True (nat (max_retries c + 1)) \<lparr>permanent = False, herr_text = ''''\<rparr> (app m) of
        (Accepted, s) \<Rightarrow> (False, m\<lparr>app := s, handled := handled m @ [r]\<rparr>)
      | (Cancelled, s) \<Rightarrow> (True, m\<lparr>app := s\<rparr>)
      | (Refused e, s) \<Rightarrow> if \<not> use_dlq c then (True, m\<lparr>app := s\<rparr>) else to_dlq h r e (m\<lparr>app := s\<rparr>))"

text \<open>
  The callback of \<open>EachRecord\<close>: after the first failure the other records of the fetch are
  passed over. The records that were processed, and whether one failed.
\<close>

fun each_record :: "consumer_config \<Rightarrow> ('v, 's) handling \<Rightarrow> 'v krecord list \<Rightarrow> ('v, 's) member \<Rightarrow>
    'v krecord list \<times> bool \<times> ('v, 's) member" where
  "each_record c h [] m = ([], False, m)"
| "each_record c h (r # rs) m =
     (case process c h r m of
        (True, m1) \<Rightarrow> ([], True, m1)
      | (False, m1) \<Rightarrow> (case each_record c h rs m1 of (ps, stop, m2) \<Rightarrow> (r # ps, stop, m2)))"

text \<open>\<open>CommitRecords\<close>: per partition the highest offset plus one.\<close>

definition commit_marks :: "'v krecord list \<Rightarrow> (topic_partition \<Rightarrow> int) \<Rightarrow> (topic_partition \<Rightarrow> int)" where
  "commit_marks rs mk = (\<lambda>q. case filter (\<lambda>r. tp r = q) rs of [] \<Rightarrow> mk q
     | xs \<Rightarrow> Max (set (map rec_offset xs)) + 1)"

definition commit_records :: "fate \<Rightarrow> 'v krecord list \<Rightarrow> ('v, 's) member \<Rightarrow> ('v, 's) member" where
  "commit_records fate rs m =
     (if rs = [] \<or> fate = Dropped then m else m\<lparr>marks := commit_marks rs (marks m)\<rparr>)"

text \<open>One round of \<open>Run\<close>: the client is closed or cancelled, or the poll gives records.\<close>

datatype 'v poll = Closed | Fetched "'v krecord list" fate

datatype run_end = Running | Finished | Failed

fun run_consumer :: "consumer_config \<Rightarrow> ('v, 's) handling \<Rightarrow> 'v poll list \<Rightarrow> ('v, 's) member \<Rightarrow>
    run_end \<times> ('v, 's) member" where
  "run_consumer c h [] m = (Running, m)"
| "run_consumer c h (Closed # ps) m = (Finished, m)"
| "run_consumer c h (Fetched rs fate # ps) m =
     (case each_record c h rs m of
        (done, stop, m1) \<Rightarrow>
          let m2 = commit_records fate done m1
          in if stop then (Failed, m2) else run_consumer c h ps m2)"

section \<open>The batch consumer\<close>

record batch_config =
  max_records :: int
  linger :: duration

definition batch_defaults :: "batch_config \<Rightarrow> batch_config" where
  "batch_defaults b = b\<lparr>max_records := (if max_records b \<le> 0 then 1000 else max_records b),
     linger := (if linger b \<le> 0 then second else linger b)\<rparr>"

datatype 'i decoded = Item 'i | Skip | Undecodable herr

text \<open>
  The decoding loop of \<open>handle\<close>: the items, the records they come from, and whether it failed.
\<close>

fun decode_all :: "consumer_config \<Rightarrow> ('v, 's) handling \<Rightarrow> ('v krecord \<Rightarrow> 'i decoded) \<Rightarrow> 'v krecord list \<Rightarrow>
    ('v, 's) member \<Rightarrow> ('i list \<times> 'v krecord list \<times> bool) \<times> ('v, 's) member" where
  "decode_all c h dec [] m = (([], [], False), m)"
| "decode_all c h dec (r # rs) m =
     (case dec r of
        Item i \<Rightarrow> (case decode_all c h dec rs m of
            ((items, flushed, err), m1) \<Rightarrow> ((i # items, r # flushed, err), m1))
      | Skip \<Rightarrow> decode_all c h dec rs m
      | Undecodable e \<Rightarrow>
          if \<not> use_dlq c then (([], [], True), m)
          else (case to_dlq h r e m of
              (True, m1) \<Rightarrow> (([], [], True), m1)
            | (False, m1) \<Rightarrow> decode_all c h dec rs m1))"

text \<open>The attempts to flush: whether one succeeded.\<close>

fun flush_attempts :: "('v, 's) handling \<Rightarrow> ('i list \<Rightarrow> 's \<Rightarrow> bool \<times> 's) \<Rightarrow> 'i list \<Rightarrow> bool \<Rightarrow> nat \<Rightarrow> 's \<Rightarrow> bool \<times> 's" where
  "flush_attempts h flush items first 0 s = (False, s)"
| "flush_attempts h flush items first (Suc n) s =
     (if \<not> first \<and> cancelled h s then (False, s)
      else case flush items s of
        (True, s1) \<Rightarrow> (True, s1)
      | (False, s1) \<Rightarrow> flush_attempts h flush items False n s1)"

definition handle_batch :: "consumer_config \<Rightarrow> ('v, 's) handling \<Rightarrow> ('v krecord \<Rightarrow> 'i decoded) \<Rightarrow>
    ('i list \<Rightarrow> 's \<Rightarrow> bool \<times> 's) \<Rightarrow> 'v krecord list \<Rightarrow> ('v, 's) member \<Rightarrow> bool \<times> ('v, 's) member" where
  "handle_batch c h dec flush rs m =
     (case decode_all c h dec rs m of
        ((items, flushed, err), m1) \<Rightarrow>
          if err then (True, m1)
          else if items = [] then (False, m1)
          else (case flush_attempts h flush items True (nat (max_retries c + 1)) (app m1) of
              (True, s) \<Rightarrow> (False, m1\<lparr>app := s, handled := handled m1 @ flushed\<rparr>)
            | (False, s) \<Rightarrow> (True, m1\<lparr>app := s\<rparr>)))"

text \<open>
  \<open>collect\<close>: polls, each bounded by what the batch still holds, until it is full or the time is
  up; \<open>got\<close> are the results of the polls until then.
\<close>

fun collect :: "nat \<Rightarrow> 'v krecord list list \<Rightarrow> 'v krecord list" where
  "collect room [] = []"
| "collect room (rs # got) =
     (if room = 0 then [] else take room rs @ collect (room - length (take room rs)) got)"

fun run_batches :: "consumer_config \<Rightarrow> ('v, 's) handling \<Rightarrow> ('v krecord \<Rightarrow> 'i decoded) \<Rightarrow>
    ('i list \<Rightarrow> 's \<Rightarrow> bool \<times> 's) \<Rightarrow> 'v poll list \<Rightarrow> ('v, 's) member \<Rightarrow> run_end \<times> ('v, 's) member" where
  "run_batches c h dec flush [] m = (Running, m)"
| "run_batches c h dec flush (Closed # ps) m = (Finished, m)"
| "run_batches c h dec flush (Fetched rs fate # ps) m =
     (if rs = [] then run_batches c h dec flush ps m
      else case handle_batch c h dec flush rs m of
          (True, m1) \<Rightarrow> (Failed, m1)
        | (False, m1) \<Rightarrow> run_batches c h dec flush ps (commit_records fate rs m1))"

section \<open>Committed offsets\<close>

text \<open>A record is done when the handler accepted it or it is in its dead-letter topic.\<close>

definition done_with :: "('v, 's) member \<Rightarrow> 'v krecord \<Rightarrow> bool" where
  "done_with m r \<longleftrightarrow> r \<in> set (handled m) \<or> (\<exists>e. dlq_record r e \<in> set (dead m))"

definition grows :: "('v, 's) member \<Rightarrow> ('v, 's) member \<Rightarrow> bool" where
  "grows m m1 \<longleftrightarrow> set (handled m) \<subseteq> set (handled m1) \<and> set (dead m) \<subseteq> set (dead m1)"

lemma grows_refl [simp]: "grows m m"
  by (simp add: grows_def)

lemma grows_trans: "grows m m1 \<Longrightarrow> grows m1 m2 \<Longrightarrow> grows m m2"
  by (auto simp: grows_def)

lemma done_grows: "done_with m r \<Longrightarrow> grows m m1 \<Longrightarrow> done_with m1 r"
  by (auto simp: done_with_def grows_def)

lemma grows_commit: "grows m (commit_records fate rs m1) = grows m m1"
  by (simp add: grows_def commit_records_def)

lemma to_dlq_facts:
  "to_dlq h r e m = (err, m1) \<Longrightarrow> grows m m1 \<and> marks m1 = marks m \<and> (\<not> err \<longrightarrow> done_with m1 r)"
  by (auto simp: to_dlq_def grows_def done_with_def)

lemma process_facts:
  assumes "process c h r m = (err, m1)"
  shows "grows m m1 \<and> marks m1 = marks m \<and> (\<not> err \<longrightarrow> done_with m1 r)"
proof -
  obtain res s where run: "attempts h r True (nat (max_retries c + 1)) \<lparr>permanent = False, herr_text = ''''\<rparr> (app m) = (res, s)"
    by fastforce
  have "grows m (m\<lparr>app := s\<rparr>) \<and> marks (m\<lparr>app := s\<rparr>) = marks m" by (simp add: grows_def)
  with assms run to_dlq_facts [of h r _ "m\<lparr>app := s\<rparr>" err m1] show ?thesis
    by (auto simp: process_def grows_def done_with_def split: attempt_result.splits if_splits)
qed

lemma each_record_facts:
  "each_record c h rs m = (ps, stop, m1) \<Longrightarrow> grows m m1 \<and> marks m1 = marks m \<and> prefix ps rs \<and>
     (\<not> stop \<longrightarrow> ps = rs) \<and> (\<forall>r \<in> set ps. done_with m1 r)"
proof (induction c h rs m arbitrary: ps stop m1 rule: each_record.induct)
  case (2 c h r rs m)
  obtain err m2 where run: "process c h r m = (err, m2)" by fastforce
  note facts = process_facts [OF run]
  show ?case
  proof (cases err)
    case True
    with 2(2) run facts show ?thesis by auto
  next
    case False
    obtain qs stop1 m3 where rest: "each_record c h rs m2 = (qs, stop1, m3)" by (cases "each_record c h rs m2") auto
    have eq: "ps = r # qs" "stop = stop1" "m1 = m3" using 2(2) run False rest by auto
    have IH: "grows m2 m3 \<and> marks m3 = marks m2 \<and> prefix qs rs \<and> (\<not> stop1 \<longrightarrow> qs = rs) \<and>
        (\<forall>r \<in> set qs. done_with m3 r)"
      using 2(1) [of err m2] run False rest by simp
    have "done_with m3 r" using facts False IH done_grows by blast
    then show ?thesis using facts IH grows_trans unfolding eq by auto
  qed
qed simp

text \<open>Offsets that come after those committed stay above the mark.\<close>

lemma commit_marks_above:
  assumes "mk (tp r) \<le> rec_offset r" "\<And>x. x \<in> set rs \<Longrightarrow> tp x = tp r \<Longrightarrow> rec_offset x < rec_offset r"
  shows "commit_marks rs mk (tp r) \<le> rec_offset r"
proof (cases "filter (\<lambda>x. tp x = tp r) rs")
  case Nil
  with assms(1) show ?thesis by (simp add: commit_marks_def)
next
  case (Cons y ys)
  have "Max (set (map rec_offset (y # ys))) \<in> set (map rec_offset (y # ys))" by (intro Max_in) simp_all
  then obtain x where x: "x \<in> set (y # ys)" "Max (set (map rec_offset (y # ys))) = rec_offset x" by fastforce
  then have "rec_offset x < rec_offset r"
    using assms(2) [of x] by (metis (mono_tags, lifting) Cons filter_eq_ConsD mem_Collect_eq set_filter)
  with Cons x(2) show ?thesis by (simp add: commit_marks_def)
qed

fun polled :: "'v poll list \<Rightarrow> 'v krecord list" where
  "polled (Fetched rs fate # ps) = rs @ polled ps"
| "polled _ = []"

text \<open>What the broker promises of the polls of a member: offsets ascend in every partition,
  from the committed one on.\<close>

definition in_order :: "(topic_partition \<Rightarrow> int) \<Rightarrow> 'v krecord list \<Rightarrow> bool" where
  "in_order mk rs \<longleftrightarrow> (\<forall>q. sorted_wrt (<) (map rec_offset (filter (\<lambda>r. tp r = q) rs))) \<and>
     (\<forall>r \<in> set rs. mk (tp r) \<le> rec_offset r)"

lemma in_order_later:
  assumes "in_order mk (xs @ ys)" "r \<in> set ys" "x \<in> set xs" "tp x = tp r"
  shows "rec_offset x < rec_offset r"
proof -
  have "sorted_wrt (<) (map rec_offset (filter (\<lambda>z. tp z = tp r) xs @ filter (\<lambda>z. tp z = tp r) ys))"
    using assms(1) unfolding in_order_def by (metis filter_append)
  then show ?thesis using assms(2-4) by (auto simp: sorted_wrt_append)
qed

lemma in_order_commit:
  assumes "in_order mk (xs @ ys)"
  shows "in_order (commit_marks xs mk) ys" "in_order mk ys"
proof -
  have sorted: "sorted_wrt (<) (map rec_offset (filter (\<lambda>r. tp r = q) ys))" for q
  proof -
    have "sorted_wrt (<) (map rec_offset (filter (\<lambda>r. tp r = q) (xs @ ys)))"
      using assms unfolding in_order_def by blast
    then show ?thesis by (simp only: filter_append map_append sorted_wrt_append)
  qed
  have above: "r \<in> set ys \<Longrightarrow> mk (tp r) \<le> rec_offset r" for r
    using assms by (simp add: in_order_def)
  have "commit_marks xs mk (tp r) \<le> rec_offset r" if "r \<in> set ys" for r
    using above [OF that] in_order_later [OF assms that] by (intro commit_marks_above) blast+
  with sorted show "in_order (commit_marks xs mk) ys" by (simp add: in_order_def)
  show "in_order mk ys" using sorted above by (simp add: in_order_def)
qed

lemma in_order_commit_records:
  "in_order (marks m) (xs @ ys) \<Longrightarrow> in_order (marks (commit_records fate xs m)) ys"
  using in_order_commit [of "marks m" xs ys] by (simp add: commit_records_def)

lemma commits_done:
  "in_order (marks m) (polled ps) \<Longrightarrow> run_consumer c h ps m = (e, m1) \<Longrightarrow>
     grows m m1 \<and> (\<forall>r \<in> set (polled ps). rec_offset r < marks m1 (tp r) \<longrightarrow> done_with m1 r)"
proof (induction c h ps m arbitrary: e m1 rule: run_consumer.induct)
  case (3 c h rs fate ps m)
  obtain dn stop m2 where run: "each_record c h rs m = (dn, stop, m2)" by (cases "each_record c h rs m") auto
  note facts = each_record_facts [OF run]
  let ?m3 = "commit_records fate dn m2"
  have grow: "grows m ?m3" using facts by (simp add: grows_commit)
  have done_dn: "done_with ?m3 r" if "r \<in> set dn" for r
    using facts that by (auto simp: commit_records_def done_with_def)
  obtain tl where rs: "rs = dn @ tl" using facts by (auto simp: prefix_def)
  show ?case
  proof (cases stop)
    case True
    have order: "in_order (marks m2) (dn @ (tl @ polled ps))" using 3(2) facts rs by simp
    have above: "marks ?m3 (tp r) \<le> rec_offset r" if "r \<in> set (tl @ polled ps)" for r
      using in_order_commit_records [OF order, of fate] that by (simp add: in_order_def)
    have "m1 = ?m3" using 3(3) run True by simp
    then show ?thesis using grow done_dn above rs by (fastforce simp: not_less)
  next
    case False
    then have dn: "dn = rs" using facts by simp
    have rest: "run_consumer c h ps ?m3 = (e, m1)" using 3(3) run False by simp
    have order: "in_order (marks m2) (rs @ polled ps)" using 3(2) facts by simp
    have IH: "grows ?m3 m1 \<and> (\<forall>r \<in> set (polled ps). rec_offset r < marks m1 (tp r) \<longrightarrow> done_with m1 r)"
      using 3(1) [OF run [symmetric] refl refl] False rest
        in_order_commit_records [OF order, of fate] dn by simp
    then have "done_with m1 r" if "r \<in> set rs" for r
      using done_grows done_dn that dn by blast
    with IH grows_trans [OF grow] show ?thesis by auto
  qed
qed simp_all

text \<open>C12: An offset is committed only past records that are done: every record of the partition
  below the committed offset was accepted by the handler or is in the dead-letter topic,
  whichever handler, commit or dead-letter calls fail and wherever the run stops.\<close>

theorem consumer_commits_only_done:
  assumes "in_order (marks m) (polled ps)" "run_consumer c h ps m = (e, m1)"
    "r \<in> set (polled ps)" "rec_offset r < marks m1 (tp r)"
  shows "r \<in> set (handled m1) \<or> (\<exists>cause. dlq_record r cause \<in> set (dead m1))"
  using commits_done [OF assms(1,2)] assms(3,4) by (simp add: done_with_def)

section \<open>Batches\<close>

fun settled_record :: "('v krecord \<Rightarrow> 'i decoded) \<Rightarrow> ('v, 's) member \<Rightarrow> 'v krecord \<Rightarrow> bool" where
  "settled_record dec m r =
     (case dec r of Item i \<Rightarrow> r \<in> set (handled m) | Skip \<Rightarrow> True
      | Undecodable e \<Rightarrow> dlq_record r e \<in> set (dead m))"

lemma settled_grows: "settled_record dec m r \<Longrightarrow> grows m m1 \<Longrightarrow> settled_record dec m1 r"
  by (auto simp: grows_def split: decoded.splits)

lemma to_dlq_dead: "to_dlq h r e m = (False, m1) \<Longrightarrow> dlq_record r e \<in> set (dead m1)"
  by (auto simp: to_dlq_def)

lemma decode_all_cases:
  obtains items flushed err m1 where "decode_all c h dec rs m = ((items, flushed, err), m1)"
proof -
  obtain q m1 where "decode_all c h dec rs m = (q, m1)" by (cases "decode_all c h dec rs m")
  moreover obtain items flushed err where "q = (items, flushed, err)" by (cases q)
  ultimately show ?thesis using that by simp
qed

lemma decode_all_facts:
  "decode_all c h dec rs m = ((items, flushed, err), m1) \<Longrightarrow> grows m m1 \<and> marks m1 = marks m \<and>
     (\<not> err \<longrightarrow> (\<forall>r \<in> set rs. (\<exists>i. dec r = Item i) \<and> r \<in> set flushed \<or> dec r = Skip \<or> (\<exists>e. dec r = Undecodable e \<and> dlq_record r e \<in> set (dead m1))) \<and>
        (items = [] \<longrightarrow> flushed = []))"
proof (induction rs arbitrary: m items flushed err m1)
  case (Cons r rs)
  show ?case
  proof (cases "dec r")
    case (Item i)
    obtain its fs e m2 where rest: "decode_all c h dec rs m = ((its, fs, e), m2)"
      by (rule decode_all_cases)
    with Cons.prems Item have eq: "items = i # its" "flushed = r # fs" "err = e" "m1 = m2" by simp_all
    show ?thesis using Cons.IH [OF rest] Item unfolding eq by auto
  next
    case Skip
    with Cons.prems have "decode_all c h dec rs m = ((items, flushed, err), m1)" by simp
    from Cons.IH [OF this] Skip show ?thesis by auto
  next
    case (Undecodable e)
    show ?thesis
    proof (cases "use_dlq c")
      case False
      with Cons.prems Undecodable show ?thesis by auto
    next
      case True
      obtain er m2 where dl: "to_dlq h r e m = (er, m2)" by fastforce
      note facts = to_dlq_facts [OF dl]
      show ?thesis
      proof (cases er)
        case True
        with Cons.prems Undecodable \<open>use_dlq c\<close> dl facts show ?thesis by auto
      next
        case False
        with Cons.prems Undecodable True dl
        have rest: "decode_all c h dec rs m2 = ((items, flushed, err), m1)" by simp
        note IH = Cons.IH [OF rest]
        have "dlq_record r e \<in> set (dead m2)" using dl False to_dlq_dead [of h r e m m2] by simp
        then have "dlq_record r e \<in> set (dead m1)" using IH by (auto simp: grows_def)
        with IH facts grows_trans Undecodable show ?thesis by auto
      qed
    qed
  qed
qed simp

lemma handle_batch_facts:
  assumes "handle_batch c h dec flush rs m = (err, m1)"
  shows "grows m m1 \<and> marks m1 = marks m \<and> (\<not> err \<longrightarrow> (\<forall>r \<in> set rs. settled_record dec m1 r))"
proof -
  obtain items flushed e m2 where dec: "decode_all c h dec rs m = ((items, flushed, e), m2)"
    by (rule decode_all_cases)
  note facts = decode_all_facts [OF dec]
  show ?thesis
  proof (cases "e \<or> items = []")
    case True
    with assms dec have eq: "m1 = m2" "err = e" by (cases e; simp add: handle_batch_def)+
    have "settled_record dec m2 r" if "\<not> e" "r \<in> set rs" for r
    proof -
      have "flushed = []" using facts True that(1) by blast
      then have "dec r = Skip \<or> (\<exists>e. dec r = Undecodable e \<and> dlq_record r e \<in> set (dead m2))"
        using facts that by auto
      then show ?thesis by auto
    qed
    with facts eq show ?thesis by blast
  next
    case False
    obtain ok s where fl: "flush_attempts h flush items True (nat (max_retries c + 1)) (app m2) = (ok, s)"
      by fastforce
    show ?thesis
    proof (cases ok)
      case True
      then have eq: "m1 = m2\<lparr>app := s, handled := handled m2 @ flushed\<rparr>" "\<not> err"
        using assms dec False fl by (auto simp: handle_batch_def)
      have "settled_record dec m1 r" if mem: "r \<in> set rs" for r
      proof -
        have "(\<exists>i. dec r = Item i) \<and> r \<in> set flushed \<or> dec r = Skip \<or> (\<exists>e. dec r = Undecodable e \<and> dlq_record r e \<in> set (dead m2))"
          using facts False mem by blast
        then show ?thesis by (auto simp: eq split: decoded.split)
      qed
      with facts show ?thesis by (auto simp: eq grows_def)
    next
      case False
      with assms dec \<open>\<not> (e \<or> items = [])\<close> fl have "m1 = m2\<lparr>app := s\<rparr>" "err"
        by (auto simp: handle_batch_def)
      with facts show ?thesis by (auto simp: grows_def)
    qed
  qed
qed

lemma batches_settled:
  "in_order (marks m) (polled ps) \<Longrightarrow> run_batches c h dec flush ps m = (e, m1) \<Longrightarrow>
     grows m m1 \<and> (\<forall>r \<in> set (polled ps). rec_offset r < marks m1 (tp r) \<longrightarrow> settled_record dec m1 r)"
proof (induction c h dec flush ps m arbitrary: e m1 rule: run_batches.induct)
  case (3 c h dec flush rs fate ps m)
  show ?case
  proof (cases "rs = []")
    case True
    with 3(1) [OF True] 3(3,4) show ?thesis by simp
  next
    case False
    obtain err m2 where run: "handle_batch c h dec flush rs m = (err, m2)" by fastforce
    note facts = handle_batch_facts [OF run]
    show ?thesis
    proof (cases err)
      case True
      then have eq: "m1 = m2" using 3(4) False run by simp
      have "\<not> rec_offset r < marks m1 (tp r)" if "r \<in> set (polled (Fetched rs fate # ps))" for r
        using 3(3) that facts by (auto simp: eq in_order_def not_less)
      with facts eq show ?thesis by blast
    next
      case err: False
      let ?m3 = "commit_records fate rs m2"
      have rest: "run_batches c h dec flush ps ?m3 = (e, m1)" using 3(4) False run err by simp
      have order: "in_order (marks m2) (rs @ polled ps)" using 3(3) facts by simp
      have IH: "grows ?m3 m1 \<and>
          (\<forall>r \<in> set (polled ps). rec_offset r < marks m1 (tp r) \<longrightarrow> settled_record dec m1 r)"
        using 3(2) [OF False run [symmetric]] err rest in_order_commit_records [OF order, of fate] by simp
      have grow: "grows m2 ?m3" by (simp add: grows_commit)
      have "settled_record dec m1 r" if "r \<in> set rs" for r
        using facts err that settled_grows [OF _ grows_trans [OF grow]] IH by blast
      moreover have "grows m m1" using facts IH grows_trans grow by blast
      ultimately show ?thesis using IH by auto
    qed
  qed
qed simp_all

text \<open>The batch consumer commits an offset only past records that are settled: each record
  below the committed offset was flushed, or its decoder skipped it, or it is in the
  dead-letter topic.\<close>

theorem batch_commits_only_settled:
  assumes "in_order (marks m) (polled ps)" "run_batches c h dec flush ps m = (e, m1)"
    "r \<in> set (polled ps)" "rec_offset r < marks m1 (tp r)"
  shows "case dec r of Item i \<Rightarrow> r \<in> set (handled m1) | Skip \<Rightarrow> True
    | Undecodable cause \<Rightarrow> dlq_record r cause \<in> set (dead m1)"
  using batches_settled [OF assms(1,2)] assms(3,4) by simp

section \<open>Handlers that may be replayed\<close>

text \<open>
  The lg of one partition, its records at consecutive offsets, and the polls a member makes
  of it: every poll goes on where the last one ended, a new member starts at the mark.
\<close>

definition partition_log :: "topic_partition \<Rightarrow> 'v krecord list \<Rightarrow> bool" where
  "partition_log q lg \<longleftrightarrow> (\<forall>i < length lg. tp (lg ! i) = q \<and> rec_offset (lg ! i) = int i)"

fun polls_at :: "'v krecord list \<Rightarrow> nat \<Rightarrow> (nat \<times> fate) list \<Rightarrow> 'v poll list" where
  "polls_at lg p [] = []"
| "polls_at lg p ((n, fate) # ns) =
     Fetched (take n (drop p lg)) fate # polls_at lg (min (p + n) (length lg)) ns"

fun lives :: "consumer_config \<Rightarrow> ('v, 's) handling \<Rightarrow> topic_partition \<Rightarrow> 'v krecord list \<Rightarrow>
    (nat \<times> fate) list list \<Rightarrow> ('v, 's) member \<Rightarrow> ('v, 's) member" where
  "lives c h q lg [] m = m"
| "lives c h q lg (ns # nss) m =
     lives c h q lg nss (snd (run_consumer c h (polls_at lg (nat (marks m q)) ns) m))"

text \<open>
  A handler that is a transaction on what a reader can see of the application (\<open>view\<close>): done,
  or failed with everything or nothing done; \<open>ok\<close> is what the application keeps true.
\<close>

definition transactional :: "('s \<Rightarrow> bool) \<Rightarrow> ('s \<Rightarrow> 't) \<Rightarrow> ('v \<Rightarrow> 't \<Rightarrow> 't) \<Rightarrow> ('v, 's) handling \<Rightarrow> bool" where
  "transactional ok view step h \<longleftrightarrow> (\<forall>r s e s1. ok s \<longrightarrow> handle h r s = (e, s1) \<longrightarrow> ok s1 \<and>
     (view s1 = step (rec_value r) (view s) \<or> e \<noteq> None \<and> view s1 = view s))"

lemma transactionalD:
  assumes "transactional ok view step h" "ok s" "handle h r s = (e, s1)"
  shows "ok s1" "view s1 = step (rec_value r) (view s) \<or> (view s1 = view s \<and> e \<noteq> None)"
  using assms unfolding transactional_def by blast+

text \<open>Records in the dead-letter topic are lost to the application unless it ignores them.\<close>

definition parked_ignored :: "('v \<Rightarrow> 't \<Rightarrow> 't) \<Rightarrow> ('v, 's) member \<Rightarrow> bool" where
  "parked_ignored step m \<longleftrightarrow> (\<forall>d \<in> set (dead m). \<forall>t. step (rec_value d) t = t)"

lemma parked_grows: "parked_ignored step m1 \<Longrightarrow> grows m m1 \<Longrightarrow> parked_ignored step m"
  by (auto simp: parked_ignored_def grows_def)

lemma dlq_record_value [simp]: "rec_value (dlq_record r e) = rec_value r"
  by (simp add: dlq_record_def)

lemma commit_marks_log:
  assumes lg: "partition_log q lg" and "0 < j" "p + j \<le> length lg"
  shows "commit_marks (take j (drop p lg)) mk q = int (p + j)"
proof -
  let ?rs = "take j (drop p lg)"
  have at: "?rs ! i = lg ! (p + i)" if "i < j" for i using that assms by simp
  have len: "length ?rs = j" using assms by simp
  have all: "tp r = q" if mem: "r \<in> set ?rs" for r
  proof -
    obtain i where "i < length ?rs" "r = ?rs ! i" using mem unfolding in_set_conv_nth by blast
    then have "i < j" "r = lg ! (p + i)" using at by (simp_all only: len)
    then show ?thesis using lg assms(3) by (simp add: partition_log_def)
  qed
  then have "filter (\<lambda>r. tp r = q) ?rs = ?rs" by (simp add: filter_id_conv)
  moreover have "?rs \<noteq> []" using len \<open>0 < j\<close> by auto
  moreover have "Max (set (map rec_offset ?rs)) = int (p + j) - 1"
  proof (rule Max_eqI)
    fix y assume "y \<in> set (map rec_offset ?rs)"
    then obtain x where x: "x \<in> set ?rs" "y = rec_offset x" by auto
    then obtain i where "i < length ?rs" "x = ?rs ! i" unfolding in_set_conv_nth by blast
    then have "i < j" "y = rec_offset (?rs ! i)" using x(2) by (simp_all only: len)
    then show "y \<le> int (p + j) - 1" using lg assms(3) at by (simp add: partition_log_def)
  next
    have "?rs ! (j - 1) \<in> set ?rs" by (rule nth_mem) (use len \<open>0 < j\<close> in simp)
    moreover have "rec_offset (?rs ! (j - 1)) = int (p + j) - 1"
      using lg assms at [of "j - 1"] by (simp add: partition_log_def)
    ultimately show "int (p + j) - 1 \<in> set (map rec_offset ?rs)" by (metis image_eqI set_map)
  qed simp
  ultimately show ?thesis by (cases ?rs) (simp_all add: commit_marks_def)
qed

lemma run_facts: "run_consumer c h ps m = (e, m1) \<Longrightarrow> grows m m1"
proof (induction c h ps m arbitrary: e m1 rule: run_consumer.induct)
  case (3 c h rs fate ps m)
  obtain dn stop m2 where run: "each_record c h rs m = (dn, stop, m2)" by (cases "each_record c h rs m") auto
  have grow: "grows m (commit_records fate dn m2)" using each_record_facts [OF run] by (simp add: grows_commit)
  show ?case
  proof (cases stop)
    case True
    then show ?thesis using 3(2) run grow by simp
  next
    case False
    then have "grows (commit_records fate dn m2) m1"
      using 3(1) [OF run [symmetric] refl refl] 3(2) run by simp
    with grow show ?thesis by (rule grows_trans)
  qed
qed simp_all

lemma lives_grows: "grows m (lives c h q lg nss m)"
proof (induction nss arbitrary: m)
  case (Cons ns nss)
  obtain e m1 where run: "run_consumer c h (polls_at lg (nat (marks m q)) ns) m = (e, m1)" by fastforce
  from grows_trans [OF run_facts [OF run] Cons.IH] show ?case by (simp add: run)
qed simp

context replay_safe
begin

lemma once_more: "step r (step r s) = step r s"
  using replay [of "[r]" s] by simp

lemma attempts_step:
  assumes tr: "transactional ok view step h"
  shows "ok s \<Longrightarrow> attempts h r first n e s = (res, s1) \<Longrightarrow> ok s1 \<and>
    (view s1 = step (rec_value r) (view s) \<or> (view s1 = view s \<and> res \<noteq> Accepted))"
proof (induction n arbitrary: first e s)
  case (Suc n)
  show ?case
  proof (cases "\<not> first \<and> cancelled h s")
    case True
    with Suc.prems show ?thesis by auto
  next
    case False
    obtain er s2 where run: "handle h r s = (er, s2)" by fastforce
    note ok2 = transactionalD [OF tr Suc.prems(1) run]
    show ?thesis
    proof (cases er)
      case None
      with Suc.prems False run ok2 show ?thesis by auto
    next
      case (Some e1)
      show ?thesis
      proof (cases "permanent e1")
        case True
        with Suc.prems False run ok2 Some show ?thesis by auto
      next
        case perm: False
        then have "attempts h r False n e1 s2 = (res, s1)" using Suc.prems False run Some by auto
        from Suc.IH [OF ok2(1) this] ok2(2) once_more show ?thesis by auto
      qed
    qed
  qed
qed auto

lemma process_step:
  assumes tr: "transactional ok view step h" and ok: "ok (app m)"
    and run: "process c h r m = (err, m1)" and parked: "parked_ignored step m1"
  shows "ok (app m1)" "view (app m1) = step (rec_value r) (view (app m)) \<or> (view (app m1) = view (app m) \<and> err)"
proof -
  obtain res s where att: "attempts h r True (nat (max_retries c + 1)) \<lparr>permanent = False, herr_text = ''''\<rparr> (app m) = (res, s)"
    by fastforce
  note st = attempts_step [OF tr ok att]
  have app: "app m1 = s"
    using run att by (auto simp: process_def to_dlq_def split: attempt_result.splits if_splits)
  show "ok (app m1)" using st app by simp
  show "view (app m1) = step (rec_value r) (view (app m)) \<or> (view (app m1) = view (app m) \<and> err)"
  proof (cases "err \<or> res = Accepted")
    case True
    with run att st app show ?thesis by (auto simp: process_def)
  next
    case False
    then have "\<exists>e. dlq_record r e \<in> set (dead m1)"
      using run att by (auto simp: process_def to_dlq_def split: attempt_result.splits if_splits)
    then obtain e where "dlq_record r e \<in> set (dead m1)" by blast
    then have ign: "step (rec_value r) t = t" for t
      using parked unfolding parked_ignored_def by (metis dlq_record_value)
    from st app show ?thesis by (auto simp: ign)
  qed
qed

lemma each_record_step:
  assumes tr: "transactional ok view step h"
  shows "ok (app m) \<Longrightarrow> each_record c h rs m = (ps, stop, m1) \<Longrightarrow> parked_ignored step m1 \<Longrightarrow>
    marks m1 = marks m \<and> ok (app m1) \<and>
    (\<exists>i j. j \<le> i \<and> i \<le> length rs \<and> ps = take j rs \<and>
       view (app m1) = fold step (map rec_value (take i rs)) (view (app m)) \<and>
       (\<not> stop \<longrightarrow> j = length rs))"
proof (induction rs arbitrary: m ps stop m1)
  case (Cons r rs)
  obtain err m2 where run: "process c h r m = (err, m2)" by fastforce
  have mk: "marks m2 = marks m" using process_facts [OF run] by simp
  have g: "grows m2 m1"
  proof (cases err)
    case True
    then show ?thesis using Cons.prems(2) run by auto
  next
    case False
    obtain qs st1 m3 where rest: "each_record c h rs m2 = (qs, st1, m3)" by (cases "each_record c h rs m2") auto
    then show ?thesis using Cons.prems(2) run False each_record_facts [OF rest] by auto
  qed
  have parked: "parked_ignored step m2" using Cons.prems(3) g by (rule parked_grows)
  note st = process_step [OF tr Cons.prems(1) run parked]
  show ?case
  proof (cases err)
    case True
    then have eq: "ps = []" "m1 = m2" "stop" using Cons.prems run by auto
    have "\<exists>i \<le> 1. view (app m2) = fold step (map rec_value (take i (r # rs))) (view (app m))"
      using st(2) by (auto intro: exI [of _ 0] exI [of _ "1::nat"])
    then obtain i where "i \<le> 1" "view (app m2) = fold step (map rec_value (take i (r # rs))) (view (app m))" by blast
    with eq st(1) mk show ?thesis by (intro conjI exI [of _ i] exI [of _ 0]) auto
  next
    case False
    obtain qs st1 m3 where rest: "each_record c h rs m2 = (qs, st1, m3)" by (cases "each_record c h rs m2") auto
    have eq: "ps = r # qs" "stop = st1" "m1 = m3" using Cons.prems run False rest by auto
    obtain i j where IH: "marks m3 = marks m2" "ok (app m3)" "j \<le> i" "i \<le> length rs" "qs = take j rs"
        "view (app m3) = fold step (map rec_value (take i rs)) (view (app m2))" "\<not> st1 \<longrightarrow> j = length rs"
      using Cons.IH [OF st(1) rest] Cons.prems(3) eq by blast
    have "view (app m2) = step (rec_value r) (view (app m))" using st False by auto
    with IH mk show ?thesis
      unfolding eq by (intro conjI exI [of _ "Suc i"] exI [of _ "Suc j"]) auto
  qed
qed simp

lemma run_step:
  assumes tr: "transactional ok view step h" and lg: "partition_log q lg"
  shows "run_consumer c h (polls_at lg p ns) m = (e, m1) \<Longrightarrow> ok (app m) \<Longrightarrow> parked_ignored step m1 \<Longrightarrow>
    p \<le> length lg \<Longrightarrow> marks m q = int d \<Longrightarrow> d \<le> p \<Longrightarrow>
    grows m m1 \<and> ok (app m1) \<and> (\<exists>k d1. marks m1 q = int d1 \<and> d \<le> d1 \<and> d1 \<le> p + k \<and> p + k \<le> length lg \<and>
      view (app m1) = fold step (map rec_value (take k (drop p lg))) (view (app m)))"
proof (induction ns arbitrary: p m e m1 d)
  case Nil
  then show ?case by (intro conjI exI [of _ 0] exI [of _ d]) auto
next
  case (Cons nf ns)
  obtain n fate where nf: "nf = (n, fate)" by fastforce
  let ?rs = "take n (drop p lg)"
  obtain dn stop m2 where run: "each_record c h ?rs m = (dn, stop, m2)" by (cases "each_record c h ?rs m") auto
  let ?m3 = "commit_records fate dn m2"
  let ?p = "min (p + n) (length lg)"
  have gr: "grows m ?m3" using each_record_facts [OF run] by (simp add: grows_commit)
  have fin: "if stop then m1 = ?m3 else run_consumer c h (polls_at lg ?p ns) ?m3 = (e, m1)"
    using Cons.prems(1) run nf by (auto split: if_splits)
  have core: "\<exists>i j d2. j \<le> i \<and> i \<le> length ?rs \<and> p + i \<le> length lg \<and> (\<not> stop \<longrightarrow> j = length ?rs) \<and>
      ok (app ?m3) \<and> marks ?m3 q = int d2 \<and> d \<le> d2 \<and> d2 \<le> p + j \<and>
      view (app ?m3) = fold step (map rec_value (take i (drop p lg))) (view (app m))"
    if pk: "parked_ignored step ?m3"
  proof -
    have "parked_ignored step m2" using pk by (simp add: parked_ignored_def commit_records_def)
    from each_record_step [OF tr Cons.prems(2) run this]
    obtain i j where f: "marks m2 = marks m" "ok (app m2)" "j \<le> i" "i \<le> length ?rs" "dn = take j ?rs"
      "view (app m2) = fold step (map rec_value (take i ?rs)) (view (app m))" "\<not> stop \<longrightarrow> j = length ?rs"
      by blast
    have dn: "dn = take j (drop p lg)" and i: "take i ?rs = take i (drop p lg)" "p + i \<le> length lg"
      using f(3-5) Cons.prems(4) by (simp_all add: min_def split: if_splits)
    have mk: "marks ?m3 q = int d \<or> marks ?m3 q = int (p + j)"
      using commit_marks_log [OF lg, of j p "marks m"] f(1,3) i(2) dn Cons.prems(5)
      by (cases "j = 0") (auto simp: commit_records_def)
    then obtain d2 where "marks ?m3 q = int d2" "d \<le> d2" "d2 \<le> p + j"
      using Cons.prems(6) by (metis le_refl trans_le_add1)
    moreover have "view (app ?m3) = fold step (map rec_value (take i (drop p lg))) (view (app m))" "ok (app ?m3)"
      using f(2,6) i(1) by (simp_all add: commit_records_def)
    ultimately show ?thesis using f(3,4,7) i(2) by blast
  qed
  show ?case
  proof (cases stop)
    case True
    then have m1: "m1 = ?m3" using fin by simp
    obtain i j d2 where "j \<le> i" "p + i \<le> length lg" "ok (app ?m3)" "marks ?m3 q = int d2" "d \<le> d2" "d2 \<le> p + j"
      "view (app ?m3) = fold step (map rec_value (take i (drop p lg))) (view (app m))"
      using core Cons.prems(3) m1 by blast
    then show ?thesis using gr unfolding m1 by (intro conjI exI [of _ i] exI [of _ d2]) auto
  next
    case False
    then have rest: "run_consumer c h (polls_at lg ?p ns) ?m3 = (e, m1)" using fin by simp
    have g1: "grows ?m3 m1" using run_facts [OF rest] by simp
    obtain i j d2 where c: "j \<le> i" "i \<le> length ?rs" "p + i \<le> length lg" "j = length ?rs" "ok (app ?m3)"
      "marks ?m3 q = int d2" "d \<le> d2" "d2 \<le> p + j"
      "view (app ?m3) = fold step (map rec_value (take i (drop p lg))) (view (app m))"
      using core [OF parked_grows [OF Cons.prems(3) g1]] False by blast
    have p: "?p = p + i" using c(1,2,4) Cons.prems(4) by auto
    have "d2 \<le> ?p" using c(1,8) p by simp
    from Cons.IH [OF rest c(5) Cons.prems(3) _ c(6) this] obtain k d1 where IH: "ok (app m1)" "marks m1 q = int d1" "d2 \<le> d1"
        "d1 \<le> ?p + k" "?p + k \<le> length lg" "view (app m1) = fold step (map rec_value (take k (drop ?p lg))) (view (app ?m3))"
      by auto
    have "view (app m1) = fold step (map rec_value (take (i + k) (drop p lg))) (view (app m))"
      using IH(6) c(9) unfolding p by (simp add: take_add add.commute)
    then show ?thesis using IH c(7) p grows_trans [OF gr g1]
      by (intro conjI exI [of _ "i + k"] exI [of _ d1]) auto
  qed
qed

lemma lives_sessions:
  assumes tr: "transactional ok view step h" and lg: "partition_log q lg"
  shows "ok (app m) \<Longrightarrow> parked_ignored step (lives c h q lg nss m) \<Longrightarrow> marks m q = int d \<Longrightarrow> d \<le> length lg \<Longrightarrow>
    \<exists>ss. valid_sessions (map rec_value (drop d lg)) ss \<and> marks (lives c h q lg nss m) q = int (d + acked ss) \<and>
      view (app (lives c h q lg nss m)) = fold step (sessions (map rec_value (drop d lg)) ss) (view (app m))"
proof (induction nss arbitrary: m d)
  case Nil
  then show ?case by (intro exI [of _ "[]"]) simp
next
  case (Cons ns nss)
  obtain e m1 where run: "run_consumer c h (polls_at lg d ns) m = (e, m1)" by fastforce
  have nx: "lives c h q lg (ns # nss) m = lives c h q lg nss m1" using run Cons.prems(3) by simp
  have pk: "parked_ignored step m1"
    using Cons.prems(2) lives_grows [of m1 c h q lg nss] unfolding nx by (rule parked_grows)
  obtain k d1 where st: "ok (app m1)" "marks m1 q = int d1" "d \<le> d1" "d1 \<le> d + k" "d + k \<le> length lg"
      "view (app m1) = fold step (map rec_value (take k (drop d lg))) (view (app m))"
    using run_step [OF tr lg run Cons.prems(1) pk Cons.prems(4,3)] by auto
  have "d1 \<le> length lg" using st(4,5) by simp
  then obtain ss where IH: "valid_sessions (map rec_value (drop d1 lg)) ss" "marks (lives c h q lg nss m1) q = int (d1 + acked ss)"
      "view (app (lives c h q lg nss m1)) = fold step (sessions (map rec_value (drop d1 lg)) ss) (view (app m1))"
    using Cons.IH [OF st(1) _ st(2)] Cons.prems(2) unfolding nx by auto
  with st show ?case
    unfolding nx by (intro exI [of _ "(k, d1 - d) # ss"]) (auto simp: drop_drop drop_map take_map)
qed

text \<open>
  Whatever the crashes, retries, lost commits and redeliveries of a partition: once the records
  after the mark are handled, the application is where handling each record once leaves it,
  unless a record it does not ignore was given up to the dead-letter topic.
\<close>

theorem consumed_once:
  assumes "transactional ok view step h" "partition_log q lg" "ok (app m)" "marks m q = 0"
    and "parked_ignored step (lives c h q lg nss m)"
  shows "fold step (map rec_value (drop (nat (marks (lives c h q lg nss m) q)) lg)) (view (app (lives c h q lg nss m))) =
    fold step (map rec_value lg) (view (app m))"
proof -
  obtain ss where ss: "valid_sessions (map rec_value lg) ss" "marks (lives c h q lg nss m) q = int (acked ss)"
      "view (app (lives c h q lg nss m)) = fold step (sessions (map rec_value lg) ss) (view (app m))"
    using lives_sessions [OF assms(1-3,5), of 0] assms(4) by auto
  then show ?thesis using at_least_once_is_once [OF ss(1)] by (simp add: drop_map)
qed

end

section \<open>A concrete run\<close>

definition sample_record :: "nat \<Rightarrow> nat \<Rightarrow> nat krecord" where
  "sample_record i v = \<lparr>rec_topic = ''t'', rec_partition = 0, rec_offset = int i, rec_key = 7,
     rec_value = v, rec_headers = []\<rparr>"

text \<open>A handler that adds values up and refuses 13 for good, and a decoder that skips 0.\<close>

definition sample_handling :: "(nat, nat) handling" where
  "sample_handling = \<lparr>handle = (\<lambda>r s. if rec_value r = 13 then (Some \<lparr>permanent = True, herr_text = ''no''\<rparr>, s)
     else (None, s + rec_value r)), cancelled = (\<lambda>_. False), dlq_fate = (\<lambda>_. Fine)\<rparr>"

definition sample_consumer :: consumer_config where
  "sample_consumer = \<lparr>group = ''g'', topics = [''t''], max_retries = 2, retry_backoff = second, use_dlq = True\<rparr>"

definition sample_polls :: "nat poll list" where
  "sample_polls = [Fetched [sample_record 0 5, sample_record 1 13] Fine, Fetched [sample_record 2 4] Fine]"

definition sample_member :: "(nat, nat) member" where
  "sample_member = \<lparr>app = 0, marks = (\<lambda>_. 0), dead = [], handled = []\<rparr>"

definition sample_decode :: "nat krecord \<Rightarrow> nat decoded" where
  "sample_decode r = (if rec_value r = 13 then Undecodable \<lparr>permanent = True, herr_text = ''no''\<rparr>
     else if rec_value r = 0 then Skip else Item (rec_value r))"

lemma sample_in_order: "in_order (marks sample_member) (polled sample_polls)"
  by (auto simp: in_order_def sample_polls_def sample_record_def sample_member_def)

theorem consumer_commits_only_done_witness:
  "(\<exists>m1. run_consumer sample_consumer sample_handling sample_polls sample_member = (Running, m1) \<and>
     app m1 = 9 \<and> marks m1 (''t'', 0) = 3) \<and>
   (\<exists>cause. dlq_record (sample_record 1 13) cause \<in>
     set (dead (snd (run_consumer sample_consumer sample_handling sample_polls sample_member))))"
proof -
  let ?run = "run_consumer sample_consumer sample_handling sample_polls sample_member"
  have res: "fst ?run = Running \<and> app (snd ?run) = 9 \<and> marks (snd ?run) (''t'', 0) = 3" by code_simp
  have run: "?run = (fst ?run, snd ?run)" by (rule prod.collapse [symmetric])
  have mem: "sample_record 1 13 \<in> set (polled sample_polls)" by (simp add: sample_polls_def)
  have low: "rec_offset (sample_record 1 13) < marks (snd ?run) (tp (sample_record 1 13))" by code_simp
  note consumer_commits_only_done [OF sample_in_order run mem low]
  moreover have "sample_record 1 13 \<notin> set (handled (snd ?run))" by code_simp
  ultimately show ?thesis using res by (metis prod.collapse)
qed

theorem batch_commits_only_settled_witness:
  "sample_record 0 5 \<in> set (handled (snd (run_batches sample_consumer sample_handling sample_decode
     (\<lambda>is s. (True, s + sum_list is)) sample_polls sample_member)))"
proof -
  let ?run = "run_batches sample_consumer sample_handling sample_decode
     (\<lambda>is s. (True, s + sum_list is)) sample_polls sample_member"
  have run: "?run = (fst ?run, snd ?run)" by (rule prod.collapse [symmetric])
  have mem: "sample_record 0 5 \<in> set (polled sample_polls)" by (simp add: sample_polls_def)
  have low: "rec_offset (sample_record 0 5) < marks (snd ?run) (tp (sample_record 0 5))" by code_simp
  have item: "sample_decode (sample_record 0 5) = Item 5" by code_simp
  from batch_commits_only_settled [OF sample_in_order run mem low] show ?thesis
    unfolding item decoded.case .
qed

end
