(* ===== verification/Auth.thy ===== *)
theory Auth
  imports World
begin

text \<open>
  The Auth service (\<^verbatim>\<open>services/auth\<close>): accounts, sessions with rotating refresh tokens, the
  two tables, the login throttle and the revocation cache in Redis, the use cases with their
  \<open>auth.events\<close>, and the verifier of access tokens every other service runs
  (\<^verbatim>\<open>libs/platform/authn\<close>). What the code takes from other packages is in \<open>auth_deps\<close>:
  address parsing, case mapping, Argon2id, SHA-256, the random source and the JWT signature.
\<close>

section \<open>Domain\<close>

datatype auth_error = EmailTaken | InvalidCredentials | AccountNotFound | SessionNotFound
  | SessionInactive | RefreshReuse | InvalidRefresh | TooManyAttempts | ConcurrentUpdate
  | ValidationError "(string \<times> string) list"

abbreviation MinPasswordLength :: nat where "MinPasswordLength \<equiv> 10"
abbreviation MaxPasswordLength :: nat where "MaxPasswordLength \<equiv> 128"

record account =
  ac_id :: uuid
  ac_email :: string
  ac_hash :: string
  ac_roles :: "string list"
  ac_created :: time
  ac_updated :: time

record auth_session =
  se_id :: uuid
  se_user :: uuid
  se_refresh :: string
  se_previous :: "string option"
  se_agent :: string
  se_created :: time
  se_last_used :: time
  se_expires :: time
  se_revoked :: "time option"
  se_reason :: string

record access_claims =
  cl_session :: uuid
  cl_subject :: uuid
  cl_roles :: "string list"
  cl_not_before :: time
  cl_expires :: time

record auth_deps =
  parse_address :: "string \<Rightarrow> string option"
  to_lower :: "string \<Rightarrow> string"
  pg_lower :: "string \<Rightarrow> string"
  hash_password :: "nat \<Rightarrow> string \<Rightarrow> string option"
  verify_password :: "string \<Rightarrow> string \<Rightarrow> bool option"
  random_token :: "nat \<Rightarrow> string option"
  sha256 :: "string \<Rightarrow> string"
  sign_claims :: "access_claims \<Rightarrow> nat \<Rightarrow> string option"
  dummy_hash :: string
  session_ttl :: duration
  access_ttl :: duration
  throttle_max :: nat
  throttle_window :: duration

definition normalize_email :: "auth_deps \<Rightarrow> string \<Rightarrow> string" where
  "normalize_email k email = to_lower k (trim_space email)"

definition validate_credentials :: "auth_deps \<Rightarrow> string \<Rightarrow> string \<Rightarrow> auth_error + unit" where
  "validate_credentials k email password =
     (let e = (if parse_address k email \<noteq> Some email \<or> 254 < length email
               then [(''email'', ''must be a valid email address'')] else []);
          n = rune_count password;
          p = (if n < MinPasswordLength then [(''password'', ''must be at least 10 characters'')]
               else if MaxPasswordLength < n then [(''password'', ''must be at most 128 characters'')]
               else if trim_space password = '''' then [(''password'', ''must not be blank'')]
               else [])
      in if e @ p = [] then Inr () else Inl (ValidationError (e @ p)))"

definition new_account :: "uuid \<Rightarrow> string \<Rightarrow> string \<Rightarrow> time \<Rightarrow> account" where
  "new_account i email hash now = \<lparr>ac_id = i, ac_email = email, ac_hash = hash,
     ac_roles = [''USER''], ac_created = now, ac_updated = now\<rparr>"

definition new_session :: "uuid \<Rightarrow> uuid \<Rightarrow> string \<Rightarrow> string \<Rightarrow> time \<Rightarrow> duration \<Rightarrow> auth_session" where
  "new_session i user hash agent now ttl =
     \<lparr>se_id = i, se_user = user, se_refresh = hash, se_previous = None,
      se_agent = (if 256 < length agent then take 256 agent else agent),
      se_created = now, se_last_used = now, se_expires = now + ttl, se_revoked = None, se_reason = ''''\<rparr>"

definition session_active :: "auth_session \<Rightarrow> time \<Rightarrow> bool" where
  "session_active s now \<longleftrightarrow> se_revoked s = None \<and> now < se_expires s"

definition rotate :: "auth_session \<Rightarrow> string \<Rightarrow> time \<Rightarrow> duration \<Rightarrow> auth_error + auth_session" where
  "rotate s hash now ttl = (if \<not> session_active s now then Inl SessionInactive
     else Inr (s\<lparr>se_previous := Some (se_refresh s), se_refresh := hash,
       se_last_used := now, se_expires := now + ttl\<rparr>))"

definition revoke_at :: "auth_session \<Rightarrow> string \<Rightarrow> time \<Rightarrow> auth_session option" where
  "revoke_at s reason now = (if se_revoked s \<noteq> None then None
     else Some (s\<lparr>se_revoked := Some now, se_reason := reason\<rparr>))"

datatype auth_event = UserRegistered account | SessionCreated auth_session | SessionRevoked auth_session

section \<open>Tables\<close>

record auth_db =
  accounts :: "account list"
  auth_sessions :: "auth_session list"

text \<open>Redis: the counters of failed logins with their expiry, and the revoked sessions.\<close>

record auth_redis =
  failures :: "string \<times> int \<Rightarrow> (nat \<times> time) option"
  revocations :: "uuid \<Rightarrow> time option"

text \<open>The payloads of \<^verbatim>\<open>libs/contracts/events/authv1\<close>.\<close>

datatype auth_payload = PUserRegistered uuid string time | PSessionCreated uuid uuid time
  | PSessionRevoked uuid uuid string time

type_synonym 'a auth_act = "(auth_db, auth_redis, auth_payload, auth_error, 'a) act"

definition account_row_ok :: "auth_deps \<Rightarrow> account \<Rightarrow> bool" where
  "account_row_ok k a \<longleftrightarrow> text_ok (ac_email a) \<and> text_ok (ac_hash a) \<and>
     ac_email a = pg_lower k (ac_email a) \<and> 3 \<le> rune_count (ac_email a) \<and> rune_count (ac_email a) \<le> 254 \<and>
     prefix ''$argon2id$'' (ac_hash a)"

definition accounts_create :: "auth_deps \<Rightarrow> account \<Rightarrow> unit auth_act" where
  "accounts_create k a = stmt (\<lambda>d.
     if has_row ac_id (ac_id a) (accounts d) \<or> \<not> account_row_ok k a then Inl Infra
     else if has_row ac_email (ac_email a) (accounts d) then Inl (Domain EmailTaken)
     else Inr ((), d\<lparr>accounts := accounts d @
       [a\<lparr>ac_created := pg_time (ac_created a), ac_updated := pg_time (ac_updated a)\<rparr>]\<rparr>))"

definition found_account :: "account option \<Rightarrow> account auth_act" where
  "found_account r = (case r of None \<Rightarrow> fail AccountNotFound | Some a \<Rightarrow> ret a)"

definition account_by_email :: "string \<Rightarrow> account auth_act" where
  "account_by_email email = bnd (query (\<lambda>d. row_with ac_email email (accounts d))) found_account"

definition account_by_id :: "uuid \<Rightarrow> account auth_act" where
  "account_by_id i = bnd (query (\<lambda>d. row_with ac_id i (accounts d))) found_account"

definition session_row_ok :: "auth_session \<Rightarrow> bool" where
  "session_row_ok s \<longleftrightarrow> length (se_refresh s) = 32 \<and> text_ok (se_agent s)"

definition sessions_create :: "auth_session \<Rightarrow> unit auth_act" where
  "sessions_create s = stmt (\<lambda>d.
     if has_row se_id (se_id s) (auth_sessions d) \<or> has_row se_refresh (se_refresh s) (auth_sessions d) \<or>
        \<not> has_row ac_id (se_user s) (accounts d) \<or> \<not> session_row_ok s then Inl Infra
     else Inr ((), d\<lparr>auth_sessions := auth_sessions d @
       [s\<lparr>se_previous := None, se_created := pg_time (se_created s),
          se_last_used := pg_time (se_last_used s), se_expires := pg_time (se_expires s),
          se_revoked := None, se_reason := ''''\<rparr>]\<rparr>))"

definition found_session :: "auth_session option \<Rightarrow> auth_session auth_act" where
  "found_session r = (case r of None \<Rightarrow> fail SessionNotFound | Some s \<Rightarrow> ret s)"

definition sessions_get :: "uuid \<Rightarrow> auth_session auth_act" where
  "sessions_get i = bnd (query (\<lambda>d. row_with se_id i (auth_sessions d))) found_session"

definition by_refresh_hash :: "string \<Rightarrow> auth_session auth_act" where
  "by_refresh_hash hash = bnd (query (\<lambda>d. row_with se_refresh hash (auth_sessions d))) found_session"

definition by_previous_hash :: "string \<Rightarrow> auth_session auth_act" where
  "by_previous_hash hash = bnd (query (\<lambda>d. row_with se_previous (Some hash) (auth_sessions d))) found_session"

definition rotation_row :: "auth_session \<Rightarrow> string \<Rightarrow> auth_session \<Rightarrow> auth_session" where
  "rotation_row s old r = r\<lparr>se_refresh := se_refresh s, se_previous := Some old,
     se_last_used := pg_time (se_last_used s), se_expires := pg_time (se_expires s)\<rparr>"

definition save_rotation :: "auth_session \<Rightarrow> string \<Rightarrow> unit auth_act" where
  "save_rotation s old = stmt (\<lambda>d.
     let hit = (\<lambda>r. se_id r = se_id s \<and> se_refresh r = old \<and> se_revoked r = None) in
     if affected hit (auth_sessions d) = 0 then Inl (Domain ConcurrentUpdate)
     else if length (se_refresh s) \<noteq> 32 \<or> length old \<noteq> 32 \<or>
        list_ex (\<lambda>r. se_refresh r = se_refresh s \<and> \<not> hit r) (auth_sessions d) then Inl Infra
     else Inr ((), d\<lparr>auth_sessions := update_rows hit (rotation_row s old) (auth_sessions d)\<rparr>))"

definition save_revocation :: "auth_session \<Rightarrow> unit auth_act" where
  "save_revocation s = stmt (\<lambda>d.
     if list_ex (\<lambda>r. se_id r = se_id s \<and> se_revoked r = None) (auth_sessions d) \<and>
        se_reason s \<notin> {''logout'', ''revoked'', ''token_reuse''} then Inl Infra
     else Inr ((), d\<lparr>auth_sessions := update_rows (\<lambda>r. se_id r = se_id s \<and> se_revoked r = None)
       (\<lambda>r. r\<lparr>se_revoked := map_option pg_time (se_revoked s), se_reason := se_reason s\<rparr>)
       (auth_sessions d)\<rparr>))"

definition list_active :: "uuid \<Rightarrow> time \<Rightarrow> auth_session list auth_act" where
  "list_active user now = query (\<lambda>d. take 100 (order_by_desc se_created
     (filter (\<lambda>r. se_user r = user \<and> se_revoked r = None \<and> pg_time now < se_expires r) (auth_sessions d))))"

section \<open>Events\<close>

definition to_contract :: "auth_event \<Rightarrow> (string \<times> uuid \<times> time \<times> auth_payload) auth_act" where
  "to_contract ev =
     (case ev of
        UserRegistered a \<Rightarrow> ret (''user.registered'', ac_id a, ac_created a,
          PUserRegistered (ac_id a) (ac_email a) (ac_created a))
      | SessionCreated s \<Rightarrow> ret (''session.created'', se_user s, se_created s,
          PSessionCreated (se_user s) (se_id s) (se_created s))
      | SessionRevoked s \<Rightarrow>
          bnd (case se_revoked s of None \<Rightarrow> now_utc | Some t \<Rightarrow> ret t) (\<lambda>at.
            ret (''session.revoked'', se_user s, at, PSessionRevoked (se_user s) (se_id s) (se_reason s) at)))"

text \<open>\<open>Publish\<close>: the messages of all events first, then one write to the outbox.\<close>

fun auth_messages :: "auth_event list \<Rightarrow> auth_payload message list auth_act" where
  "auth_messages [] = ret []"
| "auth_messages (ev # evs) =
     bnd (to_contract ev) (\<lambda>(typ, key, at, payload).
     bnd (new_envelope typ 1 ''auth-service'' at payload) (\<lambda>env.
     bnd (auth_messages evs) (\<lambda>ms.
       ret (\<lparr>msg_topic = ''auth.events'', msg_key = key, msg_value = env,
         msg_headers = [(''event-type'', typ), (''event-version'', ''1''),
           (''content-type'', ''application/json'')]\<rparr> # ms))))"

definition record_events :: "auth_event list \<Rightarrow> unit auth_act" where
  "record_events evs = bnd (auth_messages evs) write_rows"

section \<open>Redis\<close>

text \<open>\<open>time.Unix\<close>: seconds since 1970; the instant is counted from the year 1.\<close>

abbreviation unix_epoch :: int where "unix_epoch \<equiv> 62135596800"

definition unix_seconds :: "time \<Rightarrow> int" where
  "unix_seconds t = t div second - unix_epoch"

text \<open>The division of Go rounds toward zero.\<close>

definition go_div :: "int \<Rightarrow> int \<Rightarrow> int" where
  "go_div a b = sgn a * sgn b * (\<bar>a\<bar> div \<bar>b\<bar>)"

text \<open>
  The key of the counter: eight bytes of the hash of the address, and the number of the window
  (of at least a second).
\<close>

definition throttle_key :: "auth_deps \<Rightarrow> string \<Rightarrow> time \<Rightarrow> string \<times> int" where
  "throttle_key k email now = (take 8 (sha256 k email),
     go_div (unix_seconds now) (throttle_window k div second))"

definition live_failures :: "time \<Rightarrow> (string \<times> int) \<Rightarrow> auth_redis \<Rightarrow> nat" where
  "live_failures now key x = (case failures x key of None \<Rightarrow> 0 | Some (n, until) \<Rightarrow> if now < until then n else 0)"

definition throttle_allow :: "auth_deps \<Rightarrow> string \<Rightarrow> bool auth_act" where
  "throttle_allow k email = bnd now_utc (\<lambda>now.
     call (\<lambda>x. Inr (live_failures now (throttle_key k email now) x < throttle_max k, x)))"

definition throttle_failed :: "auth_deps \<Rightarrow> string \<Rightarrow> unit auth_act" where
  "throttle_failed k email = bnd now_utc (\<lambda>now.
     let key = throttle_key k email now in
     call (\<lambda>x. Inr ((), x\<lparr>failures := (failures x)(key \<mapsto>
       (Suc (live_failures now key x), now + throttle_window k))\<rparr>)))"

definition throttle_reset :: "auth_deps \<Rightarrow> string \<Rightarrow> unit auth_act" where
  "throttle_reset k email = bnd now_utc (\<lambda>now.
     call (\<lambda>x. Inr ((), x\<lparr>failures := (failures x)(throttle_key k email now := None)\<rparr>)))"

text \<open>\<open>RedisRevocations\<close>: \<open>SET revoked:session:<sid> 1 EX ttl\<close> and \<open>EXISTS\<close>.\<close>

definition revocation_set :: "uuid \<Rightarrow> duration \<Rightarrow> unit auth_act" where
  "revocation_set sid ttl = bnd now_utc (\<lambda>now.
     call (\<lambda>x. Inr ((), x\<lparr>revocations := (revocations x)(sid \<mapsto> now + ttl)\<rparr>)))"

definition is_revoked :: "uuid \<Rightarrow> time \<Rightarrow> auth_redis \<Rightarrow> bool" where
  "is_revoked sid now x = (case revocations x sid of None \<Rightarrow> False | Some until \<Rightarrow> now < until)"

section \<open>Use cases\<close>

definition auth_tx :: "'a auth_act \<Rightarrow> 'a auth_act" where
  "auth_tx m = in_tx (\<lambda>_. True) m"

record auth_result =
  rs_account :: account
  rs_session :: uuid
  rs_access :: string
  rs_access_until :: time
  rs_refresh :: string
  rs_refresh_until :: time

definition refresh_new :: "auth_deps \<Rightarrow> (string \<times> string) auth_act" where
  "refresh_new k = bnd (draw (random_token k)) (\<lambda>t. ret (t, sha256 k t))"

text \<open>\<open>jwt.NewNumericDate\<close> keeps whole seconds.\<close>

definition issue_claims :: "auth_deps \<Rightarrow> account \<Rightarrow> uuid \<Rightarrow> time \<Rightarrow> access_claims" where
  "issue_claims k a sid now = \<lparr>cl_session = sid, cl_subject = ac_id a, cl_roles = ac_roles a,
     cl_not_before = time_truncate second now, cl_expires = time_truncate second (now + access_ttl k)\<rparr>"

definition issue :: "auth_deps \<Rightarrow> account \<Rightarrow> uuid \<Rightarrow> time \<Rightarrow> (string \<times> time) auth_act" where
  "issue k a sid now = bnd (draw (sign_claims k (issue_claims k a sid now)))
     (\<lambda>t. ret (t, now + access_ttl k))"

definition start_session :: "auth_deps \<Rightarrow> account \<Rightarrow> string \<Rightarrow> (auth_result \<times> auth_session) auth_act" where
  "start_session k acc agent =
     bnd now_utc (\<lambda>now. bnd (refresh_new k) (\<lambda>(token, hash). bnd new_uuid (\<lambda>i.
       let sess = new_session i (ac_id acc) hash agent now (session_ttl k) in
       bnd (sessions_create sess) (\<lambda>_. bnd (issue k acc i now) (\<lambda>(access, until).
         ret (\<lparr>rs_account = acc, rs_session = i, rs_access = access, rs_access_until = until,
               rs_refresh = token, rs_refresh_until = se_expires sess\<rparr>, sess))))))"

definition register_tx :: "auth_deps \<Rightarrow> account \<Rightarrow> string \<Rightarrow> auth_result auth_act" where
  "register_tx k acc agent = auth_tx
     (bnd (accounts_create k acc) (\<lambda>_. bnd (start_session k acc agent) (\<lambda>(res, sess).
      bnd (record_events [UserRegistered acc, SessionCreated sess]) (\<lambda>_. ret res))))"

definition register :: "auth_deps \<Rightarrow> string \<Rightarrow> string \<Rightarrow> string \<Rightarrow> auth_result auth_act" where
  "register k email0 password agent =
     (let email = normalize_email k email0 in
      case validate_credentials k email password of
        Inl e \<Rightarrow> fail e
      | Inr _ \<Rightarrow> bnd (draw (\<lambda>n. hash_password k n password)) (\<lambda>hash. bnd new_uuid (\<lambda>i. bnd now_utc (\<lambda>now.
          register_tx k (new_account i email hash now) agent))))"

definition login_tx :: "auth_deps \<Rightarrow> account \<Rightarrow> string \<Rightarrow> auth_result auth_act" where
  "login_tx k acc agent = auth_tx (bnd (start_session k acc agent) (\<lambda>(res, sess).
     bnd (record_events [SessionCreated sess]) (\<lambda>_. ret res)))"

text \<open>The part of \<open>Login\<close> after the throttle let the attempt through, up to the match.\<close>

definition known_account :: "auth_error failure + account \<Rightarrow> auth_error failure + account option" where
  "known_account r = (case r of Inr a \<Rightarrow> Inr (Some a)
     | Inl e \<Rightarrow> if e = Domain AccountNotFound then Inr None else Inl e)"

definition check_password :: "auth_deps \<Rightarrow> string \<Rightarrow> string \<Rightarrow> account auth_act" where
  "check_password k email password =
     bnd (attempt (account_by_email email)) (\<lambda>r.
       case known_account r of
         Inl e \<Rightarrow> raise e
       | Inr acc \<Rightarrow>
           bnd (draw (\<lambda>_. verify_password k password (case acc of None \<Rightarrow> dummy_hash k | Some a \<Rightarrow> ac_hash a)))
             (\<lambda>match. case acc of
                Some a \<Rightarrow> if match then ret a
                  else bnd (attempt (throttle_failed k email)) (\<lambda>_. fail InvalidCredentials)
              | None \<Rightarrow> bnd (attempt (throttle_failed k email)) (\<lambda>_. fail InvalidCredentials)))"

definition login :: "auth_deps \<Rightarrow> string \<Rightarrow> string \<Rightarrow> string \<Rightarrow> auth_result auth_act" where
  "login k email0 password agent =
     (let email = normalize_email k email0 in
      bnd (attempt (throttle_allow k email)) (\<lambda>allowed.
        if allowed = Inr False then fail TooManyAttempts
        else bnd (check_password k email password) (\<lambda>acc.
          bnd (attempt (throttle_reset k email)) (\<lambda>_. login_tx k acc agent))))"

definition revoke_tx :: "auth_session \<Rightarrow> unit auth_act" where
  "revoke_tx s = auth_tx (bnd (save_revocation s) (\<lambda>_. record_events [SessionRevoked s]))"

definition revoke :: "auth_deps \<Rightarrow> auth_session \<Rightarrow> string \<Rightarrow> unit auth_act" where
  "revoke k sess reason = bnd now_utc (\<lambda>now.
     case revoke_at sess reason now of
       None \<Rightarrow> ret ()
     | Some s \<Rightarrow> bnd (revoke_tx s) (\<lambda>_.
         bnd (attempt (revocation_set (se_id s) (access_ttl k))) (\<lambda>_. ret ())))"

definition rotate_token :: "auth_deps \<Rightarrow> auth_session \<Rightarrow> string \<Rightarrow> time \<Rightarrow> auth_result auth_act" where
  "rotate_token k sess old now =
     bnd (refresh_new k) (\<lambda>(token, hash).
       case rotate sess hash now (session_ttl k) of
         Inl e \<Rightarrow> fail e
       | Inr s \<Rightarrow>
           bnd (save_rotation s old) (\<lambda>_. bnd (account_by_id (se_user s)) (\<lambda>acc.
           bnd (issue k acc (se_id s) now) (\<lambda>(access, until).
             ret \<lparr>rs_account = acc, rs_session = se_id s, rs_access = access, rs_access_until = until,
                  rs_refresh = token, rs_refresh_until = se_expires s\<rparr>))))"

definition reuse_check :: "auth_deps \<Rightarrow> string \<Rightarrow> auth_result auth_act" where
  "reuse_check k old = bnd (attempt (by_previous_hash old)) (\<lambda>p.
     case p of
       Inr reused \<Rightarrow> bnd (revoke k reused ''token_reuse'') (\<lambda>_. fail RefreshReuse)
     | Inl _ \<Rightarrow> fail InvalidRefresh)"

definition refresh :: "auth_deps \<Rightarrow> string \<Rightarrow> auth_result auth_act" where
  "refresh k token =
     (if token = '''' then fail InvalidRefresh
      else bnd now_utc (\<lambda>now.
        let old = sha256 k token in
        bnd (attempt (by_refresh_hash old)) (\<lambda>r.
          case r of
            Inl e \<Rightarrow> if e = Domain SessionNotFound then reuse_check k old else raise e
          | Inr sess \<Rightarrow>
              if \<not> session_active sess now then fail SessionInactive
              else rotate_token k sess old now)))"

definition logout :: "auth_deps \<Rightarrow> string \<Rightarrow> unit auth_act" where
  "logout k token =
     (if token = '''' then ret ()
      else bnd (attempt (by_refresh_hash (sha256 k token))) (\<lambda>r.
        case r of
          Inl e \<Rightarrow> if e = Domain SessionNotFound then ret () else raise e
        | Inr sess \<Rightarrow> revoke k sess ''logout''))"

definition active_sessions :: "uuid \<Rightarrow> auth_session list auth_act" where
  "active_sessions user = bnd now_utc (list_active user)"

definition revoke_session :: "auth_deps \<Rightarrow> uuid \<Rightarrow> uuid \<Rightarrow> unit auth_act" where
  "revoke_session k user sid = bnd (sessions_get sid) (\<lambda>sess.
     if se_user sess \<noteq> user then fail SessionNotFound else revoke k sess ''revoked'')"

section \<open>Verification of access tokens\<close>

text \<open>
  \<open>Verifier.Verify\<close>: \<open>parse\<close> checks the signature, the algorithm, issuer and audience and gives
  the claims; the times are checked by the JWT library with the verifier's leeway. A revocation
  list that cannot be read counts as empty.
\<close>

datatype verify_error = InvalidToken | RevokedToken

abbreviation leeway :: duration where "leeway \<equiv> 30 * second"

definition times_ok :: "access_claims \<Rightarrow> time \<Rightarrow> bool" where
  "times_ok c now \<longleftrightarrow> now < cl_expires c + leeway \<and> \<not> now < cl_not_before c - leeway"

definition verify_token :: "(string \<Rightarrow> access_claims option) \<Rightarrow> (uuid \<Rightarrow> time \<Rightarrow> bool option) \<Rightarrow>
    string \<Rightarrow> time \<Rightarrow> verify_error + access_claims" where
  "verify_token parse revoked raw now =
     (case parse raw of
        None \<Rightarrow> Inl InvalidToken
      | Some c \<Rightarrow>
          if \<not> times_ok c now then Inl InvalidToken
          else case revoked (cl_session c) now of
              None \<Rightarrow> Inr c
            | Some r \<Rightarrow> if r then Inl RevokedToken else Inr c)"

section \<open>What the events tell\<close>

record auth_view =
  vw_users :: "uuid \<Rightarrow> string option"
  vw_live :: "uuid \<Rightarrow> (uuid \<times> bool) option"

fun apply_auth :: "auth_payload \<Rightarrow> auth_view \<Rightarrow> auth_view" where
  "apply_auth (PUserRegistered u email at) v = v\<lparr>vw_users := (vw_users v)(u \<mapsto> email)\<rparr>"
| "apply_auth (PSessionCreated u sid at) v = v\<lparr>vw_live := (vw_live v)(sid \<mapsto> (u, True))\<rparr>"
| "apply_auth (PSessionRevoked u sid reason at) v =
     v\<lparr>vw_live := (vw_live v)(sid := map_option (\<lambda>(u, _). (u, False)) (vw_live v sid))\<rparr>"

definition auth_replay :: "auth_payload message list \<Rightarrow> auth_view" where
  "auth_replay l = fold (\<lambda>m. apply_auth (env_payload (msg_value m))) l
     \<lparr>vw_users = Map.empty, vw_live = Map.empty\<rparr>"

definition auth_abs :: "auth_db \<Rightarrow> auth_view" where
  "auth_abs d = \<lparr>vw_users = (\<lambda>u. map_option ac_email (row_with ac_id u (accounts d))),
     vw_live = (\<lambda>sid. map_option (\<lambda>s. (se_user s, se_revoked s = None)) (row_with se_id sid (auth_sessions d)))\<rparr>"

text \<open>The constraints of the schema.\<close>

definition auth_ok :: "auth_db \<Rightarrow> bool" where
  "auth_ok d \<longleftrightarrow> unique_on ac_id (accounts d) \<and> unique_on ac_email (accounts d) \<and>
     unique_on se_id (auth_sessions d) \<and> unique_on se_refresh (auth_sessions d) \<and>
     (\<forall>s \<in> set (auth_sessions d). has_row ac_id (se_user s) (accounts d) \<and> length (se_refresh s) = 32)"

definition auth_inv :: "auth_db \<Rightarrow> auth_payload message list \<Rightarrow> bool" where
  "auth_inv d l \<longleftrightarrow> auth_ok d \<and> auth_replay l = auth_abs d"

lemma auth_replay_snoc: "auth_replay (l @ [m]) = apply_auth (env_payload (msg_value m)) (auth_replay l)"
  by (simp add: auth_replay_def)

lemma auth_replay_append:
  "auth_replay (l @ ms) = fold apply_auth (map (\<lambda>m. env_payload (msg_value m)) ms) (auth_replay l)"
proof (induction ms rule: rev_induct)
  case (snoc m ms)
  have "auth_replay (l @ ms @ [m]) = auth_replay ((l @ ms) @ [m])" by simp
  also have "\<dots> = apply_auth (env_payload (msg_value m)) (auth_replay (l @ ms))" by (rule auth_replay_snoc)
  finally show ?case by (simp add: snoc.IH)
qed simp

subsection \<open>Statements on the tables\<close>

text \<open>Inserting a row with a new key.\<close>

lemma auth_ok_account:
  assumes "auth_ok d" "\<not> has_row ac_id (ac_id a) (accounts d)" "\<not> has_row ac_email (ac_email a) (accounts d)"
  shows "auth_ok (d\<lparr>accounts := accounts d @ [a]\<rparr>)"
  using assms by (auto simp: auth_ok_def has_row_iff)

lemma auth_abs_account:
  assumes "\<not> has_row ac_id (ac_id a) (accounts d)"
  shows "auth_abs (d\<lparr>accounts := accounts d @ [a]\<rparr>) = apply_auth (PUserRegistered (ac_id a) (ac_email a) at) (auth_abs d)"
proof -
  have "row_with ac_id (ac_id a) (accounts d) = None" using assms by (simp add: has_row_row_with)
  then show ?thesis by (auto simp: auth_abs_def row_with_append fun_eq_iff split: option.splits)
qed

lemma auth_ok_session:
  assumes "auth_ok d" "\<not> has_row se_id (se_id s) (auth_sessions d)"
    "\<not> has_row se_refresh (se_refresh s) (auth_sessions d)" "has_row ac_id (se_user s) (accounts d)"
    "length (se_refresh s) = 32"
  shows "auth_ok (d\<lparr>auth_sessions := auth_sessions d @ [s]\<rparr>)"
  using assms by (auto simp: auth_ok_def has_row_iff)

lemma auth_abs_session:
  assumes "\<not> has_row se_id (se_id s) (auth_sessions d)" "se_revoked s = None"
  shows "auth_abs (d\<lparr>auth_sessions := auth_sessions d @ [s]\<rparr>) =
    apply_auth (PSessionCreated (se_user s) (se_id s) at) (auth_abs d)"
proof -
  have "row_with se_id (se_id s) (auth_sessions d) = None" using assms(1) by (simp add: has_row_row_with)
  then show ?thesis using assms(2) by (auto simp: auth_abs_def row_with_append fun_eq_iff split: option.splits)
qed

definition revoked_rows :: "auth_session \<Rightarrow> auth_session list \<Rightarrow> auth_session list" where
  "revoked_rows s rs = update_rows (\<lambda>r. se_id r = se_id s \<and> se_revoked r = None)
     (\<lambda>r. r\<lparr>se_revoked := map_option pg_time (se_revoked s), se_reason := se_reason s\<rparr>) rs"

lemma row_with_update_rows:
  assumes "\<And>r. key (f r) = key r" "unique_on key rs"
  shows "row_with key k (update_rows p f rs) = map_option (\<lambda>r. if p r then f r else r) (row_with key k rs)"
  using assms(2)
proof (induction rs)
  case (Cons r rs)
  then show ?case using assms(1) by (auto simp: unique_on_def update_rows_def row_with_def)
qed (simp add: update_rows_def)

lemma auth_ok_revoke: "auth_ok d \<Longrightarrow> auth_ok (d\<lparr>auth_sessions := revoked_rows s (auth_sessions d)\<rparr>)"
  by (auto simp: auth_ok_def revoked_rows_def unique_on_update set_update_rows)

lemma auth_abs_revoke:
  assumes "auth_ok d" "se_revoked s \<noteq> None"
  shows "auth_abs (d\<lparr>auth_sessions := revoked_rows s (auth_sessions d)\<rparr>) =
    apply_auth (PSessionRevoked u (se_id s) reason at) (auth_abs d)"
proof -
  have u: "unique_on se_id (auth_sessions d)" using assms(1) by (simp add: auth_ok_def)
  have "row_with se_id i (revoked_rows s (auth_sessions d)) =
      map_option (\<lambda>r. if se_id r = se_id s \<and> se_revoked r = None
        then r\<lparr>se_revoked := map_option pg_time (se_revoked s), se_reason := se_reason s\<rparr> else r)
      (row_with se_id i (auth_sessions d))" for i
    unfolding revoked_rows_def by (rule row_with_update_rows [OF _ u]) simp
  then show ?thesis
    using assms(2)
    by (auto simp: auth_abs_def fun_eq_iff option.map_comp comp_def dest: row_with_SomeD
        split: option.splits if_splits intro!: option.map_cong)
qed

definition rotation_hit :: "auth_session \<Rightarrow> string \<Rightarrow> auth_session \<Rightarrow> bool" where
  "rotation_hit s old r \<longleftrightarrow> se_id r = se_id s \<and> se_refresh r = old \<and> se_revoked r = None"

lemma rotation_row_simps [simp]:
  "se_id (rotation_row s old r) = se_id r" "se_user (rotation_row s old r) = se_user r"
  "se_revoked (rotation_row s old r) = se_revoked r" "se_reason (rotation_row s old r) = se_reason r"
  "se_refresh (rotation_row s old r) = se_refresh s" "se_previous (rotation_row s old r) = Some old"
  by (simp_all add: rotation_row_def)

lemma unique_on_rotate:
  assumes "unique_on se_refresh rs" "unique_on se_id rs"
    "\<not> list_ex (\<lambda>r. se_refresh r = se_refresh s \<and> \<not> rotation_hit s old r) rs"
  shows "unique_on se_refresh (update_rows (rotation_hit s old) (rotation_row s old) rs)"
  using assms
proof (induction rs)
  case (Cons r rs)
  have IH: "unique_on se_refresh (update_rows (rotation_hit s old) (rotation_row s old) rs)"
    using Cons by (simp add: unique_on_def)
  show ?case
  proof (cases "rotation_hit s old r")
    case True
    have none: "\<not> rotation_hit s old q" if "q \<in> set rs" for q
      using Cons.prems(2) imageI [OF that, of se_id] True by (auto simp: unique_on_def rotation_hit_def)
    then have "update_rows (rotation_hit s old) (rotation_row s old) rs = rs"
      by (simp add: update_rows_def map_idI)
    moreover have "se_refresh s \<notin> se_refresh ` set rs"
      using Cons.prems(3) none by (fastforce simp: list_ex_iff)
    ultimately show ?thesis using True IH by (simp add: unique_on_def update_rows_def)
  next
    case False
    then have "se_refresh r \<noteq> se_refresh s" using Cons.prems(3) by simp
    then have "se_refresh r \<noteq> se_refresh (if rotation_hit s old q then rotation_row s old q else q)"
      if "q \<in> set rs" for q
      using Cons.prems(1) that by (auto simp: unique_on_def image_iff)
    then show ?thesis using False IH by (auto simp: unique_on_def update_rows_def)
  qed
qed (simp add: update_rows_def)

lemma rotation_effect:
  assumes ok: "auth_ok d" and "length (se_refresh s) = 32"
    "\<not> list_ex (\<lambda>r. se_refresh r = se_refresh s \<and> \<not> rotation_hit s old r) (auth_sessions d)"
  defines "d1 \<equiv> d\<lparr>auth_sessions := update_rows (rotation_hit s old) (rotation_row s old) (auth_sessions d)\<rparr>"
  shows "auth_ok d1" "auth_abs d1 = auth_abs d"
proof -
  have u: "unique_on se_id (auth_sessions d)" "unique_on se_refresh (auth_sessions d)"
    using ok by (simp_all add: auth_ok_def)
  show "auth_ok d1"
    using ok assms(2) unique_on_rotate [OF u(2,1) assms(3)]
    by (auto simp: d1_def auth_ok_def unique_on_update set_update_rows)
  have "row_with se_id i (auth_sessions d1) =
      map_option (\<lambda>r. if rotation_hit s old r then rotation_row s old r else r) (row_with se_id i (auth_sessions d))" for i
    unfolding d1_def by (simp, rule row_with_update_rows [OF _ u(1)]) simp
  then show "auth_abs d1 = auth_abs d"
    by (auto simp: auth_abs_def d1_def fun_eq_iff option.map_comp comp_def split: if_splits
        intro!: option.map_cong)
qed

subsection \<open>Transactions\<close>

lemma write_rows_Inr:
  "write_rows ms w = (Inr u, w1) \<Longrightarrow> db w1 = db w \<and> log w1 = log w @ ms"
  by (induction ms arbitrary: w) (auto simp: act_inv log_def)

lemma auth_messages_Inr:
  "auth_messages evs w = (Inr ms, w1) \<Longrightarrow> db w1 = db w \<and> log w1 = log w"
proof (induction evs arbitrary: w ms w1)
  case (Cons ev evs)
  then show ?case
    by (cases ev) (fastforce simp: act_inv to_contract_def split: option.splits)+
qed (simp add: act_inv)

lemma auth_messages_single:
  "auth_messages [ev] w = (Inr ms, w1) \<Longrightarrow> \<exists>m. ms = [m] \<and>
     (case ev of UserRegistered a \<Rightarrow> env_payload (msg_value m) = PUserRegistered (ac_id a) (ac_email a) (ac_created a)
      | SessionCreated s \<Rightarrow> env_payload (msg_value m) = PSessionCreated (se_user s) (se_id s) (se_created s)
      | SessionRevoked s \<Rightarrow> \<exists>at. env_payload (msg_value m) = PSessionRevoked (se_user s) (se_id s) (se_reason s) at)"
  by (cases ev) (auto simp: act_inv to_contract_def split: option.splits)

lemma record_one:
  assumes "record_events [ev] w = (Inr u, w1)"
  shows "db w1 = db w \<and> (\<exists>m. log w1 = log w @ [m] \<and>
     (case ev of UserRegistered a \<Rightarrow> env_payload (msg_value m) = PUserRegistered (ac_id a) (ac_email a) (ac_created a)
      | SessionCreated s \<Rightarrow> env_payload (msg_value m) = PSessionCreated (se_user s) (se_id s) (se_created s)
      | SessionRevoked s \<Rightarrow> \<exists>at. env_payload (msg_value m) = PSessionRevoked (se_user s) (se_id s) (se_reason s) at))"
proof -
  obtain ms w2 where run: "auth_messages [ev] w = (Inr ms, w2)" "(write_rows ms :: unit auth_act) w2 = (Inr u, w1)"
    using assms unfolding record_events_def bnd_Inr by blast
  show ?thesis
    using auth_messages_Inr [OF run(1)] auth_messages_single [OF run(1)] write_rows_Inr [OF run(2)] by auto
qed

lemma record_two:
  assumes "record_events [UserRegistered a, SessionCreated s] w = (Inr u, w1)"
  shows "db w1 = db w \<and> (\<exists>m n. log w1 = log w @ [m, n] \<and>
     env_payload (msg_value m) = PUserRegistered (ac_id a) (ac_email a) (ac_created a) \<and>
     env_payload (msg_value n) = PSessionCreated (se_user s) (se_id s) (se_created s))"
proof -
  obtain ms w2 where run: "auth_messages [UserRegistered a, SessionCreated s] w = (Inr ms, w2)"
      "(write_rows ms :: unit auth_act) w2 = (Inr u, w1)"
    using assms unfolding record_events_def bnd_Inr by blast
  moreover have "\<exists>m n. ms = [m, n] \<and> env_payload (msg_value m) = PUserRegistered (ac_id a) (ac_email a) (ac_created a) \<and>
      env_payload (msg_value n) = PSessionCreated (se_user s) (se_id s) (se_created s)"
    using run(1) by (auto simp: act_inv to_contract_def)
  ultimately show ?thesis
    using auth_messages_Inr [OF run(1)] write_rows_Inr [OF run(2)] by auto
qed

definition stored_account :: "account \<Rightarrow> account" where
  "stored_account a = a\<lparr>ac_created := pg_time (ac_created a), ac_updated := pg_time (ac_updated a)\<rparr>"

definition stored_session :: "auth_session \<Rightarrow> auth_session" where
  "stored_session s = s\<lparr>se_previous := None, se_created := pg_time (se_created s),
     se_last_used := pg_time (se_last_used s), se_expires := pg_time (se_expires s),
     se_revoked := None, se_reason := ''''\<rparr>"

lemma stored_simps [simp]:
  "ac_id (stored_account a) = ac_id a" "ac_email (stored_account a) = ac_email a"
  "ac_hash (stored_account a) = ac_hash a"
  "se_id (stored_session s) = se_id s" "se_user (stored_session s) = se_user s"
  "se_refresh (stored_session s) = se_refresh s" "se_revoked (stored_session s) = None"
  by (simp_all add: stored_account_def stored_session_def)

lemma accounts_create_Inr:
  "accounts_create k a w = (Inr u, w1) \<Longrightarrow> log w1 = log w \<and>
     \<not> has_row ac_id (ac_id a) (accounts (db w)) \<and> \<not> has_row ac_email (ac_email a) (accounts (db w)) \<and>
     db w1 = (db w)\<lparr>accounts := accounts (db w) @ [stored_account a]\<rparr>"
  by (auto simp: accounts_create_def act_inv stored_account_def split: if_splits)

lemma sessions_create_Inr:
  "sessions_create s w = (Inr u, w1) \<Longrightarrow> log w1 = log w \<and>
     \<not> has_row se_id (se_id s) (auth_sessions (db w)) \<and>
     \<not> has_row se_refresh (se_refresh s) (auth_sessions (db w)) \<and>
     has_row ac_id (se_user s) (accounts (db w)) \<and> session_row_ok s \<and>
     db w1 = (db w)\<lparr>auth_sessions := auth_sessions (db w) @ [stored_session s]\<rparr>"
  by (auto simp: sessions_create_def act_inv stored_session_def split: if_splits)

lemma start_session_Inr:
  assumes "start_session k acc agent w = (Inr (res, s), w1)"
  shows "log w1 = log w \<and> \<not> has_row se_id (se_id s) (auth_sessions (db w)) \<and>
     \<not> has_row se_refresh (se_refresh s) (auth_sessions (db w)) \<and>
     has_row ac_id (se_user s) (accounts (db w)) \<and> session_row_ok s \<and>
     db w1 = (db w)\<lparr>auth_sessions := auth_sessions (db w) @ [stored_session s]\<rparr> \<and>
     se_user s = ac_id acc \<and> se_refresh s = sha256 k (rs_refresh res) \<and> rs_account res = acc \<and>
     rs_session res = se_id s \<and> random_token k (Suc (tick w)) = Some (rs_refresh res)"
  using assms
  by (auto simp: start_session_def refresh_new_def issue_def act_inv Let_def new_session_def
      dest!: sessions_create_Inr)

text \<open>The committed effects.\<close>

definition session_effect :: "auth_deps \<Rightarrow> account \<Rightarrow> auth_result \<Rightarrow> auth_db \<Rightarrow> auth_db \<Rightarrow> auth_session \<Rightarrow> bool" where
  "session_effect k acc res d d1 s \<longleftrightarrow>
     \<not> has_row se_id (se_id s) (auth_sessions d) \<and> \<not> has_row se_refresh (se_refresh s) (auth_sessions d) \<and>
     has_row ac_id (se_user s) (accounts d) \<and> session_row_ok s \<and>
     d1 = d\<lparr>auth_sessions := auth_sessions d @ [stored_session s]\<rparr> \<and>
     se_user s = ac_id acc \<and> se_refresh s = sha256 k (rs_refresh res) \<and> rs_account res = acc \<and>
     rs_session res = se_id s"

definition login_effect :: "auth_deps \<Rightarrow> account \<Rightarrow> auth_result \<Rightarrow> auth_db \<Rightarrow> auth_payload message list \<Rightarrow>
    auth_db \<Rightarrow> auth_payload message list \<Rightarrow> bool" where
  "login_effect k acc res d l d1 l1 \<longleftrightarrow> (\<exists>s m. session_effect k acc res d d1 s \<and> l1 = l @ [m] \<and>
     env_payload (msg_value m) = PSessionCreated (ac_id acc) (rs_session res) (se_created s))"

definition register_effect :: "auth_deps \<Rightarrow> account \<Rightarrow> auth_result \<Rightarrow> auth_db \<Rightarrow> auth_payload message list \<Rightarrow>
    auth_db \<Rightarrow> auth_payload message list \<Rightarrow> bool" where
  "register_effect k acc res d l d1 l1 \<longleftrightarrow>
     \<not> has_row ac_id (ac_id acc) (accounts d) \<and> \<not> has_row ac_email (ac_email acc) (accounts d) \<and>
     (\<exists>s m n. session_effect k acc res (d\<lparr>accounts := accounts d @ [stored_account acc]\<rparr>) d1 s \<and> l1 = l @ [m, n] \<and>
       env_payload (msg_value m) = PUserRegistered (ac_id acc) (ac_email acc) (ac_created acc) \<and>
       env_payload (msg_value n) = PSessionCreated (ac_id acc) (rs_session res) (se_created s))"

definition revoke_effect :: "auth_session \<Rightarrow> unit \<Rightarrow> auth_db \<Rightarrow> auth_payload message list \<Rightarrow>
    auth_db \<Rightarrow> auth_payload message list \<Rightarrow> bool" where
  "revoke_effect s u d l d1 l1 \<longleftrightarrow> d1 = d\<lparr>auth_sessions := revoked_rows s (auth_sessions d)\<rparr> \<and>
     (\<exists>m at. l1 = l @ [m] \<and> env_payload (msg_value m) = PSessionRevoked (se_user s) (se_id s) (se_reason s) at)"

lemma commits_login_tx: "commits (login_tx k acc agent) (login_effect k acc)"
  unfolding login_tx_def auth_tx_def
proof (rule pg.commits_tx)
  fix w x w1
  assume "bnd (start_session k acc agent) (\<lambda>(res, sess). bnd (record_events [SessionCreated sess]) (\<lambda>_. ret res)) w =
    (Inr x, w1)"
  then obtain s w2 where "start_session k acc agent w = (Inr (x, s), w2)"
      "record_events [SessionCreated s] w2 = (Inr (), w1)"
    by (auto simp: act_inv)
  then show "login_effect k acc x (db w) (log w) (db w1) (log w1)"
    by (auto simp: login_effect_def session_effect_def dest!: start_session_Inr record_one)
qed

lemma commits_register_tx: "commits (register_tx k acc agent) (register_effect k acc)"
  unfolding register_tx_def auth_tx_def
proof (rule pg.commits_tx)
  fix w x w1
  assume "bnd (accounts_create k acc) (\<lambda>_. bnd (start_session k acc agent) (\<lambda>(res, sess).
      bnd (record_events [UserRegistered acc, SessionCreated sess]) (\<lambda>_. ret res))) w = (Inr x, w1)"
  then obtain w2 s w3 where "accounts_create k acc w = (Inr (), w2)"
      "start_session k acc agent w2 = (Inr (x, s), w3)"
      "record_events [UserRegistered acc, SessionCreated s] w3 = (Inr (), w1)"
    by (auto simp: act_inv)
  then show "register_effect k acc x (db w) (log w) (db w1) (log w1)"
    by (auto simp: register_effect_def session_effect_def
        dest!: accounts_create_Inr start_session_Inr record_two)
qed

lemma save_revocation_Inr:
  "save_revocation s w = (Inr u, w1) \<Longrightarrow> log w1 = log w \<and>
     db w1 = (db w)\<lparr>auth_sessions := revoked_rows s (auth_sessions (db w))\<rparr>"
  by (auto simp: save_revocation_def act_inv revoked_rows_def split: if_splits)

lemma commits_revoke_tx: "commits (revoke_tx s) (revoke_effect s)"
  unfolding revoke_tx_def auth_tx_def
proof (rule pg.commits_tx)
  fix w x w1
  assume "bnd (save_revocation s) (\<lambda>_. record_events [SessionRevoked s]) w = (Inr x, w1)"
  then obtain w2 where "save_revocation s w = (Inr (), w2)" "record_events [SessionRevoked s] w2 = (Inr x, w1)"
    by (auto simp: act_inv)
  then show "revoke_effect s x (db w) (log w) (db w1) (log w1)"
    by (auto simp: revoke_effect_def dest!: save_revocation_Inr record_one)
qed

subsection \<open>The invariant\<close>

lemma session_effect_ok:
  assumes "session_effect k acc res d d1 s" "auth_ok d"
  shows "auth_ok d1" "auth_abs d1 = apply_auth (PSessionCreated (ac_id acc) (rs_session res) at) (auth_abs d)"
proof -
  have eff: "\<not> has_row se_id (se_id s) (auth_sessions d)" "\<not> has_row se_refresh (se_refresh s) (auth_sessions d)"
      "has_row ac_id (se_user s) (accounts d)" "length (se_refresh s) = 32"
      "d1 = d\<lparr>auth_sessions := auth_sessions d @ [stored_session s]\<rparr>" "se_user s = ac_id acc" "rs_session res = se_id s"
    using assms(1) by (auto simp: session_effect_def session_row_ok_def)
  show "auth_ok d1" unfolding eff(5) by (rule auth_ok_session [OF assms(2)]) (use eff in simp_all)
  show "auth_abs d1 = apply_auth (PSessionCreated (ac_id acc) (rs_session res) at) (auth_abs d)"
    using auth_abs_session [of "stored_session s" d at] eff by simp
qed

lemma login_effect_inv: "login_effect k acc res d l d1 l1 \<Longrightarrow> auth_inv d l \<Longrightarrow> auth_inv d1 l1"
  unfolding login_effect_def auth_inv_def
  using session_effect_ok by (metis auth_replay_snoc)

lemma register_effect_inv:
  assumes eff: "register_effect k acc res d l d1 l1" and inv: "auth_inv d l"
  shows "auth_inv d1 l1"
proof -
  let ?d = "d\<lparr>accounts := accounts d @ [stored_account acc]\<rparr>"
  obtain s m n where e: "\<not> has_row ac_id (ac_id acc) (accounts d)" "\<not> has_row ac_email (ac_email acc) (accounts d)"
      "session_effect k acc res ?d d1 s" "l1 = l @ [m, n]"
      "env_payload (msg_value m) = PUserRegistered (ac_id acc) (ac_email acc) (ac_created acc)"
      "env_payload (msg_value n) = PSessionCreated (ac_id acc) (rs_session res) (se_created s)"
    using eff by (auto simp: register_effect_def)
  have ok: "auth_ok ?d"
    using inv e(1,2) by (intro auth_ok_account) (simp_all add: auth_inv_def)
  have abs: "auth_abs ?d = apply_auth (PUserRegistered (ac_id acc) (ac_email acc) (ac_created acc)) (auth_abs d)"
    using auth_abs_account [of "stored_account acc" d] e(1) by simp
  show ?thesis
    using session_effect_ok [OF e(3) ok] abs inv e(4-6)
    by (simp add: auth_inv_def auth_replay_append)
qed

lemma revoke_effect_inv:
  assumes "revoke_effect s u d l d1 l1" "se_revoked s \<noteq> None" "auth_inv d l"
  shows "auth_inv d1 l1"
proof -
  obtain m at where d1: "d1 = d\<lparr>auth_sessions := revoked_rows s (auth_sessions d)\<rparr>" and l1: "l1 = l @ [m]"
      and m: "env_payload (msg_value m) = PSessionRevoked (se_user s) (se_id s) (se_reason s) at"
    using assms(1) by (auto simp: revoke_effect_def)
  have ok: "auth_ok d" using assms(3) by (simp add: auth_inv_def)
  show ?thesis
    using assms(3) auth_ok_revoke [OF ok, of s] auth_abs_revoke [OF ok assms(2), of "se_user s" "se_reason s" at]
    unfolding auth_inv_def d1 l1 auth_replay_snoc m by simp
qed

lemma keeps_save_rotation: "keeps_inv auth_inv (save_rotation s old)"
  unfolding save_rotation_def
proof (rule keeps_stmt)
  fix d l x d1
  assume inv: "auth_inv d l" and "(let hit = \<lambda>r. se_id r = se_id s \<and> se_refresh r = old \<and> se_revoked r = None
     in if affected hit (auth_sessions d) = 0 then Inl (Domain ConcurrentUpdate)
        else if length (se_refresh s) \<noteq> 32 \<or> length old \<noteq> 32 \<or>
          list_ex (\<lambda>r. se_refresh r = se_refresh s \<and> \<not> hit r) (auth_sessions d) then Inl Infra
        else Inr ((), d\<lparr>auth_sessions := update_rows hit (rotation_row s old) (auth_sessions d)\<rparr>)) = Inr (x, d1)"
  then have "length (se_refresh s) = 32" "\<not> list_ex (\<lambda>r. se_refresh r = se_refresh s \<and> \<not> rotation_hit s old r) (auth_sessions d)"
      "d1 = d\<lparr>auth_sessions := update_rows (rotation_hit s old) (rotation_row s old) (auth_sessions d)\<rparr>"
    by (auto simp: Let_def rotation_hit_def [abs_def] split: if_splits)
  with rotation_effect [of d s old] inv show "auth_inv d1 l" by (simp add: auth_inv_def)
qed

section \<open>Interleaved requests\<close>

text \<open>
  What requests do to the tables, as steps that interleave: the transactions of sign-up and
  sign-in, a revocation, and the tail of a refresh, each with whatever its request read before.
\<close>

datatype auth_step = StepRegister account string | StepLogin account string
  | StepRevoke auth_session string | StepRotate auth_session string time

fun run_auth_step :: "auth_deps \<Rightarrow> auth_step \<Rightarrow> (auth_db, auth_redis, auth_payload) world \<Rightarrow>
    (auth_db, auth_redis, auth_payload) world" where
  "run_auth_step k (StepRegister a agent) w = snd (register_tx k a agent w)"
| "run_auth_step k (StepLogin a agent) w = snd (login_tx k a agent w)"
| "run_auth_step k (StepRevoke s reason) w = snd (revoke k s reason w)"
| "run_auth_step k (StepRotate s old now) w = snd (rotate_token k s old now w)"

definition auth_run :: "auth_deps \<Rightarrow> auth_step list \<Rightarrow> (auth_db, auth_redis, auth_payload) world \<Rightarrow>
    (auth_db, auth_redis, auth_payload) world" where
  "auth_run k ss w = fold (run_auth_step k) ss w"

definition auth_start :: "(nat \<Rightarrow> fate) \<Rightarrow> (nat \<Rightarrow> time) \<Rightarrow> (nat \<Rightarrow> uuid option) \<Rightarrow>
    (auth_db, auth_redis, auth_payload) world" where
  "auth_start f c u = \<lparr>tick = 0, fates = f, clock = c, fresh = u,
     db = \<lparr>accounts = [], auth_sessions = []\<rparr>, outbox = [], next_row = 1,
     ext = \<lparr>failures = Map.empty, revocations = Map.empty\<rparr>\<rparr>"

lemma keeps_found_session [keeps]: "keeps_inv I (found_session r)"
  by (cases r) (simp_all add: found_session_def keeps_fail keeps_ret)

lemma keeps_found_account [keeps]: "keeps_inv I (found_account r)"
  by (cases r) (simp_all add: found_account_def keeps_fail keeps_ret)

lemma keeps_refresh_new [keeps]: "keeps_inv I (refresh_new k)"
  unfolding refresh_new_def by (intro keeps)

lemma keeps_issue [keeps]: "keeps_inv I (issue k a i now)"
  unfolding issue_def by (intro keeps)

lemma keeps_account_by_id [keeps]: "keeps_inv I (account_by_id i)"
  unfolding account_by_id_def by (intro keeps)

lemma keeps_revocation_set [keeps]: "keeps_inv I (revocation_set i ttl)"
  unfolding revocation_set_def by (intro keeps)

lemma keeps_revoke: "keeps_inv auth_inv (revoke k s reason)"
  unfolding revoke_def
proof (intro keeps)
  fix now
  show "keeps_inv auth_inv (case revoke_at s reason now of None \<Rightarrow> ret ()
    | Some s \<Rightarrow> bnd (revoke_tx s) (\<lambda>_. bnd (attempt (revocation_set (se_id s) (access_ttl k))) (\<lambda>_. ret ())))"
  proof (cases "revoke_at s reason now")
    case None
    then show ?thesis by (simp add: keeps_ret)
  next
    case (Some t)
    then have "se_revoked t \<noteq> None" by (auto simp: revoke_at_def split: if_splits)
    then have "keeps_inv auth_inv (revoke_tx t)"
      using commits_revoke_tx revoke_effect_inv by (intro commits_keeps) blast+
    then have "keeps_inv auth_inv (bnd (revoke_tx t)
        (\<lambda>_. bnd (attempt (revocation_set (se_id t) (access_ttl k))) (\<lambda>_. ret ())))"
      by (intro keeps)
    with Some show ?thesis by simp
  qed
qed

lemma keeps_rotate_token: "keeps_inv auth_inv (rotate_token k s old now)"
  unfolding rotate_token_def
proof (intro keeps, clarify)
  fix token hash
  show "keeps_inv auth_inv (case rotate s hash now (session_ttl k) of Inl e \<Rightarrow> fail e
    | Inr s \<Rightarrow> bnd (save_rotation s old) (\<lambda>_. bnd (account_by_id (se_user s)) (\<lambda>acc.
        bnd (issue k acc (se_id s) now) (\<lambda>(access, until).
          ret \<lparr>rs_account = acc, rs_session = se_id s, rs_access = access, rs_access_until = until,
               rs_refresh = token, rs_refresh_until = se_expires s\<rparr>))))"
  proof (cases "rotate s hash now (session_ttl k)")
    case (Inl e)
    then show ?thesis by (simp add: keeps_fail)
  next
    case (Inr t)
    have "keeps_inv auth_inv (bnd (save_rotation t old) (\<lambda>_. bnd (account_by_id (se_user t)) (\<lambda>acc.
        bnd (issue k acc (se_id t) now) (\<lambda>(access, until).
          ret \<lparr>rs_account = acc, rs_session = se_id t, rs_access = access, rs_access_until = until,
               rs_refresh = token, rs_refresh_until = se_expires t\<rparr>))))"
      by (intro keeps_bnd keeps keeps_save_rotation) (auto intro: keeps)
    with Inr show ?thesis by simp
  qed
qed

lemma auth_step_inv:
  "auth_inv (db w) (log w) \<Longrightarrow> auth_inv (db (run_auth_step k st w)) (log (run_auth_step k st w))"
proof -
  assume inv: "auth_inv (db w) (log w)"
  have reg: "keeps_inv auth_inv (register_tx k a agent)" for a agent
    by (rule commits_keeps [OF commits_register_tx register_effect_inv])
  have lg: "keeps_inv auth_inv (login_tx k a agent)" for a agent
    by (rule commits_keeps [OF commits_login_tx login_effect_inv])
  show ?thesis
  proof (cases st)
    case (StepRegister a agent)
    with keeps_invD [OF reg inv, of a agent] show ?thesis by (cases "register_tx k a agent w") auto
  next
    case (StepLogin a agent)
    with keeps_invD [OF lg inv, of a agent] show ?thesis by (cases "login_tx k a agent w") auto
  next
    case (StepRevoke s reason)
    with keeps_invD [OF keeps_revoke inv, of k s reason] show ?thesis by (cases "revoke k s reason w") auto
  next
    case (StepRotate s old now)
    with keeps_invD [OF keeps_rotate_token inv, of k s old now] show ?thesis
      by (cases "rotate_token k s old now w") auto
  qed
qed

lemma auth_run_inv:
  "auth_inv (db w) (log w) \<Longrightarrow> auth_inv (db (auth_run k ss w)) (log (auth_run k ss w))"
  by (induction ss arbitrary: w) (simp_all add: auth_run_def auth_step_inv)

lemma auth_start_inv: "auth_inv (db (auth_start f c u)) (log (auth_start f c u))"
  by (simp add: auth_start_def auth_inv_def auth_ok_def log_def auth_replay_def auth_abs_def)

text \<open>C5: Whatever calls are lost and however requests interleave, the committed auth events,
  replayed in order, tell which users exist with which address, and which sessions exist and
  are not revoked, exactly as the tables do; and addresses, sessions and refresh hashes stay
  unique.\<close>

theorem auth_events_rebuild_state:
  "let w = auth_run k ss (auth_start f c u) in auth_replay (log w) = auth_abs (db w) \<and> auth_ok (db w)"
  using auth_run_inv [OF auth_start_inv, of k ss f c u] by (simp add: auth_inv_def Let_def)

subsection \<open>Refresh tokens are used once\<close>

definition hashes :: "auth_db \<Rightarrow> string set" where
  "hashes d = se_refresh ` set (auth_sessions d)"

text \<open>The action leaves the clock of the environment no earlier and adds only the hashes \<open>H\<close>.\<close>

definition adds :: "string set \<Rightarrow> 'a auth_act \<Rightarrow> bool" where
  "adds H m \<longleftrightarrow> (\<forall>w. tick w \<le> tick (snd (m w)) \<and> hashes (db (snd (m w))) \<subseteq> hashes (db w) \<union> H)"

named_theorems adds_rules

lemma adds_simple [adds_rules]:
  "adds H (ret x)" "adds H (fail e)" "adds H (raise f)" "adds H now_utc" "adds H new_uuid" "adds H (draw g)"
  by (simp_all add: adds_def ret_def fail_def raise_def now_utc_def new_uuid_def draw_def)

lemma adds_stmt:
  "(\<And>d x d1. f d = Inr (x, d1) \<Longrightarrow> hashes d1 \<subseteq> hashes d \<union> H) \<Longrightarrow> adds H (stmt f)"
  by (auto simp: adds_def stmt_def split: fate.splits sum.splits)

lemma adds_query [adds_rules]: "adds H (query f)"
  unfolding query_def by (rule adds_stmt) simp

lemma adds_call [adds_rules]: "adds H (call f)"
  by (auto simp: adds_def call_def split: fate.splits sum.splits)

lemma adds_write_row [adds_rules]: "adds H (write_row m)"
  by (auto simp: adds_def write_row_def Let_def split: fate.splits)

lemma adds_bnd [adds_rules]: "adds H m \<Longrightarrow> (\<And>x. adds H (f x)) \<Longrightarrow> adds H (bnd m f)"
  unfolding adds_def [of H "bnd m f"]
proof
  fix w
  assume m: "adds H m" and f: "\<And>x. adds H (f x)"
  obtain r w1 where run: "m w = (r, w1)" by (cases "m w")
  have "tick w \<le> tick (snd (m w)) \<and> hashes (db (snd (m w))) \<subseteq> hashes (db w) \<union> H"
    using m by (simp add: adds_def)
  then have m1: "tick w \<le> tick w1" "hashes (db w1) \<subseteq> hashes (db w) \<union> H" using run by simp_all
  show "tick w \<le> tick (snd (bnd m f w)) \<and> hashes (db (snd (bnd m f w))) \<subseteq> hashes (db w) \<union> H"
  proof (cases r)
    case (Inr x)
    have "tick w1 \<le> tick (snd (f x w1)) \<and> hashes (db (snd (f x w1))) \<subseteq> hashes (db w1) \<union> H"
      using f [of x] by (simp add: adds_def)
    with m1 run Inr show ?thesis by (auto simp: bnd_def)
  qed (use m1 run in \<open>simp add: bnd_def\<close>)
qed

lemma adds_attempt [adds_rules]: "adds H m \<Longrightarrow> adds H (attempt m)"
  by (simp add: adds_def attempt_def split_beta)

lemma adds_tx [adds_rules]: "adds H m \<Longrightarrow> adds H (in_tx ok m)"
  unfolding adds_def
proof
  fix w
  assume m: "\<forall>w. tick w \<le> tick (snd (m w)) \<and> hashes (db (snd (m w))) \<subseteq> hashes (db w) \<union> H"
  obtain r w1 where run: "m (advance w) = (r, w1)" by (cases "m (advance w)")
  have "tick (advance w) \<le> tick w1 \<and> hashes (db w1) \<subseteq> hashes (db (advance w)) \<union> H"
    using spec [OF m, of "advance w"] run by simp
  then show "tick w \<le> tick (snd (in_tx ok m w)) \<and> hashes (db (snd (in_tx ok m w))) \<subseteq> hashes (db w) \<union> H"
    by (auto simp: in_tx_def run split: sum.splits)
qed

lemma adds_write_rows [adds_rules]: "adds H (write_rows ms :: unit auth_act)"
  by (induction ms) (auto intro: adds_rules)

lemma adds_new_envelope [adds_rules]: "adds H (new_envelope t v p at x)"
  unfolding new_envelope_def by (intro adds_rules)

lemma adds_to_contract [adds_rules]: "adds H (to_contract ev)"
  by (cases ev) (auto simp: to_contract_def split: option.splits intro!: adds_rules)

lemma adds_auth_messages [adds_rules]: "adds H (auth_messages evs)"
  by (induction evs) (auto intro!: adds_rules split: prod.splits)

lemma adds_record [adds_rules]: "adds H (record_events evs)"
  unfolding record_events_def by (intro adds_rules)

lemma adds_accounts_create [adds_rules]: "adds H (accounts_create k a)"
  unfolding accounts_create_def by (rule adds_stmt) (auto simp: hashes_def split: if_splits)

lemma adds_sessions_create: "se_refresh s \<in> H \<Longrightarrow> adds H (sessions_create s)"
  unfolding sessions_create_def by (rule adds_stmt) (auto simp: hashes_def split: if_splits)

lemma adds_save_rotation: "se_refresh s \<in> H \<Longrightarrow> adds H (save_rotation s old)"
  unfolding save_rotation_def
  by (rule adds_stmt) (auto simp: hashes_def Let_def set_update_rows split: if_splits)

lemma adds_save_revocation [adds_rules]: "adds H (save_revocation s)"
  unfolding save_revocation_def
  by (rule adds_stmt) (auto simp: hashes_def set_update_rows split: if_splits)

lemma adds_found [adds_rules]: "adds H (found_account r)" "adds H (found_session q)"
  by (cases r; cases q; simp add: found_account_def found_session_def adds_rules)+

lemma adds_issue [adds_rules]: "adds H (issue k a i now)"
  unfolding issue_def by (intro adds_rules)

lemma adds_account_by_id [adds_rules]: "adds H (account_by_id i)"
  unfolding account_by_id_def by (intro adds_rules)

lemma adds_revocation_set [adds_rules]: "adds H (revocation_set i ttl)"
  unfolding revocation_set_def by (intro adds_rules)

text \<open>New hashes come from tokens drawn at ticks of the action's own.\<close>

definition token_hash_at :: "auth_deps \<Rightarrow> nat \<Rightarrow> string \<Rightarrow> bool" where
  "token_hash_at k n h \<longleftrightarrow> (\<exists>t. random_token k n = Some t \<and> h = sha256 k t)"

definition mints :: "auth_deps \<Rightarrow> 'a auth_act \<Rightarrow> bool" where
  "mints k m \<longleftrightarrow> (\<forall>w. tick w \<le> tick (snd (m w)) \<and>
     (\<forall>h \<in> hashes (db (snd (m w))) - hashes (db w). \<exists>n. tick w \<le> n \<and> n < tick (snd (m w)) \<and> token_hash_at k n h))"

lemma mintsD:
  assumes "mints k m" "m w = (r, w1)"
  shows "tick w \<le> tick w1"
    and "h \<in> hashes (db w1) \<Longrightarrow> h \<notin> hashes (db w) \<Longrightarrow> \<exists>n. tick w \<le> n \<and> n < tick w1 \<and> token_hash_at k n h"
proof -
  have "tick w \<le> tick (snd (m w)) \<and>
     (\<forall>h \<in> hashes (db (snd (m w))) - hashes (db w). \<exists>n. tick w \<le> n \<and> n < tick (snd (m w)) \<and> token_hash_at k n h)"
    using assms(1) by (simp add: mints_def)
  then show "tick w \<le> tick w1"
    and "h \<in> hashes (db w1) \<Longrightarrow> h \<notin> hashes (db w) \<Longrightarrow> \<exists>n. tick w \<le> n \<and> n < tick w1 \<and> token_hash_at k n h"
    using assms(2) by auto
qed

lemma mints_adds: "adds {} m \<Longrightarrow> mints k m"
  by (auto simp: adds_def mints_def)

lemma mints_bnd: "mints k m \<Longrightarrow> (\<And>x. mints k (f x)) \<Longrightarrow> mints k (bnd m f)"
  unfolding mints_def [of k "bnd m f"]
proof
  fix w
  assume m: "mints k m" and f: "\<And>x. mints k (f x)"
  obtain r w1 where run: "m w = (r, w1)" by (cases "m w")
  show "tick w \<le> tick (snd (bnd m f w)) \<and> (\<forall>h \<in> hashes (db (snd (bnd m f w))) - hashes (db w).
      \<exists>n. tick w \<le> n \<and> n < tick (snd (bnd m f w)) \<and> token_hash_at k n h)"
  proof (cases r)
    case (Inl e)
    then show ?thesis using mintsD [OF m run] run by (simp add: bnd_def)
  next
    case (Inr x)
    obtain q w2 where run2: "f x w1 = (q, w2)" by (cases "f x w1")
    note t1 = mintsD(1) [OF m run] and t2 = mintsD(1) [OF f run2]
    have "\<exists>n. tick w \<le> n \<and> n < tick w2 \<and> token_hash_at k n h" if "h \<in> hashes (db w2)" "h \<notin> hashes (db w)" for h
    proof (cases "h \<in> hashes (db w1)")
      case True
      then show ?thesis using mintsD(2) [OF m run _ that(2)] t2 by (meson less_le_trans)
    next
      case False
      then show ?thesis using mintsD(2) [OF f run2 that(1)] t1 by (meson le_trans)
    qed
    then show ?thesis using run Inr run2 t1 t2 by (simp add: bnd_def)
  qed
qed

lemma mints_attempt: "mints k m \<Longrightarrow> mints k (attempt m)"
  by (simp add: mints_def attempt_def split_beta)

lemma mints_tx: "mints k m \<Longrightarrow> mints k (in_tx ok m)"
  unfolding mints_def [of k "in_tx ok m"]
proof
  fix w
  assume m: "mints k m"
  obtain r w1 where run: "m (advance w) = (r, w1)" by (cases "m (advance w)")
  have t: "Suc (tick w) \<le> tick w1" using mintsD(1) [OF m run] by simp
  have n: "\<exists>n. tick w \<le> n \<and> n < tick w1 \<and> token_hash_at k n h" if "h \<in> hashes (db w1)" "h \<notin> hashes (db w)" for h
    using mintsD(2) [OF m run that(1)] that(2) by (auto dest: Suc_leD)
  then have "\<exists>n. tick w \<le> n \<and> n < Suc (tick w1) \<and> token_hash_at k n h" if "h \<in> hashes (db w1)" "h \<notin> hashes (db w)" for h
    using that less_SucI by blast
  then show "tick w \<le> tick (snd (in_tx ok m w)) \<and> (\<forall>h \<in> hashes (db (snd (in_tx ok m w))) - hashes (db w).
      \<exists>n. tick w \<le> n \<and> n < tick (snd (in_tx ok m w)) \<and> token_hash_at k n h)"
    using t n by (auto simp: in_tx_def run split: sum.splits)
qed

lemma mints_token:
  assumes "\<And>t. adds {sha256 k t} (f (t, sha256 k t))"
  shows "mints k (bnd (refresh_new k) f)"
  unfolding mints_def
proof
  fix w
  show "tick w \<le> tick (snd (bnd (refresh_new k) f w)) \<and> (\<forall>h \<in> hashes (db (snd (bnd (refresh_new k) f w))) - hashes (db w).
      \<exists>n. tick w \<le> n \<and> n < tick (snd (bnd (refresh_new k) f w)) \<and> token_hash_at k n h)"
  proof (cases "random_token k (tick w)")
    case None
    then show ?thesis by (simp add: bnd_def refresh_new_def draw_def)
  next
    case (Some t)
    have run: "bnd (refresh_new k) f w = f (t, sha256 k t) (advance w)"
      using Some by (simp add: bnd_def refresh_new_def draw_def ret_def)
    have f: "Suc (tick w) \<le> tick (snd (f (t, sha256 k t) (advance w))) \<and>
        hashes (db (snd (f (t, sha256 k t) (advance w)))) \<subseteq> hashes (db w) \<union> {sha256 k t}"
      using assms [of t] unfolding adds_def by (drule_tac spec [of _ "advance w"]) simp
    have "token_hash_at k (tick w) (sha256 k t)" using Some by (auto simp: token_hash_at_def)
    then show ?thesis using f unfolding run by (auto intro!: exI [of _ "tick w"])
  qed
qed

lemma mints_start_session: "mints k (start_session k acc agent)"
  unfolding start_session_def
proof (rule mints_bnd)
  show "mints k now_utc" by (intro mints_adds adds_rules)
  fix now
  show "mints k (bnd (refresh_new k) (\<lambda>(token, hash). bnd new_uuid (\<lambda>i.
       let sess = new_session i (ac_id acc) hash agent now (session_ttl k) in
       bnd (sessions_create sess) (\<lambda>_. bnd (issue k acc i now) (\<lambda>(access, until).
         ret (\<lparr>rs_account = acc, rs_session = i, rs_access = access, rs_access_until = until,
               rs_refresh = token, rs_refresh_until = se_expires sess\<rparr>, sess))))))"
    by (rule mints_token)
      (auto simp: Let_def new_session_def split: prod.splits intro!: adds_rules adds_sessions_create)
qed

lemma mints_register_tx: "mints k (register_tx k acc agent)"
  unfolding register_tx_def auth_tx_def
  by (rule mints_tx, rule mints_bnd, intro mints_adds adds_rules, rule mints_bnd, rule mints_start_session)
    (auto split: prod.splits intro!: mints_adds adds_rules)

lemma mints_login_tx: "mints k (login_tx k acc agent)"
  unfolding login_tx_def auth_tx_def
  by (rule mints_tx, rule mints_bnd, rule mints_start_session)
    (auto split: prod.splits intro!: mints_adds adds_rules)

lemma mints_revoke: "mints k (revoke k s reason)"
  unfolding revoke_def revoke_tx_def auth_tx_def
  by (rule mints_adds) (auto intro!: adds_rules split: option.splits)

lemma mints_rotate_token: "mints k (rotate_token k s old now)"
  unfolding rotate_token_def
proof (rule mints_token)
  fix t
  show "adds {sha256 k t} (case (t, sha256 k t) of (token, hash) \<Rightarrow>
       case rotate s hash now (session_ttl k) of
         Inl e \<Rightarrow> fail e
       | Inr s \<Rightarrow>
           bnd (save_rotation s old) (\<lambda>_. bnd (account_by_id (se_user s)) (\<lambda>acc.
           bnd (issue k acc (se_id s) now) (\<lambda>(access, until).
             ret \<lparr>rs_account = acc, rs_session = se_id s, rs_access = access, rs_access_until = until,
                  rs_refresh = token, rs_refresh_until = se_expires s\<rparr>))))"
    by (auto simp: rotate_def intro!: adds_rules adds_save_rotation split: sum.splits prod.splits if_splits)
qed

lemma mints_step: "tick w \<le> tick (run_auth_step k st w)"
  "h \<in> hashes (db (run_auth_step k st w)) \<Longrightarrow> h \<notin> hashes (db w) \<Longrightarrow>
     \<exists>n. tick w \<le> n \<and> n < tick (run_auth_step k st w) \<and> token_hash_at k n h"
  using mintsD [OF mints_register_tx, of k _ _ w] mintsD [OF mints_login_tx, of k _ _ w]
    mintsD [OF mints_revoke, of k _ _ w] mintsD [OF mints_rotate_token, of k _ _ _ w]
  by (cases st; simp; metis prod.collapse)+

text \<open>Every hash in the table or used before was drawn at an earlier tick, and no used one is back.\<close>

definition tokens_ok :: "auth_deps \<Rightarrow> string set \<Rightarrow> (auth_db, auth_redis, auth_payload) world \<Rightarrow> bool" where
  "tokens_ok k used w \<longleftrightarrow> auth_ok (db w) \<and> used \<inter> hashes (db w) = {} \<and>
     (\<forall>h \<in> used \<union> hashes (db w). \<exists>n < tick w. token_hash_at k n h)"

text \<open>The random source does not repeat itself and SHA-256 does not collide on its tokens.\<close>

definition fresh_tokens :: "auth_deps \<Rightarrow> bool" where
  "fresh_tokens k \<longleftrightarrow> (\<forall>m n h. token_hash_at k m h \<and> token_hash_at k n h \<longrightarrow> m = n)"

lemma tokens_ok_grow:
  assumes fr: "fresh_tokens k" and ok: "tokens_ok k used w" and t: "tick w \<le> tick w1" and ok1: "auth_ok (db w1)"
    and new: "\<And>h. h \<in> hashes (db w1) \<Longrightarrow> h \<notin> hashes (db w) \<Longrightarrow> \<exists>n. tick w \<le> n \<and> n < tick w1 \<and> token_hash_at k n h"
  shows "tokens_ok k (used \<union> (hashes (db w) - hashes (db w1))) w1"
proof -
  have old: "\<exists>n < tick w. token_hash_at k n h" if "h \<in> used \<union> hashes (db w)" for h
    using ok that by (simp add: tokens_ok_def)
  have "h \<notin> hashes (db w1)" if "h \<in> used" for h
  proof
    assume h: "h \<in> hashes (db w1)"
    have "h \<notin> hashes (db w)" using ok that by (auto simp: tokens_ok_def)
    then obtain n where "tick w \<le> n" "token_hash_at k n h" using new [OF h] by blast
    moreover obtain m where "m < tick w" "token_hash_at k m h" using old [of h] \<open>h \<in> used\<close> by blast
    ultimately have "m = n" using fr unfolding fresh_tokens_def by blast
    with \<open>tick w \<le> n\<close> \<open>m < tick w\<close> show False by simp
  qed
  moreover have "\<exists>n < tick w1. token_hash_at k n h" if "h \<in> used \<union> hashes (db w) \<union> hashes (db w1)" for h
    using that old [of h] new [of h] t by (meson UnE UnI1 UnI2 less_le_trans)
  ultimately show ?thesis using ok1 by (auto simp: tokens_ok_def)
qed

lemma tokens_ok_mints:
  assumes "fresh_tokens k" "tokens_ok k used w" "mints k m" "m w = (r, w1)" "auth_ok (db w1)"
  shows "tokens_ok k (used \<union> (hashes (db w) - hashes (db w1))) w1"
  using tokens_ok_grow [OF assms(1,2) mintsD(1) [OF assms(3,4)] assms(5)] mintsD(2) [OF assms(3,4)] by blast

lemma save_rotation_Inr:
  "save_rotation s old w = (Inr u, w1) \<Longrightarrow> old \<in> hashes (db w) \<and> length (se_refresh s) = 32 \<and>
     \<not> list_ex (\<lambda>r. se_refresh r = se_refresh s \<and> \<not> rotation_hit s old r) (auth_sessions (db w)) \<and>
     list_ex (rotation_hit s old) (auth_sessions (db w)) \<and> log w1 = log w \<and>
     db w1 = (db w)\<lparr>auth_sessions := update_rows (rotation_hit s old) (rotation_row s old) (auth_sessions (db w))\<rparr>"
  by (auto simp: save_rotation_def act_inv Let_def rotation_hit_def [abs_def] hashes_def affected_pos_iff
      list_ex_iff split: if_splits)

lemma found_account_Inr [act_inv]: "found_account q w = (Inr a, w1) \<longleftrightarrow> q = Some a \<and> w1 = w"
  by (cases q) (auto simp: found_account_def act_inv)

lemma found_session_Inr [act_inv]: "found_session q w = (Inr a, w1) \<longleftrightarrow> q = Some a \<and> w1 = w"
  by (cases q) (auto simp: found_session_def act_inv)

lemma rotate_token_Inr:
  assumes "rotate_token k sess old now w = (Inr res, w1)"
  shows "\<exists>s w2. rotate sess (sha256 k (rs_refresh res)) now (session_ttl k) = Inr s \<and>
     token_hash_at k (tick w) (sha256 k (rs_refresh res)) \<and>
     save_rotation s old (advance w) = (Inr (), w2) \<and> db w1 = db w2 \<and> log w1 = log w2 \<and>
     rs_session res = se_id s \<and> rs_refresh_until res = se_expires s \<and>
     row_with ac_id (se_user s) (accounts (db w2)) = Some (rs_account res)"
proof -
  obtain t w2 where t: "random_token k (tick w) = Some t"
      "(case rotate sess (sha256 k t) now (session_ttl k) of
         Inl e \<Rightarrow> fail e
       | Inr s \<Rightarrow>
           bnd (save_rotation s old) (\<lambda>_. bnd (account_by_id (se_user s)) (\<lambda>acc.
           bnd (issue k acc (se_id s) now) (\<lambda>(access, until).
             ret \<lparr>rs_account = acc, rs_session = se_id s, rs_access = access, rs_access_until = until,
                  rs_refresh = t, rs_refresh_until = se_expires s\<rparr>)))) (advance w) = (Inr res, w1)"
    using assms unfolding rotate_token_def refresh_new_def by (auto simp: bnd_Inr draw_Inr ret_Inr)
  show ?thesis
  proof (cases "rotate sess (sha256 k t) now (session_ttl k)")
    case (Inl e)
    with t show ?thesis by (simp add: act_inv)
  next
    case (Inr s)
    with t show ?thesis
      by (auto simp: issue_def account_by_id_def act_inv token_hash_at_def)
  qed
qed

lemma rotation_spends:
  assumes ok: "auth_ok (db w)" and run: "rotate_token k sess old now w = (Inr res, w1)"
    and fr: "sha256 k (rs_refresh res) \<notin> hashes (db w)"
  shows "old \<in> hashes (db w)" "old \<notin> hashes (db w1)"
proof -
  obtain s w2 where s: "rotate sess (sha256 k (rs_refresh res)) now (session_ttl k) = Inr s"
      "save_rotation s old (advance w) = (Inr (), w2)" "db w1 = db w2"
    using rotate_token_Inr [OF run] by blast
  have new: "se_refresh s = sha256 k (rs_refresh res)" using s(1) by (auto simp: rotate_def split: if_splits)
  note sv = save_rotation_Inr [OF s(2)]
  then show "old \<in> hashes (db w)" by simp
  have d1: "auth_sessions (db w1) = update_rows (rotation_hit s old) (rotation_row s old) (auth_sessions (db w))"
    using sv s(3) by simp
  obtain q where q: "q \<in> set (auth_sessions (db w))" "rotation_hit s old q"
    using sv by (auto simp: list_ex_iff)
  have unique: "r = q" if "r \<in> set (auth_sessions (db w))" "se_refresh r = old" for r
  proof -
    have "inj_on se_refresh (set (auth_sessions (db w)))"
      using ok by (simp add: auth_ok_def unique_on_def distinct_map)
    then show ?thesis using q that by (auto simp: rotation_hit_def dest: inj_onD)
  qed
  show "old \<notin> hashes (db w1)"
  proof
    assume "old \<in> hashes (db w1)"
    then obtain r where r: "r \<in> set (auth_sessions (db w))"
        "old = se_refresh (if rotation_hit s old r then rotation_row s old r else r)"
      unfolding hashes_def d1 set_update_rows by auto
    show False
    proof (cases "rotation_hit s old r")
      case True
      then have "old = sha256 k (rs_refresh res)" using r(2) new by simp
      with fr sv show False by simp
    next
      case False
      then have "r = q" using unique r by simp
      with False q(2) show False by simp
    qed
  qed
qed

lemma run_tokens_ok:
  assumes fr: "fresh_tokens k"
  shows "tokens_ok k used w \<Longrightarrow> auth_inv (db w) (log w) \<Longrightarrow>
    \<exists>more. tokens_ok k (used \<union> more) (auth_run k ss w)"
proof (induction ss arbitrary: used w)
  case Nil
  then show ?case by (auto simp: auth_run_def intro: exI [of _ "{}"])
next
  case (Cons st ss)
  let ?w = "run_auth_step k st w"
  have inv: "auth_inv (db ?w) (log ?w)" using Cons.prems(2) by (rule auth_step_inv)
  then have "auth_ok (db ?w)" by (simp add: auth_inv_def)
  then have "tokens_ok k (used \<union> (hashes (db w) - hashes (db ?w))) ?w"
    by (rule tokens_ok_grow [OF fr Cons.prems(1) mints_step(1)]) (rule mints_step(2))
  from Cons.IH [OF this inv] show ?case by (auto simp: auth_run_def Un_assoc)
qed

lemma start_tokens_ok: "tokens_ok k {} (auth_start f c u)"
  by (simp add: tokens_ok_def auth_start_def auth_ok_def hashes_def)

lemma refresh_needs_hash:
  assumes "refresh k token w = (Inr res, w1)"
  shows "sha256 k token \<in> hashes (db w)"
proof -
  have "\<exists>sess. row_with se_refresh (sha256 k token) (auth_sessions (db w)) = Some sess"
  proof (rule ccontr)
    assume "\<not> ?thesis"
    then have none: "row_with se_refresh (sha256 k token) (auth_sessions (db w)) = None" by simp
    from assms show False
      by (auto simp: refresh_def reuse_check_def by_refresh_hash_def act_inv Let_def bnd_def query_def stmt_def
          attempt_def now_utc_def found_session_def none fail_def raise_def
          split: if_splits fate.splits sum.splits prod.splits)
  qed
  then show ?thesis by (force simp: hashes_def dest!: row_with_SomeD)
qed

text \<open>C6: A refresh token works once. After a rotation that used it has succeeded, no refresh and
  no rotation with it succeeds, however requests were interleaved before and go on after it:
  of concurrent refreshes with one token at most one wins.\<close>

theorem refresh_token_works_once:
  assumes fr: "fresh_tokens k" and "w = auth_run k ss (auth_start f c u)"
    and won: "rotate_token k sess (sha256 k token) now w = (Inr res, w1)"
    and "w2 = auth_run k later w1"
  shows "fst (refresh k token w2) \<noteq> Inr res2 \<and> fst (rotate_token k sess2 (sha256 k token) now2 w2) \<noteq> Inr res3"
proof -
  let ?old = "sha256 k token"
  have inv: "auth_inv (db w) (log w)" using assms(2) auth_run_inv [OF auth_start_inv] by simp
  then have ok: "auth_ok (db w)" by (simp add: auth_inv_def)
  obtain used where used: "tokens_ok k used w"
    using run_tokens_ok [OF fr start_tokens_ok auth_start_inv, of ss f c u] unfolding assms(2) by blast
  have inv1: "auth_inv (db w1) (log w1)" using keeps_invD [OF keeps_rotate_token inv won] .
  then have ok1: "auth_ok (db w1)" by (simp add: auth_inv_def)
  have "token_hash_at k (tick w) (sha256 k (rs_refresh res))" using rotate_token_Inr [OF won] by blast
  then have "sha256 k (rs_refresh res) \<notin> hashes (db w)"
    using used fr unfolding tokens_ok_def fresh_tokens_def by (metis UnI2 less_irrefl_nat)
  note spent = rotation_spends [OF ok won this]
  have "tokens_ok k (used \<union> (hashes (db w) - hashes (db w1))) w1"
    by (rule tokens_ok_mints [OF fr used mints_rotate_token won ok1])
  then obtain more where "tokens_ok k (used \<union> (hashes (db w) - hashes (db w1)) \<union> more) w2"
    using run_tokens_ok [OF fr _ inv1] assms(4) by blast
  then have gone: "?old \<notin> hashes (db w2)" using spent by (auto simp: tokens_ok_def)
  have ok2: "auth_ok (db w2)" using auth_run_inv [OF inv1, of k later] assms(4) by (simp add: auth_inv_def)
  have "fst (refresh k token w2) \<noteq> Inr res2"
    using refresh_needs_hash [of k token w2 res2] gone by (metis prod.collapse)
  moreover have "fst (rotate_token k sess2 ?old now2 w2) \<noteq> Inr res3"
  proof
    assume "fst (rotate_token k sess2 ?old now2 w2) = Inr res3"
    then obtain w3 where "rotate_token k sess2 ?old now2 w2 = (Inr res3, w3)" by (metis prod.collapse)
    from rotate_token_Inr [OF this] obtain s w4 where "save_rotation s ?old (advance w2) = (Inr (), w4)" by blast
    from save_rotation_Inr [OF this] gone show False by simp
  qed
  ultimately show ?thesis by blast
qed

subsection \<open>Revocation\<close>

lemma row_with_update_Some:
  "row_with key i rs = Some r \<Longrightarrow> (\<And>r. key (f r) = key r) \<Longrightarrow>
     row_with key i (update_rows p f rs) = Some (if p r then f r else r)"
  by (induction rs) (auto simp: row_with_def update_rows_def)

lemma row_with_append_Some: "row_with key i rs = Some r \<Longrightarrow> row_with key i (rs @ [q]) = Some r"
  by (simp add: row_with_append)

definition frozen :: "auth_session \<Rightarrow> auth_db \<Rightarrow> auth_payload message list \<Rightarrow> bool" where
  "frozen s d l \<longleftrightarrow> row_with se_id (se_id s) (auth_sessions d) = Some s"

lemma frozen_session_effect: "session_effect k acc res d d1 s \<Longrightarrow> frozen q d l \<Longrightarrow> frozen q d1 l1"
  by (auto simp: session_effect_def frozen_def row_with_append_Some)

lemma keeps_frozen_revoke:
  assumes "se_revoked q \<noteq> None"
  shows "keeps_inv (frozen q) (revoke k s reason)"
proof -
  have tx: "keeps_inv (frozen q) (revoke_tx t)" for t
  proof (rule commits_keeps [OF commits_revoke_tx])
    fix x d l d1 l1
    assume "revoke_effect t x d l d1 l1" "frozen q d l"
    then show "frozen q d1 l1"
      using assms
      by (auto simp: revoke_effect_def frozen_def revoked_rows_def row_with_update_Some)
  qed
  show ?thesis
    unfolding revoke_def by (intro keeps) (auto intro!: keeps tx split: option.split)
qed

lemma keeps_frozen_rotate:
  assumes "se_revoked q \<noteq> None"
  shows "keeps_inv (frozen q) (rotate_token k s old now)"
proof -
  have sv: "keeps_inv (frozen q) (save_rotation t old)" for t
    unfolding save_rotation_def
  proof (rule keeps_stmt)
    fix d l x d1
    assume "frozen q d l" "(let hit = \<lambda>r. se_id r = se_id t \<and> se_refresh r = old \<and> se_revoked r = None
     in if affected hit (auth_sessions d) = 0 then Inl (Domain ConcurrentUpdate)
        else if length (se_refresh t) \<noteq> 32 \<or> length old \<noteq> 32 \<or>
          list_ex (\<lambda>r. se_refresh r = se_refresh t \<and> \<not> hit r) (auth_sessions d) then Inl Infra
        else Inr ((), d\<lparr>auth_sessions := update_rows hit (rotation_row t old) (auth_sessions d)\<rparr>)) = Inr (x, d1)"
    then show "frozen q d1 l"
      using assms by (auto simp: Let_def frozen_def row_with_update_Some split: if_splits)
  qed
  show ?thesis
    unfolding rotate_token_def
    by (intro keeps) (auto simp: rotate_def intro!: keeps_bnd sv keeps split: prod.splits sum.splits)
qed

lemma frozen_step:
  assumes "se_revoked q \<noteq> None" "frozen q (db w) l"
  shows "frozen q (db (run_auth_step k st w)) l1"
proof -
  have any: "frozen q d l \<longleftrightarrow> frozen q d l1" for d l l1 by (simp add: frozen_def)
  have fr: "frozen q (db w) (log w)" using assms(2) any by blast
  have reg: "keeps_inv (frozen q) (register_tx k a agent)" for a agent
  proof (rule commits_keeps [OF commits_register_tx])
    fix x d l d1 l1
    assume "register_effect k a x d l d1 l1" "frozen q d l"
    then obtain s where "session_effect k a x (d\<lparr>accounts := accounts d @ [stored_account a]\<rparr>) d1 s"
      by (auto simp: register_effect_def)
    moreover have "frozen q (d\<lparr>accounts := accounts d @ [stored_account a]\<rparr>) l"
      using \<open>frozen q d l\<close> by (simp add: frozen_def)
    ultimately show "frozen q d1 l1" by (rule frozen_session_effect)
  qed
  have lg: "keeps_inv (frozen q) (login_tx k a agent)" for a agent
    by (rule commits_keeps [OF commits_login_tx]) (auto simp: login_effect_def frozen_session_effect)
  show ?thesis
  proof (cases st)
    case (StepRegister a agent)
    with keeps_invD [OF reg fr, of a agent] any show ?thesis by (cases "register_tx k a agent w") auto
  next
    case (StepLogin a agent)
    with keeps_invD [OF lg fr, of a agent] any show ?thesis by (cases "login_tx k a agent w") auto
  next
    case (StepRevoke s reason)
    with keeps_invD [OF keeps_frozen_revoke [OF assms(1)] fr, of k s reason] any show ?thesis
      by (cases "revoke k s reason w") auto
  next
    case (StepRotate s old now)
    with keeps_invD [OF keeps_frozen_rotate [OF assms(1)] fr, of k s old now] any show ?thesis
      by (cases "rotate_token k s old now w") auto
  qed
qed

lemma frozen_run: "se_revoked q \<noteq> None \<Longrightarrow> frozen q (db w) l \<Longrightarrow> frozen q (db (auth_run k ss w)) l1"
  by (induction ss arbitrary: w l) (auto simp: auth_run_def frozen_step, simp add: frozen_def)

lemma refresh_inactive:
  assumes "row_with se_refresh (sha256 k token) (auth_sessions (db w)) = Some s" "se_revoked s \<noteq> None"
  shows "fst (refresh k token w) \<noteq> Inr res"
proof
  assume "fst (refresh k token w) = Inr res"
  then obtain w1 where run: "refresh k token w = (Inr res, w1)" by (metis prod.collapse)
  have "\<not> session_active s now" for now using assms(2) by (simp add: session_active_def)
  with run assms(1) show False
    by (auto simp: refresh_def by_refresh_hash_def act_inv Let_def bnd_def query_def stmt_def
          attempt_def now_utc_def found_session_def fail_def raise_def ret_def
          split: if_splits fate.splits)
qed

text \<open>A revocation is final: whatever requests follow, the session keeps its row as it was
  revoked, with the moment and the reason of the first revocation, and no refresh with its
  token succeeds.\<close>

theorem revocation_is_final:
  assumes inv: "auth_inv (db w) (log w)" and row: "row_with se_id i (auth_sessions (db w)) = Some s"
    and revoked: "se_revoked s \<noteq> None"
  shows "row_with se_id i (auth_sessions (db (auth_run k ss w))) = Some s \<and>
     (se_refresh s = sha256 k token \<longrightarrow> fst (refresh k token (auth_run k ss w)) \<noteq> Inr res)"
proof -
  let ?w = "auth_run k ss w"
  have i: "se_id s = i" using row_with_SomeD [OF row] by simp
  have "frozen s (db w) []" using row i by (simp add: frozen_def)
  from frozen_run [OF revoked this, of k ss "[]"]
  have row1: "row_with se_id i (auth_sessions (db ?w)) = Some s" by (simp add: frozen_def i)
  have "unique_on se_refresh (auth_sessions (db ?w))"
    using auth_run_inv [OF inv, of k ss] by (simp add: auth_inv_def auth_ok_def)
  then have "row_with se_refresh (se_refresh s) (auth_sessions (db ?w)) = Some s"
    using row_with_SomeD [OF row1] by (intro unique_on_row_with) simp_all
  with refresh_inactive [of k token ?w s res] revoked row1 show ?thesis by auto
qed

text \<open>Reuse of a refresh token ends the session: where the calls are served, presenting the
  token that was rotated out last is answered with the reuse error, and the session is then
  revoked for that reason in the table and in the revocation cache.\<close>

theorem reuse_revokes_session:
  assumes fine: "\<forall>n. fates w n = Fine" and fresh: "\<forall>n. fresh w n \<noteq> None" and token: "token \<noteq> ''''"
    and gone: "\<not> has_row se_refresh (sha256 k token) (auth_sessions (db w))"
    and prev: "row_with se_previous (Some (sha256 k token)) (auth_sessions (db w)) = Some s"
    and live: "se_revoked s = None" and unique: "unique_on se_id (auth_sessions (db w))"
  shows "\<exists>w1 t until. refresh k token w = (Inl (Domain RefreshReuse), w1) \<and>
     row_with se_id (se_id s) (auth_sessions (db w1)) =
       Some (s\<lparr>se_revoked := Some t, se_reason := ''token_reuse''\<rparr>) \<and>
     revocations (ext w1) (se_id s) = Some until"
proof -
  obtain g where g: "\<And>n. fresh w n = Some (g n)"
    using fresh that [of "\<lambda>n. the (fresh w n)"] by simp
  have none: "row_with se_refresh (sha256 k token) (auth_sessions (db w)) = None"
    using gone by (simp add: has_row_row_with)
  have row: "row_with se_id (se_id s) (auth_sessions (db w)) = Some s"
    using unique row_with_SomeD [OF prev] by (simp add: unique_on_row_with)
  show ?thesis
    using fine token live row_with_update_Some [OF row]
    by (simp add: refresh_def reuse_check_def by_refresh_hash_def by_previous_hash_def found_session_def
        revoke_def revoke_at_def revoke_tx_def auth_tx_def in_tx_def save_revocation_def record_events_def
        to_contract_def new_envelope_def new_uuid_def write_row_def revocation_set_def call_def
        bnd_def query_def stmt_def attempt_def now_utc_def fail_def ret_def none prev g Let_def) blast
qed

subsection \<open>Access tokens of a revoked session\<close>

text \<open>While its entry in the revocation cache lives, every access token of the session is
  refused by every verifier that can read the cache; and once the lifetime of an access token
  and the leeway have passed since the last token was issued, they are refused as expired.\<close>

theorem revoked_tokens_refused:
  assumes "parse raw = Some (issue_claims k a sid issued)" "revocations x sid = Some until"
    and "now < until \<or> issued + access_ttl k + leeway \<le> now"
  shows "\<exists>e. verify_token parse (\<lambda>i t. Some (is_revoked i t x)) raw now = Inl e"
proof -
  have "time_truncate second (issued + access_ttl k) \<le> issued + access_ttl k"
    by (rule time_truncate_le) simp
  with assms show ?thesis
    by (auto simp: verify_token_def issue_claims_def is_revoked_def times_ok_def)
qed


subsection \<open>Signing in\<close>

lemma reads_found_account [reads]: "reads_only (found_account r)"
  by (cases r) (simp_all add: found_account_def reads_fail reads_ret)

lemma reads_throttle [reads]: "reads_only (throttle_allow k e)" "reads_only (throttle_failed k e)"
  "reads_only (throttle_reset k e)"
  unfolding throttle_allow_def throttle_failed_def throttle_reset_def Let_def by (rule reads_bnd, rule reads_now, rule reads_call)+

lemma reads_check_password [reads]: "reads_only (check_password k e p)"
  unfolding check_password_def account_by_email_def
  by (intro reads) (auto split: sum.splits option.splits intro!: reads)

lemma reads_tries: "reads_only (attempt (throttle_allow k e))" "reads_only (attempt (throttle_reset k e))"
  by (rule reads_attempt, rule reads_throttle)+

lemma check_password_Inr:
  assumes "check_password k email password w = (Inr a, w1)"
  shows "row_with ac_email email (accounts (db w)) = Some a \<and> verify_password k password (ac_hash a) = Some True"
proof -
  obtain r w2 where r: "account_by_email email w = (r, w2)" by (cases "account_by_email email w")
  show ?thesis
  proof (cases "known_account r")
    case (Inl e)
    with assms r show ?thesis by (simp add: check_password_def bnd_def attempt_def raise_def)
  next
    case (Inr acc)
    show ?thesis
    proof (cases acc)
      case None
      with assms r Inr show ?thesis by (auto simp: check_password_def act_inv bnd_def attempt_def split: prod.splits sum.splits)
    next
      case (Some b)
      then have rb: "r = Inr b" using Inr by (auto simp: known_account_def split: sum.splits if_splits)
      have row: "row_with ac_email email (accounts (db w)) = Some b"
        using r unfolding rb account_by_email_def by (simp add: act_inv)
      have "(bnd (draw (\<lambda>_. verify_password k password (ac_hash b)))
          (\<lambda>match. if match then ret b else bnd (attempt (throttle_failed k email)) (\<lambda>_. fail InvalidCredentials))) w2 = (Inr a, w1)"
        using assms r Inr Some by (simp add: check_password_def bnd_def [of "attempt (account_by_email email)"] attempt_def)
      then have "verify_password k password (ac_hash b) = Some True \<and> a = b"
        by (auto simp: act_inv split: if_splits)
      with row show ?thesis by simp
    qed
  qed
qed

text \<open>Nobody signs in without the password: a sign-in that succeeds verified the password
  against the stored hash of the account with the normalized address, and the one committed
  effect is a new session of that account under the hash of the returned refresh token,
  announced by one event.\<close>

theorem login_needs_password:
  assumes "login k email password agent w = (Inr res, w1)"
  shows "\<exists>a s m. row_with ac_email (normalize_email k email) (accounts (db w)) = Some a \<and>
     verify_password k password (ac_hash a) = Some True \<and> rs_account res = a \<and>
     db w1 = (db w)\<lparr>auth_sessions := auth_sessions (db w) @ [s]\<rparr> \<and> se_user s = ac_id a \<and>
     se_refresh s = sha256 k (rs_refresh res) \<and> se_id s = rs_session res \<and>
     log w1 = log w @ [m] \<and> (\<exists>at. env_payload (msg_value m) = PSessionCreated (ac_id a) (rs_session res) at)"
proof -
  let ?e = "normalize_email k email"
  obtain al w2 w3 w4 a r where run: "attempt (throttle_allow k ?e) w = (Inr al, w2)"
      "check_password k ?e password w2 = (Inr a, w3)"
      "attempt (throttle_reset k ?e) w3 = (Inr r, w4)" "login_tx k a agent w4 = (Inr res, w1)"
    using assms by (auto simp: login_def Let_def bnd_Inr fail_Inr split: if_splits)
  have same: "db w2 = db w" "log w2 = log w" "db w3 = db w2" "log w3 = log w2" "db w4 = db w3" "log w4 = log w3"
    using reads_onlyD [OF reads_tries(1) run(1)] reads_onlyD [OF reads_check_password run(2)]
      reads_onlyD [OF reads_tries(2) run(3)] by simp_all
  have "login_effect k a res (db w4) (log w4) (db w1) (log w1)"
    using commitsD [OF commits_login_tx run(4)] by simp
  then obtain s m where eff: "session_effect k a res (db w) (db w1) s" "log w1 = log w @ [m]"
      "env_payload (msg_value m) = PSessionCreated (ac_id a) (rs_session res) (se_created s)"
    using same by (auto simp: login_effect_def)
  have "row_with ac_email ?e (accounts (db w)) = Some a \<and> verify_password k password (ac_hash a) = Some True"
    using check_password_Inr [OF run(2)] same by simp
  with eff show ?thesis
    by (intro exI [of _ a] exI [of _ "stored_session s"] exI [of _ m]) (auto simp: session_effect_def)
qed

lemma live_failures_upd:
  "live_failures now key (x\<lparr>failures := (failures x)(key \<mapsto> (n, until))\<rparr>) = (if now < until then n else 0)"
  by (simp add: live_failures_def)

text \<open>A failed sign-in tells nothing about the account and is counted: for an unknown address
  and for a wrong password alike the answer is the same error, the tables stay as they were,
  and the failures of the address in the current window go up by one; when they have reached
  the maximum the next attempt is refused before the password is looked at.\<close>

theorem failed_login_counts:
  assumes fine: "\<forall>n. fates w n = Fine" and clock: "\<forall>n. clock w n = now"
    and email: "e = normalize_email k email" and window: "0 < throttle_window k"
    and wrong: "case row_with ac_email e (accounts (db w)) of None \<Rightarrow> verify_password k password (dummy_hash k) \<noteq> None
      | Some a \<Rightarrow> verify_password k password (ac_hash a) = Some False"
  shows "\<exists>w1. login k email password agent w =
       (Inl (Domain (if live_failures now (throttle_key k e now) (ext w) < throttle_max k
                     then InvalidCredentials else TooManyAttempts)), w1) \<and>
     same_state w w1 \<and>
     live_failures now (throttle_key k e now) (ext w1) =
       (if live_failures now (throttle_key k e now) (ext w) < throttle_max k
        then Suc (live_failures now (throttle_key k e now) (ext w))
        else live_failures now (throttle_key k e now) (ext w))"
proof -
  have allow: "attempt (throttle_allow k e) w =
      (Inr (Inr (live_failures now (throttle_key k e now) (ext w) < throttle_max k)), (w\<lparr>tick := Suc (Suc (tick w))\<rparr>))"
    using fine clock by (simp add: throttle_allow_def attempt_def bnd_def now_utc_def call_def)
  show ?thesis
  proof (cases "live_failures now (throttle_key k e now) (ext w) < throttle_max k")
    case False
    with allow email show ?thesis by (simp add: login_def Let_def bnd_def fail_def)
  next
    case True
    have "\<exists>w1. check_password k e password (w\<lparr>tick := Suc (Suc (tick w))\<rparr>) = (Inl (Domain InvalidCredentials), w1) \<and>
        same_state w w1 \<and> live_failures now (throttle_key k e now) (ext w1) =
          Suc (live_failures now (throttle_key k e now) (ext w))"
    proof (cases "row_with ac_email e (accounts (db w))")
      case None
      then obtain b where "verify_password k password (dummy_hash k) = Some b" using wrong by auto
      with None fine clock window show ?thesis
        by (simp add: check_password_def account_by_email_def found_account_def known_account_def
            throttle_failed_def Let_def bnd_def query_def stmt_def attempt_def now_utc_def call_def fail_def draw_def
            live_failures_upd)
    next
      case (Some a)
      with wrong fine clock window show ?thesis
        by (simp add: check_password_def account_by_email_def found_account_def known_account_def
            throttle_failed_def Let_def bnd_def query_def stmt_def attempt_def now_utc_def call_def fail_def draw_def
            ret_def live_failures_upd)
    qed
    then obtain w1 where "check_password k e password (w\<lparr>tick := Suc (Suc (tick w))\<rparr>) = (Inl (Domain InvalidCredentials), w1)"
        "same_state w w1" "live_failures now (throttle_key k e now) (ext w1) =
          Suc (live_failures now (throttle_key k e now) (ext w))"
      by blast
    with True allow email show ?thesis by (simp add: login_def Let_def bnd_def)
  qed
qed

text \<open>An account is created whole or not at all: a sign-up either leaves the tables and the
  log as they were or commits the account, with an address no other account has, its first
  session and both events together.\<close>

theorem register_all_or_nothing:
  "case register k email password agent w of
     (Inl e, w1) \<Rightarrow> same_state w w1 \<or> (\<exists>acc res. ac_email acc = normalize_email k email \<and>
        register_effect k acc res (db w) (log w) (db w1) (log w1))
   | (Inr res, w1) \<Rightarrow> validate_credentials k (normalize_email k email) password = Inr () \<and>
        ac_email (rs_account res) = normalize_email k email \<and>
        register_effect k (rs_account res) res (db w) (log w) (db w1) (log w1)"
proof -
  let ?e = "normalize_email k email"
  let ?R = "\<lambda>res d l d1 l1. \<exists>acc. ac_email acc = ?e \<and> rs_account res = acc \<and> register_effect k acc res d l d1 l1"
  have tx: "commits (register_tx k (new_account i ?e hash now) agent) ?R" for i hash now
    by (rule commits_weaken [OF commits_register_tx])
      (auto simp: new_account_def register_effect_def session_effect_def)
  show ?thesis
  proof (cases "validate_credentials k ?e password")
    case (Inl err)
    then show ?thesis by (simp add: register_def Let_def fail_def)
  next
    case (Inr u)
    have "commits (bnd (draw (\<lambda>n. hash_password k n password)) (\<lambda>hash. bnd new_uuid (\<lambda>i. bnd now_utc (\<lambda>now.
        register_tx k (new_account i ?e hash now) agent)))) ?R"
      by (intro commits_bnd reads tx)
    then have c: "commits (register k email password agent) ?R"
      using Inr by (simp add: register_def Let_def)
    obtain r w1 where run: "register k email password agent w = (r, w1)" by fastforce
    from commitsD [OF c run] show ?thesis
      using run Inr by (cases r) auto
  qed
qed

definition long_agent :: string where
  "long_agent = replicate 255 (CHR ''a'') @ [CHR 0xC3, CHR 0xA9]"

text \<open>C8: \<open>NewSession\<close> cuts the user agent at 256 bytes, not at a character: a valid user agent
  can become text the database refuses, and then every sign-in with it fails.\<close>

theorem long_user_agent_locks_out:
  "text_ok long_agent \<and> (\<exists>e. fst (login_tx k acc long_agent w) = Inl e)"
proof -
  have ok: "text_ok long_agent" by code_simp
  have cut: "\<not> text_ok (take 256 long_agent)" by code_simp
  have len: "256 < length long_agent" by (simp add: long_agent_def)
  have bad: "\<not> session_row_ok (new_session i u h long_agent now ttl)" for i u h now ttl
    using cut len by (simp add: session_row_ok_def new_session_def)
  have "fst (login_tx k acc long_agent w) \<noteq> Inr res" for res
  proof
    assume "fst (login_tx k acc long_agent w) = Inr res"
    then obtain w1 where "login_tx k acc long_agent w = (Inr res, w1)" by (metis prod.collapse)
    then obtain s v v1 where "start_session k acc long_agent v = (Inr (res, s), v1)"
      by (auto simp: login_tx_def auth_tx_def act_inv)
    then show False
      using bad by (auto simp: start_session_def refresh_new_def issue_def act_inv Let_def dest!: sessions_create_Inr)
  qed
  then have "\<exists>e. fst (login_tx k acc long_agent w) = Inl e" by (cases "fst (login_tx k acc long_agent w)") auto
  with ok show ?thesis by blast
qed

section \<open>A concrete run\<close>

text \<open>Stand-ins for the other packages, and the run of one sign-up.\<close>

definition sample_token :: "nat \<Rightarrow> string option" where
  "sample_token n = (if n < 256 then Some (replicate 31 (CHR ''a'') @ [char_of n]) else None)"

definition sample_deps :: auth_deps where
  "sample_deps = \<lparr>parse_address = Some, to_lower = id, pg_lower = id,
     hash_password = (\<lambda>n p. Some (''$argon2id$'' @ p)),
     verify_password = (\<lambda>p h. Some (h = ''$argon2id$'' @ p)),
     random_token = sample_token, sha256 = id, sign_claims = (\<lambda>c n. Some ''jwt''),
     dummy_hash = ''$argon2id$'', session_ttl = 3600 * second, access_ttl = 900 * second,
     throttle_max = 5, throttle_window = 900 * second\<rparr>"

lemma sample_deps_fresh: "fresh_tokens sample_deps"
proof -
  have "m = n" if "sample_token m = Some t" "sample_token n = Some t" for m n t
  proof -
    have lt: "m < 256" "n < 256" and "(char_of m :: char) = char_of n"
      using that by (auto simp: sample_token_def split: if_splits)
    then have "(of_char (char_of m :: char) :: nat) = of_char (char_of n :: char)" by simp
    with lt show ?thesis by (simp add: of_char_of)
  qed
  then show ?thesis by (auto simp: fresh_tokens_def token_hash_at_def sample_deps_def)
qed

definition sample_account :: account where
  "sample_account = new_account 1 ''a@b'' ''$argon2id$pw'' 1000"

definition sample_auth :: "(auth_db, auth_redis, auth_payload) world" where
  "sample_auth = auth_run sample_deps [StepRegister sample_account ''curl'']
     (auth_start (\<lambda>_. Fine) (\<lambda>_. 5000) (\<lambda>n. Some (of_nat n)))"

definition sample_session :: auth_session where
  "sample_session = hd (auth_sessions (db sample_auth))"

lemma sample_auth_facts:
  "map se_id (auth_sessions (db sample_auth)) = [4]"
  "row_with ac_email ''a@b'' (accounts (db sample_auth)) \<noteq> None"
  by code_simp+

lemma sample_auth_inv: "auth_inv (db sample_auth) (log sample_auth)"
  unfolding sample_auth_def by (rule auth_run_inv [OF auth_start_inv])

text \<open>The one session of the run is refreshed once with its first token.\<close>

definition sample_first_token :: string where
  "sample_first_token = se_refresh sample_session"

definition sample_refreshed :: "(auth_error failure + auth_result) \<times> (auth_db, auth_redis, auth_payload) world" where
  "sample_refreshed = rotate_token sample_deps sample_session (sha256 sample_deps sample_first_token) 6000 sample_auth"

definition rotated_world :: "(auth_db, auth_redis, auth_payload) world" where
  "rotated_world = snd sample_refreshed"

lemma sample_refreshed_Inr: "sample_refreshed = (Inr (projr (fst sample_refreshed)), rotated_world)"
proof -
  have "isl (fst sample_refreshed) = False" by code_simp
  then show ?thesis by (cases sample_refreshed) (auto simp: rotated_world_def)
qed

theorem refresh_token_works_once_witness:
  "\<exists>res w1. rotate_token sample_deps sample_session (sha256 sample_deps sample_first_token) 6000 sample_auth = (Inr res, w1) \<and>
     fst (refresh sample_deps sample_first_token w1) \<noteq> Inr res"
proof -
  have run: "rotate_token sample_deps sample_session (sha256 sample_deps sample_first_token) 6000 sample_auth =
      (Inr (projr (fst sample_refreshed)), rotated_world)"
    using sample_refreshed_Inr by (simp add: sample_refreshed_def)
  have later: "rotated_world = auth_run sample_deps [] rotated_world" by (simp add: auth_run_def)
  from refresh_token_works_once [OF sample_deps_fresh sample_auth_def run later] run show ?thesis by blast
qed

definition sample_revoked :: "(auth_db, auth_redis, auth_payload) world" where
  "sample_revoked = snd (revoke sample_deps sample_session ''logout'' sample_auth)"

lemma sample_revoked_inv: "auth_inv (db sample_revoked) (log sample_revoked)"
proof -
  have eq: "sample_revoked = auth_run sample_deps [StepRevoke sample_session ''logout''] sample_auth"
    by (simp add: sample_revoked_def auth_run_def)
  show ?thesis unfolding eq by (rule auth_run_inv [OF sample_auth_inv])
qed

lemma sample_revoked_row:
  "row_with se_id 4 (auth_sessions (db sample_revoked)) \<noteq> None"
  "se_revoked (the (row_with se_id 4 (auth_sessions (db sample_revoked)))) \<noteq> None"
  by code_simp+

theorem revocation_is_final_witness:
  "row_with se_id 4 (auth_sessions (db (auth_run sample_deps [StepRevoke sample_session ''revoked''] sample_revoked))) =
     row_with se_id 4 (auth_sessions (db sample_revoked))"
proof -
  obtain s where s: "row_with se_id 4 (auth_sessions (db sample_revoked)) = Some s"
    using sample_revoked_row(1) by blast
  have "se_revoked s \<noteq> None" using sample_revoked_row(2) s by simp
  from revocation_is_final [OF sample_revoked_inv s this] s show ?thesis by simp
qed

lemma rotated_world_facts:
  "\<not> has_row se_refresh (sha256 sample_deps sample_first_token) (auth_sessions (db rotated_world))"
  "row_with se_previous (Some (sha256 sample_deps sample_first_token)) (auth_sessions (db rotated_world)) \<noteq> None"
  "se_revoked (the (row_with se_previous (Some (sha256 sample_deps sample_first_token)) (auth_sessions (db rotated_world)))) = None"
  "unique_on se_id (auth_sessions (db rotated_world))" "sample_first_token \<noteq> ''''"
  by code_simp+

lemma rotated_world_fine: "fates rotated_world n = Fine" "fresh rotated_world n \<noteq> None"
  by code_simp+

theorem reuse_revokes_session_witness:
  "\<exists>w1. refresh sample_deps sample_first_token rotated_world = (Inl (Domain RefreshReuse), w1)"
proof -
  obtain s where s: "row_with se_previous (Some (sha256 sample_deps sample_first_token)) (auth_sessions (db rotated_world)) = Some s"
    using rotated_world_facts(2) by blast
  have live: "se_revoked s = None" using rotated_world_facts(3) s by simp
  from reuse_revokes_session [OF _ _ rotated_world_facts(5,1) s live rotated_world_facts(4)] rotated_world_fine
  show ?thesis by blast
qed

text \<open>A token issued at second 1000, 15 minutes of lifetime, revoked at second 1000.\<close>

definition sample_claims :: access_claims where
  "sample_claims = issue_claims sample_deps sample_account 4 (1000 * second)"

definition sample_redis :: auth_redis where
  "sample_redis = \<lparr>failures = Map.empty, revocations = [4 \<mapsto> 1900 * second]\<rparr>"

theorem revoked_tokens_refused_witness:
  "\<exists>e. verify_token (\<lambda>_. Some sample_claims) (\<lambda>i t. Some (is_revoked i t sample_redis)) ''jwt'' (1200 * second) = Inl e"
  by (rule revoked_tokens_refused [where until = "1900 * second" and sid = 4 and issued = "1000 * second"])
    (simp_all add: sample_claims_def sample_redis_def)


definition sample_signed_in :: "(auth_error failure + auth_result) \<times> (auth_db, auth_redis, auth_payload) world" where
  "sample_signed_in = login sample_deps '' a@b'' ''pw'' ''curl'' sample_auth"

lemma sample_signed_in_Inr: "sample_signed_in = (Inr (projr (fst sample_signed_in)), snd sample_signed_in)"
proof -
  have "isl (fst sample_signed_in) = False" by code_simp
  then show ?thesis by (cases sample_signed_in) auto
qed

theorem login_needs_password_witness:
  "\<exists>a res. row_with ac_email (normalize_email sample_deps '' a@b'') (accounts (db sample_auth)) = Some a \<and>
     rs_account res = a \<and> fst (login sample_deps '' a@b'' ''pw'' ''curl'' sample_auth) = Inr res"
proof -
  have run: "login sample_deps '' a@b'' ''pw'' ''curl'' sample_auth =
      (Inr (projr (fst sample_signed_in)), snd sample_signed_in)"
    using sample_signed_in_Inr by (simp add: sample_signed_in_def)
  have "fst (login sample_deps '' a@b'' ''pw'' ''curl'' sample_auth) = Inr (projr (fst sample_signed_in))"
    by (subst run) simp
  with login_needs_password [OF run] show ?thesis by blast
qed

lemma sample_auth_env: "fates sample_auth n = Fine" "clock sample_auth n = 5000"
  by code_simp+

theorem failed_login_counts_witness:
  "\<exists>e w1. login sample_deps ''a@b'' ''no'' ''curl'' sample_auth = (Inl e, w1) \<and>
     same_state sample_auth w1"
proof -
  have pw: "case row_with ac_email (normalize_email sample_deps ''a@b'') (accounts (db sample_auth)) of
      None \<Rightarrow> verify_password sample_deps ''no'' (dummy_hash sample_deps) \<noteq> None
    | Some a \<Rightarrow> verify_password sample_deps ''no'' (ac_hash a) = Some False"
    by code_simp
  have window: "0 < throttle_window sample_deps" by (simp add: sample_deps_def)
  from failed_login_counts [OF _ _ refl window pw] sample_auth_env show ?thesis by blast
qed

end
