(* ===== verification/Catalog.thy ===== *)
theory Catalog
  imports World Paging Consumer "HOL-Library.Product_Lexorder"
begin

text \<open>
  The Catalog service (\<^verbatim>\<open>services/catalog\<close>): artists, albums and tracks with their
  validation, the life cycle of a track, the schema with the constraints that guard it, every
  statement of the repositories, the use cases with their \<open>catalog.events\<close>, the paging of
  albums, and the consumer of \<open>media.events\<close>. The tables and the committed events tell the
  same; the pipeline's events move a track along its life cycle and may be read again.
\<close>

section \<open>Domain\<close>

datatype catalog_error = ArtistNotFound | AlbumNotFound | TrackNotFound | GenreNotFound
  | InvalidStatusTransition | TrackPositionTaken | TrackDeleted
  | CatalogInvalid "(string \<times> string) list"
  | ReferenceError string catalog_error

subsection \<open>Validation\<close>

text \<open>The fields with problems; the first problem of a field is kept.\<close>

type_synonym validator = "(string \<times> string) list"

definition v_check :: "bool \<Rightarrow> string \<Rightarrow> string \<Rightarrow> validator \<Rightarrow> validator" where
  "v_check ok field msg v = (if ok \<or> field \<in> fst ` set v then v else v @ [(field, msg)])"

definition v_err :: "validator \<Rightarrow> catalog_error + unit" where
  "v_err v = (if v = [] then Inr () else Inl (CatalogInvalid v))"

abbreviation MaxNameLength :: nat where "MaxNameLength \<equiv> 200"
abbreviation MaxCredits :: nat where "MaxCredits \<equiv> 20"
abbreviation day :: duration where "day \<equiv> 86400 * second"

definition validate_title :: "string \<Rightarrow> validator \<Rightarrow> validator" where
  "validate_title title = v_check (rune_count title \<le> MaxNameLength) ''title'' ''is too long'' \<circ>
     v_check (title \<noteq> '''') ''title'' ''must not be empty''"

definition dedupe_ids :: "uuid list \<Rightarrow> uuid list" where
  "dedupe_ids ids = dedupe_from [] ids"

definition contains_nil :: "uuid list \<Rightarrow> bool" where
  "contains_nil ids \<longleftrightarrow> uuid_Nil \<in> set ids"

subsection \<open>Artists, genres and albums\<close>

record artist =
  ar_id :: uuid
  ar_name :: string
  ar_created :: time
  ar_updated :: time

record genre =
  gn_id :: uuid
  gn_slug :: string
  gn_name :: string

definition new_artist :: "uuid \<Rightarrow> string \<Rightarrow> time \<Rightarrow> catalog_error + artist" where
  "new_artist i name0 now =
     (let name = trim_space name0 in
      case v_err ((v_check (rune_count name \<le> MaxNameLength) ''name'' ''is too long'' \<circ>
                   v_check (name \<noteq> '''') ''name'' ''must not be empty'' \<circ>
                   v_check (i \<noteq> uuid_Nil) ''id'' ''must be set'') []) of
        Inl e \<Rightarrow> Inl e
      | Inr _ \<Rightarrow> Inr \<lparr>ar_id = i, ar_name = name, ar_created = now, ar_updated = now\<rparr>)"

definition album_type_valid :: "string \<Rightarrow> bool" where
  "album_type_valid t \<longleftrightarrow> t \<in> {''ALBUM'', ''EP'', ''SINGLE'', ''COMPILATION''}"

record album =
  al_id :: uuid
  al_title :: string
  al_type :: string
  al_release :: time
  al_artists :: "uuid list"
  al_genres :: "uuid list"
  al_created :: time
  al_updated :: time

text \<open>The parameters of \<open>NewAlbum\<close> are an album without its stamps.\<close>

definition new_album :: "uuid \<Rightarrow> string \<Rightarrow> string \<Rightarrow> time \<Rightarrow> uuid list \<Rightarrow> uuid list \<Rightarrow> time \<Rightarrow> catalog_error + album" where
  "new_album i title0 typ release artists0 genres0 now =
     (let title = trim_space title0; artists = dedupe_ids artists0; genres = dedupe_ids genres0 in
      case v_err ((v_check (\<not> contains_nil genres) ''genreIds'' ''must not contain empty IDs'' \<circ>
                   v_check (length genres \<le> MaxCredits) ''genreIds'' ''has too many genres'' \<circ>
                   v_check (\<not> contains_nil artists) ''artistIds'' ''must not contain empty IDs'' \<circ>
                   v_check (length artists \<le> MaxCredits) ''artistIds'' ''has too many artists'' \<circ>
                   v_check (0 < length artists) ''artistIds'' ''must contain at least one artist'' \<circ>
                   v_check (release \<noteq> 0) ''releaseDate'' ''must be set'' \<circ>
                   v_check (album_type_valid typ) ''albumType'' ''must be one of ALBUM, EP, SINGLE, COMPILATION'' \<circ>
                   validate_title title \<circ>
                   v_check (i \<noteq> uuid_Nil) ''id'' ''must be set'') []) of
        Inl e \<Rightarrow> Inl e
      | Inr _ \<Rightarrow> Inr \<lparr>al_id = i, al_title = title, al_type = typ, al_release = time_truncate day release,
          al_artists = artists, al_genres = genres, al_created = now, al_updated = now\<rparr>)"

subsection \<open>Tracks\<close>

type_synonym track_status = string

abbreviation TrackStatusDraft :: track_status where "TrackStatusDraft \<equiv> ''DRAFT''"
abbreviation TrackStatusProcessing :: track_status where "TrackStatusProcessing \<equiv> ''PROCESSING''"
abbreviation TrackStatusReady :: track_status where "TrackStatusReady \<equiv> ''READY''"
abbreviation TrackStatusBlocked :: track_status where "TrackStatusBlocked \<equiv> ''BLOCKED''"
abbreviation TrackStatusDeleted :: track_status where "TrackStatusDeleted \<equiv> ''DELETED''"

definition allowed_transitions :: "track_status \<Rightarrow> track_status list option" where
  "allowed_transitions = map_of
     [(TrackStatusDraft, [TrackStatusProcessing, TrackStatusDeleted]),
      (TrackStatusProcessing, [TrackStatusReady, TrackStatusDraft, TrackStatusDeleted]),
      (TrackStatusReady, [TrackStatusBlocked, TrackStatusDeleted]),
      (TrackStatusBlocked, [TrackStatusReady, TrackStatusDeleted]),
      (TrackStatusDeleted, [])]"

definition status_valid :: "track_status \<Rightarrow> bool" where
  "status_valid s \<longleftrightarrow> allowed_transitions s \<noteq> None"

definition can_transition_to :: "track_status \<Rightarrow> track_status \<Rightarrow> bool" where
  "can_transition_to s next = (case allowed_transitions s of None \<Rightarrow> False | Some ts \<Rightarrow> next \<in> set ts)"

abbreviation MaxTrackDuration :: duration where "MaxTrackDuration \<equiv> 24 * 3600 * second"
abbreviation MaxTrackNumber :: int where "MaxTrackNumber \<equiv> 999"
abbreviation MaxDiscNumber :: int where "MaxDiscNumber \<equiv> 99"

definition upper_letter :: "char \<Rightarrow> bool" where
  "upper_letter c \<longleftrightarrow> 65 \<le> byte c \<and> byte c \<le> 90"

definition digit_char :: "char \<Rightarrow> bool" where
  "digit_char c \<longleftrightarrow> 48 \<le> byte c \<and> byte c \<le> 57"

text \<open>\<open>^[A-Z]{2}[A-Z0-9]{3}[0-9]{7}$\<close>.\<close>

definition isrc_matches :: "string \<Rightarrow> bool" where
  "isrc_matches s \<longleftrightarrow> length s = 12 \<and> list_all upper_letter (take 2 s) \<and>
     list_all (\<lambda>c. upper_letter c \<or> digit_char c) (take 3 (drop 2 s)) \<and> list_all digit_char (drop 5 s)"

record track =
  tk_id :: uuid
  tk_album :: uuid
  tk_artists :: "uuid list"
  tk_title :: string
  tk_duration :: duration
  tk_number :: int
  tk_disc :: int
  tk_explicit :: bool
  tk_isrc :: string
  tk_status :: track_status
  tk_created :: time
  tk_updated :: time

text \<open>\<open>Duration.Truncate\<close> rounds toward zero.\<close>

definition duration_truncate :: "duration \<Rightarrow> duration \<Rightarrow> duration" where
  "duration_truncate m d = d - sgn d * (\<bar>d\<bar> mod m)"

definition normalize_isrc :: "(string \<Rightarrow> string) \<Rightarrow> string \<Rightarrow> string" where
  "normalize_isrc upper s = upper (filter (\<lambda>c. c \<noteq> CHR ''-'') (trim_space s))"

text \<open>\<open>upper\<close> is \<open>strings.ToUpper\<close>; the parameters are those of \<open>NewTrackParams\<close>.\<close>

record track_params =
  np_artists :: "uuid list"
  np_title :: string
  np_duration :: duration
  np_number :: int
  np_disc :: int
  np_explicit :: bool
  np_isrc :: string

definition new_track :: "(string \<Rightarrow> string) \<Rightarrow> uuid \<Rightarrow> uuid \<Rightarrow> track_params \<Rightarrow> time \<Rightarrow> catalog_error + track" where
  "new_track upper i album p now =
     (let title = trim_space (np_title p); isrc = normalize_isrc upper (np_isrc p);
          artists = dedupe_ids (np_artists p); disc = (if np_disc p = 0 then 1 else np_disc p) in
      case v_err ((v_check (isrc = '''' \<or> isrc_matches isrc) ''isrc'' ''must be a 12-character ISRC like USRC17607839'' \<circ>
                   v_check (1 \<le> disc \<and> disc \<le> MaxDiscNumber) ''discNumber'' ''must be between 1 and 99'' \<circ>
                   v_check (1 \<le> np_number p \<and> np_number p \<le> MaxTrackNumber) ''trackNumber'' ''must be between 1 and 999'' \<circ>
                   v_check (np_duration p \<le> MaxTrackDuration) ''durationMs'' ''is too long'' \<circ>
                   v_check (0 < np_duration p) ''durationMs'' ''must be positive'' \<circ>
                   validate_title title \<circ>
                   v_check (\<not> contains_nil artists) ''artistIds'' ''must not contain empty IDs'' \<circ>
                   v_check (length artists \<le> MaxCredits) ''artistIds'' ''has too many artists'' \<circ>
                   v_check (0 < length artists) ''artistIds'' ''must contain at least one artist'' \<circ>
                   v_check (album \<noteq> uuid_Nil) ''albumId'' ''must be set'' \<circ>
                   v_check (i \<noteq> uuid_Nil) ''id'' ''must be set'') []) of
        Inl e \<Rightarrow> Inl e
      | Inr _ \<Rightarrow> Inr \<lparr>tk_id = i, tk_album = album, tk_artists = artists, tk_title = title,
          tk_duration = duration_truncate millisecond (np_duration p), tk_number = np_number p,
          tk_disc = disc, tk_explicit = np_explicit p, tk_isrc = isrc, tk_status = TrackStatusDraft,
          tk_created = now, tk_updated = now\<rparr>)"

datatype media_stage = MediaUploaded | MediaTranscoded | MediaFailed

definition media_next :: "media_stage \<Rightarrow> track_status \<Rightarrow> track_status option" where
  "media_next stage s =
     (if stage = MediaUploaded \<and> s = TrackStatusDraft then Some TrackStatusProcessing
      else if stage = MediaTranscoded \<and> (s = TrackStatusDraft \<or> s = TrackStatusProcessing) then Some TrackStatusReady
      else if stage = MediaFailed \<and> s = TrackStatusProcessing then Some TrackStatusDraft
      else None)"

text \<open>The result is whether the track changed, and the track.\<close>

definition advance_media :: "media_stage \<Rightarrow> time \<Rightarrow> track \<Rightarrow> bool \<times> track" where
  "advance_media stage now t =
     (case media_next stage (tk_status t) of
        None \<Rightarrow> (False, t)
      | Some next \<Rightarrow> (True, t\<lparr>tk_status := next, tk_updated := now\<rparr>))"

record track_changes =
  ch_title :: "string option"
  ch_explicit :: "bool option"
  ch_status :: "track_status option"

definition changed_title :: "track_changes \<Rightarrow> track \<Rightarrow> catalog_error + string" where
  "changed_title c t =
     (case ch_title c of
        None \<Rightarrow> Inr (tk_title t)
      | Some s \<Rightarrow> (case v_err (validate_title (trim_space s) []) of Inl e \<Rightarrow> Inl e | Inr _ \<Rightarrow> Inr (trim_space s)))"

definition changed_status :: "track_changes \<Rightarrow> track \<Rightarrow> catalog_error + track_status" where
  "changed_status c t =
     (case ch_status c of
        None \<Rightarrow> Inr (tk_status t)
      | Some s \<Rightarrow>
          if s = tk_status t then Inr s
          else if \<not> status_valid s then Inl (CatalogInvalid [(''status'', ''unknown status'')])
          else if \<not> can_transition_to (tk_status t) s then Inl InvalidStatusTransition
          else Inr s)"

definition apply_changes :: "track_changes \<Rightarrow> time \<Rightarrow> track \<Rightarrow> catalog_error + bool \<times> track" where
  "apply_changes c now t =
     (if tk_status t = TrackStatusDeleted then Inl TrackDeleted
      else case changed_title c t of
        Inl e \<Rightarrow> Inl e
      | Inr title \<Rightarrow> (case changed_status c t of
          Inl e \<Rightarrow> Inl e
        | Inr status \<Rightarrow>
            (let next = t\<lparr>tk_title := title, tk_explicit := (case ch_explicit c of None \<Rightarrow> tk_explicit t | Some b \<Rightarrow> b),
                          tk_status := status\<rparr>;
                 changed = (tk_title next \<noteq> tk_title t \<or> tk_explicit next \<noteq> tk_explicit t \<or> tk_status next \<noteq> tk_status t)
             in Inr (changed, if changed then next\<lparr>tk_updated := now\<rparr> else t))))"

section \<open>Events\<close>

datatype catalog_payload = PArtist uuid string
  | PAlbum uuid "uuid list" string string time "uuid list"
  | PTrack uuid uuid "uuid list" string int int int bool string track_status time

datatype catalog_event = ArtistCreated artist | AlbumCreated album | TrackCreated track | TrackUpdated track

definition milliseconds :: "duration \<Rightarrow> int" where
  "milliseconds d = sgn d * (\<bar>d\<bar> div millisecond)"

definition album_payload :: "album \<Rightarrow> catalog_payload" where
  "album_payload a = PAlbum (al_id a) (al_artists a) (al_title a) (al_type a) (al_release a) (al_genres a)"

definition track_payload :: "track \<Rightarrow> catalog_payload" where
  "track_payload t = PTrack (tk_id t) (tk_album t) (tk_artists t) (tk_title t) (milliseconds (tk_duration t))
     (tk_number t) (tk_disc t) (tk_explicit t) (tk_isrc t) (tk_status t) (tk_updated t)"

fun catalog_contract :: "catalog_event \<Rightarrow> catalog_payload contract" where
  "catalog_contract (ArtistCreated a) = \<lparr>ct_type = ''artist.created'', ct_key = ar_id a, ct_at = ar_created a,
     ct_payload = PArtist (ar_id a) (ar_name a)\<rparr>"
| "catalog_contract (AlbumCreated a) = \<lparr>ct_type = ''album.created'', ct_key = al_id a, ct_at = al_created a,
     ct_payload = album_payload a\<rparr>"
| "catalog_contract (TrackCreated t) = \<lparr>ct_type = ''track.created'', ct_key = tk_id t, ct_at = tk_created t,
     ct_payload = track_payload t\<rparr>"
| "catalog_contract (TrackUpdated t) = \<lparr>ct_type = ''track.updated'', ct_key = tk_id t, ct_at = tk_updated t,
     ct_payload = track_payload t\<rparr>"

section \<open>Tables\<close>

record album_row =
  ab_id :: uuid
  ab_title :: string
  ab_type :: string
  ab_release :: time
  ab_created :: time
  ab_updated :: time

text \<open>A row of \<open>album_artists\<close>, \<open>album_genres\<close> or \<open>track_artists\<close>.\<close>

record credit =
  cr_owner :: uuid
  cr_ref :: uuid
  cr_position :: nat

record song_row =
  tw_id :: uuid
  tw_album :: uuid
  tw_title :: string
  tw_ms :: int
  tw_number :: int
  tw_disc :: int
  tw_explicit :: bool
  tw_isrc :: "string option"
  tw_status :: track_status
  tw_created :: time
  tw_updated :: time

record catalog_db =
  artists :: "artist list"
  genres :: "genre list"
  albums :: "album_row list"
  album_artists :: "credit list"
  album_genres :: "credit list"
  songs :: "song_row list"
  song_artists :: "credit list"

type_synonym 'a catalog_act = "(catalog_db, unit, catalog_payload, catalog_error, 'a) act"

text \<open>\<open>constraintErrors\<close> and \<open>mapError\<close>: a violated constraint, by its name.\<close>

definition constraint_errors :: "string \<Rightarrow> catalog_error option" where
  "constraint_errors = map_of
     [(''album_artists_artist_id_fkey'', ReferenceError ''artistIds'' ArtistNotFound),
      (''track_artists_artist_id_fkey'', ReferenceError ''artistIds'' ArtistNotFound),
      (''album_genres_genre_id_fkey'', ReferenceError ''genreIds'' GenreNotFound),
      (''tracks_album_id_fkey'', ReferenceError ''albumId'' AlbumNotFound),
      (''tracks_album_position_key'', TrackPositionTaken)]"

text \<open>A unique or foreign-key violation; other failures pass through.\<close>

definition map_error :: "string \<Rightarrow> catalog_error failure" where
  "map_error name = (case constraint_errors name of None \<Rightarrow> Infra | Some e \<Rightarrow> Domain e)"

abbreviation cr_key :: "credit \<Rightarrow> uuid \<times> uuid" where
  "cr_key c \<equiv> (cr_owner c, cr_ref c)"

definition credits_of :: "uuid \<Rightarrow> credit list \<Rightarrow> uuid list" where
  "credits_of i cs = map cr_ref (order_by cr_position (filter (\<lambda>c. cr_owner c = i) cs))"

text \<open>\<open>unnest(ids) WITH ORDINALITY\<close>, positions counted from 0.\<close>

fun credit_rows :: "uuid \<Rightarrow> nat \<Rightarrow> uuid list \<Rightarrow> credit list" where
  "credit_rows i n [] = []"
| "credit_rows i n (x # xs) = \<lparr>cr_owner = i, cr_ref = x, cr_position = n\<rparr> # credit_rows i (Suc n) xs"

definition insert_credits :: "string \<Rightarrow> string \<Rightarrow> uuid \<Rightarrow> uuid list \<Rightarrow> (uuid \<Rightarrow> bool) \<Rightarrow> credit list \<Rightarrow>
    catalog_error failure + credit list" where
  "insert_credits pkey fkey i ids known cs =
     (if \<not> unique_on cr_key (cs @ credit_rows i 0 ids) then Inl (map_error pkey)
      else if \<not> list_all known ids then Inl (map_error fkey)
      else Inr (cs @ credit_rows i 0 ids))"

section \<open>Repositories\<close>

definition artist_create :: "artist \<Rightarrow> unit catalog_act" where
  "artist_create a = stmt (\<lambda>d.
     if has_row ar_id (ar_id a) (artists d) then Inl (map_error ''artists_pkey'')
     else if \<not> text_between 1 200 (ar_name a) then Inl Infra
     else Inr ((), d\<lparr>artists := artists d @ [a\<lparr>ar_created := pg_time (ar_created a), ar_updated := pg_time (ar_updated a)\<rparr>]\<rparr>))"

definition artist_get :: "uuid \<Rightarrow> artist catalog_act" where
  "artist_get i = bnd (query (\<lambda>d. row_with ar_id i (artists d)))
     (\<lambda>r. case r of None \<Rightarrow> fail ArtistNotFound | Some a \<Rightarrow> ret a)"

definition artist_list_by_ids :: "uuid list \<Rightarrow> artist list catalog_act" where
  "artist_list_by_ids ids = query (\<lambda>d. filter (\<lambda>a. ar_id a \<in> set ids) (artists d))"

definition scan_album :: "catalog_db \<Rightarrow> album_row \<Rightarrow> album" where
  "scan_album d r = \<lparr>al_id = ab_id r, al_title = ab_title r, al_type = ab_type r, al_release = ab_release r,
     al_artists = credits_of (ab_id r) (album_artists d), al_genres = credits_of (ab_id r) (album_genres d),
     al_created = ab_created r, al_updated = ab_updated r\<rparr>"

definition album_insert :: "album \<Rightarrow> unit catalog_act" where
  "album_insert a = stmt (\<lambda>d.
     if has_row ab_id (al_id a) (albums d) then Inl (map_error ''albums_pkey'')
     else if \<not> text_between 1 200 (al_title a) \<or> \<not> album_type_valid (al_type a) then Inl Infra
     else Inr ((), d\<lparr>albums := albums d @ [\<lparr>ab_id = al_id a, ab_title = al_title a, ab_type = al_type a,
       ab_release = time_truncate day (al_release a), ab_created = pg_time (al_created a),
       ab_updated = pg_time (al_updated a)\<rparr>]\<rparr>))"

definition album_credit_artists :: "album \<Rightarrow> unit catalog_act" where
  "album_credit_artists a = stmt (\<lambda>d.
     case insert_credits ''album_artists_pkey'' ''album_artists_artist_id_fkey'' (al_id a) (al_artists a)
         (\<lambda>x. has_row ar_id x (artists d)) (album_artists d) of
       Inl e \<Rightarrow> Inl e | Inr cs \<Rightarrow> Inr ((), d\<lparr>album_artists := cs\<rparr>))"

definition album_credit_genres :: "album \<Rightarrow> unit catalog_act" where
  "album_credit_genres a = stmt (\<lambda>d.
     case insert_credits ''album_genres_pkey'' ''album_genres_genre_id_fkey'' (al_id a) (al_genres a)
         (\<lambda>x. has_row gn_id x (genres d)) (album_genres d) of
       Inl e \<Rightarrow> Inl e | Inr cs \<Rightarrow> Inr ((), d\<lparr>album_genres := cs\<rparr>))"

definition album_create :: "album \<Rightarrow> unit catalog_act" where
  "album_create a = in_tx (\<lambda>_. True)
     (bnd (album_insert a) (\<lambda>_. bnd (album_credit_artists a) (\<lambda>_.
        if 0 < length (al_genres a) then album_credit_genres a else ret ())))"

definition album_get :: "uuid \<Rightarrow> album catalog_act" where
  "album_get i = bnd (query (\<lambda>d. map (scan_album d) (filter (\<lambda>r. ab_id r = i) (albums d))))
     (\<lambda>rs. case rs of [] \<Rightarrow> fail AlbumNotFound | a # _ \<Rightarrow> ret a)"

type_synonym album_cursor = "time \<times> uuid"

definition al_key :: "album \<Rightarrow> album_cursor" where
  "al_key a = (al_release a, al_id a)"

definition ab_key :: "album_row \<Rightarrow> album_cursor" where
  "ab_key r = (ab_release r, ab_id r)"

definition before_cursor :: "album_cursor option \<Rightarrow> album_row \<Rightarrow> bool" where
  "before_cursor after r = (case after of None \<Rightarrow> True | Some c \<Rightarrow> ab_key r < c)"

definition album_page_rows :: "(album_row \<Rightarrow> bool) \<Rightarrow> album_cursor option \<Rightarrow> nat \<Rightarrow> catalog_db \<Rightarrow> album list" where
  "album_page_rows p after limit d = map (scan_album d)
     (take limit (order_by_desc ab_key (filter (\<lambda>r. before_cursor after r \<and> p r) (albums d))))"

definition album_list_by_artist :: "uuid \<Rightarrow> album_cursor option \<Rightarrow> nat \<Rightarrow> album list catalog_act" where
  "album_list_by_artist artist after limit = query (\<lambda>d.
     album_page_rows (\<lambda>r. has_row cr_key (ab_id r, artist) (album_artists d)) after limit d)"

definition album_list :: "album_cursor option \<Rightarrow> nat \<Rightarrow> album list catalog_act" where
  "album_list after limit = query (album_page_rows (\<lambda>_. True) after limit)"

definition scan_track_row :: "catalog_db \<Rightarrow> song_row \<Rightarrow> track" where
  "scan_track_row d r = \<lparr>tk_id = tw_id r, tk_album = tw_album r, tk_artists = credits_of (tw_id r) (song_artists d),
     tk_title = tw_title r, tk_duration = tw_ms r * millisecond, tk_number = tw_number r, tk_disc = tw_disc r,
     tk_explicit = tw_explicit r, tk_isrc = (case tw_isrc r of None \<Rightarrow> '''' | Some s \<Rightarrow> s), tk_status = tw_status r,
     tk_created = tw_created r, tk_updated = tw_updated r\<rparr>"

definition song_row_of :: "track \<Rightarrow> song_row" where
  "song_row_of t = \<lparr>tw_id = tk_id t, tw_album = tk_album t, tw_title = tk_title t, tw_ms = milliseconds (tk_duration t),
     tw_number = tk_number t, tw_disc = tk_disc t, tw_explicit = tk_explicit t,
     tw_isrc = (if tk_isrc t = '''' then None else Some (tk_isrc t)), tw_status = tk_status t,
     tw_created = pg_time (tk_created t), tw_updated = pg_time (tk_updated t)\<rparr>"

text \<open>The \<open>CHECK\<close> constraints of \<open>catalog.tracks\<close>.\<close>

definition song_row_ok :: "song_row \<Rightarrow> bool" where
  "song_row_ok r \<longleftrightarrow> text_between 1 200 (tw_title r) \<and> 0 < tw_ms r \<and> tw_ms r \<le> 86400000 \<and>
     1 \<le> tw_number r \<and> tw_number r \<le> 999 \<and> 1 \<le> tw_disc r \<and> tw_disc r \<le> 99 \<and>
     (case tw_isrc r of None \<Rightarrow> True | Some s \<Rightarrow> isrc_matches s) \<and> status_valid (tw_status r)"

definition song_live :: "song_row \<Rightarrow> bool" where
  "song_live r \<longleftrightarrow> tw_status r \<noteq> TrackStatusDeleted"

definition song_position :: "song_row \<Rightarrow> uuid \<times> int \<times> int" where
  "song_position r = (tw_album r, tw_disc r, tw_number r)"

text \<open>\<open>tracks_album_position_key\<close>: a unique index on the live tracks.\<close>

definition positions_ok :: "song_row list \<Rightarrow> bool" where
  "positions_ok rs \<longleftrightarrow> unique_on song_position (filter song_live rs)"

definition track_insert :: "track \<Rightarrow> unit catalog_act" where
  "track_insert t = stmt (\<lambda>d.
     if \<not> song_row_ok (song_row_of t) then Inl Infra
     else if has_row tw_id (tk_id t) (songs d) then Inl (map_error ''tracks_pkey'')
     else if \<not> positions_ok (songs d @ [song_row_of t]) then Inl (map_error ''tracks_album_position_key'')
     else if \<not> has_row ab_id (tk_album t) (albums d) then Inl (map_error ''tracks_album_id_fkey'')
     else Inr ((), d\<lparr>songs := songs d @ [song_row_of t]\<rparr>))"

definition track_credit_artists :: "track \<Rightarrow> unit catalog_act" where
  "track_credit_artists t = stmt (\<lambda>d.
     case insert_credits ''track_artists_pkey'' ''track_artists_artist_id_fkey'' (tk_id t) (tk_artists t)
         (\<lambda>x. has_row ar_id x (artists d)) (song_artists d) of
       Inl e \<Rightarrow> Inl e | Inr cs \<Rightarrow> Inr ((), d\<lparr>song_artists := cs\<rparr>))"

definition track_create :: "track \<Rightarrow> unit catalog_act" where
  "track_create t = in_tx (\<lambda>_. True) (bnd (track_insert t) (\<lambda>_. track_credit_artists t))"

definition track_get :: "uuid \<Rightarrow> track catalog_act" where
  "track_get i = bnd (query (\<lambda>d. map (scan_track_row d) (filter (\<lambda>r. tw_id r = i) (songs d))))
     (\<lambda>rs. case rs of [] \<Rightarrow> fail TrackNotFound | t # _ \<Rightarrow> ret t)"

text \<open>\<open>GetForUpdate\<close>: the lock it takes is the atomicity of the transaction around it.\<close>

definition track_get_for_update :: "uuid \<Rightarrow> track catalog_act" where
  "track_get_for_update i = track_get i"

definition update_song :: "track \<Rightarrow> song_row \<Rightarrow> song_row" where
  "update_song t r = r\<lparr>tw_title := tk_title t, tw_explicit := tk_explicit t, tw_status := tk_status t,
     tw_updated := pg_time (tk_updated t)\<rparr>"

definition track_update :: "track \<Rightarrow> unit catalog_act" where
  "track_update t = bnd (stmt (\<lambda>d.
     let rs = update_rows (\<lambda>r. tw_id r = tk_id t) (update_song t) (songs d) in
     if \<not> list_all song_row_ok (filter (\<lambda>r. tw_id r = tk_id t) rs) then Inl Infra
     else if \<not> positions_ok rs then Inl (map_error ''tracks_album_position_key'')
     else Inr (affected (\<lambda>r. tw_id r = tk_id t) (songs d), d\<lparr>songs := rs\<rparr>)))
     (\<lambda>n. if n = 0 then fail TrackNotFound else ret ())"

definition track_list_by_album :: "uuid \<Rightarrow> track list catalog_act" where
  "track_list_by_album i = query (\<lambda>d. map (scan_track_row d)
     (order_by (\<lambda>r. (tw_disc r, tw_number r)) (filter (\<lambda>r. tw_album r = i \<and> song_live r) (songs d))))"

definition track_list_by_ids :: "uuid list \<Rightarrow> track list catalog_act" where
  "track_list_by_ids ids = query (\<lambda>d. map (scan_track_row d) (filter (\<lambda>r. tw_id r \<in> set ids \<and> song_live r) (songs d)))"

text \<open>\<open>ORDER BY name\<close> under the order \<open>le\<close> of the database's collation.\<close>

definition genre_list :: "(genre list \<Rightarrow> genre list) \<Rightarrow> genre list catalog_act" where
  "genre_list by_name = query (\<lambda>d. by_name (genres d))"

section \<open>Use cases\<close>

definition catalog_tx :: "'a catalog_act \<Rightarrow> 'a catalog_act" where
  "catalog_tx m = in_tx (\<lambda>_. True) m"

definition catalog_publish :: "catalog_event list \<Rightarrow> unit catalog_act" where
  "catalog_publish evs = publish_events ''catalog.events'' ''catalog-service'' (map catalog_contract evs)"

definition store :: "unit catalog_act \<Rightarrow> catalog_event list \<Rightarrow> unit catalog_act" where
  "store write evs = catalog_tx (bnd write (\<lambda>_. catalog_publish evs))"

definition from_sum :: "catalog_error + 'a \<Rightarrow> 'a catalog_act" where
  "from_sum r = (case r of Inl e \<Rightarrow> fail e | Inr x \<Rightarrow> ret x)"

definition create_artist :: "string \<Rightarrow> artist catalog_act" where
  "create_artist name = bnd new_uuid (\<lambda>i. bnd now_utc (\<lambda>now.
     bnd (from_sum (new_artist i name now)) (\<lambda>a.
     bnd (store (artist_create a) [ArtistCreated a]) (\<lambda>_. ret a))))"

definition get_artist :: "uuid \<Rightarrow> artist catalog_act" where
  "get_artist i = artist_get i"

abbreviation MaxBatchIDs :: nat where "MaxBatchIDs \<equiv> 100"

definition list_artists :: "uuid list \<Rightarrow> artist list catalog_act" where
  "list_artists ids =
     (if MaxBatchIDs < length ids then fail (CatalogInvalid [(''ids'', ''at most 100 IDs per request'')])
      else if ids = [] then ret [] else artist_list_by_ids ids)"

definition list_tracks :: "uuid list \<Rightarrow> track list catalog_act" where
  "list_tracks ids =
     (if MaxBatchIDs < length ids then fail (CatalogInvalid [(''ids'', ''at most 100 IDs per request'')])
      else if ids = [] then ret [] else track_list_by_ids ids)"

abbreviation DefaultPageSize :: int where "DefaultPageSize \<equiv> 20"
abbreviation MaxPageSize :: int where "MaxPageSize \<equiv> 100"

definition page_size :: "int \<Rightarrow> nat" where
  "page_size limit = nat (let l = (if limit \<le> 0 then DefaultPageSize else limit) in
     if MaxPageSize < l then MaxPageSize else l)"

text \<open>\<open>pageAlbums\<close>: one row more than the page tells whether there is a next one.\<close>

definition page_albums :: "int \<Rightarrow> (nat \<Rightarrow> album list catalog_act) \<Rightarrow> (album list \<times> album_cursor option) catalog_act" where
  "page_albums limit fetch =
     (let n = page_size limit in
      bnd (fetch (n + 1)) (\<lambda>rows. ret (split_page al_key n rows)))"

definition list_artist_albums :: "uuid \<Rightarrow> album_cursor option \<Rightarrow> int \<Rightarrow> (album list \<times> album_cursor option) catalog_act" where
  "list_artist_albums artist after limit = bnd (artist_get artist) (\<lambda>_.
     page_albums limit (album_list_by_artist artist after))"

definition list_albums :: "album_cursor option \<Rightarrow> int \<Rightarrow> (album list \<times> album_cursor option) catalog_act" where
  "list_albums after limit = page_albums limit (album_list after)"

definition create_album :: "string \<Rightarrow> string \<Rightarrow> time \<Rightarrow> uuid list \<Rightarrow> uuid list \<Rightarrow> album catalog_act" where
  "create_album title typ release as gs = bnd new_uuid (\<lambda>i. bnd now_utc (\<lambda>now.
     bnd (from_sum (new_album i title typ release as gs now)) (\<lambda>a.
     bnd (store (album_create a) [AlbumCreated a]) (\<lambda>_. ret a))))"

definition get_album :: "uuid \<Rightarrow> album catalog_act" where
  "get_album i = album_get i"

definition list_album_tracks :: "uuid \<Rightarrow> track list catalog_act" where
  "list_album_tracks i = bnd (album_get i) (\<lambda>_. track_list_by_album i)"

definition as_reference :: "catalog_error failure \<Rightarrow> string \<Rightarrow> catalog_error \<Rightarrow> catalog_error failure" where
  "as_reference err field target = (if err = Domain target then Domain (ReferenceError field target) else err)"

definition create_track :: "(string \<Rightarrow> string) \<Rightarrow> uuid \<Rightarrow> track_params \<Rightarrow> track catalog_act" where
  "create_track upper album p = bnd (attempt (album_get album)) (\<lambda>r.
     case r of
       Inl e \<Rightarrow> raise (as_reference e ''albumId'' AlbumNotFound)
     | Inr al \<Rightarrow> bnd new_uuid (\<lambda>i. bnd now_utc (\<lambda>now.
         let p1 = (if np_artists p = [] then p\<lparr>np_artists := al_artists al\<rparr> else p) in
         bnd (from_sum (new_track upper i (al_id al) p1 now)) (\<lambda>t.
         bnd (store (track_create t) [TrackCreated t]) (\<lambda>_. ret t)))))"

definition get_track :: "uuid \<Rightarrow> track catalog_act" where
  "get_track i = track_get i"

definition modify_track :: "uuid \<Rightarrow> (track \<Rightarrow> (bool \<times> track) catalog_act) \<Rightarrow> track catalog_act" where
  "modify_track i modify = catalog_tx
     (bnd (track_get_for_update i) (\<lambda>t0. bnd (modify t0) (\<lambda>(changed, t).
        if \<not> changed then ret t
        else bnd (track_update t) (\<lambda>_. bnd (catalog_publish [TrackUpdated t]) (\<lambda>_. ret t)))))"

definition update_track :: "uuid \<Rightarrow> track_changes \<Rightarrow> track catalog_act" where
  "update_track i c = modify_track i (\<lambda>t. bnd now_utc (\<lambda>now. from_sum (apply_changes c now t)))"

definition advance_track_media :: "uuid \<Rightarrow> media_stage \<Rightarrow> track catalog_act" where
  "advance_track_media i stage = modify_track i (\<lambda>t. bnd now_utc (\<lambda>now. ret (advance_media stage now t)))"

definition list_genres :: "(genre list \<Rightarrow> genre list) \<Rightarrow> genre list catalog_act" where
  "list_genres by_name = genre_list by_name"

section \<open>The consumer of \<open>media.events\<close>\<close>

text \<open>
  A media event as the consumer sees it: the envelope's type and version, and the result of
  decoding the payload and parsing its \<open>trackId\<close>. A value that is no envelope is \<open>None\<close>.
\<close>

record media_event =
  me_type :: string
  me_version :: int
  me_track :: "uuid option"

definition media_stages :: "string \<Rightarrow> media_stage option" where
  "media_stages = map_of [(''track.uploaded'', MediaUploaded), (''track.transcoded'', MediaTranscoded),
     (''media.transcode.failed'', MediaFailed)]"

definition permanent_error :: "string \<Rightarrow> herr" where
  "permanent_error msg = \<lparr>permanent = True, herr_text = msg\<rparr>"

definition handle_media :: "media_event option krecord \<Rightarrow> (catalog_db, unit, catalog_payload) world \<Rightarrow>
    herr option \<times> (catalog_db, unit, catalog_payload) world" where
  "handle_media rec w =
     (case rec_value rec of
        None \<Rightarrow> (Some (permanent_error ''envelope''), w)
      | Some ev \<Rightarrow> (case media_stages (me_type ev) of
          None \<Rightarrow> (None, w)
        | Some stage \<Rightarrow>
            if me_version ev \<noteq> 1 then (Some (permanent_error ''unsupported version''), w)
            else (case me_track ev of
                None \<Rightarrow> (Some (permanent_error ''trackId''), w)
              | Some i \<Rightarrow> (case advance_track_media i stage w of
                  (Inr t, w1) \<Rightarrow> (None, w1)
                | (Inl e, w1) \<Rightarrow> if e = Domain TrackNotFound then (None, w1)
                    else (Some \<lparr>permanent = False, herr_text = ''advance''\<rparr>, w1)))))"

section \<open>What a reader of the events sees\<close>

record track_view =
  tv_album :: uuid
  tv_artists :: "uuid list"
  tv_title :: string
  tv_ms :: int
  tv_place :: "int \<times> int"
  tv_explicit :: bool
  tv_isrc :: string
  tv_status :: track_status

record catalog_view =
  cv_artists :: "uuid \<Rightarrow> string option"
  cv_albums :: "uuid \<Rightarrow> (uuid list \<times> string \<times> string \<times> time \<times> uuid list) option"
  cv_tracks :: "uuid \<Rightarrow> track_view option"

fun apply_catalog :: "catalog_payload \<Rightarrow> catalog_view \<Rightarrow> catalog_view" where
  "apply_catalog (PArtist i name) v = v\<lparr>cv_artists := (cv_artists v)(i \<mapsto> name)\<rparr>"
| "apply_catalog (PAlbum i as title typ release gs) v = v\<lparr>cv_albums := (cv_albums v)(i \<mapsto> (as, title, typ, release, gs))\<rparr>"
| "apply_catalog (PTrack i album as title ms n disc explicit isrc status at) v =
     v\<lparr>cv_tracks := (cv_tracks v)(i \<mapsto> \<lparr>tv_album = album, tv_artists = as, tv_title = title, tv_ms = ms,
        tv_place = (disc, n), tv_explicit = explicit, tv_isrc = isrc, tv_status = status\<rparr>)\<rparr>"

definition catalog_replay :: "catalog_payload message list \<Rightarrow> catalog_view" where
  "catalog_replay l = fold (\<lambda>m. apply_catalog (env_payload (msg_value m))) l
     \<lparr>cv_artists = Map.empty, cv_albums = Map.empty, cv_tracks = Map.empty\<rparr>"

definition view_album :: "album \<Rightarrow> uuid list \<times> string \<times> string \<times> time \<times> uuid list" where
  "view_album a = (al_artists a, al_title a, al_type a, al_release a, al_genres a)"

definition view_track :: "track \<Rightarrow> track_view" where
  "view_track t = \<lparr>tv_album = tk_album t, tv_artists = tk_artists t, tv_title = tk_title t,
     tv_ms = milliseconds (tk_duration t), tv_place = (tk_disc t, tk_number t), tv_explicit = tk_explicit t,
     tv_isrc = tk_isrc t, tv_status = tk_status t\<rparr>"

definition catalog_abs :: "catalog_db \<Rightarrow> catalog_view" where
  "catalog_abs d = \<lparr>cv_artists = (\<lambda>i. map_option ar_name (row_with ar_id i (artists d))),
     cv_albums = (\<lambda>i. map_option (view_album \<circ> scan_album d) (row_with ab_id i (albums d))),
     cv_tracks = (\<lambda>i. map_option (view_track \<circ> scan_track_row d) (row_with tw_id i (songs d)))\<rparr>"

section \<open>The schema's constraints\<close>

definition credits_ok :: "uuid set \<Rightarrow> uuid set \<Rightarrow> credit list \<Rightarrow> bool" where
  "credits_ok owners refs cs \<longleftrightarrow> unique_on cr_key cs \<and> cr_owner ` set cs \<subseteq> owners \<and> cr_ref ` set cs \<subseteq> refs"

definition catalog_ok :: "catalog_db \<Rightarrow> bool" where
  "catalog_ok d \<longleftrightarrow> unique_on ar_id (artists d) \<and> unique_on ab_id (albums d) \<and> unique_on tw_id (songs d) \<and>
     positions_ok (songs d) \<and> list_all song_row_ok (songs d) \<and>
     credits_ok (ab_id ` set (albums d)) (ar_id ` set (artists d)) (album_artists d) \<and>
     credits_ok (ab_id ` set (albums d)) (gn_id ` set (genres d)) (album_genres d) \<and>
     credits_ok (tw_id ` set (songs d)) (ar_id ` set (artists d)) (song_artists d) \<and>
     tw_album ` set (songs d) \<subseteq> ab_id ` set (albums d)"

definition catalog_inv :: "catalog_db \<Rightarrow> catalog_payload message list \<Rightarrow> bool" where
  "catalog_inv d l \<longleftrightarrow> catalog_ok d \<and> catalog_replay l = catalog_abs d"

lemma catalog_replay_snoc:
  "catalog_replay (l @ [m]) = apply_catalog (env_payload (msg_value m)) (catalog_replay l)"
  by (simp add: catalog_replay_def)

lemma credits_ok_mono: "credits_ok os rs cs \<Longrightarrow> os \<subseteq> os1 \<Longrightarrow> rs \<subseteq> rs1 \<Longrightarrow> credits_ok os1 rs1 cs"
  by (auto simp: credits_ok_def)

subsection \<open>Credits\<close>

lemma credit_rows_facts:
  "cr_owner ` set (credit_rows i n ids) \<subseteq> {i}" "map cr_ref (credit_rows i n ids) = ids"
  "sorted (map cr_position (credit_rows i n ids))"
  "\<forall>c \<in> set (credit_rows i n ids). n \<le> cr_position c"
  by (induction ids arbitrary: n) (fastforce)+

lemma cr_ref_credit_rows: "cr_ref ` set (credit_rows i n ids) = set ids"
  by (simp flip: set_map add: credit_rows_facts(2))

lemma credits_of_rows:
  assumes "i \<notin> cr_owner ` set cs"
  shows "credits_of i (cs @ credit_rows i 0 ids) = ids"
proof -
  have "filter (\<lambda>c. cr_owner c = i) cs = []" using assms by (auto simp: filter_empty_conv)
  moreover have "filter (\<lambda>c. cr_owner c = i) (credit_rows i 0 ids) = credit_rows i 0 ids"
    using credit_rows_facts(1) [of i 0 ids] by (auto simp: filter_id_conv)
  ultimately show ?thesis
    using credit_rows_facts(3) [of i 0 ids]
    by (simp add: credits_of_def order_by_def sorted_sort_id sort_key_id_if_sorted credit_rows_facts(2))
qed

lemma credits_of_other:
  assumes "j \<noteq> i"
  shows "credits_of j (cs @ credit_rows i 0 ids) = credits_of j cs"
proof -
  have "filter (\<lambda>c. cr_owner c = j) (credit_rows i 0 ids) = []"
    using assms credit_rows_facts(1) [of i 0 ids] by (auto simp: filter_empty_conv)
  then show ?thesis by (simp add: credits_of_def)
qed

lemma insert_credits_Inr:
  assumes "insert_credits pkey fkey i ids known cs = Inr cs1" "credits_ok os rs cs"
    "i \<in> os" "\<And>x. known x \<Longrightarrow> x \<in> rs"
  shows "cs1 = cs @ credit_rows i 0 ids" "credits_ok os rs cs1"
proof -
  have eq: "cs1 = cs @ credit_rows i 0 ids" "unique_on cr_key (cs @ credit_rows i 0 ids)" "\<forall>x \<in> set ids. known x"
    using assms(1) by (auto simp: insert_credits_def list_all_iff split: if_splits)
  show "cs1 = cs @ credit_rows i 0 ids" by (rule eq(1))
  have "cr_owner ` set cs1 \<subseteq> os" "cr_ref ` set cs1 \<subseteq> rs"
    using assms(2-4) eq(1,3) credit_rows_facts(1) [of i 0 ids] cr_ref_credit_rows [of i 0 ids]
    by (auto simp: credits_ok_def image_Un simp del: image_subset_iff)
  then show "credits_ok os rs cs1" using eq by (simp add: credits_ok_def)
qed

lemma catalog_okD:
  assumes "catalog_ok d"
  shows "unique_on ar_id (artists d)" "unique_on ab_id (albums d)" "unique_on tw_id (songs d)"
    "positions_ok (songs d)" "list_all song_row_ok (songs d)"
    "credits_ok (ab_id ` set (albums d)) (ar_id ` set (artists d)) (album_artists d)"
    "credits_ok (ab_id ` set (albums d)) (gn_id ` set (genres d)) (album_genres d)"
    "credits_ok (tw_id ` set (songs d)) (ar_id ` set (artists d)) (song_artists d)"
    "tw_album ` set (songs d) \<subseteq> ab_id ` set (albums d)"
  using assms unfolding catalog_ok_def by simp_all

lemma catalog_okI:
  assumes "unique_on ar_id (artists d)" "unique_on ab_id (albums d)" "unique_on tw_id (songs d)"
    "positions_ok (songs d)" "list_all song_row_ok (songs d)"
    "credits_ok (ab_id ` set (albums d)) (ar_id ` set (artists d)) (album_artists d)"
    "credits_ok (ab_id ` set (albums d)) (gn_id ` set (genres d)) (album_genres d)"
    "credits_ok (tw_id ` set (songs d)) (ar_id ` set (artists d)) (song_artists d)"
    "tw_album ` set (songs d) \<subseteq> ab_id ` set (albums d)"
  shows "catalog_ok d"
  unfolding catalog_ok_def by (intro conjI assms)

lemma owners_known: "credits_ok os rs cs \<Longrightarrow> i \<notin> os \<Longrightarrow> i \<notin> cr_owner ` set cs"
  unfolding credits_ok_def by blast

subsection \<open>Inserts\<close>

lemma row_with_snoc_new: "\<not> has_row key (key r) rs \<Longrightarrow>
    row_with key k (rs @ [r]) = (if k = key r then Some r else row_with key k rs)"
  by (auto simp: row_with_append has_row_row_with split: option.splits)

lemma catalog_insert_artist:
  assumes "catalog_ok d" "\<not> has_row ar_id (ar_id a) (artists d)"
  defines "d1 \<equiv> d\<lparr>artists := artists d @ [a]\<rparr>"
  shows "catalog_ok d1" "catalog_abs d1 = apply_catalog (PArtist (ar_id a) (ar_name a)) (catalog_abs d)"
proof -
  show "catalog_ok d1"
    using catalog_okD [OF assms(1)] assms(2)
    by (intro catalog_okI) (auto simp: d1_def has_row_iff intro: credits_ok_mono)
  have "view_album (scan_album d1 r) = view_album (scan_album d r)" "view_track (scan_track_row d1 t) = view_track (scan_track_row d t)" for r t
    by (simp_all add: d1_def scan_album_def scan_track_row_def)
  then show "catalog_abs d1 = apply_catalog (PArtist (ar_id a) (ar_name a)) (catalog_abs d)"
    using row_with_snoc_new [OF assms(2)] by (simp add: catalog_abs_def d1_def fun_eq_iff comp_def)
qed

text \<open>What the three statements of an album's insert leave.\<close>

definition stored_album :: "album \<Rightarrow> album_row" where
  "stored_album a = \<lparr>ab_id = al_id a, ab_title = al_title a, ab_type = al_type a,
     ab_release = time_truncate day (al_release a), ab_created = pg_time (al_created a),
     ab_updated = pg_time (al_updated a)\<rparr>"

lemma album_insert_Inr:
  "album_insert a w = (Inr u, w1) \<Longrightarrow> \<not> has_row ab_id (al_id a) (albums (db w)) \<and>
     db w1 = (db w)\<lparr>albums := albums (db w) @ [stored_album a]\<rparr> \<and> outbox w1 = outbox w"
  by (auto simp: album_insert_def stmt_Inr stored_album_def split: if_splits)

lemma album_credit_artists_Inr:
  "album_credit_artists a w = (Inr u, w1) \<Longrightarrow> \<exists>cs. outbox w1 = outbox w \<and> db w1 = (db w)\<lparr>album_artists := cs\<rparr> \<and>
    insert_credits ''album_artists_pkey'' ''album_artists_artist_id_fkey'' (al_id a) (al_artists a)
      (\<lambda>x. has_row ar_id x (artists (db w))) (album_artists (db w)) = Inr cs"
  by (auto simp: album_credit_artists_def stmt_Inr split: sum.splits)

lemma album_credit_genres_Inr:
  "album_credit_genres a w = (Inr u, w1) \<Longrightarrow> \<exists>cs. outbox w1 = outbox w \<and> db w1 = (db w)\<lparr>album_genres := cs\<rparr> \<and>
    insert_credits ''album_genres_pkey'' ''album_genres_genre_id_fkey'' (al_id a) (al_genres a)
      (\<lambda>x. has_row gn_id x (genres (db w))) (album_genres (db w)) = Inr cs"
  by (auto simp: album_credit_genres_def stmt_Inr split: sum.splits)

lemma album_rows_Inr:
  assumes "bnd (album_insert a) (\<lambda>_. bnd (album_credit_artists a) (\<lambda>_.
        if 0 < length (al_genres a) then album_credit_genres a else ret ())) w = (Inr u, w1)"
  shows "\<exists>as gs. \<not> has_row ab_id (al_id a) (albums (db w)) \<and> outbox w1 = outbox w \<and>
    insert_credits ''album_artists_pkey'' ''album_artists_artist_id_fkey'' (al_id a) (al_artists a)
      (\<lambda>x. has_row ar_id x (artists (db w))) (album_artists (db w)) = Inr as \<and>
    (if al_genres a = [] then gs = album_genres (db w) else
      insert_credits ''album_genres_pkey'' ''album_genres_genre_id_fkey'' (al_id a) (al_genres a)
        (\<lambda>x. has_row gn_id x (genres (db w))) (album_genres (db w)) = Inr gs) \<and>
    db w1 = (db w)\<lparr>albums := albums (db w) @ [stored_album a], album_artists := as, album_genres := gs\<rparr>"
proof -
  obtain u2 u3 w2 w3 where run: "album_insert a w = (Inr u2, w2)" "album_credit_artists a w2 = (Inr u3, w3)"
      "(if 0 < length (al_genres a) then album_credit_genres a else ret ()) w3 = (Inr u, w1)"
    using assms unfolding bnd_Inr by blast
  note i = album_insert_Inr [OF run(1)]
  obtain as where a: "outbox w3 = outbox w2" "db w3 = (db w2)\<lparr>album_artists := as\<rparr>"
      "insert_credits ''album_artists_pkey'' ''album_artists_artist_id_fkey'' (al_id a) (al_artists a)
      (\<lambda>x. has_row ar_id x (artists (db w2))) (album_artists (db w2)) = Inr as"
    using album_credit_artists_Inr [OF run(2)] by blast
  show ?thesis
  proof (cases "al_genres a = []")
    case True
    then have "w1 = w3" using run(3) by (simp add: ret_Inr)
    with i a True show ?thesis by simp
  next
    case False
    then have "album_credit_genres a w3 = (Inr u, w1)" using run(3) by simp
    from album_credit_genres_Inr [OF this] i a False show ?thesis by auto
  qed
qed

lemma catalog_insert_album:
  assumes ok: "catalog_ok d" and new: "\<not> has_row ab_id (al_id a) (albums d)"
    and as: "insert_credits pk fk (al_id a) (al_artists a) (\<lambda>x. has_row ar_id x (artists d)) (album_artists d) = Inr as"
    and gs: "if al_genres a = [] then gs = album_genres d else
      insert_credits pk2 fk2 (al_id a) (al_genres a) (\<lambda>x. has_row gn_id x (genres d)) (album_genres d) = Inr gs"
    and release: "al_release a = time_truncate day (al_release a)"
    and r: "ab_id r = al_id a" "ab_title r = al_title a" "ab_type r = al_type a" "ab_release r = al_release a"
  defines "d1 \<equiv> d\<lparr>albums := albums d @ [r], album_artists := as, album_genres := gs\<rparr>"
  shows "catalog_ok d1" "catalog_abs d1 = apply_catalog (album_payload a) (catalog_abs d)"
proof -
  let ?os = "insert (al_id a) (ab_id ` set (albums d))"
  have fresh: "al_id a \<notin> cr_owner ` set (album_artists d)" "al_id a \<notin> cr_owner ` set (album_genres d)"
    using owners_known [OF catalog_okD(6) [OF ok]] owners_known [OF catalog_okD(7) [OF ok]] new
    by (simp_all add: has_row_iff)
  have old: "credits_ok ?os (ar_id ` set (artists d)) (album_artists d)" "credits_ok ?os (gn_id ` set (genres d)) (album_genres d)"
    by (rule credits_ok_mono [OF catalog_okD(6) [OF ok]] credits_ok_mono [OF catalog_okD(7) [OF ok]]; blast)+
  have as1: "as = album_artists d @ credit_rows (al_id a) 0 (al_artists a)" "credits_ok ?os (ar_id ` set (artists d)) as"
    using insert_credits_Inr [OF as old(1)] by (simp_all add: has_row_iff)
  have gs1: "gs = album_genres d @ credit_rows (al_id a) 0 (al_genres a)" "credits_ok ?os (gn_id ` set (genres d)) gs"
  proof -
    have "gs = album_genres d @ credit_rows (al_id a) 0 (al_genres a) \<and> credits_ok ?os (gn_id ` set (genres d)) gs"
    proof (cases "al_genres a = []")
      case True
      with gs old(2) show ?thesis by simp
    next
      case False
      then have "insert_credits pk2 fk2 (al_id a) (al_genres a) (\<lambda>x. has_row gn_id x (genres d)) (album_genres d) = Inr gs"
        using gs by simp
      from insert_credits_Inr [OF this old(2)] show ?thesis by (simp add: has_row_iff)
    qed
    then show "gs = album_genres d @ credit_rows (al_id a) 0 (al_genres a)" "credits_ok ?os (gn_id ` set (genres d)) gs"
      by blast+
  qed
  show "catalog_ok d1"
    using catalog_okD [OF ok] new as1(2) gs1(2) r(1)
    by (intro catalog_okI) (simp_all add: d1_def has_row_iff subset_insertI2)
  have cr: "credits_of j as = (if j = al_id a then al_artists a else credits_of j (album_artists d))"
    "credits_of j gs = (if j = al_id a then al_genres a else credits_of j (album_genres d))" for j
    using credits_of_rows fresh credits_of_other by (simp_all add: as1(1) gs1(1))
  have rows: "row_with ab_id k (albums d @ [r]) = (if k = al_id a then Some r else row_with ab_id k (albums d))" for k
    using row_with_snoc_new [of ab_id r "albums d"] new r(1) by simp
  have "map_option (view_album \<circ> scan_album d1) (row_with ab_id k (albums d1)) =
      (if k = al_id a then Some (view_album a) else map_option (view_album \<circ> scan_album d) (row_with ab_id k (albums d)))" for k
    using rows [of k] r cr
    by (auto simp: d1_def view_album_def scan_album_def dest!: row_with_SomeD intro!: option.map_cong)
  moreover have "view_track (scan_track_row d1 t) = view_track (scan_track_row d t)" for t
    by (simp add: d1_def scan_track_row_def)
  ultimately show "catalog_abs d1 = apply_catalog (album_payload a) (catalog_abs d)"
    by (simp add: catalog_abs_def album_payload_def view_album_def fun_eq_iff d1_def comp_def)
qed

lemma track_insert_Inr:
  "track_insert t w = (Inr u, w1) \<Longrightarrow> song_row_ok (song_row_of t) \<and> \<not> has_row tw_id (tk_id t) (songs (db w)) \<and>
     positions_ok (songs (db w) @ [song_row_of t]) \<and> has_row ab_id (tk_album t) (albums (db w)) \<and>
     db w1 = (db w)\<lparr>songs := songs (db w) @ [song_row_of t]\<rparr> \<and> outbox w1 = outbox w"
  by (auto simp: track_insert_def stmt_Inr split: if_splits)

lemma track_credit_artists_Inr:
  "track_credit_artists t w = (Inr u, w1) \<Longrightarrow> \<exists>cs. outbox w1 = outbox w \<and> db w1 = (db w)\<lparr>song_artists := cs\<rparr> \<and>
    insert_credits ''track_artists_pkey'' ''track_artists_artist_id_fkey'' (tk_id t) (tk_artists t)
      (\<lambda>x. has_row ar_id x (artists (db w))) (song_artists (db w)) = Inr cs"
  by (auto simp: track_credit_artists_def stmt_Inr split: sum.splits)

lemma track_rows_Inr:
  assumes "bnd (track_insert t) (\<lambda>_. track_credit_artists t) w = (Inr u, w1)"
  shows "\<exists>cs. song_row_ok (song_row_of t) \<and> \<not> has_row tw_id (tk_id t) (songs (db w)) \<and>
     positions_ok (songs (db w) @ [song_row_of t]) \<and> has_row ab_id (tk_album t) (albums (db w)) \<and> outbox w1 = outbox w \<and>
    insert_credits ''track_artists_pkey'' ''track_artists_artist_id_fkey'' (tk_id t) (tk_artists t)
      (\<lambda>x. has_row ar_id x (artists (db w))) (song_artists (db w)) = Inr cs \<and>
    db w1 = (db w)\<lparr>songs := songs (db w) @ [song_row_of t], song_artists := cs\<rparr>"
proof -
  obtain u2 w2 where run: "track_insert t w = (Inr u2, w2)" "track_credit_artists t w2 = (Inr u, w1)"
    using assms unfolding bnd_Inr by blast
  from track_insert_Inr [OF run(1)] track_credit_artists_Inr [OF run(2)] show ?thesis by auto
qed

lemma milliseconds_times [simp]: "milliseconds (n * millisecond) = n"
  by (cases "0 < n"; cases "n = 0") (simp_all add: milliseconds_def abs_mult sgn_mult)

lemma catalog_insert_track:
  assumes ok: "catalog_ok d" and row: "song_row_ok (song_row_of t)" and new: "\<not> has_row tw_id (tk_id t) (songs d)"
    and pos: "positions_ok (songs d @ [song_row_of t])" and album: "has_row ab_id (tk_album t) (albums d)"
    and cs: "insert_credits pk fk (tk_id t) (tk_artists t) (\<lambda>x. has_row ar_id x (artists d)) (song_artists d) = Inr cs"
  defines "d1 \<equiv> d\<lparr>songs := songs d @ [song_row_of t], song_artists := cs\<rparr>"
  shows "catalog_ok d1" "catalog_abs d1 = apply_catalog (track_payload t) (catalog_abs d)"
proof -
  let ?os = "insert (tk_id t) (tw_id ` set (songs d))"
  have i: "tw_id (song_row_of t) = tk_id t" by (simp add: song_row_of_def)
  have fresh: "tk_id t \<notin> cr_owner ` set (song_artists d)"
    using owners_known [OF catalog_okD(8) [OF ok]] new by (simp add: has_row_iff)
  have old: "credits_ok ?os (ar_id ` set (artists d)) (song_artists d)"
    by (rule credits_ok_mono [OF catalog_okD(8) [OF ok]]) blast+
  have cs1: "cs = song_artists d @ credit_rows (tk_id t) 0 (tk_artists t)" "credits_ok ?os (ar_id ` set (artists d)) cs"
    using insert_credits_Inr [OF cs old] by (simp_all add: has_row_iff)
  show "catalog_ok d1"
    using catalog_okD [OF ok] new row pos album cs1(2)
    by (intro catalog_okI) (simp_all add: d1_def has_row_iff song_row_of_def)
  have cr: "credits_of j cs = (if j = tk_id t then tk_artists t else credits_of j (song_artists d))" for j
    using credits_of_rows [OF fresh] credits_of_other by (simp add: cs1(1))
  have v: "view_track (scan_track_row d1 (song_row_of t)) = view_track t"
    using cr [of "tk_id t"] by (simp add: d1_def view_track_def scan_track_row_def song_row_of_def)
  have rows: "row_with tw_id k (songs d @ [song_row_of t]) =
      (if k = tk_id t then Some (song_row_of t) else row_with tw_id k (songs d))" for k
    using row_with_snoc_new [of tw_id "song_row_of t" "songs d"] new i by simp
  have "map_option (view_track \<circ> scan_track_row d1) (row_with tw_id k (songs d1)) =
      (if k = tk_id t then Some (view_track t) else map_option (view_track \<circ> scan_track_row d) (row_with tw_id k (songs d)))" for k
    using rows [of k] v cr
    by (auto simp: d1_def view_track_def scan_track_row_def dest!: row_with_SomeD intro!: option.map_cong)
  moreover have "view_album (scan_album d1 r) = view_album (scan_album d r)" for r
    by (simp add: d1_def scan_album_def)
  ultimately show "catalog_abs d1 = apply_catalog (track_payload t) (catalog_abs d)"
    by (simp add: catalog_abs_def track_payload_def view_track_def fun_eq_iff d1_def comp_def)
qed

subsection \<open>Changes of a track\<close>

lemma row_with_filter:
  "row_with key i rs = (case filter (\<lambda>r. key r = i) rs of [] \<Rightarrow> None | r # _ \<Rightarrow> Some r)"
  by (induction rs) (auto simp: row_with_def)

lemma track_get_Inr:
  "track_get i w = (Inr t, w1) \<Longrightarrow>
     \<exists>r. row_with tw_id i (songs (db w)) = Some r \<and> t = scan_track_row (db w) r \<and> w1 = advance w"
  by (cases "filter (\<lambda>r. tw_id r = i) (songs (db w))")
    (auto simp: track_get_def bnd_Inr query_Inr fail_Inr ret_Inr row_with_filter)

text \<open>The fields a change may touch.\<close>

definition same_song :: "track \<Rightarrow> track \<Rightarrow> bool" where
  "same_song t0 t \<longleftrightarrow> tk_id t = tk_id t0 \<and> tk_album t = tk_album t0 \<and> tk_artists t = tk_artists t0 \<and>
     tk_duration t = tk_duration t0 \<and> tk_number t = tk_number t0 \<and> tk_disc t = tk_disc t0 \<and> tk_isrc t = tk_isrc t0"

lemma same_song_media: "advance_media stage now t0 = (b, t) \<Longrightarrow> same_song t0 t"
  by (auto simp: advance_media_def same_song_def split: option.splits)

lemma same_song_changes: "apply_changes c now t0 = Inr (b, t) \<Longrightarrow> same_song t0 t"
  by (auto simp: apply_changes_def same_song_def Let_def split: if_splits sum.splits)

lemma track_update_Inr:
  "track_update t w = (Inr u, w1) \<Longrightarrow>
     let rs = update_rows (\<lambda>r. tw_id r = tk_id t) (update_song t) (songs (db w)) in
     list_all song_row_ok (filter (\<lambda>r. tw_id r = tk_id t) rs) \<and> positions_ok rs \<and>
     db w1 = (db w)\<lparr>songs := rs\<rparr> \<and> outbox w1 = outbox w"
  by (auto simp: track_update_def bnd_Inr stmt_Inr Let_def ret_Inr fail_Inr split: if_splits)

lemma update_song_keys [simp]: "tw_id (update_song t r) = tw_id r" "tw_album (update_song t r) = tw_album r"
  by (simp_all add: update_song_def)

lemma catalog_update_track:
  assumes ok: "catalog_ok d" and r: "row_with tw_id i (songs d) = Some r" and same: "same_song (scan_track_row d r) t"
    and rs: "rs = update_rows (\<lambda>r. tw_id r = tk_id t) (update_song t) (songs d)"
    and checks: "list_all song_row_ok (filter (\<lambda>r. tw_id r = tk_id t) rs)" "positions_ok rs"
  shows "catalog_ok (d\<lparr>songs := rs\<rparr>)" "catalog_abs (d\<lparr>songs := rs\<rparr>) = apply_catalog (track_payload t) (catalog_abs d)"
proof -
  have i: "tk_id t = i" using row_with_SomeD [OF r] same by (simp add: same_song_def scan_track_row_def)
  have ids: "tw_id ` set rs = tw_id ` set (songs d)" "tw_album ` set rs = tw_album ` set (songs d)"
    unfolding rs by (simp_all flip: set_map add: map_update_rows)
  have "song_row_ok q" if "q \<in> set rs" for q
  proof (cases "tw_id q = i")
    case True
    with checks(1) that i show ?thesis by (simp add: list_all_iff)
  next
    case False
    with that i have "q \<in> set (songs d)" unfolding rs set_update_rows by (auto split: if_splits)
    then show ?thesis using catalog_okD(5) [OF ok] by (simp add: list_all_iff)
  qed
  then show "catalog_ok (d\<lparr>songs := rs\<rparr>)"
    using catalog_okD [OF ok] checks(2) ids
    by (intro catalog_okI) (simp_all add: list_all_iff rs unique_on_update)
  have rows: "row_with tw_id k rs = (if k = i then Some (update_song t r) else row_with tw_id k (songs d))" for k
    using r row_with_update_key [of tw_id "update_song t" k i "songs d"] by (simp add: rs i)
  have v: "view_track (scan_track_row d (update_song t r)) = view_track t"
    using same by (simp add: view_track_def scan_track_row_def update_song_def same_song_def)
  have sc: "scan_track_row (d\<lparr>songs := rs\<rparr>) = scan_track_row d" "scan_album (d\<lparr>songs := rs\<rparr>) = scan_album d"
    by (simp_all add: scan_track_row_def scan_album_def fun_eq_iff)
  show "catalog_abs (d\<lparr>songs := rs\<rparr>) = apply_catalog (track_payload t) (catalog_abs d)"
    using v rows i unfolding catalog_abs_def sc track_payload_def
    by (auto simp: fun_eq_iff view_track_def)
qed

subsection \<open>Transactions\<close>

text \<open>A change of the tables with the one event that announces it.\<close>

definition announced :: "catalog_payload \<Rightarrow> catalog_db \<Rightarrow> catalog_payload message list \<Rightarrow> catalog_db \<Rightarrow> catalog_payload message list \<Rightarrow> bool" where
  "announced p d l d1 l1 \<longleftrightarrow> (catalog_ok d \<longrightarrow> catalog_ok d1 \<and> catalog_abs d1 = apply_catalog p (catalog_abs d)) \<and>
     (\<exists>m. l1 = l @ [m] \<and> env_payload (msg_value m) = p)"

lemma announced_inv: "announced p d l d1 l1 \<Longrightarrow> catalog_inv d l \<Longrightarrow> catalog_inv d1 l1"
  by (auto simp: announced_def catalog_inv_def catalog_replay_snoc)

lemma store_announces:
  assumes "\<And>w u w1. write w = (Inr u, w1) \<Longrightarrow> outbox w1 = outbox w \<and>
    (catalog_ok (db w) \<longrightarrow> catalog_ok (db w1) \<and>
       catalog_abs (db w1) = apply_catalog (ct_payload (catalog_contract ev)) (catalog_abs (db w)))"
    and "\<And>w u w1. write w = (Inr u, w1) \<Longrightarrow> P (db w)"
  shows "commits (store write [ev]) (\<lambda>_ d l d1 l1. P d \<and> announced (ct_payload (catalog_contract ev)) d l d1 l1)"
  unfolding store_def catalog_tx_def
proof (rule pg.commits_tx)
  fix w x w1
  assume "bnd write (\<lambda>_. catalog_publish [ev]) w = (Inr x, w1)"
  then obtain u w2 where run: "write w = (Inr u, w2)" "(publish_events ''catalog.events'' ''catalog-service'' [catalog_contract ev] :: unit catalog_act) w2 = (Inr x, w1)"
    unfolding bnd_Inr catalog_publish_def by auto
  have "log w2 = log w" using assms(1) [OF run(1)] by (simp add: log_def)
  with publish_one [OF run(2)] assms(1) [OF run(1)] assms(2) [OF run(1)]
  show "P (db w) \<and> announced (ct_payload (catalog_contract ev)) (db w) (log w) (db w1) (log w1)"
    by (auto simp: announced_def carries_def)
qed

lemma artist_create_Inr:
  "artist_create a w = (Inr u, w1) \<Longrightarrow> \<not> has_row ar_id (ar_id a) (artists (db w)) \<and> outbox w1 = outbox w \<and>
     db w1 = (db w)\<lparr>artists := artists (db w) @ [a\<lparr>ar_created := pg_time (ar_created a), ar_updated := pg_time (ar_updated a)\<rparr>]\<rparr>"
  by (auto simp: artist_create_def stmt_Inr split: if_splits)

lemma stores_artist: "commits (store (artist_create a) [ArtistCreated a]) (\<lambda>_. announced (PArtist (ar_id a) (ar_name a)))"
proof (rule store_announces [of _ "ArtistCreated a" "\<lambda>_. True", simplified])
  fix w u w1
  assume "artist_create a w = (Inr u, w1)"
  note i = artist_create_Inr [OF this]
  let ?a = "a\<lparr>ar_created := pg_time (ar_created a), ar_updated := pg_time (ar_updated a)\<rparr>"
  have "catalog_ok (db w1) \<and> catalog_abs (db w1) = apply_catalog (PArtist (ar_id a) (ar_name a)) (catalog_abs (db w))"
    if ok: "catalog_ok (db w)"
    using catalog_insert_artist [OF ok, of ?a] i by simp
  with i show "outbox w1 = outbox w \<and> (catalog_ok (db w) \<longrightarrow> catalog_ok (db w1) \<and> catalog_abs (db w1) =
      catalog_abs (db w)\<lparr>cv_artists := (cv_artists (catalog_abs (db w)))(ar_id a \<mapsto> ar_name a)\<rparr>)"
    by simp
qed

lemma stores_album:
  assumes release: "al_release a = time_truncate day (al_release a)"
  shows "commits (store (album_create a) [AlbumCreated a]) (\<lambda>_. announced (album_payload a))"
proof (rule store_announces [of _ "AlbumCreated a" "\<lambda>_. True", simplified])
  fix w u w1
  assume "album_create a w = (Inr u, w1)"
  then obtain w2 where run: "bnd (album_insert a) (\<lambda>_. bnd (album_credit_artists a) (\<lambda>_.
        if 0 < length (al_genres a) then album_credit_genres a else ret ())) (advance w) = (Inr u, w2)" "w1 = advance w2"
    unfolding album_create_def in_tx_Inr by blast
  have adv: "db (advance w) = db w" "outbox (advance w) = outbox w" by simp_all
  from album_rows_Inr [OF run(1), unfolded adv] obtain as gs where i: "\<not> has_row ab_id (al_id a) (albums (db w))" "outbox w2 = outbox w"
    "insert_credits ''album_artists_pkey'' ''album_artists_artist_id_fkey'' (al_id a) (al_artists a)
      (\<lambda>x. has_row ar_id x (artists (db w))) (album_artists (db w)) = Inr as"
    "if al_genres a = [] then gs = album_genres (db w) else
      insert_credits ''album_genres_pkey'' ''album_genres_genre_id_fkey'' (al_id a) (al_genres a)
        (\<lambda>x. has_row gn_id x (genres (db w))) (album_genres (db w)) = Inr gs"
    "db w2 = (db w)\<lparr>albums := albums (db w) @ [stored_album a], album_artists := as, album_genres := gs\<rparr>"
    by blast
  have s: "ab_id (stored_album a) = al_id a" "ab_title (stored_album a) = al_title a"
    "ab_type (stored_album a) = al_type a" "ab_release (stored_album a) = al_release a"
    using release by (simp_all add: stored_album_def)
  show "outbox w1 = outbox w \<and> (catalog_ok (db w) \<longrightarrow>
      catalog_ok (db w1) \<and> catalog_abs (db w1) = apply_catalog (album_payload a) (catalog_abs (db w)))"
    using catalog_insert_album [OF _ i(1,3,4) release s] i(2,5) run(2) by simp
qed

lemma stores_track: "commits (store (track_create t) [TrackCreated t])
    (\<lambda>_ d l d1 l1. row_with tw_id (tk_id t) (songs d) = None \<and> announced (track_payload t) d l d1 l1)"
proof (rule store_announces [of _ "TrackCreated t" "\<lambda>d. row_with tw_id (tk_id t) (songs d) = None", simplified])
  fix w u w1
  assume "track_create t w = (Inr u, w1)"
  then obtain w2 where run: "bnd (track_insert t) (\<lambda>_. track_credit_artists t) (advance w) = (Inr u, w2)" "w1 = advance w2"
    unfolding track_create_def in_tx_Inr by blast
  from track_rows_Inr [OF run(1)] obtain cs where i: "song_row_ok (song_row_of t)" "\<not> has_row tw_id (tk_id t) (songs (db w))"
    "positions_ok (songs (db w) @ [song_row_of t])" "has_row ab_id (tk_album t) (albums (db w))" "outbox w2 = outbox w"
    "insert_credits ''track_artists_pkey'' ''track_artists_artist_id_fkey'' (tk_id t) (tk_artists t)
      (\<lambda>x. has_row ar_id x (artists (db w))) (song_artists (db w)) = Inr cs"
    "db w2 = (db w)\<lparr>songs := songs (db w) @ [song_row_of t], song_artists := cs\<rparr>"
    by auto
  show "row_with tw_id (tk_id t) (songs (db w)) = None" using i(2) by (simp add: has_row_row_with)
  show "outbox w1 = outbox w \<and> (catalog_ok (db w) \<longrightarrow>
      catalog_ok (db w1) \<and> catalog_abs (db w1) = apply_catalog (track_payload t) (catalog_abs (db w)))"
    using catalog_insert_track [OF _ i(1-4,6)] i(5,7) run(2) by simp
qed

text \<open>A modification: nothing, or a new state of one track and the event that carries it.\<close>

definition modified :: "uuid \<Rightarrow> (track \<Rightarrow> bool \<times> track \<Rightarrow> bool) \<Rightarrow> track \<Rightarrow> catalog_db \<Rightarrow> catalog_payload message list \<Rightarrow> catalog_db \<Rightarrow> catalog_payload message list \<Rightarrow> bool" where
  "modified i R t d l d1 l1 \<longleftrightarrow> (\<exists>r. row_with tw_id i (songs d) = Some r \<and>
     (R (scan_track_row d r) (False, t) \<and> d1 = d \<and> l1 = l \<or>
      R (scan_track_row d r) (True, t) \<and>
      (same_song (scan_track_row d r) t \<longrightarrow> announced (track_payload t) d l d1 l1) \<and>
      songs d1 = update_rows (\<lambda>r. tw_id r = tk_id t) (update_song t) (songs d)))"

lemma commits_modify_track:
  assumes "\<And>t0. reads_only (modify t0)" "\<And>t0 w r w1. modify t0 w = (Inr r, w1) \<Longrightarrow> R t0 r"
  shows "commits (modify_track i modify) (modified i R)"
  unfolding modify_track_def catalog_tx_def track_get_for_update_def
proof (rule pg.commits_tx)
  fix w t w1
  assume run: "bnd (track_get i) (\<lambda>t0. bnd (modify t0) (\<lambda>(changed, t).
        if \<not> changed then ret t
        else bnd (track_update t) (\<lambda>_. bnd (catalog_publish [TrackUpdated t]) (\<lambda>_. ret t)))) w = (Inr t, w1)"
  obtain t0 w2 where a: "track_get i w = (Inr t0, w2)" and rest: "bnd (modify t0) (\<lambda>(changed, t).
        if \<not> changed then ret t
        else bnd (track_update t) (\<lambda>_. bnd (catalog_publish [TrackUpdated t]) (\<lambda>_. ret t))) w2 = (Inr t, w1)"
    using run unfolding bnd_Inr [of "track_get i"] by blast
  obtain c t1 w3 where b: "modify t0 w2 = (Inr (c, t1), w3)" and rest2: "(if \<not> c then ret t1
        else bnd (track_update t1) (\<lambda>_. bnd (catalog_publish [TrackUpdated t1]) (\<lambda>_. ret t1))) w3 = (Inr t, w1)"
    using rest unfolding bnd_Inr [of "modify t0"] by auto
  obtain r where r: "row_with tw_id i (songs (db w)) = Some r" "t0 = scan_track_row (db w) r" "w2 = advance w"
    using track_get_Inr [OF a] by blast
  have w3: "db w3 = db w" "log w3 = log w" using reads_onlyD [OF assms(1) b] r(3) by simp_all
  have R: "R (scan_track_row (db w) r) (c, t1)" using assms(2) [OF b] r(2) by simp
  show "modified i R t (db w) (log w) (db w1) (log w1)"
  proof (cases c)
    case False
    then have "t1 = t" "w1 = w3" using rest2 by (simp_all add: ret_Inr)
    with R r(1) w3 False show ?thesis by (auto simp: modified_def)
  next
    case True
    then obtain u w4 u2 where c: "track_update t1 w3 = (Inr u, w4)" "catalog_publish [TrackUpdated t1] w4 = (Inr u2, w1)" "t1 = t"
      using rest2 by (auto simp: bnd_Inr ret_Inr)
    let ?rs = "update_rows (\<lambda>r. tw_id r = tk_id t) (update_song t) (songs (db w))"
    have u: "list_all song_row_ok (filter (\<lambda>r. tw_id r = tk_id t) ?rs)" "positions_ok ?rs" "db w4 = (db w)\<lparr>songs := ?rs\<rparr>" "log w4 = log w"
      using track_update_Inr [OF c(1)] w3 c(3) by (simp_all add: Let_def log_def)
    have p: "(publish_events ''catalog.events'' ''catalog-service'' [catalog_contract (TrackUpdated t)] :: unit catalog_act) w4 = (Inr u2, w1)"
      using c(2,3) by (simp add: catalog_publish_def)
    have ann: "announced (track_payload t) (db w) (log w) (db w1) (log w1)" if same: "same_song (scan_track_row (db w) r) t"
      using publish_one [OF p] u(3,4) catalog_update_track [OF _ r(1) same refl u(1,2)]
      by (auto simp: announced_def carries_def)
    have "songs (db w1) = ?rs" using publish_one [OF p] u(3) by simp
    with ann R r(1) True c(3) show ?thesis by (auto simp: modified_def)
  qed
qed

definition changes_song :: "track_changes \<Rightarrow> track \<Rightarrow> bool \<times> track \<Rightarrow> bool" where
  "changes_song c t0 r \<longleftrightarrow> (\<exists>now. apply_changes c now t0 = Inr r)"

definition advances_song :: "media_stage \<Rightarrow> track \<Rightarrow> bool \<times> track \<Rightarrow> bool" where
  "advances_song stage t0 r \<longleftrightarrow> (\<exists>now. advance_media stage now t0 = r)"

lemma commits_update_track: "commits (update_track i c) (modified i (changes_song c))"
  unfolding update_track_def
  by (rule commits_modify_track)
    (auto simp: from_sum_def changes_song_def act_inv intro!: reads split: sum.splits)

lemma commits_advance_track_media: "commits (advance_track_media i stage) (modified i (advances_song stage))"
  unfolding advance_track_media_def
  by (rule commits_modify_track) (auto simp: advances_song_def act_inv intro!: reads)

lemma modified_inv:
  assumes "modified i R t d l d1 l1" "\<And>t0 r. R t0 r \<Longrightarrow> same_song t0 (snd r)" "catalog_inv d l"
  shows "catalog_inv d1 l1"
proof -
  obtain r where "R (scan_track_row d r) (False, t) \<and> d1 = d \<and> l1 = l \<or>
      R (scan_track_row d r) (True, t) \<and> (same_song (scan_track_row d r) t \<longrightarrow> announced (track_payload t) d l d1 l1)"
    using assms(1) unfolding modified_def by blast
  then show ?thesis
  proof
    assume "R (scan_track_row d r) (False, t) \<and> d1 = d \<and> l1 = l"
    with assms(3) show ?thesis by simp
  next
    assume r: "R (scan_track_row d r) (True, t) \<and> (same_song (scan_track_row d r) t \<longrightarrow> announced (track_payload t) d l d1 l1)"
    then have "same_song (scan_track_row d r) t" using assms(2) [of "scan_track_row d r" "(True, t)"] by simp
    with r have "announced (track_payload t) d l d1 l1" by blast
    from announced_inv [OF this assms(3)] show ?thesis .
  qed
qed

lemma same_song_changes_song: "changes_song c t0 r \<Longrightarrow> same_song t0 (snd r)"
  by (cases r) (auto simp: changes_song_def dest: same_song_changes)

lemma same_song_advances_song: "advances_song st t0 r \<Longrightarrow> same_song t0 (snd r)"
  by (cases r) (auto simp: advances_song_def dest: same_song_media)

section \<open>Runs\<close>

text \<open>The transactions of the use cases, in any interleaving, each with its own environment.\<close>

datatype catalog_step = StepArtist uuid string time
  | StepAlbum uuid string string time "uuid list" "uuid list" time
  | StepTrack "string \<Rightarrow> string" uuid uuid track_params time
  | StepUpdate uuid track_changes | StepMedia uuid media_stage

type_synonym catalog_world = "(catalog_db, unit, catalog_payload) world"

fun run_catalog_step :: "catalog_step \<Rightarrow> catalog_world \<Rightarrow> catalog_world" where
  "run_catalog_step (StepArtist i name now) w =
     snd (bnd (from_sum (new_artist i name now)) (\<lambda>a. store (artist_create a) [ArtistCreated a]) w)"
| "run_catalog_step (StepAlbum i title ty release crs gs now) w =
     snd (bnd (from_sum (new_album i title ty release crs gs now)) (\<lambda>a. store (album_create a) [AlbumCreated a]) w)"
| "run_catalog_step (StepTrack upper i album p now) w =
     snd (bnd (from_sum (new_track upper i album p now)) (\<lambda>t. store (track_create t) [TrackCreated t]) w)"
| "run_catalog_step (StepUpdate i c) w = snd (update_track i c w)"
| "run_catalog_step (StepMedia i stage) w = snd (advance_track_media i stage w)"

definition run_catalog :: "catalog_step list \<Rightarrow> catalog_world \<Rightarrow> catalog_world" where
  "run_catalog ss w = fold run_catalog_step ss w"

definition catalog_start :: "genre list \<Rightarrow> (nat \<Rightarrow> fate) \<Rightarrow> (nat \<Rightarrow> time) \<Rightarrow> (nat \<Rightarrow> uuid option) \<Rightarrow> catalog_world" where
  "catalog_start gs f c u = \<lparr>tick = 0, fates = f, clock = c, fresh = u,
     db = \<lparr>artists = [], genres = gs, albums = [], album_artists = [], album_genres = [], songs = [], song_artists = []\<rparr>,
     outbox = [], next_row = 1, ext = ()\<rparr>"

lemma keeps_from_sum [keeps]: "keeps_inv I (from_sum r)"
  by (cases r) (simp_all add: from_sum_def keeps)

lemma keeps_update_track: "keeps_inv catalog_inv (update_track i c)"
  by (rule commits_keeps [OF commits_update_track]) (erule modified_inv, rule same_song_changes_song)

lemma keeps_advance_track_media: "keeps_inv catalog_inv (advance_track_media i stage)"
  by (rule commits_keeps [OF commits_advance_track_media]) (erule modified_inv, rule same_song_advances_song)

lemma new_album_release: "new_album i title ty release crs gs now = Inr a \<Longrightarrow> al_release a = time_truncate day (al_release a)"
  by (auto simp: new_album_def Let_def v_err_def split: if_splits sum.splits)

lemma keeps_snd: "keeps_inv I m \<Longrightarrow> I (db w) (log w) \<Longrightarrow> I (db (snd (m w))) (log (snd (m w)))"
  using keeps_invD [of I m w "fst (m w)" "snd (m w)"] by simp

lemma catalog_step_inv:
  assumes "catalog_inv (db w) (log w)"
  shows "catalog_inv (db (run_catalog_step st w)) (log (run_catalog_step st w))"
proof -
  note k = keeps_snd [where I = catalog_inv, OF _ assms]
  have artist: "keeps_inv catalog_inv (store (artist_create a) [ArtistCreated a])" for a
    by (rule commits_keeps [OF stores_artist]) (rule announced_inv)
  have track: "keeps_inv catalog_inv (store (track_create t) [TrackCreated t])" for t
    by (rule commits_keeps [OF stores_track]) (erule conjE, rule announced_inv)
  show ?thesis
  proof (cases st)
    case (StepArtist i name now)
    then show ?thesis using k [OF keeps_bnd [OF keeps_from_sum artist]] by simp
  next
    case (StepAlbum i title ty release crs gs now)
    have "keeps_inv catalog_inv (bnd (from_sum (new_album i title ty release crs gs now)) (\<lambda>a. store (album_create a) [AlbumCreated a]))"
    proof (rule keeps_bnd_when [OF keeps_from_sum])
      show "al_release a = time_truncate day (al_release a)"
        if "from_sum (new_album i title ty release crs gs now) w = (Inr a, w1)" for w a w1
      proof -
        have "new_album i title ty release crs gs now = Inr a"
          using that by (simp add: from_sum_def ret_Inr fail_Inr split: sum.splits)
        then show ?thesis by (rule new_album_release)
      qed
      show "keeps_inv catalog_inv (store (album_create a) [AlbumCreated a])"
        if "al_release a = time_truncate day (al_release a)" for a
        by (rule commits_keeps [OF stores_album [OF that]]) (rule announced_inv)
    qed
    from k [OF this] StepAlbum show ?thesis by simp
  next
    case (StepTrack upper i album p now)
    then show ?thesis using k [OF keeps_bnd [OF keeps_from_sum track]] by simp
  next
    case (StepUpdate i c)
    then show ?thesis using k [OF keeps_update_track] by simp
  next
    case (StepMedia i stage)
    then show ?thesis using k [OF keeps_advance_track_media] by simp
  qed
qed

lemma run_catalog_inv:
  "catalog_inv (db w) (log w) \<Longrightarrow> catalog_inv (db (run_catalog ss w)) (log (run_catalog ss w))"
  by (induction ss arbitrary: w) (simp_all add: run_catalog_def catalog_step_inv)

lemma catalog_start_inv: "catalog_inv (db (catalog_start gs f c u)) (log (catalog_start gs f c u))"
  by (simp add: catalog_start_def catalog_inv_def catalog_ok_def credits_ok_def positions_ok_def log_def
      catalog_replay_def catalog_abs_def)

text \<open>C13: Whatever calls are lost and however requests and pipeline signals interleave, the
  committed \<open>catalog.events\<close>, replayed in order, rebuild artists, albums and tracks as the
  tables have them, and the constraints of the schema hold: unique keys, one live track per
  position of an album, valid tracks, credits of known artists and genres only.\<close>

theorem catalog_events_rebuild_state:
  "let w = run_catalog ss (catalog_start gs f c u) in catalog_replay (log w) = catalog_abs (db w) \<and> catalog_ok (db w)"
  using run_catalog_inv [OF catalog_start_inv, of ss gs f c u] by (simp add: catalog_inv_def Let_def)

section \<open>The life cycle of a track\<close>

definition song_status :: "catalog_db \<Rightarrow> uuid \<Rightarrow> track_status option" where
  "song_status d i = map_option tw_status (row_with tw_id i (songs d))"

lemma song_status_abs: "song_status d i = map_option tv_status (cv_tracks (catalog_abs d) i)"
  by (cases "row_with tw_id i (songs d)") (simp_all add: song_status_def catalog_abs_def view_track_def scan_track_row_def)

lemma update_song_status:
  assumes "songs d1 = update_rows (\<lambda>r. tw_id r = tk_id t) (update_song t) (songs d)"
  shows "song_status d1 j = (if j = tk_id t then map_option (\<lambda>_. tk_status t) (song_status d j) else song_status d j)"
  using assms row_with_update_key [of tw_id "update_song t" j "tk_id t" "songs d"]
  by (simp add: song_status_def update_song_def option.map_comp comp_def)

lemma modified_status:
  assumes m: "modified i R t d l d1 l1" and R: "\<And>t0 r. R t0 r \<Longrightarrow> tk_id (snd r) = tk_id t0"
  shows "song_status d1 = song_status d \<or> (\<exists>t0. R t0 (True, t) \<and> song_status d i = Some (tk_status t0) \<and>
    song_status d1 = (song_status d)(i \<mapsto> tk_status t))"
proof -
  obtain r where r: "row_with tw_id i (songs d) = Some r" and
    c: "d1 = d \<or> R (scan_track_row d r) (True, t) \<and> songs d1 = update_rows (\<lambda>r. tw_id r = tk_id t) (update_song t) (songs d)"
    using m unfolding modified_def by blast
  show ?thesis
  proof (cases "d1 = d")
    case False
    with c have c: "R (scan_track_row d r) (True, t)" "songs d1 = update_rows (\<lambda>r. tw_id r = tk_id t) (update_song t) (songs d)"
      by blast+
    have i: "tk_id t = i" using R [OF c(1)] row_with_SomeD [OF r] by (simp add: scan_track_row_def)
    have s: "song_status d i = Some (tk_status (scan_track_row d r))" using r by (simp add: song_status_def scan_track_row_def)
    have "song_status d1 = (song_status d)(i \<mapsto> tk_status t)"
      using update_song_status [OF c(2)] i s by (auto simp: fun_eq_iff)
    with c(1) s show ?thesis by blast
  qed simp
qed

lemma apply_changes_status:
  "apply_changes c now t0 = Inr (b, t) \<Longrightarrow> tk_status t = tk_status t0 \<or> can_transition_to (tk_status t0) (tk_status t)"
  by (auto simp: apply_changes_def changed_status_def Let_def split: if_splits sum.splits option.splits)

lemma media_next_allowed:
  "media_next stage s = Some n \<Longrightarrow> can_transition_to s n \<or> s = TrackStatusDraft \<and> n = TrackStatusReady \<and> stage = MediaTranscoded"
  by (auto simp: media_next_def can_transition_to_def allowed_transitions_def split: if_splits)

lemma advance_media_status:
  "advance_media stage now t0 = (True, t) \<Longrightarrow> media_next stage (tk_status t0) = Some (tk_status t)"
  by (auto simp: advance_media_def split: option.splits)

definition life_step :: "catalog_step \<Rightarrow> uuid \<Rightarrow> track_status option \<Rightarrow> track_status option \<Rightarrow> bool" where
  "life_step st i a b \<longleftrightarrow> b = a \<or> a = None \<and> b = Some TrackStatusDraft \<or>
     (\<exists>x y. a = Some x \<and> b = Some y \<and> (can_transition_to x y \<or>
        x = TrackStatusDraft \<and> y = TrackStatusReady \<and> st = StepMedia i MediaTranscoded))"

lemma life_step_refl [simp]: "life_step st i a a"
  by (simp add: life_step_def)

lemma commits_life:
  assumes "commits m Q" and "\<And>x d l d1 l1. Q x d l d1 l1 \<Longrightarrow> catalog_ok d \<Longrightarrow> life_step st i (song_status d i) (song_status d1 i)"
    and "catalog_ok (db w)"
  shows "life_step st i (song_status (db w) i) (song_status (db (snd (m w))) i)"
proof -
  obtain r w1 where run: "m w = (r, w1)" by (cases "m w")
  from commitsD [OF assms(1) run] show ?thesis using assms(2,3) run by (cases r) auto
qed

lemma life_from_sum:
  assumes "\<And>x. r = Inr x \<Longrightarrow> life_step st i (song_status (db w) i) (song_status (db (snd (f x w))) i)"
  shows "life_step st i (song_status (db w) i) (song_status (db (snd (bnd (from_sum r) f w))) i)"
  using assms by (cases r) (simp_all add: from_sum_def bnd_def fail_def ret_def)

lemma announced_status:
  "announced p d l d1 l1 \<Longrightarrow> catalog_ok d \<Longrightarrow>
     song_status d1 i = map_option tv_status (cv_tracks (apply_catalog p (catalog_abs d)) i)"
  by (simp add: announced_def song_status_abs)

lemma life_catalog_step:
  assumes ok: "catalog_ok (db w)"
  shows "life_step st i (song_status (db w) i) (song_status (db (run_catalog_step st w)) i)"
proof (cases st)
  case (StepArtist j name now)
  have "life_step st i (song_status (db w) i) (song_status (db (snd (store (artist_create a) [ArtistCreated a] w))) i)" for a
    by (rule commits_life [OF stores_artist _ ok]) (drule announced_status [where i = i], assumption, simp add: song_status_abs)
  then show ?thesis unfolding StepArtist run_catalog_step.simps by (intro life_from_sum)
next
  case (StepAlbum j title ty release crs gs now)
  have "life_step st i (song_status (db w) i) (song_status (db (snd (store (album_create a) [AlbumCreated a] w))) i)"
    if "new_album j title ty release crs gs now = Inr a" for a
    by (rule commits_life [OF stores_album [OF new_album_release [OF that]] _ ok])
      (drule announced_status [where i = i], assumption, simp add: song_status_abs album_payload_def)
  then show ?thesis unfolding StepAlbum run_catalog_step.simps by (intro life_from_sum)
next
  case (StepTrack upper j album p now)
  have "life_step st i (song_status (db w) i) (song_status (db (snd (store (track_create t) [TrackCreated t] w))) i)"
    if "new_track upper j album p now = Inr t" for t
  proof (rule commits_life [OF stores_track _ ok])
    fix x d l d1 l1
    assume a: "row_with tw_id (tk_id t) (songs d) = None \<and> announced (track_payload t) d l d1 l1" and "catalog_ok d"
    have "tk_status t = TrackStatusDraft"
      using that by (auto simp: new_track_def Let_def split: sum.splits)
    moreover have "song_status d (tk_id t) = None" using a by (simp add: song_status_def)
    ultimately show "life_step st i (song_status d i) (song_status d1 i)"
      using announced_status [of "track_payload t" d l d1 l1 i] a \<open>catalog_ok d\<close>
      by (auto simp: life_step_def track_payload_def song_status_abs)
  qed
  then show ?thesis unfolding StepTrack run_catalog_step.simps by (intro life_from_sum)
next
  case (StepUpdate j c)
  have "life_step st i (song_status d i) (song_status d1 i)" if m: "modified j (changes_song c) t d l d1 l1" for t d l d1 l1
  proof -
    have "song_status d1 = song_status d \<or> (\<exists>t0. changes_song c t0 (True, t) \<and> song_status d j = Some (tk_status t0) \<and>
        song_status d1 = (song_status d)(j \<mapsto> tk_status t))"
      by (rule modified_status [OF m]) (drule same_song_changes_song, simp add: same_song_def)
    then show ?thesis by (cases "i = j") (auto simp: life_step_def changes_song_def dest!: apply_changes_status)
  qed
  then have "life_step st i (song_status (db w) i) (song_status (db (snd (update_track j c w))) i)"
    by (rule commits_life [OF commits_update_track _ ok])
  then show ?thesis by (simp add: StepUpdate)
next
  case (StepMedia j stage)
  have "life_step st i (song_status d i) (song_status d1 i)" if m: "modified j (advances_song stage) t d l d1 l1" for t d l d1 l1
  proof -
    have "song_status d1 = song_status d \<or> (\<exists>t0. advances_song stage t0 (True, t) \<and> song_status d j = Some (tk_status t0) \<and>
        song_status d1 = (song_status d)(j \<mapsto> tk_status t))"
      by (rule modified_status [OF m]) (drule same_song_advances_song, simp add: same_song_def)
    then show ?thesis
      using StepMedia by (cases "i = j") (auto simp: life_step_def advances_song_def dest!: advance_media_status media_next_allowed)
  qed
  then have "life_step st i (song_status (db w) i) (song_status (db (snd (advance_track_media j stage w))) i)"
    by (rule commits_life [OF commits_advance_track_media _ ok])
  then show ?thesis by (simp add: StepMedia)
qed

text \<open>C14: A track lives by its state machine: it enters as a draft, and every step of a run, a
  request or a signal of the media pipeline, keeps its status, moves it along an allowed
  transition, or is the transcoder's report that makes a draft ready at once. A deleted track
  stays deleted.\<close>

theorem track_lifecycle:
  "let w = run_catalog ss (catalog_start gs f c u);
       a = song_status (db w) i; b = song_status (db (run_catalog_step st w)) i
   in (b = a \<or> a = None \<and> b = Some TrackStatusDraft \<or>
     (\<exists>x y. a = Some x \<and> b = Some y \<and> (can_transition_to x y \<or>
        x = TrackStatusDraft \<and> y = TrackStatusReady \<and> st = StepMedia i MediaTranscoded))) \<and>
     (\<nexists>y. can_transition_to TrackStatusDeleted y)"
proof -
  have "catalog_ok (db (run_catalog ss (catalog_start gs f c u)))"
    using run_catalog_inv [OF catalog_start_inv] by (simp add: catalog_inv_def)
  from life_catalog_step [OF this, of st i] show ?thesis
    by (simp add: Let_def life_step_def can_transition_to_def allowed_transitions_def)
qed

section \<open>The pipeline's events are read at least once\<close>

text \<open>What a media event does to the statuses.\<close>

definition advance_status :: "media_stage \<Rightarrow> track_status \<Rightarrow> track_status" where
  "advance_status stage s = (case media_next stage s of None \<Rightarrow> s | Some n \<Rightarrow> n)"

definition media_signal :: "media_event option \<Rightarrow> (uuid \<times> media_stage) option" where
  "media_signal ev = (case ev of None \<Rightarrow> None
     | Some e \<Rightarrow> (case media_stages (me_type e) of None \<Rightarrow> None
       | Some stage \<Rightarrow> if me_version e \<noteq> 1 then None else map_option (\<lambda>i. (i, stage)) (me_track e)))"

definition media_step :: "media_event option \<Rightarrow> (uuid \<Rightarrow> track_status option) \<Rightarrow> (uuid \<Rightarrow> track_status option)" where
  "media_step ev v = (case media_signal ev of None \<Rightarrow> v
     | Some (i, stage) \<Rightarrow> v(i := map_option (advance_status stage) (v i)))"

definition stages_of :: "uuid \<Rightarrow> media_event option list \<Rightarrow> media_stage list" where
  "stages_of i evs = map snd (filter (\<lambda>(j, _). j = i) (List.map_filter media_signal evs))"

lemma stages_of_Cons: "stages_of i (ev # evs) = stages_of i [ev] @ stages_of i evs"
  by (simp add: stages_of_def map_filter_simps split: option.splits)

lemma media_step_at: "media_step ev v i = map_option (fold advance_status (stages_of i [ev])) (v i)"
proof (cases "media_signal ev")
  case None
  then show ?thesis by (cases "v i") (simp_all add: media_step_def stages_of_def map_filter_simps)
next
  case (Some p)
  then show ?thesis by (cases p; cases "v i") (auto simp: media_step_def stages_of_def map_filter_simps)
qed

lemma media_fold_at: "fold media_step evs v i = map_option (fold advance_status (stages_of i evs)) (v i)"
proof (induction evs arbitrary: v)
  case Nil
  then show ?case by (cases "v i") (simp_all add: stages_of_def map_filter_simps)
next
  case (Cons ev evs)
  have "fold media_step (ev # evs) v i = map_option (fold advance_status (stages_of i evs)) (media_step ev v i)"
    using Cons.IH by simp
  also have "\<dots> = map_option (fold advance_status (stages_of i (ev # evs))) (v i)"
    unfolding media_step_at stages_of_Cons [of i ev evs] by (cases "v i") simp_all
  finally show ?case .
qed

text \<open>A stretch of signals ends where its last one leads, unless the track got ready.\<close>

abbreviation waiting_audio :: "track_status \<Rightarrow> bool" where
  "waiting_audio s \<equiv> s \<in> {TrackStatusDraft, TrackStatusProcessing}"

lemma advance_settled: "\<not> waiting_audio s \<Longrightarrow> fold advance_status q s = s"
  by (induction q) (auto simp: advance_status_def media_next_def)

lemma advance_transcoded: "waiting_audio s \<Longrightarrow> MediaTranscoded \<in> set q \<Longrightarrow> fold advance_status q s = TrackStatusReady"
proof (induction q arbitrary: s)
  case (Cons stage q)
  show ?case
  proof (cases "stage = MediaTranscoded")
    case True
    then have "advance_status stage s = TrackStatusReady" using Cons.prems by (auto simp: advance_status_def media_next_def)
    then show ?thesis using advance_settled [of TrackStatusReady q] by simp
  next
    case False
    then have "waiting_audio (advance_status stage s)"
      using Cons.prems by (cases stage) (auto simp: advance_status_def media_next_def)
    moreover have "MediaTranscoded \<in> set q" using False Cons.prems by auto
    ultimately show ?thesis using Cons.IH [of "advance_status stage s"] by simp
  qed
qed simp

lemma advance_status_waiting:
  "waiting_audio s \<Longrightarrow> advance_status MediaUploaded s = TrackStatusProcessing"
  "waiting_audio s \<Longrightarrow> advance_status MediaFailed s = TrackStatusDraft"
  by (auto simp: advance_status_def media_next_def)

lemma advance_waiting:
  "waiting_audio s \<Longrightarrow> MediaTranscoded \<notin> set q \<Longrightarrow> fold advance_status q s =
     (if q = [] then s else if last q = MediaUploaded then TrackStatusProcessing else TrackStatusDraft)"
proof (induction q rule: rev_induct)
  case (snoc stage q)
  then have IH: "fold advance_status q s =
     (if q = [] then s else if last q = MediaUploaded then TrackStatusProcessing else TrackStatusDraft)" by simp
  have "waiting_audio (fold advance_status q s)" unfolding IH using snoc.prems(1) by simp
  moreover have "stage \<noteq> MediaTranscoded" using snoc.prems(2) by auto
  ultimately show ?case using advance_status_waiting by (cases stage) simp_all
qed simp

lemma advance_again: "fold advance_status q (fold advance_status q s) = fold advance_status q s"
proof (cases "waiting_audio s")
  case False
  then show ?thesis using advance_settled by simp
next
  case True
  show ?thesis
  proof (cases "MediaTranscoded \<in> set q")
    case t: True
    then show ?thesis using advance_transcoded [OF True] advance_settled [of TrackStatusReady q] by simp
  next
    case False
    then have "waiting_audio (fold advance_status q s)" using advance_waiting [OF True] True by auto
    from advance_waiting [OF this False] advance_waiting [OF True False] show ?thesis by auto
  qed
qed

interpretation media: replay_safe media_step
proof unfold_locales
  fix xs s
  show "fold media_step xs (fold media_step xs s) = fold media_step xs s"
    by (rule ext) (simp add: media_fold_at option.map_comp comp_def advance_again)
qed

subsection \<open>The handler is a transaction on the statuses\<close>

lemma in_tx_Domain: "in_tx ok m w = (Inl (Domain e), w1) \<Longrightarrow> \<exists>w2. m (advance w) = (Inl (Domain e), w2)"
  by (auto simp: in_tx_def split: prod.splits sum.splits if_splits)

text \<open>Actions that fail with a failure of the infrastructure only.\<close>

definition infra_only :: "('d, 'x, 'p, 'e, 'a) act \<Rightarrow> bool" where
  "infra_only m \<longleftrightarrow> (\<forall>w e w1. m w = (Inl e, w1) \<longrightarrow> e = Infra)"

lemma infra_only_basic: "infra_only (ret x)" "infra_only now_utc" "infra_only new_uuid" "infra_only (write_row m)" "infra_only (query f)"
  by (auto simp: infra_only_def ret_def now_utc_def new_uuid_def write_row_def query_def stmt_def Let_def split: option.splits fate.splits)

lemma infra_only_bnd: "infra_only m \<Longrightarrow> (\<And>x. infra_only (f x)) \<Longrightarrow> infra_only (bnd m f)"
  unfolding infra_only_def by (auto simp: bnd_def split: prod.splits sum.splits)

lemma infra_only_new_envelope: "infra_only (new_envelope a b c d p)"
  unfolding new_envelope_def by (intro infra_only_bnd infra_only_basic)

lemma infra_only_encode: "infra_only (encode_events topic producer cs)"
  by (induction cs) (auto intro!: infra_only_bnd infra_only_basic infra_only_new_envelope)

lemma infra_only_write_rows: "infra_only (write_rows ms)"
  by (induction ms) (auto intro!: infra_only_bnd infra_only_basic)

lemma infra_only_publish: "infra_only (publish_events topic producer cs)"
  unfolding publish_events_def by (intro infra_only_bnd infra_only_encode infra_only_write_rows)

lemma track_get_known:
  assumes "row_with tw_id i (songs (db w)) \<noteq> None" "track_get i w = (Inl e, w1)"
  shows "e = Infra"
proof -
  obtain r rs where "filter (\<lambda>r. tw_id r = i) (songs (db w)) = r # rs"
    using assms(1) by (cases "filter (\<lambda>r. tw_id r = i) (songs (db w))") (simp_all add: row_with_filter)
  with assms(2) show ?thesis
    by (cases "fates w (tick w)") (auto simp: track_get_def bnd_def query_def stmt_def ret_def)
qed

lemma track_update_known:
  assumes "has_row tw_id (tk_id t) (songs (db w))"
  shows "track_update t w \<noteq> (Inl (Domain TrackNotFound), w1)"
proof -
  have "affected (\<lambda>r. tw_id r = tk_id t) (songs (db w)) \<noteq> 0" using assms by (simp add: affected_key)
  then show ?thesis
    by (cases "fates w (tick w)")
      (auto simp: track_update_def bnd_def stmt_def Let_def ret_def map_error_def constraint_errors_def split: if_splits)
qed

lemma unknown_track_is_unknown:
  assumes "advance_track_media i stage w = (Inl (Domain TrackNotFound), w1)"
  shows "song_status (db w) i = None \<and> db w1 = db w"
proof -
  have same: "same_state w w1 \<or> (\<exists>x. modified i (advances_song stage) x (db w) (log w) (db w1) (log w1))"
    using commitsD [OF commits_advance_track_media assms] by simp
  obtain w2 where body: "bnd (track_get i) (\<lambda>t0. bnd (bnd now_utc (\<lambda>now. ret (advance_media stage now t0))) (\<lambda>(changed, t).
        if \<not> changed then ret t
        else bnd (track_update t) (\<lambda>_. bnd (catalog_publish [TrackUpdated t]) (\<lambda>_. ret t)))) (advance w) = (Inl (Domain TrackNotFound), w2)"
    using in_tx_Domain [OF assms [unfolded advance_track_media_def modify_track_def catalog_tx_def track_get_for_update_def]]
    by (elim exE) (rule that)
  have none: "song_status (db w) i = None"
  proof (cases "row_with tw_id i (songs (db w))")
    case (Some r)
    show ?thesis
    proof (cases "track_get i (advance w)")
      case (Pair q w3)
      show ?thesis
      proof (cases q)
        case (Inl e)
        then have "e = Infra" using track_get_known [of i "advance w" e w3] Pair Some by simp
        with body Pair Inl show ?thesis by (simp add: bnd_def)
      next
        case (Inr t0)
        obtain r3 where r3: "row_with tw_id i (songs (db w)) = Some r3" "t0 = scan_track_row (db w) r3" "w3 = advance (advance w)"
          using track_get_Inr [of i "advance w" t0 w3] Pair Inr by auto
        obtain c t where am: "advance_media stage (clock w3 (tick w3)) t0 = (c, t)" by fastforce
        have id: "tk_id t = i" using same_song_media [OF am] r3 row_with_SomeD [OF r3(1)]
          by (simp add: same_song_def scan_track_row_def)
        have rest: "(if \<not> c then ret t else bnd (track_update t) (\<lambda>_. bnd (catalog_publish [TrackUpdated t]) (\<lambda>_. ret t)))
            (advance w3) = (Inl (Domain TrackNotFound), w2)"
          using body Pair Inr am by (simp add: bnd_def now_utc_def ret_def)
        have hit: "has_row tw_id (tk_id t) (songs (db (advance w3)))"
          using r3 id by (simp add: has_row_row_with)
        have c using rest by (cases c) (simp_all add: ret_def)
        obtain q2 w4 where up: "track_update t (advance w3) = (q2, w4)" by fastforce
        show ?thesis
        proof (cases q2)
          case (Inl e2)
          with rest up \<open>c\<close> have "e2 = Domain TrackNotFound" by (simp add: bnd_def)
          with track_update_known [OF hit, of w4] up Inl show ?thesis by simp
        next
          case (Inr u)
          then have pub: "bnd (catalog_publish [TrackUpdated t]) (\<lambda>_. ret t) w4 = (Inl (Domain TrackNotFound), w2)"
            using rest up \<open>c\<close> by (simp add: bnd_def)
          have "infra_only (bnd (catalog_publish [TrackUpdated t]) (\<lambda>_. ret t))"
            unfolding catalog_publish_def by (intro infra_only_bnd infra_only_publish infra_only_basic)
          then show ?thesis using pub unfolding infra_only_def by blast
        qed
      qed
    qed
  qed (simp add: song_status_def)
  have "\<not> (\<exists>x. modified i (advances_song stage) x (db w) (log w) (db w1) (log w1))"
    using none by (auto simp: modified_def song_status_def)
  with none same show ?thesis by blast
qed

lemma modified_media_status:
  assumes "modified i (advances_song stage) t d l d1 l1"
  shows "song_status d1 = (song_status d)(i := map_option (advance_status stage) (song_status d i))"
proof -
  obtain r where r: "row_with tw_id i (songs d) = Some r" and
    c: "advances_song stage (scan_track_row d r) (False, t) \<and> d1 = d \<or>
      advances_song stage (scan_track_row d r) (True, t) \<and>
      songs d1 = update_rows (\<lambda>r. tw_id r = tk_id t) (update_song t) (songs d)"
    using assms unfolding modified_def by blast
  have s: "song_status d i = Some (tk_status (scan_track_row d r))" using r by (simp add: song_status_def scan_track_row_def)
  from c show ?thesis
  proof
    assume a: "advances_song stage (scan_track_row d r) (False, t) \<and> d1 = d"
    then have "advance_status stage (tk_status (scan_track_row d r)) = tk_status (scan_track_row d r)"
      by (auto simp: advances_song_def advance_media_def advance_status_def split: option.splits)
    with a s show ?thesis by (simp add: fun_upd_idem)
  next
    assume a: "advances_song stage (scan_track_row d r) (True, t) \<and>
      songs d1 = update_rows (\<lambda>r. tw_id r = tk_id t) (update_song t) (songs d)"
    then have "advance_status stage (tk_status (scan_track_row d r)) = tk_status t"
      by (auto simp: advances_song_def advance_media_def advance_status_def split: option.splits)
    moreover have "tk_id t = i"
      using a same_song_advances_song [of stage "scan_track_row d r" "(True, t)"] row_with_SomeD [OF r]
      by (simp add: same_song_def scan_track_row_def)
    ultimately show ?thesis using a s update_song_status [of d1 t d] by (auto simp: fun_eq_iff)
  qed
qed

lemma advance_track_media_status:
  assumes "advance_track_media i stage w = (r, w1)"
  shows "song_status (db w1) = (song_status (db w))(i := map_option (advance_status stage) (song_status (db w) i)) \<or>
    (song_status (db w1) = song_status (db w) \<and> (\<exists>e. r = Inl e \<and> e \<noteq> Domain TrackNotFound))"
proof (cases r)
  case (Inr t)
  then show ?thesis using commitsD [OF commits_advance_track_media assms] modified_media_status by auto
next
  case (Inl e)
  show ?thesis
  proof (cases "e = Domain TrackNotFound")
    case True
    then have "song_status (db w) i = None \<and> db w1 = db w"
      using unknown_track_is_unknown [of i stage w w1] assms Inl by simp
    then show ?thesis by (simp add: fun_upd_idem)
  next
    case False
    have "same_state w w1 \<or> (\<exists>x. modified i (advances_song stage) x (db w) (log w) (db w1) (log w1))"
      using commitsD [OF commits_advance_track_media assms] Inl by simp
    then show ?thesis
    proof
      assume "same_state w w1"
      with Inl False show ?thesis by simp
    next
      assume "\<exists>x. modified i (advances_song stage) x (db w) (log w) (db w1) (log w1)"
      then show ?thesis using modified_media_status by blast
    qed
  qed
qed

definition media_statuses :: "catalog_world \<Rightarrow> uuid \<Rightarrow> track_status option" where
  "media_statuses w = song_status (db w)"

definition media_handling :: "(catalog_world \<Rightarrow> bool) \<Rightarrow> (catalog_world \<Rightarrow> fate) \<Rightarrow> (media_event option, catalog_world) handling" where
  "media_handling cn df = \<lparr>handle = handle_media, cancelled = cn, dlq_fate = df\<rparr>"

lemma handle_media_transactional: "transactional (\<lambda>_. True) media_statuses media_step (media_handling cn df)"
  unfolding transactional_def
proof (intro allI impI)
  fix r s e s1
  assume run: "handle (media_handling cn df) r s = (e, s1)"
  show "True \<and> (media_statuses s1 = media_step (rec_value r) (media_statuses s) \<or> e \<noteq> None \<and> media_statuses s1 = media_statuses s)"
  proof (cases "media_signal (rec_value r)")
    case None
    then have "s1 = s"
      using run by (auto simp: media_handling_def handle_media_def media_signal_def split: option.splits if_splits)
    with None show ?thesis by (simp add: media_step_def)
  next
    case (Some p)
    then obtain ev i stage where ev: "rec_value r = Some ev" "media_stages (me_type ev) = Some stage" "me_version ev = 1"
        "me_track ev = Some i" "p = (i, stage)"
      by (auto simp: media_signal_def split: option.splits if_splits)
    obtain q w1 where adv: "advance_track_media i stage s = (q, w1)" by fastforce
    have out: "s1 = w1 \<and> (e = None \<longleftrightarrow> (\<exists>t. q = Inr t) \<or> q = Inl (Domain TrackNotFound))"
      using run ev adv by (auto simp: media_handling_def handle_media_def split: sum.splits if_splits)
    have st: "media_step (rec_value r) (media_statuses s) =
        (song_status (db s))(i := map_option (advance_status stage) (song_status (db s) i))"
      using Some ev(5) by (simp add: media_step_def media_statuses_def)
    from advance_track_media_status [OF adv] show ?thesis
      unfolding st using out by (auto simp: media_statuses_def)
  qed
qed


section \<open>Validation against the schema\<close>

lemma v_check_Nil: "v_check ok f msg v = [] \<longleftrightarrow> ok \<and> v = []"
  by (auto simp: v_check_def)

lemma milliseconds_truncate: "0 < d \<Longrightarrow> milliseconds (duration_truncate millisecond d) = d div millisecond"
proof -
  assume d: "0 < d"
  have t: "duration_truncate millisecond d = d div millisecond * millisecond"
    using d by (simp add: duration_truncate_def minus_mod_eq_div_mult)
  show ?thesis unfolding t by (rule milliseconds_times)
qed


text \<open>
  The handler of \<open>POST /tracks\<close>: \<open>time.Duration(req.DurationMs) * time.Millisecond\<close>, a
  product of two \<open>int64\<close>.
\<close>

definition request_duration :: "64 word \<Rightarrow> duration" where
  "request_duration ms = sint (ms * 1000000)"

text \<open>The multiplication in the handler wraps: a request for a track of 18446744073711
  milliseconds, 584 years, passes the limit of 24 hours and creates a track of one millisecond.\<close>

theorem long_duration_wraps_to_valid:
  "case new_track id 2 3 \<lparr>np_artists = [4], np_title = ''x'', np_duration = request_duration 18446744073711,
       np_number = 1, np_disc = 0, np_explicit = False, np_isrc = ''''\<rparr> 1000 of
     Inl e \<Rightarrow> False
   | Inr t \<Rightarrow> milliseconds (tk_duration t) = 1 \<and> song_row_ok (song_row_of t) \<and>
       MaxTrackDuration < 18446744073711 * millisecond"
proof -
  have d: "request_duration 18446744073711 = 1448384" by (simp add: request_duration_def)
  show ?thesis unfolding d by code_simp
qed

section \<open>Paging\<close>

definition listing_albums :: "(album_row \<Rightarrow> bool) \<Rightarrow> catalog_db \<Rightarrow> album list" where
  "listing_albums p d = map (scan_album d) (order_by_desc ab_key (filter p (albums d)))"

lemma al_key_scan [simp]: "al_key (scan_album d r) = ab_key r"
  by (simp add: al_key_def ab_key_def scan_album_def)

lemma unique_ab_key: "unique_on ab_id rs \<Longrightarrow> unique_on ab_key rs"
  by (induction rs) (auto simp: unique_on_def ab_key_def image_iff)

interpretation album_pages: keyset_paging "\<lambda>a b. b < a" al_key "listing_albums p" "\<lambda>d after n. album_page_rows p after n d"
  "\<lambda>d. unique_on ab_id (albums d)"
proof unfold_locales
  fix d :: catalog_db
  assume u: "unique_on ab_id (albums d)"
  show "sorted_wrt (\<lambda>x y. al_key y < al_key x) (listing_albums p d)"
    using strict_order_by_desc [OF unique_on_filter [OF unique_ab_key [OF u]], of p]
    by (simp add: listing_albums_def sorted_wrt_map)
  fix after n
  show "album_page_rows p after n d = take n (beyond (\<lambda>a b. b < a) al_key after (listing_albums p d))"
    by (cases after) (simp_all add: album_page_rows_def listing_albums_def beyond_def filter_map comp_def take_map
        filter_order_by_desc before_cursor_def conj_commute)
qed auto

text \<open>The page of \<open>pageAlbums\<close> over a fetch that is served.\<close>

definition page_of :: "(nat \<Rightarrow> album list) \<Rightarrow> int \<Rightarrow> album list \<times> album_cursor option" where
  "page_of fetch limit = (let n = page_size limit in split_page al_key n (fetch (n + 1)))"

lemma page_size_bounds: "0 < page_size limit \<and> page_size limit \<le> 100"
  by (simp add: page_size_def Let_def nat_le_iff)

lemma page_albums_served:
  assumes "fates w (tick w) = Fine"
  shows "page_albums limit (\<lambda>n. query (f n)) w = (Inr (page_of (\<lambda>n. f n (db w)) limit), advance w)"
  using assms by (simp add: page_albums_def page_of_def Let_def bnd_def query_def stmt_def ret_def)

text \<open>Following the cursors of the album listing, of the whole catalogue or of one artist,
  ends and yields every album once, newest release first, whatever page size is asked for; and
  a page never has more than 100 albums.\<close>

theorem album_walk_complete:
  assumes "catalog_ok d" "length (listing_albums p d) < fuel"
  shows "follow_pages fuel (\<lambda>a. page_of (\<lambda>n. album_page_rows p a n d) limit) None = Some (listing_albums p d) \<and>
    length (fst (page_of (\<lambda>n. album_page_rows p a n d) limit)) \<le> 100"
proof
  have u: "unique_on ab_id (albums d)" using assms(1) by (rule catalog_okD)
  show "follow_pages fuel (\<lambda>a. page_of (\<lambda>n. album_page_rows p a n d) limit) None = Some (listing_albums p d)"
    unfolding page_of_def Let_def using u _ assms(2) by (rule album_pages.follow_all) (use page_size_bounds in blast)
  show "length (fst (page_of (\<lambda>n. album_page_rows p a n d) limit)) \<le> 100"
    using page_size_bounds [of limit] by (auto simp: page_of_def split_page_def Let_def)
qed

section \<open>A concrete run\<close>

definition sample_params :: track_params where
  "sample_params = \<lparr>np_artists = [1], np_title = ''T'', np_duration = 1500000, np_number = 1, np_disc = 0,
     np_explicit = False, np_isrc = ''''\<rparr>"

definition sample_song :: song_row where
  "sample_song = \<lparr>tw_id = 3, tw_album = 2, tw_title = ''T'', tw_ms = 1, tw_number = 1, tw_disc = 1, tw_explicit = False,
     tw_isrc = None, tw_status = TrackStatusDraft, tw_created = 1000, tw_updated = 1000\<rparr>"

definition sample_album :: album_row where
  "sample_album = \<lparr>ab_id = 2, ab_title = ''B'', ab_type = ''EP'', ab_release = day, ab_created = 1000, ab_updated = 1000\<rparr>"

definition sample_tables :: catalog_db where
  "sample_tables = \<lparr>artists = [\<lparr>ar_id = 1, ar_name = ''A'', ar_created = 1000, ar_updated = 1000\<rparr>], genres = [],
     albums = [sample_album], album_artists = [\<lparr>cr_owner = 2, cr_ref = 1, cr_position = 0\<rparr>], album_genres = [],
     songs = [sample_song], song_artists = [\<lparr>cr_owner = 3, cr_ref = 1, cr_position = 0\<rparr>]\<rparr>"

definition sample_catalog :: catalog_world where
  "sample_catalog = (catalog_start [] (\<lambda>_. Fine) (\<lambda>n. int n * 1000) (\<lambda>n. Some (of_nat n)))\<lparr>db := sample_tables\<rparr>"

lemma sample_catalog_ok: "catalog_ok sample_tables"
proof -
  have "song_row_ok sample_song" by code_simp
  then show ?thesis
    by (simp add: catalog_ok_def sample_tables_def credits_ok_def positions_ok_def unique_on_def sample_song_def sample_album_def)
qed

lemma sample_listing: "map al_id (listing_albums (\<lambda>_. True) sample_tables) = [2]"
  by (simp add: listing_albums_def sample_tables_def order_by_desc_def scan_album_def sample_album_def)

theorem album_walk_complete_witness:
  "map_option (map al_id) (follow_pages 3 (\<lambda>a. page_of (\<lambda>n. album_page_rows (\<lambda>_. True) a n sample_tables) 1) None) = Some [2]"
proof -
  have "length (map al_id (listing_albums (\<lambda>_. True) sample_tables)) = 1"
    by (simp add: sample_listing)
  then have "length (listing_albums (\<lambda>_. True) sample_tables) < 3" by simp
  from album_walk_complete [OF sample_catalog_ok this] show ?thesis by (simp add: sample_listing)
qed


definition sample_media :: "media_event option krecord list" where
  "sample_media = map (\<lambda>(n, v). \<lparr>rec_topic = ''media.events'', rec_partition = 0, rec_offset = n, rec_key = 3, rec_value = v, rec_headers = []\<rparr>)
     [(0, Some \<lparr>me_type = ''track.uploaded'', me_version = 1, me_track = Some 3\<rparr>), (1, None),
      (2, Some \<lparr>me_type = ''track.transcoded'', me_version = 1, me_track = Some 3\<rparr>)]"

definition sample_media_member :: "(media_event option, catalog_world) member" where
  "sample_media_member = \<lparr>app = sample_catalog, marks = (\<lambda>_. 0), dead = [], handled = []\<rparr>"

definition sample_media_end :: "(media_event option, catalog_world) member" where
  "sample_media_end = lives sample_consumer (media_handling (\<lambda>_. False) (\<lambda>_. Fine)) (''media.events'', 0) sample_media
     [[(2, Dropped)], [(3, Fine)]] sample_media_member"

lemma sample_media_parked: "map rec_value (dead sample_media_end) = [None, None]"
  by code_simp


end
