(* ===== verification/Http.thy ===== *)
theory Http
  imports World
begin

text \<open>
  The edges of the services: responses of the HTTP handlers in the shape of
  \<^verbatim>\<open>libs/platform/httpserver/respond.go\<close> (status, stable error code, invalid fields; texts
  for people and headers are left out), integers in query strings, and the decoding of event
  envelopes in \<^verbatim>\<open>libs/contracts/events/envelope.go\<close>.
\<close>

section \<open>Responses\<close>

type_synonym fields = "(string \<times> string) list"

datatype 'b response = Reply nat 'b | Problem nat string fields

fun status_of :: "'b response \<Rightarrow> nat" where
  "status_of (Reply s b) = s"
| "status_of (Problem s c fs) = s"

abbreviation CodeBadRequest :: string where "CodeBadRequest \<equiv> ''BAD_REQUEST''"
abbreviation CodeValidation :: string where "CodeValidation \<equiv> ''VALIDATION_FAILED''"
abbreviation CodeInternal :: string where "CodeInternal \<equiv> ''INTERNAL''"
abbreviation CodeUnavailable :: string where "CodeUnavailable \<equiv> ''SERVICE_UNAVAILABLE''"
abbreviation CodeUnauthenticated :: string where "CodeUnauthenticated \<equiv> ''UNAUTHENTICATED''"

text \<open>Setting a field of a map of problems drops its earlier text.\<close>

definition set_field :: "string \<Rightarrow> string \<Rightarrow> fields \<Rightarrow> fields" where
  "set_field k v fs = filter (\<lambda>f. fst f \<noteq> k) fs @ [(k, v)]"

lemma set_field_neq_Nil [simp]: "set_field k v fs \<noteq> []"
  by (simp add: set_field_def)

text \<open>\<open>if !ok { fields[k] = v }\<close>.\<close>

definition require :: "bool \<Rightarrow> string \<Rightarrow> string \<Rightarrow> fields \<Rightarrow> fields" where
  "require ok k v fs = (if ok then fs else set_field k v fs)"

lemma require_Nil [simp]: "require ok k v fs = [] \<longleftrightarrow> ok \<and> fs = []"
  by (simp add: require_def)

section \<open>Integers as text\<close>

text \<open>\<open>strconv.Atoi\<close>: an optional sign and decimal digits, in the range of a 64-bit integer.\<close>

definition digit_value :: "char \<Rightarrow> nat option" where
  "digit_value c = (let n = of_char c in if 48 \<le> n \<and> n \<le> 57 then Some (n - 48) else None)"

fun atoi_digits :: "nat \<Rightarrow> string \<Rightarrow> nat option" where
  "atoi_digits n [] = Some n"
| "atoi_digits n (c # cs) = (case digit_value c of None \<Rightarrow> None | Some d \<Rightarrow> atoi_digits (10 * n + d) cs)"

definition atoi :: "string \<Rightarrow> int option" where
  "atoi s =
     (let neg = s \<noteq> [] \<and> hd s = CHR ''-''; body = (if s \<noteq> [] \<and> hd s \<in> {CHR ''-'', CHR ''+''} then tl s else s) in
      case (if body = [] then None else atoi_digits 0 body) of
        None \<Rightarrow> None
      | Some n \<Rightarrow> let i = (if neg then - int n else int n) in
          if - (2 ^ 63) \<le> i \<and> i < 2 ^ 63 then Some i else None)"

text \<open>The \<open>limit\<close> of a listing: 0 asks for the default; out of range is a problem.\<close>

definition limit_param :: "string \<Rightarrow> int \<Rightarrow> int \<times> fields" where
  "limit_param raw mx =
     (if raw = '''' then (0, [])
      else case atoi raw of
          None \<Rightarrow> (0, [(''limit'', ''out of range'')])
        | Some n \<Rightarrow> (n, if n < 1 \<or> mx < n then [(''limit'', ''out of range'')] else []))"

lemma limit_param_ok:
  "limit_param raw mx = (n, []) \<Longrightarrow> n = 0 \<or> 1 \<le> n \<and> n \<le> mx"
  by (auto simp: limit_param_def split: if_splits option.splits)

section \<open>Envelopes\<close>

text \<open>
  What is on a topic: a value that is no JSON envelope is \<open>None\<close>; inside an envelope a payload
  that does not decode into what the reader expects is \<open>None\<close>.
\<close>

type_synonym 'p wire = "'p option envelope option"

definition envelope_valid :: "'p envelope \<Rightarrow> bool" where
  "envelope_valid e \<longleftrightarrow> env_type e \<noteq> '''' \<and> 1 \<le> env_version e \<and> env_at e \<noteq> 0 \<and> env_producer e \<noteq> ''''"

definition decode_envelope :: "'p wire \<Rightarrow> 'p option envelope option" where
  "decode_envelope v = (case v of None \<Rightarrow> None | Some e \<Rightarrow> if envelope_valid e then Some e else None)"

text \<open>What a reader gets of a published message.\<close>

definition on_wire :: "'p message \<Rightarrow> 'p wire" where
  "on_wire m = Some \<lparr>env_id = env_id (msg_value m), env_type = env_type (msg_value m),
     env_version = env_version (msg_value m), env_at = env_at (msg_value m),
     env_producer = env_producer (msg_value m), env_payload = Some (env_payload (msg_value m))\<rparr>"

section \<open>Plain text\<close>

definition plain :: "string \<Rightarrow> bool" where
  "plain s \<longleftrightarrow> list_all (\<lambda>c. 0 < byte c \<and> byte c < 128) s"

lemma chunks_plain: "plain s \<Longrightarrow> chunks s = map (\<lambda>c. [c]) s"
proof (induction s)
  case (Cons c s)
  then have "lead_len (byte c) = 1" by (simp add: plain_def lead_len_def)
  then have "rune_width (c # s) = 1" by simp
  then show ?case using Cons by (simp add: chunks_Cons plain_def)
qed simp

lemma plain_text_ok: "plain s \<Longrightarrow> text_ok s"
proof -
  assume p: "plain s"
  have "valid_utf8 s" using p by (auto simp: valid_utf8_def chunks_plain plain_def list_all_iff)
  moreover have "CHR 0x00 \<notin> set s" using p by (auto simp: plain_def list_all_iff)
  ultimately show ?thesis by (simp add: text_ok_def)
qed

lemma plain_append [simp]: "plain (s @ t) \<longleftrightarrow> plain s \<and> plain t"
  by (simp add: plain_def)

lemma plain_Cons [simp]: "plain (c # s) \<longleftrightarrow> 0 < byte c \<and> byte c < 128 \<and> plain s"
  by (simp add: plain_def)

lemma plain_Nil [simp]: "plain []"
  by (simp add: plain_def)

end
