(* ===== verification/GoFloat.thy ===== *)
theory GoFloat
  imports Complex_Main
begin

text \<open>
  \<open>float64\<close> values as the rationals they are, with rounding to 53 bits (fewer for subnormal
  numbers), ties to even, after every operation. Infinities and NaN are left out: the code that
  uses this theory stays far below the largest number and does not divide by zero. What is
  proved is that multiples of powers of two are exact while they have 53 bits, and that
  rounding is monotone.
\<close>

type_synonym float64 = rat

fun log2_nat :: "nat \<Rightarrow> nat" where
  "log2_nat n = (if n < 2 then 0 else Suc (log2_nat (n div 2)))"

declare log2_nat.simps [simp del]

definition floor_log2 :: "rat \<Rightarrow> int" where
  "floor_log2 q = (case quotient_of q of (a, b) \<Rightarrow>
     let e = int (log2_nat (nat a)) - int (log2_nat (nat b)) in
     if 2 powi e \<le> q then e else e - 1)"

definition round_even :: "rat \<Rightarrow> int" where
  "round_even x = (let f = \<lfloor>x\<rfloor>; r = x - of_int f in
     if r < 1 / 2 then f else if 1 / 2 < r then f + 1 else if even f then f else f + 1)"

definition float64 :: "rat \<Rightarrow> float64" where
  "float64 q = (if q = 0 then 0 else
     let u = 2 powi (max (floor_log2 \<bar>q\<bar> - 52) (- 1074)) in of_int (round_even (q / u)) * u)"

definition float_mult :: "float64 \<Rightarrow> float64 \<Rightarrow> float64" where
  "float_mult x y = float64 (x * y)"

definition float_add :: "float64 \<Rightarrow> float64 \<Rightarrow> float64" where
  "float_add x y = float64 (x + y)"

definition float_sub :: "float64 \<Rightarrow> float64 \<Rightarrow> float64" where
  "float_sub x y = float64 (x - y)"

definition float_div :: "float64 \<Rightarrow> float64 \<Rightarrow> float64" where
  "float_div x y = float64 (x / y)"

text \<open>\<open>math.Round\<close>: halves away from zero.\<close>

definition float_round :: "float64 \<Rightarrow> float64" where
  "float_round x = (if 0 \<le> x then of_int \<lfloor>x + 1 / 2\<rfloor> else - of_int \<lfloor>1 / 2 - x\<rfloor>)"

section \<open>Exact values\<close>

lemma log2_nat_bounds: "0 < n \<Longrightarrow> 2 ^ log2_nat n \<le> n \<and> n < 2 * 2 ^ log2_nat n"
proof (induction n rule: log2_nat.induct)
  case (1 n)
  show ?case
  proof (cases "n < 2")
    case True
    with 1(2) have "n = 1" by simp
    then show ?thesis by (simp add: log2_nat.simps)
  next
    case False
    then have "2 ^ log2_nat (n div 2) \<le> n div 2 \<and> n div 2 < 2 * 2 ^ log2_nat (n div 2)" using 1(1) by simp
    with False show ?thesis by (subst (1 2) log2_nat.simps) auto
  qed
qed

lemma floor_log2_le:
  assumes "0 < q"
  shows "2 powi floor_log2 q \<le> q"
proof -
  obtain a b where ab: "quotient_of q = (a, b)" by fastforce
  have b: "0 < b" using ab by (rule quotient_of_denom_pos)
  have q: "q = of_int a / of_int b" using ab by (rule quotient_of_div)
  have a: "0 < a" using assms b unfolding q by (simp add: zero_less_divide_iff)
  let ?la = "log2_nat (nat a)" and ?lb = "log2_nat (nat b)"
  have la: "2 ^ ?la \<le> (of_int a :: rat)"
    using log2_nat_bounds [of "nat a"] a by (metis nat_0_less_mult_iff of_int_le_iff of_int_numeral of_int_power of_nat_le_iff
        of_nat_nat of_nat_numeral of_nat_power less_imp_le zero_less_nat_eq)
  have "nat b < 2 * 2 ^ ?lb" using log2_nat_bounds [of "nat b"] b by simp
  then have "b < 2 * 2 ^ ?lb" using b by (metis nat_less_iff of_nat_mult of_nat_numeral of_nat_power less_imp_le)
  then have lb: "(of_int b :: rat) < 2 * 2 ^ ?lb"
    by (metis of_int_less_iff of_int_mult of_int_numeral of_int_power)
  have "(2::rat) powi (int ?la - int ?lb - 1) = 2 ^ ?la / (2 * 2 ^ ?lb)"
    by (simp add: power_int_diff)
  also have "\<dots> \<le> of_int a / of_int b"
    using la lb a b by (intro frac_le) auto
  finally have "2 powi (int ?la - int ?lb - 1) \<le> q" using q by simp
  then show ?thesis by (simp add: floor_log2_def ab Let_def)
qed

lemma round_even_of_int [simp]: "round_even (of_int i) = i"
  by (simp add: round_even_def)

lemma float64_exact:
  assumes "\<bar>k\<bar> < 2 ^ 53" "- 1074 \<le> e"
  shows "float64 (of_int k * 2 powi e) = of_int k * 2 powi e"
proof (cases "k = 0")
  case False
  let ?q = "of_int k * 2 powi e :: rat"
  define E where "E = floor_log2 \<bar>?q\<bar>"
  have q: "\<bar>?q\<bar> = of_int \<bar>k\<bar> * 2 powi e" by (simp add: abs_mult)
  define E' where "E' = max (E - 52) (- 1074)"
  have "2 powi E \<le> \<bar>?q\<bar>" unfolding E_def by (rule floor_log2_le) (use False in simp)
  also have "\<dots> < 2 ^ 53 * 2 powi e"
    using assms(1) unfolding q by (metis mult_less_cancel_right_pos of_int_less_iff of_int_numeral of_int_power zero_less_numeral zero_less_power_int)
  also have "\<dots> = 2 powi (53 + e)" by (simp add: power_int_add)
  finally have "E < 53 + e" using power_int_increasing [of "53 + e" E "2::rat"] by (meson not_le one_le_numeral)
  then have n: "0 \<le> e - E'" using assms(2) by (simp add: E'_def)
  then obtain n where n: "e - E' = int n" by (metis zero_le_imp_eq_int)
  have "?q / 2 powi E' = of_int k * 2 powi (e - E')" by (simp add: power_int_diff)
  also have "\<dots> = of_int (k * 2 ^ n)" unfolding n by simp
  finally have "of_int (round_even (?q / 2 powi E')) = ?q / 2 powi E'" by (metis round_even_of_int)
  moreover have "?q \<noteq> 0" using False by simp
  ultimately show ?thesis unfolding float64_def Let_def E_def [symmetric] E'_def [symmetric] by simp
qed (simp add: float64_def)

lemma float64_of_int: "\<bar>k\<bar> < 2 ^ 53 \<Longrightarrow> float64 (of_int k) = of_int k"
  using float64_exact [of k 0] by simp

lemma float_half:
  assumes "\<bar>k\<bar> < 2 ^ 53"
  shows "float_mult (1 / 2) (of_int k) = of_int k / 2"
proof -
  have "(2::rat) powi (-1) = 1 / 2" by (simp add: power_int_minus)
  then show ?thesis using float64_exact [OF assms, of "-1"] by (simp add: float_mult_def)
qed

section \<open>Rounding is monotone\<close>

lemma floor_log2_gt:
  assumes "0 < q"
  shows "q < 2 powi (floor_log2 q + 1)"
proof -
  obtain a b where ab: "quotient_of q = (a, b)" by fastforce
  have b: "0 < b" using ab by (rule quotient_of_denom_pos)
  have q: "q = of_int a / of_int b" using ab by (rule quotient_of_div)
  have a: "0 < a" using assms b unfolding q by (simp add: zero_less_divide_iff)
  let ?la = "log2_nat (nat a)" and ?lb = "log2_nat (nat b)"
  let ?e = "int ?la - int ?lb"
  have "nat a < 2 * 2 ^ ?la" using log2_nat_bounds [of "nat a"] a by simp
  then have "a < 2 * 2 ^ ?la" using a by (metis nat_less_iff of_nat_mult of_nat_numeral of_nat_power less_imp_le)
  then have la: "(of_int a :: rat) < 2 * 2 ^ ?la"
    by (metis of_int_less_iff of_int_mult of_int_numeral of_int_power)
  have lb: "2 ^ ?lb \<le> (of_int b :: rat)"
    using log2_nat_bounds [of "nat b"] b by (metis nat_0_less_mult_iff of_int_le_iff of_int_numeral of_int_power of_nat_le_iff
        of_nat_nat of_nat_numeral of_nat_power less_imp_le zero_less_nat_eq)
  have "q < (2 * 2 ^ ?la) / 2 ^ ?lb"
    using la lb a b unfolding q by (intro frac_less) auto
  also have "\<dots> = 2 powi (?e + 1)" by (simp add: power_int_add power_int_diff)
  finally have up: "q < 2 powi (?e + 1)" .
  show ?thesis
  proof (cases "2 powi ?e \<le> q")
    case True
    then show ?thesis using up by (simp add: floor_log2_def ab Let_def)
  next
    case False
    then show ?thesis by (simp add: floor_log2_def ab Let_def)
  qed
qed

lemma floor_log2_mono: "0 < x \<Longrightarrow> x \<le> y \<Longrightarrow> floor_log2 x \<le> floor_log2 y"
proof -
  assume x: "0 < x" "x \<le> y"
  then have "2 powi floor_log2 x < (2::rat) powi (floor_log2 y + 1)"
    using floor_log2_le [OF x(1)] floor_log2_gt [of y] by linarith
  then have "floor_log2 x < floor_log2 y + 1" using power_int_increasing [of "floor_log2 y + 1" "floor_log2 x" "2::rat"] by (meson not_le one_le_numeral)
  then show ?thesis by simp
qed

lemma round_even_mono: "x \<le> y \<Longrightarrow> round_even x \<le> round_even y"
proof -
  assume le: "x \<le> y"
  have f: "\<lfloor>x\<rfloor> \<le> \<lfloor>y\<rfloor>" using le by (rule floor_mono)
  have hi: "round_even x \<le> \<lfloor>x\<rfloor> + 1" and lo: "\<lfloor>y\<rfloor> \<le> round_even y"
    by (auto simp: round_even_def Let_def)
  show ?thesis
  proof (cases "\<lfloor>x\<rfloor> = \<lfloor>y\<rfloor>")
    case True
    then show ?thesis using le by (auto simp: round_even_def Let_def)
  qed (use f hi lo in linarith)
qed

lemma round_even_le: "x \<le> of_int n \<Longrightarrow> round_even x \<le> n"
  using round_even_mono [of x "of_int n"] by simp

lemma round_even_ge: "of_int n \<le> x \<Longrightarrow> n \<le> round_even x"
  using round_even_mono [of "of_int n" x] by simp

lemma float64_0 [simp]: "float64 0 = 0"
  by (simp add: float64_def)

lemma float64_nonneg: "0 \<le> x \<Longrightarrow> 0 \<le> float64 x"
  by (auto simp: float64_def Let_def intro!: mult_nonneg_nonneg round_even_ge [of 0, simplified])

lemma float64_mono:
  assumes "0 \<le> x" "x \<le> y"
  shows "float64 x \<le> float64 y"
proof (cases "x = 0")
  case True
  then show ?thesis using assms float64_nonneg by simp
next
  case False
  then have x: "0 < x" "0 < y" using assms by simp_all
  define ex ey where "ex = max (floor_log2 x - 52) (- 1074)" and "ey = max (floor_log2 y - 52) (- 1074)"
  have fx: "float64 x = of_int (round_even (x / 2 powi ex)) * 2 powi ex" and fy: "float64 y = of_int (round_even (y / 2 powi ey)) * 2 powi ey"
    using x by (simp_all add: float64_def Let_def ex_def ey_def)
  have mono: "floor_log2 x \<le> floor_log2 y" using x(1) assms(2) by (rule floor_log2_mono)
  then have "ex \<le> ey" by (simp add: ex_def ey_def)
  show ?thesis
  proof (cases "ex = ey")
    case True
    have "round_even (x / 2 powi ex) \<le> round_even (y / 2 powi ex)"
      using assms(2) by (intro round_even_mono divide_right_mono) simp_all
    then show ?thesis unfolding fx fy True [symmetric] by (intro mult_right_mono) simp_all
  next
    case False
    let ?Y = "floor_log2 y"
    have lt: "ex < ey" using False \<open>ex \<le> ey\<close> by simp
    then have e: "ey = ?Y - 52" "floor_log2 x < ?Y" by (auto simp: ex_def ey_def split: if_splits)
    obtain n where n: "?Y - ex = int n" using lt e(1) nonneg_int_cases [of "?Y - ex"] by auto
    have "x \<le> 2 powi ?Y"
      using floor_log2_gt [OF x(1)] power_int_increasing [of "floor_log2 x + 1" ?Y "2::rat"] e(2) by simp
    then have "x / 2 powi ex \<le> 2 powi ?Y / 2 powi ex" by (intro divide_right_mono) simp_all
    also have "\<dots> = of_int (2 ^ n)" using n by (simp flip: power_int_diff)
    finally have "round_even (x / 2 powi ex) \<le> 2 ^ n" by (rule round_even_le)
    then have "float64 x \<le> of_int (2 ^ n) * 2 powi ex" unfolding fx by (intro mult_right_mono) (simp_all only: of_int_le_iff, simp)
    also have "\<dots> = 2 powi (int n + ex)" by (simp add: power_int_add)
    also have "\<dots> = of_int (2 ^ 52) * 2 powi ey"
    proof -
      have "int n + ex = 52 + ey" using n e(1) by simp
      then show ?thesis by (simp add: power_int_add)
    qed
    also have "\<dots> \<le> float64 y"
    proof -
      have "2 powi ?Y / 2 powi ey \<le> y / 2 powi ey" using floor_log2_le [OF x(2)] by (intro divide_right_mono) simp_all
      moreover have "2 powi ?Y / 2 powi ey = (of_int (2 ^ 52) :: rat)" unfolding e(1) by (simp flip: power_int_diff)
      ultimately have "2 ^ 52 \<le> round_even (y / 2 powi ey)" by (intro round_even_ge) simp
      then show ?thesis unfolding fy by (intro mult_right_mono) (simp_all only: of_int_le_iff, simp)
    qed
    finally show ?thesis .
  qed
qed
section \<open>Rounding a given value\<close>

lemma floor_log2_eq:
  assumes "2 powi n \<le> q" "q < 2 powi (n + 1)"
  shows "floor_log2 q = n"
proof -
  have q: "0 < q" using assms(1) by (rule less_le_trans [rotated]) simp
  have "(2::rat) powi n < 2 powi (floor_log2 q + 1)" "2 powi floor_log2 q < (2::rat) powi (n + 1)"
    using assms floor_log2_le [OF q] floor_log2_gt [OF q] by linarith+
  then have "n < floor_log2 q + 1" "floor_log2 q < n + 1"
    using power_int_increasing [of "floor_log2 q + 1" n "2::rat"] power_int_increasing [of "n + 1" "floor_log2 q" "2::rat"]
    by (meson not_le one_le_numeral)+
  then show ?thesis by simp
qed

text \<open>A value between the powers \<open>2 ^ 52\<close> and \<open>2 ^ 53\<close> of its unit is rounded to the multiple of the unit.\<close>

lemma float64_eq:
  assumes "q = r / 2 ^ n" "2 ^ 52 \<le> r" "r < 2 ^ 53" "n \<le> 1074" "round_even r = k"
  shows "float64 q = of_int k / 2 ^ n"
proof -
  have p: "2 powi (52 - int n) = (2 ^ 52 / 2 ^ n :: rat)" "2 powi (52 - int n + 1) = (2 ^ 53 / 2 ^ n :: rat)"
    by (simp_all add: power_int_diff power_int_add)
  have "floor_log2 q = 52 - int n"
    by (rule floor_log2_eq; unfold p assms(1); insert assms(2,3)) (simp_all add: divide_right_mono divide_strict_right_mono)
  moreover have "0 < q" using assms(1,2) by simp
  moreover have "2 powi (- int n) = (1 / 2 ^ n :: rat)" by (simp add: power_int_minus divide_inverse)
  ultimately show ?thesis using assms by (simp add: float64_def Let_def)
qed
lemma float64_near:
  assumes "q = r / 2 ^ n" "2 ^ 52 \<le> r" "r < 2 ^ 53" "n \<le> 1074" "2 * \<bar>r - of_int k\<bar> < 1 \<or> 2 * \<bar>r - of_int k\<bar> = 1 \<and> even k"
  shows "float64 q = of_int k / 2 ^ n"
proof (rule float64_eq [OF assms(1-4)])
  have near: "2 * \<bar>r - of_int k\<bar> \<le> 1" using assms(5) by auto
  show "round_even r = k"
  proof (cases "of_int k \<le> r")
    case True
    then have "\<lfloor>r\<rfloor> = k" using near assms(5) by (intro floor_unique) (auto simp: abs_if split: if_splits)
    then show ?thesis using True assms(5) by (auto simp: round_even_def Let_def)
  next
    case False
    then have "\<lfloor>r\<rfloor> = k - 1" using near assms(5) by (intro floor_unique) (auto simp: abs_if split: if_splits)
    then show ?thesis using False assms(5) by (auto simp: round_even_def Let_def)
  qed
qed

end
