(* ===== verification/Playback.thy ===== *)
theory Playback
  imports Paging Consumer Http GoFloat "HOL-Library.Product_Lexorder"
begin

text \<open>
  Listening: the Playback Service (\<^verbatim>\<open>services/playback\<close>) validates what players report and
  publishes it to \<open>playback.events\<close>, or writes it straight to the warehouse in the synchronous
  mode; Listening History (\<^verbatim>\<open>services/history\<close>) reads the topic and keeps the plays that count
  as listens. Identifiers are read from text by \<open>uuid.Parse\<close>; one that does not parse is
  \<open>None\<close>. Numbers of milliseconds are the 64-bit integers of the code.
\<close>

section \<open>Reports\<close>

abbreviation Started :: string where "Started \<equiv> ''started''"
abbreviation Finished :: string where "Finished \<equiv> ''finished''"
abbreviation Skipped :: string where "Skipped \<equiv> ''skipped''"

record report =
  rp_kind :: string
  rp_playback :: uuid
  rp_user :: uuid
  rp_track :: uuid
  rp_source :: string
  rp_duration :: "64 word"
  rp_listened :: "64 word"
  rp_at :: time

text \<open>\<open>sourcePattern\<close>.\<close>

definition source_char :: "char \<Rightarrow> bool" where
  "source_char c = (let n = of_char c :: nat in
     65 \<le> n \<and> n \<le> 90 \<or> 97 \<le> n \<and> n \<le> 122 \<or> 48 \<le> n \<and> n \<le> 57 \<or> n = 45)"

definition source_matches :: "string \<Rightarrow> bool" where
  "source_matches s = (let kind = takeWhile (\<lambda>c. c \<noteq> CHR '':'') s; rest = drop (length kind) s in
     kind \<in> {''album'', ''playlist'', ''artist'', ''search'', ''queue''} \<and> rest \<noteq> [] \<and>
     1 \<le> length (tl rest) \<and> length (tl rest) \<le> 64 \<and> list_all source_char (tl rest))"

abbreviation MaxDurationMs :: int where "MaxDurationMs \<equiv> 2 * 60 * 60 * 1000"
abbreviation listenSlackMs :: "64 word" where "listenSlackMs \<equiv> 5000"

definition validate_report :: "report \<Rightarrow> fields" where
  "validate_report e =
     require (0 \<le> sint (rp_listened e) \<and>
         \<not> (0 < sint (rp_duration e) \<and> sint (rp_duration e + listenSlackMs) < sint (rp_listened e)))
       ''listenedMs'' ''must be between 0 and the duration''
     (require (0 < sint (rp_duration e) \<and> sint (rp_duration e) \<le> MaxDurationMs)
       ''durationMs'' ''must be between 1 and 7200000''
     (require (rp_source e = '''' \<or> source_matches (rp_source e)) ''source'' ''must look like album:<id>''
     (require (rp_track e \<noteq> uuid_Nil) ''trackId'' ''must be a track ID''
     (require (rp_playback e \<noteq> uuid_Nil) ''playbackId'' ''must be a UUID''
     (require (rp_kind e \<in> {Started, Finished, Skipped}) ''type'' ''must be started, finished or skipped'' [])))))"

text \<open>\<open>playbackv1.Playback\<close>.\<close>

record playback_payload =
  pp_playback :: "uuid option"
  pp_user :: "uuid option"
  pp_track :: "uuid option"
  pp_source :: string
  pp_duration :: "64 word"
  pp_listened :: "64 word"
  pp_at :: time

text \<open>
  A row of the warehouse as the synchronous mode writes it; \<open>dedup\<close> is the token under which
  ClickHouse drops a repeated insert.
\<close>

record play_row =
  pr_event :: uuid
  pr_type :: string
  pr_playback :: uuid
  pr_user :: uuid
  pr_track :: uuid
  pr_album :: string
  pr_artists :: "string list"
  pr_source :: string
  pr_duration :: nat
  pr_listened :: nat
  pr_at :: time

text \<open>Outside the service: the topic, the Catalog's tracks and the warehouse.\<close>

record playback_ext =
  topic_log :: "playback_payload message list"
  catalog_tracks :: "uuid \<Rightarrow> (string \<times> string list) option"
  play_rows :: "play_row list"

datatype playback_error = InvalidReport fields

type_synonym 'a playback_act = "(unit, playback_ext, playback_payload, playback_error, 'a) act"

definition playback_type :: "string \<Rightarrow> string" where
  "playback_type kind = (if kind = Started then ''playback.started'' else if kind = Finished then ''playback.finished''
     else if kind = Skipped then ''playback.skipped'' else '''')"

definition playback_payload_of :: "report \<Rightarrow> playback_payload" where
  "playback_payload_of e = \<lparr>pp_playback = Some (rp_playback e), pp_user = Some (rp_user e), pp_track = Some (rp_track e),
     pp_source = rp_source e, pp_duration = rp_duration e, pp_listened = rp_listened e, pp_at = rp_at e\<rparr>"

definition playback_publish :: "report \<Rightarrow> unit playback_act" where
  "playback_publish e =
     bnd (new_envelope (playback_type (rp_kind e)) 1 ''playback-service'' (rp_at e) (playback_payload_of e)) (\<lambda>env.
     let m = \<lparr>msg_topic = ''playback.events'', msg_key = rp_user e, msg_value = env,
       msg_headers = [(''event-type'', playback_type (rp_kind e)), (''event-version'', ''1''),
         (''content-type'', ''application/json'')]\<rparr> in
     call (\<lambda>x. Inr ((), x\<lparr>topic_log := topic_log x @ [m]\<rparr>)))"

definition clamp_ms :: "64 word \<Rightarrow> nat" where
  "clamp_ms ms = nat (min (max (sint ms) 0) (2 ^ 32 - 1))"

text \<open>The album and artists of a track; one the Catalog does not know has none.\<close>

definition resolve_track :: "uuid \<Rightarrow> (string \<times> string list) playback_act" where
  "resolve_track i = call (\<lambda>x. Inr (case catalog_tracks x i of None \<Rightarrow> ('''', []) | Some t \<Rightarrow> t, x))"

abbreviation nil_text :: string where "nil_text \<equiv> ''00000000-0000-0000-0000-000000000000''"

definition sync_publish :: "report \<Rightarrow> unit playback_act" where
  "sync_publish e = bnd (resolve_track (rp_track e)) (\<lambda>(album, artists). bnd new_uuid (\<lambda>i.
     let row = \<lparr>pr_event = i, pr_type = playback_type (rp_kind e), pr_playback = rp_playback e, pr_user = rp_user e,
       pr_track = rp_track e, pr_album = (if album = '''' then nil_text else album), pr_artists = artists,
       pr_source = takeWhile (\<lambda>c. c \<noteq> CHR '':'') (rp_source e), pr_duration = clamp_ms (rp_duration e),
       pr_listened = clamp_ms (rp_listened e), pr_at = time_truncate millisecond (rp_at e)\<rparr> in
     call (\<lambda>x. Inr ((), if has_row pr_event i (play_rows x) then x else x\<lparr>play_rows := play_rows x @ [row]\<rparr>))))"

text \<open>\<open>Service.Report\<close>, over either publisher.\<close>

definition report_play :: "(report \<Rightarrow> unit playback_act) \<Rightarrow> report \<Rightarrow> unit playback_act" where
  "report_play publish e =
     (if validate_report e \<noteq> [] then fail (InvalidReport (validate_report e))
      else bnd now_utc (\<lambda>now. publish (e\<lparr>rp_at := now\<rparr>)))"

record report_request =
  rq_type :: string
  rq_playback :: "uuid option"
  rq_track :: "uuid option"
  rq_source :: string
  rq_duration :: "64 word"
  rq_listened :: "64 word"

definition id_or_nil :: "uuid option \<Rightarrow> uuid" where
  "id_or_nil i = (case i of None \<Rightarrow> uuid_Nil | Some u \<Rightarrow> u)"

text \<open>\<open>POST /api/v1/playback/events\<close>: the user of the access token, the decoded body.\<close>

definition post_report :: "(report \<Rightarrow> unit playback_act) \<Rightarrow> uuid option \<Rightarrow> report_request option \<Rightarrow>
    (unit, playback_ext, playback_payload) world \<Rightarrow> unit response \<times> (unit, playback_ext, playback_payload) world" where
  "post_report publish user body w =
     (case user of
        None \<Rightarrow> (Problem 401 CodeUnauthenticated [], w)
      | Some u \<Rightarrow> (case body of
          None \<Rightarrow> (Problem 400 CodeBadRequest [], w)
        | Some q \<Rightarrow> (case report_play publish \<lparr>rp_kind = rq_type q, rp_playback = id_or_nil (rq_playback q), rp_user = u,
              rp_track = id_or_nil (rq_track q), rp_source = rq_source q, rp_duration = rq_duration q,
              rp_listened = rq_listened q, rp_at = 0\<rparr> w of
            (Inr _, w1) \<Rightarrow> (Reply 202 (), w1)
          | (Inl (Domain (InvalidReport fs)), w1) \<Rightarrow> (Problem 422 CodeValidation fs, w1)
          | (Inl Infra, w1) \<Rightarrow> (Problem 503 CodeUnavailable [], w1))))"

section \<open>Listens\<close>

record listen =
  ls_playback :: uuid
  ls_user :: uuid
  ls_track :: uuid
  ls_source :: string
  ls_duration :: "64 word"
  ls_listened :: "64 word"
  ls_at :: time

record rule =
  min_listen :: duration
  min_fraction :: float64

definition DefaultRule :: rule where
  "DefaultRule = \<lparr>min_listen = 30 * second, min_fraction = 1 / 2\<rparr>"

text \<open>\<open>Rule.Counts\<close>: the product with \<open>time.Millisecond\<close> is one of 64-bit integers.\<close>

definition counts :: "rule \<Rightarrow> 64 word \<Rightarrow> 64 word \<Rightarrow> bool" where
  "counts r listened duration =
     (if sint listened \<le> 0 then False
      else if min_listen r \<le> sint (listened * 1000000) then True
      else 0 < sint duration \<and>
        float_mult (min_fraction r) (float64 (of_int (sint duration))) \<le> float64 (of_int (sint listened)))"

record history_db =
  listens :: "listen list"

type_synonym 'a history_act = "(history_db, unit, unit, unit, 'a) act"
type_synonym history_world = "(history_db, unit, unit) world"

text \<open>The checks of \<open>history.listens\<close>.\<close>

definition listen_row_ok :: "listen \<Rightarrow> bool" where
  "listen_row_ok l \<longleftrightarrow> text_ok (ls_source l) \<and> 0 < sint (ls_duration l) \<and> 0 \<le> sint (ls_listened l)"

definition stored_listen :: "listen \<Rightarrow> listen" where
  "stored_listen l = l\<lparr>ls_at := pg_time (ls_at l)\<rparr>"

text \<open>\<open>Repository.Record\<close>: one row per playback, the first one stays.\<close>

definition record_listen :: "listen \<Rightarrow> bool history_act" where
  "record_listen l = stmt (\<lambda>d.
     if \<not> listen_row_ok l then Inl Infra
     else if has_row ls_playback (ls_playback l) (listens d) then Inr (False, d)
     else Inr (True, d\<lparr>listens := listens d @ [stored_listen l]\<rparr>))"

definition play_ended :: "rule \<Rightarrow> listen \<Rightarrow> bool history_act" where
  "play_ended r l = (if \<not> counts r (ls_listened l) (ls_duration l) then ret False else record_listen l)"

type_synonym listen_cursor = "time \<times> uuid"

definition ls_key :: "listen \<Rightarrow> listen_cursor" where
  "ls_key l = (ls_at l, ls_playback l)"

text \<open>\<open>Repository.Tracks\<close> and \<open>Service.Tracks\<close>.\<close>

definition listen_rows :: "uuid \<Rightarrow> listen_cursor option \<Rightarrow> nat \<Rightarrow> history_db \<Rightarrow> listen list" where
  "listen_rows user after n d = take n (order_by_desc ls_key
     (filter (\<lambda>l. ls_user l = user \<and> (case after of None \<Rightarrow> True | Some c \<Rightarrow> ls_key l < c)) (listens d)))"

definition history_limit :: "int \<Rightarrow> nat" where
  "history_limit limit = nat (min (if limit \<le> 0 then 50 else limit) 100)"

definition history_tracks :: "uuid \<Rightarrow> listen_cursor option \<Rightarrow> int \<Rightarrow> (listen list \<times> listen_cursor option) history_act" where
  "history_tracks user after limit = (let n = history_limit limit in
     bnd (query (listen_rows user after (n + 1))) (\<lambda>rows. ret (split_page ls_key n rows)))"

text \<open>
  \<open>RecentSources\<close>: the sources by their latest listen; sources whose latest listens are at the
  same instant come in the order of their first rows, where SQL leaves it open.
\<close>

definition source_rows :: "uuid \<Rightarrow> history_db \<Rightarrow> (string \<times> time) list" where
  "source_rows user d = (let ls = filter (\<lambda>l. ls_user l = user \<and> ls_source l \<noteq> '''') (listens d) in
     map (\<lambda>s. (s, Max (set (map ls_at (filter (\<lambda>l. ls_source l = s) ls))))) (dedupe_from [] (map ls_source ls)))"

definition recent_sources :: "uuid \<Rightarrow> int \<Rightarrow> (string \<times> time) list history_act" where
  "recent_sources user limit = (let n = nat (min (if limit \<le> 0 then 8 else limit) 50) in
     query (\<lambda>d. take n (order_by_desc snd (source_rows user d))))"

section \<open>The consumer of playback.events\<close>

definition bad_record :: "string \<Rightarrow> herr" where
  "bad_record msg = \<lparr>permanent = True, herr_text = msg\<rparr>"

definition listen_of :: "playback_payload \<Rightarrow> listen option" where
  "listen_of p = (case (pp_playback p, pp_user p, pp_track p) of
       (Some i, Some u, Some t) \<Rightarrow> Some \<lparr>ls_playback = i, ls_user = u, ls_track = t, ls_source = pp_source p,
         ls_duration = pp_duration p, ls_listened = pp_listened p, ls_at = pp_at p\<rparr>
     | _ \<Rightarrow> None)"

definition handle_play :: "rule \<Rightarrow> playback_payload wire krecord \<Rightarrow> history_world \<Rightarrow> herr option \<times> history_world" where
  "handle_play r rec w =
     (case decode_envelope (rec_value rec) of
        None \<Rightarrow> (Some (bad_record ''envelope''), w)
      | Some env \<Rightarrow>
          if env_type env \<noteq> ''playback.finished'' \<and> env_type env \<noteq> ''playback.skipped'' then (None, w)
          else if env_version env \<noteq> 1 then (Some (bad_record ''unsupported version''), w)
          else (case env_payload env of
              None \<Rightarrow> (Some (bad_record ''payload''), w)
            | Some p \<Rightarrow> (case listen_of p of
                None \<Rightarrow> (Some (bad_record ''malformed IDs''), w)
              | Some l \<Rightarrow> (case play_ended r l w of
                  (Inr _, w1) \<Rightarrow> (None, w1)
                | (Inl _, w1) \<Rightarrow> (Some \<lparr>permanent = False, herr_text = ''record''\<rparr>, w1)))))"

section \<open>The history's API\<close>

record listen_view =
  lv_track :: uuid
  lv_source :: "string option"
  lv_listened :: "64 word"
  lv_at :: time

definition listen_view_of :: "listen \<Rightarrow> listen_view" where
  "listen_view_of l = \<lparr>lv_track = ls_track l, lv_source = (if ls_source l = '''' then None else Some (ls_source l)),
     lv_listened = ls_listened l, lv_at = ls_at l\<rparr>"

text \<open>The cursor parameter: absent, malformed (\<open>Some None\<close>) or decoded.\<close>

definition get_tracks :: "uuid option \<Rightarrow> string \<Rightarrow> listen_cursor option option \<Rightarrow> history_world \<Rightarrow>
    (listen_view list \<times> listen_cursor option) response \<times> history_world" where
  "get_tracks user limit cursor w =
     (case user of
        None \<Rightarrow> (Problem 401 CodeUnauthenticated [], w)
      | Some u \<Rightarrow> (case limit_param limit 100 of (n, fs) \<Rightarrow>
          let fs = require (cursor \<noteq> Some None) ''cursor'' ''is malformed'' fs in
          if fs \<noteq> [] then (Problem 422 CodeValidation fs, w)
          else (case history_tracks u (case cursor of None \<Rightarrow> None | Some c \<Rightarrow> c) n w of
              (Inl _, w1) \<Rightarrow> (Problem 503 CodeUnavailable [], w1)
            | (Inr (ls, nxt), w1) \<Rightarrow> (Reply 200 (map listen_view_of ls, nxt), w1))))"

definition get_sources :: "uuid option \<Rightarrow> string \<Rightarrow> history_world \<Rightarrow> (string \<times> time) list response \<times> history_world" where
  "get_sources user limit w =
     (case user of
        None \<Rightarrow> (Problem 401 CodeUnauthenticated [], w)
      | Some u \<Rightarrow> (case limit_param limit 50 of (n, fs) \<Rightarrow>
          if fs \<noteq> [] then (Problem 422 CodeValidation fs, w)
          else (case recent_sources u n w of
              (Inl _, w1) \<Rightarrow> (Problem 503 CodeUnavailable [], w1)
            | (Inr ss, w1) \<Rightarrow> (Reply 200 ss, w1))))"

section \<open>Every play is a listen at most once\<close>

text \<open>What a value of the topic asks for, and what it does to the table.\<close>

definition wanted_listen :: "rule \<Rightarrow> playback_payload wire \<Rightarrow> listen option" where
  "wanted_listen r v = (case decode_envelope v of None \<Rightarrow> None
     | Some env \<Rightarrow>
         if (env_type env = ''playback.finished'' \<or> env_type env = ''playback.skipped'') \<and> env_version env = 1
         then (case Option.bind (env_payload env) listen_of of None \<Rightarrow> None
           | Some l \<Rightarrow> if counts r (ls_listened l) (ls_duration l) \<and> listen_row_ok l then Some l else None)
         else None)"

definition listen_step :: "rule \<Rightarrow> playback_payload wire \<Rightarrow> listen list \<Rightarrow> listen list" where
  "listen_step r v ls = (case wanted_listen r v of None \<Rightarrow> ls
     | Some l \<Rightarrow> if has_row ls_playback (ls_playback l) ls then ls else ls @ [stored_listen l])"

lemma listen_step_grows: "set ls \<subseteq> set (listen_step r v ls)"
  by (auto simp: listen_step_def split: option.splits)

lemma listen_fold_grows: "set ls \<subseteq> set (fold (listen_step r) vs ls)"
proof (induction vs arbitrary: ls)
  case (Cons v vs)
  from Cons [of "listen_step r v ls"] listen_step_grows [of ls r v] show ?case by auto
qed simp

lemma listen_step_has: "wanted_listen r v = Some l \<Longrightarrow> has_row ls_playback (ls_playback l) (listen_step r v ls)"
  by (auto simp: listen_step_def has_row_iff stored_listen_def)

lemma listen_fold_has:
  assumes "wanted_listen r v = Some l" "v \<in> set vs"
  shows "has_row ls_playback (ls_playback l) (fold (listen_step r) vs ls)"
proof -
  obtain xs ys where vs: "vs = xs @ v # ys" using assms(2) by (meson split_list)
  have "has_row ls_playback (ls_playback l) (listen_step r v (fold (listen_step r) xs ls))"
    using assms(1) by (rule listen_step_has)
  then show ?thesis
    using listen_fold_grows [of "listen_step r v (fold (listen_step r) xs ls)" r ys]
    unfolding vs by (auto simp: has_row_iff)
qed

interpretation plays: stale_safe "listen_step r"
proof
  fix v :: "playback_payload wire" and xs and ls
  assume v: "v \<in> set xs"
  show "listen_step r v (fold (listen_step r) xs ls) = fold (listen_step r) xs ls"
  proof (cases "wanted_listen r v")
    case None
    then show ?thesis by (simp add: listen_step_def)
  next
    case (Some l)
    with listen_fold_has [OF Some v, of ls] show ?thesis by (simp add: listen_step_def)
  qed
qed

definition play_handling :: "rule \<Rightarrow> (history_world \<Rightarrow> bool) \<Rightarrow> (history_world \<Rightarrow> fate) \<Rightarrow>
    (playback_payload wire, history_world) handling" where
  "play_handling r cn df = \<lparr>handle = handle_play r, cancelled = cn, dlq_fate = df\<rparr>"

definition kept_listens :: "history_world \<Rightarrow> listen list" where
  "kept_listens w = listens (db w)"

lemma record_listen_cases:
  assumes "record_listen l w = (e, w1)"
  shows "kept_listens w1 = (if listen_row_ok l \<and> \<not> has_row ls_playback (ls_playback l) (kept_listens w)
      then kept_listens w @ [stored_listen l] else kept_listens w) \<or> isl e \<and> kept_listens w1 = kept_listens w"
    "isl e \<longleftrightarrow> fates w (tick w) \<noteq> Fine \<or> \<not> listen_row_ok l"
  using assms by (auto simp: record_listen_def stmt_def kept_listens_def split: fate.splits if_splits)

lemma record_listen_bad:
  "record_listen l w = (e, w1) \<Longrightarrow> \<not> listen_row_ok l \<Longrightarrow> isl e \<and> kept_listens w1 = kept_listens w"
  by (auto simp: record_listen_def stmt_def kept_listens_def split: fate.splits)

lemma handle_play_transactional: "transactional (\<lambda>_. True) kept_listens (listen_step r) (play_handling r cn df)"
  unfolding transactional_def
proof (intro allI impI)
  fix rec w e w1
  assume "handle (play_handling r cn df) rec w = (e, w1)"
  then have run: "handle_play r rec w = (e, w1)" by (simp add: play_handling_def)
  show "True \<and> (kept_listens w1 = listen_step r (rec_value rec) (kept_listens w) \<or> e \<noteq> None \<and> kept_listens w1 = kept_listens w)"
  proof (cases "wanted_listen r (rec_value rec)")
    case None
    then have "w1 = w \<or> e \<noteq> None \<and> kept_listens w1 = kept_listens w"
      using run
      by (auto simp: handle_play_def wanted_listen_def play_ended_def ret_def
          dest: record_listen_bad split: option.splits if_splits sum.splits prod.splits)
    with None show ?thesis by (auto simp: listen_step_def)
  next
    case (Some l)
    then obtain env p where v: "decode_envelope (rec_value rec) = Some env" "env_payload env = Some p" "listen_of p = Some l"
      "env_type env = ''playback.finished'' \<or> env_type env = ''playback.skipped''" "env_version env = 1"
      "counts r (ls_listened l) (ls_duration l)" "listen_row_ok l"
      by (auto simp: wanted_listen_def bind_eq_Some_conv split: option.splits if_splits)
    obtain q w2 where rec: "record_listen l w = (q, w2)" by fastforce
    have out: "w1 = w2" "e \<noteq> None \<longleftrightarrow> isl q"
      using run v rec by (auto simp: handle_play_def play_ended_def split: sum.splits)
    from record_listen_cases(1) [OF rec] show ?thesis
      using v(7) out Some by (auto simp: listen_step_def)
  qed
qed


section \<open>Accepted reports and the history\<close>

lemma report_play_Inr:
  "report_play publish e w = (Inr u, w1) \<longleftrightarrow>
     validate_report e = [] \<and> publish (e\<lparr>rp_at := clock w (tick w)\<rparr>) (advance w) = (Inr u, w1)"
  by (auto simp: report_play_def act_inv)

text \<open>What an accepted report satisfies.\<close>

lemma accepted_report:
  assumes "validate_report e = []"
  shows "rp_kind e \<in> {Started, Finished, Skipped}" "rp_source e = '''' \<or> source_matches (rp_source e)"
    "0 < sint (rp_duration e)" "sint (rp_duration e) \<le> MaxDurationMs"
    "0 \<le> sint (rp_listened e)" "sint (rp_listened e) \<le> sint (rp_duration e) + 5000"
proof -
  show kind: "rp_kind e \<in> {Started, Finished, Skipped}" and src: "rp_source e = '''' \<or> source_matches (rp_source e)"
    and d: "0 < sint (rp_duration e)" "sint (rp_duration e) \<le> MaxDurationMs" and l: "0 \<le> sint (rp_listened e)"
    using assms by (auto simp: validate_report_def)
  have "sint (rp_duration e + listenSlackMs) = sint (rp_duration e) + 5000"
    using d by (simp add: sint_word_ariths(1) signed_take_bit_int_eq_self)
  then show "sint (rp_listened e) \<le> sint (rp_duration e) + 5000"
    using assms d by (auto simp: validate_report_def)
qed

lemma milliseconds_fit:
  assumes "0 \<le> sint (l :: 64 word)" "sint l \<le> 10000000"
  shows "sint (l * 1000000) = sint l * 1000000"
  using assms by (simp add: sint_word_ariths(3) signed_take_bit_int_eq_self)

text \<open>For a report that Playback accepts nothing overflows and nothing is rounded: by the
  default rule it counts exactly when something was listened to, and for 30 seconds or half of
  the track. Without the validation the product wraps: a listen of 9223372036855 ms is none.\<close>

theorem accepted_listen_rule:
  assumes "validate_report e = []"
  shows "(counts DefaultRule (rp_listened e) (rp_duration e) \<longleftrightarrow> 0 < sint (rp_listened e) \<and>
      (30000 \<le> sint (rp_listened e) \<or> sint (rp_duration e) \<le> 2 * sint (rp_listened e))) \<and>
    \<not> counts DefaultRule 9223372036855 0"
proof
  note acc = accepted_report [OF assms]
  let ?l = "sint (rp_listened e)" and ?d = "sint (rp_duration e)"
  have fl: "float64 (of_int ?l) = of_int ?l" by (rule float64_of_int) (use acc in simp)
  have fd: "float64 (of_int ?d) = of_int ?d" by (rule float64_of_int) (use acc in simp)
  have half: "float_mult (1 / 2) (of_int ?d) = of_int ?d / 2" by (rule float_half) (use acc in simp)
  have prod: "sint (rp_listened e * 1000000) = ?l * 1000000" by (rule milliseconds_fit) (use acc in simp_all)
  have "(of_int ?d / 2 \<le> (of_int ?l :: rat)) \<longleftrightarrow> ?d \<le> 2 * ?l" by linarith
  then show "counts DefaultRule (rp_listened e) (rp_duration e) \<longleftrightarrow> 0 < ?l \<and> (30000 \<le> ?l \<or> ?d \<le> 2 * ?l)"
    using acc(3) unfolding counts_def DefaultRule_def rule.select_convs fl fd half prod by auto
qed (simp add: counts_def DefaultRule_def)

lemma source_plain:
  assumes "source_matches s"
  shows "plain s"
proof -
  define kind where "kind = takeWhile (\<lambda>c. c \<noteq> CHR '':'') s"
  define rest where "rest = drop (length kind) s"
  have rest_dw: "rest = dropWhile (\<lambda>c. c \<noteq> CHR '':'') s" by (simp add: rest_def kind_def dropWhile_eq_drop)
  have s: "s = kind @ rest" using takeWhile_dropWhile_id [of "\<lambda>c. c \<noteq> CHR '':''" s] by (simp add: kind_def rest_dw)
  have m: "kind \<in> {''album'', ''playlist'', ''artist'', ''search'', ''queue''}" "rest \<noteq> []" "list_all source_char (tl rest)"
    using assms unfolding source_matches_def Let_def kind_def [symmetric] rest_def [symmetric] by simp_all
  have "hd rest = CHR '':''" using m(2) hd_dropWhile [of "\<lambda>c. c \<noteq> CHR '':''" s] by (auto simp: rest_dw)
  moreover have "plain (tl rest)"
    using m(3) by (auto simp: plain_def source_char_def Let_def list_all_iff)
  moreover have "plain kind" using m(1) by auto
  ultimately have "plain (hd rest # tl rest)" by simp
  with \<open>plain kind\<close> m(2) show ?thesis unfolding s by simp
qed

definition report_listen :: "report \<Rightarrow> listen" where
  "report_listen e = \<lparr>ls_playback = rp_playback e, ls_user = rp_user e, ls_track = rp_track e, ls_source = rp_source e,
     ls_duration = rp_duration e, ls_listened = rp_listened e, ls_at = rp_at e\<rparr>"

lemma accepted_listen_ok:
  assumes "validate_report e = []"
  shows "listen_row_ok (report_listen e)"
  using accepted_report [OF assms] by (auto simp: listen_row_ok_def report_listen_def intro: plain_text_ok source_plain)

lemma playback_publish_Inr:
  "playback_publish e w = (Inr u, w1) \<Longrightarrow>
     \<exists>m. topic_log (ext w1) = topic_log (ext w) @ [m] \<and> env_type (msg_value m) = playback_type (rp_kind e) \<and>
       env_version (msg_value m) = 1 \<and> env_at (msg_value m) = rp_at e \<and> env_producer (msg_value m) = ''playback-service'' \<and>
       env_payload (msg_value m) = playback_payload_of e"
  by (auto simp: playback_publish_def act_inv Let_def)

lemma handle_accepted:
  assumes e: "validate_report e = []" and at: "rp_at e \<noteq> 0"
    and m: "env_type (msg_value m) = playback_type (rp_kind e)" "env_version (msg_value m) = 1" "env_at (msg_value m) = rp_at e"
      "env_producer (msg_value m) = ''playback-service''" "env_payload (msg_value m) = playback_payload_of e"
    and rec: "rec_value rec = on_wire m"
  shows "handle_play r rec v = (if rp_kind e = Started \<or> \<not> counts r (rp_listened e) (rp_duration e) then (None, v)
    else case record_listen (report_listen e) v of
      (Inr _, v1) \<Rightarrow> (None, v1) | (Inl _, v1) \<Rightarrow> (Some \<lparr>permanent = False, herr_text = ''record''\<rparr>, v1))"
proof -
  have kind: "rp_kind e = Started \<or> rp_kind e = Finished \<or> rp_kind e = Skipped" using accepted_report(1) [OF e] by simp
  then have "playback_type (rp_kind e) \<noteq> ''''" by (auto simp: playback_type_def)
  then have dec: "decode_envelope (rec_value rec) = on_wire m"
    using at m unfolding rec by (simp add: on_wire_def decode_envelope_def envelope_valid_def)
  show ?thesis
  proof (cases "rp_kind e = Started")
    case True
    then show ?thesis using m by (simp add: handle_play_def dec) (simp add: on_wire_def playback_type_def)
  next
    case False
    then have ptype: "playback_type (rp_kind e) = ''playback.finished'' \<or> playback_type (rp_kind e) = ''playback.skipped''"
      using kind by (auto simp: playback_type_def)
    have "listen_of (playback_payload_of e) = Some (report_listen e)"
      by (simp add: listen_of_def playback_payload_of_def report_listen_def)
    with ptype False m show ?thesis
      by (auto simp: handle_play_def dec on_wire_def play_ended_def ret_def report_listen_def)
  qed
qed

text \<open>No report that Playback accepted is refused by the history: what it put on the topic
  is a listen of the table's shape or nothing to record, so the handler fails only where the
  database call is lost, and then for a retry, never for good; when it is served, a counting
  play that ended is in the table afterwards.\<close>

theorem accepted_report_never_poisons:
  assumes "report_play playback_publish e w = (Inr (), w1)" "clock w (tick w) \<noteq> 0"
    and "rec_value rec = on_wire (last (topic_log (ext w1)))"
  shows "case handle_play r rec v of (err, v1) \<Rightarrow>
    (let wanted = rp_kind e \<noteq> Started \<and> counts r (rp_listened e) (rp_duration e) in
     err = (if wanted \<and> fates v (tick v) \<noteq> Fine then Some \<lparr>permanent = False, herr_text = ''record''\<rparr> else None) \<and>
     (if wanted \<and> err = None then rp_playback e \<in> ls_playback ` set (kept_listens v1)
      else kept_listens v1 = kept_listens v \<or> err \<noteq> None))"
proof -
  define e1 where "e1 = e\<lparr>rp_at := clock w (tick w)\<rparr>"
  have acc: "validate_report e = []" and pub: "playback_publish e1 (advance w) = (Inr (), w1)"
    using assms(1) by (simp_all add: report_play_Inr e1_def)
  have acc1: "validate_report e1 = []" using acc by (simp add: e1_def validate_report_def)
  obtain m where m: "topic_log (ext w1) = topic_log (ext w) @ [m]" "env_type (msg_value m) = playback_type (rp_kind e1)"
      "env_version (msg_value m) = 1" "env_at (msg_value m) = rp_at e1" "env_producer (msg_value m) = ''playback-service''"
      "env_payload (msg_value m) = playback_payload_of e1"
    using playback_publish_Inr [OF pub] by auto
  have run: "handle_play r rec v = (if rp_kind e1 = Started \<or> \<not> counts r (rp_listened e1) (rp_duration e1) then (None, v)
    else case record_listen (report_listen e1) v of
      (Inr _, v1) \<Rightarrow> (None, v1) | (Inl _, v1) \<Rightarrow> (Some \<lparr>permanent = False, herr_text = ''record''\<rparr>, v1))"
    by (rule handle_accepted [OF acc1 _ m(2-6)]) (use assms(2,3) m(1) in \<open>simp_all add: e1_def\<close>)
  obtain q v2 where q: "record_listen (report_listen e1) v = (q, v2)" by fastforce
  have same: "rp_kind e1 = rp_kind e" "rp_listened e1 = rp_listened e" "rp_duration e1 = rp_duration e"
      "ls_playback (report_listen e1) = rp_playback e" by (simp_all add: e1_def report_listen_def)
  have "isl q \<longleftrightarrow> fates v (tick v) \<noteq> Fine"
    using record_listen_cases(2) [OF q] accepted_listen_ok [OF acc1] by simp
  moreover have "\<not> isl q \<Longrightarrow> rp_playback e \<in> ls_playback ` set (kept_listens v2)"
    using record_listen_cases(1) [OF q] accepted_listen_ok [OF acc1] same(4)
    by (auto simp: has_row_iff stored_listen_def split: if_splits)
  ultimately show ?thesis
    unfolding run same Let_def q by (cases q) auto
qed

section \<open>Paging through the history\<close>

definition listening :: "uuid \<Rightarrow> history_db \<Rightarrow> listen list" where
  "listening user d = order_by_desc ls_key (filter (\<lambda>l. ls_user l = user) (listens d))"

lemma unique_ls_key: "unique_on ls_playback rs \<Longrightarrow> unique_on ls_key rs"
  by (induction rs) (auto simp: unique_on_def ls_key_def image_iff)

interpretation history_pages: keyset_paging "\<lambda>a b. b < a" ls_key "listening user"
  "\<lambda>d after n. listen_rows user after n d" "\<lambda>d. unique_on ls_playback (listens d)"
proof unfold_locales
  fix d :: history_db
  assume u: "unique_on ls_playback (listens d)"
  show "sorted_wrt (\<lambda>x y. ls_key y < ls_key x) (listening user d)"
    unfolding listening_def by (rule strict_order_by_desc [OF unique_on_filter [OF unique_ls_key [OF u]]])
  fix after n
  show "listen_rows user after n d = take n (beyond (\<lambda>a b. b < a) ls_key after (listening user d))"
    by (cases after) (simp_all add: listen_rows_def listening_def beyond_def filter_order_by_desc conj_commute)
qed auto

lemma listen_step_unique: "unique_on ls_playback ls \<Longrightarrow> unique_on ls_playback (listen_step r v ls)"
  by (auto simp: listen_step_def stored_listen_def has_row_iff split: option.splits)

lemma history_walk:
  assumes "unique_on ls_playback (listens d)" "length (listening user d) < fuel"
  shows "follow_pages fuel (\<lambda>a. split_page ls_key (history_limit limit) (listen_rows user a (history_limit limit + 1) d)) None =
    Some (listening user d)"
  using assms(1) _ assms(2) by (rule history_pages.follow_all) (simp add: history_limit_def)

section \<open>A concrete run\<close>

definition sample_report :: report where
  "sample_report = \<lparr>rp_kind = Finished, rp_playback = 5, rp_user = 6, rp_track = 7, rp_source = ''queue:a'',
     rp_duration = 60000, rp_listened = 31000, rp_at = 0\<rparr>"

definition sample_player :: "(unit, playback_ext, playback_payload) world" where
  "sample_player = \<lparr>tick = 0, fates = (\<lambda>_. Fine), clock = (\<lambda>n. int n + 1000), fresh = (\<lambda>n. Some (of_nat n)), db = (),
     outbox = [], next_row = 0, ext = \<lparr>topic_log = [], catalog_tracks = (\<lambda>_. None), play_rows = []\<rparr>\<rparr>"

definition sample_history :: history_world where
  "sample_history = \<lparr>tick = 0, fates = (\<lambda>_. Fine), clock = (\<lambda>n. int n + 1000), fresh = (\<lambda>n. Some (of_nat n)),
     db = \<lparr>listens = []\<rparr>, outbox = [], next_row = 0, ext = ()\<rparr>"

definition sample_play :: "playback_payload wire krecord" where
  "sample_play = \<lparr>rec_topic = ''playback.events'', rec_partition = 0, rec_offset = 0, rec_key = 6,
     rec_value = on_wire (last (topic_log (ext (snd (report_play playback_publish sample_report sample_player))))),
     rec_headers = []\<rparr>"

theorem accepted_listen_rule_witness:
  "counts DefaultRule (rp_listened sample_report) (rp_duration sample_report) \<and> \<not> counts DefaultRule 9223372036855 0"
proof -
  have "validate_report sample_report = []" by code_simp
  from accepted_listen_rule [OF this] show ?thesis by (simp add: sample_report_def)
qed

theorem accepted_report_never_poisons_witness:
  "fst (handle_play DefaultRule sample_play sample_history) = None \<and>
     5 \<in> ls_playback ` set (kept_listens (snd (handle_play DefaultRule sample_play sample_history)))"
proof -
  let ?run = "report_play playback_publish sample_report sample_player"
  have "fst ?run = Inr ()" by code_simp
  then have run: "?run = (Inr (), snd ?run)" by (metis prod.collapse)
  have clock: "clock sample_player (tick sample_player) \<noteq> 0" by (simp add: sample_player_def)
  have rec: "rec_value sample_play = on_wire (last (topic_log (ext (snd ?run))))" by (simp add: sample_play_def)
  have wanted: "rp_kind sample_report \<noteq> Started \<and> counts DefaultRule (rp_listened sample_report) (rp_duration sample_report)"
    by code_simp
  have fine: "fates sample_history (tick sample_history) = Fine" by (simp add: sample_history_def)
  have id: "rp_playback sample_report = 5" by (simp add: sample_report_def)
  obtain err v1 where h: "handle_play DefaultRule sample_play sample_history = (err, v1)" by fastforce
  from accepted_report_never_poisons [OF run clock rec, of DefaultRule sample_history] wanted fine id show ?thesis
    unfolding h Let_def by auto
qed

definition sample_plays :: "playback_payload wire krecord list" where
  "sample_plays = [sample_play, sample_play\<lparr>rec_offset := 1, rec_value := None\<rparr>, sample_play\<lparr>rec_offset := 2\<rparr>]"

definition sample_listener :: "(playback_payload wire, history_world) member" where
  "sample_listener = \<lparr>app = sample_history, marks = (\<lambda>_. 0), dead = [], handled = []\<rparr>"

definition sample_listener_end :: "(playback_payload wire, history_world) member" where
  "sample_listener_end = lives sample_consumer (play_handling DefaultRule (\<lambda>_. False) (\<lambda>_. Fine)) (''playback.events'', 0)
     sample_plays [[(2, Dropped)], [(3, Fine)]] sample_listener"


end
