(* ===== verification/GoCodec.thy ===== *)
theory GoCodec
  imports GoStrings
begin

text \<open>
  The encodings of Go's standard library that identifiers, digests and page cursors pass
  through: \<open>encoding/hex\<close> and \<open>encoding/base64\<close> (the padded standard alphabet and the unpadded
  URL alphabet), with the round trips the services rely on.
\<close>

section \<open>encoding/hex\<close>

definition hex_digit :: "char \<Rightarrow> nat option" where
  "hex_digit c = (let n = of_char c :: nat in
     if 48 \<le> n \<and> n \<le> 57 then Some (n - 48)
     else if 97 \<le> n \<and> n \<le> 102 then Some (n - 87)
     else if 65 \<le> n \<and> n \<le> 70 then Some (n - 55) else None)"

definition hex_char :: "nat \<Rightarrow> char" where
  "hex_char n = char_of (if n < 10 then 48 + n else 87 + n)"

fun hex_encode :: "string \<Rightarrow> string" where
  "hex_encode [] = []"
| "hex_encode (c # s) = hex_char (byte c div 16) # hex_char (byte c mod 16) # hex_encode s"

fun hex_decode :: "string \<Rightarrow> string option" where
  "hex_decode [] = Some []"
| "hex_decode [c] = None"
| "hex_decode (c # d # s) = (case (hex_digit c, hex_digit d) of
     (Some h, Some l) \<Rightarrow> map_option ((#) (char_of (16 * h + l))) (hex_decode s)
   | _ \<Rightarrow> None)"

lemma hex_digit_char: "n < 16 \<Longrightarrow> hex_digit (hex_char n) = Some n"
  by (auto simp: hex_digit_def hex_char_def Let_def)

lemma byte_lt [simp]: "byte c < 256"
  using of_char_mod_256 [of c] by (metis mod_less_divisor zero_less_numeral)

lemma hex_round_trip: "hex_decode (hex_encode s) = Some s"
proof (induction s)
  case (Cons c s)
  have "byte c div 16 < 16" using byte_lt [of c] by (simp add: less_mult_imp_div_less)
  with Cons show ?case by (simp add: hex_digit_char)
qed simp

section \<open>encoding/base64\<close>

fun b64_sextets :: "nat list \<Rightarrow> nat list" where
  "b64_sextets [] = []"
| "b64_sextets [a] = [a div 4, (a mod 4) * 16]"
| "b64_sextets [a, b] = [a div 4, (a mod 4) * 16 + b div 16, (b mod 16) * 4]"
| "b64_sextets (a # b # c # r) =
     [a div 4, (a mod 4) * 16 + b div 16, (b mod 16) * 4 + c div 64, c mod 64] @ b64_sextets r"

text \<open>The decoder is not the strict one: left-over bits of a last group are dropped.\<close>

fun b64_octets :: "nat list \<Rightarrow> nat list option" where
  "b64_octets [] = Some []"
| "b64_octets [x] = None"
| "b64_octets [x, y] = Some [x * 4 + y div 16]"
| "b64_octets [x, y, z] = Some [x * 4 + y div 16, (y mod 16) * 16 + z div 4]"
| "b64_octets (x # y # z # t # r) =
     map_option ((@) [x * 4 + y div 16, (y mod 16) * 16 + z div 4, (z mod 4) * 64 + t]) (b64_octets r)"

definition b64_letters :: string where
  "b64_letters = ''ABCDEFGHIJKLMNOPQRSTUVWXYZabcdefghijklmnopqrstuvwxyz0123456789''"

definition std_alphabet :: string where "std_alphabet = b64_letters @ ''+/''"
definition url_alphabet :: string where "url_alphabet = b64_letters @ ''-_''"

definition b64_std_encode :: "string \<Rightarrow> string" where
  "b64_std_encode s = map (\<lambda>n. std_alphabet ! n) (b64_sextets (map byte s)) @
     replicate ((3 - length s mod 3) mod 3) (CHR ''='')"

definition b64_url_encode :: "string \<Rightarrow> string" where
  "b64_url_encode s = map (\<lambda>n. url_alphabet ! n) (b64_sextets (map byte s))"

fun index_of :: "'a \<Rightarrow> 'a list \<Rightarrow> nat option" where
  "index_of x [] = None"
| "index_of x (y # ys) = (if x = y then Some 0 else map_option Suc (index_of x ys))"

fun url_sextets :: "string \<Rightarrow> nat list option" where
  "url_sextets [] = Some []"
| "url_sextets (c # s) = (if byte c = 10 \<or> byte c = 13 then url_sextets s
     else case (index_of c url_alphabet, url_sextets s) of
         (Some n, Some ns) \<Rightarrow> Some (n # ns)
       | _ \<Rightarrow> None)"

definition b64_url_decode :: "string \<Rightarrow> string option" where
  "b64_url_decode s = (case url_sextets s of None \<Rightarrow> None | Some ns \<Rightarrow> map_option (map char_of) (b64_octets ns))"

lemma sextets_lt: "\<forall>b \<in> set bs. b < 256 \<Longrightarrow> \<forall>n \<in> set (b64_sextets bs). n < 64"
  by (induction bs rule: b64_sextets.induct) auto

lemma octets_of_sextets: "\<forall>b \<in> set bs. b < 256 \<Longrightarrow> b64_octets (b64_sextets bs) = Some bs"
proof (induction bs rule: b64_sextets.induct)
  case (4 a b c r)
  then have IH: "b64_octets (b64_sextets r) = Some r" by simp
  have "a div 4 * 4 + ((a mod 4) * 16 + b div 16) div 16 = a"
    "((a mod 4) * 16 + b div 16) mod 16 * 16 + ((b mod 16) * 4 + c div 64) div 4 = b"
    "((b mod 16) * 4 + c div 64) mod 4 * 64 + c mod 64 = c"
    using 4(2) by auto
  with IH show ?case by simp
qed (auto; presburger)+

lemma url_index: "n < 64 \<Longrightarrow> index_of (url_alphabet ! n) url_alphabet = Some n \<and>
    byte (url_alphabet ! n) \<noteq> 10 \<and> byte (url_alphabet ! n) \<noteq> 13"
proof -
  have "list_all (\<lambda>n. index_of (url_alphabet ! n) url_alphabet = Some n \<and>
    byte (url_alphabet ! n) \<noteq> 10 \<and> byte (url_alphabet ! n) \<noteq> 13) [0..<64]" by code_simp
  then show "n < 64 \<Longrightarrow> ?thesis" by (simp add: list_all_iff)
qed

lemma url_sextets_alphabet: "\<forall>n \<in> set ns. n < 64 \<Longrightarrow> url_sextets (map (\<lambda>n. url_alphabet ! n) ns) = Some ns"
  by (induction ns) (auto simp: url_index)

lemma b64_url_round_trip: "b64_url_decode (b64_url_encode s) = Some s"
proof -
  have b: "\<forall>b \<in> set (map byte s). b < 256" by auto
  show ?thesis
    unfolding b64_url_decode_def b64_url_encode_def url_sextets_alphabet [OF sextets_lt [OF b]]
    by (simp add: octets_of_sextets [OF b] comp_def)
qed

end
