(* ===== verification/Media.thy ===== *)
theory Media
  imports Consumer Http GoCodec
begin

text \<open>
  The media pipeline: Media Ingest (\<^verbatim>\<open>services/media-ingest\<close>) opens upload sessions, verifies
  what arrived in object storage and announces it; the Transcoder (\<^verbatim>\<open>workers/transcoder\<close>) turns
  a verified master into the variants of \<^verbatim>\<open>libs/contracts/media\<close>. The object store is a map
  from keys to objects that clients write to at any time. Keys are the values that are printed
  into them; digests are byte strings.
\<close>

section \<open>Objects\<close>

datatype object_key = OriginalKey uuid uuid string | AudioKey uuid int

text \<open>\<open>media.Qualities\<close>, in kbps, lowest first.\<close>

definition Qualities :: "int list" where
  "Qualities = [64, 128, 256]"

definition parse_quality :: "string \<Rightarrow> int option" where
  "parse_quality s = (case atoi s of None \<Rightarrow> None | Some n \<Rightarrow> if n \<in> set Qualities then Some n else None)"

text \<open>An object as \<open>Stat\<close> and \<open>ReadHead\<close> show it; \<open>ob_sum\<close> is the checksum the store keeps, in base64.\<close>

record object =
  ob_body :: string
  ob_type :: string
  ob_sum :: string

text \<open>Outside Media Ingest: the objects, and the status the Catalog answers for a track.\<close>

record ingest_ext =
  objects :: "object_key \<Rightarrow> object option"
  track_states :: "uuid \<Rightarrow> string option"

section \<open>Upload sessions\<close>

abbreviation UploadPending :: string where "UploadPending \<equiv> ''PENDING''"
abbreviation UploadCompleted :: string where "UploadCompleted \<equiv> ''COMPLETED''"
abbreviation UploadFailed :: string where "UploadFailed \<equiv> ''FAILED''"

abbreviation ReasonExpired :: string where "ReasonExpired \<equiv> ''EXPIRED''"
abbreviation ReasonSizeMismatch :: string where "ReasonSizeMismatch \<equiv> ''SIZE_MISMATCH''"
abbreviation ReasonTypeMismatch :: string where "ReasonTypeMismatch \<equiv> ''CONTENT_TYPE_MISMATCH''"
abbreviation ReasonUnrecognized :: string where "ReasonUnrecognized \<equiv> ''UNRECOGNIZED_FORMAT''"
abbreviation ReasonChecksumMismatch :: string where "ReasonChecksumMismatch \<equiv> ''CHECKSUM_MISMATCH''"

datatype ingest_error = UploadNotFound | UploadTrackNotFound | UploadForbidden | NotUploaded
  | InvalidUpload fields | UploadRejected string

definition has_prefix :: "string \<Rightarrow> string \<Rightarrow> bool" where
  "has_prefix p s \<longleftrightarrow> take (length p) s = p"

definition is_flac :: "string \<Rightarrow> bool" where
  "is_flac b \<longleftrightarrow> has_prefix ''fLaC'' b"

definition is_wav :: "string \<Rightarrow> bool" where
  "is_wav b \<longleftrightarrow> 12 \<le> length b \<and> take 4 b = ''RIFF'' \<and> take 4 (drop 8 b) = ''WAVE''"

definition is_mp3 :: "string \<Rightarrow> bool" where
  "is_mp3 b \<longleftrightarrow> has_prefix ''ID3'' b \<or> (2 \<le> length b \<and> byte (b ! 0) = 255 \<and> 224 \<le> byte (b ! 1))"

text \<open>\<open>FormatOf\<close>: the extension and the sniffer of a declared content type.\<close>

definition format_of :: "string \<Rightarrow> (string \<times> (string \<Rightarrow> bool)) option" where
  "format_of = map_of [(''audio/flac'', ''flac'', is_flac), (''audio/wav'', ''wav'', is_wav),
     (''audio/x-wav'', ''wav'', is_wav), (''audio/mpeg'', ''mp3'', is_mp3)]"

abbreviation SniffLen :: nat where "SniffLen \<equiv> 12"

record upload =
  up_id :: uuid
  up_track :: uuid
  up_uploader :: uuid
  up_type :: string
  up_size :: int
  up_sha :: string
  up_key :: object_key
  up_status :: string
  up_reason :: string
  up_created :: time
  up_expires :: time
  up_completed :: "time option"

record upload_request =
  ur_track :: uuid
  ur_type :: string
  ur_size :: int
  ur_sha :: string

text \<open>\<open>Request.Validate\<close>: the extension of the format and the decoded digest.\<close>

definition validate_upload :: "int \<Rightarrow> upload_request \<Rightarrow> ingest_error + string \<times> string" where
  "validate_upload max_size r =
     (let dg = hex_decode (ur_sha r);
          fs = require (map_option length dg = Some 32) ''sha256'' ''must be a hex SHA-256 digest''
            (require (0 < ur_size r \<and> ur_size r \<le> max_size) ''sizeBytes'' ''must be between 1 and the upload limit''
            (require (\<not> Option.is_none (format_of (ur_type r))) ''contentType'' ''must be audio/flac, audio/wav, audio/x-wav or audio/mpeg''
            (require (ur_track r \<noteq> uuid_Nil) ''trackId'' ''is required'' [])))
      in case (format_of (ur_type r), dg) of
           (Some (sfx, _), Some s) \<Rightarrow> if fs = [] then Inr (sfx, s) else Inl (InvalidUpload fs)
         | _ \<Rightarrow> Inl (InvalidUpload fs))"

text \<open>\<open>Upload.Settle\<close>.\<close>

definition settle :: "string \<Rightarrow> time \<Rightarrow> upload \<Rightarrow> upload" where
  "settle reason at u = u\<lparr>up_completed := Some at,
     up_status := (if reason = '''' then UploadCompleted else UploadFailed), up_reason := reason\<rparr>"

section \<open>The sessions' table and events\<close>

text \<open>Payloads of \<open>media.events\<close> (\<^verbatim>\<open>libs/contracts/events/mediav1\<close>) of Media Ingest.\<close>

record track_uploaded =
  tu_upload :: uuid
  tu_track :: uuid
  tu_uploader :: uuid
  tu_bucket :: string
  tu_key :: object_key
  tu_type :: string
  tu_size :: int
  tu_sha :: string
  tu_at :: time

datatype ingest_payload = TrackUploaded track_uploaded | IngestFailed uuid uuid string time

record uploads_db =
  uploads :: "upload list"

type_synonym 'a ingest_act = "(uploads_db, ingest_ext, ingest_payload, ingest_error, 'a) act"
type_synonym ingest_world = "(uploads_db, ingest_ext, ingest_payload) world"

definition upload_row_ok :: "upload \<Rightarrow> bool" where
  "upload_row_ok u \<longleftrightarrow> text_ok (up_type u) \<and> 0 < up_size u \<and> length (up_sha u) = 32 \<and>
     up_status u \<in> {UploadPending, UploadCompleted, UploadFailed} \<and>
     (up_status u = UploadFailed \<longleftrightarrow> up_reason u \<noteq> '''') \<and> (up_status u = UploadPending \<longleftrightarrow> up_completed u = None)"

text \<open>The row: timestamps to the microsecond; a new session has no reason and no end.\<close>

definition uploads_create :: "upload \<Rightarrow> unit ingest_act" where
  "uploads_create u = stmt (\<lambda>d.
     let row = u\<lparr>up_reason := '''', up_completed := None, up_created := pg_time (up_created u), up_expires := pg_time (up_expires u)\<rparr> in
     if \<not> upload_row_ok row \<or> has_row up_id (up_id u) (uploads d) \<or> has_row up_key (up_key u) (uploads d) then Inl Infra
     else Inr ((), d\<lparr>uploads := uploads d @ [row]\<rparr>))"

definition uploads_get :: "uuid \<Rightarrow> upload ingest_act" where
  "uploads_get i = stmt (\<lambda>d. case row_with up_id i (uploads d) of
     None \<Rightarrow> Inl (Domain UploadNotFound) | Some u \<Rightarrow> Inr (u, d))"

text \<open>\<open>Repository.Settle\<close>: only a pending session, so concurrent completes settle once.\<close>

definition settle_row :: "upload \<Rightarrow> upload \<Rightarrow> upload" where
  "settle_row u r = r\<lparr>up_status := up_status u, up_reason := up_reason u, up_completed := map_option pg_time (up_completed u)\<rparr>"

definition uploads_settle :: "upload \<Rightarrow> bool ingest_act" where
  "uploads_settle u = stmt (\<lambda>d.
     let hit = (\<lambda>r. up_id r = up_id u \<and> up_status r = UploadPending); rows = update_rows hit (settle_row u) (uploads d) in
     if \<not> list_all upload_row_ok (filter (\<lambda>r. up_id r = up_id u) rows) then Inl Infra
     else Inr (affected hit (uploads d) = 1, d\<lparr>uploads := rows\<rparr>))"

definition settled_at :: "upload \<Rightarrow> time ingest_act" where
  "settled_at u = (case up_completed u of Some t \<Rightarrow> ret t | None \<Rightarrow> now_utc)"

definition uploaded_event :: "string \<Rightarrow> upload \<Rightarrow> time \<Rightarrow> ingest_payload contract" where
  "uploaded_event bucket u at = \<lparr>ct_type = ''track.uploaded'', ct_key = up_track u, ct_at = at,
     ct_payload = TrackUploaded \<lparr>tu_upload = up_id u, tu_track = up_track u, tu_uploader = up_uploader u, tu_bucket = bucket,
       tu_key = up_key u, tu_type = up_type u, tu_size = up_size u, tu_sha = hex_encode (up_sha u), tu_at = at\<rparr>\<rparr>"

definition failed_event :: "upload \<Rightarrow> time \<Rightarrow> ingest_payload contract" where
  "failed_event u at = \<lparr>ct_type = ''media.ingest.failed'', ct_key = up_track u, ct_at = at,
     ct_payload = IngestFailed (up_id u) (up_track u) (up_reason u) at\<rparr>"

definition pub_uploaded :: "string \<Rightarrow> upload \<Rightarrow> unit ingest_act" where
  "pub_uploaded bucket u = bnd (settled_at u) (\<lambda>at.
     publish_events ''media.events'' ''media-ingest'' [uploaded_event bucket u at])"

definition pub_failed :: "upload \<Rightarrow> unit ingest_act" where
  "pub_failed u = bnd (settled_at u) (\<lambda>at. publish_events ''media.events'' ''media-ingest'' [failed_event u at])"

section \<open>The upload use cases\<close>

record actor =
  act_id :: uuid
  act_artist :: bool
  act_admin :: bool

record ingest_limits =
  max_size :: int
  url_ttl :: duration
  media_bucket :: string

text \<open>\<open>TrackExists\<close> asks the Catalog; a deleted track counts as unknown.\<close>

definition upload_track_exists :: "uuid \<Rightarrow> unit ingest_act" where
  "upload_track_exists i = call (\<lambda>x. case track_states x i of
     None \<Rightarrow> Inl (Domain UploadTrackNotFound)
   | Some s \<Rightarrow> if s = ''DELETED'' then Inl (Domain UploadTrackNotFound) else Inr ((), x))"

text \<open>What the signed URL lets the client put: one key, one content type, one digest, until the end.\<close>

record upload_url =
  uu_key :: object_key
  uu_type :: string
  uu_sha :: string
  uu_ttl :: duration

definition presign_upload :: "object_key \<Rightarrow> duration \<Rightarrow> string \<Rightarrow> string \<Rightarrow> upload_url ingest_act" where
  "presign_upload k ttl ct dg = call (\<lambda>x. Inr (\<lparr>uu_key = k, uu_type = ct, uu_sha = dg, uu_ttl = ttl\<rparr>, x))"

definition new_upload :: "ingest_limits \<Rightarrow> actor \<Rightarrow> upload_request \<Rightarrow> string \<Rightarrow> string \<Rightarrow> uuid \<Rightarrow> time \<Rightarrow> upload" where
  "new_upload l a r sfx dg i now = \<lparr>up_id = i, up_track = ur_track r, up_uploader = act_id a, up_type = ur_type r,
     up_size = ur_size r, up_sha = dg, up_key = OriginalKey (ur_track r) i sfx, up_status = UploadPending,
     up_reason = '''', up_created = now, up_expires = now + url_ttl l, up_completed = None\<rparr>"

definition create_upload :: "ingest_limits \<Rightarrow> actor \<Rightarrow> upload_request \<Rightarrow> (upload \<times> upload_url) ingest_act" where
  "create_upload l a r =
     (if \<not> act_artist a \<and> \<not> act_admin a then fail UploadForbidden
      else case validate_upload (max_size l) r of
          Inl e \<Rightarrow> fail e
        | Inr (sfx, dg) \<Rightarrow>
            bnd (upload_track_exists (ur_track r)) (\<lambda>_. bnd new_uuid (\<lambda>i. bnd now_utc (\<lambda>now.
            let u = new_upload l a r sfx dg i (time_truncate microsecond now) in
            bnd (presign_upload (up_key u) (url_ttl l) (up_type u) dg) (\<lambda>url.
            bnd (uploads_create u) (\<lambda>_. ret (u, url)))))))"

definition get_upload :: "actor \<Rightarrow> uuid \<Rightarrow> upload ingest_act" where
  "get_upload a i = bnd (uploads_get i) (\<lambda>u.
     if up_uploader u \<noteq> act_id a \<and> \<not> act_admin a then fail UploadNotFound else ret u)"

definition upload_outcome :: "upload \<Rightarrow> upload ingest_act" where
  "upload_outcome u = (if up_status u = UploadFailed then fail (UploadRejected (up_reason u)) else ret u)"

definition stat_object :: "object_key \<Rightarrow> object option ingest_act" where
  "stat_object k = call (\<lambda>x. Inr (objects x k, x))"

text \<open>An object that is gone by the second look is an error like any other there.\<close>

definition read_head :: "object_key \<Rightarrow> nat \<Rightarrow> string ingest_act" where
  "read_head k n = call (\<lambda>x. case objects x k of None \<Rightarrow> Inl Infra | Some ob \<Rightarrow> Inr (take n (ob_body ob), x))"

definition remove_object :: "object_key \<Rightarrow> unit ingest_act" where
  "remove_object k = call (\<lambda>x. Inr ((), x\<lparr>objects := (objects x)(k := None)\<rparr>))"

text \<open>\<open>verify\<close>: a reason to fail, or the empty text. An unknown format would panic.\<close>

definition verify_upload :: "ingest_limits \<Rightarrow> upload \<Rightarrow> string ingest_act" where
  "verify_upload l u = bnd (stat_object (up_key u)) (\<lambda>info. case info of
     None \<Rightarrow> bnd now_utc (\<lambda>now. if up_expires u < now then ret ReasonExpired else fail NotUploaded)
   | Some ob \<Rightarrow>
       let size = int (length (ob_body ob)) in
       if size \<noteq> up_size u \<or> max_size l < size then ret ReasonSizeMismatch
       else if ob_type ob \<noteq> up_type u then ret ReasonTypeMismatch
       else if ob_sum ob \<noteq> b64_std_encode (up_sha u) then ret ReasonChecksumMismatch
       else bnd (read_head (up_key u) SniffLen) (\<lambda>head. case format_of (up_type u) of
           None \<Rightarrow> raise Infra
         | Some (_, sniff) \<Rightarrow> ret (if sniff head then '''' else ReasonUnrecognized)))"

text \<open>
  \<open>Complete\<close> in two parts, so that other requests may come between: a settled session, or a
  pending one with the reason the verification gave; then the settling.
\<close>

definition complete_begin :: "ingest_limits \<Rightarrow> actor \<Rightarrow> uuid \<Rightarrow> (upload + upload \<times> string) ingest_act" where
  "complete_begin l a i = bnd (get_upload a i) (\<lambda>u.
     if up_status u \<noteq> UploadPending then ret (Inl u)
     else bnd (verify_upload l u) (\<lambda>reason. ret (Inr (u, reason))))"

definition settle_tx :: "string \<Rightarrow> upload \<Rightarrow> bool ingest_act" where
  "settle_tx bucket s = in_tx (\<lambda>_. True) (bnd (uploads_settle s) (\<lambda>changed.
     if \<not> changed then ret False
     else bnd (if up_reason s = '''' then pub_uploaded bucket s else pub_failed s) (\<lambda>_. ret True)))"

definition complete_finish :: "ingest_limits \<Rightarrow> upload \<Rightarrow> string \<Rightarrow> upload ingest_act" where
  "complete_finish l u reason = bnd now_utc (\<lambda>now.
     let s = settle reason (time_truncate microsecond now) u in
     bnd (settle_tx (media_bucket l) s) (\<lambda>changed.
       if \<not> changed then bnd (uploads_get (up_id u)) upload_outcome
       else bnd (if reason \<noteq> '''' \<and> reason \<noteq> ReasonExpired then bnd (attempt (remove_object (up_key u))) (\<lambda>_. ret ()) else ret ())
         (\<lambda>_. upload_outcome s)))"

definition complete_upload :: "ingest_limits \<Rightarrow> actor \<Rightarrow> uuid \<Rightarrow> upload ingest_act" where
  "complete_upload l a i = bnd (complete_begin l a i) (\<lambda>r. case r of
     Inl u \<Rightarrow> upload_outcome u | Inr (u, reason) \<Rightarrow> complete_finish l u reason)"

section \<open>Requests in parallel\<close>

text \<open>
  A run: sessions are opened, completes begin and finish in any order (\<open>StepFinish k\<close> goes on
  with the \<open>k\<close>-th complete that began), and clients put and remove objects in between. With a
  begun complete the run remembers the object its verification looked at.
\<close>

datatype ingest_step = StepOpen actor upload_request | StepBegin actor uuid | StepFinish nat
  | StepPut object_key "object option"

record ingest_run =
  ir_world :: ingest_world
  ir_begun :: "(upload \<times> string \<times> object option) list"

fun run_ingest_step :: "ingest_limits \<Rightarrow> ingest_step \<Rightarrow> ingest_run \<Rightarrow> ingest_run" where
  "run_ingest_step l (StepOpen a r) st = st\<lparr>ir_world := snd (create_upload l a r (ir_world st))\<rparr>"
| "run_ingest_step l (StepBegin a i) st = (case complete_begin l a i (ir_world st) of
     (Inr (Inr (u, reason)), w1) \<Rightarrow>
       st\<lparr>ir_world := w1, ir_begun := ir_begun st @ [(u, reason, objects (ext (ir_world st)) (up_key u))]\<rparr>
   | (_, w1) \<Rightarrow> st\<lparr>ir_world := w1\<rparr>)"
| "run_ingest_step l (StepFinish k) st = (if k < length (ir_begun st) then
     (case ir_begun st ! k of (u, reason, _) \<Rightarrow> st\<lparr>ir_world := snd (complete_finish l u reason (ir_world st))\<rparr>) else st)"
| "run_ingest_step l (StepPut k ob) st =
     st\<lparr>ir_world := (ir_world st)\<lparr>ext := (ext (ir_world st))\<lparr>objects := (objects (ext (ir_world st)))(k := ob)\<rparr>\<rparr>\<rparr>"

definition run_ingest :: "ingest_limits \<Rightarrow> ingest_step list \<Rightarrow> ingest_run \<Rightarrow> ingest_run" where
  "run_ingest l ss st = fold (run_ingest_step l) ss st"

definition ingest_start :: "(uuid \<Rightarrow> string option) \<Rightarrow> (nat \<Rightarrow> fate) \<Rightarrow> (nat \<Rightarrow> time) \<Rightarrow> (nat \<Rightarrow> uuid option) \<Rightarrow> ingest_run" where
  "ingest_start ts f c u = \<lparr>ir_world = \<lparr>tick = 0, fates = f, clock = c, fresh = u, db = \<lparr>uploads = []\<rparr>,
     outbox = [], next_row = 1, ext = \<lparr>objects = (\<lambda>_. None), track_states = ts\<rparr>\<rparr>, ir_begun = []\<rparr>"

text \<open>What the log says of one session, and what its row says should be there.\<close>

fun payload_upload :: "ingest_payload \<Rightarrow> uuid" where
  "payload_upload (TrackUploaded t) = tu_upload t"
| "payload_upload (IngestFailed i t r at) = i"

definition ingest_payloads :: "uuid \<Rightarrow> ingest_payload message list \<Rightarrow> ingest_payload list" where
  "ingest_payloads i ms = filter (\<lambda>p. payload_upload p = i) (map (\<lambda>m. env_payload (msg_value m)) ms)"

definition session_events :: "string \<Rightarrow> upload \<Rightarrow> ingest_payload list" where
  "session_events bucket u = (case up_completed u of None \<Rightarrow> []
     | Some at \<Rightarrow> [ct_payload (if up_status u = UploadCompleted then uploaded_event bucket u at else failed_event u at)])"

definition ingest_inv :: "string \<Rightarrow> uploads_db \<Rightarrow> ingest_payload message list \<Rightarrow> bool" where
  "ingest_inv b d ms \<longleftrightarrow> unique_on up_id (uploads d) \<and> list_all upload_row_ok (uploads d) \<and>
     (\<forall>i. ingest_payloads i ms = (case row_with up_id i (uploads d) of None \<Rightarrow> [] | Some u \<Rightarrow> session_events b u))"

text \<open>The part of a session that never changes; a settled one does not change at all.\<close>

definition same_session :: "upload \<Rightarrow> upload \<Rightarrow> bool" where
  "same_session u v \<longleftrightarrow> up_id u = up_id v \<and> up_track u = up_track v \<and> up_uploader u = up_uploader v \<and> up_type u = up_type v \<and>
     up_size u = up_size v \<and> up_sha u = up_sha v \<and> up_key u = up_key v"

definition moves_on :: "uploads_db \<Rightarrow> uploads_db \<Rightarrow> bool" where
  "moves_on d d1 \<longleftrightarrow> (\<forall>i r. row_with up_id i (uploads d) = Some r \<longrightarrow>
     (\<exists>r1. row_with up_id i (uploads d1) = Some r1 \<and> same_session r r1 \<and> (up_status r \<noteq> UploadPending \<longrightarrow> r1 = r)))"

lemma same_session_refl [simp]: "same_session u u"
  by (simp add: same_session_def)

lemma same_session_trans: "same_session u v \<Longrightarrow> same_session v x \<Longrightarrow> same_session u x"
  by (simp add: same_session_def)

lemma moves_on_refl [simp]: "moves_on d d"
  by (simp add: moves_on_def)

lemma ingest_payloads_snoc: "ingest_payloads i (ms @ [m]) = ingest_payloads i ms @
    (if payload_upload (env_payload (msg_value m)) = i then [env_payload (msg_value m)] else [])"
  by (simp add: ingest_payloads_def)

subsection \<open>Opening a session\<close>

definition opens :: "uploads_db \<Rightarrow> ingest_payload message list \<Rightarrow> uploads_db \<Rightarrow> ingest_payload message list \<Rightarrow> bool" where
  "opens d ms d1 ms1 \<longleftrightarrow> ms1 = ms \<and> (\<exists>u. uploads d1 = uploads d @ [u] \<and> upload_row_ok u \<and> up_completed u = None \<and>
     row_with up_id (up_id u) (uploads d) = None)"

lemma opens_inv:
  assumes "opens d ms d1 ms1" "ingest_inv b d ms"
  shows "ingest_inv b d1 ms1"
proof -
  obtain u where u: "uploads d1 = uploads d @ [u]" "upload_row_ok u" "up_completed u = None"
      "row_with up_id (up_id u) (uploads d) = None" "ms1 = ms"
    using assms(1) by (auto simp: opens_def)
  have "ingest_payloads i ms1 = (case row_with up_id i (uploads d1) of None \<Rightarrow> [] | Some u \<Rightarrow> session_events b u)" for i
  proof (cases "row_with up_id i (uploads d)")
    case None
    then have "ingest_payloads i ms = []" using assms(2) by (simp add: ingest_inv_def)
    then show ?thesis using u None by (simp add: table_simps session_events_def)
  next
    case (Some v)
    then show ?thesis using u assms(2) by (simp add: ingest_inv_def table_simps)
  qed
  then show ?thesis using u assms(2) by (simp add: ingest_inv_def row_with_None_iff)
qed

lemma opens_moves: "opens d ms d1 ms1 \<Longrightarrow> moves_on d d1"
  by (auto simp: opens_def moves_on_def table_simps)

lemma opens_pending: "opens d ms d1 ms1 \<Longrightarrow> r \<in> set (uploads d1) \<Longrightarrow> up_status r = UploadCompleted \<Longrightarrow> r \<in> set (uploads d)"
  by (auto simp: opens_def upload_row_ok_def)

lemma uploads_create_Inr:
  "uploads_create u w = (Inr x, w1) \<Longrightarrow> opens (db w) (log w) (db w1) (log w1)"
  by (auto simp: uploads_create_def opens_def stmt_Inr Let_def has_row_row_with split: if_splits)

lemma commits_create_upload: "commits (create_upload l a r) (\<lambda>_. opens)"
proof -
  have ins: "commits (bnd (uploads_create u) (\<lambda>_. ret (u, url))) (\<lambda>_. opens)" for u url
    unfolding commits_def
  proof
    fix w
    obtain q w1 where run: "uploads_create u w = (q, w1)" by fastforce
    show "case bnd (uploads_create u) (\<lambda>_. ret (u, url)) w of
        (Inl e, w1) \<Rightarrow> same_state w w1 \<or> (\<exists>x. opens (db w) (log w) (db w1) (log w1))
      | (Inr x, w1) \<Rightarrow> opens (db w) (log w) (db w1) (log w1)"
    proof (cases q)
      case (Inl e)
      have "same_state w w1 \<or> opens (db w) (log w) (db w1) (log w1)"
        using run Inl by (auto simp: uploads_create_def opens_def stmt_def Let_def has_row_row_with split: fate.splits if_splits)
      then show ?thesis using run Inl by (simp add: bnd_def)
    next
      case (Inr x)
      then show ?thesis using run uploads_create_Inr [of u w x w1] by (simp add: bnd_def ret_def)
    qed
  qed
  have no: "commits (fail e) (\<lambda>_. opens)" for e
    by (simp add: commits_def fail_def)
  show ?thesis
    unfolding create_upload_def Let_def upload_track_exists_def presign_upload_def
    by (auto simp: no split: sum.split prod.split intro!: commits_bnd ins reads)
qed

subsection \<open>Settling a session\<close>

definition settles :: "string \<Rightarrow> upload \<Rightarrow> uploads_db \<Rightarrow> ingest_payload message list \<Rightarrow> uploads_db \<Rightarrow> ingest_payload message list \<Rightarrow> bool" where
  "settles b s d ms d1 ms1 \<longleftrightarrow>
     (let hit = (\<lambda>r. up_id r = up_id s \<and> up_status r = UploadPending) in
      uploads d1 = update_rows hit (settle_row s) (uploads d) \<and>
      list_all upload_row_ok (filter (\<lambda>r. up_id r = up_id s) (uploads d1)) \<and>
      (if affected hit (uploads d) = 1 then \<exists>m. ms1 = ms @ [m] \<and> [env_payload (msg_value m)] = session_events b s
       else ms1 = ms))"

lemma settle_tx_settles:
  assumes "up_completed s \<noteq> None" "up_reason s = '''' \<longleftrightarrow> up_status s = UploadCompleted"
  shows "commits (settle_tx b s) (\<lambda>_. settles b s)"
  unfolding settle_tx_def
proof (rule pg.commits_tx)
  let ?hit = "\<lambda>r. up_id r = up_id s \<and> up_status r = UploadPending"
  fix w x w1
  assume run: "bnd (uploads_settle s) (\<lambda>changed. if \<not> changed then ret False
     else bnd (if up_reason s = '''' then pub_uploaded b s else pub_failed s) (\<lambda>_. ret True)) w = (Inr x, w1)"
  obtain at where at: "up_completed s = Some at" using assms(1) by blast
  obtain changed w2 where st: "uploads_settle s w = (Inr changed, w2)"
    and rest: "(if \<not> changed then ret False else bnd (if up_reason s = '''' then pub_uploaded b s else pub_failed s) (\<lambda>_. ret True)) w2 = (Inr x, w1)"
    using run unfolding bnd_Inr by blast
  have upd: "uploads (db w2) = update_rows ?hit (settle_row s) (uploads (db w))" "log w2 = log w"
    "list_all upload_row_ok (filter (\<lambda>r. up_id r = up_id s) (uploads (db w2)))" "changed \<longleftrightarrow> affected ?hit (uploads (db w)) = 1"
    using st by (auto simp: uploads_settle_def stmt_Inr Let_def split: if_splits)
  show "settles b s (db w) (log w) (db w1) (log w1)"
  proof (cases changed)
    case False
    then show ?thesis using rest upd by (simp add: ret_Inr settles_def)
  next
    case True
    let ?c = "if up_reason s = '''' then uploaded_event b s at else failed_event s at"
    have "(publish_events ''media.events'' ''media-ingest'' [?c] :: unit ingest_act) w2 = (Inr (), w1)"
      using rest True at by (auto simp: act_inv pub_uploaded_def pub_failed_def settled_at_def split: if_splits)
    from publish_one [OF this] obtain m where "db w1 = db w2" "log w1 = log w2 @ [m]" "carries m ?c" by blast
    moreover have "[ct_payload ?c] = session_events b s"
      using assms(2) at by (simp add: session_events_def)
    ultimately show ?thesis using upd True by (auto simp: settles_def carries_def)
  qed
qed

text \<open>The settled session agrees with the row it settles, and ends at a whole microsecond.\<close>

definition settles_own :: "upload \<Rightarrow> uploads_db \<Rightarrow> bool" where
  "settles_own s d \<longleftrightarrow> (\<exists>r. row_with up_id (up_id s) (uploads d) = Some r \<and> same_session s r) \<and>
     map_option pg_time (up_completed s) = up_completed s"

lemma update_pending:
  assumes "unique_on up_id rs"
  shows "row_with up_id i (update_rows (\<lambda>r. up_id r = k \<and> up_status r = UploadPending) (settle_row s) rs) =
    (case row_with up_id i rs of None \<Rightarrow> None
     | Some r \<Rightarrow> Some (if up_id r = k \<and> up_status r = UploadPending then settle_row s r else r))"
  by (induction rs) (auto simp: update_rows_def table_simps settle_row_def split: option.splits)

lemma affected_one:
  assumes "unique_on up_id rs" "row_with up_id k rs = Some r"
  shows "affected (\<lambda>r. up_id r = k \<and> up_status r = UploadPending) rs = (if up_status r = UploadPending then 1 else 0)"
  using assms
proof (induction rs)
  case (Cons x rs)
  show ?case
  proof (cases "up_id x = k")
    case True
    then have "\<forall>y \<in> set rs. up_id y \<noteq> k" using Cons.prems(1) by (auto simp: unique_on_def) (metis imageI)
    then have "filter (\<lambda>r. up_id r = k \<and> up_status r = UploadPending) rs = []" by (simp add: filter_empty_conv)
    then show ?thesis using True Cons.prems by (simp add: affected_def table_simps)
  next
    case False
    then show ?thesis using Cons by (simp add: affected_def table_simps unique_on_def)
  qed
qed simp

lemma settles_facts:
  assumes st: "settles b s d ms d1 ms1" and inv: "ingest_inv b d ms" and own: "settles_own s d"
  shows "ingest_inv b d1 ms1" "moves_on d d1"
    "\<And>r. r \<in> set (uploads d1) \<Longrightarrow> up_status r = UploadCompleted \<Longrightarrow>
       r \<in> set (uploads d) \<or> up_id r = up_id s \<and> up_status s = UploadCompleted"
proof -
  let ?hit = "\<lambda>r. up_id r = up_id s \<and> up_status r = UploadPending"
  have u: "unique_on up_id (uploads d)" and ok: "list_all upload_row_ok (uploads d)" using inv by (simp_all add: ingest_inv_def)
  obtain r where r: "row_with up_id (up_id s) (uploads d) = Some r" "same_session s r" "map_option pg_time (up_completed s) = up_completed s"
    using own by (auto simp: settles_own_def)
  have d1: "uploads d1 = update_rows ?hit (settle_row s) (uploads d)" using st by (simp add: settles_def Let_def)
  have rows: "row_with up_id i (uploads d1) = (case row_with up_id i (uploads d) of None \<Rightarrow> None
     | Some r \<Rightarrow> Some (if ?hit r then settle_row s r else r))" for i
    unfolding d1 by (rule update_pending [OF u])
  have pays: "ingest_payloads i ms1 = ingest_payloads i ms @ (if i = up_id s \<and> up_status r = UploadPending then session_events b s else [])" for i
  proof (cases "up_status r = UploadPending")
    case True
    then obtain m where "ms1 = ms @ [m]" "[env_payload (msg_value m)] = session_events b s"
      using st affected_one [OF u r(1)] by (auto simp: settles_def Let_def)
    moreover from this(2) have "payload_upload (env_payload (msg_value m)) = up_id s"
      by (auto simp: session_events_def uploaded_event_def failed_event_def split: option.splits if_splits)
    ultimately show ?thesis using True by (auto simp: ingest_payloads_snoc)
  next
    case False
    then show ?thesis using st affected_one [OF u r(1)] by (auto simp: settles_def Let_def)
  qed
  have same: "session_events b (settle_row s r) = session_events b s"
    using r(2,3) by (simp add: session_events_def settle_row_def same_session_def uploaded_event_def failed_event_def split: option.splits)
  have new: "list_all upload_row_ok (uploads d1)"
  proof -
    have "upload_row_ok x" if x: "x \<in> set (uploads d1)" for x
    proof (cases "up_id x = up_id s")
      case True
      then show ?thesis using st x by (simp add: settles_def Let_def list_all_iff)
    next
      case False
      then have "x \<in> set (uploads d)" using x unfolding d1 set_update_rows by (auto simp: settle_row_def)
      then show ?thesis using ok by (simp add: list_all_iff)
    qed
    then show ?thesis by (simp add: list_all_iff)
  qed
  have "ingest_payloads i ms1 = (case row_with up_id i (uploads d1) of None \<Rightarrow> [] | Some u \<Rightarrow> session_events b u)" for i
  proof (cases "i = up_id s")
    case True
    have old: "ingest_payloads i ms = session_events b r" using inv r(1) True by (simp add: ingest_inv_def)
    have id: "up_id r = up_id s" using r(2) by (simp add: same_session_def)
    have "up_status r = UploadPending \<Longrightarrow> session_events b r = []"
    proof -
      assume "up_status r = UploadPending"
      moreover have "upload_row_ok r" using ok row_with_SomeD [OF r(1)] by (simp add: list_all_iff)
      ultimately show ?thesis by (simp add: upload_row_ok_def session_events_def)
    qed
    then show ?thesis unfolding pays rows using True old id r(1) same by simp
  next
    case False
    have "up_id x = i" if "row_with up_id i (uploads d) = Some x" for x using row_with_SomeD [OF that] by simp
    then show ?thesis unfolding pays rows using False inv by (auto simp: ingest_inv_def split: option.splits)
  qed
  moreover have "unique_on up_id (uploads d1)"
    unfolding d1 using u by (simp add: unique_on_update settle_row_def)
  ultimately show "ingest_inv b d1 ms1" using new by (simp add: ingest_inv_def)
  show "moves_on d d1"
    unfolding moves_on_def rows by (auto simp: settle_row_def same_session_def)
  show "x \<in> set (uploads d) \<or> up_id x = up_id s \<and> up_status s = UploadCompleted"
    if "x \<in> set (uploads d1)" "up_status x = UploadCompleted" for x
    using that unfolding d1 set_update_rows by (auto simp: settle_row_def)
qed

lemma commits_complete_finish:
  "commits (complete_finish l u reason) (\<lambda>_ d ms d1 ms1. \<exists>at. settles (media_bucket l) (settle reason (time_truncate microsecond at) u) d ms d1 ms1)"
  proof -
  let ?R = "\<lambda>d ms d1 ms1. \<exists>at. settles (media_bucket l) (settle reason (time_truncate microsecond at) u) d ms d1 ms1"
  have get: "reads_only (uploads_get i)" for i
    by (auto simp: reads_only_def uploads_get_def stmt_def split: fate.splits option.splits)
  have out: "reads_only (upload_outcome v)" for v
    by (simp add: upload_outcome_def reads)
  have tail: "reads_only (if \<not> changed then bnd (uploads_get (up_id u)) upload_outcome
       else bnd (if reason \<noteq> '''' \<and> reason \<noteq> ReasonExpired then bnd (attempt (remove_object (up_key u))) (\<lambda>_. ret ()) else ret ())
         (\<lambda>_. upload_outcome s))" for changed s
    by (auto intro!: reads out get simp: remove_object_def)
  have core: "commits (bnd (settle_tx (media_bucket l) s) f) (\<lambda>_. ?R)"
    if s: "s = settle reason (time_truncate microsecond now) u" and f: "\<And>c. reads_only (f c)" for s now f
    unfolding commits_def
  proof
    fix w
    obtain q w1 where run: "settle_tx (media_bucket l) s w = (q, w1)" by fastforce
    have R: "settles (media_bucket l) s d ms d1 ms1 \<Longrightarrow> ?R d ms d1 ms1" for d ms d1 ms1 using s by blast
    have "commits (settle_tx (media_bucket l) s) (\<lambda>_. settles (media_bucket l) s)"
      by (rule settle_tx_settles) (auto simp: s settle_def)
    note c = commitsD [OF this run]
    show "case bnd (settle_tx (media_bucket l) s) f w of (Inl e, w1) \<Rightarrow> same_state w w1 \<or> (\<exists>x. ?R (db w) (log w) (db w1) (log w1))
      | (Inr x, w1) \<Rightarrow> ?R (db w) (log w) (db w1) (log w1)"
    proof (cases q)
      case (Inl e)
      then show ?thesis using c R run by (auto simp: bnd_def)
    next
      case (Inr x)
      obtain q2 w2 where run2: "f x w1 = (q2, w2)" by fastforce
      have "same_state w1 w2 \<and> log w2 = log w1" using reads_onlyD [OF f run2] .
      then show ?thesis using c R run Inr run2 by (cases q2) (auto simp: bnd_def)
    qed
  qed
  show ?thesis
    unfolding complete_finish_def Let_def by (rule commits_bnd [OF reads_now]) (rule core [OF refl tail])
qed

subsection \<open>The run\<close>

text \<open>What the verification accepts.\<close>

definition acceptable :: "ingest_limits \<Rightarrow> upload \<Rightarrow> object \<Rightarrow> bool" where
  "acceptable l u ob \<longleftrightarrow> int (length (ob_body ob)) = up_size u \<and> up_size u \<le> max_size l \<and> ob_type ob = up_type u \<and>
     ob_sum ob = b64_std_encode (up_sha u) \<and>
     (case format_of (up_type u) of None \<Rightarrow> False | Some (_, sniff) \<Rightarrow> sniff (take SniffLen (ob_body ob)))"

lemma reads_get_upload: "reads_only (get_upload a i)"
proof -
  have "reads_only (uploads_get i)"
    by (auto simp: reads_only_def uploads_get_def stmt_def split: fate.splits option.splits)
  then show ?thesis unfolding get_upload_def by (auto intro!: reads)
qed

lemma reads_verify: "reads_only (verify_upload l u)"
  unfolding verify_upload_def stat_object_def read_head_def Let_def
  by (intro reads_bnd reads_call) (auto intro!: reads split: option.splits)

lemma reads_complete_begin: "reads_only (complete_begin l a i)"
  unfolding complete_begin_def by (intro reads_bnd reads_get_upload) (auto intro!: reads reads_verify)

lemma verify_accepts:
  assumes "verify_upload l u w = (Inr [], w1)"
  shows "\<exists>ob. objects (ext w) (up_key u) = Some ob \<and> acceptable l u ob"
  using assms
  by (auto simp: verify_upload_def stat_object_def read_head_def act_inv acceptable_def Let_def split: option.splits if_splits prod.splits)

lemma get_upload_Inr:
  "get_upload a i w = (Inr u, w1) \<Longrightarrow> row_with up_id i (uploads (db w)) = Some u \<and> up_id u = i \<and> ext w1 = ext w"
  by (auto simp: get_upload_def uploads_get_def act_inv split: option.splits if_splits dest: row_with_SomeD)

lemma complete_begin_Inr:
  assumes "complete_begin l a i w = (Inr (Inr (u, reason)), w1)"
  shows "row_with up_id (up_id u) (uploads (db w)) = Some u \<and>
    (reason = [] \<longrightarrow> (\<exists>ob. objects (ext w) (up_key u) = Some ob \<and> acceptable l u ob))"
proof -
  obtain w2 where get: "get_upload a i w = (Inr u, w2)"
    and ver: "bnd (verify_upload l u) (\<lambda>reason. ret (Inr (u, reason))) w2 = (Inr (Inr (u, reason)), w1)"
    using assms by (auto simp: complete_begin_def act_inv split: if_splits)
  note g = get_upload_Inr [OF get]
  obtain w3 where v: "verify_upload l u w2 = (Inr reason, w3)" using ver by (auto simp: act_inv)
  with verify_accepts [of l u w2 w3] g show ?thesis by auto
qed

definition run_ok :: "ingest_limits \<Rightarrow> ingest_run \<Rightarrow> bool" where
  "run_ok l st \<longleftrightarrow> ingest_inv (media_bucket l) (db (ir_world st)) (log (ir_world st)) \<and>
     (\<forall>(u, reason, ob) \<in> set (ir_begun st).
        (\<exists>r. row_with up_id (up_id u) (uploads (db (ir_world st))) = Some r \<and> same_session u r) \<and>
        (reason = [] \<longrightarrow> (\<exists>b. ob = Some b \<and> acceptable l u b))) \<and>
     (\<forall>r \<in> set (uploads (db (ir_world st))). up_status r = UploadCompleted \<longrightarrow>
        (\<exists>u ob. (u, [], ob) \<in> set (ir_begun st) \<and> up_id u = up_id r))"

lemma begun_moves:
  assumes "moves_on d d1" "\<exists>r. row_with up_id (up_id u) (uploads d) = Some r \<and> same_session u r"
  shows "\<exists>r. row_with up_id (up_id u) (uploads d1) = Some r \<and> same_session u r"
  using assms same_session_trans unfolding moves_on_def by blast

text \<open>A step of the world that moves the sessions on and completes only what was verified.\<close>

lemma run_ok_move:
  assumes ok: "run_ok l st" and inv: "ingest_inv (media_bucket l) (db w1) (log w1)" and mv: "moves_on (db (ir_world st)) (db w1)"
    and compl: "\<And>r. r \<in> set (uploads (db w1)) \<Longrightarrow> up_status r = UploadCompleted \<Longrightarrow> r \<in> set (uploads (db (ir_world st))) \<or>
      (\<exists>u ob. (u, [], ob) \<in> set (ir_begun st) \<and> up_id u = up_id r)"
  shows "run_ok l (st\<lparr>ir_world := w1\<rparr>)"
proof -
  have "(\<exists>r. row_with up_id (up_id u) (uploads (db w1)) = Some r \<and> same_session u r) \<and>
      (reason = [] \<longrightarrow> (\<exists>b. ob = Some b \<and> acceptable l u b))" if "(u, reason, ob) \<in> set (ir_begun st)" for u reason ob
    using ok that begun_moves [OF mv] unfolding run_ok_def by blast
  moreover have "\<exists>u ob. (u, [], ob) \<in> set (ir_begun st) \<and> up_id u = up_id r"
    if "r \<in> set (uploads (db w1))" "up_status r = UploadCompleted" for r
    using ok compl [OF that] that(2) unfolding run_ok_def by blast
  ultimately show ?thesis using inv unfolding run_ok_def by auto
qed

lemma run_ok_same:
  assumes "run_ok l st" "same_state (ir_world st) w1"
  shows "run_ok l (st\<lparr>ir_world := w1\<rparr>)"
  using assms by (intro run_ok_move) (auto simp: run_ok_def log_def)

lemma run_ok_begin:
  assumes "run_ok l st" "row_with up_id (up_id u) (uploads (db (ir_world st))) = Some u"
    "reason = [] \<longrightarrow> (\<exists>b. ob = Some b \<and> acceptable l u b)"
  shows "run_ok l (st\<lparr>ir_begun := ir_begun st @ [(u, reason, ob)]\<rparr>)"
proof -
  have "\<exists>v ob'. (v, [], ob') \<in> set (ir_begun st @ [(u, reason, ob)]) \<and> up_id v = up_id r"
    if "r \<in> set (uploads (db (ir_world st)))" "up_status r = UploadCompleted" for r
    using assms(1) that unfolding run_ok_def by fastforce
  then show ?thesis using assms unfolding run_ok_def by auto
qed

lemma step_facts:
  assumes "run_ok l st"
  shows "run_ok l (run_ingest_step l s st) \<and> moves_on (db (ir_world st)) (db (ir_world (run_ingest_step l s st)))"
proof (cases s)
  case (StepOpen a r)
  obtain q w1 where run: "create_upload l a r (ir_world st) = (q, w1)" by fastforce
  have "same_state (ir_world st) w1 \<or> opens (db (ir_world st)) (log (ir_world st)) (db w1) (log w1)"
    using commitsD [OF commits_create_upload run] by (cases q) auto
  then show ?thesis
  proof
    assume "same_state (ir_world st) w1"
    with run_ok_same [OF assms] StepOpen run show ?thesis by simp
  next
    assume o: "opens (db (ir_world st)) (log (ir_world st)) (db w1) (log w1)"
    have inv: "ingest_inv (media_bucket l) (db w1) (log w1)" using opens_inv [OF o] assms by (simp add: run_ok_def)
    have "run_ok l (st\<lparr>ir_world := w1\<rparr>)"
      by (rule run_ok_move [OF assms inv opens_moves [OF o]]) (rule disjI1 [OF opens_pending [OF o]])
    with StepOpen run opens_moves [OF o] show ?thesis by simp
  qed
next
  case (StepBegin a i)
  obtain q w1 where run: "complete_begin l a i (ir_world st) = (q, w1)" by fastforce
  have same: "same_state (ir_world st) w1" using reads_onlyD [OF reads_complete_begin run] by simp
  note keep = run_ok_same [OF assms same]
  show ?thesis
  proof (cases "\<exists>u reason. q = Inr (Inr (u, reason))")
    case True
    then obtain u reason where q: "q = Inr (Inr (u, reason))" by blast
    note c = complete_begin_Inr [OF run [unfolded q]]
    have "run_ok l ((st\<lparr>ir_world := w1\<rparr>)\<lparr>ir_begun := ir_begun (st\<lparr>ir_world := w1\<rparr>) @ [(u, reason, objects (ext (ir_world st)) (up_key u))]\<rparr>)"
      by (rule run_ok_begin [OF keep]) (use c same in auto)
    with StepBegin run q same show ?thesis by simp
  next
    case False
    then have "run_ingest_step l s st = st\<lparr>ir_world := w1\<rparr>"
      using StepBegin run by (auto split: sum.splits)
    with keep same show ?thesis by simp
  qed
next
  case (StepFinish k)
  show ?thesis
  proof (cases "k < length (ir_begun st)")
    case True
    obtain u reason ob where e: "ir_begun st ! k = (u, reason, ob)" by (cases "ir_begun st ! k") auto
    then have mem: "(u, reason, ob) \<in> set (ir_begun st)" using True by (metis nth_mem)
    obtain q w1 where run: "complete_finish l u reason (ir_world st) = (q, w1)" by fastforce
    have "same_state (ir_world st) w1 \<or> (\<exists>at. settles (media_bucket l) (settle reason (time_truncate microsecond at) u)
        (db (ir_world st)) (log (ir_world st)) (db w1) (log w1))"
      using commitsD [OF commits_complete_finish run] by (cases q) auto
    then show ?thesis
    proof
      assume "same_state (ir_world st) w1"
      with run_ok_same [OF assms] StepFinish True e run show ?thesis by simp
    next
      assume "\<exists>at. settles (media_bucket l) (settle reason (time_truncate microsecond at) u)
        (db (ir_world st)) (log (ir_world st)) (db w1) (log w1)"
      then obtain at where s: "settles (media_bucket l) (settle reason (time_truncate microsecond at) u)
        (db (ir_world st)) (log (ir_world st)) (db w1) (log w1)" by blast
      have inv: "ingest_inv (media_bucket l) (db (ir_world st)) (log (ir_world st))" using assms by (simp add: run_ok_def)
      have own: "settles_own (settle reason (time_truncate microsecond at) u) (db (ir_world st))"
        using assms mem unfolding run_ok_def settles_own_def by (auto simp: settle_def same_session_def)
      note f = settles_facts [OF s inv own]
      have "run_ok l (st\<lparr>ir_world := w1\<rparr>)"
      proof (rule run_ok_move [OF assms f(1,2)])
        fix r
        assume "r \<in> set (uploads (db w1))" "up_status r = UploadCompleted"
        from f(3) [OF this] mem show "r \<in> set (uploads (db (ir_world st))) \<or>
            (\<exists>u ob. (u, [], ob) \<in> set (ir_begun st) \<and> up_id u = up_id r)"
          by (auto simp: settle_def split: if_splits)
      qed
      with StepFinish True e run f(2) show ?thesis by simp
    qed
  qed (use assms StepFinish in simp)
next
  case (StepPut k ob)
  then show ?thesis using run_ok_same [OF assms] by simp
qed

lemma run_ingest_ok:
  "run_ok l st \<Longrightarrow> run_ok l (run_ingest l ss st)"
  by (induction ss arbitrary: st) (simp_all add: run_ingest_def step_facts)

lemma ingest_start_ok: "run_ok l (ingest_start ts f c u)"
  by (simp add: run_ok_def ingest_start_def ingest_inv_def log_def ingest_payloads_def)

text \<open>C18: However opens, completes and uploads interleave and whatever calls are lost: the
  events of a session are exactly what its row says, none while it is pending, one
  \<open>track.uploaded\<close> or one \<open>media.ingest.failed\<close> of that upload once it is settled; and a
  settled session never changes again, so concurrent completes settle and announce it once.\<close>

theorem uploads_settle_once:
  "let st = run_ingest l ss (ingest_start ts f c u); st1 = run_ingest_step l s st in
   ingest_payloads i (log (ir_world st)) = (case row_with up_id i (uploads (db (ir_world st))) of
     None \<Rightarrow> [] | Some up \<Rightarrow> session_events (media_bucket l) up) \<and>
   (case row_with up_id i (uploads (db (ir_world st))) of None \<Rightarrow> True
    | Some up \<Rightarrow> (case row_with up_id i (uploads (db (ir_world st1))) of None \<Rightarrow> False
      | Some up1 \<Rightarrow> same_session up up1 \<and> (up_status up = UploadPending \<or> up1 = up)))"
proof -
  have ok: "run_ok l (run_ingest l ss (ingest_start ts f c u))" by (rule run_ingest_ok [OF ingest_start_ok])
  then have pays: "ingest_payloads i (log (ir_world (run_ingest l ss (ingest_start ts f c u)))) =
      (case row_with up_id i (uploads (db (ir_world (run_ingest l ss (ingest_start ts f c u))))) of
        None \<Rightarrow> [] | Some up \<Rightarrow> session_events (media_bucket l) up)"
    by (simp add: run_ok_def ingest_inv_def)
  have "moves_on (db (ir_world (run_ingest l ss (ingest_start ts f c u))))
      (db (ir_world (run_ingest_step l s (run_ingest l ss (ingest_start ts f c u)))))"
    using step_facts [OF ok] by blast
  then show ?thesis
    unfolding Let_def pays moves_on_def
    by (cases "row_with up_id i (uploads (db (ir_world (run_ingest l ss (ingest_start ts f c u)))))") (simp, fastforce)
qed

text \<open>A session completes only if what was stored under its key was looked at after it
  opened and had the declared size within the limit, content type and digest, and the leading
  bytes of the declared format.\<close>

theorem completed_upload_was_verified:
  assumes "st = run_ingest l ss (ingest_start ts f c u)"
    and "r \<in> set (uploads (db (ir_world st)))" "up_status r = UploadCompleted"
  shows "\<exists>(v, reason, ob) \<in> set (ir_begun st). up_id v = up_id r \<and> reason = [] \<and>
    (case ob of None \<Rightarrow> False | Some b \<Rightarrow> acceptable l r b)"
proof -
  have ok: "run_ok l st" unfolding assms(1) by (rule run_ingest_ok [OF ingest_start_ok])
  then obtain v ob where v: "(v, [], ob) \<in> set (ir_begun st)" "up_id v = up_id r"
    using assms(2,3) unfolding run_ok_def by blast
  then obtain r1 b where r1: "row_with up_id (up_id v) (uploads (db (ir_world st))) = Some r1" "same_session v r1" "ob = Some b" "acceptable l v b"
    using ok unfolding run_ok_def by blast
  have "unique_on up_id (uploads (db (ir_world st)))" using ok by (simp add: run_ok_def ingest_inv_def)
  then have "r1 = r" using unique_on_row_with assms(2) r1(1) v(2) by fastforce
  then have "acceptable l r b" using r1(2,4) by (simp add: acceptable_def same_session_def)
  with v r1(3) show ?thesis by (intro bexI [OF _ v(1)]) simp
qed

section \<open>A session that completes\<close>

definition sample_limits :: ingest_limits where
  "sample_limits = \<lparr>max_size = 100, url_ttl = 1000000000, media_bucket = ''m''\<rparr>"

definition sample_steps :: "ingest_step list" where
  "sample_steps = (let a = \<lparr>act_id = 9, act_artist = True, act_admin = False\<rparr> in
     [StepOpen a \<lparr>ur_track = 1, ur_type = ''audio/mpeg'', ur_size = 3, ur_sha = replicate 64 (CHR ''0'')\<rparr>,
      StepPut (OriginalKey 1 5 ''mp3'') (Some \<lparr>ob_body = ''ID3'', ob_type = ''audio/mpeg'',
        ob_sum = b64_std_encode (replicate 32 (CHR 0x00))\<rparr>),
      StepBegin a 5, StepFinish 0])"

definition sample_ingest :: ingest_run where
  "sample_ingest = run_ingest sample_limits sample_steps
     (ingest_start (\<lambda>_. Some ''DRAFT'') (\<lambda>_. Fine) (\<lambda>_. 1000) (\<lambda>_. Some 5))"

lemma sample_ingest_rows: "map up_status (uploads (db (ir_world sample_ingest))) = [UploadCompleted]"
  by code_simp

theorem completed_upload_was_verified_witness:
  "\<exists>r \<in> set (uploads (db (ir_world sample_ingest))). up_status r = UploadCompleted \<and>
     (\<exists>(v, reason, ob) \<in> set (ir_begun sample_ingest). up_id v = up_id r \<and> reason = [] \<and>
       (case ob of None \<Rightarrow> False | Some b \<Rightarrow> acceptable sample_limits r b))"
proof -
  obtain r where r: "uploads (db (ir_world sample_ingest)) = [r]" "up_status r = UploadCompleted"
    using sample_ingest_rows by auto
  then have m: "r \<in> set (uploads (db (ir_world sample_ingest)))" by simp
  from completed_upload_was_verified [OF sample_ingest_def m r(2)] m r(2) show ?thesis by blast
qed

section \<open>The handlers\<close>

record upload_view =
  uv_id :: uuid
  uv_track :: uuid
  uv_status :: string
  uv_type :: string
  uv_size :: int
  uv_sha :: string
  uv_reason :: "string option"
  uv_created :: time
  uv_expires :: time
  uv_completed :: "time option"
  uv_upload :: "upload_url option"

definition upload_view_of :: "upload \<Rightarrow> upload_view" where
  "upload_view_of u = \<lparr>uv_id = up_id u, uv_track = up_track u, uv_status = up_status u, uv_type = up_type u,
     uv_size = up_size u, uv_sha = hex_encode (up_sha u),
     uv_reason = (if up_reason u \<noteq> '''' then Some (up_reason u) else None),
     uv_created = up_created u, uv_expires = up_expires u, uv_completed = up_completed u, uv_upload = None\<rparr>"

text \<open>A rejected upload answers with the reason as its only detail.\<close>

fun upload_problem :: "ingest_error failure \<Rightarrow> 'b response" where
  "upload_problem (Domain (InvalidUpload fs)) = Problem 422 CodeValidation fs"
| "upload_problem (Domain (UploadRejected reason)) = Problem 422 ''UPLOAD_REJECTED'' [(''reason'', reason)]"
| "upload_problem (Domain UploadForbidden) = Problem 403 ''FORBIDDEN'' []"
| "upload_problem (Domain UploadTrackNotFound) = Problem 404 ''TRACK_NOT_FOUND'' []"
| "upload_problem (Domain UploadNotFound) = Problem 404 ''UPLOAD_NOT_FOUND'' []"
| "upload_problem (Domain NotUploaded) = Problem 409 ''UPLOAD_INCOMPLETE'' []"
| "upload_problem Infra = Problem 503 CodeUnavailable []"

text \<open>The body of a create request: the track is \<open>None\<close> when it is no UUID.\<close>

record upload_body =
  ub_track :: "uuid option"
  ub_type :: string
  ub_size :: int
  ub_sha :: string

definition upload_request_of :: "upload_body \<Rightarrow> upload_request" where
  "upload_request_of b = \<lparr>ur_track = (case ub_track b of None \<Rightarrow> uuid_Nil | Some t \<Rightarrow> t), ur_type = ub_type b,
     ur_size = ub_size b, ur_sha = ub_sha b\<rparr>"

definition post_upload :: "ingest_limits \<Rightarrow> actor option \<Rightarrow> upload_body option \<Rightarrow> ingest_world \<Rightarrow> upload_view response \<times> ingest_world" where
  "post_upload l who body w =
     (case who of
        None \<Rightarrow> (Problem 401 CodeUnauthenticated [], w)
      | Some a \<Rightarrow> (case body of
          None \<Rightarrow> (Problem 400 CodeBadRequest [], w)
        | Some b \<Rightarrow> (case create_upload l a (upload_request_of b) w of
            (Inl f, w1) \<Rightarrow> (upload_problem f, w1)
          | (Inr (u, url), w1) \<Rightarrow> (Reply 201 ((upload_view_of u)\<lparr>uv_upload := Some url\<rparr>), w1))))"

text \<open>\<open>path_upload\<close>: the routes of one session; a path without a UUID is a bad request.\<close>

definition path_upload :: "(actor \<Rightarrow> uuid \<Rightarrow> upload ingest_act) \<Rightarrow> actor option \<Rightarrow> uuid option \<Rightarrow> ingest_world \<Rightarrow> upload_view response \<times> ingest_world" where
  "path_upload use who i w =
     (case who of
        None \<Rightarrow> (Problem 401 CodeUnauthenticated [], w)
      | Some a \<Rightarrow> (case i of
          None \<Rightarrow> (Problem 400 CodeBadRequest [], w)
        | Some i \<Rightarrow> (case use a i w of
            (Inl f, w1) \<Rightarrow> (upload_problem f, w1) | (Inr u, w1) \<Rightarrow> (Reply 200 (upload_view_of u), w1))))"

definition get_upload_route :: "actor option \<Rightarrow> uuid option \<Rightarrow> ingest_world \<Rightarrow> upload_view response \<times> ingest_world" where
  "get_upload_route = path_upload get_upload"

definition post_complete :: "ingest_limits \<Rightarrow> actor option \<Rightarrow> uuid option \<Rightarrow> ingest_world \<Rightarrow> upload_view response \<times> ingest_world" where
  "post_complete l = path_upload (complete_upload l)"

end
