(* ===== verification/Outside.thy ===== *)
theory Outside
  imports World
begin

text \<open>
  What actions do to the state outside, whatever fails: \<open>ext_rel R m\<close> says that every run of
  \<open>m\<close> relates the state before and after by \<open>R\<close>; \<open>outside R P m\<close> says so too, and that a
  value it returns satisfies \<open>P\<close>.
\<close>

section \<open>Related states\<close>

definition ext_rel :: "('x \<Rightarrow> 'x \<Rightarrow> bool) \<Rightarrow> ('d, 'x, 'p, 'e, 'a) act \<Rightarrow> bool" where
  "ext_rel R m \<longleftrightarrow> (\<forall>w. R (ext w) (ext (snd (m w))))"

named_theorems ext_rules \<open>actions whose calls outside respect a relation\<close>

lemma ext_rel_simple [ext_rules]:
  assumes "reflp R"
  shows "ext_rel R (ret x)" "ext_rel R (fail e)" "ext_rel R (raise f)" "ext_rel R now_utc" "ext_rel R new_uuid"
  using assms by (auto simp: ext_rel_def ret_def fail_def raise_def now_utc_def new_uuid_def reflp_def)

lemma ext_rel_call: "reflp R \<Longrightarrow> (\<And>x y x1. f x = Inr (y, x1) \<Longrightarrow> R x x1) \<Longrightarrow> ext_rel R (call f)"
  by (auto simp: ext_rel_def call_def reflp_def split: fate.splits sum.splits)

lemma ext_rel_attempt [ext_rules]: "ext_rel R m \<Longrightarrow> ext_rel R (attempt m)"
  by (auto simp: ext_rel_def attempt_def split: prod.splits) (metis snd_conv)

lemma ext_rel_bnd [ext_rules]:
  fixes m :: "('d, 'x, 'p, 'e, 'a) act"
  assumes R: "transp R" and m: "ext_rel R m" and f: "\<And>x. ext_rel R (f x)"
  shows "ext_rel R (bnd m f)"
  unfolding ext_rel_def [of R "bnd m f"]
proof
  fix w :: "('d, 'x, 'p) world"
  obtain r w1 where run: "m w = (r, w1)" by fastforce
  have a: "R (ext w) (ext w1)" using m run unfolding ext_rel_def by (metis snd_conv)
  show "R (ext w) (ext (snd (bnd m f w)))"
  proof (cases r)
    case (Inr x)
    have "R (ext w1) (ext (snd (f x w1)))" using f unfolding ext_rel_def by blast
    with a run Inr R show ?thesis by (auto simp: bnd_def elim: transpE)
  qed (use a run in \<open>simp add: bnd_def\<close>)
qed

section \<open>Results\<close>

definition outside :: "('x \<Rightarrow> 'x \<Rightarrow> bool) \<Rightarrow> ('a \<Rightarrow> bool) \<Rightarrow> ('d, 'x, 'p, 'e, 'a) act \<Rightarrow> bool" where
  "outside R P m \<longleftrightarrow> (\<forall>w r w1. m w = (r, w1) \<longrightarrow> R (ext w) (ext w1) \<and> (case r of Inl e \<Rightarrow> True | Inr y \<Rightarrow> P y))"

lemma outsideD:
  assumes "outside R P m" "m w = (r, w1)"
  shows "R (ext w) (ext w1)" "r = Inr y \<Longrightarrow> P y"
  using assms unfolding outside_def by fastforce+

lemma outside_ext_rel: "ext_rel R m \<Longrightarrow> outside R (\<lambda>_. True) m"
  by (auto simp: ext_rel_def outside_def split: sum.splits) (metis snd_conv)+

lemma outside_weaken: "outside R P m \<Longrightarrow> (\<And>y. P y \<Longrightarrow> Q y) \<Longrightarrow> outside R Q m"
  by (fastforce simp: outside_def split: sum.splits)

lemma outside_ret: "reflp R \<Longrightarrow> P x \<Longrightarrow> outside R P (ret x)"
  by (auto simp: outside_def ret_def reflp_def)

lemma outside_stop: "reflp R \<Longrightarrow> outside R P (raise f)" "reflp R \<Longrightarrow> outside R P (fail e)"
  by (auto simp: outside_def raise_def fail_def reflp_def)

lemma outside_call:
  assumes "reflp R" "\<And>x y x1. f x = Inr (y, x1) \<Longrightarrow> R x x1 \<and> P y"
  shows "outside R P (call f)"
  using assms by (auto simp: outside_def call_def reflp_def split: fate.splits sum.splits)

lemma outside_attempt: "outside R P m \<Longrightarrow> outside R (\<lambda>r. case r of Inl f \<Rightarrow> True | Inr y \<Rightarrow> P y) (attempt m)"
  by (auto simp: outside_def attempt_def split: prod.splits)

lemma outside_bnd:
  fixes m :: "('d, 'x, 'p, 'e, 'a) act"
  assumes R: "transp R" and m: "outside R P m" and f: "\<And>x. P x \<Longrightarrow> outside R Q (f x)"
  shows "outside R Q (bnd m f)"
  unfolding outside_def [of R Q "bnd m f"]
proof (intro allI impI)
  fix w :: "('d, 'x, 'p) world" and r w2
  assume run: "bnd m f w = (r, w2)"
  obtain q w1 where q: "m w = (q, w1)" by fastforce
  note a = outsideD [OF m q]
  show "R (ext w) (ext w2) \<and> (case r of Inl e \<Rightarrow> True | Inr y \<Rightarrow> Q y)"
  proof (cases q)
    case (Inl e)
    then show ?thesis using run q a(1) by (auto simp: bnd_def)
  next
    case (Inr x)
    then have run2: "f x w1 = (r, w2)" and p: "P x" using run q a(2) by (auto simp: bnd_def)
    note b = outsideD [OF f [OF p] run2]
    have "R (ext w) (ext w2)" using R a(1) b(1) by (rule transpE)
    then show ?thesis using b(2) by (cases r) auto
  qed
qed

end
