(* ===== verification/Transcode.thy ===== *)
theory Transcode
  imports Media Outside
begin

text \<open>
  The Transcoder (\<^verbatim>\<open>workers/transcoder\<close>): a verified master becomes one variant per quality,
  each stored with the provenance of its master, and \<open>track.transcoded\<close> is announced on
  \<open>media.events\<close> without an outbox. FFmpeg and SHA-256 are parameters (\<open>encoder\<close>); the
  temporary files are values; a call that fails for good is an error, one that may be
  retried a lost call.
\<close>

section \<open>Variants and jobs\<close>

text \<open>
  The provenance a variant carries in its metadata. A variant that was written without
  (by a seed script) has no upload, an empty digest and the zero time.
\<close>

record provenance =
  pv_upload :: "uuid option"
  pv_sha :: string
  pv_at :: time
  pv_duration :: int

record stored_variant =
  sv_prov :: provenance
  sv_quality :: int
  sv_key :: object_key
  sv_size :: int

text \<open>\<open>mediav1.TrackUploaded\<close> as the worker reads it; an empty text is \<open>None\<close> or empty.\<close>

record job =
  jb_upload :: "uuid option"
  jb_track :: "uuid option"
  jb_bucket :: string
  jb_key :: "object_key option"
  jb_sha :: string
  jb_at :: time

record track_transcoded =
  tt_upload :: "uuid option"
  tt_track :: uuid
  tt_bucket :: string
  tt_codec :: string
  tt_duration :: int
  tt_variants :: "(int \<times> object_key \<times> string \<times> int) list"
  tt_sha :: string
  tt_at :: time

datatype transcode_payload = TrackTranscoded track_transcoded | TranscodeFailed "uuid option" uuid string time

text \<open>Outside: the masters of every bucket, the metadata and sizes of the variants, the topic.\<close>

record transcode_ext =
  masters :: "string \<Rightarrow> object_key \<Rightarrow> string option"
  variants :: "object_key \<Rightarrow> (provenance \<times> int) option"
  media_log :: "transcode_payload message list"

text \<open>\<open>probe\<close> gives the duration, or \<open>None\<close> for what is no audio; \<open>encode\<close> the bytes of a variant.\<close>

record encoder =
  probe :: "string \<Rightarrow> int option"
  encode :: "string \<Rightarrow> int \<Rightarrow> string"
  sha256_hex :: "string \<Rightarrow> string"

datatype transcode_error = InvalidJob | SourceMissing | Undecodable

type_synonym 'a transcode_act = "(unit, transcode_ext, transcode_payload, transcode_error, 'a) act"
type_synonym transcode_world = "(unit, transcode_ext, transcode_payload) world"

abbreviation OutcomeTranscoded :: string where "OutcomeTranscoded \<equiv> ''transcoded''"
abbreviation OutcomeDuplicate :: string where "OutcomeDuplicate \<equiv> ''duplicate''"
abbreviation OutcomeStale :: string where "OutcomeStale \<equiv> ''stale''"
abbreviation OutcomeFailed :: string where "OutcomeFailed \<equiv> ''failed''"

abbreviation AudioContentType :: string where "AudioContentType \<equiv> ''audio/aac''"

section \<open>Object storage, FFmpeg and the topic\<close>

definition download_master :: "encoder \<Rightarrow> string \<Rightarrow> object_key \<Rightarrow> (string \<times> string) transcode_act" where
  "download_master e bucket k = call (\<lambda>x. case masters x bucket k of
     None \<Rightarrow> Inl (Domain SourceMissing) | Some c \<Rightarrow> Inr ((c, sha256_hex e c), x))"

definition get_variant :: "uuid \<Rightarrow> int \<Rightarrow> stored_variant option transcode_act" where
  "get_variant track q = call (\<lambda>x. Inr (case variants x (AudioKey track q) of None \<Rightarrow> None
     | Some (p, n) \<Rightarrow> Some \<lparr>sv_prov = p, sv_quality = q, sv_key = AudioKey track q, sv_size = n\<rparr>, x))"

definition put_variant :: "uuid \<Rightarrow> int \<Rightarrow> string \<Rightarrow> provenance \<Rightarrow> stored_variant transcode_act" where
  "put_variant track q bytes p = call (\<lambda>x. Inr
     (\<lparr>sv_prov = p, sv_quality = q, sv_key = AudioKey track q, sv_size = int (length bytes)\<rparr>,
      x\<lparr>variants := (variants x)(AudioKey track q \<mapsto> (p, int (length bytes)))\<rparr>))"

definition probe_master :: "encoder \<Rightarrow> string \<Rightarrow> int transcode_act" where
  "probe_master e c = call (\<lambda>x. case probe e c of None \<Rightarrow> Inl (Domain Undecodable) | Some d \<Rightarrow> Inr (d, x))"

definition encode_master :: "encoder \<Rightarrow> string \<Rightarrow> (int \<Rightarrow> string) transcode_act" where
  "encode_master e c = call (\<lambda>x. Inr (encode e c, x))"

definition media_publish :: "uuid \<Rightarrow> string \<Rightarrow> time \<Rightarrow> transcode_payload \<Rightarrow> unit transcode_act" where
  "media_publish track ty at p = bnd (new_envelope ty 1 ''transcoder'' at p) (\<lambda>env.
     let m = \<lparr>msg_topic = ''media.events'', msg_key = track, msg_value = env,
       msg_headers = [(''event-type'', ty), (''event-version'', ''1''), (''content-type'', ''application/json'')]\<rparr> in
     call (\<lambda>x. Inr ((), x\<lparr>media_log := media_log x @ [m]\<rparr>)))"

section \<open>The job\<close>

fun existing_variants :: "uuid \<Rightarrow> int list \<Rightarrow> stored_variant list transcode_act" where
  "existing_variants track [] = ret []"
| "existing_variants track (q # qs) = bnd (get_variant track q) (\<lambda>v. bnd (existing_variants track qs) (\<lambda>vs.
     ret (case v of None \<Rightarrow> vs | Some v \<Rightarrow> v # vs)))"

definition transcoded_event :: "string \<Rightarrow> job \<Rightarrow> uuid \<Rightarrow> int \<Rightarrow> stored_variant list \<Rightarrow> time \<Rightarrow> transcode_payload" where
  "transcoded_event bucket j track duration stored now = TrackTranscoded \<lparr>tt_upload = jb_upload j, tt_track = track,
     tt_bucket = bucket, tt_codec = ''aac'', tt_duration = duration,
     tt_variants = map (\<lambda>v. (sv_quality v, sv_key v, AudioContentType, sv_size v)) stored, tt_sha = jb_sha j, tt_at = now\<rparr>"

definition announce_transcoded :: "string \<Rightarrow> job \<Rightarrow> uuid \<Rightarrow> int \<Rightarrow> stored_variant list \<Rightarrow> unit transcode_act" where
  "announce_transcoded bucket j track duration stored = bnd now_utc (\<lambda>now.
     media_publish track ''track.transcoded'' now (transcoded_event bucket j track duration stored now))"

definition fail_job :: "job \<Rightarrow> uuid \<Rightarrow> string \<Rightarrow> string transcode_act" where
  "fail_job j track reason = bnd now_utc (\<lambda>now.
     bnd (media_publish track ''media.transcode.failed'' now (TranscodeFailed (jb_upload j) track reason now)) (\<lambda>_. ret OutcomeFailed))"

text \<open>\<open>alreadyHandled\<close>: the outcome when the stored variants make the job redundant.\<close>

definition already_handled :: "string \<Rightarrow> job \<Rightarrow> uuid \<Rightarrow> stored_variant list \<Rightarrow> string option transcode_act" where
  "already_handled bucket j track existing =
     (if list_ex (\<lambda>v. jb_at j < pv_at (sv_prov v)) existing then ret (Some OutcomeStale)
      else if length existing \<noteq> length Qualities then ret None
      else if list_ex (\<lambda>v. pv_sha (sv_prov v) \<noteq> jb_sha j) existing then ret None
      else bnd (announce_transcoded bucket j track (pv_duration (sv_prov (hd existing))) existing) (\<lambda>_. ret (Some OutcomeDuplicate)))"

fun put_variants :: "uuid \<Rightarrow> (int \<Rightarrow> string) \<Rightarrow> provenance \<Rightarrow> int list \<Rightarrow> stored_variant list transcode_act" where
  "put_variants track files p [] = ret []"
| "put_variants track files p (q # qs) = bnd (put_variant track q (files q) p) (\<lambda>v.
     bnd (put_variants track files p qs) (\<lambda>vs. ret (v # vs)))"

definition produce_variants :: "encoder \<Rightarrow> string \<Rightarrow> job \<Rightarrow> uuid \<Rightarrow> string \<Rightarrow> int \<Rightarrow> string transcode_act" where
  "produce_variants e bucket j track master duration = bnd (encode_master e master) (\<lambda>files.
     bnd (put_variants track files \<lparr>pv_upload = jb_upload j, pv_sha = jb_sha j, pv_at = jb_at j, pv_duration = duration\<rparr> Qualities) (\<lambda>stored.
     bnd (announce_transcoded bucket j track duration stored) (\<lambda>_. ret OutcomeTranscoded)))"

definition transcode_master :: "encoder \<Rightarrow> string \<Rightarrow> job \<Rightarrow> uuid \<Rightarrow> object_key \<Rightarrow> string transcode_act" where
  "transcode_master e bucket j track k =
     bnd (attempt (download_master e (jb_bucket j) k)) (\<lambda>r. case r of
         Inl f \<Rightarrow> if f = Domain SourceMissing then fail_job j track ''SOURCE_MISSING'' else raise f
       | Inr (master, digest) \<Rightarrow>
           if digest \<noteq> jb_sha j then fail_job j track ''SOURCE_CORRUPTED''
           else bnd (attempt (probe_master e master)) (\<lambda>r. case r of
               Inl f \<Rightarrow> if f = Domain Undecodable then fail_job j track ''UNDECODABLE'' else raise f
             | Inr duration \<Rightarrow> produce_variants e bucket j track master duration))"

definition transcode :: "encoder \<Rightarrow> string \<Rightarrow> job \<Rightarrow> string transcode_act" where
  "transcode e bucket j =
     (case (jb_track j, jb_key j) of
        (Some track, Some k) \<Rightarrow>
          if jb_bucket j = '''' \<or> jb_sha j = '''' then fail InvalidJob
          else bnd (existing_variants track Qualities) (\<lambda>existing.
            bnd (already_handled bucket j track existing) (\<lambda>r. case r of
                Some outcome \<Rightarrow> ret outcome
              | None \<Rightarrow> transcode_master e bucket j track k))
      | _ \<Rightarrow> fail InvalidJob)"

text \<open>The consumer of \<open>media.events\<close>: only \<open>track.uploaded\<close> matters.\<close>

definition handle_uploaded :: "encoder \<Rightarrow> string \<Rightarrow> job wire krecord \<Rightarrow> transcode_world \<Rightarrow> herr option \<times> transcode_world" where
  "handle_uploaded e bucket rec w =
     (case decode_envelope (rec_value rec) of
        None \<Rightarrow> (Some \<lparr>permanent = True, herr_text = ''envelope''\<rparr>, w)
      | Some env \<Rightarrow>
          if env_type env \<noteq> ''track.uploaded'' then (None, w)
          else if env_version env \<noteq> 1 then (Some \<lparr>permanent = True, herr_text = ''unsupported version''\<rparr>, w)
          else (case env_payload env of
              None \<Rightarrow> (Some \<lparr>permanent = True, herr_text = ''payload''\<rparr>, w)
            | Some j \<Rightarrow> (case transcode e bucket j w of
                (Inr outcome, w1) \<Rightarrow> (None, w1)
              | (Inl f, w1) \<Rightarrow> (Some \<lparr>permanent = (f = Domain InvalidJob), herr_text = ''transcode''\<rparr>, w1))))"

text \<open>What the worker reads of an event of Media Ingest.\<close>

definition job_of :: "track_uploaded \<Rightarrow> job" where
  "job_of t = \<lparr>jb_upload = Some (tu_upload t), jb_track = Some (tu_track t), jb_bucket = tu_bucket t, jb_key = Some (tu_key t),
     jb_sha = tu_sha t, jb_at = tu_at t\<rparr>"

section \<open>What a job does to the store\<close>

text \<open>A job writes variants of its own track only, with its own upload time.\<close>

definition writes_own :: "uuid \<Rightarrow> time \<Rightarrow> transcode_ext \<Rightarrow> transcode_ext \<Rightarrow> bool" where
  "writes_own track at x x1 \<longleftrightarrow> (\<forall>k. variants x1 k = variants x k \<or>
     (\<exists>q \<in> set Qualities. k = AudioKey track q) \<and> (\<exists>p n. variants x1 k = Some (p, n) \<and> pv_at p = at))"

lemma writes_own_refl: "reflp (writes_own track at)"
  by (simp add: reflp_def writes_own_def)

lemma writes_own_trans: "transp (writes_own track at)"
  unfolding transp_def writes_own_def by metis

lemmas own_rules = ext_rules [where R = "writes_own track at" for track at] ext_rel_simple [OF writes_own_refl]
  ext_rel_bnd [OF writes_own_trans] ext_rel_attempt

lemma own_publish: "ext_rel (writes_own track at) (media_publish t ty now p)"
  unfolding media_publish_def new_envelope_def Let_def
  by (intro own_rules ext_rel_call [OF writes_own_refl]) (auto simp: writes_own_def)

lemma own_announce: "ext_rel (writes_own track at) (announce_transcoded b j t d vs)"
  unfolding announce_transcoded_def by (intro own_rules own_publish)

lemma own_fail: "ext_rel (writes_own track at) (fail_job j t reason)"
  unfolding fail_job_def by (intro own_rules own_publish)

lemma own_put: "q \<in> set Qualities \<Longrightarrow> pv_at p = at \<Longrightarrow> ext_rel (writes_own track at) (put_variant track q bytes p)"
  unfolding put_variant_def by (intro ext_rel_call [OF writes_own_refl]) (auto simp: writes_own_def)

lemma own_puts: "set qs \<subseteq> set Qualities \<Longrightarrow> pv_at p = at \<Longrightarrow> ext_rel (writes_own track at) (put_variants track files p qs)"
  by (induction qs) (auto intro!: own_rules own_put)

lemma own_master: "ext_rel (writes_own track (jb_at j)) (transcode_master e b j track k)"
proof -
  have enc: "ext_rel (writes_own track (jb_at j)) (encode_master e c)" for c
    unfolding encode_master_def by (rule ext_rel_call [OF writes_own_refl]) (auto simp: writes_own_def)
  have prb: "ext_rel (writes_own track (jb_at j)) (probe_master e c)" for c
    unfolding probe_master_def by (rule ext_rel_call [OF writes_own_refl]) (auto simp: writes_own_def split: option.splits)
  have dl: "ext_rel (writes_own track (jb_at j)) (download_master e c k)" for c
    unfolding download_master_def by (rule ext_rel_call [OF writes_own_refl]) (auto simp: writes_own_def split: option.splits)
  have prod: "ext_rel (writes_own track (jb_at j)) (produce_variants e b j track c d)" for c d
    unfolding produce_variants_def by (intro own_rules enc own_puts own_announce) simp_all
  show ?thesis
    unfolding transcode_master_def
    by (auto intro!: own_rules dl prb prod own_fail split: sum.splits)
qed

lemma existing_Inr:
  "existing_variants track qs w = (Inr vs, w1) \<Longrightarrow> ext w1 = ext w \<and>
     vs = List.map_filter (\<lambda>q. map_option (\<lambda>(p, n). \<lparr>sv_prov = p, sv_quality = q, sv_key = AudioKey track q, sv_size = n\<rparr>)
       (variants (ext w) (AudioKey track q))) qs"
  by (induction qs arbitrary: w vs w1)
    (fastforce simp: act_inv get_variant_def map_filter_simps split: option.splits prod.splits)+

lemma existing_ext: "ext (snd (existing_variants track qs w)) = ext w"
proof -
  have "ext_rel (=) (existing_variants track qs)"
    by (induction qs) (auto simp: get_variant_def intro!: ext_rules ext_rel_call)
  then show ?thesis by (simp add: ext_rel_def)
qed

lemma handled_ext: "variants (ext (snd (already_handled b j track vs w))) = variants (ext w)"
proof -
  let ?R = "\<lambda>x x1. variants x = variants x1"
  have r: "reflp ?R" "transp ?R" by (auto simp: reflp_def transp_def)
  have "ext_rel ?R (already_handled b j track vs)"
    unfolding already_handled_def announce_transcoded_def media_publish_def new_envelope_def Let_def
    by (auto intro!: ext_rel_bnd [OF r(2)] ext_rel_simple [OF r(1)] ext_rel_call [OF r(1)])
  then show ?thesis by (simp add: ext_rel_def)
qed

lemma handled_None:
  "already_handled b j track vs w = (Inr None, w1) \<Longrightarrow> \<forall>v \<in> set vs. pv_at (sv_prov v) \<le> jb_at j"
  by (auto simp: already_handled_def act_inv list_ex_iff not_less split: if_splits)

text \<open>The stored variants of a track and quality by the time of their master.\<close>

definition variant_time :: "transcode_world \<Rightarrow> uuid \<Rightarrow> int \<Rightarrow> time option" where
  "variant_time w track q = map_option (\<lambda>(p, n). pv_at p) (variants (ext w) (AudioKey track q))"

definition not_older :: "time option \<Rightarrow> time option \<Rightarrow> bool" where
  "not_older a b \<longleftrightarrow> (case a of None \<Rightarrow> True | Some s \<Rightarrow> (case b of None \<Rightarrow> False | Some t \<Rightarrow> s \<le> t))"

lemma not_older_refl [simp]: "not_older a a"
  by (cases a) (simp_all add: not_older_def)

lemma not_older_trans: "not_older a b \<Longrightarrow> not_older b c \<Longrightarrow> not_older a c"
  by (auto simp: not_older_def split: option.splits)

lemma transcode_not_older: "not_older (variant_time w t q) (variant_time (snd (transcode e b j w)) t q)"
proof (cases "variants (ext (snd (transcode e b j w))) = variants (ext w)")
  case True
  then show ?thesis by (simp add: variant_time_def)
next
  case changed: False
  obtain track k where j: "jb_track j = Some track" "jb_key j = Some k" "jb_bucket j \<noteq> ''''" "jb_sha j \<noteq> ''''"
    using changed by (auto simp: transcode_def fail_def split: option.splits if_splits)
  obtain r w1 where ex: "existing_variants track Qualities w = (r, w1)" by fastforce
  have w1: "ext w1 = ext w" using existing_ext [of track Qualities w] ex by simp
  obtain vs where r: "r = Inr vs" using changed j ex w1 by (cases r) (simp_all add: transcode_def bnd_def)
  obtain r2 w2 where ha: "already_handled b j track vs w1 = (r2, w2)" by fastforce
  have w2: "variants (ext w2) = variants (ext w)" using handled_ext [of b j track vs w1] ha w1 by simp
  have r2: "r2 = Inr None"
    using changed j ex r ha w2 by (cases r2) (auto simp: transcode_def bnd_def ret_def split: option.splits)
  have run: "snd (transcode e b j w) = snd (transcode_master e b j track k w2)"
    using j ex r ha r2 by (simp add: transcode_def bnd_def)
  have old: "\<forall>v \<in> set vs. pv_at (sv_prov v) \<le> jb_at j" using handled_None ha r2 by blast
  have own: "writes_own track (jb_at j) (ext w2) (ext (snd (transcode e b j w)))"
    using own_master unfolding run ext_rel_def by blast
  show ?thesis
  proof (cases "variants (ext (snd (transcode e b j w))) (AudioKey t q) = variants (ext w) (AudioKey t q)")
    case True
    then show ?thesis by (simp add: variant_time_def)
  next
    case False
    then obtain p n where new: "t = track" "q \<in> set Qualities" "variants (ext (snd (transcode e b j w))) (AudioKey t q) = Some (p, n)"
        "pv_at p = jb_at j"
      using own w2 unfolding writes_own_def by (metis object_key.inject(2))
    show ?thesis
    proof (cases "variants (ext w) (AudioKey t q)")
      case None
      then show ?thesis by (simp add: variant_time_def not_older_def)
    next
      case (Some pn)
      obtain p0 n0 where pn: "pn = (p0, n0)" by fastforce
      have "\<lparr>sv_prov = p0, sv_quality = q, sv_key = AudioKey track q, sv_size = n0\<rparr> \<in> set vs"
        using existing_Inr [OF ex [unfolded r]] new(1,2) Some pn by (force simp: List.map_filter_def)
      with old have "pv_at p0 \<le> jb_at j" by auto
      with Some pn new show ?thesis by (simp add: variant_time_def not_older_def)
    qed
  qed
qed

text \<open>C19: The variants of a track never go back to an older master: whatever jobs run in
  whatever order, redelivered or failing anywhere in between, a stored variant stays, and only
  a variant of the same or a later upload replaces it.\<close>

theorem variants_never_go_back:
  "not_older (variant_time w track q) (variant_time (fold (\<lambda>j w. snd (transcode e b j w)) js w) track q)"
proof (induction js arbitrary: w)
  case (Cons j js)
  then show ?case using not_older_trans [OF transcode_not_older Cons] by simp
qed simp

section \<open>What an announcement promises\<close>

lemma puts_Inr:
  "put_variants track files p qs w = (Inr vs, w1) \<Longrightarrow>
     vs = map (\<lambda>q. \<lparr>sv_prov = p, sv_quality = q, sv_key = AudioKey track q, sv_size = int (length (files q))\<rparr>) qs \<and>
     (\<forall>k. variants (ext w1) k = (if \<exists>q \<in> set qs. k = AudioKey track q
        then (case k of AudioKey _ q \<Rightarrow> Some (p, int (length (files q))) | _ \<Rightarrow> None) else variants (ext w) k))"
proof (induction qs arbitrary: w vs)
  case (Cons q qs)
  then obtain v w2 us where run: "put_variant track q (files q) p w = (Inr v, w2)" "put_variants track files p qs w2 = (Inr us, w1)" "vs = v # us"
    by (auto simp: act_inv)
  have v: "v = \<lparr>sv_prov = p, sv_quality = q, sv_key = AudioKey track q, sv_size = int (length (files q))\<rparr>"
    "variants (ext w2) = (variants (ext w))(AudioKey track q \<mapsto> (p, int (length (files q))))"
    using run(1) by (auto simp: put_variant_def act_inv)
  from Cons.IH [OF run(2)] v run(3) show ?case by auto
qed (simp add: act_inv)

lemma announce_Inr:
  assumes "announce_transcoded b j track d vs w = (Inr u, w1)"
  shows "variants (ext w1) = variants (ext w) \<and> (\<exists>m now. media_log (ext w1) = media_log (ext w) @ [m] \<and>
    env_payload (msg_value m) = transcoded_event b j track d vs now \<and> env_type (msg_value m) = ''track.transcoded'')"
  using assms by (auto simp: announce_transcoded_def media_publish_def act_inv Let_def)

text \<open>The variants of a track as an announcement lists them.\<close>

definition listed_variants :: "transcode_world \<Rightarrow> uuid \<Rightarrow> (int \<times> object_key \<times> string \<times> int) option list" where
  "listed_variants w track = map (\<lambda>q. map_option (\<lambda>(p, n). (q, AudioKey track q, AudioContentType, n))
     (variants (ext w) (AudioKey track q))) Qualities"

definition made_from :: "transcode_world \<Rightarrow> uuid \<Rightarrow> string \<Rightarrow> bool" where
  "made_from w track sha \<longleftrightarrow> list_all (\<lambda>q. case variants (ext w) (AudioKey track q) of None \<Rightarrow> False
     | Some (p, n) \<Rightarrow> pv_sha p = sha) Qualities"

lemma produce_announces:
  assumes "produce_variants e b j track c d w = (Inr o1, w1)"
  shows "\<exists>m now vs. media_log (ext w1) = media_log (ext w) @ [m] \<and> env_payload (msg_value m) = transcoded_event b j track d vs now \<and>
    made_from w1 track (jb_sha j) \<and> listed_variants w1 track = map (\<lambda>v. Some (sv_quality v, sv_key v, AudioContentType, sv_size v)) vs"
proof -
  let ?p = "\<lparr>pv_upload = jb_upload j, pv_sha = jb_sha j, pv_at = jb_at j, pv_duration = d\<rparr>"
  obtain files w2 vs w3 where run: "encode_master e c w = (Inr files, w2)" "put_variants track files ?p Qualities w2 = (Inr vs, w3)"
      "announce_transcoded b j track d vs w3 = (Inr (), w1)"
    using assms by (auto simp: produce_variants_def act_inv)
  have log: "media_log (ext w3) = media_log (ext w)"
  proof -
    let ?R = "\<lambda>x x1. media_log x = media_log x1"
    have r: "reflp ?R" "transp ?R" by (auto simp: reflp_def transp_def)
    have "ext_rel ?R (put_variants track files ?p qs)" for qs
      by (induction qs) (auto simp: put_variant_def intro!: ext_rel_bnd [OF r(2)] ext_rel_simple [OF r(1)] ext_rel_call [OF r(1)])
    then have "media_log (ext w3) = media_log (ext w2)" using run(2) unfolding ext_rel_def by (metis snd_conv)
    moreover have "ext w2 = ext w" using run(1) by (auto simp: encode_master_def act_inv)
    ultimately show ?thesis by simp
  qed
  note p = puts_Inr [OF run(2)]
  from announce_Inr [OF run(3)] obtain m now where m: "variants (ext w1) = variants (ext w3)" "media_log (ext w1) = media_log (ext w3) @ [m]"
    "env_payload (msg_value m) = transcoded_event b j track d vs now" by blast
  have var: "variants (ext w1) (AudioKey track q) = Some (?p, int (length (files q)))" if "q \<in> set Qualities" for q
    using p that m(1) by auto
  then have "made_from w1 track (jb_sha j)" by (simp add: made_from_def list_all_iff)
  moreover have "listed_variants w1 track = map (\<lambda>v. Some (sv_quality v, sv_key v, AudioContentType, sv_size v)) vs"
    using var p by (simp add: listed_variants_def)
  ultimately show ?thesis using m(2,3) log by fastforce
qed

lemma map_filter_full: "length (List.map_filter f qs) = length qs \<Longrightarrow> map Some (List.map_filter f qs) = map f qs"
proof (induction qs)
  case (Cons q qs)
  have "length (List.map_filter f qs) \<le> length qs" by (simp add: List.map_filter_def)
  with Cons show ?case by (auto simp: map_filter_simps split: option.splits)
qed (simp add: map_filter_simps)

lemma some_map_eq: "map Some xs = map Some ys \<Longrightarrow> xs = ys"
  by simp

lemma duplicate_announces:
  assumes ex: "existing_variants track Qualities w = (Inr vs, w1)" and ha: "already_handled b j track vs w1 = (Inr (Some OutcomeDuplicate), w2)"
  shows "\<exists>m now. media_log (ext w2) = media_log (ext w) @ [m] \<and> env_payload (msg_value m) = transcoded_event b j track (pv_duration (sv_prov (hd vs))) vs now \<and>
    made_from w2 track (jb_sha j) \<and> listed_variants w2 track = map (\<lambda>v. Some (sv_quality v, sv_key v, AudioContentType, sv_size v)) vs"
proof -
  define f where "f = (\<lambda>q. map_option (\<lambda>(p, n). \<lparr>sv_prov = p, sv_quality = q, sv_key = AudioKey track q, sv_size = n\<rparr>)
       (variants (ext w) (AudioKey track q)))"
  have e: "ext w1 = ext w" "vs = List.map_filter f Qualities"
    using existing_Inr [OF ex] unfolding f_def by blast+
  have c: "length vs = length Qualities" "\<forall>v \<in> set vs. pv_sha (sv_prov v) = jb_sha j"
    and an: "announce_transcoded b j track (pv_duration (sv_prov (hd vs))) vs w1 = (Inr (), w2)"
    using ha by (auto simp: already_handled_def act_inv list_ex_iff split: if_splits)
  have vs: "map Some vs = map f Qualities"
    using map_filter_full [of f Qualities] c(1) e(2) by metis
  have all: "f q \<in> Some ` set vs" if "q \<in> set Qualities" for q
    using that arg_cong [OF vs, of set] unfolding list.set_map by blast
  from announce_Inr [OF an] obtain m now where m: "variants (ext w2) = variants (ext w1)" "media_log (ext w2) = media_log (ext w1) @ [m]"
    "env_payload (msg_value m) = transcoded_event b j track (pv_duration (sv_prov (hd vs))) vs now" by blast
  have "made_from w2 track (jb_sha j)"
    unfolding made_from_def list_all_iff
  proof
    fix q
    assume q: "q \<in> set Qualities"
    then obtain v where v: "f q = Some v" "v \<in> set vs" using all by blast
    then have "pv_sha (sv_prov v) = jb_sha j" using c(2) by blast
    with v(1) show "case variants (ext w2) (AudioKey track q) of None \<Rightarrow> False | Some (p, n) \<Rightarrow> pv_sha p = jb_sha j"
      using m(1) e(1) unfolding f_def by auto
  qed
  moreover have "listed_variants w2 track = map (map_option (\<lambda>v. (sv_quality v, sv_key v, AudioContentType, sv_size v))) (map f Qualities)"
    using m(1) e(1) by (simp add: listed_variants_def option.map_comp comp_def case_prod_unfold f_def)
  then have "listed_variants w2 track = map (\<lambda>v. Some (sv_quality v, sv_key v, AudioContentType, sv_size v)) vs"
    unfolding vs [symmetric] by (simp add: comp_def)
  ultimately show ?thesis using m(2,3) e(1) by auto
qed

lemma produced_by_master:
  assumes run: "transcode_master e b j track k w = (Inr outcome, w1)" and out: "outcome = OutcomeTranscoded \<or> outcome = OutcomeDuplicate"
  shows "\<exists>m d now vs. media_log (ext w1) = media_log (ext w) @ [m] \<and> env_payload (msg_value m) = transcoded_event b j track d vs now \<and>
    made_from w1 track (jb_sha j) \<and> listed_variants w1 track = map (\<lambda>v. Some (sv_quality v, sv_key v, AudioContentType, sv_size v)) vs"
proof -
  have nofail: "fail_job j track reason x = (Inr outcome, w1) \<Longrightarrow> False" for reason x
    using out by (auto simp: fail_job_def act_inv)
  obtain r w2 where r: "attempt (download_master e (jb_bucket j) k) w = (Inr r, w2)"
    and rest: "(case r of Inl f \<Rightarrow> if f = Domain SourceMissing then fail_job j track ''SOURCE_MISSING'' else raise f
       | Inr (master, digest) \<Rightarrow>
           if digest \<noteq> jb_sha j then fail_job j track ''SOURCE_CORRUPTED''
           else bnd (attempt (probe_master e master)) (\<lambda>r. case r of
               Inl f \<Rightarrow> if f = Domain Undecodable then fail_job j track ''UNDECODABLE'' else raise f
             | Inr duration \<Rightarrow> produce_variants e b j track master duration)) w2 = (Inr outcome, w1)"
    using run by (auto simp: transcode_master_def bnd_Inr)
  obtain c where c: "r = Inr (c, jb_sha j)"
    using rest nofail by (cases r) (auto simp: act_inv split: if_splits prod.splits)
  obtain r3 w3 where r3: "attempt (probe_master e c) w2 = (Inr r3, w3)" and rest3: "(case r3 of
               Inl f \<Rightarrow> if f = Domain Undecodable then fail_job j track ''UNDECODABLE'' else raise f
             | Inr duration \<Rightarrow> produce_variants e b j track c duration) w3 = (Inr outcome, w1)"
    using rest c by (auto simp: bnd_Inr)
  obtain d where d: "r3 = Inr d"
    using rest3 nofail by (cases r3) (auto simp: act_inv split: if_splits)
  have "ext w2 = ext w" using r c by (auto simp: download_master_def act_inv attempt_def split: prod.splits sum.splits option.splits)
  moreover have "ext w3 = ext w2" using r3 d by (auto simp: probe_master_def act_inv attempt_def split: prod.splits sum.splits option.splits)
  ultimately show ?thesis using produce_announces [of e b j track c d w3 outcome w1] rest3 d by auto
qed

text \<open>\<open>track.transcoded\<close> is announced only for a track whose variants are all there: when a
  job reports success, new or repeated, the last message on the topic lists exactly the three
  variants in the store, lowest quality first, with their sizes, and each of them was made from
  the master whose digest the job declared.\<close>

theorem announced_tracks_are_complete:
  assumes "transcode e bucket j w = (Inr outcome, w1)" "outcome = OutcomeTranscoded \<or> outcome = OutcomeDuplicate"
  shows "case env_payload (msg_value (last (media_log (ext w1)))) of
      TranscodeFailed u t r at \<Rightarrow> False
    | TrackTranscoded ev \<Rightarrow> jb_track j = Some (tt_track ev) \<and> tt_sha ev = jb_sha j \<and>
        map Some (tt_variants ev) = listed_variants w1 (tt_track ev) \<and> map fst (tt_variants ev) = Qualities \<and>
        made_from w1 (tt_track ev) (jb_sha j)"
proof -
  obtain track k where j: "jb_track j = Some track" "jb_key j = Some k"
    using assms(1) by (auto simp: transcode_def fail_def split: option.splits)
  have ne: "jb_bucket j \<noteq> ''''" "jb_sha j \<noteq> ''''"
    using assms(1) j by (auto simp: transcode_def fail_def split: if_splits)
  obtain vs w2 r w3 where ex: "existing_variants track Qualities w = (Inr vs, w2)" and ha: "already_handled bucket j track vs w2 = (Inr r, w3)"
    and rest: "(case r of Some out \<Rightarrow> ret out | None \<Rightarrow> transcode_master e bucket j track k) w3 = (Inr outcome, w1)"
    using assms(1) j ne by (auto simp: transcode_def act_inv)
  note e = conjunct1 [OF existing_Inr [OF ex]]
  have "\<exists>m d now vs. media_log (ext w1) = media_log (ext w) @ [m] \<and> env_payload (msg_value m) = transcoded_event bucket j track d vs now \<and>
    made_from w1 track (jb_sha j) \<and> listed_variants w1 track = map (\<lambda>v. Some (sv_quality v, sv_key v, AudioContentType, sv_size v)) vs"
  proof (cases r)
    case None
    have "ext w3 = ext w2" using ha None by (auto simp: already_handled_def act_inv split: if_splits)
    with produced_by_master [of e bucket j track k w3 outcome w1] rest None assms(2) e show ?thesis by auto
  next
    case (Some out)
    then have "out = outcome" "w3 = w1" using rest by (auto simp: act_inv)
    moreover have "out = OutcomeStale \<or> out = OutcomeDuplicate"
      using ha Some by (auto simp: already_handled_def act_inv split: if_splits)
    ultimately have "already_handled bucket j track vs w2 = (Inr (Some OutcomeDuplicate), w1)"
      using ha Some assms(2) by auto
    from duplicate_announces [OF ex this] show ?thesis by blast
  qed
  then obtain m d now vs where m: "media_log (ext w1) = media_log (ext w) @ [m]" "env_payload (msg_value m) = transcoded_event bucket j track d vs now"
    "made_from w1 track (jb_sha j)" "listed_variants w1 track = map (\<lambda>v. Some (sv_quality v, sv_key v, AudioContentType, sv_size v)) vs"
    by blast
  have "map (map_option fst) (listed_variants w1 track) = map Some Qualities"
    using m(3) by (auto simp: listed_variants_def made_from_def list_all_iff split: option.splits)
  then have "map Some (map sv_quality vs) = map Some Qualities"
    by (simp add: m(4) comp_def)
  then have "map sv_quality vs = Qualities" by (rule some_map_eq)
  with m j show ?thesis by (simp add: transcoded_event_def comp_def)
qed

section \<open>A repeated job\<close>

definition sample_encoder :: encoder where
  "sample_encoder = \<lparr>probe = (\<lambda>c. if c = '''' then None else Some 1000), encode = (\<lambda>c q. c @ c), sha256_hex = (\<lambda>c. c)\<rparr>"

definition sample_job :: job where
  "sample_job = \<lparr>jb_upload = Some 5, jb_track = Some 1, jb_bucket = ''m'', jb_key = Some (OriginalKey 1 5 ''mp3''),
     jb_sha = ''ID3'', jb_at = 1000\<rparr>"

definition sample_bench :: transcode_world where
  "sample_bench = \<lparr>tick = 0, fates = (\<lambda>_. Fine), clock = (\<lambda>n. 5000 + int n), fresh = (\<lambda>n. Some (of_nat n + 7)), db = (), outbox = [],
     next_row = 1, ext = \<lparr>masters = (\<lambda>_ _. Some ''ID3''), variants = (\<lambda>_. None), media_log = []\<rparr>\<rparr>"

definition sample_again :: "(string + string) \<times> transcode_world" where
  "sample_again = (case transcode sample_encoder ''m'' sample_job (snd (transcode sample_encoder ''m'' sample_job sample_bench)) of
     (r, w) \<Rightarrow> (case r of Inl f \<Rightarrow> Inl ''failed'' | Inr out \<Rightarrow> Inr out, w))"

theorem announced_tracks_are_complete_witness:
  "case env_payload (msg_value (last (media_log (ext (snd sample_again))))) of
      TranscodeFailed u t r at \<Rightarrow> False
    | TrackTranscoded ev \<Rightarrow> tt_track ev = 1 \<and> map fst (tt_variants ev) = Qualities \<and> made_from (snd sample_again) 1 ''ID3''"
proof -
  let ?w = "snd (transcode sample_encoder ''m'' sample_job sample_bench)"
  let ?run = "transcode sample_encoder ''m'' sample_job ?w"
  have "fst ?run = Inr OutcomeDuplicate" by code_simp
  then have run: "?run = (Inr OutcomeDuplicate, snd ?run)" by (metis prod.collapse)
  have w: "snd sample_again = snd ?run" by (simp add: sample_again_def case_prod_unfold)
  from announced_tracks_are_complete [OF run] show ?thesis
    unfolding w by (auto simp: sample_job_def split: transcode_payload.splits)
qed

end
