(* ===== verification/Cache.thy ===== *)
theory Cache
  imports World
begin

text \<open>
  The JSON cache of \<^verbatim>\<open>libs/platform/redis/cache.go\<close>: entries of one namespace with an expiry.
  A cache is a component of the state outside (\<open>sel\<close> reads it, \<open>upd\<close> changes it); Redis reads
  its own clock, here the reading before the call. An entry that does not decode is \<open>None\<close>.
  Metrics and log lines are left out.
\<close>

type_synonym 'v entries = "string \<Rightarrow> ('v option \<times> time) option"

definition live_entry :: "time \<Rightarrow> string \<Rightarrow> 'v entries \<Rightarrow> 'v option option" where
  "live_entry now i c = (case c i of None \<Rightarrow> None | Some (v, until) \<Rightarrow> if now < until then Some v else None)"

definition cache_get :: "('x \<Rightarrow> 'v entries) \<Rightarrow> string \<Rightarrow> ('d, 'x, 'p, 'e, 'v option) act" where
  "cache_get sel i = bnd now_utc (\<lambda>now. call (\<lambda>x. case live_entry now i (sel x) of
     None \<Rightarrow> Inr (None, x) | Some None \<Rightarrow> Inl Infra | Some (Some v) \<Rightarrow> Inr (Some v, x)))"

definition cache_set :: "(('v entries \<Rightarrow> 'v entries) \<Rightarrow> 'x \<Rightarrow> 'x) \<Rightarrow> duration \<Rightarrow> string \<Rightarrow> 'v \<Rightarrow> ('d, 'x, 'p, 'e, unit) act" where
  "cache_set upd ttl i v = bnd now_utc (\<lambda>now. call (\<lambda>x. Inr ((), upd (\<lambda>c. c(i \<mapsto> (Some v, now + ttl))) x)))"

definition cache_delete :: "(('v entries \<Rightarrow> 'v entries) \<Rightarrow> 'x \<Rightarrow> 'x) \<Rightarrow> string \<Rightarrow> ('d, 'x, 'p, 'e, unit) act" where
  "cache_delete upd i = call (\<lambda>x. Inr ((), upd (\<lambda>c. c(i := None)) x))"

text \<open>\<open>GetOrLoad\<close>: a failing cache never fails the call.\<close>

definition get_or_load :: "('x \<Rightarrow> 'v entries) \<Rightarrow> (('v entries \<Rightarrow> 'v entries) \<Rightarrow> 'x \<Rightarrow> 'x) \<Rightarrow> duration \<Rightarrow> string \<Rightarrow>
    ('d, 'x, 'p, 'e, 'v) act \<Rightarrow> ('d, 'x, 'p, 'e, 'v) act" where
  "get_or_load sel upd ttl i load = bnd (attempt (cache_get sel i)) (\<lambda>r. case r of
     Inr (Some v) \<Rightarrow> ret v
   | _ \<Rightarrow> bnd load (\<lambda>v. bnd (attempt (cache_set upd ttl i v)) (\<lambda>_. ret v)))"

section \<open>Invariants over time\<close>

text \<open>
  \<open>holds_on I m\<close>: with a clock that does not go back, \<open>m\<close> keeps what \<open>I\<close> says of the time and
  the state outside, and \<open>I\<close> itself is kept as time passes.
\<close>

definition over_time :: "(time \<Rightarrow> 'x \<Rightarrow> bool) \<Rightarrow> bool" where
  "over_time I \<longleftrightarrow> (\<forall>t t1 x. t \<le> t1 \<longrightarrow> I t x \<longrightarrow> I t1 x)"

definition holds_on :: "(time \<Rightarrow> 'x \<Rightarrow> bool) \<Rightarrow> ('d, 'x, 'p, 'e, 'a) act \<Rightarrow> bool" where
  "holds_on I m \<longleftrightarrow> (\<forall>w. mono (clock w) \<longrightarrow> I (clock w (tick w)) (ext w) \<longrightarrow>
     (let w1 = snd (m w) in clock w1 = clock w \<and> tick w \<le> tick w1 \<and> I (clock w (tick w1)) (ext w1)))"

lemma holds_onD:
  assumes "holds_on I m" "m w = (r, w1)" "mono (clock w)" "I (clock w (tick w)) (ext w)"
  shows "clock w1 = clock w" "tick w \<le> tick w1" "I (clock w (tick w1)) (ext w1)"
  using assms unfolding holds_on_def Let_def by (metis snd_conv)+

named_theorems over \<open>actions that keep an invariant over time\<close>

lemma over_ret [over]: "holds_on I (ret x)" "holds_on I (fail e)" "holds_on I (raise f)"
  by (auto simp: holds_on_def ret_def fail_def raise_def)

lemma advance_time: "mono (clock w) \<Longrightarrow> clock w (tick w) \<le> clock w (Suc (tick w))"
  by (simp add: monoD)

lemma over_now [over]:
  assumes I: "over_time I"
  shows "holds_on I (now_utc :: ('d, 'x, 'p, 'e, time) act)" "holds_on I (new_uuid :: ('d, 'x, 'p, 'e, uuid) act)"
proof -
  have "I (clock w (tick w)) x \<Longrightarrow> mono (clock w) \<Longrightarrow> I (clock w (Suc (tick w))) x" for w :: "('d, 'x, 'p) world" and x
    using I advance_time unfolding over_time_def by blast
  then show "holds_on I (now_utc :: ('d, 'x, 'p, 'e, time) act)" "holds_on I (new_uuid :: ('d, 'x, 'p, 'e, uuid) act)"
    by (auto simp: holds_on_def now_utc_def new_uuid_def Let_def)
qed

lemma over_attempt [over]: "holds_on I m \<Longrightarrow> holds_on I (attempt m)"
  by (auto simp: holds_on_def attempt_def Let_def split: prod.splits)

lemma over_bnd_result:
  fixes m :: "('d, 'x, 'p, 'e, 'a) act"
  assumes m: "holds_on I m" and f: "\<And>w x w1. I (clock w (tick w)) (ext w) \<Longrightarrow> m w = (Inr x, w1) \<Longrightarrow> holds_on I (f x)"
  shows "holds_on I (bnd m f)"
  unfolding holds_on_def [of I "bnd m f"]
proof (intro allI impI)
  fix w :: "('d, 'x, 'p) world"
  assume mono: "mono (clock w)" and inv: "I (clock w (tick w)) (ext w)"
  obtain r w1 where run: "m w = (r, w1)" by fastforce
  note a = holds_onD [OF m run mono inv]
  show "let w2 = snd (bnd m f w) in clock w2 = clock w \<and> tick w \<le> tick w2 \<and> I (clock w (tick w2)) (ext w2)"
  proof (cases r)
    case (Inr x)
    have fx: "holds_on I (f x)" using f [OF inv] run Inr by blast
    obtain s w2 where run2: "f x w1 = (s, w2)" by fastforce
    have "mono (clock w1)" "I (clock w1 (tick w1)) (ext w1)" using a mono by simp_all
    note b = holds_onD [OF fx run2 this]
    with a run Inr run2 show ?thesis by (simp add: bnd_def)
  qed (use a run in \<open>simp add: bnd_def\<close>)
qed

lemma over_bnd [over]: "holds_on I m \<Longrightarrow> (\<And>x. holds_on I (f x)) \<Longrightarrow> holds_on I (bnd m f)"
  by (rule over_bnd_result)

lemma over_call:
  fixes f :: "'x \<Rightarrow> 'e failure + 'a \<times> 'x"
  assumes I: "over_time I" and step: "\<And>t x y x1. I t x \<Longrightarrow> f x = Inr (y, x1) \<Longrightarrow> I t x1"
  shows "holds_on I (call f :: ('d, 'x, 'p, 'e, 'a) act)"
  unfolding holds_on_def
proof (intro allI impI)
  fix w :: "('d, 'x, 'p) world"
  assume mono: "mono (clock w)" and inv: "I (clock w (tick w)) (ext w)"
  then have inv1: "I (clock w (Suc (tick w))) (ext w)" using I advance_time unfolding over_time_def by blast
  have "I (clock w (Suc (tick w))) x1" if "f (ext w) = Inr (y, x1)" for y x1
    by (rule step [OF inv1 that])
  then show "let w1 = snd (call f w) in clock w1 = clock w \<and> tick w \<le> tick w1 \<and> I (clock w (tick w1)) (ext w1)"
    using inv1 by (auto simp: call_def Let_def split: fate.splits sum.splits)
qed

text \<open>A call that follows a reading of the clock is served at that time or later.\<close>

lemma over_timed_call:
  fixes f :: "time \<Rightarrow> 'x \<Rightarrow> 'e failure + 'a \<times> 'x"
  assumes I: "over_time I" and step: "\<And>t t1 x y x1. t \<le> t1 \<Longrightarrow> I t1 x \<Longrightarrow> f t x = Inr (y, x1) \<Longrightarrow> I t1 x1"
  shows "holds_on I (bnd now_utc (\<lambda>now. call (f now)) :: ('d, 'x, 'p, 'e, 'a) act)"
  unfolding holds_on_def
proof (intro allI impI)
  fix w :: "('d, 'x, 'p) world"
  assume mono: "mono (clock w)" and inv: "I (clock w (tick w)) (ext w)"
  have up: "clock w (tick w) \<le> clock w (Suc (Suc (tick w)))" using mono by (simp add: monoD)
  then have inv2: "I (clock w (Suc (Suc (tick w)))) (ext w)" using I inv unfolding over_time_def by blast
  have "I (clock w (Suc (Suc (tick w)))) x1" if "f (clock w (tick w)) (ext w) = Inr (y, x1)" for y x1
    by (rule step [OF up inv2 that])
  then show "let w1 = snd (bnd now_utc (\<lambda>now. call (f now)) w) in clock w1 = clock w \<and> tick w \<le> tick w1 \<and> I (clock w (tick w1)) (ext w1)"
    using inv2 by (auto simp: bnd_def now_utc_def call_def Let_def split: fate.splits sum.splits)
qed

section \<open>A cache in the state outside\<close>

text \<open>
  What a cache relies on: its component of the state, a property \<open>J\<close> of the source that the
  cache does not touch, and a property \<open>Q\<close> that a value may have until a time. The invariant
  says that \<open>J\<close> holds, that every entry has the property, and that none outlives its TTL.
\<close>

locale cached =
  fixes sel :: "'x \<Rightarrow> 'v entries" and upd :: "('v entries \<Rightarrow> 'v entries) \<Rightarrow> 'x \<Rightarrow> 'x" and ttl :: duration
    and J :: "'x \<Rightarrow> bool" and Q :: "time \<Rightarrow> string \<Rightarrow> 'v \<Rightarrow> bool"
  assumes sel_upd: "sel (upd f x) = f (sel x)" and J_upd: "J (upd f x) = J x"
begin

definition entries_ok :: "time \<Rightarrow> 'x \<Rightarrow> bool" where
  "entries_ok t x \<longleftrightarrow> J x \<and> (\<forall>i v until. sel x i = Some (v, until) \<longrightarrow>
     until \<le> t + ttl \<and> (case v of None \<Rightarrow> True | Some v \<Rightarrow> Q until i v))"

lemma entries_over_time: "over_time entries_ok"
  unfolding over_time_def entries_ok_def by fastforce

lemma over_get: "over_time I \<Longrightarrow> holds_on I (cache_get sel i)"
  unfolding cache_get_def by (rule over_timed_call) (auto split: option.splits)

lemma over_set: "(\<And>t. Q t i v) \<Longrightarrow> holds_on entries_ok (cache_set upd ttl i v)"
  unfolding cache_set_def
  by (rule over_timed_call [OF entries_over_time]) (auto simp: entries_ok_def sel_upd J_upd split: if_splits)

lemma over_delete: "holds_on entries_ok (cache_delete upd i)"
  unfolding cache_delete_def
  by (rule over_call [OF entries_over_time]) (auto simp: entries_ok_def sel_upd J_upd split: if_splits)

lemma over_get_or_load:
  fixes load :: "('d, 'x, 'p, 'e, 'v) act"
  assumes load: "holds_on entries_ok load"
    and ok: "\<And>w v w1 t. J (ext w) \<Longrightarrow> load w = (Inr v, w1) \<Longrightarrow> Q t i v"
  shows "holds_on entries_ok (get_or_load sel upd ttl i load)"
proof -
  have fill: "holds_on entries_ok (bnd load (\<lambda>v. bnd (attempt (cache_set upd ttl i v)) (\<lambda>_. ret v)))"
    by (rule over_bnd_result [OF load]) (auto simp: entries_ok_def intro!: over over_set ok)
  show ?thesis
    unfolding get_or_load_def
    by (auto intro!: over over_get entries_over_time fill split: sum.splits option.splits)
qed

text \<open>What a lookup returns: what the source gave in this call, or an entry that is alive.\<close>

lemma get_or_load_value:
  fixes load :: "('d, 'x, 'p, 'e, 'v) act"
  assumes run: "get_or_load sel upd ttl i load w = (Inr v, w1)"
    and inv: "mono (clock w)" "entries_ok (clock w (tick w)) (ext w)"
  shows "(\<exists>w2 w3. load w2 = (Inr v, w3) \<and> J (ext w2)) \<or> (\<exists>until. Q until i v \<and> clock w (tick w) < until)"
proof -
  obtain r :: "'e failure + 'v option" and w2 where get: "cache_get sel i w = (r, w2)"
    and rest: "(case r of Inr (Some v) \<Rightarrow> ret v
       | _ \<Rightarrow> bnd load (\<lambda>v. bnd (attempt (cache_set upd ttl i v)) (\<lambda>_. ret v))) w2 = (Inr v, w1)"
    using run by (auto simp: get_or_load_def act_inv)
  show ?thesis
  proof (cases "\<exists>u. r = Inr (Some u)")
    case True
    then have "r = Inr (Some v)" using rest by (auto simp: act_inv)
    then obtain until where "sel (ext w) i = Some (Some v, until)" "clock w (tick w) < until"
      using get by (auto simp: cache_get_def act_inv live_entry_def split: option.splits if_splits)
    then show ?thesis using inv(2) unfolding entries_ok_def by fastforce
  next
    case False
    have "J (ext w2)"
      using holds_onD(3) [OF over_get [OF entries_over_time] get inv] by (simp add: entries_ok_def)
    moreover have "bnd load (\<lambda>v. bnd (attempt (cache_set upd ttl i v)) (\<lambda>_. ret v)) w2 = (Inr v, w1)"
      using rest False by (auto split: sum.splits option.splits)
    ultimately show ?thesis by (auto simp: act_inv)
  qed
qed

end

end
