(* ===== verification/Stream.thy ===== *)
theory Stream
  imports Transcode Cache
begin

text \<open>
  Stream Authorization (\<^verbatim>\<open>services/stream-auth\<close>): whether a track may be played, in which
  quality, and the presigned URL for it; behind a short cache of track statuses and a cache of
  complete variant sets. Track identifiers are the texts of the request, as in the code.
  Every decision is audited; log lines are left out.
\<close>

section \<open>Decisions\<close>

datatype stream_error = TrackNotFound | TrackNotReady | TrackBlocked | NoVariant | InvalidRequest

abbreviation StatusReady :: string where "StatusReady \<equiv> ''READY''"
abbreviation StatusBlocked :: string where "StatusBlocked \<equiv> ''BLOCKED''"
abbreviation StatusDeleted :: string where "StatusDeleted \<equiv> ''DELETED''"

abbreviation DefaultQuality :: int where "DefaultQuality \<equiv> 256"

definition check_playable :: "string \<Rightarrow> stream_error option" where
  "check_playable status =
     (if status = StatusReady then None
      else if status = StatusBlocked then Some TrackBlocked
      else if status = StatusDeleted then Some TrackNotFound
      else Some TrackNotReady)"

fun best_upto :: "int \<Rightarrow> int \<Rightarrow> int list \<Rightarrow> int" where
  "best_upto requested best [] = best"
| "best_upto requested best (q # qs) = best_upto requested (if q \<le> requested then q else best) qs"

definition choose_variant :: "int \<Rightarrow> int list \<Rightarrow> stream_error + int" where
  "choose_variant requested available =
     (if available = [] then Inl NoVariant
      else let sorted = sort available; best = best_upto requested 0 sorted in
        if best \<noteq> 0 then Inr best else Inr (hd sorted))"

record grant =
  gr_track :: string
  gr_quality :: int
  gr_url :: "string \<times> int \<times> int"
  gr_expires :: time

record stream_request =
  sr_user :: string
  sr_session :: string
  sr_track :: string
  sr_quality :: int

record decision =
  de_user :: string
  de_session :: string
  de_track :: string
  de_requested :: int
  de_granted :: int
  de_err :: "stream_error failure option"

section \<open>What is outside\<close>

text \<open>
  The statuses the Catalog answers, the bodies of the variants in the bucket, the two caches,
  and the lines the audit log was given: result, reason and the decision.
\<close>

record stream_ext =
  states :: "string \<Rightarrow> string option"
  bodies :: "string \<Rightarrow> int \<Rightarrow> string option"
  status_cache :: "string entries"
  variant_cache :: "int list entries"
  audited :: "(string \<times> string \<times> decision) list"

record stream_config =
  url_life :: duration
  status_ttl :: duration

abbreviation variants_ttl :: duration where "variants_ttl \<equiv> 3600 * second"

type_synonym 'a stream_act = "(unit, stream_ext, unit, stream_error, 'a) act"
type_synonym stream_world = "(unit, stream_ext, unit) world"

definition catalog_status :: "string \<Rightarrow> string stream_act" where
  "catalog_status i = call (\<lambda>x. case states x i of None \<Rightarrow> Inl (Domain TrackNotFound) | Some s \<Rightarrow> Inr (s, x))"

definition cached_status :: "stream_config \<Rightarrow> string \<Rightarrow> string stream_act" where
  "cached_status c i = get_or_load status_cache status_cache_update (status_ttl c) i (catalog_status i)"

definition has_variant :: "string \<Rightarrow> int \<Rightarrow> bool stream_act" where
  "has_variant i q = call (\<lambda>x. Inr (\<not> Option.is_none (bodies x i q), x))"

fun available_of :: "string \<Rightarrow> int list \<Rightarrow> int list stream_act" where
  "available_of i [] = ret []"
| "available_of i (q # qs) = bnd (has_variant i q) (\<lambda>b. bnd (available_of i qs) (\<lambda>vs. ret (if b then q # vs else vs)))"

definition available :: "string \<Rightarrow> int list stream_act" where
  "available i = available_of i Qualities"

definition cached_available :: "string \<Rightarrow> int list stream_act" where
  "cached_available i = bnd (attempt (cache_get variant_cache i)) (\<lambda>r. case r of
     Inr (Some v) \<Rightarrow> ret v
   | _ \<Rightarrow> bnd (available i) (\<lambda>v.
       if length v < length Qualities then ret v
       else bnd (attempt (cache_set variant_cache_update variants_ttl i v)) (\<lambda>_. ret v)))"

text \<open>A presigned URL names the object and how long the browser may keep it, in seconds.\<close>

definition sign :: "string \<Rightarrow> int \<Rightarrow> duration \<Rightarrow> ((string \<times> int \<times> int) \<times> time) stream_act" where
  "sign i q ttl = bnd now_utc (\<lambda>now. call (\<lambda>x. Inr (((i, q, ttl div second), now + ttl), x)))"

section \<open>The use case\<close>

definition choose_track :: "stream_config \<Rightarrow> string \<Rightarrow> int \<Rightarrow> int stream_act" where
  "choose_track c i requested = bnd (cached_status c i) (\<lambda>status. case check_playable status of
     Some e \<Rightarrow> fail e
   | None \<Rightarrow> bnd (cached_available i) (\<lambda>vs. case choose_variant requested vs of Inl e \<Rightarrow> fail e | Inr q \<Rightarrow> ret q))"

definition authorize_track :: "stream_config \<Rightarrow> string \<Rightarrow> int \<Rightarrow> grant stream_act" where
  "authorize_track c i requested = bnd (choose_track c i requested) (\<lambda>q. bnd (sign i q (url_life c)) (\<lambda>(url, ends).
     ret \<lparr>gr_track = i, gr_quality = q, gr_url = url, gr_expires = ends\<rparr>))"

fun reason_of :: "stream_error failure option \<Rightarrow> string" where
  "reason_of None = ''ok''"
| "reason_of (Some (Domain TrackNotFound)) = ''track_not_found''"
| "reason_of (Some (Domain TrackBlocked)) = ''track_blocked''"
| "reason_of (Some (Domain TrackNotReady)) = ''track_not_ready''"
| "reason_of (Some (Domain NoVariant)) = ''no_variant''"
| "reason_of (Some _) = ''dependency_failure''"

fun denied :: "stream_error failure \<Rightarrow> bool" where
  "denied (Domain e) \<longleftrightarrow> e \<in> {TrackNotFound, TrackNotReady, TrackBlocked, NoVariant, InvalidRequest}"
| "denied Infra \<longleftrightarrow> False"

definition audit_record :: "decision \<Rightarrow> stream_ext \<Rightarrow> stream_ext" where
  "audit_record d x = x\<lparr>audited := audited x @ [(case de_err d of None \<Rightarrow> ''granted''
     | Some e \<Rightarrow> if denied e then ''denied'' else ''error'', reason_of (de_err d), d)]\<rparr>"

definition wanted_quality :: "stream_request \<Rightarrow> int" where
  "wanted_quality r = (if sr_quality r = 0 then DefaultQuality else sr_quality r)"

text \<open>\<open>Authorize\<close> and \<open>Choose\<close> record the decision, whatever it is.\<close>

definition recorded :: "stream_request \<Rightarrow> ('a \<Rightarrow> int) \<Rightarrow> 'a stream_act \<Rightarrow> 'a stream_act" where
  "recorded r granted m w = (case m w of (res, w1) \<Rightarrow>
     let d = \<lparr>de_user = sr_user r, de_session = sr_session r, de_track = sr_track r, de_requested = wanted_quality r,
       de_granted = (case res of Inl _ \<Rightarrow> 0 | Inr g \<Rightarrow> granted g), de_err = (case res of Inl e \<Rightarrow> Some e | Inr _ \<Rightarrow> None)\<rparr> in
     (res, w1\<lparr>ext := audit_record d (ext w1)\<rparr>))"

definition authorize :: "stream_config \<Rightarrow> stream_request \<Rightarrow> grant stream_act" where
  "authorize c r = recorded r gr_quality (authorize_track c (sr_track r) (wanted_quality r))"

definition choose_quality :: "stream_config \<Rightarrow> stream_request \<Rightarrow> int stream_act" where
  "choose_quality c r = recorded r id (choose_track c (sr_track r) (wanted_quality r))"

text \<open>\<open>Media.Stream\<close>: the bytes that were copied, and the failure, if any; \<open>sent\<close> bytes arrive
  before a copy that breaks.\<close>

definition stream_body :: "nat \<Rightarrow> string \<Rightarrow> int \<Rightarrow> (string \<times> stream_error failure option) stream_act" where
  "stream_body sent i q w = (case bodies (ext w) i q of
     None \<Rightarrow> (case call (\<lambda>x. Inl (Domain NoVariant)) w of
         (Inl e, w1) \<Rightarrow> (Inr ('''', Some e), w1) | (Inr u, w1) \<Rightarrow> (Inr (u, None), w1))
   | Some b \<Rightarrow> (case call (\<lambda>x. Inr (b, x)) w of
         (Inl e, w1) \<Rightarrow> (Inr (take sent b, Some e), w1) | (Inr b, w1) \<Rightarrow> (Inr (b, None), w1)))"

section \<open>The handlers\<close>

fun stream_problem :: "stream_error failure \<Rightarrow> 'b response" where
  "stream_problem (Domain TrackNotFound) = Problem 404 ''TRACK_NOT_FOUND'' []"
| "stream_problem (Domain TrackBlocked) = Problem 403 ''TRACK_UNAVAILABLE'' []"
| "stream_problem (Domain TrackNotReady) = Problem 409 ''TRACK_NOT_READY'' []"
| "stream_problem (Domain NoVariant) = Problem 409 ''TRACK_NOT_READY'' []"
| "stream_problem _ = Problem 503 CodeUnavailable []"

text \<open>The fields both routes check; \<open>is_uuid\<close> is what \<open>uuid.Parse\<close> accepts.\<close>

definition stream_fields :: "(string \<Rightarrow> bool) \<Rightarrow> string \<Rightarrow> string \<Rightarrow> int \<times> fields" where
  "stream_fields is_uuid track quality =
     (let q = (if quality = '''' then Some 0 else parse_quality quality) in
      (case q of None \<Rightarrow> 0 | Some q \<Rightarrow> q,
       require (\<not> Option.is_none q) ''quality'' ''must be one of 64, 128, 256''
         (require (is_uuid track) ''trackId'' ''must be a track ID'' [])))"

definition post_authorize :: "(string \<Rightarrow> bool) \<Rightarrow> stream_config \<Rightarrow> (string \<times> string) option \<Rightarrow> (string \<times> string) option \<Rightarrow>
    stream_world \<Rightarrow> grant response \<times> stream_world" where
  "post_authorize is_uuid c who body w =
     (case who of
        None \<Rightarrow> (Problem 401 CodeUnauthenticated [], w)
      | Some (user, session) \<Rightarrow> (case body of
          None \<Rightarrow> (Problem 400 CodeBadRequest [], w)
        | Some (track, quality) \<Rightarrow> (case stream_fields is_uuid track quality of (q, fs) \<Rightarrow>
            if fs \<noteq> [] then (Problem 422 CodeValidation fs, w)
            else (case authorize c \<lparr>sr_user = user, sr_session = session, sr_track = track, sr_quality = q\<rparr> w of
                (Inl f, w1) \<Rightarrow> (stream_problem f, w1) | (Inr g, w1) \<Rightarrow> (Reply 200 g, w1)))))"

definition get_proxy :: "(string \<Rightarrow> bool) \<Rightarrow> stream_config \<Rightarrow> nat \<Rightarrow> (string \<times> string) option \<Rightarrow> string \<Rightarrow> string \<Rightarrow>
    stream_world \<Rightarrow> (int \<times> string) response \<times> stream_world" where
  "get_proxy is_uuid c sent who track quality w =
     (case who of
        None \<Rightarrow> (Problem 401 CodeUnauthenticated [], w)
      | Some (user, session) \<Rightarrow> (case stream_fields is_uuid track quality of (q, fs) \<Rightarrow>
            if fs \<noteq> [] then (Problem 422 CodeValidation fs, w)
            else (case choose_quality c \<lparr>sr_user = user, sr_session = session, sr_track = track, sr_quality = q\<rparr> w of
                (Inl f, w1) \<Rightarrow> (stream_problem f, w1)
              | (Inr q, w1) \<Rightarrow> (case stream_body sent track q w1 of
                    (Inr (b, Some e), w2) \<Rightarrow> (if b = '''' then stream_problem e else Reply 200 (q, b), w2)
                  | (Inr (b, None), w2) \<Rightarrow> (Reply 200 (q, b), w2)
                  | (Inl e, w2) \<Rightarrow> (stream_problem e, w2)))))"

section \<open>The choice of a variant\<close>

lemma best_upto_sorted:
  "sorted qs \<Longrightarrow> best_upto r b qs = (if \<exists>q \<in> set qs. q \<le> r then Max {q \<in> set qs. q \<le> r} else b)"
proof (induction qs arbitrary: b)
  case (Cons q qs)
  show ?case
  proof (cases "\<exists>p \<in> set qs. p \<le> r")
    case True
    then have "q \<le> r" using Cons.prems by fastforce
    moreover have "{p. (p = q \<or> p \<in> set qs) \<and> p \<le> r} = insert q {p \<in> set qs. p \<le> r}" using \<open>q \<le> r\<close> by auto
    moreover have "q \<le> Max {p \<in> set qs. p \<le> r}"
      using True Cons.prems by (subst Max_ge_iff) auto
    moreover have "Max (insert q {p \<in> set qs. p \<le> r}) = max q (Max {p \<in> set qs. p \<le> r})"
      using True by (intro Max_insert) auto
    ultimately show ?thesis using True Cons by (simp add: max_absorb2)
  next
    case False
    then have "{p. (p = q \<or> p \<in> set qs) \<and> p \<le> r} = (if q \<le> r then {q} else {})" by auto
    then show ?thesis using False Cons by auto
  qed
qed simp

definition best_choice :: "int \<Rightarrow> int set \<Rightarrow> int" where
  "best_choice r S = (if \<exists>q \<in> S. q \<le> r then Max {q \<in> S. q \<le> r} else Min S)"

lemma choose_variant_best:
  assumes "0 \<notin> set vs"
  shows "choose_variant r vs = (if vs = [] then Inl NoVariant else Inr (best_choice r (set vs)))"
proof (cases "vs = []")
  case False
  let ?S = "{q \<in> set vs. q \<le> r}"
  have hd: "hd (sort vs) = Min (set vs)"
  proof -
    obtain q qs where q: "sort vs = q # qs" using False by (metis neq_Nil_conv set_empty set_sort)
    have "sorted (q # qs)" unfolding q [symmetric] by simp
    then have "Min (set (q # qs)) = q" by (intro Min_eqI) auto
    then show ?thesis using q by (metis list.sel(1) set_sort)
  qed
  show ?thesis
  proof (cases "\<exists>q \<in> set vs. q \<le> r")
    case True
    then have "Max ?S \<in> ?S" by (intro Max_in) auto
    then have "Max ?S \<noteq> 0" using assms by auto
    then show ?thesis using True False by (simp add: choose_variant_def best_upto_sorted best_choice_def)
  qed (use False hd in \<open>auto simp: choose_variant_def best_upto_sorted best_choice_def\<close>)
qed (simp add: choose_variant_def)

section \<open>Requests over time\<close>

text \<open>
  Requests, and what changes outside between them: the status of a track, a variant that is
  stored. The world's clock may advance by any amount at every call.
\<close>

datatype stream_step = AskAuthorize stream_request | AskChoose stream_request
  | SetStatus string "string option" | PutBody string int string

fun stream_step_run :: "stream_config \<Rightarrow> stream_step \<Rightarrow> stream_world \<Rightarrow> stream_world" where
  "stream_step_run c (AskAuthorize r) w = snd (authorize c r w)"
| "stream_step_run c (AskChoose r) w = snd (choose_quality c r w)"
| "stream_step_run c (SetStatus i s) w = w\<lparr>ext := (ext w)\<lparr>states := (states (ext w))(i := s)\<rparr>\<rparr>"
| "stream_step_run c (PutBody i q b) w = w\<lparr>ext := (ext w)\<lparr>bodies := (bodies (ext w))(i := (bodies (ext w) i)(q \<mapsto> b))\<rparr>\<rparr>"

definition run_stream :: "stream_config \<Rightarrow> stream_step list \<Rightarrow> stream_world \<Rightarrow> stream_world" where
  "run_stream c ss w = fold (stream_step_run c) ss w"

definition stream_start :: "(string \<Rightarrow> string option) \<Rightarrow> (string \<Rightarrow> int \<Rightarrow> string option) \<Rightarrow> (nat \<Rightarrow> fate) \<Rightarrow> (nat \<Rightarrow> time) \<Rightarrow> (nat \<Rightarrow> uuid option) \<Rightarrow> stream_world" where
  "stream_start st bs f ck u = \<lparr>tick = 0, fates = f, clock = ck, fresh = u, db = (), outbox = [], next_row = 1,
     ext = \<lparr>states = st, bodies = bs, status_cache = (\<lambda>_. None), variant_cache = (\<lambda>_. None), audited = []\<rparr>\<rparr>"

text \<open>The status cache while track \<open>i\<close> is not ready: its entries that say otherwise end by \<open>T\<close>.\<close>

abbreviation unready :: "string \<Rightarrow> bool \<Rightarrow> stream_ext \<Rightarrow> bool" where
  "unready i b x \<equiv> (b \<longrightarrow> states x i \<noteq> Some StatusReady)"

abbreviation ends_by :: "string \<Rightarrow> bool \<Rightarrow> time \<Rightarrow> time \<Rightarrow> string \<Rightarrow> string \<Rightarrow> bool" where
  "ends_by i b T until j v \<equiv> (b \<longrightarrow> j = i \<longrightarrow> v = StatusReady \<longrightarrow> until \<le> T)"

interpretation statuses: cached status_cache status_cache_update ttl "unready i b" "ends_by i b T" for ttl b i T
  by unfold_locales simp_all

text \<open>The variant cache while the set of track \<open>i\<close> is complete (\<open>b\<close>) or not.\<close>

definition complete_set :: "stream_ext \<Rightarrow> string \<Rightarrow> bool" where
  "complete_set x i \<longleftrightarrow> list_all (\<lambda>q. bodies x i q \<noteq> None) Qualities"

abbreviation set_known :: "string \<Rightarrow> bool \<Rightarrow> time \<Rightarrow> string \<Rightarrow> int list \<Rightarrow> bool" where
  "set_known i b until j v \<equiv> (j = i \<longrightarrow> b \<and> v = Qualities)"

interpretation variant_sets: cached variant_cache variant_cache_update variants_ttl "\<lambda>x. complete_set x i = b" "set_known i b" for i b
  by unfold_locales (simp_all add: complete_set_def)

lemma available_Inr:
  "available_of i qs w = (Inr vs, w1) \<Longrightarrow> vs = filter (\<lambda>q. bodies (ext w) i q \<noteq> None) qs \<and> ext w1 = ext w"
proof (induction qs arbitrary: w vs)
  case (Cons q qs)
  then obtain v w2 us where run: "has_variant i q w = (Inr v, w2)" "available_of i qs w2 = (Inr us, w1)" "vs = (if v then q # us else us)"
    by (auto simp: act_inv)
  have "v = (bodies (ext w) i q \<noteq> None)" "ext w2 = ext w" using run(1) by (auto simp: has_variant_def act_inv Option.is_none_def)
  with Cons.IH [OF run(2)] run(3) show ?case by simp
qed (simp add: act_inv)

lemma over_available: "over_time I \<Longrightarrow> holds_on I (available_of i qs)"
  by (induction qs) (auto simp: has_variant_def intro!: over over_call)

lemma over_sign: "over_time I \<Longrightarrow> holds_on I (sign i q ttl)"
  unfolding sign_def by (rule over_timed_call) auto

lemma over_recorded:
  assumes "holds_on I m" "\<And>t d x. I t x \<Longrightarrow> I t (audit_record d x)"
  shows "holds_on I (recorded r g m)"
  using assms unfolding holds_on_def recorded_def Let_def
  by (auto split: prod.splits)

lemma over_choose:
  assumes "over_time I" "holds_on I (cached_status c i)" "holds_on I (cached_available i)"
  shows "holds_on I (choose_track c i q)"
  unfolding choose_track_def using assms by (auto intro!: over split: option.splits sum.splits)

lemma over_requests:
  assumes I: "over_time I" and s: "\<And>i. holds_on I (cached_status c i)" and v: "\<And>i. holds_on I (cached_available i)"
    and a: "\<And>t d x. I t x \<Longrightarrow> I t (audit_record d x)"
  shows "holds_on I (authorize c r)" "holds_on I (choose_quality c r)"
  unfolding authorize_def choose_quality_def authorize_track_def
  by (rule over_recorded, auto intro!: a over over_choose [OF I s v] over_sign [OF I])+

text \<open>Runs as actions: an invariant that every step keeps holds along a run.\<close>

definition step_act :: "stream_config \<Rightarrow> stream_step \<Rightarrow> unit stream_act" where
  "step_act c s w = (Inr (), stream_step_run c s w)"

lemma step_act_request:
  "holds_on I (authorize c r) \<Longrightarrow> holds_on I (step_act c (AskAuthorize r))"
  "holds_on I (choose_quality c r) \<Longrightarrow> holds_on I (step_act c (AskChoose r))"
  by (simp_all add: holds_on_def step_act_def)

lemma step_act_set:
  "(\<And>t x. I t x \<Longrightarrow> I t (x\<lparr>states := (states x)(i := s)\<rparr>)) \<Longrightarrow> holds_on I (step_act c (SetStatus i s))"
  "(\<And>t x. I t x \<Longrightarrow> I t (x\<lparr>bodies := (bodies x)(i := (bodies x i)(q \<mapsto> b))\<rparr>)) \<Longrightarrow> holds_on I (step_act c (PutBody i q b))"
  by (simp_all add: holds_on_def step_act_def)

lemma over_run:
  assumes "\<And>s. s \<in> set ss \<Longrightarrow> holds_on I (step_act c s)" "mono (clock w)" "I (clock w (tick w)) (ext w)"
  shows "clock (run_stream c ss w) = clock w \<and> tick w \<le> tick (run_stream c ss w) \<and>
    I (clock w (tick (run_stream c ss w))) (ext (run_stream c ss w))"
  using assms
proof (induction ss arbitrary: w)
  case (Cons s ss)
  have s: "holds_on I (step_act c s)" using Cons.prems(1) by simp
  have rest: "holds_on I (step_act c u)" if "u \<in> set ss" for u using Cons.prems(1) that by simp
  let ?w = "stream_step_run c s w"
  have run: "step_act c s w = (Inr (), ?w)" by (simp add: step_act_def)
  note a = holds_onD [OF s run Cons.prems(2,3)]
  have "mono (clock ?w)" "I (clock ?w (tick ?w)) (ext ?w)" using a Cons.prems(2) by simp_all
  from Cons.IH [OF rest this] a show ?case by (auto simp: run_stream_def)
qed (simp add: run_stream_def)
subsection \<open>A track that is not ready\<close>

lemma status_value:
  "catalog_status i w = (Inr v, w1) \<Longrightarrow> states (ext w) i = Some v"
  by (auto simp: catalog_status_def act_inv split: option.splits)

definition status_inv :: "duration \<Rightarrow> bool \<Rightarrow> string \<Rightarrow> time \<Rightarrow> time \<Rightarrow> stream_ext \<Rightarrow> bool" where
  "status_inv ttl b i T = statuses.entries_ok ttl b i T"

lemma status_inv_iff: "status_inv ttl b i T t x \<longleftrightarrow> (b \<longrightarrow> states x i \<noteq> Some StatusReady) \<and>
    (\<forall>j v until. status_cache x j = Some (v, until) \<longrightarrow> until \<le> t + ttl \<and>
       (case v of None \<Rightarrow> True | Some v \<Rightarrow> b \<longrightarrow> j = i \<longrightarrow> v = StatusReady \<longrightarrow> until \<le> T))"
  unfolding status_inv_def by (rule statuses.entries_ok_def)

lemma status_over_time: "over_time (status_inv ttl b i T)"
  unfolding status_inv_def by (rule statuses.entries_over_time)

lemma over_status: "holds_on (status_inv (status_ttl c) b i T) (cached_status c j)"
  unfolding cached_status_def status_inv_def
proof (rule statuses.over_get_or_load)
  show "holds_on (statuses.entries_ok (status_ttl c) b i T) (catalog_status j)"
    unfolding catalog_status_def by (rule over_call [OF statuses.entries_over_time]) (auto split: option.splits)
qed (auto dest: status_value)

lemma over_status_sets: "holds_on (status_inv ttl b i T) (cached_available j)"
proof -
  note o = status_over_time
  have get: "holds_on (status_inv ttl b i T) (cache_get variant_cache j)"
    unfolding cache_get_def by (rule over_timed_call [OF o]) (auto split: option.splits)
  have put: "holds_on (status_inv ttl b i T) (cache_set variant_cache_update life j v)" for life v
    unfolding cache_set_def by (rule over_timed_call [OF o]) (auto simp: status_inv_iff)
  show ?thesis
    unfolding cached_available_def available_def
    by (auto intro!: over get put over_available [OF o] split: sum.splits option.splits)
qed

lemma status_audit: "status_inv ttl b i T t x \<Longrightarrow> status_inv ttl b i T t (audit_record d x)"
  by (simp add: status_inv_iff audit_record_def)

lemmas over_status_requests = over_requests [OF status_over_time over_status over_status_sets status_audit]

text \<open>A step that makes the track ready.\<close>

fun makes_ready :: "string \<Rightarrow> stream_step \<Rightarrow> bool" where
  "makes_ready i (SetStatus j s) \<longleftrightarrow> j = i \<and> s = Some StatusReady"
| "makes_ready i s \<longleftrightarrow> False"

lemma status_step:
  "b \<longrightarrow> \<not> makes_ready i s \<Longrightarrow> holds_on (status_inv (status_ttl c) b i T) (step_act c s)"
  by (cases s) (auto intro!: step_act_request step_act_set over_status_requests simp: status_inv_iff)

lemma status_run:
  assumes "mono (clock w)" "status_inv (status_ttl c) b i T (clock w (tick w)) (ext w)" "b \<longrightarrow> \<not> list_ex (makes_ready i) ss"
  shows "clock (run_stream c ss w) = clock w \<and> tick w \<le> tick (run_stream c ss w) \<and>
    status_inv (status_ttl c) b i T (clock w (tick (run_stream c ss w))) (ext (run_stream c ss w))"
  by (rule over_run [where I = "status_inv (status_ttl c) b i T", OF _ assms(1,2)]) (use assms(3) status_step in \<open>auto simp: list_ex_iff\<close>)

lemma not_ready_refused:
  assumes "mono (clock w)" "status_inv (status_ttl c) True i T (clock w (tick w)) (ext w)" "T \<le> clock w (tick w)"
  shows "choose_track c i q w \<noteq> (Inr v, w1)"
proof
  assume "choose_track c i q w = (Inr v, w1)"
  then obtain status w2 where st: "cached_status c i w = (Inr status, w2)" "check_playable status = None"
    by (auto simp: choose_track_def act_inv split: option.splits)
  then have ready: "status = StatusReady" by (auto simp: check_playable_def split: if_splits)
  from statuses.get_or_load_value [OF st(1) [unfolded cached_status_def] assms(1,2) [unfolded status_inv_def]] ready assms(3) status_value
  show False by fastforce
qed

subsection \<open>The best quality there is\<close>

definition sets_inv :: "bool \<Rightarrow> string \<Rightarrow> time \<Rightarrow> stream_ext \<Rightarrow> bool" where
  "sets_inv b i = variant_sets.entries_ok i b"

lemma sets_inv_iff: "sets_inv b i t x \<longleftrightarrow> complete_set x i = b \<and>
    (\<forall>j v until. variant_cache x j = Some (v, until) \<longrightarrow> until \<le> t + variants_ttl \<and>
       (case v of None \<Rightarrow> True | Some v \<Rightarrow> j = i \<longrightarrow> b \<and> v = Qualities))"
  unfolding sets_inv_def by (rule variant_sets.entries_ok_def)

lemma sets_over_time: "over_time (sets_inv b i)"
  unfolding sets_inv_def by (rule variant_sets.entries_over_time)

lemma full_set:
  assumes "available j w = (Inr v, w1)" "\<not> length v < length Qualities"
  shows "v = Qualities \<and> complete_set (ext w) j"
proof -
  have v: "v = filter (\<lambda>q. bodies (ext w) j q \<noteq> None) Qualities"
    using available_Inr assms(1) unfolding available_def by blast
  with assms(2) have "filter (\<lambda>q. bodies (ext w) j q \<noteq> None) Qualities = Qualities"
    by (metis filter_id_conv length_filter_less linorder_not_less)
  then show ?thesis using v by (auto simp: complete_set_def list_all_iff filter_id_conv)
qed

lemma over_sets: "holds_on (sets_inv b i) (cached_available j)"
proof -
  note o = sets_over_time
  have fill: "holds_on (sets_inv b i) (bnd (available j) (\<lambda>v. if length v < length Qualities then ret v
      else bnd (attempt (cache_set variant_cache_update variants_ttl j v)) (\<lambda>_. ret v)))"
  proof (rule over_bnd_result)
    show "holds_on (sets_inv b i) (available j)" unfolding available_def by (rule over_available [OF o])
    fix w :: stream_world and v w1
    assume inv: "sets_inv b i (clock w (tick w)) (ext w)" and run: "available j w = (Inr v, w1)"
    have put: "holds_on (sets_inv b i) (cache_set variant_cache_update variants_ttl j v)" if "\<not> length v < length Qualities"
      unfolding sets_inv_def
      by (rule variant_sets.over_set) (use full_set [OF run that] inv in \<open>auto simp: sets_inv_iff\<close>)
    then show "holds_on (sets_inv b i) (if length v < length Qualities then ret v
      else bnd (attempt (cache_set variant_cache_update variants_ttl j v)) (\<lambda>_. ret v))"
      by (auto intro!: over)
  qed
  have get: "holds_on (sets_inv b i) (cache_get variant_cache j)"
    unfolding cache_get_def by (rule over_timed_call [OF o]) (auto split: option.splits)
  show ?thesis
    unfolding cached_available_def
    by (auto intro!: over get fill split: sum.splits option.splits)
qed

lemma over_sets_status: "holds_on (sets_inv b i) (cached_status c j)"
proof -
  note o = sets_over_time
  have get: "holds_on (sets_inv b i) (cache_get status_cache j)"
    unfolding cache_get_def by (rule over_timed_call [OF o]) (auto split: option.splits)
  have put: "holds_on (sets_inv b i) (cache_set status_cache_update ttl j v)" for ttl v
    unfolding cache_set_def by (rule over_timed_call [OF o]) (auto simp: sets_inv_iff complete_set_def)
  have load: "holds_on (sets_inv b i) (catalog_status j)"
    unfolding catalog_status_def by (rule over_call [OF o]) (auto split: option.splits)
  show ?thesis
    unfolding cached_status_def get_or_load_def
    by (auto intro!: over get put load split: sum.splits option.splits)
qed

lemma sets_audit: "sets_inv b i t x \<Longrightarrow> sets_inv b i t (audit_record d x)"
  by (simp add: sets_inv_iff audit_record_def complete_set_def)

lemmas over_sets_requests = over_requests [OF sets_over_time over_sets_status over_sets sets_audit]

text \<open>Whether the set is complete now or not: the cache knows only complete sets.\<close>

definition sets_known :: "string \<Rightarrow> time \<Rightarrow> stream_ext \<Rightarrow> bool" where
  "sets_known i t x \<longleftrightarrow> sets_inv (complete_set x i) i t x"

lemma sets_known_act:
  fixes m :: "('d, stream_ext, 'p, 'e, 'a) act"
  assumes "\<And>b. holds_on (sets_inv b i) m"
  shows "holds_on (sets_known i) m"
  unfolding holds_on_def
proof (intro allI impI)
  fix w :: "('d, stream_ext, 'p) world"
  assume "mono (clock w)" "sets_known i (clock w (tick w)) (ext w)"
  moreover obtain r w1 where run: "m w = (r, w1)" by fastforce
  ultimately have a: "clock w1 = clock w" "tick w \<le> tick w1"
    "sets_inv (complete_set (ext w) i) i (clock w (tick w1)) (ext w1)"
    using holds_onD [OF assms run, of "complete_set (ext w) i"] by (simp_all add: sets_known_def)
  then have "complete_set (ext w1) i = complete_set (ext w) i" unfolding sets_inv_iff by blast
  with a run show "let w1 = snd (m w) in clock w1 = clock w \<and> tick w \<le> tick w1 \<and> sets_known i (clock w (tick w1)) (ext w1)"
    by (simp add: sets_known_def)
qed

lemma sets_step: "holds_on (sets_known i) (step_act c s)"
proof (cases s)
  case (PutBody j q b)
  have grow: "complete_set (x\<lparr>bodies := (bodies x)(j := (bodies x j)(q \<mapsto> b))\<rparr>) i" if "complete_set x i" for x
    using that unfolding complete_set_def list_all_iff by auto
  show ?thesis
    unfolding PutBody
  proof (rule step_act_set(2))
    fix t x
    assume "sets_known i t x"
    then have e: "until \<le> t + variants_ttl \<and> (case v of None \<Rightarrow> True | Some v \<Rightarrow> k = i \<longrightarrow> complete_set x i \<and> v = Qualities)"
      if "variant_cache x k = Some (v, until)" for k v until
      using that unfolding sets_known_def sets_inv_iff by blast
    have "until \<le> t + variants_ttl \<and> (case v of None \<Rightarrow> True | Some v \<Rightarrow> k = i \<longrightarrow>
        complete_set (x\<lparr>bodies := (bodies x)(j := (bodies x j)(q \<mapsto> b))\<rparr>) i \<and> v = Qualities)"
      if "variant_cache x k = Some (v, until)" for k v until
      using e [OF that] grow by (cases v) simp_all
    then show "sets_known i t (x\<lparr>bodies := (bodies x)(j := (bodies x j)(q \<mapsto> b))\<rparr>)"
      unfolding sets_known_def sets_inv_iff by simp
  qed
next
  case (SetStatus j st)
  show ?thesis
    unfolding SetStatus by (rule step_act_set(1)) (simp add: sets_known_def sets_inv_iff complete_set_def)
qed (auto intro!: sets_known_act step_act_request over_sets_requests)

text \<open>The qualities of a track that are in the bucket.\<close>

definition stored_qualities :: "stream_ext \<Rightarrow> string \<Rightarrow> int list" where
  "stored_qualities x i = filter (\<lambda>q. bodies x i q \<noteq> None) Qualities"

lemma available_current:
  assumes run: "cached_available i w = (Inr vs, w1)" and known: "sets_known i (clock w (tick w)) (ext w)"
  shows "vs = stored_qualities (ext w) i"
proof -
  obtain r :: "stream_error failure + int list option" and w2 where get: "cache_get variant_cache i w = (r, w2)"
    and rest: "(case r of Inr (Some v) \<Rightarrow> ret v | _ \<Rightarrow> bnd (available i) (\<lambda>v.
       if length v < length Qualities then ret v
       else bnd (attempt (cache_set variant_cache_update variants_ttl i v)) (\<lambda>_. ret v))) w2 = (Inr vs, w1)"
    using run by (auto simp: cached_available_def act_inv)
  have w2: "ext w2 = ext w"
    using get by (auto simp: cache_get_def bnd_def now_utc_def call_def split: fate.splits sum.splits option.splits prod.splits)
  show ?thesis
  proof (cases "\<exists>u. r = Inr (Some u)")
    case True
    then have "r = Inr (Some vs)" using rest by (auto simp: act_inv)
    then obtain until where "variant_cache (ext w) i = Some (Some vs, until)"
      using get by (auto simp: cache_get_def act_inv live_entry_def split: option.splits if_splits)
    then have "vs = Qualities" "complete_set (ext w) i"
      using known unfolding sets_known_def sets_inv_iff by fastforce+
    then show ?thesis by (simp add: stored_qualities_def complete_set_def list_all_iff filter_id_conv)
  next
    case False
    then have "bnd (available i) (\<lambda>v. if length v < length Qualities then ret v
       else bnd (attempt (cache_set variant_cache_update variants_ttl i v)) (\<lambda>_. ret v)) w2 = (Inr vs, w1)"
      using rest by (auto split: sum.splits option.splits)
    then obtain w3 where "available i w2 = (Inr vs, w3)" by (auto simp: act_inv split: if_splits)
    with available_Inr w2 show ?thesis unfolding available_def stored_qualities_def by metis
  qed
qed

lemma known_run: "mono ck \<Longrightarrow> w = run_stream c ss (stream_start st bs f ck u) \<Longrightarrow>
    mono (clock w) \<and> sets_known i (clock w (tick w)) (ext w)"
  using over_run [where I = "sets_known i" and ss = ss and w = "stream_start st bs f ck u", OF sets_step]
  by (simp add: stream_start_def sets_known_def sets_inv_iff)

lemma choose_track_Inr:
  "choose_track c i q w = (Inr v, w1) \<longleftrightarrow> (\<exists>s w2 vs. cached_status c i w = (Inr s, w2) \<and> check_playable s = None \<and>
     cached_available i w2 = (Inr vs, w1) \<and> choose_variant q vs = Inr v)"
proof -
  have out: "(case x of Inl e \<Rightarrow> fail e | Inr q \<Rightarrow> ret q) w2 = (Inr v, w1) \<longleftrightarrow> x = Inr v \<and> w1 = w2" for x :: "stream_error + int" and w2 :: stream_world
    by (cases x) (auto simp: act_inv)
  show ?thesis unfolding choose_track_def by (auto simp: act_inv out split: option.splits)
qed

text \<open>C21: Caching does not cost quality: in whatever state requests, lost calls and transcodes
  have left the caches, a grant is for the very track that was asked for, carries the best
  quality up to the requested one that is in the bucket at that moment, or the lowest one there
  is, and the URL is for that object and ends with the grant.\<close>

theorem grant_is_best_quality:
  assumes "mono ck" "w = run_stream c ss (stream_start st bs f ck u)" "authorize c r w = (Inr g, w1)"
  shows "gr_track g = sr_track r \<and> gr_quality g \<in> set (stored_qualities (ext w) (sr_track r)) \<and>
    gr_quality g = best_choice (wanted_quality r) (set (stored_qualities (ext w) (sr_track r))) \<and>
    gr_url g = (sr_track r, gr_quality g, url_life c div second)"
proof -
  let ?i = "sr_track r"
  note k = known_run [OF assms(1,2), of ?i]
  obtain w2 where a: "authorize_track c ?i (wanted_quality r) w = (Inr g, w2)"
    using assms(3) by (auto simp: authorize_def recorded_def Let_def split: prod.splits)
  then obtain q w3 where q: "choose_track c ?i (wanted_quality r) w = (Inr q, w3)"
    and g: "gr_track g = ?i" "gr_quality g = q" "gr_url g = (?i, q, url_life c div second)"
    by (auto simp: authorize_track_def sign_def act_inv)
  then obtain s w4 vs w5 where st: "cached_status c ?i w = (Inr s, w4)"
    and av: "cached_available ?i w4 = (Inr vs, w5)" and ch: "choose_variant (wanted_quality r) vs = Inr q"
    unfolding choose_track_Inr by blast
  have same: "bodies (ext w4) = bodies (ext w)"
  proof -
    let ?I = "\<lambda>t x. bodies x = bodies (ext w)"
    have o: "over_time ?I" by (simp add: over_time_def)
    have "holds_on ?I (cached_status c ?i)"
      unfolding cached_status_def get_or_load_def cache_get_def cache_set_def catalog_status_def
      by (auto intro!: over o over_call [OF o] over_timed_call [OF o] split: sum.splits option.splits)
    from holds_onD(3) [OF this st] k show ?thesis by simp
  qed
  have "holds_on (sets_known ?i) (cached_status c ?i)" by (intro sets_known_act over_sets_status)
  from holds_onD [OF this st] k have "sets_known ?i (clock w4 (tick w4)) (ext w4)" by simp
  from available_current [OF av this] have vs: "vs = stored_qualities (ext w) ?i"
    using same by (simp add: stored_qualities_def)
  have "0 \<notin> set vs" unfolding vs by (auto simp: stored_qualities_def Qualities_def)
  from choose_variant_best [OF this, of "wanted_quality r"] ch
  have q: "vs \<noteq> []" "q = best_choice (wanted_quality r) (set vs)" by (auto split: if_splits)
  have "best_choice (wanted_quality r) (set vs) \<in> set vs"
  proof (cases "\<exists>p \<in> set vs. p \<le> wanted_quality r")
    case True
    then have "Max {p \<in> set vs. p \<le> wanted_quality r} \<in> {p \<in> set vs. p \<le> wanted_quality r}" by (intro Max_in) auto
    then show ?thesis using True by (simp add: best_choice_def)
  qed (use q(1) in \<open>auto simp: best_choice_def intro!: Min_in\<close>)
  then show ?thesis using g q(2) vs by simp
qed
section \<open>A track that is blocked\<close>

definition sample_stream :: stream_config where
  "sample_stream = \<lparr>url_life = 300 * second, status_ttl = 10 * second\<rparr>"

definition sample_ask :: stream_request where
  "sample_ask = \<lparr>sr_user = ''u'', sr_session = ''s'', sr_track = ''t'', sr_quality = 200\<rparr>"

definition sample_clock :: "nat \<Rightarrow> time" where
  "sample_clock n = int n * 5 * second"

definition sample_before :: stream_world where
  "sample_before = run_stream sample_stream [PutBody ''t'' 64 ''a'', PutBody ''t'' 128 ''b'', AskAuthorize sample_ask, SetStatus ''t'' (Some StatusBlocked)]
     (stream_start (\<lambda>_. Some StatusReady) (\<lambda>_ _. None) (\<lambda>_. Fine) sample_clock (\<lambda>_. None))"

definition sample_after :: stream_world where
  "sample_after = run_stream sample_stream [AskChoose sample_ask] sample_before"

lemma sample_clock_mono: "mono sample_clock"
  by (simp add: mono_def sample_clock_def)


definition sample_ready :: stream_world where
  "sample_ready = run_stream sample_stream [PutBody ''t'' 64 ''a'', PutBody ''t'' 128 ''b'', AskAuthorize sample_ask]
     (stream_start (\<lambda>_. Some StatusReady) (\<lambda>_ _. None) (\<lambda>_. Fine) sample_clock (\<lambda>_. None))"

theorem grant_is_best_quality_witness:
  "\<exists>g. fst (authorize sample_stream sample_ask sample_ready) = Inr g \<and> gr_track g = ''t'' \<and> gr_quality g = 128 \<and>
     gr_quality g = best_choice 200 (set (stored_qualities (ext sample_ready) ''t''))"
proof -
  let ?run = "authorize sample_stream sample_ask sample_ready"
  have q: "(case fst ?run of Inl e \<Rightarrow> 0 | Inr g \<Rightarrow> gr_quality g) = 128" by code_simp
  then obtain g where g: "fst ?run = Inr g" "gr_quality g = 128" by (cases "fst ?run") auto
  then have run: "?run = (Inr g, snd ?run)" by (metis prod.collapse)
  from grant_is_best_quality [OF sample_clock_mono sample_ready_def run] g show ?thesis
    by (simp add: sample_ask_def wanted_quality_def)
qed

end
