(* ===== verification/Indexer.thy ===== *)
theory Indexer
  imports Catalog Http Outside "HOL-Library.Char_ord" "HOL-Library.List_Lexorder"
begin

text \<open>
  The Search Indexer (\<^verbatim>\<open>workers/search-indexer\<close>): events of the Catalog and of playlists become
  versioned writes of documents, a reindex fills fresh physical indices and moves the aliases.
  OpenSearch is part of the state outside, with the semantics the code relies on
  (\<^verbatim>\<open>libs/platform/opensearch\<close>): \<open>external_gte\<close> versions, atomic alias changes, and a deleted
  document that keeps its version (for \<open>index.gc_deletes\<close>). The Catalog, the Playlist Service
  and User Profile are what they answer. Popularity is always zero and left out.
\<close>

section \<open>Documents\<close>

record ix_album =
  xa_id :: uuid
  xa_title :: string
  xa_type :: string
  xa_release :: time
  xa_artists :: "uuid list"
  xa_updated :: time

record ix_artist =
  xr_id :: uuid
  xr_name :: string
  xr_updated :: time

record ix_track =
  xt_id :: uuid
  xt_title :: string
  xt_album :: uuid
  xt_artists :: "uuid list"
  xt_duration :: int
  xt_explicit :: bool
  xt_status :: string
  xt_updated :: time

record ix_playlist =
  xp_id :: uuid
  xp_owner :: uuid
  xp_title :: string
  xp_tracks :: int
  xp_updated :: time

record track_doc =
  dt_id :: uuid
  dt_title :: string
  dt_artists :: "uuid list"
  dt_names :: "string list"
  dt_album :: uuid
  dt_album_title :: string
  dt_release :: time
  dt_duration :: int
  dt_explicit :: bool
  dt_available :: bool
  dt_updated :: time

record album_doc =
  da_id :: uuid
  da_title :: string
  da_type :: string
  da_artists :: "uuid list"
  da_names :: "string list"
  da_release :: time
  da_updated :: time

record playlist_doc =
  dp_id :: uuid
  dp_title :: string
  dp_owner :: string
  dp_tracks :: int
  dp_updated :: time

datatype doc = DTrack track_doc | DAlbum album_doc | DArtist uuid string time | DPlaylist playlist_doc

definition searchable :: "string \<Rightarrow> bool" where
  "searchable s \<longleftrightarrow> s = ''READY'' \<or> s = ''BLOCKED''"

type_synonym artist_map = "(uuid \<times> ix_artist) list"

definition names_of :: "uuid list \<Rightarrow> artist_map \<Rightarrow> string list" where
  "names_of ids m = List.map_filter (\<lambda>i. map_option xr_name (map_of m i)) ids"

definition track_doc_of :: "ix_track \<Rightarrow> ix_album \<Rightarrow> artist_map \<Rightarrow> track_doc" where
  "track_doc_of t a m = \<lparr>dt_id = xt_id t, dt_title = xt_title t, dt_artists = xt_artists t, dt_names = names_of (xt_artists t) m,
     dt_album = xa_id a, dt_album_title = xa_title a, dt_release = xa_release a, dt_duration = xt_duration t,
     dt_explicit = xt_explicit t, dt_available = (xt_status t = ''READY''), dt_updated = xt_updated t\<rparr>"

definition album_doc_of :: "ix_album \<Rightarrow> artist_map \<Rightarrow> album_doc" where
  "album_doc_of a m = \<lparr>da_id = xa_id a, da_title = xa_title a, da_type = xa_type a, da_artists = xa_artists a,
     da_names = names_of (xa_artists a) m, da_release = xa_release a, da_updated = xa_updated a\<rparr>"

definition artist_doc_of :: "ix_artist \<Rightarrow> doc" where
  "artist_doc_of a = DArtist (xr_id a) (xr_name a) (xr_updated a)"

definition playlist_doc_of :: "ix_playlist \<Rightarrow> (uuid \<times> string) list \<Rightarrow> playlist_doc" where
  "playlist_doc_of p owners = \<lparr>dp_id = xp_id p, dp_title = xp_title p,
     dp_owner = (case map_of owners (xp_owner p) of None \<Rightarrow> '''' | Some n \<Rightarrow> n), dp_tracks = xp_tracks p, dp_updated = xp_updated p\<rparr>"

section \<open>OpenSearch\<close>

abbreviation AliasTracks :: string where "AliasTracks \<equiv> ''tracks''"
abbreviation AliasAlbums :: string where "AliasAlbums \<equiv> ''albums''"
abbreviation AliasArtists :: string where "AliasArtists \<equiv> ''artists''"
abbreviation AliasPlaylists :: string where "AliasPlaylists \<equiv> ''playlists''"

definition Aliases :: "string list" where
  "Aliases = [AliasTracks, AliasAlbums, AliasArtists, AliasPlaylists]"

text \<open>A write of a document, or its deletion; the version orders the writes of one document.\<close>

record index_write =
  wr_index :: string
  wr_id :: uuid
  wr_version :: int
  wr_doc :: "doc option"

type_synonym documents = "string \<Rightarrow> uuid \<Rightarrow> (int \<times> doc option) option"

text \<open>
  Outside: the indices with their documents and the aliases, which writes the mapping refuses,
  and what the other services answer (\<open>pages\<close> by cursor: items, next cursor, more).
\<close>

record index_ext =
  documents_in :: documents
  indices :: "string list"
  aliases :: "string \<Rightarrow> string list"
  fits :: "index_write \<Rightarrow> bool"
  album_of :: "uuid \<Rightarrow> ix_album option"
  artist_of :: "uuid \<Rightarrow> ix_artist option"
  tracks_of_album :: "uuid \<Rightarrow> ix_track list option"
  album_pages :: "string \<Rightarrow> (ix_album list \<times> string \<times> bool) option"
  playlist_of :: "uuid \<Rightarrow> ix_playlist option"
  playlist_listing :: "uuid option \<Rightarrow> (ix_playlist list \<times> uuid option) option"
  user_names :: "uuid \<Rightarrow> (string \<times> string) option"

datatype index_error = EntityNotFound

type_synonym 'a index_act = "(unit, index_ext, unit, index_error, 'a) act"
type_synonym index_world = "(unit, index_ext, unit) world"

text \<open>A write to an alias goes to its write index.\<close>

definition resolve :: "index_ext \<Rightarrow> string \<Rightarrow> string" where
  "resolve x name = (if name \<in> set (indices x) then name else case aliases x name of [] \<Rightarrow> name | i # _ \<Rightarrow> i)"

text \<open>One operation of a bulk request: its status, and the document.\<close>

definition versioned_write :: "index_write \<Rightarrow> (int \<times> doc option) option \<Rightarrow> nat \<times> (int \<times> doc option) option" where
  "versioned_write w cur =
     (if 0 < wr_version w \<and> (case cur of None \<Rightarrow> False | Some (n, _) \<Rightarrow> wr_version w < n) then (409, cur)
      else (case wr_doc w of
          Some _ \<Rightarrow> (case cur of Some (_, Some _) \<Rightarrow> 200 | _ \<Rightarrow> 201)
        | None \<Rightarrow> (case cur of Some (_, Some _) \<Rightarrow> 200 | _ \<Rightarrow> 404),
        Some (if 0 < wr_version w then wr_version w else (case cur of None \<Rightarrow> 1 | Some (n, _) \<Rightarrow> n + 1), wr_doc w)))"

definition bulk_item :: "index_write \<Rightarrow> index_ext \<Rightarrow> nat \<times> index_ext" where
  "bulk_item w x =
     (if \<not> fits x w then (400, x)
      else let i = resolve x (wr_index w) in
        case versioned_write w (documents_in x i (wr_id w)) of (st, e) \<Rightarrow>
          (st, x\<lparr>documents_in := (documents_in x)(i := (documents_in x i)(wr_id w := e))\<rparr>))"

fun bulk :: "index_write list \<Rightarrow> index_ext \<Rightarrow> nat list \<times> index_ext" where
  "bulk [] x = ([], x)"
| "bulk (w # ws) x = (case bulk_item w x of (st, x1) \<Rightarrow> case bulk ws x1 of (sts, x2) \<Rightarrow> (st # sts, x2))"

text \<open>\<open>Index.Apply\<close>: a conflict is a newer document, a missing one needs no deletion.\<close>

definition item_ok :: "index_write \<Rightarrow> nat \<Rightarrow> bool" where
  "item_ok w st \<longleftrightarrow> st < 300 \<or> st = 409 \<or> (st = 404 \<and> Option.is_none (wr_doc w))"

definition apply_writes :: "index_write list \<Rightarrow> unit index_act" where
  "apply_writes ws = (if ws = [] then ret () else bnd (call (\<lambda>x. Inr (bulk ws x))) (\<lambda>sts.
     if list_all2 item_ok ws sts then ret () else raise Infra))"

section \<open>The services it reads\<close>

definition read_album :: "uuid \<Rightarrow> ix_album index_act" where
  "read_album i = call (\<lambda>x. case album_of x i of None \<Rightarrow> Inl (Domain EntityNotFound) | Some a \<Rightarrow> Inr (a, x))"

text \<open>\<open>Client.Artists\<close>: sorted, without duplicates, in chunks of 100; unknown ones are absent.\<close>

definition artists_chunk :: "uuid list \<Rightarrow> artist_map index_act" where
  "artists_chunk ids = call (\<lambda>x. Inr (List.map_filter (\<lambda>i. map_option (\<lambda>a. (i, a)) (artist_of x i)) ids, x))"

function chunks_of :: "nat \<Rightarrow> 'a list \<Rightarrow> 'a list list" where
  "chunks_of n xs = (if n = 0 \<or> xs = [] then [] else take n xs # chunks_of n (drop n xs))"
  by auto

termination by (relation "measure (\<lambda>(n, xs). length xs)") auto

declare chunks_of.simps [simp del]

fun read_chunks :: "uuid list list \<Rightarrow> artist_map index_act" where
  "read_chunks [] = ret []"
| "read_chunks (c # cs) = bnd (artists_chunk c) (\<lambda>m. bnd (read_chunks cs) (\<lambda>ms. ret (ms @ m)))"

definition read_artists :: "uuid list \<Rightarrow> artist_map index_act" where
  "read_artists ids = read_chunks (chunks_of 100 (remdups_adj (sort ids)))"

definition read_album_tracks :: "uuid \<Rightarrow> ix_track list index_act" where
  "read_album_tracks i = call (\<lambda>x. case tracks_of_album x i of None \<Rightarrow> Inl (Domain EntityNotFound) | Some ts \<Rightarrow> Inr (ts, x))"

definition read_playlist :: "uuid \<Rightarrow> ix_playlist index_act" where
  "read_playlist i = call (\<lambda>x. case playlist_of x i of None \<Rightarrow> Inl (Domain EntityNotFound) | Some p \<Rightarrow> Inr (p, x))"

text \<open>\<open>Profiles.DisplayNames\<close>: the user name stands in for an empty display name.\<close>

fun display_names :: "uuid list \<Rightarrow> (uuid \<times> string) list index_act" where
  "display_names [] = ret []"
| "display_names (u # us) = bnd (call (\<lambda>x. Inr (user_names x u, x))) (\<lambda>n. bnd (display_names us) (\<lambda>ns.
     ret (case n of None \<Rightarrow> ns | Some (shown, name) \<Rightarrow> ns @ [(u, if shown = '''' then name else shown)])))"

section \<open>Changes\<close>

text \<open>\<open>version\<close>: milliseconds since the epoch.\<close>

definition doc_version :: "time \<Rightarrow> int" where
  "doc_version t = t div millisecond"

definition track_changed :: "ix_track \<Rightarrow> time \<Rightarrow> unit index_act" where
  "track_changed t at =
     (if \<not> searchable (xt_status t)
      then apply_writes [\<lparr>wr_index = AliasTracks, wr_id = xt_id t, wr_version = doc_version at, wr_doc = None\<rparr>]
      else bnd (read_album (xt_album t)) (\<lambda>a. bnd (read_artists (xt_artists t)) (\<lambda>m.
        apply_writes [\<lparr>wr_index = AliasTracks, wr_id = xt_id t, wr_version = doc_version at,
          wr_doc = Some (DTrack (track_doc_of t a m))\<rparr>])))"

definition album_created :: "ix_album \<Rightarrow> time \<Rightarrow> unit index_act" where
  "album_created a at = bnd (read_artists (xa_artists a)) (\<lambda>m.
     apply_writes [\<lparr>wr_index = AliasAlbums, wr_id = xa_id a, wr_version = doc_version at,
       wr_doc = Some (DAlbum (album_doc_of (a\<lparr>xa_updated := at\<rparr>) m))\<rparr>])"

definition artist_created :: "uuid \<Rightarrow> string \<Rightarrow> time \<Rightarrow> unit index_act" where
  "artist_created i name at =
     apply_writes [\<lparr>wr_index = AliasArtists, wr_id = i, wr_version = doc_version at,
       wr_doc = Some (artist_doc_of \<lparr>xr_id = i, xr_name = name, xr_updated = at\<rparr>)\<rparr>]"

definition playlist_deleted :: "uuid \<Rightarrow> time \<Rightarrow> unit index_act" where
  "playlist_deleted i at = apply_writes [\<lparr>wr_index = AliasPlaylists, wr_id = i, wr_version = doc_version at, wr_doc = None\<rparr>]"

definition playlist_changed :: "uuid \<Rightarrow> time \<Rightarrow> unit index_act" where
  "playlist_changed i at = bnd (attempt (read_playlist i)) (\<lambda>r. case r of
     Inl f \<Rightarrow> if f = Domain EntityNotFound then playlist_deleted i at else raise f
   | Inr p \<Rightarrow> bnd (display_names [xp_owner p]) (\<lambda>owners.
       apply_writes [\<lparr>wr_index = AliasPlaylists, wr_id = xp_id p, wr_version = doc_version at,
         wr_doc = Some (DPlaylist (playlist_doc_of p owners))\<rparr>]))"

section \<open>The consumer\<close>

text \<open>A payload of either topic; one that does not fit its event's type does not decode.\<close>

datatype search_payload = OfCatalog catalog_payload | OfPlaylist "uuid option"

definition permanent_of :: "string \<Rightarrow> herr option" where
  "permanent_of msg = Some \<lparr>permanent = True, herr_text = msg\<rparr>"

text \<open>\<open>classify\<close>: what the Catalog does not know will not appear on a retry.\<close>

definition classify :: "index_error failure + unit \<Rightarrow> herr option" where
  "classify r = (case r of Inr _ \<Rightarrow> None
     | Inl f \<Rightarrow> Some \<lparr>permanent = (f = Domain EntityNotFound), herr_text = ''index''\<rparr>)"

definition unclassified :: "index_error failure + unit \<Rightarrow> herr option" where
  "unclassified r = (case r of Inr _ \<Rightarrow> None | Inl f \<Rightarrow> Some \<lparr>permanent = False, herr_text = ''index''\<rparr>)"

definition handle_playlist_event :: "search_payload option envelope \<Rightarrow> index_world \<Rightarrow> herr option \<times> index_world" where
  "handle_playlist_event env w =
     (if env_version env \<noteq> 1 then (permanent_of ''unsupported version'', w)
      else (case env_payload env of
          Some (OfPlaylist (Some i)) \<Rightarrow> apfst unclassified
            ((if env_type env = ''playlist.deleted'' then playlist_deleted i (env_at env) else playlist_changed i (env_at env)) w)
        | _ \<Rightarrow> (permanent_of ''payload'', w)))"

definition ix_track_of :: "catalog_payload \<Rightarrow> ix_track option" where
  "ix_track_of p = (case p of
     PTrack i al ars title dur num disc expl isrc status updated \<Rightarrow> Some \<lparr>xt_id = i, xt_title = title, xt_album = al,
       xt_artists = ars, xt_duration = dur, xt_explicit = expl, xt_status = status, xt_updated = updated\<rparr>
   | _ \<Rightarrow> None)"

definition handle_search :: "search_payload wire krecord \<Rightarrow> index_world \<Rightarrow> herr option \<times> index_world" where
  "handle_search rec w =
     (case decode_envelope (rec_value rec) of
        None \<Rightarrow> (permanent_of ''envelope'', w)
      | Some env \<Rightarrow>
          if take 9 (env_type env) = ''playlist.'' then handle_playlist_event env w
          else if env_version env \<noteq> 1 then (permanent_of ''unsupported version'', w)
          else if env_type env = ''track.created'' \<or> env_type env = ''track.updated'' then
            (case env_payload env of
               Some (OfCatalog p) \<Rightarrow> (case ix_track_of p of
                   Some t \<Rightarrow> apfst classify (track_changed t (env_at env) w)
                 | None \<Rightarrow> (permanent_of ''payload'', w))
             | _ \<Rightarrow> (permanent_of ''payload'', w))
          else if env_type env = ''album.created'' then
            (case env_payload env of
               Some (OfCatalog (PAlbum i ars title ty rel gs)) \<Rightarrow> apfst classify
                 (album_created \<lparr>xa_id = i, xa_title = title, xa_type = ty, xa_release = rel, xa_artists = ars, xa_updated = 0\<rparr> (env_at env) w)
             | _ \<Rightarrow> (permanent_of ''payload'', w))
          else if env_type env = ''artist.created'' then
            (case env_payload env of
               Some (OfCatalog (PArtist i name)) \<Rightarrow> apfst classify (artist_created i name (env_at env) w)
             | _ \<Rightarrow> (permanent_of ''payload'', w))
          else (None, w))"

section \<open>A rebuild\<close>

text \<open>
  \<open>Rebuild\<close> buffers writes and sends them in batches of 500. A walk over pages takes fuel for
  the number of pages; \<open>None\<close> means that the pages did not end within it.
\<close>

abbreviation batchSize :: nat where "batchSize \<equiv> 500"

definition add_write :: "index_write \<Rightarrow> index_write list \<Rightarrow> index_write list index_act" where
  "add_write w pending = (let p = pending @ [w] in
     if batchSize \<le> length p then bnd (apply_writes p) (\<lambda>_. ret []) else ret p)"

fun add_writes :: "index_write list \<Rightarrow> index_write list \<Rightarrow> index_write list index_act" where
  "add_writes [] p = ret p"
| "add_writes (w # ws) p = bnd (add_write w p) (add_writes ws)"

record stats =
  st_albums :: nat
  st_tracks :: nat
  st_artists :: nat
  st_playlists :: nat

definition no_stats :: stats where
  "no_stats = \<lparr>st_albums = 0, st_tracks = 0, st_artists = 0, st_playlists = 0\<rparr>"

text \<open>\<open>fold_each\<close>: the callback over the items of one page.\<close>

fun fold_each :: "('a \<Rightarrow> 's \<Rightarrow> 's index_act) \<Rightarrow> 'a list \<Rightarrow> 's \<Rightarrow> 's index_act" where
  "fold_each f [] s = ret s"
| "fold_each f (a # xs) s = bnd (f a s) (fold_each f xs)"

fun each_album :: "nat \<Rightarrow> string \<Rightarrow> (ix_album \<Rightarrow> 's \<Rightarrow> 's index_act) \<Rightarrow> 's \<Rightarrow> 's option index_act" where
  "each_album 0 cur f s = ret None"
| "each_album (Suc n) cur f s =
     bnd (call (\<lambda>x. case album_pages x cur of None \<Rightarrow> Inl Infra | Some p \<Rightarrow> Inr (p, x))) (\<lambda>(items, nxt, more).
     bnd (fold_each f items s) (\<lambda>s1. if \<not> more \<or> nxt = '''' then ret (Some s1) else each_album n nxt f s1))"

fun each_indexed_playlist :: "nat \<Rightarrow> uuid option \<Rightarrow> (ix_playlist \<Rightarrow> 's \<Rightarrow> 's index_act) \<Rightarrow> 's \<Rightarrow> 's option index_act" where
  "each_indexed_playlist 0 after f s = ret None"
| "each_indexed_playlist (Suc n) after f s =
     bnd (call (\<lambda>x. case playlist_listing x after of None \<Rightarrow> Inl Infra | Some p \<Rightarrow> Inr (p, x))) (\<lambda>(items, nxt).
     bnd (fold_each f items s) (\<lambda>s1. if items = [] \<or> nxt = None then ret (Some s1) else each_indexed_playlist n nxt f s1))"

record rebuild_state =
  rb_pending :: "index_write list"
  rb_artists :: "uuid list"
  rb_stats :: stats

text \<open>The artists met for the first time, in the order they were met.\<close>

definition meet :: "uuid list \<Rightarrow> uuid list \<Rightarrow> uuid list" where
  "meet ids seen = fold (\<lambda>i acc. if i \<in> set acc then acc else acc @ [i]) ids seen"

definition rebuild_album :: "(string \<Rightarrow> string) \<Rightarrow> ix_album \<Rightarrow> rebuild_state \<Rightarrow> rebuild_state index_act" where
  "rebuild_album target a s = bnd (read_album_tracks (xa_id a)) (\<lambda>tracks.
     let ids = xa_artists a @ concat (map xt_artists tracks) in
     bnd (read_artists ids) (\<lambda>m.
     let found = filter (\<lambda>t. searchable (xt_status t)) tracks in
     bnd (add_writes (\<lparr>wr_index = target AliasAlbums, wr_id = xa_id a, wr_version = doc_version (xa_updated a),
         wr_doc = Some (DAlbum (album_doc_of a m))\<rparr> # map (\<lambda>t. \<lparr>wr_index = target AliasTracks, wr_id = xt_id t,
         wr_version = doc_version (xt_updated t), wr_doc = Some (DTrack (track_doc_of t a m))\<rparr>) found) (rb_pending s)) (\<lambda>p.
     ret \<lparr>rb_pending = p, rb_artists = meet ids (rb_artists s),
       rb_stats = (rb_stats s)\<lparr>st_albums := st_albums (rb_stats s) + 1, st_tracks := st_tracks (rb_stats s) + length found\<rparr>\<rparr>)))"

definition rebuild_artists :: "(string \<Rightarrow> string) \<Rightarrow> uuid list \<Rightarrow> rebuild_state \<Rightarrow> rebuild_state index_act" where
  "rebuild_artists target chunk s = bnd (read_artists chunk) (\<lambda>m.
     let found = List.map_filter (map_of m) chunk in
     bnd (add_writes (map (\<lambda>a. \<lparr>wr_index = target AliasArtists, wr_id = xr_id a, wr_version = doc_version (xr_updated a),
         wr_doc = Some (artist_doc_of a)\<rparr>) found) (rb_pending s)) (\<lambda>p.
     ret (s\<lparr>rb_pending := p, rb_stats := (rb_stats s)\<lparr>st_artists := st_artists (rb_stats s) + length found\<rparr>\<rparr>)))"

text \<open>\<open>rebuildPlaylists\<close> remembers the owners' names.\<close>

definition rebuild_playlist :: "string \<Rightarrow> ix_playlist \<Rightarrow> rebuild_state \<times> (uuid \<times> string) list \<Rightarrow>
    (rebuild_state \<times> (uuid \<times> string) list) index_act" where
  "rebuild_playlist index p = (\<lambda>(s, owners).
     bnd (if map_of owners (xp_owner p) \<noteq> None then ret owners
          else bnd (display_names [xp_owner p]) (\<lambda>ns.
            ret ((xp_owner p, case map_of ns (xp_owner p) of None \<Rightarrow> '''' | Some n \<Rightarrow> n) # owners))) (\<lambda>owners.
     bnd (add_write \<lparr>wr_index = index, wr_id = xp_id p, wr_version = doc_version (xp_updated p),
         wr_doc = Some (DPlaylist (playlist_doc_of p owners))\<rparr> (rb_pending s)) (\<lambda>pend.
     ret (s\<lparr>rb_pending := pend, rb_stats := (rb_stats s)\<lparr>st_playlists := st_playlists (rb_stats s) + 1\<rparr>\<rparr>, owners))))"

definition rebuild :: "nat \<Rightarrow> (string \<Rightarrow> string) \<Rightarrow> stats option index_act" where
  "rebuild fuel target =
     bnd (each_album fuel '''' (rebuild_album target) \<lparr>rb_pending = [], rb_artists = [], rb_stats = no_stats\<rparr>) (\<lambda>r. case r of
         None \<Rightarrow> ret None
       | Some s \<Rightarrow>
     bnd (fold_each (rebuild_artists target) (chunks_of 100 (rb_artists s)) s) (\<lambda>s.
     bnd (each_indexed_playlist fuel None (rebuild_playlist (target AliasPlaylists)) (s, [])) (\<lambda>r. case r of
         None \<Rightarrow> ret None
       | Some (s, _) \<Rightarrow> bnd (apply_writes (rb_pending s)) (\<lambda>_. ret (Some (rb_stats s))))))"

section \<open>Physical indices and aliases\<close>

definition put_template :: "string \<Rightarrow> unit index_act" where
  "put_template alias = call (\<lambda>x. Inr ((), x))"

definition create_index :: "string \<Rightarrow> unit index_act" where
  "create_index i = call (\<lambda>x. if i \<in> set (indices x) \<or> aliases x i \<noteq> [] then Inl Infra
     else Inr ((), x\<lparr>indices := indices x @ [i], documents_in := (documents_in x)(i := \<lambda>_. None)\<rparr>))"

definition delete_index :: "string \<Rightarrow> unit index_act" where
  "delete_index i = call (\<lambda>x. if i \<notin> set (indices x) then Inl Infra
     else Inr ((), x\<lparr>indices := remove1 i (indices x), documents_in := (documents_in x)(i := \<lambda>_. None),
       aliases := (\<lambda>a. removeAll i (aliases x a))\<rparr>))"

definition alias_indices :: "string \<Rightarrow> string list index_act" where
  "alias_indices a = call (\<lambda>x. Inr (aliases x a, x))"

text \<open>Indices and aliases share one space of names. One request: the alias leaves the indices of \<open>from\<close> and joins the new one, as its write index.\<close>

definition swap_alias :: "string \<Rightarrow> string \<Rightarrow> string list \<Rightarrow> unit index_act" where
  "swap_alias a i from = call (\<lambda>x. if i \<notin> set (indices x) \<or> a \<in> set (indices x) then Inl Infra
     else Inr ((), x\<lparr>aliases := (aliases x)(a := i # filter (\<lambda>j. j \<noteq> i \<and> j \<notin> set from) (aliases x a))\<rparr>))"

definition refresh_index :: "string \<Rightarrow> unit index_act" where
  "refresh_index i = call (\<lambda>x. if i \<notin> set (indices x) then Inl Infra else Inr ((), x))"

definition versioned :: "string \<Rightarrow> int \<Rightarrow> string" where
  "versioned a n = a @ ''-v'' @ itoa n"

definition index_version :: "string \<Rightarrow> string \<Rightarrow> int" where
  "index_version a i = (if take (length a + 2) i = a @ ''-v''
     then (case atoi (drop (length a + 2) i) of None \<Rightarrow> 0 | Some n \<Rightarrow> n) else 0)"

fun ensure :: "string list \<Rightarrow> unit index_act" where
  "ensure [] = ret ()"
| "ensure (a # as') = bnd (put_template a) (\<lambda>_. bnd (alias_indices a) (\<lambda>cur.
     bnd (if cur \<noteq> [] then ret ()
          else bnd (create_index (versioned a 1)) (\<lambda>_. swap_alias a (versioned a 1) [])) (\<lambda>_. ensure as')))"

text \<open>The next version is one more than the highest the alias points to.\<close>

definition next_version :: "string \<Rightarrow> string list \<Rightarrow> int" where
  "next_version a cur = fold (\<lambda>i n. max n (index_version a i + 1)) cur 1"

fun new_generation :: "string list \<Rightarrow> (string \<times> string \<times> string list) list index_act" where
  "new_generation [] = ret []"
| "new_generation (a # as') = bnd (alias_indices a) (\<lambda>cur.
     let i = versioned a (next_version a cur) in
     bnd (create_index i) (\<lambda>_. bnd (new_generation as') (\<lambda>g. ret ((a, i, cur) # g))))"

fun each_do :: "('a \<Rightarrow> unit index_act) \<Rightarrow> 'a list \<Rightarrow> unit index_act" where
  "each_do f [] = ret ()"
| "each_do f (a # xs) = bnd (f a) (\<lambda>_. each_do f xs)"

definition by_alias :: "(string \<times> string \<times> string list) list \<Rightarrow> (string \<times> string \<times> string list) list" where
  "by_alias g = sort_key fst g"

definition promote :: "(string \<times> string \<times> string list) list \<Rightarrow> unit index_act" where
  "promote g = bnd (each_do (\<lambda>(a, i, old). swap_alias a i old) (by_alias g)) (\<lambda>_.
     each_do (\<lambda>(a, i, old). each_do delete_index (filter (\<lambda>j. j \<noteq> i) old)) (by_alias g))"

text \<open>\<open>Abandon\<close> tries to drop every new index.\<close>

definition abandon :: "(string \<times> string \<times> string list) list \<Rightarrow> unit index_act" where
  "abandon g = each_do (\<lambda>(a, i, old). bnd (attempt (delete_index i)) (\<lambda>_. ret ())) g"

definition new_index :: "(string \<times> string \<times> string list) list \<Rightarrow> string \<Rightarrow> string" where
  "new_index g a = (case map_of g a of None \<Rightarrow> '''' | Some (i, _) \<Rightarrow> i)"

text \<open>\<open>reindex\<close> of the command: \<open>None\<close> while the walks of the rebuild have not ended.\<close>

definition reindex :: "nat \<Rightarrow> stats option index_act" where
  "reindex fuel = bnd (ensure Aliases) (\<lambda>_. bnd (new_generation Aliases) (\<lambda>g.
     bnd (attempt (rebuild fuel (new_index g))) (\<lambda>r. case r of
         Inl f \<Rightarrow> bnd (abandon g) (\<lambda>_. raise f)
       | Inr None \<Rightarrow> ret None
       | Inr (Some st) \<Rightarrow> bnd (attempt (each_do (\<lambda>(a, i, old). refresh_index i) g)) (\<lambda>r. case r of
             Inl f \<Rightarrow> bnd (abandon g) (\<lambda>_. raise f)
           | Inr _ \<Rightarrow> bnd (promote g) (\<lambda>_. ret (Some st))))))"

section \<open>What handling a record writes\<close>

text \<open>The write of each event as a function of what the services answer.\<close>

definition artists_read :: "index_ext \<Rightarrow> uuid list \<Rightarrow> artist_map" where
  "artists_read x ids = concat (rev (map (List.map_filter (\<lambda>i. map_option (\<lambda>a. (i, a)) (artist_of x i)))
     (chunks_of 100 (remdups_adj (sort ids)))))"

definition track_write :: "ix_track \<Rightarrow> time \<Rightarrow> index_ext \<Rightarrow> index_write option" where
  "track_write t at x =
     (if \<not> searchable (xt_status t)
      then Some \<lparr>wr_index = AliasTracks, wr_id = xt_id t, wr_version = doc_version at, wr_doc = None\<rparr>
      else map_option (\<lambda>a. \<lparr>wr_index = AliasTracks, wr_id = xt_id t, wr_version = doc_version at,
        wr_doc = Some (DTrack (track_doc_of t a (artists_read x (xt_artists t))))\<rparr>) (album_of x (xt_album t)))"

definition album_write :: "ix_album \<Rightarrow> time \<Rightarrow> index_ext \<Rightarrow> index_write option" where
  "album_write a at x = Some \<lparr>wr_index = AliasAlbums, wr_id = xa_id a, wr_version = doc_version at,
     wr_doc = Some (DAlbum (album_doc_of (a\<lparr>xa_updated := at\<rparr>) (artists_read x (xa_artists a))))\<rparr>"

definition artist_write :: "uuid \<Rightarrow> string \<Rightarrow> time \<Rightarrow> index_ext \<Rightarrow> index_write option" where
  "artist_write i name at x = Some \<lparr>wr_index = AliasArtists, wr_id = i, wr_version = doc_version at,
     wr_doc = Some (DArtist i name at)\<rparr>"

definition playlist_gone :: "uuid \<Rightarrow> time \<Rightarrow> index_ext \<Rightarrow> index_write option" where
  "playlist_gone i at x = Some \<lparr>wr_index = AliasPlaylists, wr_id = i, wr_version = doc_version at, wr_doc = None\<rparr>"

definition names_read :: "index_ext \<Rightarrow> uuid list \<Rightarrow> (uuid \<times> string) list" where
  "names_read x us = rev (List.map_filter (\<lambda>u. map_option (\<lambda>(shown, name). (u, if shown = '''' then name else shown)) (user_names x u)) us)"

definition playlist_write :: "uuid \<Rightarrow> time \<Rightarrow> index_ext \<Rightarrow> index_write option" where
  "playlist_write i at x = (case playlist_of x i of None \<Rightarrow> playlist_gone i at x
     | Some p \<Rightarrow> Some \<lparr>wr_index = AliasPlaylists, wr_id = xp_id p, wr_version = doc_version at,
         wr_doc = Some (DPlaylist (playlist_doc_of p (names_read x [xp_owner p])))\<rparr>)"

text \<open>\<open>does_write W m\<close>: \<open>m\<close> writes nothing or what \<open>W\<close> says, and what \<open>W\<close> says when it succeeds.\<close>

definition does_write :: "(index_ext \<Rightarrow> index_write option) \<Rightarrow> unit index_act \<Rightarrow> bool" where
  "does_write W m \<longleftrightarrow> (\<forall>w q w1. m w = (q, w1) \<longrightarrow>
     (ext w1 = ext w \<or> (\<exists>v. W (ext w) = Some v \<and> ext w1 = snd (bulk_item v (ext w)))) \<and>
     (q = Inr () \<longrightarrow> (\<exists>v. W (ext w) = Some v \<and> fits (ext w) v \<and> ext w1 = snd (bulk_item v (ext w)))))"

lemma does_writeD:
  assumes "does_write W m" "m w = (q, w1)"
  shows "(ext w1 = ext w \<or> (\<exists>v. W (ext w) = Some v \<and> ext w1 = snd (bulk_item v (ext w)))) \<and>
     (q = Inr () \<longrightarrow> (\<exists>v. W (ext w) = Some v \<and> fits (ext w) v \<and> ext w1 = snd (bulk_item v (ext w))))"
  using assms unfolding does_write_def by blast

definition reads_ext :: "(index_ext \<Rightarrow> 'a option) \<Rightarrow> 'a index_act \<Rightarrow> bool" where
  "reads_ext g m \<longleftrightarrow> (\<forall>w q w1. m w = (q, w1) \<longrightarrow> ext w1 = ext w \<and> (\<forall>y. q = Inr y \<longrightarrow> g (ext w) = Some y))"

lemma reads_ext_call: "(\<And>x y x1. f x = Inr (y, x1) \<Longrightarrow> x1 = x \<and> g x = Some y) \<Longrightarrow> reads_ext g (call f)"
  unfolding reads_ext_def call_def by (auto split: fate.splits sum.splits)

lemma reads_ext_bnd:
  assumes m: "reads_ext g m" and f: "\<And>y. reads_ext (h y) (f y)"
  shows "reads_ext (\<lambda>x. Option.bind (g x) (\<lambda>y. h y x)) (bnd m f)"
  unfolding reads_ext_def
proof (intro allI impI)
  fix w q w2
  assume run: "bnd m f w = (q, w2)"
  obtain r w1 where r: "m w = (r, w1)" by fastforce
  have a: "ext w1 = ext w" "\<And>y. r = Inr y \<Longrightarrow> g (ext w) = Some y" using m r unfolding reads_ext_def by blast+
  show "ext w2 = ext w \<and> (\<forall>y. q = Inr y \<longrightarrow> Option.bind (g (ext w)) (\<lambda>y. h y (ext w)) = Some y)"
  proof (cases r)
    case (Inl e)
    then show ?thesis using run r a by (auto simp: bnd_def)
  next
    case (Inr y)
    then have "f y w1 = (q, w2)" using run r by (simp add: bnd_def)
    then have "ext w2 = ext w1 \<and> (\<forall>z. q = Inr z \<longrightarrow> h y (ext w1) = Some z)" using f unfolding reads_ext_def by blast
    then show ?thesis using a Inr by simp
  qed
qed

lemma reads_ext_ret: "reads_ext (\<lambda>_. Some y) (ret y)"
  by (simp add: reads_ext_def ret_def)

lemma does_write_bnd:
  assumes m: "reads_ext g m" and f: "\<And>y. does_write (W y) (f y)"
  shows "does_write (\<lambda>x. Option.bind (g x) (\<lambda>y. W y x)) (bnd m f)"
  unfolding does_write_def
proof (intro allI impI)
  fix w q w2
  assume run: "bnd m f w = (q, w2)"
  obtain r w1 where r: "m w = (r, w1)" by fastforce
  have a: "ext w1 = ext w" "\<And>y. r = Inr y \<Longrightarrow> g (ext w) = Some y" using m r unfolding reads_ext_def by blast+
  let ?W = "Option.bind (g (ext w)) (\<lambda>y. W y (ext w))"
  show "(ext w2 = ext w \<or> (\<exists>v. ?W = Some v \<and> ext w2 = snd (bulk_item v (ext w)))) \<and>
      (q = Inr () \<longrightarrow> (\<exists>v. ?W = Some v \<and> fits (ext w) v \<and> ext w2 = snd (bulk_item v (ext w))))"
  proof (cases r)
    case (Inl e)
    then show ?thesis using run r a by (auto simp: bnd_def)
  next
    case (Inr y)
    then have run2: "f y w1 = (q, w2)" using run r by (simp add: bnd_def)
    have "(ext w2 = ext w1 \<or> (\<exists>v. W y (ext w1) = Some v \<and> ext w2 = snd (bulk_item v (ext w1)))) \<and>
      (q = Inr () \<longrightarrow> (\<exists>v. W y (ext w1) = Some v \<and> fits (ext w1) v \<and> ext w2 = snd (bulk_item v (ext w1))))"
      using f [of y] run2 unfolding does_write_def by blast
    then show ?thesis using a Inr by simp
  qed
qed

lemma does_write_apply: "does_write (\<lambda>_. Some v) (apply_writes [v])"
  unfolding does_write_def
proof (intro allI impI)
  fix w q w1
  assume run: "apply_writes [v] w = (q, w1)"
  have st: "fits x v" if "item_ok v (fst (bulk_item v x))" for x
    using that by (cases "fits x v") (simp_all add: bulk_item_def item_ok_def)
  show "(ext w1 = ext w \<or> (\<exists>u. Some v = Some u \<and> ext w1 = snd (bulk_item u (ext w)))) \<and>
      (q = Inr () \<longrightarrow> (\<exists>u. Some v = Some u \<and> fits (ext w) u \<and> ext w1 = snd (bulk_item u (ext w))))"
    using run st [of "ext w"]
    by (auto simp: apply_writes_def bnd_def call_def ret_def raise_def case_prod_unfold split: fate.splits if_splits)
qed

lemma reads_chunks: "reads_ext (\<lambda>x. Some (concat (rev (map (List.map_filter (\<lambda>i. map_option (\<lambda>a. (i, a)) (artist_of x i))) cs)))) (read_chunks cs)"
proof (induction cs)
  case (Cons c cs)
  have "reads_ext (\<lambda>x. Some (List.map_filter (\<lambda>i. map_option (\<lambda>a. (i, a)) (artist_of x i)) c)) (artists_chunk c)"
    unfolding artists_chunk_def by (rule reads_ext_call) auto
  from reads_ext_bnd [OF this reads_ext_bnd [OF Cons reads_ext_ret]] show ?case by simp
qed (simp add: reads_ext_ret)

lemma reads_artists: "reads_ext (\<lambda>x. Some (artists_read x ids)) (read_artists ids)"
  unfolding read_artists_def artists_read_def by (rule reads_chunks)

lemma reads_names: "reads_ext (\<lambda>x. Some (names_read x us)) (display_names us)"
proof (induction us)
  case Nil
  then show ?case by (simp add: names_read_def reads_ext_ret map_filter_simps)
next
  case (Cons u us)
  have c: "reads_ext (\<lambda>x. Some (user_names x u)) (call (\<lambda>x. Inr (user_names x u, x)) :: (string \<times> string) option index_act)"
    by (rule reads_ext_call) auto
  have "names_read x (u # us) = (case user_names x u of None \<Rightarrow> names_read x us
      | Some (shown, name) \<Rightarrow> names_read x us @ [(u, if shown = '''' then name else shown)])" for x
    by (auto simp: names_read_def map_filter_simps split: option.splits prod.splits)
  then have e: "(\<lambda>x. Some (names_read x (u # us))) = (\<lambda>x. Option.bind (Some (user_names x u)) (\<lambda>n. Option.bind (Some (names_read x us)) (\<lambda>ns.
      Some (case n of None \<Rightarrow> ns | Some (shown, name) \<Rightarrow> ns @ [(u, if shown = '''' then name else shown)]))))"
    by simp
  show ?case
    unfolding e display_names.simps by (intro reads_ext_bnd c Cons reads_ext_ret)
qed

lemma does_track: "does_write (track_write t at) (track_changed t at)"
proof (cases "searchable (xt_status t)")
  case True
  have al: "reads_ext (\<lambda>x. album_of x (xt_album t)) (read_album (xt_album t))"
    unfolding read_album_def by (rule reads_ext_call) (auto split: option.splits)
  have e: "track_write t at = (\<lambda>x. Option.bind (album_of x (xt_album t)) (\<lambda>a. Option.bind (Some (artists_read x (xt_artists t))) (\<lambda>m.
      Some \<lparr>wr_index = AliasTracks, wr_id = xt_id t, wr_version = doc_version at, wr_doc = Some (DTrack (track_doc_of t a m))\<rparr>)))"
    using True by (simp add: fun_eq_iff track_write_def map_conv_bind_option comp_def)
  show ?thesis
    unfolding e track_changed_def using True
    by (simp, intro does_write_bnd al) (use does_write_bnd [OF reads_artists does_write_apply] in simp)
next
  case False
  then have "track_write t at = (\<lambda>_. Some \<lparr>wr_index = AliasTracks, wr_id = xt_id t, wr_version = doc_version at, wr_doc = None\<rparr>)"
    by (auto simp: track_write_def)
  then show ?thesis using False by (simp add: track_changed_def does_write_apply)
qed

lemma does_album: "does_write (album_write a at) (album_created a at)"
proof -
  have e: "album_write a at = (\<lambda>x. Option.bind (Some (artists_read x (xa_artists a))) (\<lambda>m. Some \<lparr>wr_index = AliasAlbums, wr_id = xa_id a,
      wr_version = doc_version at, wr_doc = Some (DAlbum (album_doc_of (a\<lparr>xa_updated := at\<rparr>) m))\<rparr>))"
    by (auto simp: album_write_def)
  show ?thesis unfolding e album_created_def by (intro does_write_bnd reads_artists does_write_apply)
qed

lemma does_artist: "does_write (artist_write i name at) (artist_created i name at)"
proof -
  have "artist_write i name at = (\<lambda>_. Some \<lparr>wr_index = AliasArtists, wr_id = i, wr_version = doc_version at, wr_doc = Some (DArtist i name at)\<rparr>)"
    by (auto simp: artist_write_def)
  then show ?thesis by (simp add: artist_created_def artist_doc_of_def does_write_apply)
qed

lemma does_gone: "does_write (playlist_gone i at) (playlist_deleted i at)"
proof -
  have "playlist_gone i at = (\<lambda>_. Some \<lparr>wr_index = AliasPlaylists, wr_id = i, wr_version = doc_version at, wr_doc = None\<rparr>)"
    by (auto simp: playlist_gone_def)
  then show ?thesis by (simp add: playlist_deleted_def does_write_apply)
qed

lemma does_playlist: "does_write (playlist_write i at) (playlist_changed i at)"
  unfolding does_write_def
proof (intro allI impI)
  fix w q w2
  assume run: "playlist_changed i at w = (q, w2)"
  obtain r w1 where r: "read_playlist i w = (r, w1)" by fastforce
  have same: "ext w1 = ext w" and found: "\<And>p. r = Inr p \<Longrightarrow> playlist_of (ext w) i = Some p"
    and none: "r = Inl (Domain EntityNotFound) \<Longrightarrow> playlist_of (ext w) i = None"
    using r by (auto simp: read_playlist_def call_def split: fate.splits option.splits)
  show "(ext w2 = ext w \<or> (\<exists>v. playlist_write i at (ext w) = Some v \<and> ext w2 = snd (bulk_item v (ext w)))) \<and>
      (q = Inr () \<longrightarrow> (\<exists>v. playlist_write i at (ext w) = Some v \<and> fits (ext w) v \<and> ext w2 = snd (bulk_item v (ext w))))"
  proof (cases r)
    case (Inl f)
    show ?thesis
    proof (cases "f = Domain EntityNotFound")
      case True
      then have "playlist_deleted i at w1 = (q, w2)" using run r Inl by (simp add: playlist_changed_def bnd_def attempt_def)
      from does_writeD [OF does_gone this] show ?thesis using none Inl True same by (simp add: playlist_write_def)
    next
      case False
      then show ?thesis using run r Inl same by (auto simp: playlist_changed_def bnd_def attempt_def raise_def)
    qed
  next
    case (Inr p)
    let ?v = "\<lambda>owners. \<lparr>wr_index = AliasPlaylists, wr_id = xp_id p, wr_version = doc_version at, wr_doc = Some (DPlaylist (playlist_doc_of p owners))\<rparr>"
    have "bnd (display_names [xp_owner p]) (\<lambda>owners. apply_writes [?v owners]) w1 = (q, w2)"
      using run r Inr by (simp add: playlist_changed_def bnd_def [of "attempt (read_playlist i)"] attempt_def)
    from does_writeD [OF does_write_bnd [OF reads_names does_write_apply] this] same found [OF Inr] show ?thesis
      by (simp add: playlist_write_def)
  qed
qed
text \<open>What a value of the topics asks for; \<open>None\<close> when it is refused, ignored, or names an album nobody knows.\<close>

definition write_for :: "index_ext \<Rightarrow> search_payload wire \<Rightarrow> index_write option" where
  "write_for x v =
     (case decode_envelope v of None \<Rightarrow> None
      | Some env \<Rightarrow> if env_version env \<noteq> 1 then None else
          (case env_payload env of None \<Rightarrow> None
           | Some (OfPlaylist oi) \<Rightarrow> (case oi of None \<Rightarrow> None | Some i \<Rightarrow>
               if take 9 (env_type env) \<noteq> ''playlist.'' then None
               else if env_type env = ''playlist.deleted'' then playlist_gone i (env_at env) x else playlist_write i (env_at env) x)
           | Some (OfCatalog p) \<Rightarrow>
               if env_type env = ''track.created'' \<or> env_type env = ''track.updated''
               then (case ix_track_of p of None \<Rightarrow> None | Some t \<Rightarrow> track_write t (env_at env) x)
               else if env_type env = ''album.created'' then (case p of PAlbum i ars title ty rel gs \<Rightarrow>
                 album_write \<lparr>xa_id = i, xa_title = title, xa_type = ty, xa_release = rel, xa_artists = ars, xa_updated = 0\<rparr> (env_at env) x | _ \<Rightarrow> None)
               else if env_type env = ''artist.created'' then (case p of PArtist i name \<Rightarrow> artist_write i name (env_at env) x | _ \<Rightarrow> None)
               else None))"

text \<open>Handling as one of these: it touches nothing, or it runs an action that does its write.\<close>

lemma handled_as:
  assumes "does_write W m" "f \<in> {classify, unclassified}" "apfst f (m w) = (err, w1)"
  shows "(ext w1 = ext w \<or> (\<exists>v. W (ext w) = Some v \<and> ext w1 = snd (bulk_item v (ext w)))) \<and>
    (err = None \<longrightarrow> (\<exists>v. W (ext w) = Some v \<and> fits (ext w) v \<and> ext w1 = snd (bulk_item v (ext w))))"
proof -
  obtain q w2 where q: "m w = (q, w2)" by fastforce
  have "err = None \<Longrightarrow> q = Inr ()" using assms(2,3) q by (cases q) (auto simp: classify_def unclassified_def)
  moreover have "w2 = w1" using assms(3) q by simp
  ultimately show ?thesis using does_writeD [OF assms(1) q] by blast
qed

lemma not_playlist: "ty \<in> {''track.created'', ''track.updated'', ''album.created'', ''artist.created''} \<Longrightarrow> take 9 ty \<noteq> ''playlist.''"
  by auto

lemma handle_search_effect:
  assumes run: "handle_search rec w = (err, w1)"
  shows "(ext w1 = ext w \<or> (\<exists>v. write_for (ext w) (rec_value rec) = Some v \<and> ext w1 = snd (bulk_item v (ext w)))) \<and>
    (err = None \<longrightarrow> (case write_for (ext w) (rec_value rec) of None \<Rightarrow> ext w1 = ext w
      | Some v \<Rightarrow> fits (ext w) v \<and> ext w1 = snd (bulk_item v (ext w))))"
proof -
  have act: ?thesis if "does_write W m" "f \<in> {classify, unclassified}" "apfst f (m w) = (err, w1)"
    "write_for (ext w) (rec_value rec) = W (ext w)" for W m f
    using handled_as [OF that(1-3)] that(4) by auto
  show ?thesis
  proof (cases "decode_envelope (rec_value rec)")
    case None
    then show ?thesis using run by (auto simp: handle_search_def permanent_of_def)
  next
    case (Some env)
    have wf: "write_for (ext w) (rec_value rec) = (if env_version env \<noteq> 1 then None else case env_payload env of None \<Rightarrow> None
           | Some (OfPlaylist oi) \<Rightarrow> (case oi of None \<Rightarrow> None | Some i \<Rightarrow>
               if take 9 (env_type env) \<noteq> ''playlist.'' then None
               else if env_type env = ''playlist.deleted'' then playlist_gone i (env_at env) (ext w) else playlist_write i (env_at env) (ext w))
           | Some (OfCatalog p) \<Rightarrow>
               if env_type env = ''track.created'' \<or> env_type env = ''track.updated''
               then (case ix_track_of p of None \<Rightarrow> None | Some t \<Rightarrow> track_write t (env_at env) (ext w))
               else if env_type env = ''album.created'' then (case p of PAlbum i ars title ty rel gs \<Rightarrow>
                 album_write \<lparr>xa_id = i, xa_title = title, xa_type = ty, xa_release = rel, xa_artists = ars, xa_updated = 0\<rparr> (env_at env) (ext w) | _ \<Rightarrow> None)
               else if env_type env = ''artist.created'' then (case p of PArtist i name \<Rightarrow> artist_write i name (env_at env) (ext w) | _ \<Rightarrow> None)
               else None)"
      unfolding write_for_def Some by simp
    show ?thesis
    proof (cases "env_version env = 1")
      case False
      then show ?thesis using run Some by (auto simp: handle_search_def handle_playlist_event_def permanent_of_def wf split: if_splits)
    next
      case ver: True
      consider (pl) "take 9 (env_type env) = ''playlist.''" | (tr) "env_type env = ''track.created'' \<or> env_type env = ''track.updated''"
        | (al) "env_type env = ''album.created''" | (ar) "env_type env = ''artist.created''"
        | (other) "take 9 (env_type env) \<noteq> ''playlist.''" "env_type env \<noteq> ''track.created''" "env_type env \<noteq> ''track.updated''"
            "env_type env \<noteq> ''album.created''" "env_type env \<noteq> ''artist.created''"
        by blast
      then show ?thesis
      proof cases
        case pl
        then have ne: "env_type env \<noteq> ''track.created''" "env_type env \<noteq> ''track.updated''"
            "env_type env \<noteq> ''album.created''" "env_type env \<noteq> ''artist.created''" by auto
        show ?thesis
        proof (cases "\<exists>i. env_payload env = Some (OfPlaylist (Some i))")
          case True
          then obtain i where i: "env_payload env = Some (OfPlaylist (Some i))" by blast
          show ?thesis
          proof (cases "env_type env = ''playlist.deleted''")
            case True
            show ?thesis
              by (rule act [OF does_gone, of unclassified i "env_at env"])
                (use run Some pl i True ver in \<open>auto simp: handle_search_def handle_playlist_event_def wf\<close>)
          next
            case False
            show ?thesis
              by (rule act [OF does_playlist, of unclassified i "env_at env"])
                (use run Some pl i False ver in \<open>auto simp: handle_search_def handle_playlist_event_def wf\<close>)
          qed
        next
          case False
          then have "write_for (ext w) (rec_value rec) = None" using ne by (auto simp: wf split: option.splits search_payload.splits)
          moreover have "ext w1 = ext w" "err \<noteq> None"
            using run Some pl ver False by (auto simp: handle_search_def handle_playlist_event_def permanent_of_def split: option.splits search_payload.splits)
          ultimately show ?thesis by simp
        qed
      next
        case tr
        then have ne: "take 9 (env_type env) \<noteq> ''playlist.''" by auto
        show ?thesis
        proof (cases "\<exists>p t. env_payload env = Some (OfCatalog p) \<and> ix_track_of p = Some t")
          case True
          then obtain p t where t: "env_payload env = Some (OfCatalog p)" "ix_track_of p = Some t" by blast
          show ?thesis
            by (rule act [OF does_track, of classify t "env_at env"]) (use run Some tr ne t ver in \<open>auto simp: handle_search_def wf\<close>)
        next
          case False
          then have "write_for (ext w) (rec_value rec) = None" using tr ne by (auto simp: wf split: option.splits search_payload.splits)
          moreover have "ext w1 = ext w" "err \<noteq> None"
            using run Some tr ne ver False by (auto simp: handle_search_def permanent_of_def split: option.splits search_payload.splits)
          ultimately show ?thesis by simp
        qed
      next
        case al
        then have ne: "take 9 (env_type env) \<noteq> ''playlist.''" by auto
        show ?thesis
        proof (cases "\<exists>i ars title ty rel gs. env_payload env = Some (OfCatalog (PAlbum i ars title ty rel gs))")
          case True
          then obtain i ars title ty rel gs where t: "env_payload env = Some (OfCatalog (PAlbum i ars title ty rel gs))" by blast
          show ?thesis
            by (rule act [OF does_album, of classify "\<lparr>xa_id = i, xa_title = title, xa_type = ty, xa_release = rel, xa_artists = ars, xa_updated = 0\<rparr>" "env_at env"])
              (use run Some al ne t ver in \<open>auto simp: handle_search_def wf\<close>)
        next
          case False
          then have "write_for (ext w) (rec_value rec) = None" using al ne by (auto simp: wf split: option.splits search_payload.splits catalog_payload.splits)
          moreover have "ext w1 = ext w" "err \<noteq> None"
            using run Some al ne ver False by (auto simp: handle_search_def permanent_of_def split: option.splits search_payload.splits catalog_payload.splits)
          ultimately show ?thesis by simp
        qed
      next
        case ar
        then have ne: "take 9 (env_type env) \<noteq> ''playlist.''" by auto
        show ?thesis
        proof (cases "\<exists>i name. env_payload env = Some (OfCatalog (PArtist i name))")
          case True
          then obtain i name where t: "env_payload env = Some (OfCatalog (PArtist i name))" by blast
          show ?thesis
            by (rule act [OF does_artist, of classify i name "env_at env"])
              (use run Some ar ne t ver in \<open>auto simp: handle_search_def wf\<close>)
        next
          case False
          then have "write_for (ext w) (rec_value rec) = None" using ar ne by (auto simp: wf split: option.splits search_payload.splits catalog_payload.splits)
          moreover have "ext w1 = ext w" "err \<noteq> None"
            using run Some ar ne ver False by (auto simp: handle_search_def permanent_of_def split: option.splits search_payload.splits catalog_payload.splits)
          ultimately show ?thesis by simp
        qed
      next
        case other
        then have "write_for (ext w) (rec_value rec) = None" by (auto simp: wf split: option.splits search_payload.splits)
        moreover have "ext w1 = ext w" using run Some other ver by (simp add: handle_search_def)
        ultimately show ?thesis by simp
      qed
    qed
  qed
qed
section \<open>The newest write of a document stays\<close>

text \<open>\<open>settled_by v cur\<close>: the document is what \<open>v\<close> wrote, or older than \<open>v\<close>.\<close>

definition older_than :: "index_write \<Rightarrow> (int \<times> doc option) option \<Rightarrow> bool" where
  "older_than v cur \<longleftrightarrow> (case cur of None \<Rightarrow> True | Some (n, d) \<Rightarrow> n < wr_version v)"

definition written_by :: "index_write \<Rightarrow> (int \<times> doc option) option \<Rightarrow> bool" where
  "written_by v cur \<longleftrightarrow> cur = Some (wr_version v, wr_doc v)"

text \<open>A write that loses against \<open>v\<close> where they write the same document: an older version, or the same write.\<close>

definition yields_to :: "index_ext \<Rightarrow> index_write \<Rightarrow> index_write \<Rightarrow> bool" where
  "yields_to x v u \<longleftrightarrow> (resolve x (wr_index u), wr_id u) \<noteq> (resolve x (wr_index v), wr_id v) \<or>
     (0 < wr_version u \<and> (wr_version u < wr_version v \<or> (wr_version u = wr_version v \<and> wr_doc u = wr_doc v)))"

text \<open>What stays as it is while records are handled.\<close>

definition same_sources :: "index_ext \<Rightarrow> index_ext \<Rightarrow> bool" where
  "same_sources x x1 \<longleftrightarrow> x1 = x\<lparr>documents_in := documents_in x1\<rparr>"

lemma same_sources_refl [simp]: "same_sources x x"
  by (simp add: same_sources_def)

lemma same_sources_trans: "same_sources x y \<Longrightarrow> same_sources y z \<Longrightarrow> same_sources x z"
  unfolding same_sources_def by (metis index_ext.update_convs(1) index_ext.surjective)

lemma same_sources_item: "same_sources x (snd (bulk_item u x))"
  by (simp add: same_sources_def bulk_item_def Let_def case_prod_unfold)

lemma same_sourcesE:
  assumes "same_sources x x1"
  obtains ds where "x1 = x\<lparr>documents_in := ds\<rparr>"
  using assms unfolding same_sources_def by blast

lemma write_for_sources: "same_sources x x1 \<Longrightarrow> write_for x1 v = write_for x v"
proof (elim same_sourcesE)
  fix ds
  assume x1: "x1 = x\<lparr>documents_in := ds\<rparr>"
  have r: "artists_read x1 ids = artists_read x ids" "names_read x1 us = names_read x us" for ids us
    by (simp_all add: x1 artists_read_def names_read_def)
  have t: "track_write t at x1 = track_write t at x" for t at by (simp add: track_write_def r) (simp add: x1)
  have al: "album_write a at x1 = album_write a at x" for a at by (simp add: album_write_def r)
  have ar: "artist_write i n at x1 = artist_write i n at x" for i n at by (simp add: artist_write_def)
  have g: "playlist_gone i at x1 = playlist_gone i at x" for i at by (simp add: playlist_gone_def)
  have "playlist_of x1 = playlist_of x" by (simp add: x1)
  then have p: "playlist_write i at x1 = playlist_write i at x" for i at unfolding playlist_write_def g r by simp
  show ?thesis unfolding write_for_def t al ar g p ..
qed

lemma resolve_sources: "same_sources x x1 \<Longrightarrow> resolve x1 a = resolve x a"
  by (elim same_sourcesE) (simp add: resolve_def)

text \<open>The document of \<open>v\<close> before and after a write.\<close>

definition doc_at :: "index_ext \<Rightarrow> index_write \<Rightarrow> (int \<times> doc option) option" where
  "doc_at x v = documents_in x (resolve x (wr_index v)) (wr_id v)"

lemma doc_after_item:
  assumes "fits x u"
  shows "doc_at (snd (bulk_item u x)) v = (if (resolve x (wr_index u), wr_id u) = (resolve x (wr_index v), wr_id v)
    then snd (versioned_write u (doc_at x v)) else doc_at x v)"
  using assms resolve_sources [OF same_sources_item, of u x]
  by (auto simp: doc_at_def bulk_item_def Let_def case_prod_unfold)

lemma yields_step:
  assumes "yields_to x v u" "older_than v (doc_at x v) \<or> written_by v (doc_at x v)"
  shows "(older_than v (doc_at (snd (bulk_item u x)) v) \<or> written_by v (doc_at (snd (bulk_item u x)) v)) \<and>
    (written_by v (doc_at x v) \<longrightarrow> written_by v (doc_at (snd (bulk_item u x)) v))"
proof (cases "fits x u")
  case True
  then show ?thesis
    using assms unfolding doc_after_item [OF True] yields_to_def
    by (auto simp: versioned_write_def older_than_def written_by_def split: option.splits if_splits)
qed (use assms(2) in \<open>simp add: bulk_item_def\<close>)

lemma own_step:
  assumes "fits x v" "0 < wr_version v" "older_than v (doc_at x v) \<or> written_by v (doc_at x v)"
  shows "written_by v (doc_at (snd (bulk_item v x)) v)"
  using assms unfolding doc_after_item [OF assms(1)]
  by (auto simp: versioned_write_def older_than_def written_by_def split: option.splits)

definition handle_all :: "search_payload wire krecord list \<Rightarrow> index_world \<Rightarrow> index_world" where
  "handle_all rs w = fold (\<lambda>r w. snd (handle_search r w)) rs w"

lemma handle_one:
  "same_sources (ext w) (ext (snd (handle_search r w)))"
  using handle_search_effect [of r w "fst (handle_search r w)" "snd (handle_search r w)"] same_sources_item by auto

lemma handle_all_keeps:
  assumes "\<And>r u. r \<in> set rs \<Longrightarrow> write_for (ext w) (rec_value r) = Some u \<Longrightarrow> yields_to (ext w) v u"
    and "older_than v (doc_at (ext w) v) \<or> written_by v (doc_at (ext w) v)"
  shows "same_sources (ext w) (ext (handle_all rs w)) \<and>
    (older_than v (doc_at (ext (handle_all rs w)) v) \<or> written_by v (doc_at (ext (handle_all rs w)) v)) \<and>
    (written_by v (doc_at (ext w) v) \<longrightarrow> written_by v (doc_at (ext (handle_all rs w)) v))"
  using assms
proof (induction rs arbitrary: w)
  case (Cons r rs)
  let ?w = "snd (handle_search r w)"
  have ss: "same_sources (ext w) (ext ?w)" by (rule handle_one)
  have "ext ?w = ext w \<or> (\<exists>u. write_for (ext w) (rec_value r) = Some u \<and> ext ?w = snd (bulk_item u (ext w)))"
    using handle_search_effect [of r w "fst (handle_search r w)" ?w] by simp
  then have one: "(older_than v (doc_at (ext ?w) v) \<or> written_by v (doc_at (ext ?w) v)) \<and>
      (written_by v (doc_at (ext w) v) \<longrightarrow> written_by v (doc_at (ext ?w) v))"
    using yields_step Cons.prems by fastforce
  have "yields_to (ext ?w) v u" if "s \<in> set rs" "write_for (ext ?w) (rec_value s) = Some u" for s u
    using Cons.prems(1) [of s u] that write_for_sources [OF ss] resolve_sources [OF ss] by (simp add: yields_to_def)
  from Cons.IH [OF this] one same_sources_trans [OF ss] show ?case by (auto simp: handle_all_def)
qed (simp add: handle_all_def)

text \<open>C22: The index converges to the newest change: in whatever order and however often records
  of both topics are handled, with any calls lost, the document of a record that was handled
  successfully once ends as that record's write, if every other record about the document has
  an older version or writes the same.\<close>

theorem index_holds_newest:
  assumes handled: "fst (handle_search r (handle_all before w)) = None"
    and v: "write_for (ext w) (rec_value r) = Some v" "0 < wr_version v" "older_than v (doc_at (ext w) v)"
    and newest: "list_all (\<lambda>s. case write_for (ext w) (rec_value s) of None \<Rightarrow> True | Some u \<Rightarrow> yields_to (ext w) v u) (before @ after)"
  shows "doc_at (ext (handle_all (before @ r # after) w)) v = Some (wr_version v, wr_doc v)"
proof -
  let ?w = "handle_all before w"
  let ?w1 = "snd (handle_search r ?w)"
  have y: "yields_to (ext w) v u" if "s \<in> set (before @ after)" "write_for (ext w) (rec_value s) = Some u" for s u
  proof -
    have "case write_for (ext w) (rec_value s) of None \<Rightarrow> True | Some u \<Rightarrow> yields_to (ext w) v u"
      using newest that(1) unfolding list_all_iff by blast
    then show ?thesis using that(2) by simp
  qed
  have a: "same_sources (ext w) (ext ?w)" "older_than v (doc_at (ext ?w) v) \<or> written_by v (doc_at (ext ?w) v)"
    using handle_all_keeps [of before w v] y v(3) by auto
  have "write_for (ext ?w) (rec_value r) = Some v" using v(1) write_for_sources [OF a(1)] by simp
  then have "fits (ext ?w) v" "ext ?w1 = snd (bulk_item v (ext ?w))"
    using handle_search_effect [of r ?w None ?w1] handled by (simp_all add: prod_eq_iff)
  with own_step [OF _ v(2) a(2)] have b: "written_by v (doc_at (ext ?w1) v)" by simp
  have ss: "same_sources (ext w) (ext ?w1)" using same_sources_trans [OF a(1) handle_one] .
  have "yields_to (ext ?w1) v u" if "s \<in> set after" "write_for (ext ?w1) (rec_value s) = Some u" for s u
    using y [of s u] that write_for_sources [OF ss] resolve_sources [OF ss] by (simp add: yields_to_def)
  then have "written_by v (doc_at (ext (handle_all after ?w1)) v)"
    using handle_all_keeps [of after ?w1 v] b by blast
  then show ?thesis by (simp add: handle_all_def written_by_def)
qed

section \<open>An interrupted creation\<close>

text \<open>The index of the first version exists, but the alias does not: a run of \<open>Ensure\<close> was cut off.\<close>

definition left_over :: "string \<Rightarrow> index_ext \<Rightarrow> bool" where
  "left_over a x \<longleftrightarrow> aliases x a = [] \<and> versioned a 1 \<in> set (indices x)"

lemma left_over_swap: "b \<noteq> a \<Longrightarrow> left_over a x \<Longrightarrow> left_over a (x\<lparr>aliases := (aliases x)(b := js)\<rparr>)"
  by (simp add: left_over_def)

lemma ensure_keeps_left_over:
  assumes "left_over a (ext w)" "b \<noteq> a"
    and "bnd (alias_indices b) (\<lambda>cur. if cur \<noteq> [] then ret ()
          else bnd (create_index (versioned b 1)) (\<lambda>_. swap_alias b (versioned b 1) [])) w = (q, w1)"
  shows "left_over a (ext w1)"
  using assms
  by (auto simp: bnd_def alias_indices_def create_index_def swap_alias_def call_def ret_def left_over_def
      split: fate.splits if_splits sum.splits prod.splits)

text \<open>C24: \<open>Ensure\<close> is not idempotent as it says: when a run was cut off after an index was
  created and before its alias was added, every later run of \<open>migrate\<close> and \<open>reindex\<close> fails,
  even with no call lost, and the alias stays missing.\<close>

theorem interrupted_ensure_never_recovers:
  assumes "left_over a (ext w)" "a \<in> set Aliases"
  shows "(case ensure Aliases w of (q, w1) \<Rightarrow> left_over a (ext w1) \<and> (case q of Inl f \<Rightarrow> f = Infra | Inr u \<Rightarrow> False)) \<and>
    (case reindex fuel w of (q, w1) \<Rightarrow> left_over a (ext w1) \<and> (case q of Inl f \<Rightarrow> f = Infra | Inr u \<Rightarrow> False))"
proof -
  have main: "left_over a (ext (snd (ensure bs w))) \<and> fst (ensure bs w) = Inl Infra"
    if "left_over a (ext w)" "a \<in> set bs" for bs w
    using that
  proof (induction bs arbitrary: w)
    case (Cons b bs)
    obtain r w1 where r: "put_template b w = (r, w1)" by fastforce
    have w1: "ext w1 = ext w" "r = Inl Infra \<or> r = Inr ()"
      using r by (auto simp: put_template_def call_def split: fate.splits)
    let ?m = "bnd (alias_indices b) (\<lambda>cur. if cur \<noteq> [] then ret ()
          else bnd (create_index (versioned b 1)) (\<lambda>_. swap_alias b (versioned b 1) []))"
    obtain q w2 where q: "?m w1 = (q, w2)" by fastforce
    have inf: "q = Inl Infra \<or> q = Inr ()"
      using q by (auto simp: bnd_def alias_indices_def create_index_def swap_alias_def call_def ret_def
          split: fate.splits if_splits sum.splits prod.splits)
    have run: "ensure (b # bs) w = (if r = Inr () then (if q = Inr () then ensure bs w2 else (Inl Infra, w2)) else (Inl Infra, w1))"
    proof -
      have "bnd (alias_indices b) (\<lambda>cur. bnd (if cur \<noteq> [] then ret () else bnd (create_index (versioned b 1)) (\<lambda>_. swap_alias b (versioned b 1) []))
            (\<lambda>_. ensure bs)) w1 = bnd ?m (\<lambda>_. ensure bs) w1"
        by (auto simp: bnd_def split: prod.splits sum.splits)
      then show ?thesis using r w1(2) q inf by (auto simp: bnd_def)
    qed
    show ?case
    proof (cases "b = a")
      case True
      have "q = Inl Infra \<and> ext w2 = ext w1"
        using q True Cons.prems(1) w1(1)
        by (auto simp: bnd_def alias_indices_def create_index_def call_def ret_def left_over_def split: fate.splits if_splits sum.splits prod.splits)
      then show ?thesis using run Cons.prems(1) w1 by (auto split: if_splits)
    next
      case False
      have "left_over a (ext w2)" using ensure_keeps_left_over [OF _ False q] Cons.prems(1) w1(1) by simp
      moreover have "a \<in> set bs" using Cons.prems(2) False by simp
      ultimately show ?thesis using run Cons w1 by (auto split: if_splits)
    qed
  qed simp
  obtain q w1 where e: "ensure Aliases w = (q, w1)" by fastforce
  then have "left_over a (ext w1)" "q = Inl Infra" using main [OF assms] by simp_all
  then show ?thesis using e by (simp add: reindex_def bnd_def)
qed

definition sample_cluster :: index_world where
  "sample_cluster = \<lparr>tick = 0, fates = (\<lambda>n. if n = 3 then Dropped else Fine), clock = int, fresh = (\<lambda>_. None), db = (), outbox = [], next_row = 1,
     ext = \<lparr>documents_in = (\<lambda>_ _. None), indices = [], aliases = (\<lambda>_. []), fits = (\<lambda>_. True), album_of = (\<lambda>_. None), artist_of = (\<lambda>_. None),
       tracks_of_album = (\<lambda>_. None), album_pages = (\<lambda>_. Some ([], '''', False)), playlist_of = (\<lambda>_. None), playlist_listing = (\<lambda>_. Some ([], None)),
       user_names = (\<lambda>_. None)\<rparr>\<rparr>"

theorem interrupted_ensure_never_recovers_witness:
  "(case ensure Aliases (snd (ensure Aliases sample_cluster)) of (q, w1) \<Rightarrow>
      aliases (ext w1) AliasTracks = [] \<and> (case q of Inl f \<Rightarrow> f = Infra | Inr u \<Rightarrow> False))"
proof -
  have "left_over AliasTracks (ext (snd (ensure Aliases sample_cluster)))" by code_simp
  moreover have "AliasTracks \<in> set Aliases" by (simp add: Aliases_def)
  ultimately show ?thesis
    using interrupted_ensure_never_recovers [of AliasTracks "snd (ensure Aliases sample_cluster)"]
    by (auto simp: left_over_def split: prod.splits)
qed

section \<open>A reindex is seen whole or not at all\<close>

text \<open>What readers of an alias see.\<close>

definition visible :: "index_ext \<Rightarrow> string \<Rightarrow> (uuid \<Rightarrow> (int \<times> doc option) option) list" where
  "visible x a = map (documents_in x) (aliases x a)"

definition pointed :: "index_ext \<Rightarrow> string \<Rightarrow> bool" where
  "pointed x i \<longleftrightarrow> (\<exists>a. i \<in> set (aliases x a))"

definition cluster_ok :: "index_ext \<Rightarrow> bool" where
  "cluster_ok x \<longleftrightarrow> (\<forall>a. set (aliases x a) \<subseteq> set (indices x)) \<and>
     (\<forall>a b. a \<noteq> b \<longrightarrow> set (aliases x a) \<inter> set (aliases x b) = {}) \<and> (\<forall>i \<in> set (indices x). aliases x i = [])"

text \<open>The indices \<open>F\<close> are no reader's, and no alias has their names.\<close>

definition unseen :: "string set \<Rightarrow> index_ext \<Rightarrow> bool" where
  "unseen F x \<longleftrightarrow> (\<forall>i \<in> F. \<not> pointed x i \<and> aliases x i = [])"

definition hidden :: "string set \<Rightarrow> index_ext \<Rightarrow> index_ext \<Rightarrow> bool" where
  "hidden F x x1 \<longleftrightarrow> (cluster_ok x \<and> unseen F x \<longrightarrow> cluster_ok x1 \<and> aliases x1 = aliases x \<and>
     (\<forall>i. pointed x i \<longrightarrow> documents_in x1 i = documents_in x i))"

lemma hidden_refl: "reflp (hidden F)"
  by (simp add: reflp_def hidden_def)

lemma hidden_trans: "transp (hidden F)"
  unfolding transp_def hidden_def unseen_def pointed_def by metis

lemma hidden_visible: "hidden F x x1 \<Longrightarrow> cluster_ok x \<Longrightarrow> unseen F x \<Longrightarrow> visible x1 a = visible x a"
  unfolding hidden_def visible_def pointed_def by auto

lemmas hidden_rules = outside_bnd [OF hidden_trans] outside_ret [OF hidden_refl] outside_stop [OF hidden_refl]

lemma hidden_same: "(\<And>x y x1. f x = Inr (y, x1) \<Longrightarrow> x1 = x) \<Longrightarrow> outside (hidden F) (\<lambda>_. True) (call f)"
  by (rule outside_call [OF hidden_refl]) (metis hidden_refl reflpD)

lemma hidden_item:
  assumes "wr_index u \<in> F"
  shows "hidden F x (snd (bulk_item u x))"
proof -
  have "resolve x (wr_index u) = wr_index u" if "unseen F x"
    using that assms by (simp add: resolve_def unseen_def)
  then show ?thesis
    using assms by (auto simp: hidden_def unseen_def pointed_def cluster_ok_def bulk_item_def Let_def case_prod_unfold)
qed

lemma hidden_bulk: "(\<And>u. u \<in> set ws \<Longrightarrow> wr_index u \<in> F) \<Longrightarrow> hidden F x (snd (bulk ws x))"
proof (induction ws arbitrary: x)
  case (Cons u ws)
  have "hidden F x (snd (bulk_item u x))" by (rule hidden_item) (simp add: Cons.prems)
  moreover have "hidden F (snd (bulk_item u x)) (snd (bulk ws (snd (bulk_item u x))))" by (rule Cons.IH) (simp add: Cons.prems)
  ultimately show ?case using hidden_trans [THEN transpD] by (auto simp: case_prod_unfold)
qed (simp add: hidden_def)

definition only_to :: "string set \<Rightarrow> index_write list \<Rightarrow> bool" where
  "only_to F ws \<longleftrightarrow> wr_index ` set ws \<subseteq> F"

lemma hidden_apply: "only_to F ws \<Longrightarrow> outside (hidden F) (\<lambda>_. True) (apply_writes ws)"
proof -
  assume F: "only_to F ws"
  have "outside (hidden F) (\<lambda>_. True) (call (\<lambda>x. Inr (bulk ws x)) :: nat list index_act)"
  proof (rule outside_call [OF hidden_refl])
    fix x y x1
    assume "(Inr (bulk ws x) :: index_error failure + nat list \<times> index_ext) = Inr (y, x1)"
    then have "x1 = snd (bulk ws x)" by simp
    with F hidden_bulk [of ws F x] show "hidden F x x1 \<and> True" by (auto simp: only_to_def)
  qed
  then show ?thesis unfolding apply_writes_def by (auto intro!: hidden_rules)
qed

lemma hidden_add: "only_to F p \<Longrightarrow> wr_index u \<in> F \<Longrightarrow> outside (hidden F) (only_to F) (add_write u p)"
  unfolding add_write_def Let_def by (auto simp: only_to_def intro!: hidden_rules hidden_apply)

lemma hidden_adds: "only_to F p \<Longrightarrow> only_to F us \<Longrightarrow> outside (hidden F) (only_to F) (add_writes us p)"
proof (induction us arbitrary: p)
  case (Cons u us)
  then show ?case
    unfolding add_writes.simps by (intro outside_bnd [OF hidden_trans hidden_add]) (auto simp: only_to_def)
qed (auto intro: hidden_rules)

lemma hidden_each: "(\<And>a s. P s \<Longrightarrow> outside (hidden F) P (f a s)) \<Longrightarrow> P s \<Longrightarrow> outside (hidden F) P (fold_each f xs s)"
proof (induction xs arbitrary: s)
  case (Cons a xs)
  then show ?case unfolding fold_each.simps by (intro outside_bnd [OF hidden_trans, where P = P]) auto
qed (auto intro: hidden_rules)

definition when_ended :: "('s \<Rightarrow> bool) \<Rightarrow> 's option \<Rightarrow> bool" where
  "when_ended P r \<longleftrightarrow> (case r of None \<Rightarrow> True | Some s \<Rightarrow> P s)"

lemma hidden_ended:
  "P s \<Longrightarrow> outside (hidden F) (when_ended P) (ret (Some s))" "outside (hidden F) (when_ended P) (ret None)"
  by (auto intro: hidden_rules simp: when_ended_def)

lemma hidden_albums:
  assumes f: "\<And>a s. P s \<Longrightarrow> outside (hidden F) P (f a s)"
  shows "P s \<Longrightarrow> outside (hidden F) (when_ended P) (each_album n cur f s)"
proof (induction n arbitrary: cur s)
  case (Suc n)
  have page: "outside (hidden F) (\<lambda>_. True)
      (call (\<lambda>x. case album_pages x cur of None \<Rightarrow> Inl Infra | Some p \<Rightarrow> Inr (p, x)) :: (ix_album list \<times> string \<times> bool) index_act)"
    by (rule hidden_same) (auto split: option.splits)
  have go: "outside (hidden F) (when_ended P) (if \<not> more \<or> nxt = '''' then ret (Some s1) else each_album n nxt f s1)"
    if "P s1" for more nxt s1
    using that by (auto intro: hidden_ended Suc.IH)
  show ?case
    unfolding each_album.simps
  proof (rule outside_bnd [OF hidden_trans page])
    fix p :: "ix_album list \<times> string \<times> bool"
    obtain items nxt more where p: "p = (items, nxt, more)" by (cases p) auto
    show "outside (hidden F) (when_ended P) (case p of (items, nxt, more) \<Rightarrow> bnd (fold_each f items s)
        (\<lambda>s1. if \<not> more \<or> nxt = '''' then ret (Some s1) else each_album n nxt f s1))"
      unfolding p prod.case by (rule outside_bnd [OF hidden_trans hidden_each [where P = P, OF f Suc.prems]]) (assumption | rule go)+
  qed
qed (simp add: hidden_ended)

lemma hidden_playlists:
  assumes f: "\<And>a s. P s \<Longrightarrow> outside (hidden F) P (f a s)"
  shows "P s \<Longrightarrow> outside (hidden F) (when_ended P) (each_indexed_playlist n after f s)"
proof (induction n arbitrary: after s)
  case (Suc n)
  have page: "outside (hidden F) (\<lambda>_. True)
      (call (\<lambda>x. case playlist_listing x after of None \<Rightarrow> Inl Infra | Some p \<Rightarrow> Inr (p, x)) :: (ix_playlist list \<times> uuid option) index_act)"
    by (rule hidden_same) (auto split: option.splits)
  have go: "outside (hidden F) (when_ended P) (if items = [] \<or> nxt = None then ret (Some s1) else each_indexed_playlist n nxt f s1)"
    if "P s1" for items :: "ix_playlist list" and nxt s1
    using that by (auto intro: hidden_ended Suc.IH)
  show ?case
    unfolding each_indexed_playlist.simps
  proof (rule outside_bnd [OF hidden_trans page])
    fix p :: "ix_playlist list \<times> uuid option"
    obtain items nxt where p: "p = (items, nxt)" by (cases p) auto
    show "outside (hidden F) (when_ended P) (case p of (items, nxt) \<Rightarrow> bnd (fold_each f items s)
        (\<lambda>s1. if items = [] \<or> nxt = None then ret (Some s1) else each_indexed_playlist n nxt f s1))"
      unfolding p prod.case by (rule outside_bnd [OF hidden_trans hidden_each [where P = P, OF f Suc.prems]]) (assumption | rule go)+
  qed
qed (simp add: hidden_ended)

lemma hidden_read: "reads_ext g m \<Longrightarrow> outside (hidden F) (\<lambda>_. True) m"
  unfolding outside_def
proof (intro allI impI)
  fix w r w1
  assume "reads_ext g m" "m w = (r, w1)"
  then have "ext w1 = ext w" unfolding reads_ext_def by blast
  then show "hidden F (ext w) (ext w1) \<and> (case r of Inl e \<Rightarrow> True | Inr y \<Rightarrow> True)"
    by (simp add: hidden_def split: sum.splits)
qed

lemma hidden_album:
  assumes "target AliasAlbums \<in> F" "target AliasTracks \<in> F" "only_to F (rb_pending s)"
  shows "outside (hidden F) (\<lambda>s. only_to F (rb_pending s)) (rebuild_album target a s)"
  unfolding rebuild_album_def read_album_tracks_def Let_def
  by (intro outside_bnd [OF hidden_trans hidden_same] outside_bnd [OF hidden_trans hidden_read [OF reads_artists]]
      outside_bnd [OF hidden_trans hidden_adds] hidden_rules)
    (use assms in \<open>auto simp: only_to_def split: option.splits\<close>)

lemma hidden_artists:
  assumes "target AliasArtists \<in> F" "only_to F (rb_pending s)"
  shows "outside (hidden F) (\<lambda>s. only_to F (rb_pending s)) (rebuild_artists target c s)"
  unfolding rebuild_artists_def Let_def
  by (intro outside_bnd [OF hidden_trans hidden_read [OF reads_artists]] outside_bnd [OF hidden_trans hidden_adds] hidden_rules)
    (use assms in \<open>auto simp: only_to_def\<close>)

lemma hidden_playlist:
  assumes "i \<in> F" "only_to F (rb_pending (fst so))"
  shows "outside (hidden F) (\<lambda>so. only_to F (rb_pending (fst so))) (rebuild_playlist i p so)"
proof -
  obtain s owners where so: "so = (s, owners)" by fastforce
  have n: "outside (hidden F) (\<lambda>_. True) (if map_of owners (xp_owner p) \<noteq> None then ret owners
      else bnd (display_names [xp_owner p]) (\<lambda>ns. ret ((xp_owner p, case map_of ns (xp_owner p) of None \<Rightarrow> '''' | Some n \<Rightarrow> n) # owners)))"
    by (auto simp del: display_names.simps intro!: hidden_rules hidden_read [OF reads_names])
  show ?thesis
    unfolding rebuild_playlist_def so prod.case
    by (intro outside_bnd [OF hidden_trans n] outside_bnd [OF hidden_trans hidden_add] hidden_rules) (use assms so in auto)
qed

lemma hidden_rebuild:
  assumes "\<And>a. a \<in> set Aliases \<Longrightarrow> target a \<in> F"
  shows "outside (hidden F) (\<lambda>_. True) (rebuild fuel target)"
proof -
  have t: "target AliasAlbums \<in> F" "target AliasTracks \<in> F" "target AliasArtists \<in> F" "target AliasPlaylists \<in> F"
    by (simp_all add: assms Aliases_def)
  let ?P = "\<lambda>s. only_to F (rb_pending s)"
  have last: "outside (hidden F) (\<lambda>_. True) (case r of None \<Rightarrow> ret None | Some (s, _) \<Rightarrow> bnd (apply_writes (rb_pending s)) (\<lambda>_. ret (Some (rb_stats s))))"
    if "when_ended (\<lambda>so. ?P (fst so)) r" for r :: "(rebuild_state \<times> (uuid \<times> string) list) option"
    using that by (auto simp: when_ended_def split: option.splits prod.splits intro!: hidden_rules hidden_apply)
  have mid: "outside (hidden F) (\<lambda>_. True) (bnd (fold_each (rebuild_artists target) (chunks_of 100 (rb_artists s)) s) (\<lambda>s.
      bnd (each_indexed_playlist fuel None (rebuild_playlist (target AliasPlaylists)) (s, [])) (\<lambda>r. case r of
         None \<Rightarrow> ret None
       | Some (s, _) \<Rightarrow> bnd (apply_writes (rb_pending s)) (\<lambda>_. ret (Some (rb_stats s))))))" if "?P s" for s
    by (intro outside_bnd [OF hidden_trans hidden_each [where P = ?P]] outside_bnd [OF hidden_trans hidden_playlists [where P = "\<lambda>so. ?P (fst so)"]]
        hidden_artists hidden_playlist last) (use that t in auto)
  show ?thesis
    unfolding rebuild_def
  proof (rule outside_bnd [OF hidden_trans hidden_albums [where P = ?P]])
    fix r :: "rebuild_state option"
    assume "when_ended ?P r"
    then show "outside (hidden F) (\<lambda>_. True) (case r of None \<Rightarrow> ret None | Some s \<Rightarrow>
        bnd (fold_each (rebuild_artists target) (chunks_of 100 (rb_artists s)) s) (\<lambda>s.
        bnd (each_indexed_playlist fuel None (rebuild_playlist (target AliasPlaylists)) (s, [])) (\<lambda>r. case r of
           None \<Rightarrow> ret None
         | Some (s, _) \<Rightarrow> bnd (apply_writes (rb_pending s)) (\<lambda>_. ret (Some (rb_stats s))))))"
      by (cases r) (auto simp: when_ended_def intro!: hidden_rules mid)
  qed (use t hidden_album in \<open>auto simp: only_to_def\<close>)
qed
subsection \<open>The new generation\<close>

lemma hidden_nothing: "hidden {} x x1 \<Longrightarrow> cluster_ok x \<Longrightarrow> visible x1 a = visible x a"
  by (erule hidden_visible) (simp_all add: unseen_def)

lemma hidden_create: "hidden {} x (x\<lparr>indices := indices x @ [i], documents_in := (documents_in x)(i := \<lambda>_. None)\<rparr>)"
  if "i \<notin> set (indices x)" "aliases x i = []"
  using that by (auto simp: hidden_def cluster_ok_def pointed_def)

lemma create_index_facts:
  assumes "create_index i w = (r, w1)" "cluster_ok (ext w)"
  shows "hidden {} (ext w) (ext w1) \<and> set (indices (ext w)) \<subseteq> set (indices (ext w1)) \<and>
    (r = Inr () \<longrightarrow> i \<notin> set (indices (ext w)) \<and> i \<in> set (indices (ext w1)) \<and> unseen {i} (ext w1))"
proof -
  let ?x = "(ext w)\<lparr>indices := indices (ext w) @ [i], documents_in := (documents_in (ext w))(i := \<lambda>_. None)\<rparr>"
  consider (same) "ext w1 = ext w" "r \<noteq> Inr ()" | (made) "i \<notin> set (indices (ext w))" "aliases (ext w) i = []" "ext w1 = ?x"
    using assms(1) by (auto simp: create_index_def call_def split: fate.splits if_splits)
  then show ?thesis
  proof cases
    case same
    then show ?thesis by (simp add: hidden_def)
  next
    case made
    have "unseen {i} ?x" using made(1,2) assms(2) by (auto simp: unseen_def pointed_def cluster_ok_def)
    then show ?thesis using hidden_create [OF made(1,2)] made by auto
  qed
qed

text \<open>A generation for the aliases \<open>bs\<close>: per alias a fresh index, and those it points to.\<close>

definition generation :: "index_ext \<Rightarrow> string list \<Rightarrow> (string \<times> string \<times> string list) list \<Rightarrow> bool" where
  "generation x bs g \<longleftrightarrow> map fst g = bs \<and> unseen (fst ` snd ` set g) x \<and>
     distinct (map (\<lambda>e. fst (snd e)) g) \<and> (\<forall>(a, i, old) \<in> set g. old = aliases x a)"

lemma generation_facts:
  "new_generation bs w = (r, w1) \<Longrightarrow> cluster_ok (ext w) \<Longrightarrow>
     hidden {} (ext w) (ext w1) \<and> set (indices (ext w)) \<subseteq> set (indices (ext w1)) \<and>
     (case r of Inl f \<Rightarrow> True | Inr g \<Rightarrow> generation (ext w1) bs g \<and> fst ` snd ` set g \<inter> set (indices (ext w)) = {})"
proof (induction bs arbitrary: w r w1)
  case Nil
  then show ?case by (auto simp: ret_def hidden_def generation_def unseen_def)
next
  case (Cons b bs)
  obtain q w2 where q: "alias_indices b w = (q, w2)" by fastforce
  have al: "ext w2 = ext w" "\<And>cur. q = Inr cur \<Longrightarrow> cur = aliases (ext w) b"
    using q by (auto simp: alias_indices_def call_def split: fate.splits)
  show ?case
  proof (cases q)
    case (Inl f)
    then show ?thesis using Cons.prems q al by (auto simp: bnd_def hidden_def)
  next
    case (Inr cur)
    let ?i = "versioned b (next_version b cur)"
    obtain c w3 where c: "create_index ?i w2 = (c, w3)" by fastforce
    have cf: "hidden {} (ext w) (ext w3)" "set (indices (ext w)) \<subseteq> set (indices (ext w3))"
      "c = Inr () \<Longrightarrow> ?i \<notin> set (indices (ext w)) \<and> ?i \<in> set (indices (ext w3)) \<and> unseen {?i} (ext w3)"
      using create_index_facts [OF c] al Cons.prems(2) by auto
    have ok3: "cluster_ok (ext w3)" "aliases (ext w3) = aliases (ext w)"
      using cf(1) Cons.prems(2) by (simp_all add: hidden_def unseen_def)
    show ?thesis
    proof (cases c)
      case (Inl f)
      then show ?thesis using Cons.prems q Inr c cf by (auto simp: bnd_def Let_def)
    next
      case c': (Inr u)
      obtain s w4 where s: "new_generation bs w3 = (s, w4)" by fastforce
      note h = Cons.IH [OF s ok3(1)]
      have w1: "w4 = w1" "r = (case s of Inl f \<Rightarrow> Inl f | Inr g \<Rightarrow> Inr ((b, ?i, cur) # g))"
        using Cons.prems(1) q Inr c c' s by (auto simp: bnd_def Let_def ret_def split: sum.splits)
      have hid: "hidden {} (ext w) (ext w1)" using cf(1) h hidden_trans [THEN transpD] w1(1) by blast
      have al4: "aliases (ext w1) = aliases (ext w)" using hid Cons.prems(2) by (simp add: hidden_def unseen_def)
      show ?thesis
      proof (cases s)
        case (Inr g)
        have fresh: "fst ` snd ` set g \<inter> set (indices (ext w3)) = {}" using h Inr by simp
        have un: "unseen {?i} (ext w1)" using cf(3) c' al4 ok3(2) by (simp add: unseen_def pointed_def)
        have "generation (ext w1) (b # bs) ((b, ?i, cur) # g)"
          using h Inr un w1(1) cf(3) c' al al4 \<open>q = Inr cur\<close> fresh by (auto simp: generation_def unseen_def image_image)
        moreover have "?i \<notin> set (indices (ext w))" using cf(3) c' by simp
        moreover have "fst ` snd ` set g \<inter> set (indices (ext w)) = {}" using fresh cf(2) by blast
        ultimately show ?thesis using hid h cf(2) w1 Inr by auto
      qed (use hid h cf(2) w1 in auto)
    qed
  qed
qed

lemma ensure_present:
  "list_all (\<lambda>a. aliases (ext w) a \<noteq> []) bs \<Longrightarrow> ext (snd (ensure bs w)) = ext w"
proof (induction bs arbitrary: w)
  case (Cons b bs)
  obtain r w1 where r: "put_template b w = (r, w1)" by fastforce
  have w1: "ext w1 = ext w" using r by (auto simp: put_template_def call_def split: fate.splits)
  obtain q w2 where q: "alias_indices b w1 = (q, w2)" by fastforce
  have w2: "ext w2 = ext w" "\<And>cur. q = Inr cur \<Longrightarrow> cur \<noteq> []"
    using q w1 Cons.prems by (auto simp: alias_indices_def call_def split: fate.splits)
  show ?case
  proof (cases r)
    case (Inl f)
    then show ?thesis using r w1 by (simp add: bnd_def)
  next
    case r': (Inr u)
    show ?thesis
    proof (cases q)
      case (Inl f)
      then show ?thesis using r r' q w1 w2 by (simp add: bnd_def)
    next
      case (Inr cur)
      then have "ensure (b # bs) w = ensure bs w2"
        using r r' q w2(2) by (simp add: bnd_def ret_def)
      with Cons.IH [of w2] Cons.prems w2(1) show ?thesis by simp
    qed
  qed
qed (simp add: ret_def)
subsection \<open>The promotion\<close>

lemma swap_facts:
  assumes "swap_alias a i old w = (r, w1)" "cluster_ok (ext w)" "unseen {i} (ext w)" "set (aliases (ext w) a) \<subseteq> set old"
  shows "cluster_ok (ext w1) \<and> documents_in (ext w1) = documents_in (ext w) \<and> indices (ext w1) = indices (ext w) \<and>
    ((r \<noteq> Inr () \<and> aliases (ext w1) = aliases (ext w)) \<or> aliases (ext w1) = (aliases (ext w))(a := [i]))"
proof -
  have f: "filter (\<lambda>j. j \<noteq> i \<and> j \<notin> set old) (aliases (ext w) a) = []"
    using assms(4) by (auto simp: filter_empty_conv)
  let ?x = "(ext w)\<lparr>aliases := (aliases (ext w))(a := [i])\<rparr>"
  consider (same) "ext w1 = ext w" "r \<noteq> Inr ()" | (done1) "i \<in> set (indices (ext w))" "a \<notin> set (indices (ext w))" "ext w1 = ?x"
    using assms(1) by (auto simp: swap_alias_def call_def f split: fate.splits if_splits)
  then show ?thesis
  proof cases
    case same
    then show ?thesis using assms(2) by simp
  next
    case done1
    have "cluster_ok ?x"
      using assms(2,3) done1(1,2) by (auto simp: cluster_ok_def unseen_def pointed_def)
    then show ?thesis using done1(3) by simp
  qed
qed

lemma swaps_facts:
  assumes "each_do (\<lambda>(a, i, old). swap_alias a i old) g w = (r, w1)" "cluster_ok (ext w)"
    and "unseen (fst ` snd ` set g) (ext w)" "distinct (map fst g)" "distinct (map (\<lambda>e. fst (snd e)) g)"
    and "\<And>a i old. (a, i, old) \<in> set g \<Longrightarrow> set (aliases (ext w) a) \<subseteq> set old"
    and "\<forall>b \<in> fst ` set g. aliases (ext w) b \<noteq> []"
  shows "cluster_ok (ext w1) \<and> documents_in (ext w1) = documents_in (ext w) \<and> indices (ext w1) = indices (ext w) \<and>
    (\<forall>a. aliases (ext w1) a = aliases (ext w) a \<or> (\<exists>i old. (a, i, old) \<in> set g \<and> aliases (ext w1) a = [i])) \<and>
    (r = Inr () \<longrightarrow> (\<forall>(a, i, old) \<in> set g. aliases (ext w1) a = [i]))"
  using assms
proof (induction g arbitrary: w)
  case (Cons e g)
  obtain a i old where e: "e = (a, i, old)" by (cases e) auto
  obtain q w2 where q: "swap_alias a i old w = (q, w2)" by fastforce
  have s: "cluster_ok (ext w2)" "documents_in (ext w2) = documents_in (ext w)" "indices (ext w2) = indices (ext w)"
    "(q \<noteq> Inr () \<and> aliases (ext w2) = aliases (ext w)) \<or> aliases (ext w2) = (aliases (ext w))(a := [i])"
    using swap_facts [OF q Cons.prems(2)] Cons.prems(3) Cons.prems(6) [of a i old] e by (auto simp: unseen_def)
  show ?case
  proof (cases q)
    case (Inl f)
    then have w: "w1 = w2" "r \<noteq> Inr ()" using Cons.prems(1) e q by (auto simp: bnd_def)
    have "aliases (ext w2) b = aliases (ext w) b \<or> (\<exists>j old. (b, j, old) \<in> set (e # g) \<and> aliases (ext w2) b = [j])" for b
      using s(4) e by (cases "b = a") auto
    with w(2) s(1-3) show ?thesis unfolding w(1) by (simp del: list.set)
  next
    case (Inr u)
    then have al: "aliases (ext w2) = (aliases (ext w))(a := [i])" using s(4) by simp
    have run: "each_do (\<lambda>(a, i, old). swap_alias a i old) g w2 = (r, w1)"
      using Cons.prems(1) e q Inr by (simp add: bnd_def)
    have ni: "i \<notin> fst ` snd ` set g" "a \<notin> fst ` set g" using Cons.prems(4,5) e by (auto simp: image_image)
    have live: "\<forall>b \<in> fst ` set g. aliases (ext w2) b \<noteq> []" using Cons.prems(7) e al ni(2) by auto
    have "unseen (fst ` snd ` set g) (ext w2)"
      unfolding unseen_def
    proof
      fix j
      assume j: "j \<in> fst ` snd ` set g"
      then have "\<not> pointed (ext w) j" using Cons.prems(3) e by (auto simp: unseen_def)
      moreover have "j \<noteq> i" using j ni(1) by blast
      ultimately have "\<not> pointed (ext w2) j" by (simp add: pointed_def al)
      moreover have "aliases (ext w) j = []" "aliases (ext w) a \<noteq> []" using j Cons.prems(3,7) e by (auto simp: unseen_def)
      then have "aliases (ext w2) j = []" using al by auto
      ultimately show "\<not> pointed (ext w2) j \<and> aliases (ext w2) j = []" ..
    qed
    moreover have "set (aliases (ext w2) b) \<subseteq> set old'" if "(b, j, old') \<in> set g" for b j old'
      using that Cons.prems(6) [of b j old'] ni(2) al by (force simp: image_iff)
    ultimately have ih: "cluster_ok (ext w1) \<and> documents_in (ext w1) = documents_in (ext w2) \<and> indices (ext w1) = indices (ext w2) \<and>
      (\<forall>a. aliases (ext w1) a = aliases (ext w2) a \<or> (\<exists>i old. (a, i, old) \<in> set g \<and> aliases (ext w1) a = [i])) \<and>
      (r = Inr () \<longrightarrow> (\<forall>(a, i, old) \<in> set g. aliases (ext w1) a = [i]))"
      using Cons.IH [OF run s(1)] Cons.prems(4,5) live by auto
    have own: "aliases (ext w1) a = [i]"
      using ih ni(2) al by (metis fst_conv fun_upd_same image_eqI)
    have "aliases (ext w1) b = aliases (ext w) b \<or> (\<exists>j old'. (b, j, old') \<in> set (e # g) \<and> aliases (ext w1) b = [j])" for b
    proof (cases "b = a")
      case True
      then show ?thesis using own e by auto
    next
      case False
      then have "aliases (ext w2) b = aliases (ext w) b" using al by simp
      then show ?thesis using ih by (metis list.set_intros(2))
    qed
    moreover have "\<forall>(b, j, old') \<in> set (e # g). aliases (ext w1) b = [j]" if "r = Inr ()"
      using ih own e that by auto
    ultimately show ?thesis using ih s(2,3) by (simp del: list.set)
  qed
qed (simp add: ret_def)
lemma hidden_delete: "j \<in> F \<Longrightarrow> outside (hidden F) (\<lambda>_. True) (delete_index j)"
  unfolding delete_index_def
proof (rule outside_call [OF hidden_refl])
  fix x x1 :: index_ext and y
  assume j: "j \<in> F" and run: "(if j \<notin> set (indices x) then Inl Infra
     else Inr ((), x\<lparr>indices := remove1 j (indices x), documents_in := (documents_in x)(j := \<lambda>_. None),
       aliases := (\<lambda>a. removeAll j (aliases x a))\<rparr>)) = Inr (y, x1)"
  then have x1: "x1 = x\<lparr>indices := remove1 j (indices x), documents_in := (documents_in x)(j := \<lambda>_. None),
       aliases := (\<lambda>a. removeAll j (aliases x a))\<rparr>" by (simp split: if_splits)
  have "removeAll j (aliases x a) = aliases x a" if "unseen F x" for a
    using that j by (simp add: unseen_def pointed_def)
  moreover have "set (aliases x a) \<subseteq> set (remove1 j (indices x))" if "unseen F x" "cluster_ok x" for a
    using that j in_set_remove1 [of _ j "indices x"] unfolding unseen_def pointed_def cluster_ok_def by (metis subsetD subsetI)
  ultimately show "hidden F x x1 \<and> True"
    using j unfolding x1 by (auto simp: hidden_def cluster_ok_def unseen_def pointed_def dest: set_remove1_subset [THEN subsetD])
qed

lemma hidden_each_do: "(\<And>a. a \<in> set xs \<Longrightarrow> outside (hidden F) (\<lambda>_. True) (f a)) \<Longrightarrow> outside (hidden F) (\<lambda>_. True) (each_do f xs)"
proof (induction xs)
  case (Cons a xs)
  then show ?case unfolding each_do.simps by (intro outside_bnd [OF hidden_trans]) auto
qed (simp add: hidden_rules)

lemma promote_facts:
  assumes run: "promote g w = (r, w1)" and ok: "cluster_ok (ext w)" and gen: "generation (ext w) bs g" "distinct bs"
    and live: "list_all (\<lambda>b. aliases (ext w) b \<noteq> []) bs"
  shows "(visible (ext w1) a = visible (ext w) a \<or> (a \<in> set bs \<and> visible (ext w1) a = [documents_in (ext w) (new_index g a)])) \<and>
    (r = Inr () \<longrightarrow> a \<in> set bs \<longrightarrow> visible (ext w1) a = [documents_in (ext w) (new_index g a)])"
proof -
  let ?g = "by_alias g"
  have sg: "set ?g = set g" "distinct ?g = distinct g" by (simp_all add: by_alias_def)
  have dist: "distinct (map fst ?g)" "distinct (map (\<lambda>e. fst (snd e)) ?g)"
    using gen sg by (auto simp: generation_def distinct_map)
  have at: "new_index g b = i" if "(b, i, old) \<in> set g" for b i old
  proof -
    have "map_of g b = Some (i, old)" using that gen by (simp add: generation_def)
    then show ?thesis by (simp add: new_index_def)
  qed
  obtain q w2 where q: "each_do (\<lambda>(a, i, old). swap_alias a i old) ?g w = (q, w2)" by fastforce
  have un: "unseen (fst ` snd ` set ?g) (ext w)" using gen sg(1) by (simp add: generation_def)
  have olds: "old = aliases (ext w) b" if "(b, i, old) \<in> set g" for b i old using gen(1) that by (auto simp: generation_def)
  have "cluster_ok (ext w2) \<and> documents_in (ext w2) = documents_in (ext w) \<and> indices (ext w2) = indices (ext w) \<and>
    (\<forall>a. aliases (ext w2) a = aliases (ext w) a \<or> (\<exists>i old. (a, i, old) \<in> set ?g \<and> aliases (ext w2) a = [i])) \<and>
    (q = Inr () \<longrightarrow> (\<forall>(a, i, old) \<in> set ?g. aliases (ext w2) a = [i]))"
  proof (rule swaps_facts [OF q ok un dist])
    show "set (aliases (ext w) b) \<subseteq> set old" if "(b, i, old) \<in> set ?g" for b i old
      using olds [of b i old] that sg(1) by simp
    have "fst ` set ?g = set bs" using gen(1) sg(1) unfolding generation_def by (metis list.set_map)
    then show "\<forall>b \<in> fst ` set ?g. aliases (ext w) b \<noteq> []" using live by (simp add: list_all_iff)
  qed
  then have s: "cluster_ok (ext w2)" "documents_in (ext w2) = documents_in (ext w)" "indices (ext w2) = indices (ext w)"
    "\<And>a. aliases (ext w2) a = aliases (ext w) a \<or> (\<exists>i old. (a, i, old) \<in> set g \<and> aliases (ext w2) a = [i])"
    "\<And>a i old. q = Inr () \<Longrightarrow> (a, i, old) \<in> set g \<Longrightarrow> aliases (ext w2) a = [i]"
    using sg(1) by auto
  have mid: "visible (ext w2) a = visible (ext w) a \<or> (a \<in> set bs \<and> visible (ext w2) a = [documents_in (ext w) (new_index g a)])"
    "q = Inr () \<longrightarrow> a \<in> set bs \<longrightarrow> visible (ext w2) a = [documents_in (ext w) (new_index g a)]"
  proof -
    have bs: "set bs = fst ` set g" using gen(1) unfolding generation_def by (metis list.set_map)
    show "visible (ext w2) a = visible (ext w) a \<or> (a \<in> set bs \<and> visible (ext w2) a = [documents_in (ext w) (new_index g a)])"
    proof (cases "aliases (ext w2) a = aliases (ext w) a")
      case False
      then obtain i old where i: "(a, i, old) \<in> set g" "aliases (ext w2) a = [i]" using s(4) [of a] by blast
      then have "a \<in> set bs" using bs by (metis fst_conv image_eqI)
      then show ?thesis using i at by (simp add: visible_def s(2))
    qed (simp add: visible_def s(2))
    show "q = Inr () \<longrightarrow> a \<in> set bs \<longrightarrow> visible (ext w2) a = [documents_in (ext w) (new_index g a)]"
    proof (intro impI)
      assume "q = Inr ()" "a \<in> set bs"
      moreover from this(2) obtain i old where "(a, i, old) \<in> set g" using bs by auto
      ultimately show "visible (ext w2) a = [documents_in (ext w) (new_index g a)]"
        using s(5) at by (simp add: visible_def s(2))
    qed
  qed
  show ?thesis
  proof (cases q)
    case (Inl f)
    then have "w1 = w2" "r = Inl f" using run q by (auto simp: promote_def bnd_def)
    then show ?thesis using mid Inl by simp
  next
    case (Inr u)
    let ?F = "{j. \<exists>a i old. (a, i, old) \<in> set g \<and> j \<in> set old \<and> j \<noteq> i}"
    have "each_do (\<lambda>(a, i, old). each_do delete_index (filter (\<lambda>j. j \<noteq> i) old)) ?g w2 = (r, w1)"
      using run q Inr by (simp add: promote_def bnd_def)
    moreover have "outside (hidden ?F) (\<lambda>_. True) (each_do (\<lambda>(a, i, old). each_do delete_index (filter (\<lambda>j. j \<noteq> i) old)) ?g)"
    proof (rule hidden_each_do)
      fix e
      assume "e \<in> set ?g"
      moreover obtain b i old where e: "e = (b, i, old)" by (cases e) auto
      ultimately have "j \<in> ?F" if "j \<in> set (filter (\<lambda>j. j \<noteq> i) old)" for j
        using that sg(1) by auto
      then show "outside (hidden ?F) (\<lambda>_. True) (case e of (a, i, old) \<Rightarrow> each_do delete_index (filter (\<lambda>j. j \<noteq> i) old))"
        unfolding e prod.case by (intro hidden_each_do hidden_delete)
    qed
    ultimately have hid: "hidden ?F (ext w2) (ext w1)" by (rule outsideD(1) [rotated])
    have "unseen ?F (ext w2)"
      unfolding unseen_def
    proof
      fix j
      assume "j \<in> ?F"
      then obtain b i old where j: "(b, i, old) \<in> set g" "j \<in> set old" "j \<noteq> i" by blast
      then have jb: "j \<in> set (aliases (ext w) b)" using olds by blast
      then have "j \<in> set (indices (ext w2))" using ok s(3) by (auto simp: cluster_ok_def)
      then have e: "aliases (ext w2) j = []" using s(1) by (simp add: cluster_ok_def)
      have "\<not> pointed (ext w2) j"
      proof
        assume "pointed (ext w2) j"
        then obtain c where c: "j \<in> set (aliases (ext w2) c)" by (auto simp: pointed_def)
        show False
        proof (cases "\<exists>i' old'. (c, i', old') \<in> set g")
          case True
          then obtain i' old' where c': "(c, i', old') \<in> set g" by blast
          then have "j = i'" using s(5) [OF _ c'] Inr c by simp
          then have "\<not> pointed (ext w) j" using gen(1) c' by (force simp: generation_def unseen_def)
          then show False using jb by (auto simp: pointed_def)
        next
          case False
          then have "aliases (ext w2) c = aliases (ext w) c" using s(4) [of c] by blast
          moreover have "c \<noteq> b" using False j(1) by blast
          ultimately have "set (aliases (ext w) c) \<inter> set (aliases (ext w) b) = {}" using ok by (simp add: cluster_ok_def)
          then show False using c jb \<open>aliases (ext w2) c = aliases (ext w) c\<close> by auto
        qed
      qed
      with e show "\<not> pointed (ext w2) j \<and> aliases (ext w2) j = []" by simp
    qed
    from hidden_visible [OF hid s(1) this] mid Inr show ?thesis by simp
  qed
qed
lemma hidden_refreshes: "outside (hidden F) (\<lambda>_. True) (each_do (\<lambda>(a, i, old). refresh_index i) g)"
  by (rule hidden_each_do) (auto simp: refresh_index_def intro!: hidden_same split: if_splits)

lemma hidden_abandon: "fst ` snd ` set g \<subseteq> F \<Longrightarrow> outside (hidden F) (\<lambda>_. True) (abandon g)"
proof -
  assume F: "fst ` snd ` set g \<subseteq> F"
  have "outside (hidden F) (\<lambda>_. True) (bnd (attempt (delete_index i)) (\<lambda>_. ret ()))" if "i \<in> F" for i
    by (rule outside_bnd [OF hidden_trans outside_attempt [OF hidden_delete [OF that]]]) (simp add: hidden_rules)
  then show ?thesis using F unfolding abandon_def by (intro hidden_each_do) (force split: prod.splits)
qed

lemma Inr_caseD: "case Inr g of Inl f \<Rightarrow> True | Inr g \<Rightarrow> P g \<Longrightarrow> P g"
  by simp


section \<open>Witnesses\<close>

definition sample_event :: "int \<Rightarrow> string \<Rightarrow> search_payload wire krecord" where
  "sample_event ms t = \<lparr>rec_topic = ''playlist.events'', rec_partition = 0, rec_offset = ms, rec_key = 1,
     rec_value = Some \<lparr>env_id = 7, env_type = t, env_version = 1, env_at = ms * millisecond, env_producer = ''playlist-service'',
       env_payload = Some (OfPlaylist (Some 1))\<rparr>, rec_headers = []\<rparr>"

definition sample_deletion :: index_write where
  "sample_deletion = \<lparr>wr_index = AliasPlaylists, wr_id = 1, wr_version = 9, wr_doc = None\<rparr>"

text \<open>A deletion is handled between two older changes of the playlist; the first of them loses its write.\<close>

theorem index_holds_newest_witness:
  "doc_at (ext (handle_all ([sample_event 5 ''playlist.updated''] @ sample_event 9 ''playlist.deleted'' # [sample_event 7 ''playlist.updated''])
      sample_cluster)) sample_deletion = Some (wr_version sample_deletion, wr_doc sample_deletion)"
proof (rule index_holds_newest)
  show "fst (handle_search (sample_event 9 ''playlist.deleted'') (handle_all [sample_event 5 ''playlist.updated''] sample_cluster)) = None"
    by code_simp
  show "write_for (ext sample_cluster) (rec_value (sample_event 9 ''playlist.deleted'')) = Some sample_deletion"
    by code_simp
  show "0 < wr_version sample_deletion" by code_simp
  show "older_than sample_deletion (doc_at (ext sample_cluster) sample_deletion)" by code_simp
  show "list_all (\<lambda>s. case write_for (ext sample_cluster) (rec_value s) of None \<Rightarrow> True
      | Some u \<Rightarrow> yields_to (ext sample_cluster) sample_deletion u) ([sample_event 5 ''playlist.updated''] @ [sample_event 7 ''playlist.updated''])"
    by code_simp
qed

text \<open>A cluster with the four aliases and a catalog of one album.\<close>

definition sample_live :: index_world where
  "sample_live = sample_cluster\<lparr>fates := (\<lambda>_. Fine),
     ext := (ext sample_cluster)\<lparr>indices := map (\<lambda>a. versioned a 1) Aliases,
       aliases := (\<lambda>a. if a \<in> set Aliases then [versioned a 1] else []),
       artist_of := (\<lambda>i. Some \<lparr>xr_id = i, xr_name = ''Nina'', xr_updated = 5\<rparr>),
       tracks_of_album := (\<lambda>_. Some []),
       album_pages := (\<lambda>_. Some ([\<lparr>xa_id = 4, xa_title = ''Blue'', xa_type = ''ALBUM'', xa_release = 3, xa_artists = [8], xa_updated = 5 * millisecond\<rparr>], '''', False))\<rparr>\<rparr>"


section \<open>Versions in the names of indices\<close>

lemma atoi_digits_append: "atoi_digits n (xs @ ys) = (case atoi_digits n xs of None \<Rightarrow> None | Some m \<Rightarrow> atoi_digits m ys)"
  by (induction xs arbitrary: n) (auto split: option.splits)

lemma digit_value_digit: "d < 10 \<Longrightarrow> digit_value (char_of (48 + d)) = Some d"
  by (simp add: digit_value_def Let_def)

lemma atoi_of_digits: "atoi_digits 0 (digits n) = Some n"
proof (induction n rule: digits.induct)
  case (1 n)
  then show ?case by (subst digits.simps) (auto simp: atoi_digits_append digit_value_digit)
qed

lemma digits_no_sign: "digits n \<noteq> [] \<and> hd (digits n) \<notin> {CHR ''-'', CHR ''+''}"
proof -
  have "digits n \<noteq> []" by (subst digits.simps) simp
  moreover have "digit_value (hd (digits n)) \<noteq> None"
    using atoi_of_digits [of n] \<open>digits n \<noteq> []\<close> by (cases "digits n") (auto split: option.splits)
  moreover have "digit_value CHR ''-'' = None" "digit_value CHR ''+'' = None" by code_simp+
  ultimately show ?thesis by auto
qed

lemma atoi_itoa: "- (2 ^ 63) \<le> i \<Longrightarrow> i < 2 ^ 63 \<Longrightarrow> atoi (itoa i) = Some i"
  using digits_no_sign atoi_of_digits by (auto simp: atoi_def itoa_def Let_def)

lemma index_version_versioned: "- (2 ^ 63) \<le> n \<Longrightarrow> n < 2 ^ 63 \<Longrightarrow> index_version a (versioned a n) = n"
  by (simp add: index_version_def versioned_def atoi_itoa)

lemma next_version_above: "index_version a i < next_version a cur" if "i \<in> set cur"
proof -
  have ge: "m \<le> fold (\<lambda>i n. max n (index_version a i + 1)) cur m" for m and cur :: "string list"
    by (induction cur arbitrary: m) (auto intro: order_trans [OF max.cobounded1])
  have "index_version a i < fold (\<lambda>i n. max n (index_version a i + 1)) cur m" for m
    using that
  proof (induction cur arbitrary: m)
    case (Cons j cur)
    have "index_version a j < max m (index_version a j + 1)" by simp
    also have "\<dots> \<le> fold (\<lambda>i n. max n (index_version a i + 1)) cur (max m (index_version a j + 1))" by (rule ge)
    finally show ?case using Cons by auto
  qed simp
  then show ?thesis by (simp add: next_version_def)
qed

lemma next_version_bound:
  "list_all (\<lambda>i. index_version a i < b) cur \<Longrightarrow> 1 \<le> b \<Longrightarrow> 1 \<le> next_version a cur \<and> next_version a cur \<le> b"
proof -
  have "list_all (\<lambda>i. index_version a i < b) cur \<Longrightarrow> m \<le> b \<Longrightarrow>
      m \<le> fold (\<lambda>i n. max n (index_version a i + 1)) cur m \<and> fold (\<lambda>i n. max n (index_version a i + 1)) cur m \<le> b" for m
  proof (induction cur arbitrary: m)
    case (Cons j cur)
    then show ?case using Cons.IH [of "max m (index_version a j + 1)"] by simp
  qed simp
  then show "list_all (\<lambda>i. index_version a i < b) cur \<Longrightarrow> 1 \<le> b \<Longrightarrow> 1 \<le> next_version a cur \<and> next_version a cur \<le> b"
    by (simp add: next_version_def)
qed

text \<open>Versions survive the names of the indices: \<open>version\<close> reads back what \<open>Versioned\<close>
  wrote, so the index a new generation creates for an alias has a version above those of all
  indices the alias points to, and another name than any of them.\<close>

theorem index_versions_round_trip:
  assumes "list_all (\<lambda>n. - (2 ^ 63) \<le> n \<and> n < 2 ^ 63 - 1) ns" "cur = map (versioned a) ns"
  shows "map (index_version a) cur = ns \<and>
    index_version a (versioned a (next_version a cur)) = fold max (map (\<lambda>n. n + 1) ns) 1 \<and>
    versioned a (next_version a cur) \<notin> set cur"
proof -
  have rb: "index_version a (versioned a n) = n" if "n \<in> set ns" for n
    using assms(1) that by (auto simp: list_all_iff intro!: index_version_versioned)
  then have m: "map (index_version a) cur = ns" by (simp add: assms(2) map_idI)
  have "next_version a cur = fold (\<lambda>i n. max n (i + 1)) (map (index_version a) cur) 1"
    by (simp add: next_version_def fold_map comp_def)
  then have f: "next_version a cur = fold max (map (\<lambda>n. n + 1) ns) 1"
    by (simp add: m fold_map comp_def max_def cong: fold_cong) (rule arg_cong [where f = "\<lambda>f. fold f ns 1"], auto simp: fun_eq_iff)
  have "1 \<le> next_version a cur \<and> next_version a cur \<le> 2 ^ 63 - 1"
    using assms(1) rb by (intro next_version_bound) (auto simp: assms(2) list_all_iff)
  then have own: "index_version a (versioned a (next_version a cur)) = next_version a cur"
    by (intro index_version_versioned) simp_all
  have "versioned a (next_version a cur) \<notin> set cur"
    using next_version_above [of "versioned a (next_version a cur)" cur a] own by auto
  with m f own show ?thesis by simp
qed

theorem index_versions_round_trip_witness:
  "map (index_version AliasTracks) [''tracks-v9'', ''tracks-v10''] = [9, 10] \<and>
    index_version AliasTracks (versioned AliasTracks (next_version AliasTracks [''tracks-v9'', ''tracks-v10''])) = 11"
proof -
  have "list_all (\<lambda>n. - (2 ^ 63) \<le> n \<and> n < 2 ^ 63 - 1) [9, 10 :: int]" by simp
  moreover have "[''tracks-v9'', ''tracks-v10''] = map (versioned AliasTracks) [9, 10]" by code_simp
  ultimately show ?thesis using index_versions_round_trip [of "[9, 10]" _ AliasTracks] by simp
qed

end
