(* ===== verification/Scoring.thy ===== *)
theory Scoring
  imports GoFloat Prelude "HOL-Library.AList" "HOL-Library.Multiset" "HOL-Library.Product_Lexorder"
begin

text \<open>
  The scoring of the Recommendation Worker (\<^verbatim>\<open>workers/recommendation/internal/domain\<close>) in
  \<open>float64\<close> arithmetic, without fused multiply-add. Square root, logarithm and power are
  functions of the record \<open>go_math\<close>; Go visits the entries of a map in an arbitrary order,
  which the functions \<open>ids_order\<close> and \<open>names_order\<close> of the record give. Maps are lists of
  pairs without repeated keys.
\<close>

section \<open>Go's maps and mathematics\<close>

record go_math =
  sqrt_of :: "float64 \<Rightarrow> float64"
  log1p_of :: "float64 \<Rightarrow> float64"
  half_pow :: "float64 \<Rightarrow> float64"
  ids_order :: "uuid list \<Rightarrow> uuid list"
  names_order :: "string list \<Rightarrow> string list"

definition f_of :: "64 word \<Rightarrow> float64" where
  "f_of n = float64 (of_nat (unat n))"

definition entry :: "('k \<times> float64) list \<Rightarrow> 'k \<Rightarrow> float64" where
  "entry m k = (case map_of m k of None \<Rightarrow> 0 | Some v \<Rightarrow> v)"

text \<open>\<open>m[k] += w\<close>.\<close>

definition add_to :: "'k \<Rightarrow> float64 \<Rightarrow> ('k \<times> float64) list \<Rightarrow> ('k \<times> float64) list" where
  "add_to k w m = AList.update k (float_add (entry m k) w) m"

section \<open>Tracks and signals\<close>

record sound =
  so_version :: string
  so_vector :: "float64 list"

record rec_track =
  tk_id :: uuid
  tk_artists :: "uuid list"
  tk_album :: uuid
  tk_genres :: "uuid list"
  tk_released :: time
  tk_plays :: "64 word"
  tk_sound :: "sound option"

definition clamp01 :: "float64 \<Rightarrow> float64" where
  "clamp01 v = min 1 (max 0 v)"

definition new_sound :: "string \<Rightarrow> float64 option \<Rightarrow> float64 \<Rightarrow> float64 \<Rightarrow> float64 \<Rightarrow> sound" where
  "new_sound version bpm lufs lra silence = \<lparr>so_version = version, so_vector =
     [case bpm of None \<Rightarrow> 1 / 2 | Some b \<Rightarrow> clamp01 (float_div (float_sub b 60) 140),
      clamp01 (float_div (float_add lufs 70) 70), clamp01 (float_div lra 20), clamp01 silence]\<rparr>"

record interaction =
  in_plays :: "64 word"
  in_completions :: "64 word"
  in_skips :: "64 word"

record signals =
  si_history :: "(uuid \<times> interaction) list"
  si_tracks :: "uuid list"
  si_albums :: "uuid list"
  si_artists :: "uuid list"

definition signals_empty :: "signals \<Rightarrow> bool" where
  "signals_empty s \<longleftrightarrow> si_history s = [] \<and> si_tracks s = [] \<and> si_albums s = [] \<and> si_artists s = []"

record catalog =
  cl_tracks :: "rec_track list"
  cl_max_plays :: "64 word"
  cl_now :: time

definition new_catalog :: "rec_track list \<Rightarrow> time \<Rightarrow> catalog" where
  "new_catalog ts now = \<lparr>cl_tracks = ts, cl_max_plays = fold (\<lambda>t m. max m (tk_plays t)) ts 0, cl_now = now\<rparr>"

text \<open>\<open>byID\<close> has the last track of an identifier, \<open>byAlbum\<close> the tracks of an album in order.\<close>

definition by_id :: "catalog \<Rightarrow> uuid \<Rightarrow> rec_track option" where
  "by_id c i = find (\<lambda>t. tk_id t = i) (rev (cl_tracks c))"

definition by_album :: "catalog \<Rightarrow> uuid \<Rightarrow> rec_track list" where
  "by_album c a = filter (\<lambda>t. tk_album t = a) (cl_tracks c)"

section \<open>The profile of a user\<close>

text \<open>Sums of sound vectors by version of the analyzer, with their weight.\<close>

type_synonym sound_sums = "(string \<times> float64 list \<times> float64) list"

record profile =
  pf_artists :: "(uuid \<times> float64) list"
  pf_genres :: "(uuid \<times> float64) list"
  pf_max_artist :: float64
  pf_genre_norm :: float64
  pf_sound :: "sound option"
  pf_exclude :: "uuid list"
  pf_familiar :: "uuid list"

record taste_sums =
  ts_artists :: "(uuid \<times> float64) list"
  ts_genres :: "(uuid \<times> float64) list"
  ts_sounds :: sound_sums

definition sum_sound :: "float64 list \<Rightarrow> float64 \<Rightarrow> float64 list \<times> float64 \<Rightarrow> float64 list \<times> float64" where
  "sum_sound v w s = (map2 (\<lambda>x y. float_add x (float_mult y w)) (fst s) v, float_add (snd s) w)"

definition add_sound :: "sound \<Rightarrow> float64 \<Rightarrow> sound_sums \<Rightarrow> sound_sums" where
  "add_sound so w ss = AList.update (so_version so)
     (sum_sound (so_vector so) w (case map_of ss (so_version so) of None \<Rightarrow> ([0, 0, 0, 0], 0) | Some s \<Rightarrow> s)) ss"

definition add_taste :: "rec_track \<Rightarrow> float64 \<Rightarrow> taste_sums \<Rightarrow> taste_sums" where
  "add_taste t w s = \<lparr>ts_artists = fold (\<lambda>a. add_to a w) (tk_artists t) (ts_artists s),
     ts_genres = fold (\<lambda>g. add_to g w) (tk_genres t) (ts_genres s),
     ts_sounds = (case tk_sound t of None \<Rightarrow> ts_sounds s | Some so \<Rightarrow> if 0 < w then add_sound so w (ts_sounds s) else ts_sounds s)\<rparr>"

definition add_known :: "catalog \<Rightarrow> uuid \<Rightarrow> float64 \<Rightarrow> taste_sums \<Rightarrow> taste_sums" where
  "add_known c i w s = (case by_id c i of None \<Rightarrow> s | Some t \<Rightarrow> add_taste t w s)"

text \<open>What the interactions with one track weigh; the counts are unsigned and wrap.\<close>

definition history_weight :: "interaction \<Rightarrow> bool \<Rightarrow> float64" where
  "history_weight x liked = (let
     w = float_add (float_add (float_mult (f_of (in_completions x)) 1) (float_mult (f_of (in_skips x)) (- 1)))
       (float_mult (f_of (in_plays x - min (in_plays x) (in_completions x + in_skips x))) (1 / 4))
   in if liked then float_add w 3 else w)"

definition interaction_with :: "signals \<Rightarrow> uuid \<Rightarrow> interaction" where
  "interaction_with s i = (case map_of (si_history s) i of None \<Rightarrow> \<lparr>in_plays = 0, in_completions = 0, in_skips = 0\<rparr> | Some x \<Rightarrow> x)"

text \<open>The identifiers never to recommend, and those listened to the end.\<close>

definition excluded :: "catalog \<Rightarrow> signals \<Rightarrow> uuid list" where
  "excluded c s =
     filter (\<lambda>i. let x = interaction_with s i in i \<in> set (si_tracks s) \<or> in_completions x < in_skips x) (map fst (si_history s)) @
     si_tracks s @ concat (map (\<lambda>a. map tk_id (by_album c a)) (si_albums s))"

definition familiar :: "signals \<Rightarrow> uuid list" where
  "familiar s = filter (\<lambda>i. 0 < in_completions (interaction_with s i)) (map fst (si_history s))"

definition taste_of :: "go_math \<Rightarrow> catalog \<Rightarrow> signals \<Rightarrow> taste_sums" where
  "taste_of g c s =
     (let t0 = \<lparr>ts_artists = [], ts_genres = [], ts_sounds = []\<rparr>;
          t1 = fold (\<lambda>i. add_known c i (history_weight (interaction_with s i) (i \<in> set (si_tracks s)))) (ids_order g (map fst (si_history s))) t0;
          t2 = fold (\<lambda>i t. if i \<in> set (map fst (si_history s)) then t else add_known c i 3 t) (ids_order g (si_tracks s)) t1;
          t3 = fold (\<lambda>a t. case by_album c a of [] \<Rightarrow> t | x # xs \<Rightarrow> add_taste (x\<lparr>tk_sound := None\<rparr>) 2 t) (ids_order g (si_albums s)) t2
      in fold (\<lambda>a t. t\<lparr>ts_artists := add_to a 3 (ts_artists t)\<rparr>) (ids_order g (si_artists s)) t3)"

definition mean_sound :: "float64 list \<times> float64 \<Rightarrow> float64 list" where
  "mean_sound s = map (\<lambda>x. float_div x (snd s)) (fst s)"

text \<open>The heaviest version; of equal ones the first visited.\<close>

definition best_sound :: "go_math \<Rightarrow> sound_sums \<Rightarrow> sound option" where
  "best_sound g ss = (case fold (\<lambda>v b. case map_of ss v of None \<Rightarrow> b
       | Some s \<Rightarrow> (case b of None \<Rightarrow> Some (v, s) | Some (v', s') \<Rightarrow> if snd s' < snd s then Some (v, s) else b))
     (names_order g (map fst ss)) None of
       None \<Rightarrow> None
     | Some (v, s) \<Rightarrow> Some \<lparr>so_version = v, so_vector = mean_sound s\<rparr>)"

definition profile_of :: "go_math \<Rightarrow> catalog \<Rightarrow> signals \<Rightarrow> profile" where
  "profile_of g c s = (let t = taste_of g c s in
     \<lparr>pf_artists = ts_artists t, pf_genres = ts_genres t,
      pf_max_artist = fold (\<lambda>a m. max m (entry (ts_artists t) a)) (ids_order g (map fst (ts_artists t))) 0,
      pf_genre_norm = sqrt_of g (fold (\<lambda>a n. let v = entry (ts_genres t) a in if 0 < v then float_add n (float_mult v v) else n)
        (ids_order g (map fst (ts_genres t))) 0),
      pf_sound = best_sound g (ts_sounds t),
      pf_exclude = excluded c s, pf_familiar = familiar s\<rparr>)"

section \<open>The score of a track\<close>

definition WeightStyle :: float64 where "WeightStyle = float64 (35 / 100)"
definition WeightArtist :: float64 where "WeightArtist = float64 (30 / 100)"
definition WeightPopularity :: float64 where "WeightPopularity = float64 (20 / 100)"
definition WeightFreshness :: float64 where "WeightFreshness = float64 (15 / 100)"

record components =
  co_style :: float64
  co_artist :: float64
  co_popularity :: float64
  co_freshness :: float64

definition score_of :: "components \<Rightarrow> float64" where
  "score_of k = float_add (float_add (float_add (float_mult (co_style k) WeightStyle) (float_mult (co_artist k) WeightArtist))
     (float_mult (co_popularity k) WeightPopularity)) (float_mult (co_freshness k) WeightFreshness)"

definition reasons_of :: "components \<Rightarrow> string list" where
  "reasons_of k = map fst (filter (\<lambda>p. float64 (5 / 100) \<le> snd p) (take 2 (sort_key (\<lambda>p. - snd p)
     [(''style'', float_mult (co_style k) WeightStyle), (''artist'', float_mult (co_artist k) WeightArtist),
      (''popular'', float_mult (co_popularity k) WeightPopularity), (''fresh'', float_mult (co_freshness k) WeightFreshness)])))"

definition sound_similarity :: "go_math \<Rightarrow> float64 list \<Rightarrow> float64 list \<Rightarrow> float64" where
  "sound_similarity g a b = clamp01 (float_sub 1 (float_div (sqrt_of g
     (fold (\<lambda>(x, y) d. float_add d (float_mult (float_sub x y) (float_sub x y))) (zip a b) 0)) 2))"

definition popularity_of :: "go_math \<Rightarrow> catalog \<Rightarrow> rec_track \<Rightarrow> float64" where
  "popularity_of g c t = (if cl_max_plays c = 0 then 0
     else float_div (log1p_of g (f_of (tk_plays t))) (log1p_of g (f_of (cl_max_plays c))))"

text \<open>\<open>time.Sub\<close> stays within 64 bits; a duration is a whole number of nanoseconds.\<close>

definition time_sub :: "time \<Rightarrow> time \<Rightarrow> duration" where
  "time_sub t u = max (- (2 ^ 63)) (min (2 ^ 63 - 1) (t - u))"

definition freshness_half_life :: duration where
  "freshness_half_life = 90 * 24 * 3600 * second"

definition freshness_of :: "go_math \<Rightarrow> catalog \<Rightarrow> rec_track \<Rightarrow> float64" where
  "freshness_of g c t = (if tk_released t = 0 then 0
     else half_pow g (float_div (float64 (of_int (max (time_sub (cl_now c) (tk_released t)) 0))) (float64 (of_int freshness_half_life))))"

definition components_of :: "go_math \<Rightarrow> catalog \<Rightarrow> profile \<Rightarrow> rec_track \<Rightarrow> components" where
  "components_of g c p t =
     (let artist = (if 0 < pf_max_artist p
            then clamp01 (float_div (fold (\<lambda>a s. float_add s (max 0 (entry (pf_artists p) a))) (tk_artists t) 0) (pf_max_artist p)) else 0);
          genre = (if 0 < pf_genre_norm p \<and> tk_genres t \<noteq> []
            then clamp01 (float_div (fold (\<lambda>a s. float_add s (max 0 (entry (pf_genres p) a))) (tk_genres t) 0)
              (float_mult (pf_genre_norm p) (sqrt_of g (of_nat (length (tk_genres t)))))) else 0);
          style = (case (pf_sound p, tk_sound t) of
              (Some x, Some y) \<Rightarrow> if so_version x = so_version y
                then float_add (float_mult (float64 (7 / 10)) genre) (float_mult (float64 (3 / 10)) (sound_similarity g (so_vector x) (so_vector y)))
                else genre
            | _ \<Rightarrow> genre)
      in \<lparr>co_style = style, co_artist = artist, co_popularity = popularity_of g c t, co_freshness = freshness_of g c t\<rparr>)"

section \<open>Ranking\<close>

record scored =
  sd_id :: uuid
  sd_score :: float64
  sd_reasons :: "string list"

definition round4 :: "float64 \<Rightarrow> float64" where
  "round4 v = float_div (float_round (float_mult v 10000)) 10000"

text \<open>Best first, ties by identifier: the texts of identifiers order like their numbers.\<close>

definition top :: "scored list \<Rightarrow> nat \<Rightarrow> scored list" where
  "top xs n = take n (sort_key (\<lambda>x. (- sd_score x, sd_id x)) xs)"

definition score_track :: "go_math \<Rightarrow> catalog \<Rightarrow> profile \<Rightarrow> rec_track \<Rightarrow> scored" where
  "score_track g c p t = (let k = components_of g c p t; sc = score_of k in
     \<lparr>sd_id = tk_id t, sd_score = round4 (if tk_id t \<in> set (pf_familiar p) then float_mult sc (1 / 2) else sc), sd_reasons = reasons_of k\<rparr>)"

text \<open>An artist is as good as the first of its best tracks.\<close>

definition note_artist :: "scored \<Rightarrow> uuid \<Rightarrow> (uuid \<times> scored) list \<Rightarrow> (uuid \<times> scored) list" where
  "note_artist sc a best = (case map_of best a of
       Some b \<Rightarrow> if sd_score b < sd_score sc then AList.update a (sc\<lparr>sd_id := a\<rparr>) best else best
     | None \<Rightarrow> AList.update a (sc\<lparr>sd_id := a\<rparr>) best)"

definition note_artists :: "rec_track \<Rightarrow> scored \<Rightarrow> (uuid \<times> scored) list \<Rightarrow> (uuid \<times> scored) list" where
  "note_artists t sc = fold (note_artist sc) (tk_artists t)"

definition in_visits :: "('k list \<Rightarrow> 'k list) \<Rightarrow> ('k \<times> 'v) list \<Rightarrow> ('k \<times> 'v) list" where
  "in_visits f m = List.map_filter (\<lambda>k. map_option (Pair k) (map_of m k)) (f (map fst m))"

definition recommend :: "go_math \<Rightarrow> catalog \<Rightarrow> signals \<Rightarrow> nat \<Rightarrow> nat \<Rightarrow> scored list \<times> scored list" where
  "recommend g c s n_tracks n_artists =
     (let p = profile_of g c s;
          ts = filter (\<lambda>t. tk_id t \<notin> set (pf_exclude p)) (cl_tracks c);
          best = fold (\<lambda>t. note_artists t (score_track g c p t)) ts []
      in (top (map (score_track g c p) ts) n_tracks, top (map snd (in_visits (ids_order g) best)) n_artists))"

definition popular_track :: "go_math \<Rightarrow> catalog \<Rightarrow> rec_track \<Rightarrow> scored" where
  "popular_track g c t = (let po = popularity_of g c t; fr = freshness_of g c t in
     \<lparr>sd_id = tk_id t,
      sd_score = round4 (float_add (float_mult (float64 (7 / 10)) po) (float_mult (float64 (3 / 10)) fr)),
      sd_reasons = (if float_mult po (float64 (7 / 10)) < float_mult fr (float64 (3 / 10)) then [''fresh''] else [''popular''])\<rparr>)"

text \<open>\<open>plays[a] += t.Plays\<close>.\<close>

definition count_plays :: "rec_track \<Rightarrow> (uuid \<times> 64 word) list \<Rightarrow> (uuid \<times> 64 word) list" where
  "count_plays t = fold (\<lambda>a m. AList.update a ((case map_of m a of None \<Rightarrow> 0 | Some n \<Rightarrow> n) + tk_plays t) m) (tk_artists t)"

definition popular_artist :: "go_math \<Rightarrow> 64 word \<Rightarrow> uuid \<times> 64 word \<Rightarrow> scored" where
  "popular_artist g most p = \<lparr>sd_id = fst p,
     sd_score = round4 (if 0 < most then float_div (log1p_of g (f_of (snd p))) (log1p_of g (f_of most)) else 0), sd_reasons = [''popular'']\<rparr>"

definition popular :: "go_math \<Rightarrow> catalog \<Rightarrow> nat \<Rightarrow> nat \<Rightarrow> scored list \<times> scored list" where
  "popular g c n_tracks n_artists =
     (let plays = in_visits (ids_order g) (fold count_plays (cl_tracks c) []);
          most = fold (\<lambda>p m. max m (snd p)) plays 0
      in (top (map (popular_track g c) (cl_tracks c)) n_tracks, top (map (popular_artist g most) plays) n_artists))"

section \<open>Values between 0 and 1\<close>

definition unit_range :: "float64 \<Rightarrow> bool" where
  "unit_range x \<longleftrightarrow> 0 \<le> x \<and> x \<le> 1"

lemma float64_1 [simp]: "float64 1 = 1"
  using float64_of_int [of 1] by simp

lemma unit_range_0 [simp]: "unit_range 0"
  by (simp add: unit_range_def)

lemma unit_float: "0 \<le> x \<Longrightarrow> x \<le> 1 \<Longrightarrow> unit_range (float64 x)"
  using float64_mono [of x 1] float64_nonneg [of x] by (simp add: unit_range_def)

lemma unit_clamp [simp]: "unit_range (clamp01 v)"
  by (auto simp: clamp01_def unit_range_def)

lemma mult_upto: "0 \<le> x \<Longrightarrow> x \<le> a \<Longrightarrow> 0 \<le> w \<Longrightarrow> 0 \<le> float_mult x w \<and> float_mult x w \<le> float_mult a w"
  unfolding float_mult_def by (intro conjI float64_nonneg float64_mono mult_right_mono mult_nonneg_nonneg) simp_all

lemma add_upto: "0 \<le> x \<Longrightarrow> x \<le> a \<Longrightarrow> 0 \<le> y \<Longrightarrow> y \<le> b \<Longrightarrow> 0 \<le> float_add x y \<and> float_add x y \<le> float_add a b"
  unfolding float_add_def by (intro conjI float64_nonneg float64_mono add_mono) simp_all

lemma div_unit: "0 \<le> x \<Longrightarrow> x \<le> y \<Longrightarrow> unit_range (float_div x y)"
  unfolding float_div_def by (rule unit_float) (auto simp: divide_le_eq_1)

text \<open>The weights add up to less than 1 in floating point, too.\<close>

lemma weight_values:
  "WeightStyle = 6305039478318694 / 2 ^ 54" "WeightArtist = 5404319552844595 / 2 ^ 54"
  "WeightPopularity = 7205759403792794 / 2 ^ 55" "WeightFreshness = 5404319552844595 / 2 ^ 55"
  using float64_near [of "35 / 100" "35 / 100 * 2 ^ 54" 54 6305039478318694] float64_near [of "30 / 100" "30 / 100 * 2 ^ 54" 54 5404319552844595]
    float64_near [of "20 / 100" "20 / 100 * 2 ^ 55" 55 7205759403792794] float64_near [of "15 / 100" "15 / 100 * 2 ^ 55" 55 5404319552844595]
  by (simp_all add: WeightStyle_def WeightArtist_def WeightPopularity_def WeightFreshness_def)

lemma float64_dyadic: "\<bar>k\<bar> < 2 ^ 53 \<Longrightarrow> n \<le> 1074 \<Longrightarrow> float64 (of_int k / 2 ^ n) = of_int k / 2 ^ n"
  using float64_exact [of k "- int n"] by (simp add: power_int_minus divide_inverse)

lemma mult_1_weight: "float_mult 1 WeightStyle = WeightStyle" "float_mult 1 WeightArtist = WeightArtist"
  "float_mult 1 WeightPopularity = WeightPopularity" "float_mult 1 WeightFreshness = WeightFreshness"
  using float64_dyadic [of 6305039478318694 54] float64_dyadic [of 5404319552844595 54]
    float64_dyadic [of 7205759403792794 55] float64_dyadic [of 5404319552844595 55]
  by (simp_all add: float_mult_def weight_values)

lemma weights_sum: "float_add (float_add (float_add WeightStyle WeightArtist) WeightPopularity) WeightFreshness = 9007199254740991 / 2 ^ 53"
proof -
  have "float_add WeightStyle WeightArtist = 5854679515581644 / 2 ^ 53"
    using float64_near [of "11709359031163289 / 2 ^ 54" "11709359031163289 / 2" 53 5854679515581644]
    by (simp add: float_add_def weight_values)
  moreover have "float_add (5854679515581644 / 2 ^ 53) WeightPopularity = 7656119366529842 / 2 ^ 53"
    using float64_near [of "15312238733059685 / 2 ^ 54" "15312238733059685 / 2" 53 7656119366529842]
    by (simp add: float_add_def weight_values)
  moreover have "float_add (7656119366529842 / 2 ^ 53) WeightFreshness = 9007199254740991 / 2 ^ 53"
    using float64_near [of "36028797018963963 / 2 ^ 55" "36028797018963963 / 4" 53 9007199254740991]
    by (simp add: float_add_def weight_values)
  ultimately show ?thesis by (simp only:)
qed

lemma weights_nonneg: "0 \<le> WeightStyle" "0 \<le> WeightArtist" "0 \<le> WeightPopularity" "0 \<le> WeightFreshness"
  by (simp_all add: WeightStyle_def WeightArtist_def WeightPopularity_def WeightFreshness_def float64_nonneg)

lemma mix_values: "float64 (7 / 10) = 6305039478318694 / 2 ^ 53" "float64 (3 / 10) = 5404319552844595 / 2 ^ 54"
  using float64_near [of "7 / 10" "7 / 10 * 2 ^ 53" 53 6305039478318694] float64_near [of "3 / 10" "3 / 10 * 2 ^ 54" 54 5404319552844595]
  by simp_all

lemma mix_sum: "float_add (float64 (7 / 10)) (float64 (3 / 10)) = 1"
  using float64_near [of "18014398509481983 / 2 ^ 54" "18014398509481983 / 2" 53 9007199254740992]
  by (simp add: float_add_def mix_values)

lemma mult_by_1: "float_mult w 1 = float64 w" "float_mult 1 w = float64 w"
  by (simp_all add: float_mult_def)

lemma float64_twice_mix: "float64 (float64 (7 / 10)) = float64 (7 / 10)" "float64 (float64 (3 / 10)) = float64 (3 / 10)"
  using float64_dyadic [of 6305039478318694 53] float64_dyadic [of 5404319552844595 54] by (simp_all add: mix_values)

lemma unit_mix:
  assumes "unit_range x" "unit_range y"
  shows "unit_range (float_add (float_mult (float64 (7 / 10)) x) (float_mult (float64 (3 / 10)) y))"
proof -
  have c: "float_mult (float64 (7 / 10)) x = float_mult x (float64 (7 / 10))" "float_mult (float64 (3 / 10)) y = float_mult y (float64 (3 / 10))"
    by (simp_all add: float_mult_def mult.commute)
  have m: "0 \<le> float_mult x (float64 (7 / 10)) \<and> float_mult x (float64 (7 / 10)) \<le> float_mult 1 (float64 (7 / 10))"
    "0 \<le> float_mult y (float64 (3 / 10)) \<and> float_mult y (float64 (3 / 10)) \<le> float_mult 1 (float64 (3 / 10))"
    using assms mult_upto [of x 1 "float64 (7 / 10)"] mult_upto [of y 1 "float64 (3 / 10)"]
    by (simp_all add: unit_range_def float64_nonneg)
  note a = add_upto [OF conjunct1 [OF m(1)] conjunct2 [OF m(1)] conjunct1 [OF m(2)] conjunct2 [OF m(2)]]
  show ?thesis using a unfolding c unit_range_def mult_by_1 float64_twice_mix mix_sum .
qed

lemma unit_score:
  assumes "unit_range (co_style k)" "unit_range (co_artist k)" "unit_range (co_popularity k)" "unit_range (co_freshness k)"
  shows "unit_range (score_of k)"
proof -
  have m: "0 \<le> float_mult x w \<and> float_mult x w \<le> float_mult 1 w" if "unit_range x" "0 \<le> w" for x w
    using that by (intro mult_upto) (simp_all add: unit_range_def)
  note s = m [OF assms(1) weights_nonneg(1)] m [OF assms(2) weights_nonneg(2)] m [OF assms(3) weights_nonneg(3)] m [OF assms(4) weights_nonneg(4)]
  note s1 = add_upto [OF conjunct1 [OF s(1)] conjunct2 [OF s(1)] conjunct1 [OF s(2)] conjunct2 [OF s(2)]]
  note s2 = add_upto [OF conjunct1 [OF s1] conjunct2 [OF s1] conjunct1 [OF s(3)] conjunct2 [OF s(3)]]
  note s3 = add_upto [OF conjunct1 [OF s2] conjunct2 [OF s2] conjunct1 [OF s(4)] conjunct2 [OF s(4)]]
  have "9007199254740991 / 2 ^ 53 \<le> (1 :: float64)" by simp
  then show ?thesis using s3 unfolding mult_1_weight weights_sum score_of_def unit_range_def by linarith
qed

lemma unit_round4:
  assumes "unit_range v"
  shows "unit_range (round4 v)"
proof -
  have "0 \<le> float_mult v 10000 \<and> float_mult v 10000 \<le> float_mult 1 10000"
    using assms by (intro mult_upto) (simp_all add: unit_range_def)
  moreover have "float_mult 1 10000 = 10000" using float64_of_int [of 10000] by (simp add: float_mult_def)
  ultimately have m: "0 \<le> float_mult v 10000" "float_mult v 10000 \<le> 10000" by simp_all
  then have "\<lfloor>float_mult v 10000 + 1 / 2\<rfloor> \<le> 10000" by (simp add: floor_le_iff)
  then have "float_round (float_mult v 10000) \<le> 10000" "0 \<le> float_round (float_mult v 10000)"
    using m by (simp_all add: float_round_def floor_le_iff)
  then show ?thesis unfolding round4_def by (intro div_unit)
qed
section \<open>Scores are between 0 and 1\<close>

text \<open>What the code relies on of Go's mathematical functions and of the visits of a map.\<close>

definition math_ok :: "go_math \<Rightarrow> bool" where
  "math_ok g \<longleftrightarrow> (\<forall>x y. 0 \<le> x \<longrightarrow> x \<le> y \<longrightarrow> 0 \<le> log1p_of g x \<and> log1p_of g x \<le> log1p_of g y) \<and>
     (\<forall>x. 0 \<le> x \<longrightarrow> unit_range (half_pow g x)) \<and> (\<forall>xs. mset (ids_order g xs) = mset xs) \<and> (\<forall>xs. mset (names_order g xs) = mset xs)"

lemma f_of_mono: "n \<le> m \<Longrightarrow> f_of n \<le> f_of m"
  unfolding f_of_def by (intro float64_mono) (simp_all only: word_le_nat_alt of_nat_le_iff of_nat_0_le_iff)

lemma f_of_nonneg [simp]: "0 \<le> f_of n"
  unfolding f_of_def by (rule float64_nonneg) (rule of_nat_0_le_iff)

lemma unit_log_ratio:
  assumes "math_ok g" "n \<le> m"
  shows "unit_range (float_div (log1p_of g (f_of n)) (log1p_of g (f_of m)))"
  using assms f_of_mono [of n m] unfolding math_ok_def by (intro div_unit) (metis f_of_nonneg)+

lemma fold_max_ge: "m \<le> fold (\<lambda>t m. max m (f t)) ts m \<and> (\<forall>t\<in>set ts. f t \<le> fold (\<lambda>t m. max m (f t)) ts (m :: 'a :: linorder))"
  by (induction ts arbitrary: m) (auto simp: max.coboundedI1 intro: order_trans [OF max.cobounded1] order_trans [OF max.cobounded2])

lemma plays_le_max: "t \<in> set ts \<Longrightarrow> tk_plays t \<le> cl_max_plays (new_catalog ts now)"
  using fold_max_ge [of 0 tk_plays ts] by (simp add: new_catalog_def)

lemma new_catalog_tracks [simp]: "cl_tracks (new_catalog ts now) = ts"
  by (simp add: new_catalog_def)

lemma unit_popularity: "math_ok g \<Longrightarrow> t \<in> set ts \<Longrightarrow> unit_range (popularity_of g (new_catalog ts now) t)"
  using plays_le_max [of t ts now] by (simp add: popularity_of_def unit_log_ratio)

lemma unit_freshness: "math_ok g \<Longrightarrow> unit_range (freshness_of g c t)"
proof -
  have "0 \<le> float_div (float64 (of_int (max (time_sub (cl_now c) (tk_released t)) 0))) (float64 (of_int freshness_half_life))"
    unfolding float_div_def by (intro float64_nonneg divide_nonneg_nonneg) (simp_all add: freshness_half_life_def)
  then show "math_ok g \<Longrightarrow> unit_range (freshness_of g c t)" by (simp add: freshness_of_def math_ok_def)
qed

lemma unit_components:
  assumes "math_ok g" "t \<in> set ts"
  shows "unit_range (co_style (components_of g (new_catalog ts now) p t))" "unit_range (co_artist (components_of g (new_catalog ts now) p t))"
    "unit_range (co_popularity (components_of g (new_catalog ts now) p t))" "unit_range (co_freshness (components_of g (new_catalog ts now) p t))"
  using unit_popularity [OF assms, of now] unit_freshness [OF assms(1)]
  by (simp_all add: components_of_def Let_def unit_mix sound_similarity_def split: option.split)

lemma unit_half: "unit_range x \<Longrightarrow> unit_range (float_mult x (1 / 2))"
  unfolding float_mult_def unit_range_def [of x] by (rule unit_float) simp_all

lemma unit_track:
  assumes "math_ok g" "t \<in> set ts"
  shows "unit_range (sd_score (score_track g (new_catalog ts now) p t))"
  using unit_score [OF unit_components [OF assms], of now p] by (simp add: score_track_def Let_def unit_round4 unit_half)

section \<open>Reasons\<close>

definition Reasons :: "string list" where
  "Reasons = [''style'', ''artist'', ''popular'', ''fresh'']"

definition reasons_ok :: "string list \<Rightarrow> bool" where
  "reasons_ok rs \<longleftrightarrow> length rs \<le> 2 \<and> distinct rs \<and> set rs \<subseteq> set Reasons"

lemma distinct_names: "distinct (map fst xs) \<Longrightarrow> distinct (map fst (filter P (take n (sort_key f xs))))"
proof -
  assume "distinct (map fst xs)"
  then have "distinct (map fst (sort_key f xs))" using mset_eq_imp_distinct_iff [of "map fst (sort_key f xs)" "map fst xs"] by simp
  then show ?thesis by (simp add: take_map [symmetric] distinct_map_filter)
qed

lemma reasons_of_ok: "reasons_ok (reasons_of k)"
  unfolding reasons_ok_def
proof (intro conjI)
  show "length (reasons_of k) \<le> 2" unfolding reasons_of_def by (simp add: le_trans [OF length_filter_le])
  show "distinct (reasons_of k)" unfolding reasons_of_def by (rule distinct_names) simp
  show "set (reasons_of k) \<subseteq> set Reasons" unfolding reasons_of_def Reasons_def by (auto dest!: in_set_takeD)
qed
section \<open>Ranked lists\<close>

definition ranks_before :: "scored \<Rightarrow> scored \<Rightarrow> bool" where
  "ranks_before x y \<longleftrightarrow> sd_score y < sd_score x \<or> sd_score x = sd_score y \<and> sd_id x \<le> sd_id y"

text \<open>A list as it may be published: at most \<open>n\<close> entries, no identifier twice, best first.\<close>

definition ranked :: "nat \<Rightarrow> scored list \<Rightarrow> bool" where
  "ranked n xs \<longleftrightarrow> length xs \<le> n \<and> distinct (map sd_id xs) \<and> sorted_wrt ranks_before xs"

definition scored_ok :: "scored \<Rightarrow> bool" where
  "scored_ok x \<longleftrightarrow> unit_range (sd_score x) \<and> reasons_ok (sd_reasons x)"

abbreviation rank_key :: "scored \<Rightarrow> float64 \<times> uuid" where
  "rank_key x \<equiv> (- sd_score x, sd_id x)"

lemma ranks_before_key: "ranks_before x y \<longleftrightarrow> rank_key x \<le> rank_key y"
  by (auto simp: ranks_before_def)

lemma sorted_ranks: "sorted_wrt ranks_before (sort_key rank_key xs)"
proof -
  have "sorted (map rank_key (sort_key rank_key xs))" by simp
  then show ?thesis unfolding sorted_wrt_map ranks_before_key .
qed

lemma set_top: "set (top xs n) \<subseteq> set xs"
  by (auto simp: top_def dest: in_set_takeD)

lemma top_ranked: "distinct (map sd_id xs) \<Longrightarrow> ranked n (top xs n)"
proof -
  assume "distinct (map sd_id xs)"
  then have "distinct (map sd_id (sort_key rank_key xs))"
    using mset_eq_imp_distinct_iff [of "map sd_id (sort_key rank_key xs)" "map sd_id xs"] by simp
  then show ?thesis unfolding ranked_def top_def
    by (simp add: take_map [symmetric] sorted_wrt_take [OF sorted_ranks])
qed

text \<open>What the cut leaves out ranks after all that it keeps.\<close>

lemma top_keeps_best:
  assumes "x \<in> set xs" "x \<notin> set (top xs n)"
  shows "length (top xs n) = n \<and> (\<forall>y\<in>set (top xs n). ranks_before y x)"
proof -
  let ?s = "sort_key rank_key xs"
  have "x \<in> set (take n ?s @ drop n ?s)" using assms(1) unfolding append_take_drop_id by simp
  then have x: "x \<in> set (drop n ?s)" using assms(2) unfolding top_def set_append by blast
  then have "n \<le> length ?s" by (cases "n \<le> length ?s") simp_all
  moreover have "sorted_wrt ranks_before (take n ?s @ drop n ?s)" unfolding append_take_drop_id by (rule sorted_ranks)
  then have "\<forall>y\<in>set (take n ?s). ranks_before y x" using x unfolding sorted_wrt_append by blast
  ultimately show ?thesis unfolding top_def by simp
qed

section \<open>Maps in Go's order\<close>

lemma in_visits_map:
  assumes "mset (f (map fst m)) = mset (map fst m)"
  shows "in_visits f m = map (\<lambda>k. (k, the (map_of m k))) (f (map fst m))"
proof -
  have "set (f (map fst m)) = set (map fst m)" using assms by (rule mset_eq_setD)
  then have "k \<in> set (f (map fst m)) \<Longrightarrow> \<exists>v. map_of m k = Some v" for k by (metis map_of_eq_None_iff not_None_eq set_map)
  then have "k \<in> set xs \<Longrightarrow> \<exists>v. map_of m k = Some v" if "set xs \<subseteq> set (f (map fst m))" for k xs using that by blast
  then have "set xs \<subseteq> set (f (map fst m)) \<Longrightarrow> List.map_filter (\<lambda>k. map_option (Pair k) (map_of m k)) xs = map (\<lambda>k. (k, the (map_of m k))) xs" for xs
  proof (induction xs)
    case (Cons k xs)
    from Cons.prems(1) have k: "\<exists>v. map_of m k = Some v" using Cons.prems(2) by (metis list.set_intros(1))
    have "List.map_filter (\<lambda>k. map_option (Pair k) (map_of m k)) xs = map (\<lambda>k. (k, the (map_of m k))) xs"
      using Cons by (meson set_subset_Cons subset_trans)
    with k show ?case by (auto simp: List.map_filter_simps)
  qed (simp add: List.map_filter_simps)
  then show ?thesis unfolding in_visits_def by simp
qed

lemma in_visits_keys: "mset (f (map fst m)) = mset (map fst m) \<Longrightarrow> map fst (in_visits f m) = f (map fst m)"
  by (simp add: in_visits_map comp_def)

lemma in_visits_set:
  assumes "mset (f (map fst m)) = mset (map fst m)"
  shows "(k, v) \<in> set (in_visits f m) \<longleftrightarrow> map_of m k = Some v"
proof -
  have "set (f (map fst m)) = set (map fst m)" using assms by (rule mset_eq_setD)
  then have f: "k \<in> set (f (map fst m)) \<longleftrightarrow> map_of m k \<noteq> None" by (simp add: map_of_eq_None_iff)
  have "(k, v) \<in> set (in_visits f m) \<longleftrightarrow> k \<in> set (f (map fst m)) \<and> v = the (map_of m k)"
    unfolding in_visits_map [of f, OF assms] by auto
  then show ?thesis unfolding f by auto
qed

lemma distinct_in_visits:
  assumes "mset (f (map fst m)) = mset (map fst m)" "distinct (map fst m)"
  shows "distinct (map fst (in_visits f m))"
  using assms mset_eq_imp_distinct_iff [OF assms(1)] by (simp add: in_visits_keys)

section \<open>The best track of an artist\<close>

definition best_for :: "(uuid \<times> scored) list \<Rightarrow> uuid \<Rightarrow> scored option \<Rightarrow> bool" where
  "best_for ps a r = (case r of None \<Rightarrow> a \<notin> fst ` set ps
     | Some b \<Rightarrow> (\<exists>s. (a, s) \<in> set ps \<and> b = s\<lparr>sd_id := a\<rparr>) \<and> (\<forall>s. (a, s) \<in> set ps \<longrightarrow> sd_score s \<le> sd_score b))"

definition best_noted :: "(uuid \<times> scored) list \<Rightarrow> (uuid \<times> scored) list \<Rightarrow> bool" where
  "best_noted ps m \<longleftrightarrow> distinct (map fst m) \<and> (\<forall>a. best_for ps a (map_of m a))"

lemma note_artist_keys: "distinct (map fst m) \<Longrightarrow> distinct (map fst (note_artist sc a m))"
  by (simp add: note_artist_def distinct_update split: option.split)

lemma best_for_other: "a' \<noteq> a \<Longrightarrow> best_for (ps @ [(a, sc)]) a' r = best_for ps a' r"
  by (simp add: best_for_def split: option.split)

lemma best_for_new: "a \<notin> fst ` set ps \<Longrightarrow> best_for (ps @ [(a, sc)]) a (Some (sc\<lparr>sd_id := a\<rparr>))"
  by (force simp: best_for_def)

lemma best_for_better: "best_for ps a (Some b) \<Longrightarrow> sd_score b \<le> sd_score sc \<Longrightarrow> best_for (ps @ [(a, sc)]) a (Some (sc\<lparr>sd_id := a\<rparr>))"
  by (auto simp: best_for_def intro: order_trans)

lemma best_for_worse: "best_for ps a (Some b) \<Longrightarrow> sd_score sc \<le> sd_score b \<Longrightarrow> best_for (ps @ [(a, sc)]) a (Some b)"
  by (auto simp: best_for_def)

lemma best_noted_step:
  assumes "best_noted ps m"
  shows "best_noted (ps @ [(a, sc)]) (note_artist sc a m)"
proof -
  have b: "best_for ps a' (map_of m a')" for a' using assms by (simp add: best_noted_def)
  have "best_for (ps @ [(a, sc)]) a (map_of (note_artist sc a m) a)"
  proof (cases "map_of m a")
    case None
    then have "a \<notin> fst ` set ps" using b [of a] by (simp add: best_for_def)
    with None show ?thesis by (simp add: note_artist_def update_conv best_for_new)
  next
    case (Some r)
    with b [of a] show ?thesis by (simp add: note_artist_def update_conv best_for_better best_for_worse)
  qed
  moreover have "map_of (note_artist sc a m) a' = map_of m a'" if "a' \<noteq> a" for a'
    using that by (simp add: note_artist_def update_conv split: option.split)
  ultimately have "best_for (ps @ [(a, sc)]) a' (map_of (note_artist sc a m) a')" for a'
    using b [of a'] by (cases "a' = a") (simp_all add: best_for_other)
  then show ?thesis using assms by (simp add: best_noted_def note_artist_keys)
qed

definition artist_scores :: "(rec_track \<Rightarrow> scored) \<Rightarrow> rec_track list \<Rightarrow> (uuid \<times> scored) list" where
  "artist_scores f ts = concat (map (\<lambda>t. map (\<lambda>a. (a, f t)) (tk_artists t)) ts)"

lemma best_noted_track: "best_noted ps m \<Longrightarrow> best_noted (ps @ map (\<lambda>a. (a, sc)) as') (fold (note_artist sc) as' m)"
proof (induction as' arbitrary: ps m)
  case (Cons a xs)
  have "best_noted ((ps @ [(a, sc)]) @ map (\<lambda>a. (a, sc)) xs) (fold (note_artist sc) xs (note_artist sc a m))"
    using Cons.prems by (intro Cons.IH best_noted_step)
  then show ?case by simp
qed simp

lemma best_noted_tracks: "best_noted ps m \<Longrightarrow> best_noted (ps @ artist_scores f ts) (fold (\<lambda>t. note_artists t (f t)) ts m)"
proof (induction ts arbitrary: ps m)
  case (Cons t ts)
  have "best_noted ((ps @ map (\<lambda>a. (a, f t)) (tk_artists t)) @ artist_scores f ts) (fold (\<lambda>t. note_artists t (f t)) ts (note_artists t (f t) m))"
    unfolding note_artists_def using Cons.prems by (intro Cons.IH [unfolded note_artists_def] best_noted_track)
  then show ?case by (simp add: artist_scores_def)
qed (simp add: artist_scores_def)

lemmas best_noted_all = best_noted_tracks [of "[]" "[]", simplified, unfolded append_Nil]
section \<open>Recommendations and the popular set\<close>

definition well_typed :: "nat \<Rightarrow> nat \<Rightarrow> scored list \<times> scored list \<Rightarrow> bool" where
  "well_typed n m r \<longleftrightarrow> ranked n (fst r) \<and> ranked m (snd r) \<and> (\<forall>x\<in>set (fst r) \<union> set (snd r). scored_ok x)"

lemma well_typedI:
  assumes "distinct (map sd_id xs)" "distinct (map sd_id ys)" "\<And>x. x \<in> set xs \<Longrightarrow> scored_ok x" "\<And>x. x \<in> set ys \<Longrightarrow> scored_ok x"
  shows "well_typed n m (top xs n, top ys m)"
  using assms set_top [of xs n] set_top [of ys m] by (auto simp: well_typed_def top_ranked)

definition candidates :: "go_math \<Rightarrow> catalog \<Rightarrow> signals \<Rightarrow> rec_track list" where
  "candidates g c s = filter (\<lambda>t. tk_id t \<notin> set (pf_exclude (profile_of g c s))) (cl_tracks c)"

definition best_of :: "go_math \<Rightarrow> catalog \<Rightarrow> signals \<Rightarrow> (uuid \<times> scored) list" where
  "best_of g c s = fold (\<lambda>t. note_artists t (score_track g c (profile_of g c s) t)) (candidates g c s) []"

lemma recommend_parts:
  "recommend g c s n m = (top (map (score_track g c (profile_of g c s)) (candidates g c s)) n, top (map snd (in_visits (ids_order g) (best_of g c s))) m)"
  by (simp add: recommend_def candidates_def best_of_def Let_def)

lemma best_of_noted: "best_noted (artist_scores (score_track g c (profile_of g c s)) (candidates g c s)) (best_of g c s)"
  unfolding best_of_def by (rule best_noted_tracks [of "[]" "[]", unfolded append_Nil]) (simp add: best_noted_def best_for_def)

lemma ids_order_mset: "math_ok g \<Longrightarrow> mset (ids_order g xs) = mset xs"
  by (simp add: math_ok_def)

lemma visited_entry: "math_ok g \<Longrightarrow> (k, v) \<in> set (in_visits (ids_order g) m) \<Longrightarrow> map_of m k = Some v"
  using in_visits_set [of "ids_order g" m k v] ids_order_mset [of g "map fst m"] by blast

lemma sd_id_score_track [simp]: "sd_id (score_track g c p t) = tk_id t"
  by (simp add: score_track_def Let_def)

lemma best_of_entry:
  assumes "math_ok g" "x \<in> set (map snd (in_visits (ids_order g) (best_of g c s)))"
  shows "\<exists>t\<in>set (candidates g c s). sd_id x \<in> set (tk_artists t) \<and> x = (score_track g c (profile_of g c s) t)\<lparr>sd_id := sd_id x\<rparr> \<and>
    (\<forall>u\<in>set (candidates g c s). sd_id x \<in> set (tk_artists u) \<longrightarrow> sd_score (score_track g c (profile_of g c s) u) \<le> sd_score x)"
proof -
  let ?f = "score_track g c (profile_of g c s)" and ?ts = "candidates g c s"
  from assms(2) obtain a where "(a, x) \<in> set (in_visits (ids_order g) (best_of g c s))" by auto
  then have "map_of (best_of g c s) a = Some x" by (rule visited_entry [OF assms(1)])
  then have b: "best_for (artist_scores ?f ?ts) a (Some x)" using best_of_noted [of g c s] unfolding best_noted_def by metis
  have mem: "(a, r) \<in> set (artist_scores ?f ?ts) \<longleftrightarrow> (\<exists>t\<in>set ?ts. a \<in> set (tk_artists t) \<and> r = ?f t)" for r
    by (auto simp: artist_scores_def)
  from b obtain r where r: "(a, r) \<in> set (artist_scores ?f ?ts)" "x = r\<lparr>sd_id := a\<rparr>" by (auto simp: best_for_def)
  then have a: "sd_id x = a" by simp
  from r(1) obtain t where t: "t \<in> set ?ts" "a \<in> set (tk_artists t)" "r = ?f t" unfolding mem by blast
  have "sd_score (?f u) \<le> sd_score x" if "u \<in> set ?ts" "a \<in> set (tk_artists u)" for u
    using b mem [of "?f u"] that by (auto simp: best_for_def)
  with t r(2) show ?thesis unfolding a by blast
qed

lemma best_of_ids:
  assumes "math_ok g"
  shows "distinct (map sd_id (map snd (in_visits (ids_order g) (best_of g c s))))"
proof -
  have "distinct (map fst (best_of g c s))" using best_of_noted [of g c s] by (simp add: best_noted_def)
  then have d: "distinct (map fst (in_visits (ids_order g) (best_of g c s)))" by (intro distinct_in_visits ids_order_mset assms)
  have "sd_id (snd p) = fst p" if "p \<in> set (in_visits (ids_order g) (best_of g c s))" for p
  proof -
    have "map_of (best_of g c s) (fst p) = Some (snd p)" by (rule visited_entry [OF assms]) (simp add: that)
    then have "best_for (artist_scores (score_track g c (profile_of g c s)) (candidates g c s)) (fst p) (Some (snd p))"
      using best_of_noted [of g c s] unfolding best_noted_def by metis
    then show ?thesis by (auto simp: best_for_def)
  qed
  then have "map sd_id (map snd (in_visits (ids_order g) (best_of g c s))) = map fst (in_visits (ids_order g) (best_of g c s))" by simp
  with d show ?thesis by (simp only:)
qed

lemma distinct_candidates: "distinct (map tk_id (cl_tracks c)) \<Longrightarrow> distinct (map tk_id (candidates g c s))"
  unfolding candidates_def by (rule distinct_map_filter)

lemma scored_track_ok: "math_ok g \<Longrightarrow> t \<in> set ts \<Longrightarrow> scored_ok (score_track g (new_catalog ts now) p t)"
  using unit_track [of g t ts now p] by (simp add: scored_ok_def score_track_def Let_def reasons_of_ok)

lemma recommend_typed:
  assumes "math_ok g" "distinct (map tk_id ts)"
  shows "well_typed n m (recommend g (new_catalog ts now) s n m)"
  unfolding recommend_parts
proof (rule well_typedI)
  let ?c = "new_catalog ts now"
  let ?f = "score_track g ?c (profile_of g ?c s)"
  have sub: "set (candidates g ?c s) \<subseteq> set ts" by (auto simp: candidates_def)
  have ids: "map sd_id (map ?f (candidates g ?c s)) = map tk_id (candidates g ?c s)" by simp
  show "distinct (map sd_id (map ?f (candidates g ?c s)))" unfolding ids using assms(2) by (intro distinct_candidates) simp
  show "distinct (map sd_id (map snd (in_visits (ids_order g) (best_of g ?c s))))" by (rule best_of_ids) (rule assms)
  show "scored_ok x" if "x \<in> set (map ?f (candidates g ?c s))" for x using that sub scored_track_ok [OF assms(1)] by auto
  show "scored_ok x" if x: "x \<in> set (map snd (in_visits (ids_order g) (best_of g ?c s)))" for x
  proof -
    from best_of_entry [OF assms(1) x] obtain t where t: "t \<in> set ts" "x = (?f t)\<lparr>sd_id := sd_id x\<rparr>" using sub by blast
    have "scored_ok (?f t)" using scored_track_ok [OF assms(1) t(1)] .
    then have "scored_ok ((?f t)\<lparr>sd_id := sd_id x\<rparr>)" by (simp add: scored_ok_def)
    then show ?thesis using t(2) by metis
  qed
qed
lemma count_plays_keys: "distinct (map fst m) \<Longrightarrow> distinct (map fst (fold count_plays ts m))"
proof -
  have one: "distinct (map fst m) \<Longrightarrow> distinct (map fst (fold (\<lambda>a m. AList.update a (f m a) m) xs m))" for f :: "(uuid \<times> 64 word) list \<Rightarrow> uuid \<Rightarrow> 64 word" and xs m
    by (induction xs arbitrary: m) (simp_all add: distinct_update)
  show "distinct (map fst m) \<Longrightarrow> distinct (map fst (fold count_plays ts m))"
    by (induction ts arbitrary: m) (simp_all add: count_plays_def one)
qed

lemma popular_typed:
  assumes "math_ok g" "distinct (map tk_id ts)"
  shows "well_typed n m (popular g (new_catalog ts now) n m)"
  unfolding popular_def Let_def
proof (rule well_typedI)
  let ?c = "new_catalog ts now"
  let ?plays = "in_visits (ids_order g) (fold count_plays (cl_tracks ?c) [])"
  let ?most = "fold (\<lambda>p m. max m (snd p)) ?plays 0"
  have ids: "map sd_id (map (popular_track g ?c) (cl_tracks ?c)) = map tk_id ts" "map sd_id (map (popular_artist g ?most) ?plays) = map fst ?plays"
    by (simp_all add: popular_track_def popular_artist_def Let_def)
  show "distinct (map sd_id (map (popular_track g ?c) (cl_tracks ?c)))" unfolding ids by (rule assms(2))
  show "distinct (map sd_id (map (popular_artist g ?most) ?plays))" unfolding ids
    by (intro distinct_in_visits ids_order_mset assms(1) count_plays_keys) simp
  show "scored_ok x" if "x \<in> set (map (popular_track g ?c) (cl_tracks ?c))" for x
  proof -
    from that obtain t where t: "t \<in> set ts" "x = popular_track g ?c t" by auto
    show ?thesis using unit_popularity [OF assms(1) t(1), of now] unit_freshness [OF assms(1), of ?c t] unfolding t(2)
      by (simp add: scored_ok_def popular_track_def Let_def unit_round4 unit_mix reasons_ok_def Reasons_def)
  qed
  show "scored_ok x" if "x \<in> set (map (popular_artist g ?most) ?plays)" for x
  proof -
    from that obtain p where p: "p \<in> set ?plays" "x = popular_artist g ?most p" by auto
    have "snd p \<le> ?most" using fold_max_ge [of 0 snd ?plays] p(1) by blast
    then show ?thesis using assms(1) unfolding p(2)
      by (simp add: scored_ok_def popular_artist_def unit_round4 unit_log_ratio reasons_ok_def Reasons_def)
  qed
qed

text \<open>Lists by an interpretation of the mathematics: the visits in the order of the list.\<close>

definition go_plain :: go_math where
  "go_plain = \<lparr>sqrt_of = \<lambda>x. x, log1p_of = \<lambda>x. x, half_pow = \<lambda>x. if x = 0 then 1 else 1 / 2, ids_order = \<lambda>xs. xs, names_order = \<lambda>xs. xs\<rparr>"

lemma go_plain_ok: "math_ok go_plain"
  by (simp add: math_ok_def go_plain_def unit_range_def)

text \<open>C28: every set the scoring builds, personal or popular, is well formed: at most as many
  tracks and artists as asked for, no identifier twice, best first with ties by identifier, every
  score between 0 and 1 after all roundings of the arithmetic, and at most two different
  reasons of the four there are.\<close>

theorem scored_sets_well_typed:
  assumes "math_ok g" "distinct (map tk_id ts)"
  shows "well_typed n m (recommend g (new_catalog ts now) s n m) \<and> well_typed n m (popular g (new_catalog ts now) n m)"
  by (intro conjI recommend_typed popular_typed assms)

definition two_tracks :: "rec_track list" where
  "two_tracks = [\<lparr>tk_id = 1, tk_artists = [10], tk_album = 5, tk_genres = [], tk_released = 100, tk_plays = 3, tk_sound = None\<rparr>,
     \<lparr>tk_id = 2, tk_artists = [10, 11], tk_album = 6, tk_genres = [], tk_released = 200, tk_plays = 8, tk_sound = None\<rparr>]"

definition one_like :: signals where
  "one_like = \<lparr>si_history = [(1, \<lparr>in_plays = 1, in_completions = 0, in_skips = 1\<rparr>)], si_tracks = [], si_albums = [], si_artists = [11]\<rparr>"

theorem scored_sets_well_typed_witness:
  "well_typed 5 5 (recommend go_plain (new_catalog two_tracks 300) one_like 5 5) \<and> well_typed 5 5 (popular go_plain (new_catalog two_tracks 300) 5 5)"
  by (rule scored_sets_well_typed [OF go_plain_ok]) (simp add: two_tracks_def)

section \<open>What is recommended to a user\<close>

text \<open>Liked, of a liked album, or skipped more often than listened to the end.\<close>

definition unwelcome :: "catalog \<Rightarrow> signals \<Rightarrow> uuid \<Rightarrow> bool" where
  "unwelcome c s i \<longleftrightarrow> i \<in> set (si_tracks s) \<or> (\<exists>t\<in>set (cl_tracks c). tk_id t = i \<and> tk_album t \<in> set (si_albums s)) \<or>
     (\<exists>x. map_of (si_history s) i = Some x \<and> in_completions x < in_skips x)"

lemma excluded_unwelcome: "i \<in> set (excluded c s) \<longleftrightarrow> unwelcome c s i"
proof -
  have h: "i \<in> set (map fst (si_history s)) \<and> in_completions (interaction_with s i) < in_skips (interaction_with s i) \<longleftrightarrow>
     (\<exists>x. map_of (si_history s) i = Some x \<and> in_completions x < in_skips x)"
  proof (cases "map_of (si_history s) i")
    case None
    then have "i \<notin> set (map fst (si_history s))" unfolding set_map map_of_eq_None_iff .
    with None show ?thesis by (simp del: set_map)
  next
    case (Some x)
    then have "i \<in> set (map fst (si_history s))" by (metis map_of_eq_None_iff option.distinct(1) set_map)
    with Some show ?thesis by (simp add: interaction_with_def del: set_map)
  qed
  have "i \<in> set (excluded c s) \<longleftrightarrow> i \<in> set (si_tracks s) \<or> (\<exists>a\<in>set (si_albums s). i \<in> tk_id ` set (by_album c a)) \<or>
     (i \<in> set (map fst (si_history s)) \<and> in_completions (interaction_with s i) < in_skips (interaction_with s i))"
    unfolding excluded_def by (auto simp: Let_def)
  also have "(\<exists>a\<in>set (si_albums s). i \<in> tk_id ` set (by_album c a)) \<longleftrightarrow> (\<exists>t\<in>set (cl_tracks c). tk_id t = i \<and> tk_album t \<in> set (si_albums s))"
    by (auto simp: by_album_def)
  finally show ?thesis unfolding h unwelcome_def by blast
qed

lemma candidates_welcome: "candidates g c s = filter (\<lambda>t. \<not> unwelcome c s (tk_id t)) (cl_tracks c)"
  by (simp add: candidates_def profile_of_def Let_def excluded_unwelcome)
lemma recommend_member:
  assumes "x \<in> set (fst (recommend g c s n m))"
  shows "\<exists>t\<in>set (cl_tracks c). tk_id t = sd_id x \<and> \<not> unwelcome c s (tk_id t)"
proof -
  have "x \<in> set (map (score_track g c (profile_of g c s)) (candidates g c s))"
    using assms set_top unfolding recommend_parts fst_conv by blast
  then obtain t where "t \<in> set (candidates g c s)" "x = score_track g c (profile_of g c s) t" by auto
  then show ?thesis unfolding candidates_welcome by auto
qed

lemma recommend_complete:
  assumes "t \<in> set (cl_tracks c)" "\<not> unwelcome c s (tk_id t)"
  shows "score_track g c (profile_of g c s) t \<in> set (fst (recommend g c s n m)) \<or>
    (length (fst (recommend g c s n m)) = n \<and> (\<forall>y\<in>set (fst (recommend g c s n m)). ranks_before y (score_track g c (profile_of g c s) t)))"
proof -
  have "score_track g c (profile_of g c s) t \<in> set (map (score_track g c (profile_of g c s)) (candidates g c s))"
    using assms unfolding candidates_welcome by auto
  from top_keeps_best [OF this, of n] show ?thesis unfolding recommend_parts fst_conv by blast
qed

lemma recommend_artist:
  assumes "math_ok g" "x \<in> set (snd (recommend g c s n m))"
  shows "\<exists>t\<in>set (cl_tracks c). \<not> unwelcome c s (tk_id t) \<and> sd_id x \<in> set (tk_artists t) \<and>
    sd_score x = sd_score (score_track g c (profile_of g c s) t) \<and> sd_reasons x = sd_reasons (score_track g c (profile_of g c s) t) \<and>
    (\<forall>u\<in>set (cl_tracks c). \<not> unwelcome c s (tk_id u) \<and> sd_id x \<in> set (tk_artists u) \<longrightarrow> sd_score (score_track g c (profile_of g c s) u) \<le> sd_score x)"
proof -
  have "x \<in> set (map snd (in_visits (ids_order g) (best_of g c s)))"
    using assms(2) set_top unfolding recommend_parts snd_conv by blast
  from best_of_entry [OF assms(1) this] obtain t where t: "t \<in> set (candidates g c s)" "sd_id x \<in> set (tk_artists t)"
    "x = (score_track g c (profile_of g c s) t)\<lparr>sd_id := sd_id x\<rparr>"
    "\<forall>u\<in>set (candidates g c s). sd_id x \<in> set (tk_artists u) \<longrightarrow> sd_score (score_track g c (profile_of g c s) u) \<le> sd_score x" by blast
  from t(3) have "sd_score x = sd_score (score_track g c (profile_of g c s) t)" by (metis scored.select_convs(2) scored.surjective scored.update_convs(1))
  moreover from t(3) have "sd_reasons x = sd_reasons (score_track g c (profile_of g c s) t)" by (metis scored.select_convs(3) scored.surjective scored.update_convs(1))
  ultimately show ?thesis using t(1,2,4) unfolding candidates_welcome by auto
qed

text \<open>C29: the recommended tracks are exactly the best of what the user may be shown: none is
  liked, on a liked album or skipped more often than finished, and a track of the catalog that may
  be shown is left out only when the list is full of tracks that rank before it. An artist
  stands in its list with the score and reasons of the best such track it is credited on.\<close>

theorem recommend_best_unexcluded:
  assumes "math_ok g"
  shows "(\<forall>x\<in>set (fst (recommend g c s n m)). \<exists>t\<in>set (cl_tracks c). tk_id t = sd_id x \<and> \<not> unwelcome c s (tk_id t)) \<and>
    (\<forall>t\<in>set (cl_tracks c). unwelcome c s (tk_id t) \<or> score_track g c (profile_of g c s) t \<in> set (fst (recommend g c s n m)) \<or>
      (length (fst (recommend g c s n m)) = n \<and> (\<forall>y\<in>set (fst (recommend g c s n m)). ranks_before y (score_track g c (profile_of g c s) t)))) \<and>
    (\<forall>x\<in>set (snd (recommend g c s n m)). \<exists>t\<in>set (cl_tracks c). \<not> unwelcome c s (tk_id t) \<and> sd_id x \<in> set (tk_artists t) \<and>
      sd_score x = sd_score (score_track g c (profile_of g c s) t) \<and> sd_reasons x = sd_reasons (score_track g c (profile_of g c s) t) \<and>
      (\<forall>u\<in>set (cl_tracks c). \<not> unwelcome c s (tk_id u) \<and> sd_id x \<in> set (tk_artists u) \<longrightarrow> sd_score (score_track g c (profile_of g c s) u) \<le> sd_score x))"
  using recommend_member recommend_complete recommend_artist [OF assms] by blast

text \<open>A track skipped more often than finished stays out, the other one is recommended with its artists.\<close>

theorem recommend_best_unexcluded_witness:
  "\<exists>t\<in>set two_tracks. \<not> unwelcome (new_catalog two_tracks 300) one_like (tk_id t) \<and>
     score_track go_plain (new_catalog two_tracks 300) (profile_of go_plain (new_catalog two_tracks 300) one_like) t
       \<in> set (fst (recommend go_plain (new_catalog two_tracks 300) one_like 5 5))"
proof -
  let ?c = "new_catalog two_tracks 300"
  let ?t = "two_tracks ! 1"
  have w: "\<not> unwelcome ?c one_like (tk_id ?t)" by (simp add: unwelcome_def two_tracks_def one_like_def)
  have len: "length (fst (recommend go_plain ?c one_like 5 5)) \<noteq> 5"
  proof -
    have "length (fst (recommend go_plain ?c one_like 5 5)) \<le> length (candidates go_plain ?c one_like)"
      unfolding recommend_parts by (simp add: top_def)
    also have "\<dots> \<le> 2" unfolding candidates_welcome by (simp add: two_tracks_def)
    finally show ?thesis by simp
  qed
  have t: "?t \<in> set two_tracks" by (simp add: two_tracks_def)
  then have "?t \<in> set (cl_tracks ?c)" by simp
  then show ?thesis using recommend_best_unexcluded [OF go_plain_ok, of ?c one_like 5 5] w len t by blast
qed

end
