(* ===== verification/Social.thy ===== *)
theory Social
  imports Paging Http "HOL-Library.Product_Lexorder"
begin

text \<open>
  The Social Graph (\<^verbatim>\<open>services/social\<close>): who follows which users and artists, the counters kept
  beside the edges, the events of \<^verbatim>\<open>social.events\<close>, the paged lists and the routes. User Profile
  and the Catalog are the status codes they answer with. Cursors arrive decoded; identifiers of
  a path or a query arrive parsed, or as \<open>None\<close> where they do not parse.
\<close>

section \<open>Edges, counters, events\<close>

datatype target_type = TargetUser | TargetArtist

definition target_text :: "target_type \<Rightarrow> string" where
  "target_text t = (case t of TargetUser \<Rightarrow> ''user'' | TargetArtist \<Rightarrow> ''artist'')"

definition parse_target_type :: "string \<Rightarrow> target_type option" where
  "parse_target_type s = (if s = ''user'' then Some TargetUser else if s = ''artist'' then Some TargetArtist else None)"

type_synonym target = "target_type \<times> uuid"

record follow =
  fo_follower :: uuid
  fo_target :: target
  fo_at :: time

definition fo_edge :: "follow \<Rightarrow> uuid \<times> target" where
  "fo_edge f = (fo_follower f, fo_target f)"

record counter_row =
  cn_subject :: target
  cn_followers :: int
  cn_users :: int
  cn_artists :: int

record social_db =
  follows :: "follow list"
  counters :: "counter_row list"

datatype social_error = TargetNotFound | SelfFollow

datatype social_payload = PFollowed uuid string uuid time | PUnfollowed uuid string uuid time

text \<open>Outside: the status codes for a user and an artist.\<close>

record social_ext =
  user_status :: "uuid \<Rightarrow> nat"
  artist_status :: "uuid \<Rightarrow> nat"

type_synonym 'a social_act = "(social_db, social_ext, social_payload, social_error, 'a) act"
type_synonym social_world = "(social_db, social_ext, social_payload) world"

section \<open>The repository\<close>

text \<open>The constraints of \<^verbatim>\<open>migrations\<close> on rows that are written.\<close>

definition edge_ok :: "follow \<Rightarrow> bool" where
  "edge_ok f \<longleftrightarrow> fo_target f \<noteq> (TargetUser, fo_follower f)"

definition counter_ok :: "counter_row \<Rightarrow> bool" where
  "counter_ok r \<longleftrightarrow> 0 \<le> cn_followers r \<and> 0 \<le> cn_users r \<and> 0 \<le> cn_artists r"

text \<open>\<open>INSERT ... ON CONFLICT DO UPDATE\<close> of one counter row: what is inserted, and how it is added.\<close>

definition bump :: "target \<Rightarrow> int \<Rightarrow> int \<Rightarrow> int \<Rightarrow> counter_row list \<Rightarrow> counter_row list" where
  "bump s f u a rs =
     (if has_row cn_subject s rs
      then update_rows (\<lambda>r. cn_subject r = s)
        (\<lambda>r. r\<lparr>cn_followers := cn_followers r + f, cn_users := cn_users r + u, cn_artists := cn_artists r + a\<rparr>) rs
      else rs @ [\<lparr>cn_subject = s, cn_followers = f, cn_users = u, cn_artists = a\<rparr>])"

definition of_type :: "target_type \<Rightarrow> target \<Rightarrow> int" where
  "of_type t g = (if fst g = t then 1 else 0)"

text \<open>\<open>Repository.Follow\<close>: one statement inserts the edge and bumps both counters.\<close>

definition insert_edge :: "follow \<Rightarrow> bool social_act" where
  "insert_edge f = stmt (\<lambda>d.
     if has_row fo_edge (fo_edge f) (follows d) then Inr (False, d)
     else if \<not> edge_ok f then Inl Infra
     else Inr (True, d\<lparr>follows := follows d @ [f\<lparr>fo_at := time_truncate microsecond (fo_at f)\<rparr>],
       counters := bump (TargetUser, fo_follower f) 0 (of_type TargetUser (fo_target f)) (of_type TargetArtist (fo_target f))
         (bump (fo_target f) 1 0 0 (counters d))\<rparr>))"

definition repo_follow :: "follow \<Rightarrow> (follow \<times> bool) social_act" where
  "repo_follow f = bnd (insert_edge f) (\<lambda>new.
     if new then ret (f\<lparr>fo_at := time_truncate microsecond (fo_at f)\<rparr>, True)
     else bnd (query (\<lambda>d. row_with fo_edge (fo_edge f) (follows d))) (\<lambda>r. case r of
         None \<Rightarrow> raise Infra
       | Some g \<Rightarrow> ret (f\<lparr>fo_at := fo_at g\<rparr>, False)))"

text \<open>\<open>UPDATE ... SET n = n - k\<close>; a row that would break a check fails the statement.\<close>

definition lower :: "target \<Rightarrow> int \<Rightarrow> int \<Rightarrow> int \<Rightarrow> counter_row list \<Rightarrow> counter_row list" where
  "lower s f u a = update_rows (\<lambda>r. cn_subject r = s)
     (\<lambda>r. r\<lparr>cn_followers := cn_followers r - f, cn_users := cn_users r - u, cn_artists := cn_artists r - a\<rparr>)"

definition delete_edge :: "uuid \<Rightarrow> target \<Rightarrow> nat social_act" where
  "delete_edge u g = stmt (\<lambda>d.
     let n = affected (\<lambda>f. fo_edge f = (u, g)) (follows d);
         cs = (if n = 0 then counters d
           else lower (TargetUser, u) 0 (of_type TargetUser g) (of_type TargetArtist g) (lower g 1 0 0 (counters d)))
     in if \<not> list_all counter_ok cs then Inl Infra
        else Inr (n, d\<lparr>follows := delete_rows (\<lambda>f. fo_edge f = (u, g)) (follows d), counters := cs\<rparr>))"

definition repo_unfollow :: "uuid \<Rightarrow> target \<Rightarrow> time \<Rightarrow> (follow \<times> bool) social_act" where
  "repo_unfollow u g at = bnd (delete_edge u g) (\<lambda>n. ret (\<lparr>fo_follower = u, fo_target = g, fo_at = at\<rparr>, n = 1))"

type_synonym social_cursor = "time \<times> uuid"

definition by_follower :: "follow \<Rightarrow> social_cursor" where
  "by_follower f = (fo_at f, fo_follower f)"

definition by_target :: "follow \<Rightarrow> social_cursor" where
  "by_target f = (fo_at f, snd (fo_target f))"

definition before_social :: "(follow \<Rightarrow> social_cursor) \<Rightarrow> social_cursor option \<Rightarrow> follow \<Rightarrow> bool" where
  "before_social key after f = (case after of None \<Rightarrow> True | Some c \<Rightarrow> key f < c)"

definition repo_followers :: "target \<Rightarrow> social_cursor option \<Rightarrow> nat \<Rightarrow> follow list social_act" where
  "repo_followers g after n = query (\<lambda>d. take n (order_by_desc by_follower
     (filter (\<lambda>f. fo_target f = g \<and> before_social by_follower after f) (follows d))))"

definition repo_following :: "uuid \<Rightarrow> target_type \<Rightarrow> social_cursor option \<Rightarrow> nat \<Rightarrow> follow list social_act" where
  "repo_following u t after n = query (\<lambda>d. take n (order_by_desc by_target
     (filter (\<lambda>f. fo_follower f = u \<and> fst (fo_target f) = t \<and> before_social by_target after f) (follows d))))"

definition repo_contains :: "uuid \<Rightarrow> target_type \<Rightarrow> uuid list \<Rightarrow> uuid list social_act" where
  "repo_contains u t ids = query (\<lambda>d. map (\<lambda>f. snd (fo_target f))
     (filter (\<lambda>f. fo_follower f = u \<and> fst (fo_target f) = t \<and> snd (fo_target f) \<in> set ids) (follows d)))"

text \<open>Followers, followed users, followed artists; a subject without a row has none.\<close>

definition counts_in :: "target \<Rightarrow> social_db \<Rightarrow> int \<times> int \<times> int" where
  "counts_in s d = (case row_with cn_subject s (counters d) of None \<Rightarrow> (0, 0, 0)
     | Some r \<Rightarrow> (cn_followers r, cn_users r, cn_artists r))"

definition repo_counts :: "target \<Rightarrow> (int \<times> int \<times> int) social_act" where
  "repo_counts s = query (counts_in s)"

section \<open>Events and the directory\<close>

definition social_publish :: "social_payload contract \<Rightarrow> unit social_act" where
  "social_publish c = publish_events ''social.events'' ''social-service'' [c]"

definition followed :: "follow \<Rightarrow> social_payload contract" where
  "followed f = \<lparr>ct_type = ''social.followed'', ct_key = fo_follower f, ct_at = fo_at f,
     ct_payload = PFollowed (fo_follower f) (target_text (fst (fo_target f))) (snd (fo_target f)) (fo_at f)\<rparr>"

definition unfollowed :: "follow \<Rightarrow> social_payload contract" where
  "unfollowed f = \<lparr>ct_type = ''social.unfollowed'', ct_key = fo_follower f, ct_at = fo_at f,
     ct_payload = PUnfollowed (fo_follower f) (target_text (fst (fo_target f))) (snd (fo_target f)) (fo_at f)\<rparr>"

definition directory_exists :: "target \<Rightarrow> unit social_act" where
  "directory_exists g = call (\<lambda>x.
     let st = (if fst g = TargetArtist then artist_status x (snd g) else user_status x (snd g)) in
     if st = 200 then Inr ((), x) else if st = 404 then Inl (Domain TargetNotFound) else Inl Infra)"

section \<open>Use cases\<close>

definition follow_tx :: "uuid \<Rightarrow> target \<Rightarrow> follow social_act" where
  "follow_tx u g = in_tx (\<lambda>_. True) (bnd now_utc (\<lambda>t.
     bnd (repo_follow \<lparr>fo_follower = u, fo_target = g, fo_at = time_truncate microsecond t\<rparr>) (\<lambda>(f, changed).
     if \<not> changed then ret f else bnd (social_publish (followed f)) (\<lambda>_. ret f))))"

definition follow_target :: "uuid \<Rightarrow> target \<Rightarrow> follow social_act" where
  "follow_target u g = (if g = (TargetUser, u) then fail SelfFollow
     else bnd (directory_exists g) (\<lambda>_. follow_tx u g))"

definition unfollow :: "uuid \<Rightarrow> target \<Rightarrow> unit social_act" where
  "unfollow u g = in_tx (\<lambda>_. True) (bnd now_utc (\<lambda>t.
     bnd (repo_unfollow u g (time_truncate microsecond t)) (\<lambda>(f, changed).
     if \<not> changed then ret () else social_publish (unfollowed f))))"

definition clamp_limit :: "int \<Rightarrow> nat" where
  "clamp_limit limit = nat (if limit \<le> 0 then 50 else min limit 100)"

definition followers :: "target \<Rightarrow> social_cursor option \<Rightarrow> int \<Rightarrow> (follow list \<times> social_cursor option) social_act" where
  "followers g after limit = (let n = clamp_limit limit in
     bnd (repo_followers g after (n + 1)) (\<lambda>rows. ret (split_page by_follower n rows)))"

definition following :: "uuid \<Rightarrow> target_type \<Rightarrow> social_cursor option \<Rightarrow> int \<Rightarrow> (follow list \<times> social_cursor option) social_act" where
  "following u t after limit = (let n = clamp_limit limit in
     bnd (repo_following u t after (n + 1)) (\<lambda>rows. ret (split_page by_target n rows)))"

definition follows_any :: "uuid \<Rightarrow> target_type \<Rightarrow> uuid list \<Rightarrow> uuid list social_act" where
  "follows_any u t ids = (if ids = [] then ret [] else repo_contains u t ids)"

section \<open>The API\<close>

definition signed_in :: "uuid option \<Rightarrow> (uuid \<Rightarrow> social_world \<Rightarrow> 'b response \<times> social_world) \<Rightarrow>
    social_world \<Rightarrow> 'b response \<times> social_world" where
  "signed_in user h w = (case user of None \<Rightarrow> (Problem 401 CodeUnauthenticated [], w) | Some u \<Rightarrow> h u w)"

definition with_id :: "uuid option \<Rightarrow> (uuid \<Rightarrow> social_world \<Rightarrow> 'b response \<times> social_world) \<Rightarrow>
    social_world \<Rightarrow> 'b response \<times> social_world" where
  "with_id i h w = (case i of None \<Rightarrow> (Problem 400 CodeBadRequest [], w) | Some i \<Rightarrow> h i w)"

definition not_found :: "target_type \<Rightarrow> 'b response" where
  "not_found t = Problem 404 (if t = TargetArtist then ''ARTIST_NOT_FOUND'' else ''USER_NOT_FOUND'') []"

definition social_down :: "'b response" where
  "social_down = Problem 503 CodeUnavailable []"

definition put_follow :: "target_type \<Rightarrow> uuid option \<Rightarrow> uuid option \<Rightarrow> social_world \<Rightarrow> unit response \<times> social_world" where
  "put_follow t user i = signed_in user (\<lambda>u. with_id i (\<lambda>i w. case follow_target u (t, i) w of (r, w1) \<Rightarrow>
     (case r of Inr _ \<Rightarrow> Reply 204 ()
      | Inl (Domain TargetNotFound) \<Rightarrow> not_found t
      | Inl (Domain SelfFollow) \<Rightarrow> Problem 422 ''CANNOT_FOLLOW_SELF'' []
      | Inl Infra \<Rightarrow> social_down, w1)))"

definition delete_follow :: "target_type \<Rightarrow> uuid option \<Rightarrow> uuid option \<Rightarrow> social_world \<Rightarrow> unit response \<times> social_world" where
  "delete_follow t user i = signed_in user (\<lambda>u. with_id i (\<lambda>i w. case unfollow u (t, i) w of (r, w1) \<Rightarrow>
     (case r of Inr _ \<Rightarrow> Reply 204 () | Inl _ \<Rightarrow> social_down, w1)))"

text \<open>A cursor parameter is absent, malformed (\<open>Some None\<close>) or decoded; \<open>pageParams\<close> collects problems.\<close>

definition page_params :: "string \<Rightarrow> social_cursor option option \<Rightarrow> fields \<Rightarrow> fields + social_cursor option \<times> int" where
  "page_params raw cursor fs =
     (let n = (if raw = '''' then Some 50 else atoi raw);
          fs = require (raw = '''' \<or> (case n of None \<Rightarrow> False | Some n \<Rightarrow> 1 \<le> n \<and> n \<le> 100)) ''limit'' ''must be between 1 and 100'' fs;
          fs = require (cursor \<noteq> Some None) ''cursor'' ''is malformed'' fs
      in if fs \<noteq> [] then Inl fs
         else Inr (case cursor of None \<Rightarrow> None | Some c \<Rightarrow> c, case n of None \<Rightarrow> 0 | Some n \<Rightarrow> n))"

datatype edge_view = UserEdge uuid time | ArtistEdge uuid time

definition write_page :: "(follow \<Rightarrow> edge_view) \<Rightarrow> (social_error failure + follow list \<times> social_cursor option) \<times> social_world \<Rightarrow>
    (edge_view list \<times> social_cursor option) response \<times> social_world" where
  "write_page view res = (case res of (r, w) \<Rightarrow>
     (case r of Inl _ \<Rightarrow> social_down | Inr (fs, nxt) \<Rightarrow> Reply 200 (map view fs, nxt), w))"

definition get_followers :: "target_type \<Rightarrow> uuid option \<Rightarrow> string \<Rightarrow> social_cursor option option \<Rightarrow> social_world \<Rightarrow>
    (edge_view list \<times> social_cursor option) response \<times> social_world" where
  "get_followers t i limit cursor = with_id i (\<lambda>i w. case page_params limit cursor [] of
       Inl fs \<Rightarrow> (Problem 422 CodeValidation fs, w)
     | Inr (after, n) \<Rightarrow> write_page (\<lambda>f. UserEdge (fo_follower f) (fo_at f)) (followers (t, i) after n w))"

definition type_param :: "string \<Rightarrow> target_type option \<times> fields" where
  "type_param raw = (if raw = '''' then (Some TargetUser, [])
     else case parse_target_type raw of None \<Rightarrow> (None, [(''type'', ''must be user or artist'')]) | Some t \<Rightarrow> (Some t, []))"

definition get_following :: "uuid option \<Rightarrow> string \<Rightarrow> string \<Rightarrow> social_cursor option option \<Rightarrow> social_world \<Rightarrow>
    (edge_view list \<times> social_cursor option) response \<times> social_world" where
  "get_following i typ limit cursor = with_id i (\<lambda>i w. case type_param typ of (t, fs) \<Rightarrow>
     (case page_params limit cursor fs of
        Inl fs \<Rightarrow> (Problem 422 CodeValidation fs, w)
      | Inr (after, n) \<Rightarrow> write_page
          (\<lambda>f. (if t = Some TargetArtist then ArtistEdge else UserEdge) (snd (fo_target f)) (fo_at f))
          (following i (case t of None \<Rightarrow> TargetUser | Some t \<Rightarrow> t) after n w)))"

text \<open>Artists only have followers.\<close>

definition get_counts :: "target_type \<Rightarrow> uuid option \<Rightarrow> social_world \<Rightarrow> (int \<times> (int \<times> int) option) response \<times> social_world" where
  "get_counts t i = with_id i (\<lambda>i w. case repo_counts (t, i) w of (r, w1) \<Rightarrow>
     (case r of Inl _ \<Rightarrow> social_down
      | Inr (n, us, ars) \<Rightarrow> Reply 200 (n, if t = TargetUser then Some (us, ars) else None), w1))"

definition id_list :: "uuid option list \<Rightarrow> fields \<Rightarrow> fields + uuid list" where
  "id_list raw fs =
     (let bad = list_ex Option.is_none raw; ids = List.map_filter id raw;
          fs = require (\<not> bad) ''ids'' ''must be comma-separated UUIDs'' fs;
          fs = require (bad \<or> (ids \<noteq> [] \<and> length ids \<le> 100)) ''ids'' ''must list 1 to 100 IDs'' fs
      in if fs \<noteq> [] then Inl fs else Inr ids)"

definition get_contains :: "uuid option \<Rightarrow> string \<Rightarrow> uuid option list \<Rightarrow> social_world \<Rightarrow> uuid list response \<times> social_world" where
  "get_contains user typ raw = signed_in user (\<lambda>u w. case type_param typ of (t, fs) \<Rightarrow>
     (case id_list raw fs of
        Inl fs \<Rightarrow> (Problem 422 CodeValidation fs, w)
      | Inr ids \<Rightarrow> (case follows_any u (case t of None \<Rightarrow> TargetUser | Some t \<Rightarrow> t) ids w of (r, w1) \<Rightarrow>
          (case r of Inl _ \<Rightarrow> social_down | Inr found \<Rightarrow> Reply 200 found, w1))))"

section \<open>The counters count the edges\<close>

definition edges_to :: "target \<Rightarrow> follow list \<Rightarrow> nat" where
  "edges_to g fs = length (filter (\<lambda>f. fo_target f = g) fs)"

definition edges_from :: "uuid \<Rightarrow> target_type \<Rightarrow> follow list \<Rightarrow> nat" where
  "edges_from u t fs = length (filter (\<lambda>f. fo_follower f = u \<and> fst (fo_target f) = t) fs)"

definition edge_counts :: "target \<Rightarrow> follow list \<Rightarrow> int \<times> int \<times> int" where
  "edge_counts s fs = (int (edges_to s fs),
     if fst s = TargetUser then int (edges_from (snd s) TargetUser fs) else 0,
     if fst s = TargetUser then int (edges_from (snd s) TargetArtist fs) else 0)"

definition social_ok :: "social_db \<Rightarrow> bool" where
  "social_ok d \<longleftrightarrow> unique_on fo_edge (follows d) \<and> list_all edge_ok (follows d) \<and>
     unique_on cn_subject (counters d) \<and> list_all counter_ok (counters d) \<and>
     (\<forall>s. counts_in s d = edge_counts s (follows d))"

text \<open>The graph readers see, and the graph the events tell of.\<close>

definition follow_time :: "social_db \<Rightarrow> uuid \<times> string \<times> uuid \<Rightarrow> time option" where
  "follow_time d k = (case k of (u, t, i) \<Rightarrow> (case parse_target_type t of None \<Rightarrow> None
     | Some t \<Rightarrow> map_option fo_at (row_with fo_edge (u, (t, i)) (follows d))))"

fun apply_social :: "social_payload \<Rightarrow> (uuid \<times> string \<times> uuid \<Rightarrow> time option) \<Rightarrow> (uuid \<times> string \<times> uuid \<Rightarrow> time option)" where
  "apply_social (PFollowed u t i at) m = m((u, t, i) := Some at)"
| "apply_social (PUnfollowed u t i at) m = m((u, t, i) := None)"

definition social_replay :: "social_payload message list \<Rightarrow> uuid \<times> string \<times> uuid \<Rightarrow> time option" where
  "social_replay l = fold (\<lambda>m. apply_social (env_payload (msg_value m))) l (\<lambda>_. None)"

text \<open>The payload fits the type of its envelope.\<close>

definition social_typed :: "social_payload message \<Rightarrow> bool" where
  "social_typed m \<longleftrightarrow> (case env_payload (msg_value m) of
     PFollowed u t i at \<Rightarrow> env_type (msg_value m) = ''social.followed''
   | PUnfollowed u t i at \<Rightarrow> env_type (msg_value m) = ''social.unfollowed'')"

definition social_inv :: "social_db \<Rightarrow> social_payload message list \<Rightarrow> bool" where
  "social_inv d l \<longleftrightarrow> social_ok d \<and> follow_time d = social_replay l \<and> list_all social_typed l"

subsection \<open>Counter rows\<close>

definition tally :: "target \<Rightarrow> counter_row list \<Rightarrow> int \<times> int \<times> int" where
  "tally s rs = (case row_with cn_subject s rs of None \<Rightarrow> (0, 0, 0) | Some r \<Rightarrow> (cn_followers r, cn_users r, cn_artists r))"

lemma counts_in_tally: "counts_in s d = tally s (counters d)"
  by (simp add: counts_in_def tally_def)

definition plus3 :: "int \<times> int \<times> int \<Rightarrow> int \<times> int \<times> int \<Rightarrow> int \<times> int \<times> int" where
  "plus3 x y = (fst x + fst y, fst (snd x) + fst (snd y), snd (snd x) + snd (snd y))"

lemma tally_bump: "tally s (bump g f u a rs) = (if s = g then plus3 (tally s rs) (f, u, a) else tally s rs)"
  by (auto simp: tally_def bump_def has_row_row_with row_with_update_key row_with_append plus3_def split: option.splits)

lemma tally_lower:
  "tally s (lower g f u a rs) = (if s = g \<and> has_row cn_subject g rs then plus3 (tally s rs) (- f, - u, - a) else tally s rs)"
  by (auto simp: tally_def lower_def has_row_row_with row_with_update_key plus3_def split: option.splits)

lemma has_row_lower [simp]: "has_row cn_subject s (lower g f u a rs) = has_row cn_subject s rs"
  by (auto simp: has_row_row_with lower_def row_with_update_key)

lemma unique_bump: "unique_on cn_subject rs \<Longrightarrow> unique_on cn_subject (bump g f u a rs)"
  by (auto simp: bump_def unique_on_update has_row_iff)

lemma unique_lower: "unique_on cn_subject rs \<Longrightarrow> unique_on cn_subject (lower g f u a rs)"
  by (simp add: lower_def unique_on_update)

lemma counters_of_tally:
  assumes "unique_on cn_subject rs" "\<And>s. tally s rs = edge_counts s fs"
  shows "list_all counter_ok rs"
  unfolding list_all_iff
proof
  fix r
  assume "r \<in> set rs"
  then have "row_with cn_subject (cn_subject r) rs = Some r" using assms(1) by (simp add: unique_on_row_with)
  then have "(cn_followers r, cn_users r, cn_artists r) = edge_counts (cn_subject r) fs"
    using assms(2) [of "cn_subject r"] by (simp add: tally_def)
  then show "counter_ok r" by (auto simp: counter_ok_def edge_counts_def)
qed

subsection \<open>Edges\<close>

lemma edge_counts_snoc:
  assumes "edge_ok f"
  shows "edge_counts s (fs @ [f]) = plus3 (plus3 (edge_counts s fs) (if s = fo_target f then (1, 0, 0) else (0, 0, 0)))
    (if s = (TargetUser, fo_follower f) then (0, of_type TargetUser (fo_target f), of_type TargetArtist (fo_target f)) else (0, 0, 0))"
  by (cases s) (auto simp: edge_counts_def edges_to_def edges_from_def plus3_def of_type_def)

lemma length_filter_delete:
  assumes "unique_on key fs" "has_row key k fs"
  shows "length (filter (\<lambda>f. P (key f)) fs) = length (filter (\<lambda>f. P (key f)) (delete_rows (\<lambda>f. key f = k) fs)) + (if P k then 1 else 0)"
  using assms
proof (induction fs)
  case (Cons f fs)
  show ?case
  proof (cases "key f = k")
    case True
    then have "k \<notin> key ` set fs" using Cons.prems by (auto simp: unique_on_def)
    then have "delete_rows (\<lambda>f. key f = k) fs = fs" by (auto simp: delete_rows_def filter_id_conv)
    then show ?thesis using True by (simp add: delete_rows_def)
  next
    case False
    then show ?thesis using Cons by (auto simp: unique_on_def has_row_def delete_rows_def)
  qed
qed (simp add: has_row_def)

lemma edges_counts_delete:
  assumes "unique_on fo_edge fs" "has_row fo_edge (u, g) fs"
  shows "edge_counts s fs = plus3 (plus3 (edge_counts s (delete_rows (\<lambda>f. fo_edge f = (u, g)) fs)) (if s = g then (1, 0, 0) else (0, 0, 0)))
    (if s = (TargetUser, u) then (0, of_type TargetUser g, of_type TargetArtist g) else (0, 0, 0))"
proof -
  have "edges_to h fs = edges_to h (delete_rows (\<lambda>f. fo_edge f = (u, g)) fs) + (if g = h then 1 else 0)" for h
    using length_filter_delete [OF assms, of "\<lambda>e. snd e = h"] by (simp add: edges_to_def fo_edge_def)
  moreover have "edges_from v t fs = edges_from v t (delete_rows (\<lambda>f. fo_edge f = (u, g)) fs) + (if u = v \<and> fst g = t then 1 else 0)" for v t
    using length_filter_delete [OF assms, of "\<lambda>e. fst e = v \<and> fst (snd e) = t"] by (simp add: edges_from_def fo_edge_def)
  ultimately show ?thesis by (cases s) (auto simp: edge_counts_def plus3_def of_type_def)
qed

subsection \<open>The statements\<close>

lemma plus3_cancel: "plus3 (plus3 x y) (- fst y, - fst (snd y), - snd (snd y)) = x"
  by (simp add: plus3_def)

lemma counted_has_row: "tally g cs = edge_counts g fs \<Longrightarrow> edges_to g fs \<noteq> 0 \<or> g = (TargetUser, u) \<and> edges_from u t fs \<noteq> 0 \<Longrightarrow> has_row cn_subject g cs"
  by (cases t) (auto simp: tally_def edge_counts_def has_row_row_with split: option.splits if_splits)

lemma social_okD:
  "social_ok d \<Longrightarrow> tally s (counters d) = edge_counts s (follows d)"
  unfolding social_ok_def counts_in_tally by blast

lemma insert_edge_ok:
  assumes "social_ok d" "edge_ok f" "\<not> has_row fo_edge (fo_edge f) (follows d)"
  shows "social_ok (d\<lparr>follows := follows d @ [f\<lparr>fo_at := t\<rparr>],
       counters := bump (TargetUser, fo_follower f) 0 (of_type TargetUser (fo_target f)) (of_type TargetArtist (fo_target f))
         (bump (fo_target f) 1 0 0 (counters d))\<rparr>)" (is "social_ok (d\<lparr>follows := ?fs, counters := ?cs\<rparr>)")
proof -
  have e: "fo_edge (f\<lparr>fo_at := t\<rparr>) = fo_edge f" "edge_ok (f\<lparr>fo_at := t\<rparr>)" using assms(2) by (simp_all add: fo_edge_def edge_ok_def)
  have c: "tally s ?cs = edge_counts s ?fs" for s
    using e(2) by (simp add: social_okD [OF assms(1)] tally_bump edge_counts_snoc) (auto simp: plus3_def)
  moreover have u: "unique_on cn_subject ?cs" using assms(1) by (auto simp: social_ok_def intro!: unique_bump)
  ultimately have "list_all counter_ok ?cs" by (intro counters_of_tally)
  then show ?thesis using assms(1,3) e u c by (auto simp: social_ok_def counts_in_tally has_row_iff)
qed

lemma delete_edge_ok:
  assumes "social_ok d" "has_row fo_edge (u, g) (follows d)"
  shows "list_all counter_ok (lower (TargetUser, u) 0 (of_type TargetUser g) (of_type TargetArtist g) (lower g 1 0 0 (counters d))) \<and>
    social_ok (d\<lparr>follows := delete_rows (\<lambda>f. fo_edge f = (u, g)) (follows d),
      counters := lower (TargetUser, u) 0 (of_type TargetUser g) (of_type TargetArtist g) (lower g 1 0 0 (counters d))\<rparr>)"
    (is "list_all counter_ok ?cs \<and> social_ok (d\<lparr>follows := ?fs, counters := ?cs\<rparr>)")
proof -
  note t = social_okD [OF assms(1)]
  have u: "unique_on fo_edge (follows d)" "unique_on cn_subject (counters d)" using assms(1) by (simp_all add: social_ok_def)
  obtain f where f: "f \<in> set (follows d)" "fo_edge f = (u, g)" using assms(2) by (auto simp: has_row_iff)
  then have "g \<noteq> (TargetUser, u)" using assms(1) by (auto simp: social_ok_def list_all_iff edge_ok_def fo_edge_def)
  have "edges_to g (follows d) \<noteq> 0" "edges_from u (fst g) (follows d) \<noteq> 0"
    using f by (auto simp: edges_to_def edges_from_def fo_edge_def filter_empty_conv)
  then have h: "has_row cn_subject g (counters d)" "has_row cn_subject (TargetUser, u) (counters d)"
    using counted_has_row [OF t [of g], of u "fst g"] counted_has_row [OF t [of "(TargetUser, u)"], of u "fst g"] by simp_all
  have c: "tally s ?cs = edge_counts s ?fs" for s
    using \<open>g \<noteq> (TargetUser, u)\<close> edges_counts_delete [OF u(1) assms(2), of s] t [of s]
    by (auto simp: tally_lower h plus3_def prod_eq_iff)
  moreover have "unique_on cn_subject ?cs" using u(2) by (intro unique_lower)
  ultimately have "list_all counter_ok ?cs \<and> unique_on cn_subject ?cs" using counters_of_tally by blast
  then show ?thesis using assms(1) c by (auto simp: social_ok_def counts_in_tally unique_on_delete list_all_iff)
qed

lemma edge_affected: "social_ok d \<Longrightarrow> affected (\<lambda>f. fo_edge f = k) (follows d) = (if has_row fo_edge k (follows d) then 1 else 0)"
  using affected_unique [of fo_edge "follows d" k] affected_key [of fo_edge k "follows d"] by (auto simp: social_ok_def)

lemma parse_target_text [simp]: "parse_target_type (target_text t) = Some t"
  by (cases t) (simp_all add: parse_target_type_def target_text_def)

lemma parse_target_Some: "parse_target_type s = Some t \<longleftrightarrow> s = target_text t"
  by (cases t) (auto simp: parse_target_type_def target_text_def)

lemma follow_time_snoc:
  "\<not> has_row fo_edge (fo_edge f) (follows d) \<Longrightarrow> follow_time (d\<lparr>follows := follows d @ [f], counters := cs\<rparr>) =
     (follow_time d)((fo_follower f, target_text (fst (fo_target f)), snd (fo_target f)) := Some (fo_at f))"
  by (rule ext) (auto simp: follow_time_def row_with_append has_row_row_with fo_edge_def parse_target_Some split: option.splits prod.splits)

lemma follow_time_delete:
  "follow_time (d\<lparr>follows := delete_rows (\<lambda>f. fo_edge f = (u, g)) (follows d), counters := cs\<rparr>) =
     (follow_time d)((u, target_text (fst g), snd g) := None)"
  by (rule ext) (auto simp: follow_time_def row_with_delete_key parse_target_Some split: option.splits prod.splits)

subsection \<open>The transactions\<close>

lemma social_replay_snoc: "social_replay (l @ [m]) = apply_social (env_payload (msg_value m)) (social_replay l)"
  by (simp add: social_replay_def)

lemma insert_edge_Inr:
  "insert_edge f w = (Inr new, w1) \<longleftrightarrow> fates w (tick w) = Fine \<and>
     (if has_row fo_edge (fo_edge f) (follows (db w)) then \<not> new \<and> w1 = advance w
      else edge_ok f \<and> new \<and> w1 = (advance w)\<lparr>db := (db w)\<lparr>follows := follows (db w) @ [f\<lparr>fo_at := time_truncate microsecond (fo_at f)\<rparr>],
       counters := bump (TargetUser, fo_follower f) 0 (of_type TargetUser (fo_target f)) (of_type TargetArtist (fo_target f))
         (bump (fo_target f) 1 0 0 (counters (db w)))\<rparr>\<rparr>)"
  by (cases new) (auto simp: insert_edge_def stmt_Inr)

lemma social_publish_Inr:
  assumes "social_publish c w = (Inr u, w1)"
  shows "db w1 = db w \<and> (\<exists>m. log w1 = log w @ [m] \<and> carries m c)"
  using assms unfolding social_publish_def by (rule publish_one)

lemma follow_body:
  assumes "social_inv (db w) (log w)"
    and "bnd now_utc (\<lambda>t. bnd (repo_follow \<lparr>fo_follower = u, fo_target = g, fo_at = time_truncate microsecond t\<rparr>) (\<lambda>(f, changed).
       if \<not> changed then ret f else bnd (social_publish (followed f)) (\<lambda>_. ret f))) w = (Inr x, w1)"
  shows "social_inv (db w1) (log w1)"
proof -
  let ?f = "\<lparr>fo_follower = u, fo_target = g, fo_at = time_truncate microsecond (clock w (tick w))\<rparr>"
  obtain new w2 where i: "insert_edge ?f (advance w) = (Inr new, w2)"
    using assms(2) by (auto simp: act_inv repo_follow_def)
  show ?thesis
  proof (cases "has_row fo_edge (fo_edge ?f) (follows (db w))")
    case True
    then have "\<not> new" "w2 = advance (advance w)" using i by (simp_all add: insert_edge_Inr)
    then have "db w1 = db w \<and> log w1 = log w"
      using assms(2) i by (auto simp: act_inv repo_follow_def split: option.splits)
    then show ?thesis using assms(1) by simp
  next
    case False
    then have n: new "edge_ok ?f" "log w2 = log w" using i by (simp_all add: insert_edge_Inr)
    have d: "social_ok (db w2)" "follow_time (db w2) = (follow_time (db w))((u, target_text (fst g), snd g) := Some (fo_at ?f))"
      using i False insert_edge_ok [OF _ n(2) False] follow_time_snoc [of ?f "db w"] assms(1)
      by (simp_all add: insert_edge_Inr social_inv_def)
    have "social_publish (followed ?f) w2 = (Inr (), w1)"
      using assms(2) i n(1) by (auto simp: act_inv repo_follow_def)
    then obtain m where m: "db w1 = db w2" "log w1 = log w @ [m]" "carries m (followed ?f)"
      using social_publish_Inr n(3) by metis
    then show ?thesis using d assms(1) by (simp add: social_inv_def social_replay_snoc carries_def followed_def social_typed_def)
  qed
qed

lemma unfollow_body:
  assumes "social_inv (db w) (log w)"
    and "bnd now_utc (\<lambda>t. bnd (repo_unfollow u g (time_truncate microsecond t)) (\<lambda>(f, changed).
       if \<not> changed then ret () else social_publish (unfollowed f))) w = (Inr x, w1)"
  shows "social_inv (db w1) (log w1)"
proof -
  let ?f = "\<lparr>fo_follower = u, fo_target = g, fo_at = time_truncate microsecond (clock w (tick w))\<rparr>"
  let ?fs = "delete_rows (\<lambda>f. fo_edge f = (u, g)) (follows (db w))"
  have ok: "social_ok (db w)" using assms(1) by (simp add: social_inv_def)
  obtain n w2 where i: "delete_edge u g (advance w) = (Inr n, w2)"
      and n: "if n \<noteq> 1 then w1 = w2 else social_publish (unfollowed ?f) w2 = (Inr x, w1)"
    using assms(2) by (auto simp: act_inv repo_unfollow_def split: if_splits)
  show ?thesis
  proof (cases "has_row fo_edge (u, g) (follows (db w))")
    case False
    then have "?fs = follows (db w)" unfolding delete_rows_def filter_id_conv has_row_iff by force
    then have "n = 0" "db w2 = db w" "log w2 = log w"
      using i False edge_affected [OF ok, of "(u, g)"] by (auto simp: delete_edge_def stmt_Inr Let_def split: if_splits)
    then show ?thesis using n assms(1) by simp
  next
    case True
    then have d: "n = 1" "social_ok (db w2)" "follow_time (db w2) = (follow_time (db w))((u, target_text (fst g), snd g) := None)" "log w2 = log w"
      using i delete_edge_ok [OF ok True] edge_affected [OF ok, of "(u, g)"] follow_time_delete [where d = "db w" and u = u and g = g]
      by (auto simp: delete_edge_def stmt_Inr Let_def split: if_splits)
    then obtain m where m: "db w1 = db w2" "log w1 = log w @ [m]" "carries m (unfollowed ?f)"
      using social_publish_Inr n by (metis (full_types))
    then show ?thesis using d assms(1) by (simp add: social_inv_def social_replay_snoc carries_def unfollowed_def social_typed_def)
  qed
qed

lemma keeps_follow_tx: "keeps_inv social_inv (follow_tx u g)"
  unfolding follow_tx_def by (intro keeps_in_tx body_keepsI) (rule follow_body)

lemma keeps_unfollow: "keeps_inv social_inv (unfollow u g)"
  unfolding unfollow_def by (intro keeps_in_tx body_keepsI) (rule unfollow_body)

text \<open>The transactions of concurrent requests, one after the other.\<close>

datatype social_txn = FollowTx uuid target | UnfollowTx uuid target

fun run_social_txn :: "social_txn \<Rightarrow> social_world \<Rightarrow> social_world" where
  "run_social_txn (FollowTx u g) w = snd (follow_tx u g w)"
| "run_social_txn (UnfollowTx u g) w = snd (unfollow u g w)"

definition run_social :: "social_txn list \<Rightarrow> social_world \<Rightarrow> social_world" where
  "run_social ts w = fold run_social_txn ts w"

definition social_start :: "(nat \<Rightarrow> fate) \<Rightarrow> (nat \<Rightarrow> time) \<Rightarrow> (nat \<Rightarrow> uuid option) \<Rightarrow> social_ext \<Rightarrow> social_world" where
  "social_start f c u x = \<lparr>tick = 0, fates = f, clock = c, fresh = u, db = \<lparr>follows = [], counters = []\<rparr>,
     outbox = [], next_row = 1, ext = x\<rparr>"

lemma social_txn_inv: "social_inv (db w) (log w) \<Longrightarrow> social_inv (db (run_social_txn t w)) (log (run_social_txn t w))"
  by (cases t) (auto intro: keeps_invD [OF keeps_follow_tx _ surjective_pairing] keeps_invD [OF keeps_unfollow _ surjective_pairing])

lemma run_social_inv: "social_inv (db w) (log w) \<Longrightarrow> social_inv (db (run_social ts w)) (log (run_social ts w))"
  unfolding run_social_def by (induction ts arbitrary: w) (auto intro: social_txn_inv)

lemma social_start_inv: "social_inv (db (social_start f c u x)) (log (social_start f c u x))"
  by (auto simp: social_inv_def social_ok_def social_start_def counts_in_def edge_counts_def edges_to_def edges_from_def
      follow_time_def social_replay_def log_def split: option.splits prod.splits)

text \<open>C25: The counters are right: whatever calls are lost and however follows and unfollows
  interleave, the three counters of every user and artist are the numbers of their edges, no
  edge is stored twice, nobody follows themselves, and the graph is the one the committed
  \<open>social.events\<close> tell of.\<close>

theorem counters_match_graph:
  "let w = run_social ts (social_start f c u x); fs = follows (db w) in
     counts_in (TargetArtist, i) (db w) = (int (length (filter (\<lambda>e. fo_target e = (TargetArtist, i)) fs)), 0, 0) \<and>
     counts_in (TargetUser, i) (db w) = (int (length (filter (\<lambda>e. fo_target e = (TargetUser, i)) fs)),
       int (length (filter (\<lambda>e. fo_follower e = i \<and> fst (fo_target e) = TargetUser) fs)),
       int (length (filter (\<lambda>e. fo_follower e = i \<and> fst (fo_target e) = TargetArtist) fs))) \<and>
     distinct (map fo_edge fs) \<and> list_all (\<lambda>e. fo_target e \<noteq> (TargetUser, fo_follower e)) fs \<and>
     follow_time (db w) = social_replay (log w)"
proof -
  let ?w = "run_social ts (social_start f c u x)"
  have inv: "social_ok (db ?w)" "follow_time (db ?w) = social_replay (log ?w)"
    using run_social_inv [OF social_start_inv] by (simp_all add: social_inv_def)
  then show ?thesis
    by (simp add: Let_def counts_in_tally social_okD) (simp add: edge_counts_def edges_to_def edges_from_def social_ok_def unique_on_def edge_ok_def [abs_def])
qed

text \<open>So the check constraints on the counters never refuse an unfollow.\<close>

lemma unfollow_never_refused:
  "social_inv (db w) (log w) \<Longrightarrow> fates w (tick w) = Fine \<Longrightarrow> \<exists>n w1. delete_edge u g w = (Inr n, w1)"
proof -
  assume i: "social_inv (db w) (log w)" and f: "fates w (tick w) = Fine"
  have ok: "social_ok (db w)" using i by (simp add: social_inv_def)
  show ?thesis
  proof (cases "has_row fo_edge (u, g) (follows (db w))")
    case True
    then show ?thesis using delete_edge_ok [OF ok True] f edge_affected [OF ok, of "(u, g)"] by (simp add: delete_edge_def stmt_def Let_def)
  next
    case False
    then show ?thesis using ok f edge_affected [OF ok, of "(u, g)"] by (simp add: delete_edge_def stmt_def Let_def social_ok_def)
  qed
qed

end
