(* ===== verification/Library.thy ===== *)
theory Library
  imports Social
begin

text \<open>
  The Library Service (\<^verbatim>\<open>services/library\<close>): the tracks and albums a listener saved, with the
  events of \<^verbatim>\<open>library.events\<close>, the paged lists and the routes. The Catalog is what it answers.
\<close>

section \<open>Items and events\<close>

datatype lib_kind = KindTrack | KindAlbum

record lib_item =
  li_user :: uuid
  li_kind :: lib_kind
  li_entity :: uuid
  li_at :: time

definition li_key :: "lib_item \<Rightarrow> uuid \<times> lib_kind \<times> uuid" where
  "li_key i = (li_user i, li_kind i, li_entity i)"

record library_db =
  lib_items :: "lib_item list"

datatype library_error = ItemNotFound

datatype library_payload = PTrackSaved uuid uuid time | PTrackRemoved uuid uuid time
  | PAlbumSaved uuid uuid time | PAlbumRemoved uuid uuid time

text \<open>What the Catalog answers for a track or an album: a status code, and the status in the body if it decodes.\<close>

type_synonym library_ext = "lib_kind \<Rightarrow> uuid \<Rightarrow> nat \<times> string option"
type_synonym 'a library_act = "(library_db, library_ext, library_payload, library_error, 'a) act"
type_synonym library_world = "(library_db, library_ext, library_payload) world"

definition item_exists :: "lib_kind \<Rightarrow> uuid \<Rightarrow> unit library_act" where
  "item_exists k i = call (\<lambda>x. case x k i of (code, body) \<Rightarrow>
     if code = 404 then Inl (Domain ItemNotFound)
     else if code \<noteq> 200 then Inl Infra
     else (case body of None \<Rightarrow> Inl Infra
       | Some st \<Rightarrow> if st = ''DELETED'' then Inl (Domain ItemNotFound) else Inr ((), x)))"

section \<open>The repository\<close>

definition insert_item :: "lib_item \<Rightarrow> bool library_act" where
  "insert_item i = stmt (\<lambda>d.
     if has_row li_key (li_key i) (lib_items d) then Inr (False, d)
     else Inr (True, d\<lparr>lib_items := lib_items d @ [i\<lparr>li_at := time_truncate microsecond (li_at i)\<rparr>]\<rparr>))"

definition repo_save :: "lib_item \<Rightarrow> (lib_item \<times> bool) library_act" where
  "repo_save i = bnd (insert_item i) (\<lambda>new.
     if new then ret (i\<lparr>li_at := time_truncate microsecond (li_at i)\<rparr>, True)
     else bnd (query (\<lambda>d. row_with li_key (li_key i) (lib_items d))) (\<lambda>r. case r of
         None \<Rightarrow> raise Infra
       | Some g \<Rightarrow> ret (i\<lparr>li_at := li_at g\<rparr>, False)))"

definition repo_remove :: "uuid \<Rightarrow> lib_kind \<Rightarrow> uuid \<Rightarrow> time \<Rightarrow> (lib_item \<times> bool) library_act" where
  "repo_remove u k i at = bnd
     (stmt (\<lambda>d. Inr (affected (\<lambda>r. li_key r = (u, k, i)) (lib_items d),
        d\<lparr>lib_items := delete_rows (\<lambda>r. li_key r = (u, k, i)) (lib_items d)\<rparr>)))
     (\<lambda>n. ret (\<lparr>li_user = u, li_kind = k, li_entity = i, li_at = at\<rparr>, n = 1))"

type_synonym library_cursor = "time \<times> uuid"

definition li_pos :: "lib_item \<Rightarrow> library_cursor" where
  "li_pos i = (li_at i, li_entity i)"

definition repo_list :: "uuid \<Rightarrow> lib_kind \<Rightarrow> library_cursor option \<Rightarrow> nat \<Rightarrow> lib_item list library_act" where
  "repo_list u k after n = query (\<lambda>d. take n (order_by_desc li_pos (filter (\<lambda>r. li_user r = u \<and> li_kind r = k \<and>
     (case after of None \<Rightarrow> True | Some c \<Rightarrow> li_pos r < c)) (lib_items d))))"

definition repo_saved :: "uuid \<Rightarrow> lib_kind \<Rightarrow> uuid list \<Rightarrow> uuid list library_act" where
  "repo_saved u k ids = query (\<lambda>d. map li_entity
     (filter (\<lambda>r. li_user r = u \<and> li_kind r = k \<and> li_entity r \<in> set ids) (lib_items d)))"

definition library_counts :: "uuid \<Rightarrow> (nat \<times> nat) library_act" where
  "library_counts u = query (\<lambda>d. (affected (\<lambda>r. li_user r = u \<and> li_kind r = KindTrack) (lib_items d),
     affected (\<lambda>r. li_user r = u \<and> li_kind r = KindAlbum) (lib_items d)))"

section \<open>Use cases\<close>

definition saved_event :: "lib_item \<Rightarrow> library_payload contract" where
  "saved_event i = (case li_kind i of
     KindAlbum \<Rightarrow> \<lparr>ct_type = ''library.album_saved'', ct_key = li_user i, ct_at = li_at i, ct_payload = PAlbumSaved (li_user i) (li_entity i) (li_at i)\<rparr>
   | KindTrack \<Rightarrow> \<lparr>ct_type = ''library.track_saved'', ct_key = li_user i, ct_at = li_at i, ct_payload = PTrackSaved (li_user i) (li_entity i) (li_at i)\<rparr>)"

definition removed_event :: "lib_item \<Rightarrow> library_payload contract" where
  "removed_event i = (case li_kind i of
     KindAlbum \<Rightarrow> \<lparr>ct_type = ''library.album_removed'', ct_key = li_user i, ct_at = li_at i, ct_payload = PAlbumRemoved (li_user i) (li_entity i) (li_at i)\<rparr>
   | KindTrack \<Rightarrow> \<lparr>ct_type = ''library.track_removed'', ct_key = li_user i, ct_at = li_at i, ct_payload = PTrackRemoved (li_user i) (li_entity i) (li_at i)\<rparr>)"

definition library_publish :: "library_payload contract \<Rightarrow> unit library_act" where
  "library_publish c = publish_events ''library.events'' ''library-service'' [c]"

definition save_tx :: "uuid \<Rightarrow> lib_kind \<Rightarrow> uuid \<Rightarrow> lib_item library_act" where
  "save_tx u k i = in_tx (\<lambda>_. True) (bnd now_utc (\<lambda>t.
     bnd (repo_save \<lparr>li_user = u, li_kind = k, li_entity = i, li_at = time_truncate microsecond t\<rparr>) (\<lambda>(it, changed).
     if \<not> changed then ret it else bnd (library_publish (saved_event it)) (\<lambda>_. ret it))))"

definition save_item :: "uuid \<Rightarrow> lib_kind \<Rightarrow> uuid \<Rightarrow> lib_item library_act" where
  "save_item u k i = bnd (item_exists k i) (\<lambda>_. save_tx u k i)"

definition remove_item :: "uuid \<Rightarrow> lib_kind \<Rightarrow> uuid \<Rightarrow> unit library_act" where
  "remove_item u k i = in_tx (\<lambda>_. True) (bnd now_utc (\<lambda>t.
     bnd (repo_remove u k i t) (\<lambda>(it, changed).
     if \<not> changed then ret () else library_publish (removed_event it))))"

definition list_items :: "uuid \<Rightarrow> lib_kind \<Rightarrow> library_cursor option \<Rightarrow> int \<Rightarrow> (lib_item list \<times> library_cursor option) library_act" where
  "list_items u k after limit = (let n = nat (min (if limit \<le> 0 then 50 else limit) 100) in
     bnd (repo_list u k after (n + 1)) (\<lambda>rows. ret (split_page li_pos n rows)))"

definition saved_of :: "uuid \<Rightarrow> lib_kind \<Rightarrow> uuid list \<Rightarrow> uuid list library_act" where
  "saved_of u k ids = (if ids = [] then ret [] else repo_saved u k ids)"

section \<open>The API\<close>

definition library_auth :: "uuid option \<Rightarrow> (uuid \<Rightarrow> library_world \<Rightarrow> 'b response \<times> library_world) \<Rightarrow>
    library_world \<Rightarrow> 'b response \<times> library_world" where
  "library_auth user h w = (case user of None \<Rightarrow> (Problem 401 CodeUnauthenticated [], w) | Some u \<Rightarrow> h u w)"

definition path_id :: "uuid option \<Rightarrow> (uuid \<Rightarrow> library_world \<Rightarrow> 'b response \<times> library_world) \<Rightarrow>
    library_world \<Rightarrow> 'b response \<times> library_world" where
  "path_id i h w = (case i of None \<Rightarrow> (Problem 400 CodeBadRequest [], w) | Some i \<Rightarrow> h i w)"

definition not_found_code :: "lib_kind \<Rightarrow> string" where
  "not_found_code k = (case k of KindAlbum \<Rightarrow> ''ALBUM_NOT_FOUND'' | KindTrack \<Rightarrow> ''TRACK_NOT_FOUND'')"

definition library_down :: "'b response" where
  "library_down = Problem 503 CodeUnavailable []"

definition put_item :: "lib_kind \<Rightarrow> uuid option \<Rightarrow> uuid option \<Rightarrow> library_world \<Rightarrow> unit response \<times> library_world" where
  "put_item k user i = library_auth user (\<lambda>u. path_id i (\<lambda>i w. case save_item u k i w of (r, w1) \<Rightarrow>
     (case r of Inr _ \<Rightarrow> Reply 204 ()
      | Inl f \<Rightarrow> if f = Domain ItemNotFound then Problem 404 (not_found_code k) [] else library_down, w1)))"

definition delete_item :: "lib_kind \<Rightarrow> uuid option \<Rightarrow> uuid option \<Rightarrow> library_world \<Rightarrow> unit response \<times> library_world" where
  "delete_item k user i = library_auth user (\<lambda>u. path_id i (\<lambda>i w. case remove_item u k i w of (r, w1) \<Rightarrow>
     (case r of Inr _ \<Rightarrow> Reply 204 () | Inl _ \<Rightarrow> library_down, w1)))"

text \<open>The parameters of the list are read as in the Social Graph, with the same limits.\<close>

definition get_items :: "lib_kind \<Rightarrow> uuid option \<Rightarrow> string \<Rightarrow> library_cursor option option \<Rightarrow> library_world \<Rightarrow>
    ((uuid \<times> time) list \<times> library_cursor option) response \<times> library_world" where
  "get_items k user raw cursor = library_auth user (\<lambda>u w.
     case page_params raw cursor [] of
       Inl fs \<Rightarrow> (Problem 422 CodeValidation fs, w)
     | Inr (after, n) \<Rightarrow> (case list_items u k after n w of (r, w1) \<Rightarrow>
          (case r of Inl _ \<Rightarrow> library_down
           | Inr (its, nxt) \<Rightarrow> Reply 200 (map (\<lambda>i. (li_entity i, li_at i)) its, nxt), w1)))"

definition get_saved :: "lib_kind \<Rightarrow> uuid option \<Rightarrow> uuid option list \<Rightarrow> library_world \<Rightarrow> uuid list response \<times> library_world" where
  "get_saved k user raw = library_auth user (\<lambda>u w.
     if list_ex Option.is_none raw then (Problem 422 CodeValidation [(''ids'', ''must be comma-separated UUIDs'')], w)
     else let ids = List.map_filter id raw in
       if ids = [] \<or> 100 < length ids then (Problem 422 CodeValidation [(''ids'', ''must list 1 to 100 IDs'')], w)
       else (case saved_of u k ids w of (r, w1) \<Rightarrow>
         (case r of Inl _ \<Rightarrow> library_down | Inr found \<Rightarrow> Reply 200 found, w1)))"

definition get_summary :: "uuid option \<Rightarrow> library_world \<Rightarrow> (nat \<times> nat) response \<times> library_world" where
  "get_summary user = library_auth user (\<lambda>u w. case library_counts u w of (r, w1) \<Rightarrow>
     (case r of Inl _ \<Rightarrow> library_down | Inr c \<Rightarrow> Reply 200 c, w1))"

section \<open>The events tell the library\<close>

type_synonym saved_key = "uuid \<times> lib_kind \<times> uuid"

definition saved_time :: "library_db \<Rightarrow> saved_key \<Rightarrow> time option" where
  "saved_time d k = map_option li_at (row_with li_key k (lib_items d))"

fun apply_library :: "library_payload \<Rightarrow> (saved_key \<Rightarrow> time option) \<Rightarrow> (saved_key \<Rightarrow> time option)" where
  "apply_library (PTrackSaved u i at) m = m((u, KindTrack, i) := Some at)"
| "apply_library (PTrackRemoved u i at) m = m((u, KindTrack, i) := None)"
| "apply_library (PAlbumSaved u i at) m = m((u, KindAlbum, i) := Some at)"
| "apply_library (PAlbumRemoved u i at) m = m((u, KindAlbum, i) := None)"

definition library_replay :: "library_payload message list \<Rightarrow> saved_key \<Rightarrow> time option" where
  "library_replay l = fold (\<lambda>m. apply_library (env_payload (msg_value m))) l (\<lambda>_. None)"

text \<open>The payload fits the type of its envelope.\<close>

definition library_typed :: "library_payload message \<Rightarrow> bool" where
  "library_typed m \<longleftrightarrow> (case env_payload (msg_value m) of
     PTrackSaved u i at \<Rightarrow> env_type (msg_value m) = ''library.track_saved''
   | PTrackRemoved u i at \<Rightarrow> env_type (msg_value m) = ''library.track_removed''
   | PAlbumSaved u i at \<Rightarrow> env_type (msg_value m) = ''library.album_saved''
   | PAlbumRemoved u i at \<Rightarrow> env_type (msg_value m) = ''library.album_removed'')"

definition library_inv :: "library_db \<Rightarrow> library_payload message list \<Rightarrow> bool" where
  "library_inv d l \<longleftrightarrow> unique_on li_key (lib_items d) \<and> saved_time d = library_replay l \<and> list_all library_typed l"

lemma library_replay_snoc: "library_replay (l @ [m]) = apply_library (env_payload (msg_value m)) (library_replay l)"
  by (simp add: library_replay_def)

lemma library_publish_Inr:
  assumes "library_publish c w = (Inr u, w1)"
  shows "db w1 = db w \<and> (\<exists>m. log w1 = log w @ [m] \<and> carries m c)"
  using assms unfolding library_publish_def by (rule publish_one)

lemma saved_replay:
  "carries m (saved_event i) \<Longrightarrow> library_typed m \<and> apply_library (env_payload (msg_value m)) r = r(li_key i := Some (li_at i))"
  by (cases "li_kind i") (auto simp: carries_def saved_event_def li_key_def library_typed_def)

lemma removed_replay:
  "carries m (removed_event i) \<Longrightarrow> library_typed m \<and> apply_library (env_payload (msg_value m)) r = r(li_key i := None)"
  by (cases "li_kind i") (auto simp: carries_def removed_event_def li_key_def library_typed_def)

lemma save_body:
  assumes "library_inv (db w) (log w)"
    and "bnd now_utc (\<lambda>t. bnd (repo_save \<lparr>li_user = u, li_kind = k, li_entity = i, li_at = time_truncate microsecond t\<rparr>) (\<lambda>(it, changed).
       if \<not> changed then ret it else bnd (library_publish (saved_event it)) (\<lambda>_. ret it))) w = (Inr x, w1)"
  shows "library_inv (db w1) (log w1)"
proof -
  let ?i = "\<lparr>li_user = u, li_kind = k, li_entity = i, li_at = time_truncate microsecond (clock w (tick w))\<rparr>"
  obtain new w2 where ins: "insert_item ?i (advance w) = (Inr new, w2)"
    using assms(2) by (auto simp: act_inv repo_save_def)
  show ?thesis
  proof (cases "has_row li_key (li_key ?i) (lib_items (db w))")
    case True
    then have "\<not> new" "db w2 = db w" "log w2 = log w" using ins by (auto simp: insert_item_def stmt_Inr)
    then have "db w1 = db w \<and> log w1 = log w"
      using assms(2) ins by (auto simp: act_inv repo_save_def split: option.splits)
    then show ?thesis using assms(1) by simp
  next
    case False
    then have n: new "db w2 = (db w)\<lparr>lib_items := lib_items (db w) @ [?i]\<rparr>" "log w2 = log w"
      using ins by (auto simp: insert_item_def stmt_Inr)
    have "library_publish (saved_event ?i) w2 = (Inr (), w1)"
      using assms(2) ins n(1) by (auto simp: act_inv repo_save_def)
    then obtain m where m: "db w1 = db w2" "log w1 = log w @ [m]" "carries m (saved_event ?i)"
      using library_publish_Inr n(3) by metis
    have "saved_time (db w2) = (saved_time (db w))(li_key ?i := Some (li_at ?i))"
      using False by (auto simp: fun_eq_iff n(2) saved_time_def row_with_append has_row_row_with split: option.splits)
    moreover have "unique_on li_key (lib_items (db w2))"
      using assms(1) False by (simp add: n(2) library_inv_def has_row_iff)
    ultimately show ?thesis
      using assms(1) m saved_replay [OF m(3)] by (simp add: library_inv_def library_replay_snoc)
  qed
qed

lemma remove_item_body:
  assumes "library_inv (db w) (log w)"
    and "bnd now_utc (\<lambda>t. bnd (repo_remove u k i t) (\<lambda>(it, changed).
     if \<not> changed then ret () else library_publish (removed_event it))) w = (Inr x, w1)"
  shows "library_inv (db w1) (log w1)"
proof -
  let ?i = "\<lparr>li_user = u, li_kind = k, li_entity = i, li_at = clock w (tick w)\<rparr>"
  let ?n = "affected (\<lambda>r. li_key r = (u, k, i)) (lib_items (db w))"
  let ?d = "(db w)\<lparr>lib_items := delete_rows (\<lambda>r. li_key r = (u, k, i)) (lib_items (db w))\<rparr>"
  define w2 where "w2 = w\<lparr>tick := Suc (Suc (tick w)), db := ?d\<rparr>"
  have w2: "db w2 = ?d" "log w2 = log w" by (simp_all add: w2_def)
  have n: "if ?n \<noteq> 1 then w1 = w2 else library_publish (removed_event ?i) w2 = (Inr x, w1)"
    using assms(2) by (auto simp: act_inv repo_remove_def w2_def split: if_splits)
  have t: "saved_time ?d = (saved_time (db w))(li_key ?i := None)"
    by (rule ext) (simp add: saved_time_def row_with_delete_key li_key_def [of ?i])
  have u: "unique_on li_key (lib_items ?d)" using assms(1) by (simp add: library_inv_def unique_on_delete)
  show ?thesis
  proof (cases "?n = 1")
    case True
    then have p: "library_publish (removed_event ?i) w2 = (Inr x, w1)" using n by (simp split: if_splits)
    from library_publish_Inr [OF p] w2(2) obtain m
      where m: "db w1 = db w2" "log w1 = log w @ [m]" "carries m (removed_event ?i)" by metis
    have "saved_time (db w1) = library_replay (log w1)"
      unfolding m(1) m(2) w2(1) t library_replay_snoc using assms(1) removed_replay [OF m(3)] by (simp add: library_inv_def)
    then show ?thesis using assms(1) u removed_replay [OF m(3)] unfolding library_inv_def m(1) m(2) w2(1) by simp
  next
    case False
    then have "?n = 0" using affected_unique [of li_key "lib_items (db w)" "(u, k, i)"] assms(1) by (simp add: library_inv_def)
    then have "?d = db w" by (simp add: delete_rows_def affected_def filter_empty_conv filter_id_conv)
    then show ?thesis using False n w2 assms(1) by simp
  qed
qed

datatype library_txn = SaveTx uuid lib_kind uuid | RemoveTx uuid lib_kind uuid

fun run_library_txn :: "library_txn \<Rightarrow> library_world \<Rightarrow> library_world" where
  "run_library_txn (SaveTx u k i) w = snd (save_tx u k i w)"
| "run_library_txn (RemoveTx u k i) w = snd (remove_item u k i w)"

definition run_library :: "library_txn list \<Rightarrow> library_world \<Rightarrow> library_world" where
  "run_library ts w = fold run_library_txn ts w"

definition library_start :: "(nat \<Rightarrow> fate) \<Rightarrow> (nat \<Rightarrow> time) \<Rightarrow> (nat \<Rightarrow> uuid option) \<Rightarrow> library_ext \<Rightarrow> library_world" where
  "library_start f c u x = \<lparr>tick = 0, fates = f, clock = c, fresh = u, db = \<lparr>lib_items = []\<rparr>, outbox = [], next_row = 1, ext = x\<rparr>"

lemma keeps_save_tx: "keeps_inv library_inv (save_tx u k i)"
  unfolding save_tx_def by (intro keeps_in_tx body_keepsI) (rule save_body)

lemma keeps_remove: "keeps_inv library_inv (remove_item u k i)"
  unfolding remove_item_def by (intro keeps_in_tx body_keepsI) (rule remove_item_body)

lemma library_txn_inv: "library_inv (db w) (log w) \<Longrightarrow> library_inv (db (run_library_txn t w)) (log (run_library_txn t w))"
  by (cases t) (auto intro: keeps_invD [OF keeps_save_tx _ surjective_pairing] keeps_invD [OF keeps_remove _ surjective_pairing])

lemma run_library_inv: "library_inv (db w) (log w) \<Longrightarrow> library_inv (db (run_library ts w)) (log (run_library ts w))"
  unfolding run_library_def by (induction ts arbitrary: w) (auto intro: library_txn_inv)

lemma library_start_inv: "library_inv (db (library_start f c u x)) (log (library_start f c u x))"
  by (auto simp: library_inv_def library_start_def saved_time_def library_replay_def log_def)

end
