(* ===== verification/Latest.thy ===== *)
theory Latest
  imports Prelude
begin

text \<open>
  Last writer wins by the time of the change: a view keeps, per key, the value of the newest
  change it was told of. The locale says when such a view, told of the changes of a source in
  any order, again and again, with losses in between, ends where the source is: when the
  changes of one key have times that grow.
\<close>

section \<open>The source\<close>

text \<open>The last change of a key in the order of the source.\<close>

definition last_of :: "('c \<Rightarrow> 'k) \<Rightarrow> 'c list \<Rightarrow> 'k \<Rightarrow> 'c option" where
  "last_of key cs k = find (\<lambda>c. key c = k) (rev cs)"

definition times_grow :: "('c \<Rightarrow> 'k) \<Rightarrow> ('c \<Rightarrow> time) \<Rightarrow> 'c list \<Rightarrow> bool" where
  "times_grow key at cs = sorted_wrt (\<lambda>c d. key c = key d \<longrightarrow> at c < at d) cs"

lemma last_of_Some: "last_of key cs k = Some c \<Longrightarrow> c \<in> set cs \<and> key c = k"
  unfolding last_of_def by (metis (mono_tags, lifting) find_Some_iff nth_mem set_rev)

lemma last_of_None: "last_of key cs k = None \<longleftrightarrow> (\<forall>c \<in> set cs. key c \<noteq> k)"
  by (auto simp: last_of_def find_None_iff)

lemma last_of_snoc: "last_of key (cs @ [c]) k = (if key c = k then Some c else last_of key cs k)"
  by (simp add: last_of_def)

lemma last_of_newest:
  "times_grow key at cs \<Longrightarrow> last_of key cs k = Some c \<Longrightarrow> d \<in> set cs \<Longrightarrow> key d = k \<Longrightarrow> d = c \<or> at d < at c"
proof (induction cs rule: rev_induct)
  case (snoc e cs)
  then show ?case
    using last_of_Some [of key cs k c] by (auto simp: last_of_snoc times_grow_def sorted_wrt_append split: if_splits)
qed (simp add: last_of_def)

section \<open>The view\<close>

locale latest_view =
  fixes put :: "'c \<Rightarrow> 's \<Rightarrow> 's"
    and look :: "'s \<Rightarrow> 'k \<Rightarrow> ('v \<times> time) option"
    and key :: "'c \<Rightarrow> 'k"
    and val :: "'c \<Rightarrow> 'v"
    and at :: "'c \<Rightarrow> time"
    and valid :: "'c \<Rightarrow> bool"
  assumes look_put: "valid c \<Longrightarrow> look (put c s) k =
    (if k = key c \<and> (case look s k of None \<Rightarrow> True | Some (v, t) \<Rightarrow> t \<le> at c) then Some (val c, at c) else look s k)"
begin

text \<open>The view knows only changes of \<open>known\<close>, and nothing older than those of \<open>told\<close>.\<close>

definition up_to :: "'c set \<Rightarrow> 'c set \<Rightarrow> 's \<Rightarrow> bool" where
  "up_to told known s \<longleftrightarrow> (\<forall>k. case look s k of
     None \<Rightarrow> (\<forall>c \<in> told. key c \<noteq> k)
   | Some (v, t) \<Rightarrow> (\<exists>c \<in> known. key c = k \<and> val c = v \<and> at c = t) \<and> (\<forall>c \<in> told. key c = k \<longrightarrow> at c \<le> t))"

lemma up_to_empty: "(\<And>k. look s k = None) \<Longrightarrow> up_to {} known s"
  by (simp add: up_to_def)

lemma up_to_mono: "up_to told known s \<Longrightarrow> told' \<subseteq> told \<Longrightarrow> known \<subseteq> known' \<Longrightarrow> up_to told' known' s"
  unfolding up_to_def by (fastforce split: option.splits)

lemma up_to_put:
  assumes "up_to told known s" "c \<in> known" "valid c"
  shows "up_to (insert c told) known (put c s)"
  unfolding up_to_def
proof
  fix k
  have s: "case look s k of None \<Rightarrow> (\<forall>c \<in> told. key c \<noteq> k)
   | Some (v, t) \<Rightarrow> (\<exists>c \<in> known. key c = k \<and> val c = v \<and> at c = t) \<and> (\<forall>c \<in> told. key c = k \<longrightarrow> at c \<le> t)"
    using assms(1) unfolding up_to_def by blast
  show "case look (put c s) k of None \<Rightarrow> (\<forall>c \<in> insert c told. key c \<noteq> k)
   | Some (v, t) \<Rightarrow> (\<exists>c \<in> known. key c = k \<and> val c = v \<and> at c = t) \<and> (\<forall>c \<in> insert c told. key c = k \<longrightarrow> at c \<le> t)"
  proof (cases "look s k")
    case None
    then show ?thesis using s assms(2,3) by (auto simp: look_put)
  next
    case (Some vt)
    then show ?thesis using s assms(2,3) by (cases vt) (auto simp: look_put)
  qed
qed

theorem told_all:
  assumes "up_to told known s" "times_grow key at cs"
    and "\<And>c. c \<in> known \<Longrightarrow> key c = k \<Longrightarrow> c \<in> set cs" "\<And>c. c \<in> set cs \<Longrightarrow> key c = k \<Longrightarrow> c \<in> told"
  shows "look s k = map_option (\<lambda>c. (val c, at c)) (last_of key cs k)"
proof -
  have s: "case look s k of None \<Rightarrow> (\<forall>c \<in> told. key c \<noteq> k)
   | Some (v, t) \<Rightarrow> (\<exists>c \<in> known. key c = k \<and> val c = v \<and> at c = t) \<and> (\<forall>c \<in> told. key c = k \<longrightarrow> at c \<le> t)"
    using assms(1) unfolding up_to_def by blast
  show ?thesis
  proof (cases "last_of key cs k")
    case None
    then have "\<forall>c \<in> set cs. key c \<noteq> k" by (simp add: last_of_None)
    then have "look s k = None" using s assms(3) by (cases "look s k") auto
    then show ?thesis by (simp add: None)
  next
    case (Some c)
    have c: "c \<in> told" "key c = k" using last_of_Some [OF Some] assms(4) by auto
    then obtain d where d: "d \<in> known" "key d = k" "look s k = Some (val d, at d)" "at c \<le> at d"
      using s by (cases "look s k") auto
    then have "d = c" using last_of_newest [OF assms(2) Some _ d(2)] assms(3) by force
    then show ?thesis using d(3) Some by simp
  qed
qed

end

lemma last_of_append: "last_of key (xs @ ys) k = (case last_of key ys k of None \<Rightarrow> last_of key xs k | Some c \<Rightarrow> Some c)"
  by (induction ys rule: rev_induct) (auto simp: last_of_snoc append_assoc [symmetric] simp del: append_assoc split: option.splits, simp add: last_of_def)

end
