(* ===== verification/Taste.thy ===== *)
theory Taste
  imports GoFloat Library Latest Consumer
begin

text \<open>
  The taste signals of the Recommendation Worker (\<^verbatim>\<open>workers/recommendation\<close>): its consumer of
  \<^verbatim>\<open>library.events\<close>, \<^verbatim>\<open>social.events\<close> and \<^verbatim>\<open>media.events\<close> and its tables, where the newest change
  by the time of the event wins. Composed with the Library Service and the Social Graph it says
  when the worker knows what they know. Audio features are numbers as JSON has them: finite.
\<close>

section \<open>Tables\<close>

record signal_row =
  sg_user :: uuid
  sg_id :: uuid
  sg_on :: bool
  sg_at :: time

definition sg_key :: "signal_row \<Rightarrow> uuid \<times> uuid" where
  "sg_key r = (sg_user r, sg_id r)"

record features =
  fe_track :: uuid
  fe_bpm :: "float64 option"
  fe_lufs :: float64
  fe_lra :: float64
  fe_silence :: float64
  fe_analyzer :: string
  fe_uploaded :: time

record taste_db =
  liked_tracks :: "signal_row list"
  liked_albums :: "signal_row list"
  followed_artists :: "signal_row list"
  track_features :: "features list"

type_synonym 'a taste_act = "(taste_db, unit, unit, unit, 'a) act"
type_synonym taste_world = "(taste_db, unit, unit) world"

text \<open>\<open>INSERT ... ON CONFLICT DO UPDATE ... WHERE excluded.changed_at >= changed_at\<close>; columns keep microseconds.\<close>

definition upsert_signal :: "uuid \<Rightarrow> uuid \<Rightarrow> bool \<Rightarrow> time \<Rightarrow> signal_row list \<Rightarrow> signal_row list" where
  "upsert_signal u i on tm rs =
     (let r = \<lparr>sg_user = u, sg_id = i, sg_on = on, sg_at = time_truncate microsecond tm\<rparr> in
      case row_with sg_key (u, i) rs of
        None \<Rightarrow> rs @ [r]
      | Some q \<Rightarrow> if sg_at q \<le> sg_at r then update_rows (\<lambda>q. sg_key q = (u, i)) (\<lambda>_. r) rs else rs)"

definition set_signal :: "string \<Rightarrow> uuid \<Rightarrow> uuid \<Rightarrow> bool \<Rightarrow> time \<Rightarrow> unit taste_act" where
  "set_signal kind u i on tm =
     (if kind = ''track'' then stmt (\<lambda>d. Inr ((), d\<lparr>liked_tracks := upsert_signal u i on tm (liked_tracks d)\<rparr>))
      else if kind = ''album'' then stmt (\<lambda>d. Inr ((), d\<lparr>liked_albums := upsert_signal u i on tm (liked_albums d)\<rparr>))
      else if kind = ''artist'' then stmt (\<lambda>d. Inr ((), d\<lparr>followed_artists := upsert_signal u i on tm (followed_artists d)\<rparr>))
      else raise Infra)"

definition save_like :: "string \<Rightarrow> uuid \<Rightarrow> uuid \<Rightarrow> time \<Rightarrow> unit taste_act" where
  "save_like kind u i tm = set_signal kind u i True tm"

definition remove_like :: "string \<Rightarrow> uuid \<Rightarrow> uuid \<Rightarrow> time \<Rightarrow> unit taste_act" where
  "remove_like kind u i tm = set_signal kind u i False tm"

definition save_follow :: "uuid \<Rightarrow> uuid \<Rightarrow> time \<Rightarrow> unit taste_act" where
  "save_follow u a tm = set_signal ''artist'' u a True tm"

definition remove_follow :: "uuid \<Rightarrow> uuid \<Rightarrow> time \<Rightarrow> unit taste_act" where
  "remove_follow u a tm = set_signal ''artist'' u a False tm"

definition upsert_features :: "features \<Rightarrow> features list \<Rightarrow> features list" where
  "upsert_features f rs =
     (let f = f\<lparr>fe_uploaded := time_truncate microsecond (fe_uploaded f)\<rparr> in
      case row_with fe_track (fe_track f) rs of
        None \<Rightarrow> rs @ [f]
      | Some q \<Rightarrow> if fe_uploaded q \<le> fe_uploaded f then update_rows (\<lambda>q. fe_track q = fe_track f) (\<lambda>_. f) rs else rs)"

definition save_features :: "features \<Rightarrow> unit taste_act" where
  "save_features f = stmt (\<lambda>d. if \<not> text_ok (fe_analyzer f) then Inl Infra
     else Inr ((), d\<lparr>track_features := upsert_features f (track_features d)\<rparr>))"

text \<open>Pairs of user and item; the code groups them by user.\<close>

definition likes_of :: "(taste_db \<Rightarrow> signal_row list) \<Rightarrow> (taste_db, 'x, unit, unit, (uuid \<times> uuid) list) act" where
  "likes_of table = query (\<lambda>d. map sg_key (filter sg_on (table d)))"

definition repo_likes :: "(taste_db, 'x, unit, unit, (uuid \<times> uuid) list \<times> (uuid \<times> uuid) list) act" where
  "repo_likes = bnd (likes_of liked_tracks) (\<lambda>ts. bnd (likes_of liked_albums) (\<lambda>as'. ret (ts, as')))"

definition repo_follows :: "(taste_db, 'x, unit, unit, (uuid \<times> uuid) list) act" where
  "repo_follows = likes_of followed_artists"

section \<open>The consumer\<close>

text \<open>
  A payload of one of the three topics; fields that the payload of an event does not have are
  zero for the reader, an identifier that is missing does not parse.
\<close>

datatype taste_payload = OfLibrary library_payload | OfSocial social_payload
  | OfFeatures "uuid option" "float64 option" float64 float64 float64 string time | OfOther

fun like_fields :: "taste_payload \<Rightarrow> uuid option \<times> uuid option \<times> uuid option \<times> time \<times> time" where
  "like_fields (OfLibrary (PTrackSaved u i tm)) = (Some u, Some i, None, tm, 0)"
| "like_fields (OfLibrary (PTrackRemoved u i tm)) = (Some u, Some i, None, 0, tm)"
| "like_fields (OfLibrary (PAlbumSaved u i tm)) = (Some u, None, Some i, tm, 0)"
| "like_fields (OfLibrary (PAlbumRemoved u i tm)) = (Some u, None, Some i, 0, tm)"
| "like_fields (OfFeatures t bpm l r s v up) = (None, t, None, 0, 0)"
| "like_fields _ = (None, None, None, 0, 0)"

fun follow_fields :: "taste_payload \<Rightarrow> uuid option \<times> string \<times> uuid option \<times> time \<times> time" where
  "follow_fields (OfSocial (PFollowed u t i tm)) = (Some u, t, Some i, tm, 0)"
| "follow_fields (OfSocial (PUnfollowed u t i tm)) = (Some u, t, Some i, 0, tm)"
| "follow_fields _ = (None, '''', None, 0, 0)"

definition stored :: "unit failure + unit \<Rightarrow> herr option" where
  "stored r = (case r of Inr _ \<Rightarrow> None | Inl _ \<Rightarrow> Some \<lparr>permanent = False, herr_text = ''store''\<rparr>)"

definition malformed :: "herr option" where
  "malformed = Some \<lparr>permanent = True, herr_text = ''malformed''\<rparr>"

definition handle_like :: "taste_payload option envelope \<Rightarrow> taste_world \<Rightarrow> herr option \<times> taste_world" where
  "handle_like env w = (case env_payload env of None \<Rightarrow> (malformed, w)
     | Some p \<Rightarrow> (case like_fields p of (user, track, album, saved, removed) \<Rightarrow>
         let (kind, rid, tm, save) =
           (if env_type env = ''library.track_removed'' then (''track'', track, removed, False)
            else if env_type env = ''library.album_saved'' then (''album'', album, saved, True)
            else if env_type env = ''library.album_removed'' then (''album'', album, removed, False)
            else (''track'', track, saved, True))
         in (case (user, rid) of
               (Some u, Some i) \<Rightarrow> if tm = 0 then (malformed, w)
                 else apfst stored ((if save then save_like kind u i tm else remove_like kind u i tm) w)
             | _ \<Rightarrow> (malformed, w))))"

definition handle_follow :: "taste_payload option envelope \<Rightarrow> taste_world \<Rightarrow> herr option \<times> taste_world" where
  "handle_follow env w = (case env_payload env of None \<Rightarrow> (malformed, w)
     | Some p \<Rightarrow> (case follow_fields p of (follower, ttype, target, since, until) \<Rightarrow>
         if ttype \<noteq> ''artist'' then (None, w)
         else let tm = (if env_type env = ''social.unfollowed'' then until else since) in
           (case (follower, target) of
               (Some u, Some a) \<Rightarrow> if tm = 0 then (malformed, w)
                 else apfst stored ((if env_type env = ''social.followed'' then save_follow u a tm else remove_follow u a tm) w)
             | _ \<Rightarrow> (malformed, w))))"

fun features_of :: "taste_payload \<Rightarrow> features option" where
  "features_of (OfFeatures (Some t) bpm l r s v up) =
     (if up = 0 \<or> v = '''' then None
      else Some \<lparr>fe_track = t, fe_bpm = bpm, fe_lufs = l, fe_lra = r, fe_silence = s, fe_analyzer = v, fe_uploaded = up\<rparr>)"
| "features_of _ = None"

definition handle_features :: "taste_payload option envelope \<Rightarrow> taste_world \<Rightarrow> herr option \<times> taste_world" where
  "handle_features env w = (case Option.bind (env_payload env) features_of of
     None \<Rightarrow> (malformed, w) | Some f \<Rightarrow> apfst stored (save_features f w))"

definition handle_taste :: "taste_payload wire krecord \<Rightarrow> taste_world \<Rightarrow> herr option \<times> taste_world" where
  "handle_taste rec w =
     (case decode_envelope (rec_value rec) of
        None \<Rightarrow> (malformed, w)
      | Some env \<Rightarrow>
          if env_type env \<in> {''library.track_saved'', ''library.track_removed'', ''library.album_saved'', ''library.album_removed''}
          then (if env_version env \<noteq> 1 then (malformed, w) else handle_like env w)
          else if env_type env \<in> {''social.followed'', ''social.unfollowed''}
          then (if env_version env \<noteq> 1 then (malformed, w) else handle_follow env w)
          else if env_type env = ''audio.features_extracted''
          then (if env_version env \<noteq> 1 then (malformed, w) else handle_features env w)
          else (None, w))"

section \<open>The changes of the view\<close>

datatype taste_change = Signal string uuid uuid bool time | Sound features

datatype taste_key = SignalOf string uuid uuid | SoundOf uuid

fun chg_key :: "taste_change \<Rightarrow> taste_key" where
  "chg_key (Signal k u i on tm) = SignalOf k u i"
| "chg_key (Sound f) = SoundOf (fe_track f)"

text \<open>Times as the columns keep them.\<close>

fun chg_at :: "taste_change \<Rightarrow> time" where
  "chg_at (Signal k u i on tm) = time_truncate microsecond tm"
| "chg_at (Sound f) = time_truncate microsecond (fe_uploaded f)"

fun chg_val :: "taste_change \<Rightarrow> bool \<times> features option" where
  "chg_val (Signal k u i on tm) = (on, None)"
| "chg_val (Sound f) = (True, Some (f\<lparr>fe_uploaded := time_truncate microsecond (fe_uploaded f)\<rparr>))"

fun signal_table :: "string \<Rightarrow> taste_db \<Rightarrow> signal_row list" where
  "signal_table k d = (if k = ''track'' then liked_tracks d else if k = ''album'' then liked_albums d
     else if k = ''artist'' then followed_artists d else [])"

fun put_change :: "taste_change \<Rightarrow> taste_db \<Rightarrow> taste_db" where
  "put_change (Signal k u i on tm) d =
     (if k = ''track'' then d\<lparr>liked_tracks := upsert_signal u i on tm (liked_tracks d)\<rparr>
      else if k = ''album'' then d\<lparr>liked_albums := upsert_signal u i on tm (liked_albums d)\<rparr>
      else d\<lparr>followed_artists := upsert_signal u i on tm (followed_artists d)\<rparr>)"
| "put_change (Sound f) d = d\<lparr>track_features := upsert_features f (track_features d)\<rparr>"

fun look_taste :: "taste_db \<Rightarrow> taste_key \<Rightarrow> ((bool \<times> features option) \<times> time) option" where
  "look_taste d (SignalOf k u i) = map_option (\<lambda>r. ((sg_on r, None), sg_at r)) (row_with sg_key (u, i) (signal_table k d))"
| "look_taste d (SoundOf t) = map_option (\<lambda>f. ((True, Some f), fe_uploaded f)) (row_with fe_track t (track_features d))"

text \<open>Only kinds that have a table.\<close>

definition known_kind :: "taste_change \<Rightarrow> bool" where
  "known_kind c \<longleftrightarrow> (case c of Signal k u i on tm \<Rightarrow> k \<in> {''track'', ''album'', ''artist''} | Sound f \<Rightarrow> True)"

lemma row_with_upsert:
  "row_with sg_key k (upsert_signal u i on tm rs) =
     (if k = (u, i) \<and> (case row_with sg_key k rs of None \<Rightarrow> True | Some q \<Rightarrow> sg_at q \<le> time_truncate microsecond tm)
      then Some \<lparr>sg_user = u, sg_id = i, sg_on = on, sg_at = time_truncate microsecond tm\<rparr> else row_with sg_key k rs)"
proof -
  let ?r = "\<lparr>sg_user = u, sg_id = i, sg_on = on, sg_at = time_truncate microsecond tm\<rparr>"
  have "row_with sg_key k (update_rows (\<lambda>q. sg_key q = (u, i)) (\<lambda>_. ?r) rs) =
      (if k = (u, i) then map_option (\<lambda>_. ?r) (row_with sg_key k rs) else row_with sg_key k rs)"
    by (induction rs) (auto simp: row_with_def update_rows_def sg_key_def)
  then show ?thesis
    by (auto simp: upsert_signal_def Let_def row_with_append sg_key_def [of ?r] split: option.splits)
qed

lemma row_with_upsert_features:
  "row_with fe_track t (upsert_features f rs) =
     (if t = fe_track f \<and> (case row_with fe_track t rs of None \<Rightarrow> True | Some q \<Rightarrow> fe_uploaded q \<le> time_truncate microsecond (fe_uploaded f))
      then Some (f\<lparr>fe_uploaded := time_truncate microsecond (fe_uploaded f)\<rparr>) else row_with fe_track t rs)"
proof -
  let ?f = "f\<lparr>fe_uploaded := time_truncate microsecond (fe_uploaded f)\<rparr>"
  have "row_with fe_track t (update_rows (\<lambda>q. fe_track q = fe_track f) (\<lambda>_. ?f) rs) =
      (if t = fe_track f then map_option (\<lambda>_. ?f) (row_with fe_track t rs) else row_with fe_track t rs)"
    by (induction rs) (auto simp: row_with_def update_rows_def)
  then show ?thesis
    by (auto simp: upsert_features_def Let_def row_with_append split: option.splits)
qed

lemma look_put_change:
  assumes "known_kind c"
  shows "look_taste (put_change c d) k =
    (if k = chg_key c \<and> (case look_taste d k of None \<Rightarrow> True | Some (v, t) \<Rightarrow> t \<le> chg_at c) then Some (chg_val c, chg_at c) else look_taste d k)"
proof (cases c)
  case (Signal kd u i on tm)
  have kd: "kd = ''track'' \<or> kd = ''album'' \<or> kd = ''artist''" using assms Signal by (simp add: known_kind_def)
  have tab: "signal_table k' (put_change c d) = (if k' = kd then upsert_signal u i on tm (signal_table kd d) else signal_table k' d)" for k'
    using kd by (elim disjE) (simp_all add: Signal)
  have other: "track_features (put_change c d) = track_features d" by (simp add: Signal)
  show ?thesis
  proof (cases k)
    case (SignalOf k' v j)
    have e: "look_taste (put_change c d) k = map_option (\<lambda>r. ((sg_on r, None), sg_at r))
        (row_with sg_key (v, j) (if k' = kd then upsert_signal u i on tm (signal_table kd d) else signal_table k' d))"
      by (simp only: SignalOf look_taste.simps tab)
    show ?thesis
    proof (cases "k' = kd \<and> (v, j) = (u, i)")
      case True
      then have t: "k' = kd" "v = u" "j = i" by simp_all
      show ?thesis
        unfolding e by (cases "row_with sg_key (u, i) (signal_table kd d)") (simp_all add: t Signal SignalOf row_with_upsert del: signal_table.simps)
    next
      case False
      then show ?thesis unfolding e by (auto simp: Signal SignalOf row_with_upsert simp del: signal_table.simps)
    qed
  next
    case (SoundOf t)
    then show ?thesis by (simp add: other Signal)
  qed
next
  case (Sound f)
  then show ?thesis by (cases k) (auto simp: row_with_upsert_features split: option.splits)
qed

text \<open>The worker's tables are a latest view of the changes with a known kind.\<close>

interpretation taste: latest_view put_change look_taste chg_key chg_val chg_at known_kind
  by unfold_locales (rule look_put_change)

section \<open>What handling a record changes\<close>

definition like_change :: "taste_payload option envelope \<Rightarrow> taste_change option" where
  "like_change env = (case env_payload env of None \<Rightarrow> None
     | Some p \<Rightarrow> (case like_fields p of (user, track, album, saved, removed) \<Rightarrow>
         let (kind, rid, tm, save) =
           (if env_type env = ''library.track_removed'' then (''track'', track, removed, False)
            else if env_type env = ''library.album_saved'' then (''album'', album, saved, True)
            else if env_type env = ''library.album_removed'' then (''album'', album, removed, False)
            else (''track'', track, saved, True))
         in (case (user, rid) of
               (Some u, Some i) \<Rightarrow> if tm = 0 then None else Some (Signal kind u i save tm)
             | _ \<Rightarrow> None)))"

definition follow_change :: "taste_payload option envelope \<Rightarrow> taste_change option" where
  "follow_change env = (case env_payload env of None \<Rightarrow> None
     | Some p \<Rightarrow> (case follow_fields p of (follower, ttype, target, since, until) \<Rightarrow>
         let tm = (if env_type env = ''social.unfollowed'' then until else since) in
         (case (follower, target) of
             (Some u, Some a) \<Rightarrow> if ttype \<noteq> ''artist'' \<or> tm = 0 then None
               else Some (Signal ''artist'' u a (env_type env = ''social.followed'') tm)
           | _ \<Rightarrow> None)))"

definition change_of :: "taste_payload wire \<Rightarrow> taste_change option" where
  "change_of v = (case decode_envelope v of None \<Rightarrow> None
     | Some env \<Rightarrow>
         if env_version env \<noteq> 1 then None
         else if env_type env \<in> {''library.track_saved'', ''library.track_removed'', ''library.album_saved'', ''library.album_removed''}
         then like_change env
         else if env_type env \<in> {''social.followed'', ''social.unfollowed''} then follow_change env
         else if env_type env = ''audio.features_extracted'' then map_option Sound (Option.bind (env_payload env) features_of)
         else None)"

text \<open>\<open>changes_by c r\<close>: the step changes nothing or puts \<open>c\<close>, and has put it if it succeeded.\<close>

definition changes_by :: "taste_change option \<Rightarrow> taste_world \<Rightarrow> herr option \<times> taste_world \<Rightarrow> bool" where
  "changes_by c w r \<longleftrightarrow> (db (snd r) = db w \<or> (\<exists>d. c = Some d \<and> known_kind d \<and> db (snd r) = put_change d (db w))) \<and>
     (fst r = None \<longrightarrow> (case c of None \<Rightarrow> db (snd r) = db w | Some d \<Rightarrow> known_kind d \<and> db (snd r) = put_change d (db w)))"

lemma changes_nothing: "changes_by None w (q, w)"
  by (simp add: changes_by_def)

lemma changes_refused: "changes_by c w (malformed, w)"
  by (simp add: changes_by_def malformed_def)

lemma changes_stmt:
  "(\<And>d. f d = Inl Infra \<or> f d = Inr ((), put_change c d)) \<Longrightarrow> known_kind c \<Longrightarrow> changes_by (Some c) w (apfst stored (stmt f w))"
  unfolding changes_by_def stmt_def
  by (cases "fates w (tick w)"; cases "f (db w)") (auto simp: stored_def split: prod.splits dest: meta_spec [of _ "db w"])

lemma changes_signal:
  "k \<in> {''track'', ''album'', ''artist''} \<Longrightarrow> changes_by (Some (Signal k u i on tm)) w (apfst stored (set_signal k u i on tm w))"
  unfolding set_signal_def
  by (auto intro!: changes_stmt simp: known_kind_def)

lemma changes_features: "changes_by (Some (Sound f)) w (apfst stored (save_features f w))"
  unfolding save_features_def by (rule changes_stmt) (auto simp: known_kind_def)

lemma handle_like_changes: "changes_by (like_change env) w (handle_like env w)"
proof (cases "env_payload env")
  case (Some p)
  obtain us tr al sa re where f: "like_fields p = (us, tr, al, sa, re)" by (cases "like_fields p") auto
  obtain k rid tm s where x: "(if env_type env = ''library.track_removed'' then (''track'', tr, re, False)
            else if env_type env = ''library.album_saved'' then (''album'', al, sa, True)
            else if env_type env = ''library.album_removed'' then (''album'', al, re, False)
            else (''track'', tr, sa, True)) = (k, rid, tm, s)" by (metis prod_cases4)
  then have k: "k \<in> {''track'', ''album'', ''artist''}" by (auto split: if_splits)
  show ?thesis
  proof (cases "\<exists>u i. us = Some u \<and> rid = Some i \<and> tm \<noteq> 0")
    case True
    then obtain u i where ui: "us = Some u" "rid = Some i" "tm \<noteq> 0" by blast
    have l: "like_change env = Some (Signal k u i s tm)" unfolding like_change_def by (simp only: Some option.case f prod.case x Let_def ui if_False)
    have h: "handle_like env w = apfst stored (set_signal k u i s tm w)"
      unfolding handle_like_def
      by (simp only: Some option.case f prod.case x Let_def ui if_False) (simp add: save_like_def remove_like_def)
    show ?thesis unfolding l h using k by (rule changes_signal)
  next
    case False
    then have "handle_like env w = (malformed, w)"
      unfolding handle_like_def by (simp only: Some option.case f prod.case x Let_def) (auto split: option.splits)
    then show ?thesis by (simp add: changes_refused)
  qed
qed (simp add: handle_like_def changes_refused)

lemma handle_follow_changes: "changes_by (follow_change env) w (handle_follow env w)"
proof (cases "env_payload env")
  case (Some p)
  obtain fo ty ta si un where f: "follow_fields p = (fo, ty, ta, si, un)" by (cases "follow_fields p") auto
  define tm where "tm = (if env_type env = ''social.unfollowed'' then un else si)"
  show ?thesis
  proof (cases "ty = ''artist''")
    case False
    then have "handle_follow env w = (None, w)" "follow_change env = None"
      by (simp_all add: handle_follow_def follow_change_def Some f Let_def split: option.splits)
    then show ?thesis by (simp add: changes_nothing)
  next
    case True
    show ?thesis
    proof (cases "\<exists>u a. fo = Some u \<and> ta = Some a \<and> tm \<noteq> 0")
      case True
      then obtain u a where ua: "fo = Some u" "ta = Some a" "tm \<noteq> 0" by blast
      have "follow_change env = Some (Signal ''artist'' u a (env_type env = ''social.followed'') tm)"
        using ua \<open>ty = _\<close> by (simp add: follow_change_def Some f tm_def)
      moreover have "handle_follow env w = apfst stored (set_signal ''artist'' u a (env_type env = ''social.followed'') tm w)"
        using ua \<open>ty = _\<close> by (simp add: handle_follow_def Some f tm_def save_follow_def remove_follow_def)
      ultimately show ?thesis by (simp add: changes_signal)
    next
      case False
      then have "handle_follow env w = (malformed, w)"
        using \<open>ty = _\<close> by (auto simp: handle_follow_def Some f tm_def split: option.splits)
      then show ?thesis by (simp add: changes_refused)
    qed
  qed
qed (simp add: handle_follow_def changes_refused)

lemma handle_taste_changes: "changes_by (change_of (rec_value r)) w (handle_taste r w)"
proof (cases "decode_envelope (rec_value r)")
  case (Some env)
  let ?lib = "env_type env \<in> {''library.track_saved'', ''library.track_removed'', ''library.album_saved'', ''library.album_removed''}"
  let ?soc = "env_type env \<in> {''social.followed'', ''social.unfollowed''}"
  consider (lib) ?lib | (soc) "\<not> ?lib" ?soc | (feat) "\<not> ?lib" "\<not> ?soc" "env_type env = ''audio.features_extracted''"
    | (rest) "\<not> ?lib" "\<not> ?soc" "env_type env \<noteq> ''audio.features_extracted''" by blast
  then show ?thesis
  proof cases
    case lib
    then show ?thesis unfolding handle_taste_def change_of_def Some by (simp only: option.case if_True) (simp add: changes_refused handle_like_changes)
  next
    case soc
    then show ?thesis unfolding handle_taste_def change_of_def Some
      by (simp only: option.case if_True if_False) (simp add: changes_refused handle_follow_changes)
  next
    case feat
    have "changes_by (map_option Sound (Option.bind (env_payload env) features_of)) w (handle_features env w)"
      by (cases "Option.bind (env_payload env) features_of") (simp_all add: handle_features_def changes_refused changes_features)
    then show ?thesis using feat unfolding handle_taste_def change_of_def Some
      by (simp only: option.case if_True if_False) (simp add: changes_refused)
  next
    case rest
    then show ?thesis unfolding handle_taste_def change_of_def Some
      by (simp only: option.case if_False) (simp add: changes_nothing)
  qed
qed (simp add: handle_taste_def change_of_def changes_refused)

section \<open>The worker knows what the services know\<close>

fun taste_run :: "taste_payload wire krecord list \<Rightarrow> taste_world \<Rightarrow> taste_payload wire list \<times> taste_world" where
  "taste_run [] w = ([], w)"
| "taste_run (r # rs) w = (case handle_taste r w of (q, w1) \<Rightarrow> case taste_run rs w1 of (vs, w2) \<Rightarrow>
     (if q = None then rec_value r # vs else vs, w2))"

fun changes_in :: "taste_payload wire list \<Rightarrow> taste_change list" where
  "changes_in [] = []"
| "changes_in (v # vs) = (case change_of v of None \<Rightarrow> changes_in vs | Some c \<Rightarrow> c # changes_in vs)"

lemma set_changes_in: "c \<in> set (changes_in vs) \<longleftrightarrow> (\<exists>v \<in> set vs. change_of v = Some c)"
  by (induction vs) (auto split: option.splits)

lemma changes_in_append [simp]: "changes_in (xs @ ys) = changes_in xs @ changes_in ys"
  by (induction xs) (auto split: option.splits)

lemma taste_run_up_to:
  "taste_run rs w = (vs, w1) \<Longrightarrow> set (changes_in (map rec_value rs)) \<subseteq> known \<Longrightarrow> taste.up_to told known (db w) \<Longrightarrow>
     taste.up_to (told \<union> set (changes_in vs)) known (db w1)"
proof (induction rs arbitrary: w vs told)
  case Nil
  then show ?case by simp
next
  case (Cons r rs)
  obtain q w2 where q: "handle_taste r w = (q, w2)" by fastforce
  obtain us where us: "taste_run rs w2 = (us, w1)" and vs: "vs = (if q = None then rec_value r # us else us)"
    using Cons.prems(1) q by (auto split: prod.splits if_splits)
  let ?c = "change_of (rec_value r)"
  have by_step: "changes_by ?c w (q, w2)" using handle_taste_changes [of r w] q by simp
  have k: "d \<in> known" if "?c = Some d" for d using Cons.prems(2) that by (auto simp: set_changes_in)
  have put: "taste.up_to (insert d told) known (put_change d (db w))" if "?c = Some d" "known_kind d" for d
    using taste.up_to_put [OF Cons.prems(3) k] that by blast
  have "taste.up_to told known (db w2)"
    using by_step Cons.prems(3) put taste.up_to_mono [OF _ subset_insertI order_refl] unfolding changes_by_def by (metis snd_conv)
  moreover have "taste.up_to (insert d told) known (db w2)" if "q = None" "?c = Some d" for d
    using by_step put that unfolding changes_by_def by simp
  ultimately have "taste.up_to (told \<union> set (changes_in (if q = None then [rec_value r] else []))) known (db w2)"
    by (cases ?c; cases "q = None") auto
  moreover have "set (changes_in (map rec_value rs)) \<subseteq> known" using Cons.prems(2) by (auto split: option.splits)
  ultimately have "taste.up_to (told \<union> set (changes_in (if q = None then [rec_value r] else [])) \<union> set (changes_in us)) known (db w1)"
    using Cons.IH [OF us] by blast
  moreover have "changes_in vs = changes_in (if q = None then [rec_value r] else []) @ changes_in us"
    unfolding vs by (simp split: option.splits)
  ultimately show ?case by (simp add: Un_assoc)
qed

text \<open>A value that was handled.\<close>

definition handled :: "taste_payload wire \<Rightarrow> bool" where
  "handled v \<longleftrightarrow> (\<exists>r w. rec_value r = v \<and> fst (handle_taste r w) = None)"

lemma taste_run_handled: "taste_run rs w = (vs, w1) \<Longrightarrow> v \<in> set vs \<Longrightarrow> handled v"
proof (induction rs arbitrary: w vs)
  case (Cons r rs)
  obtain q w2 where q: "handle_taste r w = (q, w2)" by fastforce
  obtain us where us: "taste_run rs w2 = (us, w1)" and vs: "vs = (if q = None then rec_value r # us else us)"
    using Cons.prems(1) q by (auto split: prod.splits if_splits)
  show ?case
  proof (cases "v \<in> set us")
    case True
    then show ?thesis using Cons.IH us by blast
  next
    case False
    then have "q = None" "rec_value r = v" using Cons.prems(2) vs by (auto split: if_splits)
    then show ?thesis using q unfolding handled_def by (metis fst_conv)
  qed
qed simp

definition seen_as :: "('p \<Rightarrow> taste_payload) \<Rightarrow> 'p message \<Rightarrow> taste_payload wire" where
  "seen_as f m = Some \<lparr>env_id = env_id (msg_value m), env_type = env_type (msg_value m),
     env_version = env_version (msg_value m), env_at = env_at (msg_value m),
     env_producer = env_producer (msg_value m), env_payload = Some (f (env_payload (msg_value m)))\<rparr>"

fun library_change :: "library_payload \<Rightarrow> taste_change" where
  "library_change (PTrackSaved u i tm) = Signal ''track'' u i True tm"
| "library_change (PTrackRemoved u i tm) = Signal ''track'' u i False tm"
| "library_change (PAlbumSaved u i tm) = Signal ''album'' u i True tm"
| "library_change (PAlbumRemoved u i tm) = Signal ''album'' u i False tm"

fun social_change :: "social_payload \<Rightarrow> taste_change option" where
  "social_change (PFollowed u t i tm) = (if t = ''artist'' then Some (Signal ''artist'' u i True tm) else None)"
| "social_change (PUnfollowed u t i tm) = (if t = ''artist'' then Some (Signal ''artist'' u i False tm) else None)"

lemma handled_library:
  assumes "handled (seen_as OfLibrary m)" "library_typed m"
  shows "change_of (seen_as OfLibrary m) = Some (library_change (env_payload (msg_value m)))"
proof -
  obtain r w where r: "rec_value r = seen_as OfLibrary m" "fst (handle_taste r w) = None" using assms(1) unfolding handled_def by blast
  then have v: "envelope_valid (the (seen_as OfLibrary m))"
    by (auto simp: handle_taste_def decode_envelope_def malformed_def seen_as_def split: if_splits)
  show ?thesis
    using r v assms(2)
    by (cases "env_payload (msg_value m)")
      (auto simp: handle_taste_def decode_envelope_def malformed_def seen_as_def library_typed_def change_of_def handle_like_def like_change_def split: if_splits)
qed

lemma handled_social:
  assumes "handled (seen_as OfSocial m)" "social_typed m"
  shows "change_of (seen_as OfSocial m) = social_change (env_payload (msg_value m))"
proof -
  obtain r w where r: "rec_value r = seen_as OfSocial m" "fst (handle_taste r w) = None" using assms(1) unfolding handled_def by blast
  then have v: "envelope_valid (the (seen_as OfSocial m))"
    by (auto simp: handle_taste_def decode_envelope_def malformed_def seen_as_def split: if_splits)
  show ?thesis
    using r v assms(2)
    by (cases "env_payload (msg_value m)")
      (auto simp: handle_taste_def decode_envelope_def malformed_def seen_as_def social_typed_def change_of_def handle_follow_def follow_change_def split: if_splits)
qed

text \<open>The changes tell the same as the replay of the services' events.\<close>

lemma library_last:
  assumes "list_all (\<lambda>m. change_of (seen_as OfLibrary m) = Some (library_change (env_payload (msg_value m)))) l"
  shows "(case last_of chg_key (changes_in (map (seen_as OfLibrary) l)) (SignalOf ''track'' u i) of None \<Rightarrow> False | Some c \<Rightarrow> fst (chg_val c)) =
      (library_replay l (u, KindTrack, i) \<noteq> None) \<and>
    (case last_of chg_key (changes_in (map (seen_as OfLibrary) l)) (SignalOf ''album'' u i) of None \<Rightarrow> False | Some c \<Rightarrow> fst (chg_val c)) =
      (library_replay l (u, KindAlbum, i) \<noteq> None) \<and>
    last_of chg_key (changes_in (map (seen_as OfLibrary) l)) (SignalOf ''artist'' u i) = None"
  using assms
proof (induction l rule: rev_induct)
  case Nil
  then show ?case by (simp add: last_of_def library_replay_def)
next
  case (snoc m l)
  then have c: "change_of (seen_as OfLibrary m) = Some (library_change (env_payload (msg_value m)))" by simp
  show ?case
    using snoc by (cases "env_payload (msg_value m)") (simp_all add: c last_of_snoc library_replay_snoc)
qed

lemma social_last:
  assumes "list_all (\<lambda>m. change_of (seen_as OfSocial m) = social_change (env_payload (msg_value m))) l"
  shows "(case last_of chg_key (changes_in (map (seen_as OfSocial) l)) (SignalOf ''artist'' u i) of None \<Rightarrow> False | Some c \<Rightarrow> fst (chg_val c)) =
      (social_replay l (u, ''artist'', i) \<noteq> None) \<and>
    last_of chg_key (changes_in (map (seen_as OfSocial) l)) (SignalOf ''track'' u i) = None \<and>
    last_of chg_key (changes_in (map (seen_as OfSocial) l)) (SignalOf ''album'' u i) = None"
  using assms
proof (induction l rule: rev_induct)
  case Nil
  then show ?case by (simp add: last_of_def social_replay_def)
next
  case (snoc m l)
  then have c: "change_of (seen_as OfSocial m) = social_change (env_payload (msg_value m))" by simp
  show ?case
    using snoc by (cases "env_payload (msg_value m)") (auto simp: c last_of_snoc social_replay_snoc)
qed

text \<open>What the worker's queries say.\<close>

definition taste_unique :: "taste_db \<Rightarrow> bool" where
  "taste_unique d \<longleftrightarrow> unique_on sg_key (liked_tracks d) \<and> unique_on sg_key (liked_albums d) \<and> unique_on sg_key (followed_artists d)"

lemma unique_upsert: "unique_on sg_key rs \<Longrightarrow> unique_on sg_key (upsert_signal u i on tm rs)"
proof -
  let ?r = "\<lparr>sg_user = u, sg_id = i, sg_on = on, sg_at = time_truncate microsecond tm\<rparr>"
  assume u: "unique_on sg_key rs"
  have "map sg_key (update_rows (\<lambda>q. sg_key q = (u, i)) (\<lambda>_. ?r) rs) = map sg_key rs"
    by (auto simp: update_rows_def sg_key_def)
  then show ?thesis
    using u by (auto simp: upsert_signal_def Let_def unique_on_def row_with_None_iff sg_key_def [of ?r] split: option.splits)
qed

lemma taste_unique_put: "taste_unique d \<Longrightarrow> taste_unique (put_change c d)"
  by (cases c) (auto simp: taste_unique_def unique_upsert)

lemma taste_run_unique: "taste_run rs w = (vs, w1) \<Longrightarrow> taste_unique (db w) \<Longrightarrow> taste_unique (db w1)"
proof (induction rs arbitrary: w vs)
  case (Cons r rs)
  obtain q w2 where q: "handle_taste r w = (q, w2)" by fastforce
  have "taste_unique (db w2)"
    using handle_taste_changes [of r w] Cons.prems(2) taste_unique_put unfolding q changes_by_def by auto
  then show ?case using Cons.IH Cons.prems(1) q by (auto split: prod.splits)
qed simp

lemma likes_listed:
  assumes "unique_on sg_key rs"
  shows "(u, i) \<in> set (map sg_key (filter sg_on rs)) \<longleftrightarrow> (case row_with sg_key (u, i) rs of None \<Rightarrow> False | Some r \<Rightarrow> sg_on r)"
proof
  assume "(u, i) \<in> set (map sg_key (filter sg_on rs))"
  then obtain r where "r \<in> set rs" "sg_on r" "sg_key r = (u, i)" by auto
  then show "case row_with sg_key (u, i) rs of None \<Rightarrow> False | Some r \<Rightarrow> sg_on r"
    using unique_on_row_with [OF assms] by fastforce
next
  assume "case row_with sg_key (u, i) rs of None \<Rightarrow> False | Some r \<Rightarrow> sg_on r"
  then obtain r where "row_with sg_key (u, i) rs = Some r" "sg_on r" by (auto split: option.splits)
  then show "(u, i) \<in> set (map sg_key (filter sg_on rs))" using row_with_SomeD by force
qed

text \<open>The events of both services, and the records about neither.\<close>

definition service_feed :: "library_payload message list \<Rightarrow> social_payload message list \<Rightarrow> taste_payload wire list" where
  "service_feed l s = map (seen_as OfLibrary) l @ map (seen_as OfSocial) s"

definition no_signal :: "taste_payload wire \<Rightarrow> bool" where
  "no_signal v \<longleftrightarrow> (case change_of v of Some (Signal k u i on tm) \<Rightarrow> False | _ \<Rightarrow> True)"

lemma told_signals:
  assumes run: "taste_run rs w = (vs, w1)" and start: "db w = \<lparr>liked_tracks = [], liked_albums = [], followed_artists = [], track_features = []\<rparr>"
    and told: "set feed \<subseteq> set vs" and only: "list_all (\<lambda>r. rec_value r \<in> set feed \<or> no_signal (rec_value r)) rs"
    and grow: "times_grow chg_key chg_at (changes_in feed)" and kind: "k \<in> {''track'', ''album'', ''artist''}"
  shows "(a, i) \<in> set (map sg_key (filter sg_on (signal_table k (db w1)))) \<longleftrightarrow>
    (case last_of chg_key (changes_in feed) (SignalOf k a i) of None \<Rightarrow> False | Some d \<Rightarrow> fst (chg_val d))"
proof -
  let ?known = "set (changes_in (map rec_value rs))"
  have "taste.up_to {} ?known (db w)"
    by (rule taste.up_to_empty, case_tac k) (simp_all add: start)
  then have up: "taste.up_to (set (changes_in vs)) ?known (db w1)"
    using taste_run_up_to [OF run order_refl] by (metis sup_bot_left)
  have look: "look_taste (db w1) (SignalOf k a i) = map_option (\<lambda>c. (chg_val c, chg_at c)) (last_of chg_key (changes_in feed) (SignalOf k a i))"
  proof (rule taste.told_all [OF up grow])
    fix d
    assume d: "d \<in> ?known" "chg_key d = SignalOf k a i"
    then have "\<exists>v \<in> set (map rec_value rs). change_of v = Some d" by (simp only: set_changes_in)
    then obtain r where r: "r \<in> set rs" "change_of (rec_value r) = Some d" by auto
    have "rec_value r \<in> set feed \<or> no_signal (rec_value r)" using only r(1) unfolding list_all_iff by blast
    moreover have "\<not> no_signal (rec_value r)" using r(2) d(2) by (cases d) (simp_all add: no_signal_def)
    ultimately show "d \<in> set (changes_in feed)" using r(2) unfolding set_changes_in by blast
  next
    fix d
    assume "d \<in> set (changes_in feed)"
    then show "d \<in> set (changes_in vs)" using told unfolding set_changes_in by blast
  qed
  have uniq: "taste_unique (db w1)" by (rule taste_run_unique [OF run]) (simp add: start taste_unique_def)
  have "unique_on sg_key (signal_table k (db w1))" using kind uniq by (auto simp: taste_unique_def)
  note likes_listed [OF this, of a i]
  moreover have "(case row_with sg_key (a, i) (signal_table k (db w1)) of None \<Rightarrow> False | Some r \<Rightarrow> sg_on r) =
      (case last_of chg_key (changes_in feed) (SignalOf k a i) of None \<Rightarrow> False | Some d \<Rightarrow> fst (chg_val d))"
    using look
    by (cases "row_with sg_key (a, i) (signal_table k (db w1))"; cases "last_of chg_key (changes_in feed) (SignalOf k a i)")
      (auto simp del: signal_table.simps, (metis fst_conv)+)
  ultimately show ?thesis by simp
qed

text \<open>C26: The worker recommends from what listeners last said: once every committed event of
  the Library Service and the Social Graph was handled, in whatever order, however often, and
  with calls lost, the likes and follows its queries return are the items saved in the Library and the artists
  followed, if the events about each one carry growing times.\<close>

theorem taste_follows_services:
  assumes lib: "lw = run_library ts (library_start f c u x)" and soc: "sw = run_social ss (social_start f' c' u' x')"
    and run: "taste_run rs w = (vs, w1)" and start: "db w = \<lparr>liked_tracks = [], liked_albums = [], followed_artists = [], track_features = []\<rparr>"
    and told: "set (service_feed (log lw) (log sw)) \<subseteq> set vs"
    and only: "list_all (\<lambda>r. rec_value r \<in> set (service_feed (log lw) (log sw)) \<or> no_signal (rec_value r)) rs"
    and grow: "times_grow chg_key chg_at (changes_in (service_feed (log lw) (log sw)))"
  shows "((a, i) \<in> set (map sg_key (filter sg_on (liked_tracks (db w1)))) \<longleftrightarrow> saved_time (db lw) (a, KindTrack, i) \<noteq> None) \<and>
    ((a, i) \<in> set (map sg_key (filter sg_on (liked_albums (db w1)))) \<longleftrightarrow> saved_time (db lw) (a, KindAlbum, i) \<noteq> None) \<and>
    ((a, i) \<in> set (map sg_key (filter sg_on (followed_artists (db w1)))) \<longleftrightarrow> follow_time (db sw) (a, ''artist'', i) \<noteq> None)"
proof -
  let ?feed = "service_feed (log lw) (log sw)"
  have li: "saved_time (db lw) = library_replay (log lw)" "list_all library_typed (log lw)"
    using run_library_inv [OF library_start_inv] unfolding lib library_inv_def by blast+
  have si: "follow_time (db sw) = social_replay (log sw)" "list_all social_typed (log sw)"
    using run_social_inv [OF social_start_inv] unfolding soc social_inv_def by blast+
  have h: "handled v" if "v \<in> set ?feed" for v using taste_run_handled [OF run] told that by blast
  have lc: "list_all (\<lambda>m. change_of (seen_as OfLibrary m) = Some (library_change (env_payload (msg_value m)))) (log lw)"
    using li(2) h by (auto simp: list_all_iff service_feed_def intro!: handled_library)
  have sc: "list_all (\<lambda>m. change_of (seen_as OfSocial m) = social_change (env_payload (msg_value m))) (log sw)"
    using si(2) h by (auto simp: list_all_iff service_feed_def intro!: handled_social)
  note q = told_signals [OF run start told only grow, of _ a i]
  have split: "last_of chg_key (changes_in ?feed) k =
      (case last_of chg_key (changes_in (map (seen_as OfSocial) (log sw))) k of None \<Rightarrow> last_of chg_key (changes_in (map (seen_as OfLibrary) (log lw))) k
        | Some c \<Rightarrow> Some c)" for k
    by (simp add: service_feed_def last_of_append)
  have "signal_table ''track'' (db w1) = liked_tracks (db w1)" "signal_table ''album'' (db w1) = liked_albums (db w1)"
    "signal_table ''artist'' (db w1) = followed_artists (db w1)" by simp_all
  then show ?thesis
    using q [of "''track''"] q [of "''album''"] q [of "''artist''"] library_last [OF lc, of a i] social_last [OF sc, of a i]
    by (simp add: split li(1) si(1) split: option.splits)
qed

section \<open>When the clock goes back\<close>

definition kind_text :: "lib_kind \<Rightarrow> string" where
  "kind_text k = (case k of KindTrack \<Rightarrow> ''track'' | KindAlbum \<Rightarrow> ''album'')"

lemma remove_item_event:
  assumes "remove_item u k i w = (Inr (), w1)" "has_row li_key (u, k, i) (lib_items (db w))" "unique_on li_key (lib_items (db w))"
  shows "saved_time (db w1) (u, k, i) = None \<and> (\<exists>m. log w1 = log w @ [m] \<and>
    carries m (removed_event \<lparr>li_user = u, li_kind = k, li_entity = i, li_at = clock w (Suc (tick w))\<rparr>))"
proof -
  let ?i = "\<lparr>li_user = u, li_kind = k, li_entity = i, li_at = clock w (Suc (tick w))\<rparr>"
  let ?d = "(db w)\<lparr>lib_items := delete_rows (\<lambda>r. li_key r = (u, k, i)) (lib_items (db w))\<rparr>"
  have one: "affected (\<lambda>r. li_key r = (u, k, i)) (lib_items (db w)) = 1"
    using affected_unique [OF assms(3), of "(u, k, i)"] affected_key [of li_key "(u, k, i)" "lib_items (db w)"] assms(2) by simp
  define w2 where "w2 = w\<lparr>tick := Suc (Suc (Suc (tick w))), db := ?d\<rparr>"
  obtain w3 where p: "library_publish (removed_event ?i) w2 = (Inr (), w3)" and e: "w1 = advance w3"
    using assms(1) one by (auto simp: remove_item_def act_inv repo_remove_def w2_def split: if_splits)
  from library_publish_Inr [OF p] obtain m where m: "db w3 = db w2" "log w3 = log w2 @ [m]" "carries m (removed_event ?i)" by blast
  have "saved_time ?d (u, k, i) = None" by (simp add: saved_time_def row_with_delete_key)
  then show ?thesis using m by (simp add: e w2_def)
qed

text \<open>C27: The times of events are read before the row is locked and on different machines, so
  they need not grow: when an item is removed at a time before that of its save, the worker,
  told of the removal, keeps the like, while the Library has let the item go.\<close>

theorem earlier_removal_keeps_like:
  assumes saved: "saved_time (db lw) (u, k, i) = Some s" "unique_on li_key (lib_items (db lw))"
    and gone: "remove_item u k i lw = (Inr (), lw1)" "time_truncate microsecond (clock lw (Suc (tick lw))) < s"
    and liked: "look_taste (db w) (SignalOf (kind_text k) u i) = Some ((True, None), s)"
    and told: "rec_value r = seen_as OfLibrary (last (log lw1))"
  shows "saved_time (db lw1) (u, k, i) = None \<and>
    look_taste (db (snd (handle_taste r w))) (SignalOf (kind_text k) u i) = Some ((True, None), s)"
proof -
  have "has_row li_key (u, k, i) (lib_items (db lw))" using saved(1) by (auto simp: saved_time_def has_row_row_with)
  from remove_item_event [OF gone(1) this saved(2)] obtain m where m: "saved_time (db lw1) (u, k, i) = None" "log lw1 = log lw @ [m]"
    "carries m (removed_event \<lparr>li_user = u, li_kind = k, li_entity = i, li_at = clock lw (Suc (tick lw))\<rparr>)" by blast
  have v: "rec_value r = seen_as OfLibrary m" using told m(2) by simp
  have late: "chg_at d < s" if "change_of (rec_value r) = Some d" for d
    using that gone(2) m(3)
    by (cases k) (auto simp: v seen_as_def change_of_def decode_envelope_def like_change_def carries_def removed_event_def split: if_splits)
  have "db (snd (handle_taste r w)) = db w \<or> (\<exists>d. change_of (rec_value r) = Some d \<and> known_kind d \<and> db (snd (handle_taste r w)) = put_change d (db w))"
    using handle_taste_changes [of r w] by (simp add: changes_by_def)
  then have "look_taste (db (snd (handle_taste r w))) (SignalOf (kind_text k) u i) = Some ((True, None), s)"
  proof (elim disjE exE conjE)
    fix d
    assume d: "change_of (rec_value r) = Some d" "known_kind d" "db (snd (handle_taste r w)) = put_change d (db w)"
    show ?thesis unfolding d(3) look_put_change [OF d(2)] liked using late [OF d(1)] by simp
  next
    assume "db (snd (handle_taste r w)) = db w"
    then show ?thesis using liked by (simp only:)
  qed
  with m(1) show ?thesis by (simp only:)
qed

section \<open>Witnesses\<close>

definition sample_library :: "(nat \<Rightarrow> time) \<Rightarrow> library_txn list \<Rightarrow> library_world" where
  "sample_library c ts = run_library ts (library_start (\<lambda>_. Fine) c (\<lambda>n. Some (of_nat n + 1)) (\<lambda>_ _. (200, Some ''READY'')))"

definition sample_graph :: social_world where
  "sample_graph = run_social [FollowTx 1 (TargetArtist, 8), FollowTx 1 (TargetUser, 2), UnfollowTx 1 (TargetArtist, 8)]
     (social_start (\<lambda>_. Fine) (\<lambda>n. 4000 + int n * 1000) (\<lambda>n. Some (of_nat n + 100)) \<lparr>user_status = \<lambda>_. 200, artist_status = \<lambda>_. 200\<rparr>)"

definition sample_taste :: taste_world where
  "sample_taste = \<lparr>tick = 0, fates = (\<lambda>n. if n = 1 then ReplyLost else Fine), clock = int, fresh = (\<lambda>_. None),
     db = \<lparr>liked_tracks = [], liked_albums = [], followed_artists = [], track_features = []\<rparr>, outbox = [], next_row = 1, ext = ()\<rparr>"

definition taste_record :: "taste_payload wire \<Rightarrow> taste_payload wire krecord" where
  "taste_record v = \<lparr>rec_topic = ''events'', rec_partition = 0, rec_offset = 0, rec_key = 1, rec_value = v, rec_headers = []\<rparr>"

definition busy_library :: library_world where
  "busy_library = sample_library (\<lambda>n. 4000 + int n * 1000) [SaveTx 1 KindTrack 5, SaveTx 1 KindAlbum 6, RemoveTx 1 KindTrack 5]"

text \<open>The events arrive backwards, and again; a reply is lost.\<close>

definition sample_feed :: "taste_payload wire list" where
  "sample_feed = service_feed (log busy_library) (log sample_graph)"

definition sample_records :: "taste_payload wire krecord list" where
  "sample_records = map taste_record (rev sample_feed @ sample_feed)"

definition sample_told :: "taste_payload wire list \<times> taste_world" where
  "sample_told = taste_run sample_records sample_taste"

theorem taste_follows_services_witness:
  "((1, 5) \<in> set (map sg_key (filter sg_on (liked_tracks (db (snd sample_told))))) \<longleftrightarrow> saved_time (db busy_library) (1, KindTrack, 5) \<noteq> None) \<and>
   saved_time (db busy_library) (1, KindTrack, 5) = None \<and> sample_feed \<noteq> []"
proof -
  have "set sample_feed \<subseteq> set (fst sample_told)" by code_simp
  moreover have "list_all (\<lambda>r. rec_value r \<in> set sample_feed \<or> no_signal (rec_value r)) sample_records"
    by (simp add: sample_records_def taste_record_def list_all_iff)
  moreover have "times_grow chg_key chg_at (changes_in sample_feed)" by code_simp
  moreover have "taste_run sample_records sample_taste = (fst sample_told, snd sample_told)" by (simp add: sample_told_def)
  moreover have "saved_time (db busy_library) (1, KindTrack, 5) = None \<and> sample_feed \<noteq> []" by code_simp
  ultimately show ?thesis
    using taste_follows_services [OF busy_library_def [unfolded sample_library_def] sample_graph_def, of sample_records sample_taste
        "fst sample_told" "snd sample_told" 1 5]
    by (simp add: sample_feed_def sample_taste_def)
qed

definition early_library :: library_world where
  "early_library = sample_library (\<lambda>n. if n < 5 then 9000 else 3000) [SaveTx 1 KindTrack 5]"

theorem earlier_removal_keeps_like_witness:
  "saved_time (db (snd (remove_item 1 KindTrack 5 early_library))) (1, KindTrack, 5) = None \<and>
   look_taste (db (snd (handle_taste (taste_record (seen_as OfLibrary (last (log (snd (remove_item 1 KindTrack 5 early_library))))))
     (snd (taste_run [taste_record (seen_as OfLibrary (last (log early_library)))] sample_taste))))) (SignalOf (kind_text KindTrack) 1 5) = Some ((True, None), 9000)"
proof (rule earlier_removal_keeps_like)
  show "saved_time (db early_library) (1, KindTrack, 5) = Some 9000" by code_simp
  show "unique_on li_key (lib_items (db early_library))" by code_simp
  have "fst (remove_item 1 KindTrack 5 early_library) = Inr ()" by code_simp
  then show "remove_item 1 KindTrack 5 early_library = (Inr (), snd (remove_item 1 KindTrack 5 early_library))" by (simp add: prod_eq_iff)
  show "time_truncate microsecond (clock early_library (Suc (tick early_library))) < 9000" by code_simp
  show "look_taste (db (snd (taste_run [taste_record (seen_as OfLibrary (last (log early_library)))] sample_taste))) (SignalOf (kind_text KindTrack) 1 5) =
      Some ((True, None), 9000)" by code_simp
  show "rec_value (taste_record (seen_as OfLibrary (last (log (snd (remove_item 1 KindTrack 5 early_library)))))) =
      seen_as OfLibrary (last (log (snd (remove_item 1 KindTrack 5 early_library))))" by (simp add: taste_record_def)
qed

end
