(* ===== verification/Recommend.thy ===== *)
theory Recommend
  imports Scoring Taste Outside Http
begin

text \<open>
  The builds of the Recommendation Worker and the Recommendation Service that serves them: a build
  reads the Catalog, ClickHouse and the tables of \<open>Taste\<close>, scores with \<open>Scoring\<close> and
  publishes sets to Redis, the service reads them (\<^verbatim>\<open>services/recommendation\<close>). What the Catalog's
  API and the queries on ClickHouse answer is part of the state outside; the JSON of a set is
  the set itself.
\<close>

section \<open>Sets in Redis\<close>

record rec_set =
  rs_version :: int
  rs_algorithm :: string
  rs_generated :: time
  rs_tracks :: "scored list"
  rs_artists :: "scored list"

datatype set_key = PopularKey | UserKey uuid

abbreviation RecVersion :: int where "RecVersion \<equiv> 1"

text \<open>A value that does not decode is \<open>None\<close>; the time is when it expires.\<close>

type_synonym set_store = "set_key \<Rightarrow> (rec_set option \<times> time) option"

record album_dto =
  ad_id :: "uuid option"
  ad_released :: "time option"
  ad_genres :: "uuid option list"

record track_dto =
  td_id :: "uuid option"
  td_artists :: "uuid option list"
  td_status :: string

record plays_row =
  pr_track :: "uuid option"
  pr_plays :: "64 word"

record history_row =
  hr_user :: "uuid option"
  hr_track :: "uuid option"
  hr_counts :: interaction

record rec_ext =
  rx_albums :: "string \<Rightarrow> (album_dto list \<times> string \<times> bool) option"
  rx_tracks :: "uuid \<Rightarrow> track_dto list option"
  rx_plays :: "int \<Rightarrow> plays_row list option"
  rx_history :: "int \<Rightarrow> history_row list option"
  rx_sets :: set_store

type_synonym 'a build_act = "(taste_db, rec_ext, unit, unit, 'a) act"
type_synonym build_world = "(taste_db, rec_ext, unit) world"

section \<open>The catalog\<close>

definition parse_ids :: "uuid option list \<Rightarrow> uuid list" where
  "parse_ids = List.map_filter (\<lambda>i. i)"

definition ready_track :: "album_dto \<Rightarrow> uuid \<Rightarrow> track_dto \<Rightarrow> rec_track option" where
  "ready_track a album t = (case td_id t of None \<Rightarrow> None | Some i \<Rightarrow> if td_status t \<noteq> ''READY'' then None
     else Some \<lparr>tk_id = i, tk_artists = parse_ids (td_artists t), tk_album = album, tk_genres = parse_ids (ad_genres a),
       tk_released = (case ad_released a of None \<Rightarrow> 0 | Some d \<Rightarrow> d), tk_plays = 0, tk_sound = None\<rparr>)"

definition album_tracks :: "album_dto \<Rightarrow> rec_track list build_act" where
  "album_tracks a = (case ad_id a of None \<Rightarrow> raise Infra
     | Some album \<Rightarrow> bnd (call (\<lambda>x. case rx_tracks x album of None \<Rightarrow> Inl Infra | Some ts \<Rightarrow> Inr (ts, x)))
         (\<lambda>ts. ret (List.map_filter (ready_track a album) ts)))"

fun all_tracks :: "album_dto list \<Rightarrow> rec_track list \<Rightarrow> rec_track list build_act" where
  "all_tracks [] out = ret out"
| "all_tracks (a # xs) out = bnd (album_tracks a) (\<lambda>ts. all_tracks xs (out @ ts))"

text \<open>\<open>Tracks\<close>: \<open>None\<close> means that the pages did not end within the fuel.\<close>

fun catalog_tracks :: "nat \<Rightarrow> string \<Rightarrow> rec_track list \<Rightarrow> rec_track list option build_act" where
  "catalog_tracks 0 cursor out = ret None"
| "catalog_tracks (Suc n) cursor out =
     bnd (call (\<lambda>x. case rx_albums x cursor of None \<Rightarrow> Inl Infra | Some p \<Rightarrow> Inr (p, x))) (\<lambda>(page, nxt, more).
     bnd (all_tracks page out) (\<lambda>out1. if \<not> more \<or> nxt = '''' then ret (Some out1) else catalog_tracks n nxt out1))"

section \<open>What the worker knows\<close>

text \<open>The rows of a query fill a map; one that does not parse fails the query.\<close>

fun plays_map :: "plays_row list \<Rightarrow> (uuid \<times> 64 word) list \<Rightarrow> (uuid \<times> 64 word) list option" where
  "plays_map [] m = Some m"
| "plays_map (r # rs) m = (case pr_track r of None \<Rightarrow> None | Some i \<Rightarrow> plays_map rs (AList.update i (pr_plays r) m))"

fun history_map :: "history_row list \<Rightarrow> ((uuid \<times> uuid) \<times> interaction) list \<Rightarrow> ((uuid \<times> uuid) \<times> interaction) list option" where
  "history_map [] m = Some m"
| "history_map (r # rs) m = (case (hr_user r, hr_track r) of
       (Some u, Some t) \<Rightarrow> history_map rs (AList.update (u, t) (hr_counts r) m) | _ \<Rightarrow> None)"

definition read_plays :: "int \<Rightarrow> (uuid \<times> 64 word) list build_act" where
  "read_plays days = call (\<lambda>x. case rx_plays x days of None \<Rightarrow> Inl Infra
     | Some rs \<Rightarrow> (case plays_map rs [] of None \<Rightarrow> Inl Infra | Some m \<Rightarrow> Inr (m, x)))"

definition read_history :: "int \<Rightarrow> ((uuid \<times> uuid) \<times> interaction) list build_act" where
  "read_history days = call (\<lambda>x. case rx_history x days of None \<Rightarrow> Inl Infra
     | Some rs \<Rightarrow> (case history_map rs [] of None \<Rightarrow> Inl Infra | Some m \<Rightarrow> Inr (m, x)))"

definition repo_sounds :: "(uuid \<times> sound) list build_act" where
  "repo_sounds = query (\<lambda>d. map (\<lambda>f. (fe_track f, new_sound (fe_analyzer f) (fe_bpm f) (fe_lufs f) (fe_lra f) (fe_silence f))) (track_features d))"

text \<open>Everything known about all users, as pairs of users and items, and the signals of one user.\<close>

record all_signals =
  al_history :: "((uuid \<times> uuid) \<times> interaction) list"
  al_tracks :: "(uuid \<times> uuid) list"
  al_albums :: "(uuid \<times> uuid) list"
  al_follows :: "(uuid \<times> uuid) list"

definition of_user :: "uuid \<Rightarrow> (uuid \<times> 'i) list \<Rightarrow> 'i list" where
  "of_user u ps = map snd (filter (\<lambda>p. fst p = u) ps)"

definition user_signals :: "uuid \<Rightarrow> all_signals \<Rightarrow> signals" where
  "user_signals u a = \<lparr>si_history = map (\<lambda>p. (snd (fst p), snd p)) (filter (\<lambda>p. fst (fst p) = u) (al_history a)),
     si_tracks = of_user u (al_tracks a), si_albums = of_user u (al_albums a), si_artists = of_user u (al_follows a)\<rparr>"

definition known_users :: "all_signals \<Rightarrow> uuid list" where
  "known_users a = remdups (map (\<lambda>p. fst (fst p)) (al_history a) @ map fst (al_tracks a) @ map fst (al_albums a) @ map fst (al_follows a))"

section \<open>A build\<close>

record build_options =
  bo_history_days :: int
  bo_popularity_days :: int
  bo_tracks :: nat
  bo_artists :: nat

text \<open>The mathematics, the order of visits of a map of sets, and the life of a set.\<close>

record build_deps =
  bd_math :: go_math
  bd_keys :: "set_key list \<Rightarrow> set_key list"
  bd_ttl :: duration

record build_stats =
  bs_candidates :: nat
  bs_users :: nat
  bs_took :: duration

definition Algorithm :: string where "Algorithm = ''mvp-content-v1''"

definition new_set :: "time \<Rightarrow> scored list \<times> scored list \<Rightarrow> rec_set" where
  "new_set tm r = \<lparr>rs_version = RecVersion, rs_algorithm = Algorithm, rs_generated = tm, rs_tracks = fst r, rs_artists = snd r\<rparr>"

definition with_plays :: "(uuid \<times> 64 word) list \<Rightarrow> (uuid \<times> sound) list \<Rightarrow> rec_track \<Rightarrow> rec_track" where
  "with_plays plays sounds t = t\<lparr>tk_plays := (case map_of plays (tk_id t) of None \<Rightarrow> 0 | Some n \<Rightarrow> n), tk_sound := map_of sounds (tk_id t)\<rparr>"

text \<open>The set of one user, where there is one.\<close>

definition personal_set :: "go_math \<Rightarrow> catalog \<Rightarrow> build_options \<Rightarrow> time \<Rightarrow> signals \<Rightarrow> rec_set option" where
  "personal_set g cat o' start s =
     (if signals_empty s then None
      else let r = recommend g cat s (bo_tracks o') (bo_artists o') in
        if fst r = [] \<and> snd r = [] then None else Some (new_set start r))"

definition personal_sets :: "go_math \<Rightarrow> catalog \<Rightarrow> build_options \<Rightarrow> time \<Rightarrow> all_signals \<Rightarrow> (set_key \<times> rec_set) list" where
  "personal_sets g cat o' start a = List.map_filter (\<lambda>u. map_option (Pair (UserKey u))
     (personal_set g cat o' start (user_signals u a))) (ids_order g (known_users a))"

text \<open>
  A pipeline of commands is sent at once; a lost connection can lose any of them, and then
  it fails. Redis counts the life of a set from its own clock.
\<close>

definition set_command :: "duration \<Rightarrow> set_key \<Rightarrow> rec_set \<Rightarrow> unit build_act" where
  "set_command ttl k s = bnd now_utc (\<lambda>now. call (\<lambda>x. Inr ((), x\<lparr>rx_sets := (rx_sets x)(k \<mapsto> (Some s, now + ttl))\<rparr>)))"

fun exec_pipe :: "duration \<Rightarrow> (set_key \<times> rec_set) list \<Rightarrow> bool build_act" where
  "exec_pipe ttl [] = ret True"
| "exec_pipe ttl ((k, s) # xs) = bnd (attempt (set_command ttl k s)) (\<lambda>r.
     bnd (exec_pipe ttl xs) (\<lambda>ok. ret (ok \<and> r = Inr ())))"

definition flush :: "duration \<Rightarrow> (set_key \<times> rec_set) list \<Rightarrow> unit build_act" where
  "flush ttl pipe = (if pipe = [] then ret () else bnd (exec_pipe ttl pipe) (\<lambda>ok. if ok then ret () else raise Infra))"

abbreviation pipelineSize :: nat where "pipelineSize \<equiv> 500"

fun publish_sets :: "duration \<Rightarrow> (set_key \<times> rec_set) list \<Rightarrow> (set_key \<times> rec_set) list \<Rightarrow> unit build_act" where
  "publish_sets ttl pipe [] = flush ttl pipe"
| "publish_sets ttl pipe (s # xs) =
     (if length pipe + 1 = pipelineSize then bnd (flush ttl (pipe @ [s])) (\<lambda>_. publish_sets ttl [] xs)
      else publish_sets ttl (pipe @ [s]) xs)"

text \<open>\<open>Build\<close>: the catalog with plays and sounds, the signals, the sets, their publication.\<close>

definition build_catalog :: "build_options \<Rightarrow> nat \<Rightarrow> time \<Rightarrow> catalog option build_act" where
  "build_catalog o' fuel start = bnd (catalog_tracks fuel '''' []) (\<lambda>r. case r of None \<Rightarrow> ret None | Some tracks \<Rightarrow>
     bnd (read_plays (bo_popularity_days o')) (\<lambda>plays. bnd repo_sounds (\<lambda>sounds.
     ret (Some (new_catalog (map (with_plays plays sounds) tracks) start)))))"

definition build_signals :: "build_options \<Rightarrow> all_signals build_act" where
  "build_signals o' = bnd (read_history (bo_history_days o')) (\<lambda>hist. bnd repo_likes (\<lambda>(ts, as'). bnd repo_follows (\<lambda>fs.
     ret \<lparr>al_history = hist, al_tracks = ts, al_albums = as', al_follows = fs\<rparr>)))"

definition built_sets :: "build_deps \<Rightarrow> build_options \<Rightarrow> catalog \<Rightarrow> time \<Rightarrow> all_signals \<Rightarrow> (set_key \<times> rec_set) list" where
  "built_sets d o' cat start a = (PopularKey, new_set start (popular (bd_math d) cat (bo_tracks o') (bo_artists o'))) #
     personal_sets (bd_math d) cat o' start a"

definition publish_build :: "build_deps \<Rightarrow> build_options \<Rightarrow> time \<Rightarrow> catalog \<Rightarrow> build_stats option build_act" where
  "publish_build d o' start cat = bnd (build_signals o') (\<lambda>a. let sets = built_sets d o' cat start a in
     bnd (publish_sets (bd_ttl d) [] (in_visits (bd_keys d) sets)) (\<lambda>_.
     bnd now_utc (\<lambda>end_at. ret (Some \<lparr>bs_candidates = length (cl_tracks cat), bs_users = length sets - 1, bs_took = time_sub end_at start\<rparr>))))"

definition build :: "build_deps \<Rightarrow> build_options \<Rightarrow> nat \<Rightarrow> build_stats option build_act" where
  "build d o' fuel = bnd now_utc (\<lambda>start. bnd (build_catalog o' fuel start) (\<lambda>r. case r of
     None \<Rightarrow> ret None | Some cat \<Rightarrow> publish_build d o' start cat))"

section \<open>The service\<close>

text \<open>The service has no tables and reads the same Redis.\<close>

record rec_result =
  rr_source :: string
  rr_algorithm :: string
  rr_generated :: time
  rr_tracks :: "scored list"
  rr_artists :: "scored list"

definition store_get :: "set_key \<Rightarrow> rec_set option build_act" where
  "store_get k = bnd now_utc (\<lambda>now. call (\<lambda>x. case rx_sets x k of
     None \<Rightarrow> Inr (None, x)
   | Some (v, until) \<Rightarrow> if now < until then (case v of None \<Rightarrow> Inl Infra | Some s \<Rightarrow> Inr (Some s, x)) else Inr (None, x)))"

definition get_set :: "set_key \<Rightarrow> rec_set option build_act" where
  "get_set k = bnd (store_get k) (\<lambda>r. ret (case r of None \<Rightarrow> None | Some s \<Rightarrow> if rs_version s \<noteq> RecVersion then None else Some s))"

definition rec_result_of :: "string \<Rightarrow> rec_set \<Rightarrow> rec_result" where
  "rec_result_of source s = \<lparr>rr_source = source, rr_algorithm = rs_algorithm s, rr_generated = rs_generated s,
     rr_tracks = rs_tracks s, rr_artists = rs_artists s\<rparr>"

definition popular_for :: "rec_result build_act" where
  "popular_for = bnd (get_set PopularKey) (\<lambda>r. ret (case r of
     None \<Rightarrow> \<lparr>rr_source = ''none'', rr_algorithm = '''', rr_generated = 0, rr_tracks = [], rr_artists = []\<rparr>
   | Some s \<Rightarrow> rec_result_of ''popular'' s))"

definition recommendations_for :: "uuid \<Rightarrow> rec_result build_act" where
  "recommendations_for user = (if user \<noteq> uuid_Nil
     then bnd (get_set (UserKey user)) (\<lambda>r. case r of Some s \<Rightarrow> ret (rec_result_of ''personal'' s) | None \<Rightarrow> popular_for)
     else popular_for)"

section \<open>Routes\<close>

text \<open>
  The caller is the identifier in the verified token, if there is one and it parses. Every
  response says where the set is from, with which algorithm and when it was built.
\<close>

record rec_meta =
  rm_source :: string
  rm_algorithm :: string
  rm_generated :: "time option"

datatype rec_body = HomeBody rec_meta "scored list" "scored list" | ListBody rec_meta "scored list"

definition meta_of :: "rec_result \<Rightarrow> rec_meta" where
  "meta_of r = \<lparr>rm_source = rr_source r, rm_algorithm = rr_algorithm r, rm_generated = (if rr_generated r = 0 then None else Some (rr_generated r))\<rparr>"

definition rec_caller :: "uuid option \<Rightarrow> rec_result build_act" where
  "rec_caller who = recommendations_for (case who of None \<Rightarrow> uuid_Nil | Some u \<Rightarrow> u)"

definition rec_down :: "rec_body response" where
  "rec_down = Problem 503 ''RECOMMENDATIONS_UNAVAILABLE'' []"

definition rec_home :: "uuid option \<Rightarrow> build_world \<Rightarrow> rec_body response \<times> build_world" where
  "rec_home who w = (case rec_caller who w of
     (Inl e, w1) \<Rightarrow> (rec_down, w1)
   | (Inr r, w1) \<Rightarrow> (Reply 200 (HomeBody (meta_of r) (take 20 (rr_tracks r)) (take 10 (rr_artists r))), w1))"

definition rec_limit :: "string \<Rightarrow> nat option" where
  "rec_limit raw = (if raw = '''' then Some 20 else case atoi raw of None \<Rightarrow> None | Some n \<Rightarrow> if n < 1 \<or> 50 < n then None else Some (nat n))"

definition rec_list :: "(rec_result \<Rightarrow> scored list) \<Rightarrow> string \<Rightarrow> uuid option \<Rightarrow> build_world \<Rightarrow> rec_body response \<times> build_world" where
  "rec_list pick raw who w = (case rec_limit raw of
     None \<Rightarrow> (Problem 400 ''VALIDATION_ERROR'' [(''limit'', ''must be an integer within 1..50'')], w)
   | Some n \<Rightarrow> (case rec_caller who w of
       (Inl e, w1) \<Rightarrow> (rec_down, w1)
     | (Inr r, w1) \<Rightarrow> (Reply 200 (ListBody (meta_of r) (take n (pick r))), w1)))"

definition get_rec_tracks :: "string \<Rightarrow> uuid option \<Rightarrow> build_world \<Rightarrow> rec_body response \<times> build_world" where
  "get_rec_tracks = rec_list rr_tracks"

definition get_rec_artists :: "string \<Rightarrow> uuid option \<Rightarrow> build_world \<Rightarrow> rec_body response \<times> build_world" where
  "get_rec_artists = rec_list rr_artists"
section \<open>Reading changes nothing\<close>

text \<open>An action that reads: the tables and the state outside stay, time goes on.\<close>

definition quiet :: "('d, 'x, 'p, 'e, 'a) act \<Rightarrow> bool" where
  "quiet m \<longleftrightarrow> (\<forall>w r w1. m w = (r, w1) \<longrightarrow> ext w1 = ext w \<and> db w1 = db w \<and> clock w1 = clock w \<and> tick w \<le> tick w1)"

lemma quietD:
  assumes "quiet m" "m w = (r, w1)"
  shows "ext w1 = ext w" "db w1 = db w" "clock w1 = clock w" "tick w \<le> tick w1"
  using assms unfolding quiet_def by blast+

named_theorems quiet_rules \<open>actions that only read\<close>

lemma quiet_ret [quiet_rules]: "quiet (ret x)" "quiet (raise f)" "quiet now_utc"
  by (simp_all add: quiet_def ret_def raise_def now_utc_def)

lemma quiet_query [quiet_rules]: "quiet (query f)"
  by (auto simp: quiet_def query_def stmt_def split: fate.splits)

lemma quiet_call [quiet_rules]: "(\<And>x y x1. f x = Inr (y, x1) \<Longrightarrow> x1 = x) \<Longrightarrow> quiet (call f)"
  by (auto simp: quiet_def call_def split: fate.splits sum.splits)

lemma quiet_bnd [quiet_rules]:
  fixes m :: "('d, 'x, 'p, 'e, 'a) act"
  assumes m: "quiet m" and f: "\<And>x. quiet (f x)"
  shows "quiet (bnd m f)"
  unfolding quiet_def [of "bnd m f"]
proof (intro allI impI)
  fix w :: "('d, 'x, 'p) world" and r w2
  assume run: "bnd m f w = (r, w2)"
  obtain q w1 where q: "m w = (q, w1)" by fastforce
  note a = quietD [OF m q]
  show "ext w2 = ext w \<and> db w2 = db w \<and> clock w2 = clock w \<and> tick w \<le> tick w2"
  proof (cases q)
    case (Inl e)
    then show ?thesis using run q a by (simp add: bnd_def)
  next
    case (Inr x)
    then have "f x w1 = (r, w2)" using run q by (simp add: bnd_def)
    from quietD [OF f this] a show ?thesis by simp
  qed
qed

lemma quiet_tracks [quiet_rules]: "quiet (album_tracks a)"
  unfolding album_tracks_def by (cases "ad_id a") (auto intro!: quiet_rules split: option.splits)

lemma quiet_all_tracks [quiet_rules]: "quiet (all_tracks xs out)"
  by (induction xs arbitrary: out) (auto intro!: quiet_rules)

lemma quiet_catalog [quiet_rules]: "quiet (catalog_tracks n cursor out)"
  by (induction n arbitrary: cursor out) (auto intro!: quiet_rules split: option.splits)

lemma quiet_reads [quiet_rules]: "quiet (read_plays days)" "quiet (read_history days)" "quiet repo_sounds"
  "quiet (likes_of table)" "quiet repo_likes" "quiet repo_follows"
  unfolding read_plays_def read_history_def repo_sounds_def repo_likes_def repo_follows_def likes_of_def
  by (auto intro!: quiet_rules split: option.splits)

lemma quiet_get: "quiet (store_get k)" "quiet (get_set k)"
  unfolding store_get_def get_set_def by (auto intro!: quiet_rules split: option.splits if_splits)

text \<open>What the queries return.\<close>

lemma query_value: "query f w = (Inr x, w1) \<Longrightarrow> x = f (db w)"
  by (auto simp: query_def stmt_def split: fate.splits)

lemma bndD:
  assumes "bnd m f w = (Inr y, w2)"
  obtains x w1 where "m w = (Inr x, w1)" "f x w1 = (Inr y, w2)"
  using assms by (auto simp: bnd_def split: prod.splits sum.splits)

definition likes_in :: "signal_row list \<Rightarrow> (uuid \<times> uuid) list" where
  "likes_in rs = map sg_key (filter sg_on rs)"

lemma likes_of_value: "likes_of table w = (Inr xs, w1) \<Longrightarrow> xs = likes_in (table (db w))"
  unfolding likes_of_def likes_in_def by (rule query_value)

lemma repo_likes_value:
  assumes "repo_likes w = (Inr (ts, as'), w1)"
  shows "ts = likes_in (liked_tracks (db w))" "as' = likes_in (liked_albums (db w))"
proof -
  from assms obtain x w2 where a: "likes_of liked_tracks w = (Inr x, w2)" "bnd (likes_of liked_albums) (\<lambda>as'. ret (x, as')) w2 = (Inr (ts, as'), w1)"
    unfolding repo_likes_def by (rule bndD)
  from a(2) obtain y w3 where b: "likes_of liked_albums w2 = (Inr y, w3)" "ts = x" "as' = y" by (rule bndD) (simp add: ret_def)
  have "db w2 = db w" by (rule quietD(2) [OF quiet_reads(4) a(1)])
  then show "ts = likes_in (liked_tracks (db w))" "as' = likes_in (liked_albums (db w))"
    using likes_of_value [OF a(1)] likes_of_value [OF b(1)] b(2,3) by simp_all
qed

lemma read_plays_value: "read_plays days w = (Inr m, w1) \<Longrightarrow> \<exists>rs. rx_plays (ext w) days = Some rs \<and> plays_map rs [] = Some m"
  by (auto simp: read_plays_def call_def split: fate.splits option.splits)

lemma read_history_value: "read_history days w = (Inr m, w1) \<Longrightarrow> \<exists>rs. rx_history (ext w) days = Some rs \<and> history_map rs [] = Some m"
  by (auto simp: read_history_def call_def split: fate.splits option.splits)

section \<open>Publishing\<close>

text \<open>What a successful publication from a time on leaves.\<close>

definition stored_from :: "duration \<Rightarrow> time \<Rightarrow> (set_key \<times> rec_set) list \<Rightarrow> set_store \<Rightarrow> set_store \<Rightarrow> bool" where
  "stored_from ttl start xs c c1 \<longleftrightarrow> (\<forall>k. k \<notin> fst ` set xs \<longrightarrow> c1 k = c k) \<and> (\<forall>k s. (k, s) \<in> set xs \<longrightarrow> (\<exists>t\<ge>start. c1 k = Some (Some s, t + ttl)))"

lemma stored_from_Nil [simp]: "stored_from ttl start [] c c1 \<longleftrightarrow> c1 = c"
  by (auto simp: stored_from_def)

lemma stored_from_append:
  assumes "stored_from ttl start xs c c1" "stored_from ttl start ys c1 c2" "distinct (map fst (xs @ ys))"
  shows "stored_from ttl start (xs @ ys) c c2"
  unfolding stored_from_def
proof (intro conjI allI impI)
  fix k
  assume "k \<notin> fst ` set (xs @ ys)"
  then show "c2 k = c k" using assms(1,2) by (simp add: stored_from_def image_Un)
next
  fix k s
  assume m: "(k, s) \<in> set (xs @ ys)"
  show "\<exists>t\<ge>start. c2 k = Some (Some s, t + ttl)"
  proof (cases "(k, s) \<in> set ys")
    case True
    then show ?thesis using assms(2) by (simp add: stored_from_def)
  next
    case False
    then have x: "(k, s) \<in> set xs" using m by simp
    then have "k \<notin> fst ` set ys" using assms(3) by (force simp: image_iff)
    then have "c2 k = c1 k" using assms(2) by (simp add: stored_from_def)
    with x assms(1) show ?thesis by (simp add: stored_from_def)
  qed
qed

text \<open>The parts of the world that publishing leaves alone.\<close>

definition only_sets :: "build_world \<Rightarrow> build_world \<Rightarrow> bool" where
  "only_sets w w1 \<longleftrightarrow> db w1 = db w \<and> clock w1 = clock w \<and> tick w \<le> tick w1"

lemma only_sets_trans: "only_sets w w1 \<Longrightarrow> only_sets w1 w2 \<Longrightarrow> only_sets w w2"
  by (auto simp: only_sets_def)

lemma set_command_run:
  assumes "set_command ttl k s w = (r, w1)"
  shows "only_sets w w1" "r = Inr () \<Longrightarrow> rx_sets (ext w1) = (rx_sets (ext w))(k \<mapsto> (Some s, clock w (tick w) + ttl))"
  using assms by (auto simp: set_command_def bnd_def now_utc_def call_def only_sets_def split: fate.splits)

lemma exec_pipe_run:
  assumes "exec_pipe ttl xs w = (r, w1)" "mono (clock w)" "start \<le> clock w (tick w)" "distinct (map fst xs)"
  shows "only_sets w w1 \<and> (r = Inr True \<longrightarrow> stored_from ttl start xs (rx_sets (ext w)) (rx_sets (ext w1)))"
  using assms
proof (induction xs arbitrary: w r w1)
  case Nil
  then show ?case by (simp add: ret_def only_sets_def)
next
  case (Cons p xs)
  obtain k s where p: "p = (k, s)" by fastforce
  obtain q w2 where q: "set_command ttl k s w = (q, w2)" by fastforce
  obtain q3 w3 where e: "exec_pipe ttl xs w2 = (q3, w3)" by fastforce
  note a = set_command_run [OF q]
  have m: "mono (clock w2)" "start \<le> clock w2 (tick w2)"
    using a(1) Cons.prems(2,3) by (auto simp: only_sets_def intro: order_trans dest: monoD)
  note ih = Cons.IH [OF e m] 
  have run: "(r, w1) = (case q3 of Inl f \<Rightarrow> (Inl f, w3) | Inr ok \<Rightarrow> (Inr (ok \<and> q = Inr ()), w3))"
    using Cons.prems(1) q e unfolding p by (auto simp: bnd_def attempt_def ret_def split: sum.splits)
  then have w1: "w1 = w3" by (cases q3) simp_all
  have o1: "only_sets w w1" using a(1) ih Cons.prems(4) unfolding w1 by (auto intro: only_sets_trans)
  show ?case
  proof (intro conjI impI)
    assume "r = Inr True"
    then have ok: "q3 = Inr True" "q = Inr ()" using run by (auto split: sum.splits)
    have first: "stored_from ttl start [(k, s)] (rx_sets (ext w)) (rx_sets (ext w2))"
      using a(2) [OF ok(2)] Cons.prems(3) by (auto simp: stored_from_def)
    have "stored_from ttl start xs (rx_sets (ext w2)) (rx_sets (ext w1))" using ih ok(1) Cons.prems(4) unfolding w1 by simp
    from stored_from_append [OF first this] Cons.prems(4) show "stored_from ttl start (p # xs) (rx_sets (ext w)) (rx_sets (ext w1))"
      unfolding p by simp
  qed (rule o1)
qed
lemma flush_run:
  assumes "flush ttl xs w = (r, w1)" "mono (clock w)" "start \<le> clock w (tick w)" "distinct (map fst xs)"
  shows "only_sets w w1 \<and> (r = Inr () \<longrightarrow> stored_from ttl start xs (rx_sets (ext w)) (rx_sets (ext w1)))"
proof (cases "xs = []")
  case True
  then show ?thesis using assms(1) by (auto simp: flush_def ret_def only_sets_def)
next
  case False
  obtain q w2 where q: "exec_pipe ttl xs w = (q, w2)" by fastforce
  from exec_pipe_run [OF q assms(2-4)] False assms(1) q show ?thesis
    by (auto simp: flush_def bnd_def ret_def raise_def split: sum.splits if_splits)
qed

lemma publish_run:
  assumes "publish_sets ttl pipe xs w = (r, w1)" "mono (clock w)" "start \<le> clock w (tick w)" "distinct (map fst (pipe @ xs))"
  shows "only_sets w w1 \<and> (r = Inr () \<longrightarrow> stored_from ttl start (pipe @ xs) (rx_sets (ext w)) (rx_sets (ext w1)))"
  using assms
proof (induction xs arbitrary: pipe w r w1)
  case Nil
  then show ?case using flush_run [of ttl pipe w r w1 start] by simp
next
  case (Cons s xs)
  show ?case
  proof (cases "length pipe + 1 = pipelineSize")
    case False
    then have "publish_sets ttl (pipe @ [s]) xs w = (r, w1)" using Cons.prems(1) by simp
    from Cons.IH [OF this Cons.prems(2,3)] Cons.prems(4) show ?thesis by simp
  next
    case True
    obtain q w2 where q: "flush ttl (pipe @ [s]) w = (q, w2)" by fastforce
    have d: "distinct (map fst (pipe @ [s]))" using Cons.prems(4) by simp
    note f = flush_run [OF q Cons.prems(2,3) d]
    show ?thesis
    proof (cases q)
      case (Inl e)
      then have "r = Inl e" "w1 = w2" using Cons.prems(1) True q by (simp_all add: bnd_def)
      with f show ?thesis by simp
    next
      case (Inr u)
      then have run: "publish_sets ttl [] xs w2 = (r, w1)" using Cons.prems(1) True q by (simp add: bnd_def)
      have m: "mono (clock w2)" "start \<le> clock w2 (tick w2)"
        using f Cons.prems(2,3) by (auto simp: only_sets_def intro: order_trans dest: monoD)
      have d2: "distinct (map fst ([] @ xs))" using Cons.prems(4) by simp
      note ih = Cons.IH [OF run m d2]
      have "stored_from ttl start ((pipe @ [s]) @ xs) (rx_sets (ext w)) (rx_sets (ext w1))" if "r = Inr ()"
        by (rule stored_from_append) (use f Inr ih that Cons.prems(4) in auto)
      then show ?thesis using f ih by (auto intro: only_sets_trans)
    qed
  qed
qed

section \<open>What a build publishes\<close>

lemma personal_keys: "map fst (personal_sets g cat o' start a) =
   map UserKey (filter (\<lambda>u. personal_set g cat o' start (user_signals u a) \<noteq> None) (ids_order g (known_users a)))"
proof -
  have "map fst (List.map_filter (\<lambda>u. map_option (Pair (UserKey u)) (f u)) us) = map UserKey (filter (\<lambda>u. f u \<noteq> None) us)" for f :: "uuid \<Rightarrow> rec_set option" and us
    by (induction us) (auto simp: List.map_filter_simps)
  then show ?thesis unfolding personal_sets_def .
qed

lemma personal_distinct: "math_ok g \<Longrightarrow> distinct (map fst ((PopularKey, p) # personal_sets g cat o' start a))"
proof -
  assume "math_ok g"
  then have "mset (ids_order g (known_users a)) = mset (known_users a)" by (rule ids_order_mset)
  then have "distinct (ids_order g (known_users a))"
    using mset_eq_imp_distinct_iff by (metis known_users_def distinct_remdups)
  then show ?thesis unfolding list.map personal_keys by (auto simp: distinct_map inj_on_def)
qed

lemma signals_known: "\<not> signals_empty (user_signals u a) \<Longrightarrow> u \<in> set (known_users a)"
proof -
  have e: "u \<notin> fst ` set ps \<Longrightarrow> filter (\<lambda>p. fst p = u) ps = []" for ps :: "(uuid \<times> 'i) list"
    by (force simp: filter_empty_conv)
  have h: "u \<notin> (\<lambda>p. fst (fst p)) ` set hist \<Longrightarrow> filter (\<lambda>p. fst (fst p) = u) hist = []" for hist :: "((uuid \<times> uuid) \<times> 'i) list"
    by (force simp: filter_empty_conv)
  show "\<not> signals_empty (user_signals u a) \<Longrightarrow> u \<in> set (known_users a)"
    using e [of "al_tracks a"] e [of "al_albums a"] e [of "al_follows a"] h [of "al_history a"] by (auto simp: signals_empty_def user_signals_def of_user_def known_users_def)
qed

lemma personal_member:
  assumes "math_ok g" "personal_set g cat o' start (user_signals u a) = Some s"
  shows "(UserKey u, s) \<in> set (personal_sets g cat o' start a)"
proof -
  have "\<not> signals_empty (user_signals u a)" using assms(2) by (auto simp: personal_set_def)
  then have "u \<in> set (known_users a)" by (rule signals_known)
  then have "u \<in> set (ids_order g (known_users a))"
    using mset_eq_setD [OF ids_order_mset [OF assms(1)]] by metis
  then show ?thesis using assms(2) unfolding personal_sets_def by (force simp: List.map_filter_def)
qed

lemma personal_only:
  assumes "personal_set g cat o' start (user_signals u a) = None"
  shows "UserKey u \<notin> fst ` set (personal_sets g cat o' start a)"
proof -
  have "fst ` set (personal_sets g cat o' start a) = set (map fst (personal_sets g cat o' start a))" by simp
  then show ?thesis unfolding personal_keys using assms by auto
qed

lemma visited_sets:
  assumes "\<And>xs. mset (f xs) = mset xs" "distinct (map fst sets)"
  shows "distinct (map fst (in_visits f sets))" "set (in_visits f sets) = set sets"
proof -
  show "distinct (map fst (in_visits f sets))" using assms by (intro distinct_in_visits)
  have "(k, v) \<in> set (in_visits f sets) \<longleftrightarrow> (k, v) \<in> set sets" for k v
    unfolding in_visits_set [of f, OF assms(1)] using assms(2) by (simp add: map_of_eq_Some_iff)
  then show "set (in_visits f sets) = set sets" by auto
qed
text \<open>What a build reads of the world: the catalog and analytics, and the tables.\<close>

definition sounds_in :: "features list \<Rightarrow> (uuid \<times> sound) list" where
  "sounds_in fs = map (\<lambda>f. (fe_track f, new_sound (fe_analyzer f) (fe_bpm f) (fe_lufs f) (fe_lra f) (fe_silence f))) fs"

definition catalog_read :: "build_options \<Rightarrow> nat \<Rightarrow> build_world \<Rightarrow> catalog \<Rightarrow> bool" where
  "catalog_read o' fuel w cat \<longleftrightarrow> (\<exists>tracks w1 rows plays. catalog_tracks fuel '''' [] (advance w) = (Inr (Some tracks), w1) \<and>
     rx_plays (ext w) (bo_popularity_days o') = Some rows \<and> plays_map rows [] = Some plays \<and>
     cat = new_catalog (map (with_plays plays (sounds_in (track_features (db w)))) tracks) (clock w (tick w)))"

definition signals_read :: "build_options \<Rightarrow> build_world \<Rightarrow> all_signals \<Rightarrow> bool" where
  "signals_read o' w a \<longleftrightarrow> (\<exists>rows. rx_history (ext w) (bo_history_days o') = Some rows \<and> history_map rows [] = Some (al_history a)) \<and>
     al_tracks a = likes_in (liked_tracks (db w)) \<and> al_albums a = likes_in (liked_albums (db w)) \<and>
     al_follows a = likes_in (followed_artists (db w))"

lemma quiet_build: "quiet (build_catalog o' fuel start)" "quiet (build_signals o')"
  unfolding build_catalog_def build_signals_def by (auto intro!: quiet_rules split: option.splits)

lemma build_catalog_value:
  assumes "build_catalog o' fuel start w = (Inr (Some cat), w1)" "w = advance v" "start = clock v (tick v)"
  shows "catalog_read o' fuel v cat"
proof -
  from assms(1) obtain q wa where a: "catalog_tracks fuel '''' [] w = (Inr q, wa)"
    "(case q of None \<Rightarrow> ret None | Some tracks \<Rightarrow> bnd (read_plays (bo_popularity_days o')) (\<lambda>plays. bnd repo_sounds (\<lambda>sounds.
       ret (Some (new_catalog (map (with_plays plays sounds) tracks) start))))) wa = (Inr (Some cat), w1)"
    unfolding build_catalog_def by (rule bndD)
  then obtain tracks where q: "q = Some tracks" by (cases q) (simp_all add: ret_def)
  with a(2) obtain plays wb where b: "read_plays (bo_popularity_days o') wa = (Inr plays, wb)"
    "bnd repo_sounds (\<lambda>sounds. ret (Some (new_catalog (map (with_plays plays sounds) tracks) start))) wb = (Inr (Some cat), w1)"
    by (auto elim: bndD)
  from b(2) obtain sounds where c: "repo_sounds wb = (Inr sounds, w1)" "cat = new_catalog (map (with_plays plays sounds) tracks) start"
    by (rule bndD) (simp add: ret_def)
  have wa: "ext wa = ext v" "db wa = db v" using quietD [OF quiet_catalog a(1)] assms(2) by simp_all
  have "db wb = db v" using quietD(2) [OF quiet_reads(1) b(1)] wa by simp
  then have s: "sounds = sounds_in (track_features (db v))" using query_value [OF c(1) [unfolded repo_sounds_def]] by (simp add: sounds_in_def)
  from read_plays_value [OF b(1)] obtain rows where "rx_plays (ext v) (bo_popularity_days o') = Some rows" "plays_map rows [] = Some plays"
    unfolding wa by blast
  with a(1) q show ?thesis unfolding catalog_read_def c(2) s assms(2,3) by blast
qed

lemma build_signals_value:
  assumes "build_signals o' w = (Inr a, w1)"
  shows "signals_read o' w a"
proof -
  from assms obtain hist wa where h: "read_history (bo_history_days o') w = (Inr hist, wa)"
    "bnd repo_likes (\<lambda>(ts, as'). bnd repo_follows (\<lambda>fs. ret \<lparr>al_history = hist, al_tracks = ts, al_albums = as', al_follows = fs\<rparr>)) wa = (Inr a, w1)"
    unfolding build_signals_def by (rule bndD)
  from h(2) obtain p wb where l: "repo_likes wa = (Inr p, wb)"
    "(case p of (ts, as') \<Rightarrow> bnd repo_follows (\<lambda>fs. ret \<lparr>al_history = hist, al_tracks = ts, al_albums = as', al_follows = fs\<rparr>)) wb = (Inr a, w1)"
    by (rule bndD)
  obtain ts as' where p: "p = (ts, as')" by fastforce
  from l(2) obtain fs where f: "repo_follows wb = (Inr fs, w1)" "a = \<lparr>al_history = hist, al_tracks = ts, al_albums = as', al_follows = fs\<rparr>"
    unfolding p prod.case by (rule bndD) (simp add: ret_def)
  have d: "db wa = db w" "db wb = db w" using quietD(2) [OF quiet_reads(2) h(1)] quietD(2) [OF quiet_reads(5) l(1)] by simp_all
  from read_history_value [OF h(1)] repo_likes_value [OF l(1) [unfolded p]] likes_of_value [OF f(1) [unfolded repo_follows_def]] d
  show ?thesis unfolding signals_read_def f(2) by simp
qed

lemma now_bnd: "bnd now_utc f w = f (clock w (tick w)) (advance w)"
  by (simp add: bnd_def now_utc_def)

definition deps_ok :: "build_deps \<Rightarrow> bool" where
  "deps_ok d \<longleftrightarrow> math_ok (bd_math d) \<and> (\<forall>xs. mset (bd_keys d xs) = mset xs)"

lemma build_run:
  assumes deps: "deps_ok d" and mono: "mono (clock w)" and run: "build d o' fuel w = (Inr (Some st), w1)"
  shows "\<exists>cat a. catalog_read o' fuel w cat \<and> signals_read o' w a \<and> only_sets w w1 \<and>
    stored_from (bd_ttl d) (clock w (tick w)) (built_sets d o' cat (clock w (tick w)) a) (rx_sets (ext w)) (rx_sets (ext w1))"
proof -
  let ?start = "clock w (tick w)"
  from run have "bnd (build_catalog o' fuel ?start) (\<lambda>r. case r of None \<Rightarrow> ret None | Some cat \<Rightarrow> publish_build d o' ?start cat) (advance w) = (Inr (Some st), w1)"
    unfolding build_def now_bnd .
  then obtain q wa where a: "build_catalog o' fuel ?start (advance w) = (Inr q, wa)"
    "(case q of None \<Rightarrow> ret None | Some cat \<Rightarrow> publish_build d o' ?start cat) wa = (Inr (Some st), w1)" by (rule bndD)
  then obtain cat where q: "q = Some cat" by (cases q) (simp_all add: ret_def)
  from a(2) have "publish_build d o' ?start cat wa = (Inr (Some st), w1)" unfolding q by simp
  then obtain a wb where s: "build_signals o' wa = (Inr a, wb)"
    "bnd (publish_sets (bd_ttl d) [] (in_visits (bd_keys d) (built_sets d o' cat ?start a))) (\<lambda>_.
     bnd now_utc (\<lambda>end_at. ret (Some \<lparr>bs_candidates = length (cl_tracks cat),
       bs_users = length (built_sets d o' cat ?start a) - 1, bs_took = time_sub end_at ?start\<rparr>))) wb = (Inr (Some st), w1)"
    unfolding publish_build_def Let_def by (rule bndD)
  from s(2) obtain u wc where p: "publish_sets (bd_ttl d) [] (in_visits (bd_keys d) (built_sets d o' cat ?start a)) wb = (Inr u, wc)"
    "w1 = advance wc" by (rule bndD) (simp add: now_bnd ret_def)
  note qa = quietD [OF quiet_build(1) a(1)] and qb = quietD [OF quiet_build(2) s(1)]
  have o1: "only_sets w wb" "ext wb = ext w" using qa qb by (simp_all add: only_sets_def)
  have m: "mono (clock wb)" "?start \<le> clock wb (tick wb)" using o1 mono by (auto simp: only_sets_def dest: monoD)
  have dd: "distinct (map fst (built_sets d o' cat ?start a))"
    unfolding built_sets_def using deps by (intro personal_distinct) (simp add: deps_ok_def)
  have k: "\<And>xs. mset (bd_keys d xs) = mset xs" using deps by (simp add: deps_ok_def)
  note v = visited_sets [of "bd_keys d", OF k dd]
  from publish_run [OF p(1) m] v have "only_sets wb wc \<and> stored_from (bd_ttl d) ?start (in_visits (bd_keys d) (built_sets d o' cat ?start a)) (rx_sets (ext wb)) (rx_sets (ext wc))"
    by simp
  then have "only_sets w w1" "stored_from (bd_ttl d) ?start (built_sets d o' cat ?start a) (rx_sets (ext w)) (rx_sets (ext w1))"
    using o1 p(2) unfolding stored_from_def v(2) by (auto simp: only_sets_def)
  moreover have "catalog_read o' fuel w cat" using build_catalog_value [OF a(1) [unfolded q] refl refl] .
  moreover have "signals_read o' w a" using build_signals_value [OF s(1)] qa by (simp add: signals_read_def)
  ultimately show ?thesis by blast
qed
section \<open>What is served after a build\<close>

definition entry_at :: "time \<Rightarrow> (rec_set option \<times> time) option \<Rightarrow> rec_set option" where
  "entry_at now e = (case e of None \<Rightarrow> None | Some (v, until) \<Rightarrow> if now < until then v else None)"

lemma get_set_value:
  assumes "get_set k w = (Inr r, w1)"
  shows "r = (case entry_at (clock w (tick w)) (rx_sets (ext w) k) of None \<Rightarrow> None | Some s \<Rightarrow> if rs_version s \<noteq> RecVersion then None else Some s)"
    "ext w1 = ext w" "clock w1 = clock w" "tick w1 = tick w + 2"
  using assms by (auto simp: get_set_def store_get_def now_utc_def bnd_def call_def ret_def entry_at_def split: fate.splits option.splits prod.splits sum.splits if_splits)

lemma popular_for_value:
  assumes "popular_for w = (Inr r, w1)" "entry_at (clock w (tick w)) (rx_sets (ext w) PopularKey) = Some s" "rs_version s = RecVersion"
  shows "r = rec_result_of ''popular'' s"
proof -
  from assms(1) obtain q w2 where "get_set PopularKey w = (Inr q, w2)" "r = (case q of
     None \<Rightarrow> \<lparr>rr_source = ''none'', rr_algorithm = '''', rr_generated = 0, rr_tracks = [], rr_artists = []\<rparr> | Some s \<Rightarrow> rec_result_of ''popular'' s)"
    unfolding popular_for_def by (rule bndD) (simp add: ret_def)
  with get_set_value(1) assms(2,3) show ?thesis by fastforce
qed

lemma caller_value:
  assumes run: "recommendations_for u w = (Inr r, w1)" and u: "u \<noteq> uuid_Nil"
    and ok: "entry_at (clock w (tick w)) (rx_sets (ext w) (UserKey u)) = Some s" "rs_version s = RecVersion"
  shows "r = rec_result_of ''personal'' s"
proof -
  from run u obtain q w2 where q: "get_set (UserKey u) w = (Inr q, w2)"
    "(case q of Some s \<Rightarrow> ret (rec_result_of ''personal'' s) | None \<Rightarrow> popular_for) w2 = (Inr r, w1)"
    unfolding recommendations_for_def by (auto elim: bndD)
  from get_set_value(1) [OF q(1)] ok have "q = Some s" by simp
  with q(2) show ?thesis by (simp add: ret_def)
qed

lemma caller_popular:
  assumes run: "recommendations_for u w = (Inr r, w1)"
    and none: "rx_sets (ext w) (UserKey u) = None"
    and ok: "entry_at (clock w (tick w)) (rx_sets (ext w) PopularKey) = Some s" "entry_at (clock w (tick w + 2)) (rx_sets (ext w) PopularKey) = Some s"
      "rs_version s = RecVersion"
  shows "r = rec_result_of ''popular'' s"
proof (cases "u = uuid_Nil")
  case True
  then show ?thesis using run ok popular_for_value unfolding recommendations_for_def by simp
next
  case False
  with run obtain q w2 where q: "get_set (UserKey u) w = (Inr q, w2)"
    "(case q of Some s \<Rightarrow> ret (rec_result_of ''personal'' s) | None \<Rightarrow> popular_for) w2 = (Inr r, w1)"
    unfolding recommendations_for_def by (auto elim: bndD)
  note g = get_set_value [OF q(1)]
  have "q = None" using g(1) none by (simp add: entry_at_def)
  with q(2) have "popular_for w2 = (Inr r, w1)" by simp
  from popular_for_value [OF this] ok g show ?thesis by simp
qed

lemma of_user_iff: "i \<in> set (of_user u ps) \<longleftrightarrow> (u, i) \<in> set ps"
  by (force simp: of_user_def)

text \<open>The home page the service makes of a set.\<close>

definition home_page :: "string \<Rightarrow> rec_set \<Rightarrow> rec_body" where
  "home_page source p = HomeBody (meta_of (rec_result_of source p)) (take 20 (rs_tracks p)) (take 10 (rs_artists p))"

lemma rec_home_value:
  assumes "rec_home (Some u) w = (Reply s b, w1)"
  obtains r where "recommendations_for u w = (Inr r, w1)" "s = 200" "b = HomeBody (meta_of r) (take 20 (rr_tracks r)) (take 10 (rr_artists r))"
  using assms unfolding rec_home_def rec_caller_def rec_down_def by (auto split: prod.splits sum.splits)

lemma personal_tracks:
  assumes "personal_set g cat o' start (user_signals u a) = Some p" "x \<in> set (rs_tracks p)"
  shows "(u, sd_id x) \<notin> set (al_tracks a)" "\<not> (\<exists>t\<in>set (cl_tracks cat). tk_id t = sd_id x \<and> (u, tk_album t) \<in> set (al_albums a))"
proof -
  have "x \<in> set (fst (recommend g cat (user_signals u a) (bo_tracks o') (bo_artists o')))"
    using assms by (auto simp: personal_set_def Let_def new_set_def split: if_splits)
  from recommend_member [OF this] have "\<not> unwelcome cat (user_signals u a) (sd_id x)" by auto
  then show "(u, sd_id x) \<notin> set (al_tracks a)" "\<not> (\<exists>t\<in>set (cl_tracks cat). tk_id t = sd_id x \<and> (u, tk_album t) \<in> set (al_albums a))"
    by (auto simp: unwelcome_def user_signals_def of_user_iff)
qed

lemma stored_entry:
  assumes "stored_from ttl start xs c c1" "(k, s) \<in> set xs" "now < start + ttl"
  shows "entry_at now (c1 k) = Some s"
proof -
  from assms(1,2) obtain t where "t \<ge> start" "c1 k = Some (Some s, t + ttl)" unfolding stored_from_def by blast
  with assms(3) show ?thesis by (simp add: entry_at_def)
qed

text \<open>C30: within the life of a set, the home page of a user after a successful build is the ranking
  of exactly what the build read: the catalog with its plays and sounds, the history, and the
  likes and follows of the worker's tables. It shows no track that the tables had as liked or
  on a liked album. Where the user has no set in the build, it is the popular page of that
  build, unless an older set of the user is still in Redis.\<close>

theorem home_page_after_build:
  assumes deps: "deps_ok d" and mono: "mono (clock w)" and run: "build d o' fuel w = (Inr (Some st), w1)"
    and later: "ext w2 = ext w1" "mono (clock w2)" "clock w2 (tick w2 + 2) < clock w (tick w) + bd_ttl d"
    and user: "u \<noteq> uuid_Nil" and page: "rec_home (Some u) w2 = (Reply s b, w3)"
  shows "\<exists>cat a. catalog_read o' fuel w cat \<and> signals_read o' w a \<and>
    (case personal_set (bd_math d) cat o' (clock w (tick w)) (user_signals u a) of
       Some p \<Rightarrow> b = home_page ''personal'' p \<and> (\<forall>x\<in>set (take 20 (rs_tracks p)). (u, sd_id x) \<notin> set (likes_in (liked_tracks (db w))) \<and>
         \<not> (\<exists>t\<in>set (cl_tracks cat). tk_id t = sd_id x \<and> (u, tk_album t) \<in> set (likes_in (liked_albums (db w)))))
     | None \<Rightarrow> rx_sets (ext w) (UserKey u) \<noteq> None \<or>
         b = home_page ''popular'' (new_set (clock w (tick w)) (popular (bd_math d) cat (bo_tracks o') (bo_artists o'))))"
proof -
  let ?start = "clock w (tick w)"
  from build_run [OF deps mono run] obtain cat a where r: "catalog_read o' fuel w cat" "signals_read o' w a"
    and st: "stored_from (bd_ttl d) ?start (built_sets d o' cat ?start a) (rx_sets (ext w)) (rx_sets (ext w2))" unfolding later(1) by blast
  from rec_home_value [OF page] obtain q where q: "recommendations_for u w2 = (Inr q, w3)"
    "b = HomeBody (meta_of q) (take 20 (rr_tracks q)) (take 10 (rr_artists q))" by blast
  have now: "clock w2 (tick w2) < ?start + bd_ttl d" using later(2,3) by (meson le_add1 le_less_trans monoD)
  have g: "math_ok (bd_math d)" using deps by (simp add: deps_ok_def)
  have likes: "al_tracks a = likes_in (liked_tracks (db w))" "al_albums a = likes_in (liked_albums (db w))" using r(2) by (simp_all add: signals_read_def)
  show ?thesis
  proof (cases "personal_set (bd_math d) cat o' ?start (user_signals u a)")
    case (Some p)
    then have m: "(UserKey u, p) \<in> set (built_sets d o' cat ?start a)" using personal_member [OF g] by (simp add: built_sets_def)
    have v: "rs_version p = RecVersion" using Some by (auto simp: personal_set_def new_set_def Let_def split: if_splits)
    have "b = home_page ''personal'' p" using caller_value [OF q(1) user stored_entry [OF st m now] v] unfolding q(2) home_page_def
      by (simp add: rec_result_of_def)
    moreover have "(u, sd_id x) \<notin> set (likes_in (liked_tracks (db w))) \<and>
         \<not> (\<exists>t\<in>set (cl_tracks cat). tk_id t = sd_id x \<and> (u, tk_album t) \<in> set (likes_in (liked_albums (db w))))" if "x \<in> set (take 20 (rs_tracks p))" for x
      using personal_tracks [OF Some in_set_takeD [OF that]] unfolding likes by blast
    ultimately show ?thesis using r Some by (intro exI [of _ cat] exI [of _ a] conjI) simp_all
  next
    case None
    let ?p = "new_set ?start (popular (bd_math d) cat (bo_tracks o') (bo_artists o'))"
    have m: "(PopularKey, ?p) \<in> set (built_sets d o' cat ?start a)" by (simp add: built_sets_def)
    have "UserKey u \<notin> fst ` set (built_sets d o' cat ?start a)" using personal_only [OF None] by (simp add: built_sets_def)
    then have old: "rx_sets (ext w2) (UserKey u) = rx_sets (ext w) (UserKey u)" using st by (simp add: stored_from_def)
    have "b = home_page ''popular'' ?p" if "rx_sets (ext w) (UserKey u) = None"
      using caller_popular [OF q(1) _ stored_entry [OF st m now] stored_entry [OF st m later(3)]] that old unfolding q(2) home_page_def
      by (simp add: rec_result_of_def new_set_def)
    then have "rx_sets (ext w) (UserKey u) \<noteq> None \<or> b = home_page ''popular'' ?p" by blast
    then show ?thesis using r None by (intro exI [of _ cat] exI [of _ a] conjI) simp_all
  qed
qed
section \<open>Runs without lost calls\<close>

definition fine :: "build_world \<Rightarrow> bool" where
  "fine w \<longleftrightarrow> (\<forall>n. fates w n = Fine)"

definition clean_store :: "set_store \<Rightarrow> bool" where
  "clean_store c \<longleftrightarrow> (\<forall>k t. c k \<noteq> Some (None, t))"

lemma fine_exec: "fine w \<Longrightarrow> \<exists>w1. exec_pipe ttl xs w = (Inr True, w1) \<and> fine w1"
proof (induction xs arbitrary: w)
  case (Cons p xs)
  obtain k s where p: "p = (k, s)" by fastforce
  have "\<exists>w2. set_command ttl k s w = (Inr (), w2) \<and> fine w2"
    using Cons.prems by (auto simp: set_command_def now_bnd call_def fine_def)
  then obtain w2 where w2: "set_command ttl k s w = (Inr (), w2)" "fine w2" by blast
  from Cons.IH [OF w2(2)] w2(1) show ?case unfolding p by (auto simp: bnd_def attempt_def ret_def)
qed (simp add: ret_def)

lemma fine_flush: "fine w \<Longrightarrow> \<exists>w1. flush ttl xs w = (Inr (), w1) \<and> fine w1"
  using fine_exec [of w ttl xs] by (auto simp: flush_def bnd_def ret_def)

lemma fine_publish: "fine w \<Longrightarrow> \<exists>w1. publish_sets ttl pipe xs w = (Inr (), w1) \<and> fine w1"
proof (induction xs arbitrary: pipe w)
  case Nil
  then show ?case by (simp add: fine_flush)
next
  case (Cons s xs)
  show ?case
  proof (cases "length pipe + 1 = pipelineSize")
    case True
    from fine_flush [OF Cons.prems] obtain w2 where "flush ttl (pipe @ [s]) w = (Inr (), w2)" "fine w2" by blast
    with Cons.IH [of w2 "[]"] True show ?thesis by (simp add: bnd_def)
  next
    case False
    with Cons.IH [OF Cons.prems] show ?thesis by simp
  qed
qed

lemma fine_build:
  assumes "build_catalog o' fuel (clock w (tick w)) (advance w) = (Inr (Some cat), wa)" "build_signals o' wa = (Inr a, wb)" "fine wb"
  shows "\<exists>st w1. build d o' fuel w = (Inr (Some st), w1) \<and> fine w1"
proof -
  from fine_publish [OF assms(3)] obtain wc where "publish_sets (bd_ttl d) [] (in_visits (bd_keys d) (built_sets d o' cat (clock w (tick w)) a)) wb = (Inr (), wc)" "fine wc"
    by blast
  with assms(1,2) show ?thesis
    by (auto simp: build_def publish_build_def now_bnd Let_def ret_def bnd_def [of "build_catalog o' fuel (clock w (tick w))"]
        bnd_def [of "build_signals o'"] bnd_def [of "publish_sets d' p s" for d' p s] fine_def)
qed

lemma fine_get: "fine w \<Longrightarrow> clean_store (rx_sets (ext w)) \<Longrightarrow> \<exists>r w1. get_set k w = (Inr r, w1) \<and> fine w1 \<and> ext w1 = ext w"
  by (auto simp: get_set_def store_get_def bnd_def now_utc_def call_def ret_def fine_def clean_store_def split: option.splits prod.splits)

lemma fine_home:
  assumes "fine w" "clean_store (rx_sets (ext w))"
  shows "\<exists>b w1. rec_home who w = (Reply 200 b, w1)"
proof -
  have p: "\<exists>r w1. popular_for v = (Inr r, w1)" if "fine v" "clean_store (rx_sets (ext v))" for v
    using fine_get [OF that, of PopularKey] by (auto simp: popular_for_def bnd_def ret_def)
  have "\<exists>r w1. recommendations_for u w = (Inr r, w1)" for u
  proof (cases "u = uuid_Nil")
    case True
    then show ?thesis using p [OF assms] by (simp add: recommendations_for_def)
  next
    case False
    from fine_get [OF assms, of "UserKey u"] obtain q w2 where q: "get_set (UserKey u) w = (Inr q, w2)" "fine w2" "ext w2 = ext w" by blast
    show ?thesis
    proof (cases q)
      case None
      then show ?thesis using False q p [of w2] assms(2) by (simp add: recommendations_for_def bnd_def)
    next
      case (Some s)
      then show ?thesis using False q by (simp add: recommendations_for_def bnd_def ret_def)
    qed
  qed
  then show ?thesis unfolding rec_home_def rec_caller_def by (metis (no_types, lifting) case_prod_conv old.sum.simps(6))
qed

lemma clean_stored: "stored_from ttl start xs c c1 \<Longrightarrow> clean_store c \<Longrightarrow> clean_store c1"
  unfolding clean_store_def stored_from_def by (metis (no_types, lifting) image_iff option.inject option.distinct(1) prod.collapse prod.inject)

section \<open>A small platform\<close>

text \<open>One album with one track; user 7 follows its artist, or likes the track as well.\<close>

definition rec_sample_deps :: build_deps where
  "rec_sample_deps = \<lparr>bd_math = go_plain, bd_keys = \<lambda>ks. ks, bd_ttl = 100\<rparr>"

definition sample_options :: build_options where
  "sample_options = \<lparr>bo_history_days = 90, bo_popularity_days = 30, bo_tracks = 5, bo_artists = 5\<rparr>"

definition rec_sample :: "signal_row list \<Rightarrow> set_store \<Rightarrow> build_world" where
  "rec_sample likes store = \<lparr>tick = 0, fates = \<lambda>_. Fine, clock = \<lambda>_. 1000, fresh = \<lambda>_. None,
     db = \<lparr>liked_tracks = likes, liked_albums = [],
       followed_artists = [\<lparr>sg_user = 7, sg_id = 10, sg_on = True, sg_at = 0\<rparr>], track_features = []\<rparr>,
     outbox = [], next_row = 0, ext = \<lparr>rx_albums = \<lambda>_. Some ([\<lparr>ad_id = Some 5, ad_released = None, ad_genres = []\<rparr>], '''', False),
       rx_tracks = \<lambda>_. Some [\<lparr>td_id = Some 1, td_artists = [Some 10], td_status = ''READY''\<rparr>],
       rx_plays = \<lambda>_. Some [], rx_history = \<lambda>_. Some [], rx_sets = store\<rparr>\<rparr>"

definition sample_track :: rec_track where
  "sample_track = \<lparr>tk_id = 1, tk_artists = [10], tk_album = 5, tk_genres = [], tk_released = 0, tk_plays = 0, tk_sound = None\<rparr>"


definition small_catalog :: catalog where
  "small_catalog = new_catalog [sample_track] 1000"

lemmas sample_reads = rec_sample_def catalog_tracks.simps all_tracks.simps album_tracks_def ready_track_def parse_ids_def List.map_filter_simps
  read_plays_def read_history_def repo_sounds_def repo_likes_def repo_follows_def likes_of_def query_def stmt_def bnd_def call_def ret_def

lemma small_catalog_read: "\<exists>wa. build_catalog sample_options 2 1000 (advance (rec_sample likes store)) = (Inr (Some small_catalog), wa) \<and>
    fine wa \<and> db wa = db (rec_sample likes store) \<and> ext wa = ext (rec_sample likes store)"
  by (simp add: build_catalog_def sample_options_def sample_reads numeral_2_eq_2 with_plays_def small_catalog_def sample_track_def fine_def)

definition sample_signals :: "signal_row list \<Rightarrow> all_signals" where
  "sample_signals likes = \<lparr>al_history = [], al_tracks = likes_in likes, al_albums = [], al_follows = [(7, 10)]\<rparr>"

lemma sample_signals_read:
  assumes "fine w" "db w = db (rec_sample likes store)" "ext w = ext (rec_sample likes store)"
  shows "\<exists>wa. build_signals sample_options w = (Inr (sample_signals likes), wa) \<and> fine wa"
  using assms by (simp add: build_signals_def sample_options_def sample_reads sample_signals_def likes_in_def sg_key_def fine_def)

lemma sample_build: "\<exists>st w1. build rec_sample_deps sample_options 2 (rec_sample likes store) = (Inr (Some st), w1) \<and> fine w1"
proof -
  have c: "clock (rec_sample likes store) (tick (rec_sample likes store)) = 1000" by (simp add: rec_sample_def)
  from small_catalog_read [of likes store] obtain wa where a: "build_catalog sample_options 2 1000 (advance (rec_sample likes store)) = (Inr (Some small_catalog), wa)"
    "fine wa" "db wa = db (rec_sample likes store)" "ext wa = ext (rec_sample likes store)" by blast
  from sample_signals_read [OF a(2-4)] obtain wb where b: "build_signals sample_options wa = (Inr (sample_signals likes), wb)" "fine wb" by blast
  show ?thesis by (rule fine_build [of sample_options 2 "rec_sample likes store", unfolded c, OF a(1) b])
qed

lemma rec_sample_deps_ok: "deps_ok rec_sample_deps"
  by (simp add: deps_ok_def rec_sample_deps_def go_plain_ok)

lemma small_catalog_unique: "catalog_read sample_options 2 (rec_sample likes store) cat \<Longrightarrow> cat = small_catalog"
  by (auto simp: catalog_read_def sample_options_def sample_reads numeral_2_eq_2 with_plays_def small_catalog_def sample_track_def sounds_in_def)

lemma sample_signals_unique: "signals_read sample_options (rec_sample likes store) a \<Longrightarrow> a = sample_signals likes"
  by (cases a) (auto simp: signals_read_def sample_options_def rec_sample_def sample_signals_def likes_in_def sg_key_def)
lemma sample_after:
  assumes "build rec_sample_deps sample_options 2 (rec_sample likes store) = (Inr (Some st), w1)" "fine w1" "clean_store store"
  shows "clock w1 = (\<lambda>_. 1000)" "\<exists>b w3. rec_home who w1 = (Reply 200 b, w3)"
proof -
  have m: "mono (clock (rec_sample likes store))" by (simp add: rec_sample_def mono_def)
  from build_run [OF rec_sample_deps_ok m assms(1)] obtain xs where o: "only_sets (rec_sample likes store) w1"
    "stored_from (bd_ttl rec_sample_deps) (clock (rec_sample likes store) (tick (rec_sample likes store))) xs (rx_sets (ext (rec_sample likes store))) (rx_sets (ext w1))"
    by blast
  show "clock w1 = (\<lambda>_. 1000)" using o(1) by (simp add: only_sets_def rec_sample_def)
  have "clean_store (rx_sets (ext (rec_sample likes store)))" using assms(3) by (simp add: rec_sample_def)
  from fine_home [OF assms(2) clean_stored [OF o(2) this]] show "\<exists>b w3. rec_home who w1 = (Reply 200 b, w3)" .
qed

lemma sample_personal: "\<exists>p. personal_set go_plain small_catalog sample_options 1000 (user_signals 7 (sample_signals [])) = Some p"
proof -
  let ?s = "user_signals 7 (sample_signals [])"
  have s: "?s = \<lparr>si_history = [], si_tracks = [], si_albums = [], si_artists = [10]\<rparr>"
    by (simp add: user_signals_def of_user_def sample_signals_def likes_in_def)
  have "sample_track \<in> set (cl_tracks small_catalog)" by (simp add: small_catalog_def)
  moreover have "\<not> unwelcome small_catalog ?s (tk_id sample_track)" by (simp add: unwelcome_def s)
  ultimately have "fst (recommend go_plain small_catalog ?s 5 5) \<noteq> []"
    using recommend_complete [of sample_track small_catalog ?s go_plain 5 5] by auto
  then show ?thesis by (simp add: personal_set_def Let_def signals_empty_def s sample_options_def)
qed

lemma sample_world: "clock (rec_sample likes store) = (\<lambda>_. 1000)" "mono (clock (rec_sample likes store))"
  "rx_sets (ext (rec_sample likes store)) = store" "liked_tracks (db (rec_sample likes store)) = likes"
  by (simp_all add: rec_sample_def mono_def)

theorem home_page_after_build_witness:
  "\<exists>st w1 p w3. build rec_sample_deps sample_options 2 (rec_sample [] (\<lambda>_. None)) = (Inr (Some st), w1) \<and>
     rec_home (Some 7) w1 = (Reply 200 (home_page ''personal'' p), w3) \<and> rs_generated p = 1000"
proof -
  let ?w = "rec_sample [] (\<lambda>_. None)"
  obtain st w1 where r: "build rec_sample_deps sample_options 2 ?w = (Inr (Some st), w1)" "fine w1" using sample_build by blast
  have "clean_store (\<lambda>_. None)" by (simp add: clean_store_def)
  note after = sample_after [OF r this]
  from after(2) [of "Some 7"] obtain b w3 where page: "rec_home (Some 7) w1 = (Reply 200 b, w3)" by blast
  have "mono (clock w1)" "clock w1 (tick w1 + 2) < clock ?w (tick ?w) + bd_ttl rec_sample_deps"
    unfolding after(1) by (simp_all add: mono_def sample_world rec_sample_deps_def)
  from home_page_after_build [OF rec_sample_deps_ok sample_world(2) r(1) refl this _ page] obtain cat a where
    ca: "catalog_read sample_options 2 ?w cat" "signals_read sample_options ?w a"
    and "case personal_set (bd_math rec_sample_deps) cat sample_options (clock ?w (tick ?w)) (user_signals 7 a) of
       Some p \<Rightarrow> b = home_page ''personal'' p | None \<Rightarrow> True" by (auto split: option.splits)
  moreover have "cat = small_catalog" "a = sample_signals []" using ca small_catalog_unique sample_signals_unique by blast+
  moreover obtain p where p: "personal_set go_plain small_catalog sample_options 1000 (user_signals 7 (sample_signals [])) = Some p"
    using sample_personal by blast
  ultimately have "b = home_page ''personal'' p" by (simp add: rec_sample_deps_def sample_world)
  moreover have "rs_generated p = 1000" using p by (auto simp: personal_set_def new_set_def Let_def split: if_splits)
  ultimately show ?thesis using r(1) page by blast
qed

text \<open>A user for whom a build finds nothing to recommend keeps the personal set of an earlier build
  until that set expires, whatever it holds, though the build says the popular set serves better.\<close>

theorem exhausted_user_keeps_old_set:
  assumes deps: "deps_ok d" and mono: "mono (clock w)" and run: "build d o' fuel w = (Inr (Some st), w1)" and later: "ext w2 = ext w1"
    and none: "\<And>cat a. catalog_read o' fuel w cat \<Longrightarrow> signals_read o' w a \<Longrightarrow> personal_set (bd_math d) cat o' (clock w (tick w)) (user_signals u a) = None"
    and old: "entry_at (clock w2 (tick w2)) (rx_sets (ext w) (UserKey u)) = Some p" "rs_version p = RecVersion"
    and user: "u \<noteq> uuid_Nil" and page: "rec_home (Some u) w2 = (Reply s b, w3)"
  shows "b = home_page ''personal'' p"
proof -
  from build_run [OF deps mono run] obtain cat a where r: "catalog_read o' fuel w cat" "signals_read o' w a"
    and st: "stored_from (bd_ttl d) (clock w (tick w)) (built_sets d o' cat (clock w (tick w)) a) (rx_sets (ext w)) (rx_sets (ext w2))" unfolding later by blast
  have "UserKey u \<notin> fst ` set (built_sets d o' cat (clock w (tick w)) a)" using personal_only [OF none [OF r]] by (simp add: built_sets_def)
  then have e: "entry_at (clock w2 (tick w2)) (rx_sets (ext w2) (UserKey u)) = Some p" using st old(1) by (simp add: stored_from_def)
  from rec_home_value [OF page] obtain q where q: "recommendations_for u w2 = (Inr q, w3)"
    "b = HomeBody (meta_of q) (take 20 (rr_tracks q)) (take 10 (rr_artists q))" by blast
  show ?thesis using caller_value [OF q(1) user e old(2)] unfolding q(2) home_page_def by (simp add: rec_result_of_def)
qed

text \<open>User 7 likes the only track; the set built before that still recommends it.\<close>

definition liked_one :: "signal_row list" where
  "liked_one = [\<lparr>sg_user = 7, sg_id = 1, sg_on = True, sg_at = 0\<rparr>]"

definition old_set :: rec_set where
  "old_set = new_set 900 ([\<lparr>sd_id = 1, sd_score = 1 / 2, sd_reasons = [''artist'']\<rparr>], [])"

definition old_store :: set_store where
  "old_store = (\<lambda>_. None)(UserKey 7 \<mapsto> (Some old_set, 1050))"

lemma sample_exhausted: "personal_set go_plain small_catalog sample_options 1000 (user_signals 7 (sample_signals liked_one)) = None"
proof -
  let ?s = "user_signals 7 (sample_signals liked_one)"
  have "1 \<in> set (si_tracks ?s)" by (simp add: user_signals_def of_user_iff sample_signals_def likes_in_def liked_one_def sg_key_def)
  then have c: "candidates go_plain small_catalog ?s = []"
    unfolding candidates_welcome small_catalog_def by (simp add: unwelcome_def sample_track_def)
  have "recommend go_plain small_catalog ?s 5 5 = ([], [])"
    unfolding recommend_parts best_of_def c by (simp add: top_def in_visits_def go_plain_def List.map_filter_simps)
  then show ?thesis by (simp add: personal_set_def Let_def sample_options_def)
qed

theorem exhausted_user_keeps_old_set_witness:
  "\<exists>st w1 w3. build rec_sample_deps sample_options 2 (rec_sample liked_one old_store) = (Inr (Some st), w1) \<and>
     rec_home (Some 7) w1 = (Reply 200 (home_page ''personal'' old_set), w3) \<and>
     (7, 1) \<in> set (likes_in (liked_tracks (db (rec_sample liked_one old_store)))) \<and> 1 \<in> sd_id ` set (rs_tracks old_set)"
proof -
  let ?w = "rec_sample liked_one old_store"
  obtain st w1 where r: "build rec_sample_deps sample_options 2 ?w = (Inr (Some st), w1)" "fine w1" using sample_build by blast
  have "clean_store old_store" by (simp add: clean_store_def old_store_def)
  note after = sample_after [OF r this]
  from after(2) [of "Some 7"] obtain b w3 where page: "rec_home (Some 7) w1 = (Reply 200 b, w3)" by blast
  have "personal_set (bd_math rec_sample_deps) cat sample_options (clock ?w (tick ?w)) (user_signals 7 a) = None"
    if "catalog_read sample_options 2 ?w cat" "signals_read sample_options ?w a" for cat a
    using sample_exhausted small_catalog_unique [OF that(1)] sample_signals_unique [OF that(2)] by (simp add: rec_sample_deps_def sample_world)
  moreover have "entry_at (clock w1 (tick w1)) (rx_sets (ext ?w) (UserKey 7)) = Some old_set"
    unfolding after(1) sample_world by (simp add: entry_at_def old_store_def)
  moreover have "rs_version old_set = RecVersion" by (simp add: old_set_def new_set_def)
  ultimately have "b = home_page ''personal'' old_set"
    by (intro exhausted_user_keeps_old_set [OF rec_sample_deps_ok sample_world(2) r(1) refl _ _ _ _ page]) simp_all
  with r(1) page show ?thesis by (auto simp: sample_world likes_in_def liked_one_def sg_key_def old_set_def new_set_def)
qed

end
