(* ===== verification/Profiles.thy ===== *)
theory Profiles
  imports Auth Http Consumer
begin

text \<open>
  The User Profile Service (\<^verbatim>\<open>services/user-profile\<close>): profiles made of registrations, the
  owner's changes, their events and the routes. The tables of package \<open>unicode\<close> are
  parameters (\<open>profile_deps\<close>); lowering replaces ill-formed bytes, so what it returns is UTF-8.
\<close>

section \<open>Profiles\<close>

record user_profile =
  up_user :: uuid
  up_username :: string
  up_display :: string
  up_avatar :: string
  up_bio :: string
  up_country :: string
  up_language :: string
  up_created :: time
  up_updated :: time

record profile_deps =
  lower_of :: "string \<Rightarrow> string"
  upper_of :: "string \<Rightarrow> string"
  upper_rune :: "string \<Rightarrow> string"

datatype profile_error = ProfileNotFound | UsernameTaken | InvalidProfile fields

abbreviation MaxDisplayName :: nat where "MaxDisplayName \<equiv> 50"
abbreviation MaxBio :: nat where "MaxBio \<equiv> 300"

definition lower_letter :: "char \<Rightarrow> bool" where
  "lower_letter c \<longleftrightarrow> 97 \<le> byte c \<and> byte c \<le> 122"

definition capital_letter :: "char \<Rightarrow> bool" where
  "capital_letter c \<longleftrightarrow> 65 \<le> byte c \<and> byte c \<le> 90"

definition name_edge :: "char \<Rightarrow> bool" where
  "name_edge c \<longleftrightarrow> lower_letter c \<or> (48 \<le> byte c \<and> byte c \<le> 57)"

definition separator :: "char \<Rightarrow> bool" where
  "separator c \<longleftrightarrow> c = CHR ''.'' \<or> c = CHR ''_''"

definition name_char :: "char \<Rightarrow> bool" where
  "name_char c \<longleftrightarrow> name_edge c \<or> separator c"

text \<open>\<open>^[a-z0-9](?:[a-z0-9._]{1,28}[a-z0-9])$\<close>, in the code and as a constraint of the table.\<close>

definition username_pattern :: "string \<Rightarrow> bool" where
  "username_pattern u \<longleftrightarrow> 3 \<le> length u \<and> length u \<le> 30 \<and> name_edge (hd u) \<and> name_edge (last u) \<and> list_all name_char u"

definition country_pattern :: "string \<Rightarrow> bool" where
  "country_pattern s \<longleftrightarrow> length s = 2 \<and> list_all capital_letter s"

definition language_pattern :: "string \<Rightarrow> bool" where
  "language_pattern s = (let l = takeWhile lower_letter s; r = dropWhile lower_letter s in
     2 \<le> length l \<and> length l \<le> 3 \<and> (r = [] \<or> length r = 3 \<and> hd r = CHR ''-'' \<and> list_all capital_letter (tl r)))"

fun double_dot :: "string \<Rightarrow> bool" where
  "double_dot (c # d # s) = (c = CHR ''.'' \<and> d = CHR ''.'' \<or> double_dot (d # s))"
| "double_dot s = False"

section \<open>Registrations\<close>

text \<open>Runs of two or more separators become one dot.\<close>

function squeeze :: "string \<Rightarrow> string" where
  "squeeze [] = []"
| "squeeze [c] = [c]"
| "squeeze (c # d # s) = (if separator c \<and> separator d then CHR ''.'' # squeeze (dropWhile separator s) else c # squeeze (d # s))"
  by pat_completeness auto

termination squeeze
  by (relation "measure length") (simp_all add: less_Suc_eq_le le_SucI length_dropWhile_le)

definition trim_separators :: "string \<Rightarrow> string" where
  "trim_separators s = rev (dropWhile separator (rev (dropWhile separator s)))"

definition local_part :: "profile_deps \<Rightarrow> string \<Rightarrow> string" where
  "local_part k email = takeWhile (\<lambda>c. c \<noteq> CHR ''@'') (lower_of k email)"

definition derived_name :: "profile_deps \<Rightarrow> string \<Rightarrow> string" where
  "derived_name k email = trim_separators (squeeze (filter name_char (local_part k email)))"

definition registration_username :: "profile_deps \<Rightarrow> string \<Rightarrow> string" where
  "registration_username k email = (let u = take 24 (derived_name k email) in if length u < 3 then ''listener'' else u)"

definition truncate_runes :: "nat \<Rightarrow> string \<Rightarrow> string" where
  "truncate_runes n s = (if rune_count s \<le> n then s else concat (take n (chunks s)))"

definition capitalize_word :: "profile_deps \<Rightarrow> string \<Rightarrow> string" where
  "capitalize_word k w = (case chunks w of [] \<Rightarrow> [] | c # cs \<Rightarrow> upper_rune k c @ concat cs)"

definition capitalize :: "profile_deps \<Rightarrow> string \<Rightarrow> string" where
  "capitalize k s = join '' '' (map (capitalize_word k) (split_fields s))"

definition registration_display :: "profile_deps \<Rightarrow> string \<Rightarrow> string" where
  "registration_display k email = (let d = trim_space (map (\<lambda>c. if c \<in> {CHR ''.'', CHR ''_'', CHR ''-'', CHR ''+''} then CHR '' '' else c) (local_part k email))
     in capitalize k (truncate_runes MaxDisplayName (if d = [] then registration_username k email else d)))"

definition from_registration :: "profile_deps \<Rightarrow> uuid \<Rightarrow> string \<Rightarrow> time \<Rightarrow> user_profile" where
  "from_registration k u email now = \<lparr>up_user = u, up_username = registration_username k email, up_display = registration_display k email,
     up_avatar = [], up_bio = [], up_country = [], up_language = [], up_created = pg_time now, up_updated = pg_time now\<rparr>"

section \<open>Changes by the owner\<close>

record profile_changes =
  ch_username :: "string option"
  ch_display :: "string option"
  ch_bio :: "string option"
  ch_country :: "string option"
  ch_language :: "string option"

text \<open>A field that is given: its new value, which must satisfy a test.\<close>

definition given :: "string option \<Rightarrow> (string \<Rightarrow> string) \<Rightarrow> (string \<Rightarrow> bool) \<Rightarrow> string \<Rightarrow> string \<Rightarrow> (string \<Rightarrow> user_profile \<Rightarrow> user_profile) \<Rightarrow>
    user_profile \<times> fields \<Rightarrow> user_profile \<times> fields" where
  "given v norm ok name problem put s = (case v of None \<Rightarrow> s
     | Some x \<Rightarrow> let y = norm x in (put y (fst s), require (ok y) name problem (snd s)))"

definition profile_next :: "profile_deps \<Rightarrow> profile_changes \<Rightarrow> user_profile \<Rightarrow> user_profile \<times> fields" where
  "profile_next k c p =
     given (ch_language c) trim_space (\<lambda>v. v = [] \<or> language_pattern v) ''language'' ''must be a language tag like en or pt-BR'' (\<lambda>v p. p\<lparr>up_language := v\<rparr>)
    (given (ch_country c) (\<lambda>v. upper_of k (trim_space v)) (\<lambda>v. v = [] \<or> country_pattern v) ''country'' ''must be an ISO 3166-1 alpha-2 code'' (\<lambda>v p. p\<lparr>up_country := v\<rparr>)
    (given (ch_bio c) trim_space (\<lambda>v. rune_count v \<le> MaxBio) ''bio'' ''must be at most 300 characters'' (\<lambda>v p. p\<lparr>up_bio := v\<rparr>)
    (given (ch_display c) trim_space (\<lambda>v. v \<noteq> [] \<and> rune_count v \<le> MaxDisplayName) ''displayName'' ''must be 1-50 characters'' (\<lambda>v p. p\<lparr>up_display := v\<rparr>)
    (given (ch_username c) (\<lambda>v. lower_of k (trim_space v)) (\<lambda>v. username_pattern v \<and> \<not> double_dot v) ''username'' ''3-30 characters'' (\<lambda>v p. p\<lparr>up_username := v\<rparr>)
    (p, [])))))"

definition apply_profile :: "profile_deps \<Rightarrow> profile_changes \<Rightarrow> time \<Rightarrow> user_profile \<Rightarrow> profile_error + (user_profile \<times> bool)" where
  "apply_profile k c now p = (case profile_next k c p of (q, fs) \<Rightarrow>
     if fs \<noteq> [] then Inl (InvalidProfile fs)
     else if up_username q \<noteq> up_username p \<or> up_display q \<noteq> up_display p \<or> up_bio q \<noteq> up_bio p \<or> up_country q \<noteq> up_country p \<or> up_language q \<noteq> up_language p
       then Inr (q\<lparr>up_updated := pg_time now\<rparr>, True) else Inr (p, False))"

section \<open>The repository\<close>

record profile_db =
  profiles :: "user_profile list"

datatype profile_payload = PProfileUpdated uuid string string string string string time

type_synonym 'a profile_act = "(profile_db, unit, profile_payload, profile_error, 'a) act"
type_synonym profile_world = "(profile_db, unit, profile_payload) world"

text \<open>The constraints of a row, checked before any conflict.\<close>

definition profile_fits :: "user_profile \<Rightarrow> bool" where
  "profile_fits p \<longleftrightarrow> username_pattern (up_username p) \<and> text_between 1 50 (up_display p) \<and> text_ok (up_avatar p) \<and>
     text_between 0 300 (up_bio p) \<and> (up_country p = [] \<or> country_pattern (up_country p)) \<and> text_ok (up_language p)"

definition profile_row :: "user_profile \<Rightarrow> user_profile" where
  "profile_row p = p\<lparr>up_created := pg_time (up_created p), up_updated := pg_time (up_updated p)\<rparr>"

definition create_if_absent :: "user_profile \<Rightarrow> bool profile_act" where
  "create_if_absent p = stmt (\<lambda>d.
     if \<not> profile_fits p then Inl Infra
     else if has_row up_user (up_user p) (profiles d) then Inr (False, d)
     else if has_row up_username (up_username p) (profiles d) then Inl (Domain UsernameTaken)
     else Inr (True, d\<lparr>profiles := profiles d @ [profile_row p]\<rparr>))"

definition get_profile :: "uuid \<Rightarrow> user_profile profile_act" where
  "get_profile u = bnd (query (\<lambda>d. row_with up_user u (profiles d))) (\<lambda>r. case r of None \<Rightarrow> fail ProfileNotFound | Some p \<Rightarrow> ret p)"

definition edit_row :: "user_profile \<Rightarrow> user_profile \<Rightarrow> user_profile" where
  "edit_row p r = r\<lparr>up_username := up_username p, up_display := up_display p, up_bio := up_bio p, up_country := up_country p,
     up_language := up_language p, up_updated := pg_time (up_updated p)\<rparr>"

definition repo_update_profile :: "user_profile \<Rightarrow> unit profile_act" where
  "repo_update_profile p = stmt (\<lambda>d. case row_with up_user (up_user p) (profiles d) of
     None \<Rightarrow> Inl (Domain ProfileNotFound)
   | Some r \<Rightarrow> if \<not> profile_fits (edit_row p r) then Inl Infra
       else if \<exists>q\<in>set (profiles d). up_user q \<noteq> up_user p \<and> up_username q = up_username p then Inl (Domain UsernameTaken)
       else Inr ((), d\<lparr>profiles := update_rows (\<lambda>r. up_user r = up_user p) (edit_row p) (profiles d)\<rparr>))"

section \<open>Use cases\<close>

definition profile_event :: "user_profile \<Rightarrow> profile_payload contract" where
  "profile_event p = \<lparr>ct_type = ''profile.updated'', ct_key = up_user p, ct_at = up_updated p,
     ct_payload = PProfileUpdated (up_user p) (up_username p) (up_display p) (up_avatar p) (up_country p) (up_language p) (up_updated p)\<rparr>"

definition record_profile :: "user_profile \<Rightarrow> unit profile_act" where
  "record_profile p = publish_events ''profile.events'' ''user-profile-service'' [profile_event p]"

definition create_profile_tx :: "user_profile \<Rightarrow> unit profile_act" where
  "create_profile_tx p = in_tx (\<lambda>_. True) (bnd (create_if_absent p) (\<lambda>created. if \<not> created then ret () else record_profile p))"

text \<open>\<open>strconv.Itoa\<close> of the numbers 2 to 21.\<close>

definition small_text :: "nat \<Rightarrow> string" where
  "small_text n = (if n < 10 then [char_of (48 + n)] else [char_of (48 + n div 10), char_of (48 + n mod 10)])"

definition named :: "user_profile \<Rightarrow> nat \<Rightarrow> user_profile" where
  "named base n = (if n = 1 then base else base\<lparr>up_username := up_username base @ small_text n\<rparr>)"

abbreviation maxUsernameAttempts :: nat where "maxUsernameAttempts \<equiv> 20"

text \<open>The attempts left, from the \<open>n\<close>-th on.\<close>

fun try_names :: "user_profile \<Rightarrow> nat \<Rightarrow> nat \<Rightarrow> unit profile_act" where
  "try_names base n 0 = raise Infra"
| "try_names base n (Suc m) = bnd (attempt (create_profile_tx (named base n))) (\<lambda>r. case r of
     Inr u \<Rightarrow> ret ()
   | Inl e \<Rightarrow> if e = Domain UsernameTaken then try_names base (Suc n) m else raise e)"

definition create_for_new_user :: "profile_deps \<Rightarrow> uuid \<Rightarrow> string \<Rightarrow> unit profile_act" where
  "create_for_new_user k u email = bnd now_utc (\<lambda>now. try_names (from_registration k u email now) 1 maxUsernameAttempts)"

text \<open>\<open>Update\<close>: the profile is read and changed outside the transaction that stores it.\<close>

definition update_begin :: "profile_deps \<Rightarrow> uuid \<Rightarrow> profile_changes \<Rightarrow> (user_profile \<times> bool) profile_act" where
  "update_begin k u c = bnd (get_profile u) (\<lambda>p. bnd now_utc (\<lambda>now.
     case apply_profile k c now p of Inl e \<Rightarrow> fail e | Inr r \<Rightarrow> ret r))"

definition update_finish :: "user_profile \<Rightarrow> unit profile_act" where
  "update_finish p = in_tx (\<lambda>_. True) (bnd (repo_update_profile p) (\<lambda>_. record_profile p))"

definition update_profile :: "profile_deps \<Rightarrow> uuid \<Rightarrow> profile_changes \<Rightarrow> user_profile profile_act" where
  "update_profile k u c = bnd (update_begin k u c) (\<lambda>(p, changed).
     if \<not> changed then ret p else bnd (update_finish p) (\<lambda>_. ret p))"

section \<open>The consumer of registrations\<close>

definition registration_stored :: "profile_error failure + unit \<Rightarrow> herr option" where
  "registration_stored r = (case r of Inr _ \<Rightarrow> None | Inl _ \<Rightarrow> Some \<lparr>permanent = False, herr_text = ''store''\<rparr>)"

definition registration_refused :: "herr option" where
  "registration_refused = Some \<lparr>permanent = True, herr_text = ''payload''\<rparr>"

text \<open>The payload as this reader decodes it: an identifier that parses or not, and the address.\<close>

definition handle_registration :: "profile_deps \<Rightarrow> (uuid option \<times> string) wire krecord \<Rightarrow> profile_world \<Rightarrow> herr option \<times> profile_world" where
  "handle_registration k rec w = (case decode_envelope (rec_value rec) of None \<Rightarrow> (registration_refused, w)
     | Some env \<Rightarrow>
         if env_type env \<noteq> ''user.registered'' then (None, w)
         else if env_version env \<noteq> 1 then (registration_refused, w)
         else (case env_payload env of None \<Rightarrow> (registration_refused, w)
           | Some (user, email) \<Rightarrow> (case user of None \<Rightarrow> (registration_refused, w)
             | Some u \<Rightarrow> apfst registration_stored (create_for_new_user k u email w))))"

section \<open>The routes\<close>

record public_profile =
  pp_id :: uuid
  pp_username :: string
  pp_display :: string
  pp_bio :: string
  pp_country :: string

record own_profile =
  op_public :: public_profile
  op_language :: string
  op_created :: time
  op_updated :: time

definition to_public :: "user_profile \<Rightarrow> public_profile" where
  "to_public p = \<lparr>pp_id = up_user p, pp_username = up_username p, pp_display = up_display p, pp_bio = up_bio p, pp_country = up_country p\<rparr>"

definition to_own :: "user_profile \<Rightarrow> own_profile" where
  "to_own p = \<lparr>op_public = to_public p, op_language = up_language p, op_created = up_created p, op_updated = up_updated p\<rparr>"

definition profile_fail :: "profile_error failure \<Rightarrow> 'b response" where
  "profile_fail e = (case e of
     Domain (InvalidProfile fs) \<Rightarrow> Problem 422 CodeValidation fs
   | Domain UsernameTaken \<Rightarrow> Problem 409 ''USERNAME_TAKEN'' []
   | Domain ProfileNotFound \<Rightarrow> Problem 404 ''PROFILE_NOT_FOUND'' []
   | Infra \<Rightarrow> Problem 500 CodeInternal [])"

definition profile_reply :: "('a \<Rightarrow> 'b) \<Rightarrow> (profile_error failure + 'a) \<times> profile_world \<Rightarrow> 'b response \<times> profile_world" where
  "profile_reply f = apfst (\<lambda>r. case r of Inl e \<Rightarrow> profile_fail e | Inr x \<Rightarrow> Reply 200 (f x))"

definition get_user :: "uuid option \<Rightarrow> profile_world \<Rightarrow> public_profile response \<times> profile_world" where
  "get_user i w = (case i of None \<Rightarrow> (Problem 400 CodeBadRequest [], w) | Some u \<Rightarrow> profile_reply to_public (get_profile u w))"

definition get_me :: "uuid option \<Rightarrow> profile_world \<Rightarrow> own_profile response \<times> profile_world" where
  "get_me who w = (case who of None \<Rightarrow> (Problem 401 CodeUnauthenticated [], w) | Some u \<Rightarrow> profile_reply to_own (get_profile u w))"

text \<open>The body of the request, where it decodes.\<close>

definition patch_me :: "profile_deps \<Rightarrow> uuid option \<Rightarrow> profile_changes option \<Rightarrow> profile_world \<Rightarrow> own_profile response \<times> profile_world" where
  "patch_me k who body w = (case who of None \<Rightarrow> (Problem 401 CodeUnauthenticated [], w)
     | Some u \<Rightarrow> (case body of None \<Rightarrow> (Problem 400 CodeBadRequest [], w) | Some c \<Rightarrow> profile_reply to_own (update_profile k u c w)))"
section \<open>The events tell the profiles\<close>

type_synonym profile_view = "string \<times> string \<times> string \<times> string \<times> string \<times> time"

definition view_of :: "user_profile \<Rightarrow> profile_view" where
  "view_of p = (up_username p, up_display p, up_avatar p, up_country p, up_language p, up_updated p)"

definition profiles_seen :: "profile_db \<Rightarrow> uuid \<Rightarrow> profile_view option" where
  "profiles_seen d u = map_option view_of (row_with up_user u (profiles d))"

fun apply_profile_event :: "profile_payload \<Rightarrow> (uuid \<Rightarrow> profile_view option) \<Rightarrow> (uuid \<Rightarrow> profile_view option)" where
  "apply_profile_event (PProfileUpdated u n dn a c l t) m = m(u := Some (n, dn, a, c, l, t))"

definition profile_replay :: "profile_payload message list \<Rightarrow> uuid \<Rightarrow> profile_view option" where
  "profile_replay l = fold (\<lambda>m. apply_profile_event (env_payload (msg_value m))) l (\<lambda>_. None)"

text \<open>No use case gives a profile an avatar; columns keep microseconds.\<close>

definition plain_profile :: "user_profile \<Rightarrow> bool" where
  "plain_profile p \<longleftrightarrow> up_avatar p = [] \<and> pg_time (up_updated p) = up_updated p"

definition profile_inv :: "profile_db \<Rightarrow> profile_payload message list \<Rightarrow> bool" where
  "profile_inv d l \<longleftrightarrow> unique_on up_user (profiles d) \<and> unique_on up_username (profiles d) \<and>
     (\<forall>p\<in>set (profiles d). profile_fits p \<and> plain_profile p) \<and> profiles_seen d = profile_replay l"

lemma profile_replay_snoc: "profile_replay (l @ [m]) = apply_profile_event (env_payload (msg_value m)) (profile_replay l)"
  by (simp add: profile_replay_def)

lemma record_profile_Inr:
  assumes "record_profile p w = (Inr u, w1)"
  shows "db w1 = db w \<and> (\<exists>m. log w1 = log w @ [m] \<and> profile_replay (log w1) = (profile_replay (log w))(up_user p := Some (view_of p)))"
proof -
  from publish_one [OF assms [unfolded record_profile_def]] obtain m where "db w1 = db w" "log w1 = log w @ [m]" "carries m (profile_event p)" by blast
  then show ?thesis by (auto simp: profile_replay_snoc carries_def profile_event_def view_of_def)
qed

lemma create_profile_body:
  assumes I: "profile_inv (db w) (log w)" and p: "plain_profile p"
    and run: "bnd (create_if_absent p) (\<lambda>created. if \<not> created then ret () else record_profile p) w = (Inr x, w1)"
  shows "profile_inv (db w1) (log w1)"
proof -
  from run obtain created w2 where c: "create_if_absent p w = (Inr created, w2)"
    "(if \<not> created then ret () else record_profile p) w2 = (Inr x, w1)" by (auto simp: bnd_Inr)
  show ?thesis
  proof (cases created)
    case False
    then have "db w2 = db w" "log w2 = log w" using c(1) by (auto simp: create_if_absent_def stmt_Inr split: if_splits)
    then show ?thesis using I c(2) False by (simp add: ret_Inr)
  next
    case True
    have d: "profile_fits p" "\<not> has_row up_user (up_user p) (profiles (db w))" "\<not> has_row up_username (up_username p) (profiles (db w))"
      "db w2 = (db w)\<lparr>profiles := profiles (db w) @ [profile_row p]\<rparr>" "log w2 = log w"
      using c(1) True by (auto simp: create_if_absent_def stmt_Inr split: if_splits)
    have r: "up_user (profile_row p) = up_user p" "up_username (profile_row p) = up_username p" "view_of (profile_row p) = view_of p"
      "profile_fits (profile_row p)" "plain_profile (profile_row p)"
      using d(1) p by (simp_all add: profile_row_def view_of_def profile_fits_def plain_profile_def)
    have "record_profile p w2 = (Inr x, w1)" using c(2) True by simp
    from record_profile_Inr [OF this] have e: "db w1 = db w2" "profile_replay (log w1) = (profile_replay (log w))(up_user p := Some (view_of p))"
      unfolding d(5) by auto
    have "profiles_seen (db w1) = (profiles_seen (db w))(up_user p := Some (view_of p))"
      using d(2) by (auto simp: fun_eq_iff e d(4) profiles_seen_def row_with_append has_row_row_with r split: option.splits)
    then show ?thesis using I d(2,3) r unfolding profile_inv_def e by (auto simp: e d(4) has_row_iff)
  qed
qed

lemma unique_after_rename:
  "unique_on key rs \<Longrightarrow> unique_on name rs \<Longrightarrow> (\<And>q. q \<in> set rs \<Longrightarrow> key q \<noteq> i \<Longrightarrow> name q \<noteq> n) \<Longrightarrow> (\<And>r. name (f r) = n) \<Longrightarrow>
    unique_on name (update_rows (\<lambda>r. key r = i) f rs)"
proof (induction rs)
  case (Cons a rs)
  have d: "key q \<noteq> key a" "name q \<noteq> name a" if "q \<in> set rs" for q
    using Cons.prems(1,2) imageI [OF that, of key] imageI [OF that, of name] by (auto simp: unique_on_def)
  have IH: "unique_on name (update_rows (\<lambda>r. key r = i) f rs)" using Cons by (simp add: unique_on_def)
  show ?case
  proof (cases "key a = i")
    case True
    then have "update_rows (\<lambda>r. key r = i) f rs = rs" using d(1) by (auto simp: update_rows_def intro!: map_idI)
    moreover have "n \<notin> name ` set rs" using Cons.prems(3) d(1) True by force
    ultimately show ?thesis using True Cons.prems(2,4) by (simp add: unique_on_def update_rows_def)
  next
    case False
    have "name a \<noteq> n" using Cons.prems(3) False by simp
    then have "name a \<noteq> name (if key q = i then f q else q)" if "q \<in> set rs" for q using d(2) [OF that] Cons.prems(4) by simp
    then have "name a \<notin> (\<lambda>q. name (if key q = i then f q else q)) ` set rs" by blast
    then show ?thesis using IH False by (simp add: unique_on_def update_rows_def image_comp comp_def)
  qed
qed (simp add: unique_on_def update_rows_def)

lemma update_profile_body:
  assumes I: "profile_inv (db w) (log w)" and p: "plain_profile p"
    and run: "bnd (repo_update_profile p) (\<lambda>_. record_profile p) w = (Inr x, w1)"
  shows "profile_inv (db w1) (log w1)"
proof -
  from run obtain u w2 where c: "repo_update_profile p w = (Inr u, w2)" "record_profile p w2 = (Inr x, w1)" by (auto simp: bnd_Inr)
  from c(1) obtain r where r: "row_with up_user (up_user p) (profiles (db w)) = Some r" "profile_fits (edit_row p r)"
    "\<not> (\<exists>q\<in>set (profiles (db w)). up_user q \<noteq> up_user p \<and> up_username q = up_username p)"
    and d: "db w2 = (db w)\<lparr>profiles := update_rows (\<lambda>r. up_user r = up_user p) (edit_row p) (profiles (db w))\<rparr>" "log w2 = log w"
    by (auto simp: repo_update_profile_def stmt_Inr split: option.splits if_splits)
  from record_profile_Inr [OF c(2)] have e: "db w1 = db w2" "profile_replay (log w1) = (profile_replay (log w))(up_user p := Some (view_of p))"
    unfolding d(2) by auto
  have r1: "r \<in> set (profiles (db w))" "up_user r = up_user p" using row_with_SomeD [OF r(1)] by simp_all
  have only: "q = r" if "q \<in> set (profiles (db w))" "up_user q = up_user p" for q
    using I that r1 unfolding profile_inv_def unique_on_def by (metis inj_onD distinct_map)
  have v: "view_of (edit_row p r) = view_of p" "plain_profile (edit_row p r)" "up_user (edit_row p r) = up_user p"
    using I p r1 by (auto simp: view_of_def edit_row_def plain_profile_def profile_inv_def)
  have "row_with up_user k (profiles (db w1)) = (if k = up_user p then Some (edit_row p r) else row_with up_user k (profiles (db w)))" for k
    using row_with_update_key [of up_user "edit_row p"] r(1) by (simp add: e d(1) edit_row_def)
  then have seen: "profiles_seen (db w1) = (profiles_seen (db w))(up_user p := Some (view_of p))"
    by (auto simp: fun_eq_iff profiles_seen_def v)
  have "unique_on up_username (profiles (db w1))"
    using I r(3) unfolding profile_inv_def e d(1) by (auto intro!: unique_after_rename simp: edit_row_def)
  moreover have "unique_on up_user (profiles (db w1))"
    using I unique_on_update [of up_user "edit_row p"] unfolding profile_inv_def e d(1) by (simp add: edit_row_def)
  moreover have "profile_fits q \<and> plain_profile q" if "q \<in> set (profiles (db w1))" for q
    using that I only r(2) v(2) unfolding e d(1) by (auto simp: set_update_rows profile_inv_def split: if_splits)
  ultimately show ?thesis using I seen e(2) unfolding profile_inv_def by simp
qed

section \<open>Interleaved requests\<close>

text \<open>
  A registration is handled at once, each attempt in a transaction of its own. An update reads
  and validates first (\<open>BeginUpdate\<close>) and stores later (\<open>FinishUpdate\<close>), with anything in
  between, or never.
\<close>

datatype profile_step = Register uuid string | BeginUpdate uuid profile_changes | FinishUpdate nat

fun do_profile :: "profile_deps \<Rightarrow> profile_step \<Rightarrow> profile_world \<times> user_profile list \<Rightarrow> profile_world \<times> user_profile list" where
  "do_profile k (Register u email) (w, ps) = (snd (create_for_new_user k u email w), ps)"
| "do_profile k (BeginUpdate u c) (w, ps) = (case update_begin k u c w of
     (Inr (p, changed), w1) \<Rightarrow> (w1, if changed then ps @ [p] else ps) | (Inl e, w1) \<Rightarrow> (w1, ps))"
| "do_profile k (FinishUpdate n) (w, ps) = (if n < length ps then (snd (update_finish (ps ! n) w), ps) else (w, ps))"

definition run_profiles :: "profile_deps \<Rightarrow> profile_step list \<Rightarrow> profile_world \<Rightarrow> profile_world" where
  "run_profiles k ss w = fst (fold (do_profile k) ss (w, []))"

definition profile_start :: "(nat \<Rightarrow> fate) \<Rightarrow> (nat \<Rightarrow> time) \<Rightarrow> (nat \<Rightarrow> uuid option) \<Rightarrow> profile_world" where
  "profile_start f c u = \<lparr>tick = 0, fates = f, clock = c, fresh = u, db = \<lparr>profiles = []\<rparr>, outbox = [], next_row = 1, ext = ()\<rparr>"

lemma keeps_create: "plain_profile p \<Longrightarrow> keeps_inv profile_inv (create_profile_tx p)"
  unfolding create_profile_tx_def by (intro keeps_in_tx body_keepsI) (rule create_profile_body)

lemma keeps_finish: "plain_profile p \<Longrightarrow> keeps_inv profile_inv (update_finish p)"
  unfolding update_finish_def by (intro keeps_in_tx body_keepsI) (rule update_profile_body)

lemma plain_named: "plain_profile p \<Longrightarrow> plain_profile (named p n)"
  by (simp add: plain_profile_def named_def)

lemma keeps_names: "plain_profile p \<Longrightarrow> keeps_inv profile_inv (try_names p n m)"
proof (induction m arbitrary: n)
  case (Suc m)
  have "keeps_inv profile_inv (create_profile_tx (named p n))" by (intro keeps_create plain_named Suc.prems)
  then show ?case using Suc by (auto intro!: keeps split: sum.split)
qed (auto intro: keeps)

lemma keeps_register: "keeps_inv profile_inv (create_for_new_user k u email)"
  unfolding create_for_new_user_def by (intro keeps keeps_names) (simp add: plain_profile_def from_registration_def)

lemma keeps_begin: "keeps_inv profile_inv (update_begin k u c)"
  unfolding update_begin_def get_profile_def by (auto intro!: keeps split: option.split sum.split)

lemma given_avatar: "(\<And>v p. up_avatar (put v p) = up_avatar p) \<Longrightarrow> up_avatar (fst (given v norm ok name problem put s)) = up_avatar (fst s)"
  by (simp add: given_def Let_def split: option.split)

lemma profile_next_avatar: "up_avatar (fst (profile_next k c p)) = up_avatar p"
  unfolding profile_next_def by (simp add: given_avatar)

lemma apply_plain: "apply_profile k c now p = Inr (q, ch) \<Longrightarrow> plain_profile p \<Longrightarrow> plain_profile q"
  using profile_next_avatar [of k c p] by (auto simp: apply_profile_def plain_profile_def split: prod.splits if_splits)

lemma begin_plain:
  assumes "update_begin k u c w = (Inr (p, ch), w1)" "profile_inv (db w) (log w)"
  shows "plain_profile p"
proof -
  from assms(1) obtain r where r: "row_with up_user u (profiles (db w)) = Some r" "\<exists>now. apply_profile k c now r = Inr (p, ch)"
    by (auto simp: update_begin_def get_profile_def act_inv split: option.splits sum.splits)
  then show ?thesis using apply_plain assms(2) row_with_SomeD [OF r(1)] by (auto simp: profile_inv_def)
qed

lemma do_profile_inv:
  assumes "profile_inv (db w) (log w)" "list_all plain_profile ps" "do_profile k s (w, ps) = (w1, ps1)"
  shows "profile_inv (db w1) (log w1) \<and> list_all plain_profile ps1"
proof (cases s)
  case (Register u email)
  then show ?thesis using assms keeps_invD [OF keeps_register assms(1) surjective_pairing] by auto
next
  case (BeginUpdate u c)
  obtain r w2 where run: "update_begin k u c w = (r, w2)" by fastforce
  note i = keeps_invD [OF keeps_begin assms(1) run]
  show ?thesis
  proof (cases r)
    case (Inl e)
    then show ?thesis using assms i run BeginUpdate by simp
  next
    case (Inr q)
    obtain p ch where q: "q = (p, ch)" by fastforce
    have "plain_profile p" using begin_plain run assms(1) unfolding Inr q by blast
    then show ?thesis using assms i run BeginUpdate unfolding Inr q by (auto split: if_splits)
  qed
next
  case (FinishUpdate n)
  show ?thesis
  proof (cases "n < length ps")
    case True
    then have "plain_profile (ps ! n)" using assms(2) by (simp add: list_all_length)
    from keeps_invD [OF keeps_finish [OF this] assms(1) surjective_pairing] show ?thesis using assms True FinishUpdate by auto
  qed (use assms FinishUpdate in simp)
qed

lemma run_profiles_inv:
  "profile_inv (db w) (log w) \<Longrightarrow> list_all plain_profile ps \<Longrightarrow> profile_inv (db (fst (fold (do_profile k) ss (w, ps)))) (log (fst (fold (do_profile k) ss (w, ps))))"
proof (induction ss arbitrary: w ps)
  case (Cons s ss)
  obtain w1 ps1 where s: "do_profile k s (w, ps) = (w1, ps1)" by fastforce
  from do_profile_inv [OF Cons.prems s] Cons.IH [of w1 ps1] s show ?case by simp
qed simp

section \<open>The username of a registration\<close>

lemma dropWhile_chars: "list_all P s \<Longrightarrow> list_all P (dropWhile Q s)"
  by (auto simp: list_all_iff dest: set_dropWhileD)

lemma squeeze_chars: "list_all name_char s \<Longrightarrow> list_all name_char (squeeze s)"
proof (induction s rule: squeeze.induct)
  case (3 c d s)
  have "name_char CHR ''.''" by (simp add: name_char_def separator_def)
  moreover have "list_all name_char (dropWhile separator s)" using 3(3) by (simp add: dropWhile_chars)
  ultimately show ?case using 3 by (cases "separator c \<and> separator d") auto
qed simp_all

lemma derived_chars: "list_all name_char (derived_name k email)"
proof -
  have "list_all name_char (squeeze (filter name_char (local_part k email)))" by (intro squeeze_chars) (simp add: list_all_iff)
  then have "list_all name_char (rev (dropWhile separator (squeeze (filter name_char (local_part k email)))))" using dropWhile_chars by simp
  from dropWhile_chars [OF this] show ?thesis by (simp add: derived_name_def trim_separators_def)
qed

lemma hd_dropped: "dropWhile P s \<noteq> [] \<Longrightarrow> \<not> P (hd (dropWhile P s))"
  by (induction s) auto

lemma last_dropped: "dropWhile P s \<noteq> [] \<Longrightarrow> last (dropWhile P s) = last s"
  by (induction s) auto

lemma trimmed_edges:
  assumes "trim_separators s \<noteq> []"
  shows "\<not> separator (hd (trim_separators s))" "\<not> separator (last (trim_separators s))"
proof -
  define t where "t = dropWhile separator s"
  have s: "trim_separators s = rev (dropWhile separator (rev t))" by (simp add: trim_separators_def t_def)
  have r: "dropWhile separator (rev t) \<noteq> []" using assms unfolding s by (metis rev.simps(1))
  show "\<not> separator (last (trim_separators s))" unfolding s last_rev by (rule hd_dropped [OF r])
  have "t \<noteq> []" using r by (metis dropWhile.simps(1) rev.simps(1))
  then have "\<not> separator (hd t)" unfolding t_def by (rule hd_dropped)
  moreover have "hd (trim_separators s) = hd t" unfolding s hd_rev last_dropped [OF r] last_rev ..
  ultimately show "\<not> separator (hd (trim_separators s))" by simp
qed

text \<open>The username fails the constraint of its column exactly when the cut leaves a separator at the end.\<close>

lemma registration_username_fits:
  "username_pattern (registration_username k email) \<longleftrightarrow> \<not> (24 < length (derived_name k email) \<and> separator (derived_name k email ! 23))"
proof -
  let ?d = "derived_name k email" and ?u = "take 24 (derived_name k email)"
  show ?thesis
  proof (cases "length ?u < 3")
    case True
    then have "registration_username k email = ''listener''" unfolding registration_username_def Let_def by (simp only: if_True)
    moreover have "username_pattern ''listener''" by code_simp
    moreover have "length (derived_name k email) \<le> 24" using True by simp
    ultimately show ?thesis by simp
  next
    case False
    then have ne: "?d \<noteq> []" "?u \<noteq> []" by auto
    have all: "list_all name_char ?u" using derived_chars [of k email] by (auto simp: list_all_iff dest: in_set_takeD)
    have h: "hd ?u = hd ?d" using ne by simp
    have nc: "\<not> separator (hd ?d)" "\<not> separator (last ?d)" using trimmed_edges ne(1) unfolding derived_name_def by blast+
    have "name_char (hd ?u)" "name_char (last ?u)" using all hd_in_set [OF ne(2)] last_in_set [OF ne(2)] unfolding list_all_iff by blast+
    then have edges: "name_edge (hd ?u)" "name_edge (last ?u) \<longleftrightarrow> \<not> separator (last ?u)"
      using nc(1) unfolding h by (auto simp: name_char_def name_edge_def lower_letter_def separator_def)
    have "username_pattern ?u \<longleftrightarrow> \<not> separator (last ?u)" using False all edges by (auto simp: username_pattern_def)
    moreover have "last ?u = (if 24 < length ?d then ?d ! 23 else last ?d)"
      using ne by (auto simp: last_conv_nth)
    moreover have "registration_username k email = ?u" using False by (simp add: registration_username_def Let_def)
    ultimately show ?thesis using nc(2) by auto
  qed
qed

lemma create_refused:
  assumes "\<not> profile_fits p"
  shows "case create_profile_tx p w of (r, w1) \<Rightarrow> r = Inl Infra \<and> db w1 = db w \<and> log w1 = log w"
proof -
  have "fst (create_if_absent p (advance w)) = Inl Infra"
    using assms by (simp add: create_if_absent_def stmt_def split: fate.split)
  then obtain w1 where "create_if_absent p (advance w) = (Inl Infra, w1)" by (metis prod.collapse)
  then have "bnd (create_if_absent p) (\<lambda>created. if \<not> created then ret () else record_profile p) (advance w) = (Inl Infra, w1)" by (simp add: bnd_def)
  then show ?thesis by (simp add: create_profile_tx_def in_tx_def log_def)
qed

text \<open>C32: a person whose address has a local part with a dot or an underscore right where the derived
  username is cut, as its 24th of more than 24 characters, never gets a profile: the username
  breaks the constraint of its column, so the handler fails the event of the registration,
  every time and without writing anything, until the consumer parks it.\<close>

theorem cut_username_never_registers:
  assumes "24 < length (derived_name k email)" "separator (derived_name k email ! 23)"
    and "decode_envelope (rec_value rec) = Some env" "env_type env = ''user.registered''" "env_version env = 1" "env_payload env = Some (Some u, email)"
  shows "case handle_registration k rec w of (r, w1) \<Rightarrow> (\<exists>e. r = Some e \<and> \<not> permanent e) \<and> db w1 = db w \<and> log w1 = log w"
proof -
  have bad: "\<not> profile_fits (named (from_registration k u email now) 1)" for now
    using registration_username_fits [of k email] assms(1,2) by (simp add: profile_fits_def named_def from_registration_def)
  obtain r w1 where c: "create_profile_tx (named (from_registration k u email (clock w (tick w))) 1) (advance w) = (r, w1)" by fastforce
  have c1: "r = Inl Infra" "db w1 = db w" "log w1 = log w" using create_refused [OF bad [of "clock w (tick w)"], of "advance w"] unfolding c by simp_all
  have "create_for_new_user k u email w = (Inl Infra, w1)"
    using c c1(1) by (simp add: create_for_new_user_def bnd_def now_utc_def attempt_def raise_def numeral_eq_Suc)
  then show ?thesis using assms(3-6) c1(2,3) by (simp add: handle_registration_def registration_stored_def)
qed

definition ascii_deps :: profile_deps where
  "ascii_deps = \<lparr>lower_of = \<lambda>s. s, upper_of = \<lambda>s. s, upper_rune = \<lambda>c. c\<rparr>"

definition long_address :: string where
  "long_address = ''abcdefghijklmnopqrstuvw.xyz@icyre.example''"

definition registration_record :: "(uuid option \<times> string) wire krecord" where
  "registration_record = \<lparr>rec_topic = ''auth.events'', rec_partition = 0, rec_offset = 0, rec_key = 5, rec_value = Some \<lparr>env_id = 1, env_type = ''user.registered'', env_version = 1,
     env_at = 10, env_producer = ''auth-service'', env_payload = Some (Some 5, long_address)\<rparr>, rec_headers = []\<rparr>"

theorem cut_username_never_registers_witness:
  "case handle_registration ascii_deps registration_record (profile_start (\<lambda>_. Fine) (\<lambda>_. 0) (\<lambda>_. Some 9)) of
     (r, w1) \<Rightarrow> (\<exists>e. r = Some e \<and> \<not> permanent e) \<and> db w1 = \<lparr>profiles = []\<rparr> \<and> log w1 = []"
proof -
  have "24 < length (derived_name ascii_deps long_address) \<and> separator (derived_name ascii_deps long_address ! 23)" by code_simp
  moreover have "decode_envelope (rec_value registration_record) = Some \<lparr>env_id = 1, env_type = ''user.registered'', env_version = 1,
     env_at = 10, env_producer = ''auth-service'', env_payload = Some (Some 5, long_address)\<rparr>"
    by (simp add: registration_record_def decode_envelope_def envelope_valid_def)
  ultimately show ?thesis
    using cut_username_never_registers [of ascii_deps long_address registration_record _ 5 "profile_start (\<lambda>_. Fine) (\<lambda>_. 0) (\<lambda>_. Some 9)"]
    by (simp add: profile_start_def log_def)
qed

end
