(* ===== verification/Bff.thy ===== *)
theory Bff
  imports Catalog Indexer GoFloat "HOL-Library.Signed_Division"
begin

text \<open>
  The Web BFF (\<^verbatim>\<open>services/bff\<close>): the clients of the services it reads, and the pages it puts
  together from them. What a service answers is a parameter: no answer at all, or a status with
  a body that may not decode. Within one page every call of the code is told apart, by its
  operation and arguments or by a number, so that nothing is assumed of two answers to the same
  question. The budget of a page and the client timeouts show up as missing answers. Identifiers
  are the strings the code passes on; escaping them into paths is left out. Times are UTC.
  Fields the code never sets (cover and avatar URLs, \<^verbatim>\<open>hiRes\<close>, \<^verbatim>\<open>explicit\<close> of a card, the sections
  of Home without a source) are left out of the views.
\<close>

section \<open>Dates\<close>

text \<open>What \<open>time.Parse(time.DateOnly, s)\<close> gives: year, month and day.\<close>

type_synonym date = "int \<times> nat \<times> nat"

definition leap :: "int \<Rightarrow> bool" where
  "leap y \<longleftrightarrow> 4 dvd y \<and> (\<not> 100 dvd y \<or> 400 dvd y)"

definition days_in :: "int \<Rightarrow> nat \<Rightarrow> nat" where
  "days_in y m = (if m = 2 then if leap y then 29 else 28 else if m \<in> {4, 6, 9, 11} then 30 else 31)"

definition parse_date :: "string \<Rightarrow> date option" where
  "parse_date s =
     (if length s = 10 \<and> s ! 4 = CHR ''-'' \<and> s ! 7 = CHR ''-'' then
        case (atoi_digits 0 (take 4 s), atoi_digits 0 (take 2 (drop 5 s)), atoi_digits 0 (drop 8 s)) of
          (Some y, Some m, Some d) \<Rightarrow>
            if 1 \<le> m \<and> m \<le> 12 \<and> 1 \<le> d \<and> d \<le> days_in (int y) m then Some (int y, m, d) else None
        | _ \<Rightarrow> None
      else None)"

definition year_of :: "date \<Rightarrow> int" where
  "year_of d = fst d"

definition padded_digits :: "nat \<Rightarrow> nat \<Rightarrow> string" where
  "padded_digits w n = map (\<lambda>i. char_of (48 + n div 10 ^ (w - 1 - i) mod 10)) [0..<w]"

definition format_date :: "date \<Rightarrow> string" where
  "format_date d = (case d of (y, m, n) \<Rightarrow> padded_digits 4 (nat y) @ ''-'' @ padded_digits 2 m @ ''-'' @ padded_digits 2 n)"

text \<open>The instant of midnight, in nanoseconds since the first of January of the year 1.\<close>

definition date_time :: "date \<Rightarrow> time" where
  "date_time d = (case d of (y, m, n) \<Rightarrow>
     (365 * (y - 1) + (y - 1) div 4 - (y - 1) div 100 + (y - 1) div 400
      + int (sum_list (map (days_in y) [1..<m])) + int n - 1) * 86400 * second)"

section \<open>Read models\<close>

record bff_album_dto =
  ad_id :: string
  ad_title :: string
  ad_type :: string
  ad_date :: string
  ad_artists :: "string list"
  ad_genres :: "string list"

record bff_album =
  ba_id :: string
  ba_title :: string
  ba_type :: string
  ba_date :: date
  ba_artists :: "string list"
  ba_genres :: "string list"

record bff_track_dto =
  td_id :: string
  td_album :: string
  td_artists :: "string list"
  td_title :: string
  td_ms :: "64 word"
  td_number :: int
  td_disc :: int
  td_explicit :: bool
  td_status :: string

record bff_track =
  bt_id :: string
  bt_album :: string
  bt_artists :: "string list"
  bt_title :: string
  bt_duration :: "64 word"
  bt_number :: int
  bt_disc :: int
  bt_explicit :: bool
  bt_status :: string

record bff_artist =
  bn_id :: string
  bn_name :: string

record bff_genre =
  bg_id :: string
  bg_slug :: string
  bg_name :: string

record bff_playlist =
  bp_id :: string
  bp_owner :: string
  bp_title :: string
  bp_tracks :: "string list"
  bp_updated :: time

record profile_dto =
  pd_username :: string
  pd_display :: string

section \<open>Clients of the upstream services\<close>

datatype 'a answer = NoAnswer | Answer nat "'a option"

datatype up_error = UpNotFound | UpFailed

record upstreams =
  album_answer :: "nat \<Rightarrow> string \<Rightarrow> bff_album_dto answer"
  album_tracks_answer :: "string \<Rightarrow> bff_track_dto list answer"
  tracks_answer :: "nat \<Rightarrow> string list \<Rightarrow> bff_track_dto list answer"
  latest_answer :: "int \<Rightarrow> bff_album_dto list answer"
  artist_albums_answer :: "string \<Rightarrow> int \<Rightarrow> bff_album_dto list answer"
  artists_answer :: "string list \<Rightarrow> bff_artist list answer"
  genres_answer :: "bff_genre list answer"
  saved_answer :: "nat \<Rightarrow> string \<Rightarrow> string list \<Rightarrow> string list answer"
  sources_answer :: "string \<Rightarrow> int \<Rightarrow> string list answer"
  playlist_answer :: "nat \<Rightarrow> string \<Rightarrow> bff_playlist answer"
  profile_answer :: "string \<Rightarrow> profile_dto answer"

text \<open>\<open>Client.get\<close> of the Catalog client, and \<open>upstream.get\<close> of the playlist and profile clients.\<close>

fun catalog_get :: "'a answer \<Rightarrow> up_error + 'a" where
  "catalog_get NoAnswer = Inl UpFailed"
| "catalog_get (Answer s b) =
     (if s = 404 then Inl UpNotFound else if 400 \<le> s then Inl UpFailed
      else case b of None \<Rightarrow> Inl UpFailed | Some x \<Rightarrow> Inr x)"

fun upstream_get :: "'a answer \<Rightarrow> up_error + 'a" where
  "upstream_get NoAnswer = Inl UpFailed"
| "upstream_get (Answer s b) =
     (if s = 404 then Inl UpNotFound else if s \<noteq> 200 then Inl UpFailed
      else case b of None \<Rightarrow> Inl UpFailed | Some x \<Rightarrow> Inr x)"

definition to_bff_album :: "bff_album_dto \<Rightarrow> up_error + bff_album" where
  "to_bff_album a =
     (case parse_date (ad_date a) of
        None \<Rightarrow> Inl UpFailed
      | Some d \<Rightarrow> Inr \<lparr>ba_id = ad_id a, ba_title = ad_title a, ba_type = ad_type a, ba_date = d,
          ba_artists = ad_artists a, ba_genres = ad_genres a\<rparr>)"

definition to_bff_track :: "bff_track_dto \<Rightarrow> bff_track" where
  "to_bff_track t = \<lparr>bt_id = td_id t, bt_album = td_album t, bt_artists = td_artists t, bt_title = td_title t,
     bt_duration = td_ms t * 1000000, bt_number = td_number t, bt_disc = td_disc t,
     bt_explicit = td_explicit t, bt_status = td_status t\<rparr>"

definition get_bff_album :: "upstreams \<Rightarrow> nat \<Rightarrow> string \<Rightarrow> up_error + bff_album" where
  "get_bff_album u n i = (case catalog_get (album_answer u n i) of Inl e \<Rightarrow> Inl e | Inr a \<Rightarrow> to_bff_album a)"

definition get_album_tracks :: "upstreams \<Rightarrow> string \<Rightarrow> up_error + bff_track list" where
  "get_album_tracks u i =
     (case catalog_get (album_tracks_answer u i) of Inl e \<Rightarrow> Inl e | Inr ts \<Rightarrow> Inr (map to_bff_track ts))"

text \<open>\<open>Client.albums\<close>: one bad date loses the whole list.\<close>

fun to_bff_albums :: "bff_album_dto list \<Rightarrow> up_error + bff_album list" where
  "to_bff_albums [] = Inr []"
| "to_bff_albums (a # as') =
     (case to_bff_album a of
        Inl e \<Rightarrow> Inl e
      | Inr b \<Rightarrow> (case to_bff_albums as' of Inl e \<Rightarrow> Inl e | Inr bs \<Rightarrow> Inr (b # bs)))"

definition client_albums :: "bff_album_dto list answer \<Rightarrow> up_error + bff_album list" where
  "client_albums r = (case catalog_get r of Inl e \<Rightarrow> Inl e | Inr as' \<Rightarrow> to_bff_albums as')"

definition latest_bff_albums :: "upstreams \<Rightarrow> int \<Rightarrow> up_error + bff_album list" where
  "latest_bff_albums u n = client_albums (latest_answer u n)"

definition get_artist_albums :: "upstreams \<Rightarrow> string \<Rightarrow> int \<Rightarrow> up_error + bff_album list" where
  "get_artist_albums u i n = client_albums (artist_albums_answer u i n)"

text \<open>\<open>Client.Tracks\<close>: batches of \<open>maxBatch\<close>, the first failing one ends the call.\<close>

abbreviation maxBatch :: nat where "maxBatch \<equiv> 100"

fun tracks_batches :: "upstreams \<Rightarrow> nat \<Rightarrow> string list list \<Rightarrow> up_error + bff_track list" where
  "tracks_batches u n [] = Inr []"
| "tracks_batches u n (c # cs) =
     (case catalog_get (tracks_answer u n c) of
        Inl e \<Rightarrow> Inl e
      | Inr ts \<Rightarrow> (case tracks_batches u (Suc n) cs of
            Inl e \<Rightarrow> Inl e
          | Inr rest \<Rightarrow> Inr (map to_bff_track ts @ rest)))"

definition get_bff_tracks :: "upstreams \<Rightarrow> string list \<Rightarrow> up_error + bff_track list" where
  "get_bff_tracks u ids = tracks_batches u 0 (chunks_of maxBatch ids)"

definition get_bff_artists :: "upstreams \<Rightarrow> string list \<Rightarrow> up_error + bff_artist list" where
  "get_bff_artists u ids = catalog_get (artists_answer u ids)"

definition get_bff_genres :: "upstreams \<Rightarrow> up_error + bff_genre list" where
  "get_bff_genres u = catalog_get (genres_answer u)"

text \<open>\<open>SavedTracks\<close> of the Library client; a refused token has saved nothing.\<close>

fun saved_reply :: "string list answer \<Rightarrow> up_error + string list" where
  "saved_reply NoAnswer = Inl UpFailed"
| "saved_reply (Answer s b) =
     (if s = 200 then (case b of None \<Rightarrow> Inl UpFailed | Some ids \<Rightarrow> Inr ids)
      else if s = 401 then Inr [] else Inl UpFailed)"

fun saved_batches :: "upstreams \<Rightarrow> string \<Rightarrow> nat \<Rightarrow> string list list \<Rightarrow> up_error + string list" where
  "saved_batches u tok n [] = Inr []"
| "saved_batches u tok n (c # cs) =
     (case saved_reply (saved_answer u n tok c) of
        Inl e \<Rightarrow> Inl e
      | Inr ids \<Rightarrow> (case saved_batches u tok (Suc n) cs of Inl e \<Rightarrow> Inl e | Inr rest \<Rightarrow> Inr (ids @ rest)))"

definition client_saved_tracks :: "upstreams \<Rightarrow> string \<Rightarrow> string list \<Rightarrow> up_error + string list" where
  "client_saved_tracks u tok ids =
     (if tok = [] \<or> ids = [] then Inr [] else saved_batches u tok 0 (chunks_of 100 ids))"

definition client_recent_sources :: "upstreams \<Rightarrow> string \<Rightarrow> int \<Rightarrow> up_error + string list" where
  "client_recent_sources u tok n =
     (if tok = [] then Inr [] else case sources_answer u tok n of
          NoAnswer \<Rightarrow> Inl UpFailed
        | Answer s b \<Rightarrow>
            if s = 200 then (case b of None \<Rightarrow> Inl UpFailed | Some ss \<Rightarrow> Inr ss)
            else if s = 401 then Inr [] else Inl UpFailed)"

definition get_bff_playlist :: "upstreams \<Rightarrow> nat \<Rightarrow> string \<Rightarrow> up_error + bff_playlist" where
  "get_bff_playlist u n i = upstream_get (playlist_answer u n i)"

definition client_display_name :: "upstreams \<Rightarrow> string \<Rightarrow> up_error + string" where
  "client_display_name u i =
     (case upstream_get (profile_answer u i) of
        Inl e \<Rightarrow> Inl e
      | Inr p \<Rightarrow> Inr (if pd_display p \<noteq> [] then pd_display p else pd_username p))"

section \<open>Views\<close>

record track_line =
  bv_id :: string
  bv_title :: string
  bv_artist :: string
  bv_album :: string
  bv_album_title :: string
  bv_seconds :: int
  bv_explicit :: bool
  bv_art :: nat
  bv_liked :: bool
  bv_available :: bool

record album_card =
  ac_id :: string
  ac_title :: string
  ac_artist :: string
  ac_year :: int
  ac_art :: nat
  ac_type :: string
  ac_badge :: string

record playlist_card =
  pc_id :: string
  pc_title :: string
  pc_owner :: string
  pc_count :: nat
  pc_art :: nat

record album_header =
  ah_id :: string
  ah_title :: string
  ah_type :: string
  ah_year :: int
  ah_date :: string
  ah_count :: nat
  ah_seconds :: int
  ah_tags :: "string list"
  ah_art :: nat

record artist_ref =
  rf_id :: string
  rf_name :: string
  rf_art :: nat

record album_page =
  ap_album :: album_header
  ap_artist :: artist_ref
  ap_tracks :: "track_line list"
  ap_more :: "album_card list"
  ap_unavailable :: "string list"

record playlist_header =
  ph_id :: string
  ph_title :: string
  ph_owner_id :: string
  ph_owner :: string
  ph_count :: nat
  ph_seconds :: int
  ph_updated :: time
  ph_art :: nat

record playlist_page =
  pp_playlist :: playlist_header
  pp_tracks :: "track_line list"
  pp_unavailable :: "string list"

datatype home_item = CardAlbum album_card | CardPlaylist playlist_card

record home_feed =
  hp_recent :: "home_item list"
  hp_new :: "album_card list"
  hp_unavailable :: "string list"

section \<open>Pieces of a page\<close>

text \<open>FNV-1a on 32 bits, and the cover an identifier falls back to.\<close>

definition fnv32a :: "string \<Rightarrow> 32 word" where
  "fnv32a s = foldl (\<lambda>h c. xor h (of_nat (byte c)) * 16777619) 2166136261 s"

definition art_index :: "string \<Rightarrow> nat" where
  "art_index i = unat (fnv32a i mod 8)"

text \<open>\<open>Duration.Seconds\<close> and \<open>math.Round\<close>.\<close>

definition duration_seconds :: "64 word \<Rightarrow> float64" where
  "duration_seconds d = (let sec = sint d sdiv second; nsec = sint d smod second in
     float_add (float64 (of_int sec)) (float_div (float64 (of_int nsec)) 1000000000))"

definition round_seconds :: "64 word \<Rightarrow> int" where
  "round_seconds d = \<lfloor>float_round (duration_seconds d)\<rfloor>"

definition total_duration :: "bff_track list \<Rightarrow> 64 word" where
  "total_duration ts = foldl (\<lambda>n t. n + bt_duration t) 0 ts"

type_synonym names = "(string \<times> string) list"

text \<open>A map filled in order: a later entry replaces an earlier one.\<close>

definition name_of :: "names \<Rightarrow> string \<Rightarrow> string option" where
  "name_of ns i = map_of (rev ns) i"

definition name_or :: "names \<Rightarrow> string \<Rightarrow> string" where
  "name_or ns i = (case name_of ns i of Some n \<Rightarrow> n | None \<Rightarrow> ''Unknown artist'')"

text \<open>The separator is a middle dot (two bytes) between blanks.\<close>

definition middle_dot :: string where
  "middle_dot = [CHR '' '', CHR 0xC2, CHR 0xB7, CHR '' '']"

definition join_names :: "string list \<Rightarrow> names \<Rightarrow> string" where
  "join_names ids ns = (if ids = [] then ''Unknown artist'' else join middle_dot (map (name_or ns) ids))"

definition track_artist_ids :: "bff_track list \<Rightarrow> string list" where
  "track_artist_ids ts = concat (map bt_artists ts)"

definition dedupe_strings :: "string list \<Rightarrow> string list" where
  "dedupe_strings ids = dedupe_from [[]] ids"

definition tags_of :: "(string \<times> bff_genre) list \<Rightarrow> string list \<Rightarrow> string list" where
  "tags_of gidx ids = concat (map (\<lambda>i. case map_of (rev gidx) i of Some g \<Rightarrow> [bg_name g] | None \<Rightarrow> []) ids)"

definition make_album_header :: "bff_album \<Rightarrow> bff_track list \<Rightarrow> (string \<times> bff_genre) list \<Rightarrow> album_header" where
  "make_album_header a ts gidx = \<lparr>ah_id = ba_id a, ah_title = ba_title a, ah_type = ba_type a,
     ah_year = year_of (ba_date a), ah_date = format_date (ba_date a), ah_count = length ts,
     ah_seconds = round_seconds (total_duration ts), ah_tags = tags_of gidx (ba_genres a), ah_art = art_index (ba_id a)\<rparr>"

definition make_artist_ref :: "bff_album \<Rightarrow> names \<Rightarrow> artist_ref" where
  "make_artist_ref a ns =
     (case ba_artists a of
        [] \<Rightarrow> \<lparr>rf_id = [], rf_name = ''Various artists'', rf_art = 0\<rparr>
      | i # _ \<Rightarrow> \<lparr>rf_id = i, rf_name = name_or ns i, rf_art = art_index i\<rparr>)"

definition make_album_card :: "bff_album \<Rightarrow> names \<Rightarrow> album_card" where
  "make_album_card a ns = \<lparr>ac_id = ba_id a, ac_title = ba_title a, ac_artist = join_names (ba_artists a) ns,
     ac_year = year_of (ba_date a), ac_art = art_index (ba_id a), ac_type = ba_type a, ac_badge = []\<rparr>"

text \<open>The album gives its identifier and title only; \<open>liked\<close> is set beside the call.\<close>

definition make_track_view :: "bff_track \<Rightarrow> string \<Rightarrow> string \<Rightarrow> names \<Rightarrow> bool \<Rightarrow> track_line" where
  "make_track_view t album title ns liked = \<lparr>bv_id = bt_id t, bv_title = bt_title t,
     bv_artist = join_names (bt_artists t) ns, bv_album = album, bv_album_title = title,
     bv_seconds = round_seconds (bt_duration t), bv_explicit = bt_explicit t, bv_art = art_index album,
     bv_liked = liked, bv_available = (bt_status t = ''READY'')\<rparr>"

definition make_playlist_card :: "bff_playlist \<Rightarrow> names \<Rightarrow> playlist_card" where
  "make_playlist_card p owners = \<lparr>pc_id = bp_id p, pc_title = bp_title p,
     pc_owner = (case name_of owners (bp_owner p) of Some n \<Rightarrow> n | None \<Rightarrow> []),
     pc_count = length (bp_tracks p), pc_art = art_index (bp_id p)\<rparr>"

section \<open>Sections that may degrade\<close>

text \<open>\<open>Config\<close> and \<open>Personal\<close>: sizes, and which of the optional upstreams there are.\<close>

record bff_config =
  bc_new_releases :: int
  bc_more :: int
  bc_recent :: int
  bc_genre_ttl :: duration
  bc_library :: bool
  bc_history :: bool
  bc_playlists :: bool
  bc_profiles :: bool

definition new_pages :: "bff_config \<Rightarrow> bff_config" where
  "new_pages c = c\<lparr>
     bc_genre_ttl := (if bc_genre_ttl c \<le> 0 then 600 * second else bc_genre_ttl c),
     bc_new_releases := (if bc_new_releases c \<le> 0 then 6 else bc_new_releases c),
     bc_more := (if bc_more c \<le> 0 then 6 else bc_more c),
     bc_recent := (if bc_recent c \<le> 0 then 6 else bc_recent c)\<rparr>"

datatype page_error = PageNotFound | PageUpstream

fun required :: "up_error \<Rightarrow> page_error" where
  "required UpNotFound = PageNotFound"
| "required UpFailed = PageUpstream"

text \<open>A section is its content and the names it adds to what is unavailable.\<close>

type_synonym 'a part = "'a \<times> string list"

definition artist_names :: "upstreams \<Rightarrow> string list \<Rightarrow> names part" where
  "artist_names u ids =
     (let uniq = dedupe_strings ids in
      if uniq = [] then ([], []) else case get_bff_artists u uniq of
          Inl e \<Rightarrow> ([], [''artistNames''])
        | Inr ns \<Rightarrow> (map (\<lambda>a. (bn_id a, bn_name a)) ns, []))"

definition liked_part :: "bff_config \<Rightarrow> upstreams \<Rightarrow> string \<Rightarrow> bff_track list \<Rightarrow> string list part" where
  "liked_part c u tok ts =
     (if \<not> bc_library c \<or> tok = [] \<or> ts = [] then ([], [])
      else case client_saved_tracks u tok (map bt_id ts) of Inl e \<Rightarrow> ([], [''liked'']) | Inr ids \<Rightarrow> (ids, []))"

text \<open>\<open>genreIndex\<close>: the cache is checked at \<open>t0\<close>; a fresh answer is stored at \<open>t1\<close>.\<close>

type_synonym genre_cache = "((string \<times> bff_genre) list \<times> time) option"

definition genre_fetch :: "bff_config \<Rightarrow> upstreams \<Rightarrow> time \<Rightarrow> genre_cache \<Rightarrow>
    (up_error + (string \<times> bff_genre) list) \<times> genre_cache" where
  "genre_fetch c u t1 cache =
     (case get_bff_genres u of
        Inl e \<Rightarrow> (Inl e, cache)
      | Inr gs \<Rightarrow> (let idx = map (\<lambda>g. (bg_id g, g)) gs in (Inr idx, Some (idx, t1 + bc_genre_ttl c))))"

definition genre_index :: "bff_config \<Rightarrow> upstreams \<Rightarrow> time \<Rightarrow> time \<Rightarrow> genre_cache \<Rightarrow>
    (up_error + (string \<times> bff_genre) list) \<times> genre_cache" where
  "genre_index c u t0 t1 cache =
     (case cache of
        Some (gs, expire) \<Rightarrow> if t0 < expire then (Inr gs, cache) else genre_fetch c u t1 cache
      | None \<Rightarrow> genre_fetch c u t1 cache)"

section \<open>The album page\<close>

text \<open>
  Three calls run beside each other once the album is there; the order in which two failing
  optional ones note their section is the order they end in, \<open>tags_first\<close>.
\<close>

definition more_by_artist :: "bff_config \<Rightarrow> upstreams \<Rightarrow> bff_album \<Rightarrow> bff_album list part" where
  "more_by_artist c u a =
     (case ba_artists a of
        [] \<Rightarrow> ([], [])
      | i # _ \<Rightarrow> (case get_artist_albums u i (bc_more c + 1) of
            Inl e \<Rightarrow> ([], [''moreByArtist''])
          | Inr bs \<Rightarrow> (bs, [])))"

text \<open>The shelf skips the album itself and stops at its size; the card shows the artist of the page.\<close>

fun more_cards :: "bff_config \<Rightarrow> string \<Rightarrow> string \<Rightarrow> names \<Rightarrow> bff_album list \<Rightarrow> album_card list \<Rightarrow> album_card list" where
  "more_cards c me artist ns [] cards = cards"
| "more_cards c me artist ns (a # bs) cards =
     (if ba_id a = me \<or> int (length cards) = bc_more c then more_cards c me artist ns bs cards
      else more_cards c me artist ns bs (cards @ [(make_album_card a ns)\<lparr>ac_artist := artist\<rparr>]))"

definition both_parts :: "bool \<Rightarrow> string list \<Rightarrow> string list \<Rightarrow> string list" where
  "both_parts second_first xs ys = (if second_first then ys @ xs else xs @ ys)"

definition assemble_album :: "bff_config \<Rightarrow> upstreams \<Rightarrow> string \<Rightarrow> bff_album \<Rightarrow> bff_track list \<Rightarrow>
    bff_album list \<Rightarrow> (string \<times> bff_genre) list \<Rightarrow> string list \<Rightarrow> album_page" where
  "assemble_album c u tok a ts others gidx missing =
     (let (ns, bad1) = artist_names u (ba_artists a @ track_artist_ids ts);
          (liked, bad2) = liked_part c u tok ts;
          ref = make_artist_ref a ns in
      \<lparr>ap_album = make_album_header a ts gidx, ap_artist = ref,
       ap_tracks = map (\<lambda>t. make_track_view t (ba_id a) (ba_title a) ns (bt_id t \<in> set liked)) ts,
       ap_more = more_cards c (ba_id a) (rf_name ref) ns others [],
       ap_unavailable = missing @ bad1 @ bad2\<rparr>)"

definition bff_album_page :: "bff_config \<Rightarrow> upstreams \<Rightarrow> string \<Rightarrow> bool \<Rightarrow> time \<Rightarrow> time \<Rightarrow> string \<Rightarrow> genre_cache \<Rightarrow>
    (page_error + album_page) \<times> genre_cache" where
  "bff_album_page c u tok tags_first t0 t1 i cache =
     (case get_bff_album u 0 i of
        Inl e \<Rightarrow> (Inl (required e), cache)
      | Inr a \<Rightarrow>
          (let (others, bad1) = more_by_artist c u a;
               (tags, cache') = genre_index c u t0 t1 cache;
               (gidx, bad2) = (case tags of Inl e \<Rightarrow> ([], [''tags'']) | Inr gs \<Rightarrow> (gs, [])) in
           case get_album_tracks u (ba_id a) of
             Inl e \<Rightarrow> (Inl (required e), cache')
           | Inr ts \<Rightarrow> (Inr (assemble_album c u tok a ts others gidx (both_parts tags_first bad1 bad2)), cache')))"

section \<open>The playlist page\<close>

definition playlist_order :: "string list \<Rightarrow> bff_track list \<Rightarrow> bff_track list" where
  "playlist_order order found =
     concat (map (\<lambda>i. case map_of (rev (map (\<lambda>t. (bt_id t, t)) found)) i of Some t \<Rightarrow> [t] | None \<Rightarrow> []) order)"

text \<open>\<open>albumsOf\<close> and \<open>ownerNames\<close>: one call for each identifier; what is not there is left out.\<close>

fun gather :: "(nat \<Rightarrow> string \<Rightarrow> up_error + 'a) \<Rightarrow> nat \<Rightarrow> string list \<Rightarrow> (string \<times> 'a) list \<times> bool" where
  "gather ask n [] = ([], False)"
| "gather ask n (i # ids) =
     (let (found, failed) = gather ask (Suc n) ids in
      case ask n i of
        Inr a \<Rightarrow> ((i, a) # found, failed)
      | Inl UpNotFound \<Rightarrow> (found, failed)
      | Inl UpFailed \<Rightarrow> (found, True))"

definition albums_of :: "upstreams \<Rightarrow> bff_track list \<Rightarrow> (string \<times> bff_album) list part" where
  "albums_of u ts =
     (let (found, failed) = gather (get_bff_album u) 0 (dedupe_strings (map bt_album ts)) in
      (found, if failed then [''albums''] else []))"

definition owner_names :: "bff_config \<Rightarrow> upstreams \<Rightarrow> string list \<Rightarrow> names part" where
  "owner_names c u ids =
     (if \<not> bc_profiles c then ([], [])
      else let (found, failed) = gather (\<lambda>_. client_display_name u) 0 (dedupe_strings ids) in
        (found, if failed then [''owners''] else []))"

text \<open>A track whose album is missing shows an album without a title.\<close>

definition album_title :: "(string \<times> bff_album) list \<Rightarrow> string \<Rightarrow> string \<times> string" where
  "album_title albs i = (case map_of albs i of Some a \<Rightarrow> (ba_id a, ba_title a) | None \<Rightarrow> (i, []))"

definition assemble_playlist :: "bff_config \<Rightarrow> upstreams \<Rightarrow> string \<Rightarrow> bff_playlist \<Rightarrow> bff_track list \<Rightarrow> playlist_page" where
  "assemble_playlist c u tok p found =
     (let (owners, bad0) = owner_names c u [bp_owner p];
          ts = playlist_order (bp_tracks p) found;
          (albs, bad1) = albums_of u ts;
          (ns, bad2) = artist_names u (track_artist_ids ts);
          (liked, bad3) = liked_part c u tok ts in
      \<lparr>pp_playlist = \<lparr>ph_id = bp_id p, ph_title = bp_title p, ph_owner_id = bp_owner p,
         ph_owner = (case map_of owners (bp_owner p) of Some n \<Rightarrow> n | None \<Rightarrow> []),
         ph_count = length ts, ph_seconds = round_seconds (total_duration ts),
         ph_updated = bp_updated p, ph_art = art_index (bp_id p)\<rparr>,
       pp_tracks = map (\<lambda>t. let (i, title) = album_title albs (bt_album t) in
         make_track_view t i title ns (bt_id t \<in> set liked)) ts,
       pp_unavailable = bad0 @ bad1 @ bad2 @ bad3\<rparr>)"

definition bff_playlist_page :: "bff_config \<Rightarrow> upstreams \<Rightarrow> string \<Rightarrow> string \<Rightarrow> page_error + playlist_page" where
  "bff_playlist_page c u tok i =
     (if \<not> bc_playlists c then Inl PageUpstream
      else case get_bff_playlist u 0 i of
          Inl e \<Rightarrow> Inl (required e)
        | Inr p \<Rightarrow>
            (case (if bp_tracks p = [] then Inr [] else get_bff_tracks u (bp_tracks p)) of
               Inl e \<Rightarrow> Inl (required e)
             | Inr found \<Rightarrow> Inr (assemble_playlist c u tok p found)))"

section \<open>The home page\<close>

datatype recent_item = RecentAlbum bff_album | RecentPlaylist bff_playlist

text \<open>\<open>strings.Cut(s, ":")\<close>: without a colon the whole text is the kind.\<close>

definition cut_source :: "string \<Rightarrow> string \<times> string" where
  "cut_source s = (takeWhile (\<lambda>c. c \<noteq> CHR '':'') s, drop 1 (dropWhile (\<lambda>c. c \<noteq> CHR '':'') s))"

definition recent_item_of :: "bff_config \<Rightarrow> upstreams \<Rightarrow> nat \<Rightarrow> string \<Rightarrow> recent_item list" where
  "recent_item_of c u n s =
     (case cut_source s of (kind, i) \<Rightarrow>
        if kind = ''album'' then (case get_bff_album u n i of Inr a \<Rightarrow> [RecentAlbum a] | Inl e \<Rightarrow> [])
        else if kind = ''playlist'' \<and> bc_playlists c then
          (case get_bff_playlist u n i of Inr p \<Rightarrow> [RecentPlaylist p] | Inl e \<Rightarrow> [])
        else [])"

fun recent_from :: "bff_config \<Rightarrow> upstreams \<Rightarrow> nat \<Rightarrow> string list \<Rightarrow> recent_item list" where
  "recent_from c u n [] = []"
| "recent_from c u n (s # ss) = recent_item_of c u n s @ recent_from c u (Suc n) ss"

definition recent_items :: "bff_config \<Rightarrow> upstreams \<Rightarrow> string \<Rightarrow> recent_item list part" where
  "recent_items c u tok =
     (if \<not> bc_history c \<or> tok = [] then ([], [])
      else case client_recent_sources u tok (bc_recent c) of
          Inl e \<Rightarrow> ([], [''recentlyPlayed''])
        | Inr ss \<Rightarrow> (recent_from c u 0 ss, []))"

fun recent_artists :: "recent_item \<Rightarrow> string list" where
  "recent_artists (RecentAlbum a) = ba_artists a"
| "recent_artists (RecentPlaylist p) = []"

fun recent_owners :: "recent_item \<Rightarrow> string list" where
  "recent_owners (RecentAlbum a) = []"
| "recent_owners (RecentPlaylist p) = [bp_owner p]"

fun recent_card :: "names \<Rightarrow> names \<Rightarrow> recent_item \<Rightarrow> home_item" where
  "recent_card ns owners (RecentAlbum a) = CardAlbum (make_album_card a ns)"
| "recent_card ns owners (RecentPlaylist p) = CardPlaylist (make_playlist_card p owners)"

text \<open>Sections without a service: five names, always.\<close>

abbreviation home_static :: "string list" where
  "home_static \<equiv> [''albumOfTheWeek'', ''recommended'', ''trending'', ''madeForYou'', ''followedArtists'']"

text \<open>The badge: released in the seven days before \<open>now\<close>.\<close>

definition release_card :: "time \<Rightarrow> names \<Rightarrow> bff_album \<Rightarrow> album_card" where
  "release_card now ns a =
     (let card = make_album_card a ns; d = date_time (ba_date a) in
      if now - 7 * 86400 * second \<le> d \<and> d \<le> now then card\<lparr>ac_badge := ''new''\<rparr> else card)"

definition bff_home_page :: "bff_config \<Rightarrow> upstreams \<Rightarrow> string \<Rightarrow> time \<Rightarrow> home_feed" where
  "bff_home_page c u tok now =
     (let newest = latest_bff_albums u (bc_new_releases c);
          albs = (case newest of Inl e \<Rightarrow> [] | Inr as' \<Rightarrow> as');
          (recent, bad1) = recent_items c u tok;
          (ns, bad2) = artist_names u (concat (map ba_artists albs) @ concat (map recent_artists recent));
          (owners, bad3) = owner_names c u (concat (map recent_owners recent)) in
      \<lparr>hp_recent = map (recent_card ns owners) recent,
       hp_new = map (release_card now ns) albs,
       hp_unavailable = home_static @ (if bc_history c then [] else [''recentlyPlayed'']) @ bad1 @ bad2 @ bad3
         @ (case newest of Inl e \<Rightarrow> [''newReleases''] | Inr as' \<Rightarrow> [])\<rparr>)"

section \<open>Routes\<close>

text \<open>\<open>withUser\<close>: the bearer token of the header, or nobody.\<close>

definition user_token :: "string \<Rightarrow> string" where
  "user_token header = (if take 7 header = ''Bearer '' then drop 7 header else [])"

text \<open>A page goes out with the value of its \<open>Cache-Control\<close> header.\<close>

definition write_bff_page :: "string \<Rightarrow> 'p \<Rightarrow> (string \<times> 'p) response" where
  "write_bff_page tok page = Reply 200 (if tok \<noteq> [] then ''private, no-cache'' else ''private, max-age=30'', page)"

fun page_fail :: "string \<Rightarrow> page_error \<Rightarrow> 'b response" where
  "page_fail code PageNotFound = (if code \<noteq> [] then Problem 404 code [] else Problem 500 CodeInternal [])"
| "page_fail code PageUpstream = Problem 503 CodeUnavailable []"

definition http_home :: "bff_config \<Rightarrow> upstreams \<Rightarrow> string \<Rightarrow> time \<Rightarrow> (string \<times> home_feed) response" where
  "http_home c u header now = (let tok = user_token header in write_bff_page tok (bff_home_page c u tok now))"

definition http_album :: "bff_config \<Rightarrow> upstreams \<Rightarrow> string \<Rightarrow> bool \<Rightarrow> time \<Rightarrow> time \<Rightarrow> string \<Rightarrow> genre_cache \<Rightarrow>
    (string \<times> album_page) response \<times> genre_cache" where
  "http_album c u header tags_first t0 t1 i cache =
     (let tok = user_token header in
      case bff_album_page c u tok tags_first t0 t1 i cache of
        (Inl e, cache') \<Rightarrow> (page_fail ''ALBUM_NOT_FOUND'' e, cache')
      | (Inr p, cache') \<Rightarrow> (write_bff_page tok p, cache'))"

definition http_playlist :: "bff_config \<Rightarrow> upstreams \<Rightarrow> string \<Rightarrow> string \<Rightarrow> (string \<times> playlist_page) response" where
  "http_playlist c u header i =
     (let tok = user_token header in
      case bff_playlist_page c u tok i of
        Inl e \<Rightarrow> page_fail ''PLAYLIST_NOT_FOUND'' e
      | Inr p \<Rightarrow> write_bff_page tok p)"

section \<open>Pieces\<close>

lemma art_index_bound: "art_index i < 8"
  by (simp add: art_index_def unat_mod_distrib)

lemma catalog_get_Inr: "catalog_get r = Inr x \<longleftrightarrow> (\<exists>s. r = Answer s (Some x) \<and> s < 400)"
  by (cases r rule: catalog_get.cases) (auto split: option.splits)

lemma set_dedupe_strings: "set (dedupe_strings ids) = set ids - {[]}"
  by (simp add: dedupe_strings_def set_dedupe_from)

lemma distinct_dedupe_strings: "distinct (dedupe_strings ids)"
  by (simp add: dedupe_strings_def distinct_dedupe_from)

lemma name_of_Nil [simp]: "name_or [] i = ''Unknown artist''"
  by (simp add: name_or_def name_of_def)

lemma more_cards_append:
  "\<exists>bs'. more_cards c me artist ns bs cards = cards @ map (\<lambda>a. (make_album_card a ns)\<lparr>ac_artist := artist\<rparr>) bs'
     \<and> subseq bs' (filter (\<lambda>a. ba_id a \<noteq> me) bs)"
proof (induction bs arbitrary: cards)
  case (Cons a bs)
  show ?case
  proof (cases "ba_id a = me \<or> int (length cards) = bc_more c")
    case True
    then show ?thesis using Cons.IH [of cards] by (cases "ba_id a = me") auto
  next
    case False
    then obtain bs' where "more_cards c me artist ns (a # bs) cards =
        (cards @ [(make_album_card a ns)\<lparr>ac_artist := artist\<rparr>]) @ map (\<lambda>a. (make_album_card a ns)\<lparr>ac_artist := artist\<rparr>) bs'"
      "subseq bs' (filter (\<lambda>a. ba_id a \<noteq> me) bs)"
      using Cons.IH [of "cards @ [(make_album_card a ns)\<lparr>ac_artist := artist\<rparr>]"] by auto
    then show ?thesis using False by (intro exI [of _ "a # bs'"]) simp
  qed
qed simp

lemma more_cards_length:
  "int (length cards) \<le> bc_more c \<Longrightarrow> int (length (more_cards c me artist ns bs cards)) \<le> bc_more c"
  by (induction bs arbitrary: cards) auto

lemma more_cards_other: "me \<notin> ac_id ` set (more_cards c me artist ns bs [])"
proof -
  obtain bs' where m: "more_cards c me artist ns bs [] = map (\<lambda>a. (make_album_card a ns)\<lparr>ac_artist := artist\<rparr>) bs'"
    and s: "subseq bs' (filter (\<lambda>a. ba_id a \<noteq> me) bs)"
    using more_cards_append [of c me artist ns bs "[]"] by auto
  have "set bs' \<subseteq> set (filter (\<lambda>a. ba_id a \<noteq> me) bs)" using list_emb_set [OF s] by auto
  then have "\<forall>a\<in>set bs'. ba_id a \<noteq> me" by auto
  then show ?thesis unfolding m by (auto simp: make_album_card_def)
qed

lemma playlist_order_ids: "map bt_id (playlist_order order found) = filter (\<lambda>i. i \<in> bt_id ` set found) order"
proof -
  have one: "map bt_id (case map_of (rev (map (\<lambda>t. (bt_id t, t)) found)) i of Some t \<Rightarrow> [t] | None \<Rightarrow> []) =
      (if i \<in> bt_id ` set found then [i] else [])" for i
  proof (cases "map_of (rev (map (\<lambda>t. (bt_id t, t)) found)) i")
    case None
    then have "i \<notin> fst ` set (rev (map (\<lambda>t. (bt_id t, t)) found))" by (simp add: map_of_eq_None_iff)
    then have "i \<notin> bt_id ` set found" by force
    with None show ?thesis by simp
  next
    case (Some t)
    then have "(i, t) \<in> set (rev (map (\<lambda>t. (bt_id t, t)) found))" by (rule map_of_SomeD)
    then have "i = bt_id t" "t \<in> set found" by auto
    with Some show ?thesis by simp
  qed
  show ?thesis unfolding playlist_order_def map_concat map_map comp_def one
    by (induction order) auto
qed

lemma playlist_order_found: "t \<in> set (playlist_order order found) \<Longrightarrow> t \<in> set found"
  by (auto simp: playlist_order_def dest!: map_of_SomeD split: option.splits dest: sym)

section \<open>What a page shows, and what it needs\<close>

lemma artist_names_bad: "snd (artist_names u ids) = (if dedupe_strings ids \<noteq> [] \<and> isl (get_bff_artists u (dedupe_strings ids)) then [''artistNames''] else [])"
  by (auto simp: artist_names_def Let_def split: sum.splits)

lemma liked_part_bad: "snd (liked_part c u tok ts) =
   (if bc_library c \<and> tok \<noteq> [] \<and> ts \<noteq> [] \<and> isl (client_saved_tracks u tok (map bt_id ts)) then [''liked''] else [])"
  by (auto simp: liked_part_def split: sum.splits)

lemma more_by_artist_bad: "snd (more_by_artist c u a) =
   (if ba_artists a \<noteq> [] \<and> isl (get_artist_albums u (hd (ba_artists a)) (bc_more c + 1)) then [''moreByArtist''] else [])"
  by (auto simp: more_by_artist_def split: list.splits sum.splits)

text \<open>The optional calls of an album page, by section: whether each failed.\<close>

definition album_failures :: "bff_config \<Rightarrow> upstreams \<Rightarrow> string \<Rightarrow> time \<Rightarrow> genre_cache \<Rightarrow> bff_album \<Rightarrow> bff_track list \<Rightarrow> string \<Rightarrow> bool" where
  "album_failures c u tok t0 cache a ts s \<longleftrightarrow>
     s = ''moreByArtist'' \<and> ba_artists a \<noteq> [] \<and> isl (get_artist_albums u (hd (ba_artists a)) (bc_more c + 1)) \<or>
     s = ''tags'' \<and> \<not> (\<exists>gs expire. cache = Some (gs, expire) \<and> t0 < expire) \<and> isl (get_bff_genres u) \<or>
     s = ''artistNames'' \<and> set (ba_artists a @ track_artist_ids ts) - {[]} \<noteq> {} \<and>
       isl (get_bff_artists u (dedupe_strings (ba_artists a @ track_artist_ids ts))) \<or>
     s = ''liked'' \<and> bc_library c \<and> tok \<noteq> [] \<and> ts \<noteq> [] \<and> isl (client_saved_tracks u tok (map bt_id ts))"

lemma genre_index_failed: "isl (fst (genre_index c u t0 t1 cache)) \<longleftrightarrow>
    \<not> (\<exists>gs expire. cache = Some (gs, expire) \<and> t0 < expire) \<and> isl (get_bff_genres u)"
  by (auto simp: genre_index_def genre_fetch_def Let_def split: option.splits sum.splits)

lemma dedupe_strings_Nil: "dedupe_strings ids = [] \<longleftrightarrow> set ids - {[]} = {}"
  by (metis set_dedupe_strings set_empty)

lemma fst_map_views: "map bv_id (map (\<lambda>t. make_track_view t (f t) (g t) ns (h t)) ts) = map bt_id ts"
  by (simp add: make_track_view_def)

definition tags_bad :: "up_error + 'a \<Rightarrow> string list" where
  "tags_bad r = (if isl r then [''tags''] else [])"

definition tags_or_none :: "up_error + 'a list \<Rightarrow> 'a list" where
  "tags_or_none r = (case r of Inl e \<Rightarrow> [] | Inr gs \<Rightarrow> gs)"

lemma album_page_eq: "bff_album_page c u tok b t0 t1 i cache =
   (case get_bff_album u 0 i of
      Inl e \<Rightarrow> (Inl (required e), cache)
    | Inr a \<Rightarrow> (case get_album_tracks u (ba_id a) of
        Inl e \<Rightarrow> (Inl (required e), snd (genre_index c u t0 t1 cache))
      | Inr ts \<Rightarrow> (Inr (assemble_album c u tok a ts (fst (more_by_artist c u a)) (tags_or_none (fst (genre_index c u t0 t1 cache)))
          (both_parts b (snd (more_by_artist c u a)) (tags_bad (fst (genre_index c u t0 t1 cache))))),
          snd (genre_index c u t0 t1 cache))))"
  by (simp add: bff_album_page_def Let_def tags_or_none_def tags_bad_def case_prod_beta split: sum.splits)

lemma assemble_album_views:
  "ap_album (assemble_album c u tok a ts others gidx missing) = make_album_header a ts gidx"
  "ap_tracks (assemble_album c u tok a ts others gidx missing) =
     map (\<lambda>t. make_track_view t (ba_id a) (ba_title a) (fst (artist_names u (ba_artists a @ track_artist_ids ts)))
       (bt_id t \<in> set (fst (liked_part c u tok ts)))) ts"
  "ap_more (assemble_album c u tok a ts others gidx missing) =
     more_cards c (ba_id a) (rf_name (make_artist_ref a (fst (artist_names u (ba_artists a @ track_artist_ids ts)))))
       (fst (artist_names u (ba_artists a @ track_artist_ids ts))) others []"
  "ap_unavailable (assemble_album c u tok a ts others gidx missing) =
     missing @ snd (artist_names u (ba_artists a @ track_artist_ids ts)) @ snd (liked_part c u tok ts)"
  by (simp_all add: assemble_album_def Let_def case_prod_beta)

lemma liked_flag: "fst (liked_part c u tok ts) =
   (if bc_library c \<and> tok \<noteq> [] \<and> ts \<noteq> [] then (case client_saved_tracks u tok (map bt_id ts) of Inl e \<Rightarrow> [] | Inr ids \<Rightarrow> ids) else [])"
  by (simp add: liked_part_def split: sum.splits)

text \<open>An album page fails exactly when the album or its track list cannot be read, as not found
  where the Catalog says so and as unavailable otherwise. Every other failure only degrades it: the
  page lists the tracks in the order of the album, its further albums never include the album itself
  and fit the shelf, and the sections it calls unavailable are exactly those whose call failed, each
  named once.\<close>

theorem album_page_degrades:
  "case fst (bff_album_page (new_pages c) u tok b t0 t1 i cache) of
     Inl e \<Rightarrow> (\<exists>e'. e = required e' \<and> (get_bff_album u 0 i = Inl e' \<or>
       (\<exists>a. get_bff_album u 0 i = Inr a \<and> get_album_tracks u (ba_id a) = Inl e')))
   | Inr p \<Rightarrow> (\<exists>a ts. get_bff_album u 0 i = Inr a \<and> get_album_tracks u (ba_id a) = Inr ts \<and>
       map bv_id (ap_tracks p) = map bt_id ts \<and> ah_count (ap_album p) = length ts \<and>
       ba_id a \<notin> ac_id ` set (ap_more p) \<and> int (length (ap_more p)) \<le> bc_more (new_pages c) \<and>
       distinct (ap_unavailable p) \<and> set (ap_unavailable p) = {s. album_failures (new_pages c) u tok t0 cache a ts s})"
proof (cases "get_bff_album u 0 i")
  case (Inl e)
  then show ?thesis by (auto simp: album_page_eq)
next
  case (Inr a)
  show ?thesis
  proof (cases "get_album_tracks u (ba_id a)")
    case (Inl e)
    with Inr show ?thesis by (auto simp: album_page_eq)
  next
    case ts: (Inr ts)
    define c' where "c' = new_pages c"
    have "0 < bc_more c'" by (simp add: c'_def new_pages_def)
    then have len: "int (length (more_cards c' me artist ns bs [])) \<le> bc_more c'" for me artist ns bs
      by (intro more_cards_length) simp
    let ?g = "fst (genre_index c' u t0 t1 cache)"
    have bad: "distinct (both_parts b (snd (more_by_artist c' u a)) (tags_bad ?g) @
        snd (artist_names u (ba_artists a @ track_artist_ids ts)) @ snd (liked_part c' u tok ts))"
      by (simp add: both_parts_def tags_bad_def artist_names_bad liked_part_bad more_by_artist_bad)
    have all: "set (both_parts b (snd (more_by_artist c' u a)) (tags_bad ?g) @
        snd (artist_names u (ba_artists a @ track_artist_ids ts)) @ snd (liked_part c' u tok ts)) =
        {s. album_failures c' u tok t0 cache a ts s}"
      unfolding album_failures_def genre_index_failed [of c' u t0 t1 cache, symmetric] dedupe_strings_Nil [symmetric]
      by (auto simp: both_parts_def tags_bad_def artist_names_bad liked_part_bad more_by_artist_bad)
    show ?thesis unfolding c'_def [symmetric] album_page_eq using Inr ts bad all len
      by (simp add: assemble_album_views fst_map_views more_cards_other make_album_header_def del: map_map set_append distinct_append)
  qed
qed

lemma assemble_playlist_views:
  fixes c u tok p found
  defines "ts \<equiv> playlist_order (bp_tracks p) found"
  shows "map bv_id (pp_tracks (assemble_playlist c u tok p found)) = map bt_id ts"
  "length (pp_tracks (assemble_playlist c u tok p found)) = length ts"
  "ph_count (pp_playlist (assemble_playlist c u tok p found)) = length ts"
  "ph_seconds (pp_playlist (assemble_playlist c u tok p found)) = round_seconds (total_duration ts)"
  "pp_unavailable (assemble_playlist c u tok p found) = snd (owner_names c u [bp_owner p]) @ snd (albums_of u ts) @
     snd (artist_names u (track_artist_ids ts)) @ snd (liked_part c u tok ts)"
  by (simp_all add: assemble_playlist_def Let_def case_prod_beta make_track_view_def ts_def)

lemma gather_failed: "snd (gather ask n ids) \<longleftrightarrow> (\<exists>k < length ids. ask (n + k) (ids ! k) = Inl UpFailed)"
proof (induction ids arbitrary: n)
  case (Cons i ids)
  have "(\<exists>k < length (i # ids). ask (n + k) ((i # ids) ! k) = Inl UpFailed) \<longleftrightarrow>
      ask n i = Inl UpFailed \<or> (\<exists>k < length ids. ask (Suc n + k) (ids ! k) = Inl UpFailed)"
    by (simp add: Ex_less_Suc2)
  then show ?case using Cons [of "Suc n"] by (auto simp: Let_def case_prod_beta split: sum.splits up_error.splits)
qed simp

text \<open>The optional calls of a playlist page.\<close>

definition playlist_failures :: "bff_config \<Rightarrow> upstreams \<Rightarrow> string \<Rightarrow> string \<Rightarrow> bff_track list \<Rightarrow> string \<Rightarrow> bool" where
  "playlist_failures c u tok owner ts s \<longleftrightarrow>
     s = ''owners'' \<and> bc_profiles c \<and> owner \<noteq> [] \<and> client_display_name u owner = Inl UpFailed \<or>
     s = ''albums'' \<and> (\<exists>k < length (dedupe_strings (map bt_album ts)).
       get_bff_album u k (dedupe_strings (map bt_album ts) ! k) = Inl UpFailed) \<or>
     s = ''artistNames'' \<and> set (track_artist_ids ts) - {[]} \<noteq> {} \<and> isl (get_bff_artists u (dedupe_strings (track_artist_ids ts))) \<or>
     s = ''liked'' \<and> bc_library c \<and> tok \<noteq> [] \<and> ts \<noteq> [] \<and> isl (client_saved_tracks u tok (map bt_id ts))"

lemma owner_names_bad: "snd (owner_names c u [i]) =
   (if bc_profiles c \<and> i \<noteq> [] \<and> client_display_name u i = Inl UpFailed then [''owners''] else [])"
  by (auto simp: owner_names_def Let_def case_prod_beta dedupe_strings_def split: sum.splits up_error.splits)

lemma albums_of_bad: "snd (albums_of u ts) = (if \<exists>k < length (dedupe_strings (map bt_album ts)).
     get_bff_album u k (dedupe_strings (map bt_album ts) ! k) = Inl UpFailed then [''albums''] else [])"
  by (simp add: albums_of_def Let_def case_prod_beta gather_failed)

text \<open>C33: a playlist page fails exactly when the playlist, or the tracks of one that has any, cannot
  be read. Otherwise its rows are the playlist's tracks in the order of the playlist, as often as it
  holds them, without those the Catalog no longer has; the count in the header is the number of rows,
  and the sections it calls unavailable are exactly those of which a call failed, each named once.\<close>

theorem playlist_page_in_order:
  "case bff_playlist_page c u tok i of
     Inl e \<Rightarrow> bc_playlists c = False \<and> e = PageUpstream \<or>
       (\<exists>e'. e = required e' \<and> (get_bff_playlist u 0 i = Inl e' \<or>
         (\<exists>p. get_bff_playlist u 0 i = Inr p \<and> bp_tracks p \<noteq> [] \<and> get_bff_tracks u (bp_tracks p) = Inl e')))
   | Inr v \<Rightarrow> (\<exists>p found ts. get_bff_playlist u 0 i = Inr p \<and>
       (if bp_tracks p = [] then found = [] else get_bff_tracks u (bp_tracks p) = Inr found) \<and>
       set ts \<subseteq> set found \<and> map bv_id (pp_tracks v) = map bt_id ts \<and>
       map bt_id ts = filter (\<lambda>j. j \<in> bt_id ` set found) (bp_tracks p) \<and>
       ph_count (pp_playlist v) = length (pp_tracks v) \<and> distinct (pp_unavailable v) \<and>
       set (pp_unavailable v) = {s. playlist_failures c u tok (bp_owner p) ts s})"
proof (cases "bc_playlists c")
  case False
  then show ?thesis by (simp add: bff_playlist_page_def)
next
  case on: True
  show ?thesis
  proof (cases "get_bff_playlist u 0 i")
    case (Inl e)
    with on show ?thesis by (auto simp: bff_playlist_page_def)
  next
    case p: (Inr p)
    define r where "r = (if bp_tracks p = [] then Inr [] else get_bff_tracks u (bp_tracks p))"
    show ?thesis
    proof (cases r)
      case (Inl e)
      then have "bp_tracks p \<noteq> []" "get_bff_tracks u (bp_tracks p) = Inl e" by (auto simp: r_def split: if_splits)
      with on p show ?thesis by (auto simp: bff_playlist_page_def)
    next
      case (Inr found)
      then have f: "if bp_tracks p = [] then found = [] else get_bff_tracks u (bp_tracks p) = Inr found"
        by (auto simp: r_def split: if_splits)
      define v where "v = assemble_playlist c u tok p found"
      define ts where "ts = playlist_order (bp_tracks p) found"
      have v: "bff_playlist_page c u tok i = Inr v"
        using on p Inr by (simp add: bff_playlist_page_def r_def [symmetric] v_def)
      note views = assemble_playlist_views [of c u tok p found, folded ts_def v_def]
      have "distinct (pp_unavailable v)" "set (pp_unavailable v) = {s. playlist_failures c u tok (bp_owner p) ts s}"
        unfolding views(5) playlist_failures_def dedupe_strings_Nil [symmetric]
        by (auto simp: artist_names_bad liked_part_bad owner_names_bad albums_of_bad)
      moreover have "set ts \<subseteq> set found" using playlist_order_found by (auto simp: ts_def)
      moreover have "map bt_id ts = filter (\<lambda>j. j \<in> bt_id ` set found) (bp_tracks p)" unfolding ts_def by (rule playlist_order_ids)
      ultimately have "get_bff_playlist u 0 i = Inr p \<and>
         (if bp_tracks p = [] then found = [] else get_bff_tracks u (bp_tracks p) = Inr found) \<and>
         set ts \<subseteq> set found \<and> map bv_id (pp_tracks v) = map bt_id ts \<and>
         map bt_id ts = filter (\<lambda>j. j \<in> bt_id ` set found) (bp_tracks p) \<and>
         ph_count (pp_playlist v) = length (pp_tracks v) \<and> distinct (pp_unavailable v) \<and>
         set (pp_unavailable v) = {s. playlist_failures c u tok (bp_owner p) ts s}"
        using p f views(1-3) by (intro conjI; (assumption | simp))
      then show ?thesis unfolding v sum.case by blast
    qed
  qed
qed

section \<open>Durations\<close>

text \<open>Whole milliseconds are rounded as the reader expects: half a second counts as one.\<close>

lemma round_seconds_ms:
  assumes "0 \<le> n" "n * 1000000 < 2 ^ 63" "sint d = n * 1000000"
  shows "round_seconds d = (n + 500) div 1000"
proof -
  define s k where "s = n div 1000" and "k = n mod 1000"
  have n: "n = 1000 * s + k" "0 \<le> k" "k < 1000" "0 \<le> s" "s < 2 ^ 40" using assms by (simp_all add: s_def k_def)
  have d: "sint d = s * second + k * millisecond" using assms(3) n(1) by simp
  have sd: "sint d sdiv second = s" "sint d smod second = k * millisecond"
    using n(2-4) unfolding d by (simp_all add: signed_divide_int_def signed_modulo_int_def sgn_if abs_of_nonneg)
  let ?x = "float_div (float64 (of_int (k * millisecond))) 1000000000"
  have km: "float64 (of_int (k * millisecond)) = of_int (k * millisecond)"
    by (rule float64_of_int) (use n(2,3) in auto)
  have x: "?x = float64 (of_int k / 1000)" unfolding float_div_def km by simp
  have s: "float64 (of_int s) = of_int s" by (rule float64_of_int) (use n(4,5) in auto)
  have sum: "duration_seconds d = float64 (of_int s + ?x)"
    unfolding duration_seconds_def Let_def sd float_add_def s ..
  have "(2::rat) powi (-11) = 1 / 2048" by (simp add: power_int_minus)
  then have dyadic: "float64 (of_int i / 2048) = of_int i / 2048" if "\<bar>i\<bar> < 2 ^ 53" for i
    using float64_exact [OF that, of "-11"] by simp
  have x0: "0 \<le> ?x" unfolding x by (rule float64_nonneg) (use n(2) in simp)
  show ?thesis
  proof (cases "k < 500")
    case True
    then have "of_int k / 1000 \<le> (1023 / 2048 :: rat)" using n(2) by (simp add: field_simps)
    then have "?x \<le> 1023 / 2048" using float64_mono [of "of_int k / 1000" "1023 / 2048"] dyadic [of 1023] n(2) unfolding x by simp
    then have "float64 (of_int s + ?x) \<le> float64 (of_int (2048 * s + 1023) / 2048)"
      using x0 n(4) by (intro float64_mono) (simp_all add: field_simps)
    then have hi: "duration_seconds d \<le> of_int s + 1023 / 2048"
      using dyadic [of "2048 * s + 1023"] n(4,5) unfolding sum by (simp add: add_divide_distrib)
    have lo: "of_int s \<le> duration_seconds d"
      using float64_mono [of "of_int s" "of_int s + ?x"] x0 n(4) s unfolding sum by simp
    have "\<lfloor>duration_seconds d + 1 / 2\<rfloor> = s" by (rule floor_unique) (use hi lo in linarith)+
    moreover have "(n + 500) div 1000 = s" using True n by simp
    moreover have "0 \<le> duration_seconds d" using lo n(4) by (meson of_int_0_le_iff order_trans)
    ultimately show ?thesis by (simp add: round_seconds_def float_round_def)
  next
    case False
    then have "1024 / 2048 \<le> (of_int k / 1000 :: rat)" "of_int k / 1000 \<le> (2048 / 2048 :: rat)" using n(3) by (simp_all add: field_simps)
    then have "1024 / 2048 \<le> ?x" "?x \<le> 2048 / 2048"
      using float64_mono [of "1024 / 2048" "of_int k / 1000"] float64_mono [of "of_int k / 1000" "2048 / 2048"] dyadic [of 1024] dyadic [of 2048] n(2)
      unfolding x by simp_all
    then have "float64 (of_int (2048 * s + 1024) / 2048) \<le> float64 (of_int s + ?x)"
       "float64 (of_int s + ?x) \<le> float64 (of_int (2048 * s + 2048) / 2048)"
      using x0 n(4) by (intro float64_mono; simp add: field_simps)+
    then have b: "of_int s + 1 / 2 \<le> duration_seconds d" "duration_seconds d \<le> of_int s + 1"
      using dyadic [of "2048 * s + 1024"] dyadic [of "2048 * s + 2048"] n(4,5) unfolding sum by (simp_all add: add_divide_distrib)
    have "\<lfloor>duration_seconds d + 1 / 2\<rfloor> = s + 1" by (rule floor_unique) (use b in simp_all)
    moreover have "(n + 500) div 1000 = s + 1" using False n by simp
    moreover have "0 \<le> duration_seconds d" using b(1) n(4)
      by (meson add_nonneg_nonneg of_int_0_le_iff order_trans zero_le_divide_1_iff zero_le_numeral)
    ultimately show ?thesis by (simp add: round_seconds_def float_round_def)
  qed
qed

lemma total_duration_ms:
  assumes "\<forall>d\<in>set ds. 0 \<le> sint (td_ms d)" "(\<Sum>d\<leftarrow>ds. sint (td_ms d)) * 1000000 < 2 ^ 63"
  shows "sint (total_duration (map to_bff_track ds)) = (\<Sum>d\<leftarrow>ds. sint (td_ms d)) * 1000000"
proof -
  have fold: "foldl (\<lambda>n t. n + bt_duration t) z (map to_bff_track ds) = z + of_int ((\<Sum>d\<leftarrow>ds. sint (td_ms d)) * 1000000)" for z
    by (induction ds arbitrary: z) (simp_all add: to_bff_track_def algebra_simps)
  have "0 \<le> (\<Sum>d\<leftarrow>ds. sint (td_ms d))" using assms(1) by (intro sum_list_nonneg) auto
  moreover have "sint (of_int n :: 64 word) = n" if "0 \<le> n" "n < 2 ^ 63" for n
    using that by (simp add: sint_sbintrunc' signed_take_bit_int_eq_self)
  ultimately show ?thesis using assms(2) unfolding total_duration_def fold by (metis add_0 mult_nonneg_nonneg zero_le_numeral)
qed

text \<open>The length of an album or a playlist in whole seconds, as long as it stays below 292 years.\<close>

theorem page_seconds:
  assumes "\<forall>d\<in>set ds. 0 \<le> sint (td_ms d)" "(\<Sum>d\<leftarrow>ds. sint (td_ms d)) * 1000000 < 2 ^ 63"
  shows "ah_seconds (make_album_header a (map to_bff_track ds) gidx) = ((\<Sum>d\<leftarrow>ds. sint (td_ms d)) + 500) div 1000"
proof -
  have "0 \<le> (\<Sum>d\<leftarrow>ds. sint (td_ms d))" using assms(1) by (intro sum_list_nonneg) auto
  then show ?thesis unfolding make_album_header_def using round_seconds_ms [OF _ assms(2) total_duration_ms [OF assms]] by simp
qed

section \<open>More artists than one lookup takes\<close>

lemma catalog_refuses_many: "MaxBatchIDs < length ids \<Longrightarrow>
    fst (list_artists ids w) = Inl (Domain (CatalogInvalid [(''ids'', ''at most 100 IDs per request'')]))"
  by (simp add: list_artists_def fail_def)

text \<open>C34: when the tracks of a playlist name more artists than the Catalog looks up at once, the page
  loses every artist name, those of the first hundred too: the one request it sends is refused.\<close>

theorem crowded_playlist_loses_names:
  assumes limit: "\<And>ids. MaxBatchIDs < length ids \<Longrightarrow> artists_answer u ids = Answer 422 None"
    and page: "bc_playlists c" "get_bff_playlist u 0 i = Inr p" "get_bff_tracks u (bp_tracks p) = Inr found"
    and many: "MaxBatchIDs < card (set (track_artist_ids (playlist_order (bp_tracks p) found)) - {[]})"
  shows "\<exists>v. bff_playlist_page c u tok i = Inr v \<and> ''artistNames'' \<in> set (pp_unavailable v) \<and>
     map bv_artist (pp_tracks v) = map (\<lambda>t. join_names (bt_artists t) []) (playlist_order (bp_tracks p) found)"
proof -
  let ?ts = "playlist_order (bp_tracks p) found"
  have "length (dedupe_strings (track_artist_ids ?ts)) = card (set (track_artist_ids ?ts) - {[]})"
    by (metis distinct_card distinct_dedupe_strings set_dedupe_strings)
  then have "artists_answer u (dedupe_strings (track_artist_ids ?ts)) = Answer 422 None" using many by (intro limit) simp
  then have names: "artist_names u (track_artist_ids ?ts) = ([], if dedupe_strings (track_artist_ids ?ts) = [] then [] else [''artistNames''])"
    by (simp add: artist_names_def get_bff_artists_def)
  have "bp_tracks p \<noteq> []"
  proof
    assume "bp_tracks p = []"
    then have "?ts = []" by (simp add: playlist_order_def)
    then show False using many by (simp add: track_artist_ids_def)
  qed
  then have v: "bff_playlist_page c u tok i = Inr (assemble_playlist c u tok p found)"
    using page by (simp add: bff_playlist_page_def)
  have "set (track_artist_ids ?ts) - {[]} \<noteq> {}" using many by (metis card.empty not_less_zero)
  then have "dedupe_strings (track_artist_ids ?ts) \<noteq> []" by (simp add: dedupe_strings_Nil)
  then have "''artistNames'' \<in> set (pp_unavailable (assemble_playlist c u tok p found))"
    by (simp add: assemble_playlist_views names)
  moreover have "map bv_artist (pp_tracks (assemble_playlist c u tok p found)) = map (\<lambda>t. join_names (bt_artists t) []) ?ts"
    by (simp add: assemble_playlist_def Let_def case_prod_beta make_track_view_def names)
  ultimately show ?thesis using v by blast
qed

text \<open>A playlist of 101 tracks by as many artists, all of whom the Catalog knows.\<close>

definition crowd_ids :: "string list" where
  "crowd_ids = map (\<lambda>n. replicate n CHR ''a'') [1..<102]"

definition crowd_track :: "string \<Rightarrow> bff_track_dto" where
  "crowd_track i = \<lparr>td_id = i, td_album = ''x'', td_artists = [i], td_title = ''T'', td_ms = 180000, td_number = 1,
     td_disc = 1, td_explicit = False, td_status = ''READY''\<rparr>"

definition crowd :: upstreams where
  "crowd = \<lparr>album_answer = (\<lambda>_ _. NoAnswer), album_tracks_answer = (\<lambda>_. NoAnswer),
     tracks_answer = (\<lambda>_ ids. Answer 200 (Some (map crowd_track ids))), latest_answer = (\<lambda>_. NoAnswer),
     artist_albums_answer = (\<lambda>_ _. NoAnswer),
     artists_answer = (\<lambda>ids. if MaxBatchIDs < length ids then Answer 422 None
       else Answer 200 (Some (map (\<lambda>i. \<lparr>bn_id = i, bn_name = ''A''\<rparr>) ids))),
     genres_answer = NoAnswer, saved_answer = (\<lambda>_ _ _. NoAnswer), sources_answer = (\<lambda>_ _. NoAnswer),
     playlist_answer = (\<lambda>_ i. Answer 200 (Some \<lparr>bp_id = i, bp_owner = ''o'', bp_title = ''P'', bp_tracks = crowd_ids, bp_updated = 1\<rparr>)),
     profile_answer = (\<lambda>_. NoAnswer)\<rparr>"

definition crowd_config :: bff_config where
  "crowd_config = \<lparr>bc_new_releases = 6, bc_more = 6, bc_recent = 6, bc_genre_ttl = second, bc_library = False,
     bc_history = False, bc_playlists = True, bc_profiles = False\<rparr>"

lemma concat_chunks_of: "0 < n \<Longrightarrow> concat (chunks_of n xs) = xs"
  by (induction n xs rule: chunks_of.induct) (simp add: chunks_of.simps)

lemma crowd_batches: "tracks_batches crowd n cs = Inr (map (to_bff_track \<circ> crowd_track) (concat cs))"
  by (induction cs arbitrary: n) (simp_all add: crowd_def)

lemma crowd_tracks: "get_bff_tracks crowd crowd_ids = Inr (map (to_bff_track \<circ> crowd_track) crowd_ids)"
  by (simp add: get_bff_tracks_def crowd_batches concat_chunks_of)

lemma crowd_distinct: "card (set crowd_ids - {[]}) = 101" "[] \<notin> set crowd_ids" "distinct crowd_ids" "length crowd_ids = 101"
proof -
  have inj: "inj_on (\<lambda>n. replicate n CHR ''a'') A" for A :: "nat set" by (rule inj_onI) (metis length_replicate)
  show "length crowd_ids = 101" by (simp add: crowd_ids_def)
  show d: "distinct crowd_ids" by (simp add: crowd_ids_def distinct_map inj)
  show n: "[] \<notin> set crowd_ids" by (auto simp: crowd_ids_def)
  show "card (set crowd_ids - {[]}) = 101" using distinct_card [OF d] n by (simp add: crowd_ids_def)
qed

lemma crowd_order: "playlist_order crowd_ids (map (to_bff_track \<circ> crowd_track) crowd_ids) = map (to_bff_track \<circ> crowd_track) crowd_ids"
proof -
  have "map_of (rev (map (\<lambda>t. (bt_id t, t)) (map (to_bff_track \<circ> crowd_track) ids))) i = Some (to_bff_track (crowd_track i))"
    if "i \<in> set ids" "distinct ids" for i ids
    using that by (intro map_of_is_SomeI) (auto simp: rev_map [symmetric] distinct_map inj_on_def to_bff_track_def crowd_track_def comp_def)
  then have one: "\<And>i. i \<in> set crowd_ids \<Longrightarrow> (case map_of (rev (map (\<lambda>t. (bt_id t, t)) (map (to_bff_track \<circ> crowd_track) crowd_ids))) i of
      Some t \<Rightarrow> [t] | None \<Rightarrow> []) = [(to_bff_track \<circ> crowd_track) i]" using crowd_distinct(3) by simp
  have "concat (map f xs) = map g xs" if "\<And>i. i \<in> set xs \<Longrightarrow> f i = [g i]" for f :: "string \<Rightarrow> bff_track list" and g xs
    using that by (induction xs) auto
  from this [OF one] show ?thesis unfolding playlist_order_def .
qed

theorem crowded_playlist_loses_names_witness:
  "\<exists>v. bff_playlist_page crowd_config crowd [] ''p'' = Inr v \<and> ''artistNames'' \<in> set (pp_unavailable v) \<and>
     map bv_artist (pp_tracks v) = replicate 101 ''Unknown artist''"
proof -
  let ?p = "\<lparr>bp_id = ''p'', bp_owner = ''o'', bp_title = ''P'', bp_tracks = crowd_ids, bp_updated = 1\<rparr>"
  let ?ts = "map (to_bff_track \<circ> crowd_track) crowd_ids"
  have artists: "track_artist_ids ?ts = crowd_ids"
    by (simp add: track_artist_ids_def to_bff_track_def crowd_track_def comp_def)
  have p: "get_bff_playlist crowd 0 ''p'' = Inr ?p" by (simp add: get_bff_playlist_def crowd_def)
  have f: "get_bff_tracks crowd (bp_tracks ?p) = Inr ?ts" using crowd_tracks by simp
  have o: "playlist_order (bp_tracks ?p) ?ts = ?ts" using crowd_order by simp
  have many: "MaxBatchIDs < card (set (track_artist_ids (playlist_order (bp_tracks ?p) ?ts)) - {[]})"
    unfolding o artists crowd_distinct(1) by simp
  have lim: "MaxBatchIDs < length ids \<Longrightarrow> artists_answer crowd ids = Answer 422 None" for ids by (simp add: crowd_def)
  have c: "bc_playlists crowd_config" by (simp add: crowd_config_def)
  have unknown: "map (\<lambda>t. join_names (bt_artists t) []) ?ts = replicate 101 ''Unknown artist''"
    by (simp add: comp_def to_bff_track_def crowd_track_def join_names_def map_replicate_const crowd_distinct(4))
  from crowded_playlist_loses_names [OF lim c p f many, of "[]"] show ?thesis unfolding o unknown .
qed

end
