(* ===== verification/PlaylistHttp.thy ===== *)
theory PlaylistHttp
  imports Playlist Http
begin

text \<open>
  The routes of the Playlist service (\<^verbatim>\<open>adapters/http/handler.go\<close>). The user is who the verifier
  found, or nobody; identifiers of a path or a body arrive parsed, or as \<open>None\<close> where they do
  not parse; a body that is no JSON is \<open>None\<close>.
\<close>

section \<open>Answers\<close>

abbreviation MaxOrder :: nat where "MaxOrder \<equiv> 10000"

record playlist_info =
  pi_id :: uuid
  pi_title :: string
  pi_owner :: uuid
  pi_count :: nat
  pi_created :: time
  pi_updated :: time

definition info_of :: "playlist \<Rightarrow> playlist_info" where
  "info_of p = \<lparr>pi_id = pl_id p, pi_title = pl_title p, pi_owner = pl_owner p, pi_count = pl_track_count p,
     pi_created = pl_created_at p, pi_updated = pl_updated_at p\<rparr>"

record track_info =
  ti_track :: uuid
  ti_position :: int
  ti_added :: time

definition track_info_of :: "playlist_track \<Rightarrow> track_info" where
  "track_info_of t = \<lparr>ti_track = tr_id t, ti_position = tr_position t, ti_added = tr_added_at t\<rparr>"

fun playlist_fail :: "playlist_error failure \<Rightarrow> 'b response" where
  "playlist_fail (Domain InvalidTitle) = Problem 422 CodeValidation [(''title'', ''must be 1-100 characters'')]"
| "playlist_fail (Domain PlaylistNotFound) = Problem 404 ''PLAYLIST_NOT_FOUND'' []"
| "playlist_fail (Domain PlaylistTrackNotFound) = Problem 404 ''TRACK_NOT_FOUND'' []"
| "playlist_fail (Domain OrderMismatch) = Problem 409 ''PLAYLIST_ORDER_MISMATCH'' []"
| "playlist_fail (Domain PlaylistForbidden) = Problem 403 ''FORBIDDEN'' []"
| "playlist_fail Infra = Problem 503 CodeUnavailable []"

text \<open>What a use case did, as an answer.\<close>

definition playlist_reply :: "nat \<Rightarrow> ('a \<Rightarrow> 'b) \<Rightarrow> 'a playlist_act \<Rightarrow> playlist_world \<Rightarrow> 'b response \<times> playlist_world" where
  "playlist_reply s f m w = (case m w of (Inl e, w1) \<Rightarrow> (playlist_fail e, w1) | (Inr x, w1) \<Rightarrow> (Reply s (f x), w1))"

definition playlist_user :: "uuid option \<Rightarrow> (uuid \<Rightarrow> playlist_world \<Rightarrow> 'b response \<times> playlist_world) \<Rightarrow>
    playlist_world \<Rightarrow> 'b response \<times> playlist_world" where
  "playlist_user user k w = (case user of None \<Rightarrow> (Problem 401 CodeUnauthenticated [], w) | Some u \<Rightarrow> k u w)"

definition path_uuid :: "uuid option \<Rightarrow> (uuid \<Rightarrow> playlist_world \<Rightarrow> 'b response \<times> playlist_world) \<Rightarrow>
    playlist_world \<Rightarrow> 'b response \<times> playlist_world" where
  "path_uuid i k w = (case i of None \<Rightarrow> (Problem 400 CodeBadRequest [], w) | Some j \<Rightarrow> k j w)"

text \<open>\<open>DecodeJSON\<close>.\<close>

definition json_body :: "'j option \<Rightarrow> ('j \<Rightarrow> playlist_world \<Rightarrow> 'b response \<times> playlist_world) \<Rightarrow>
    playlist_world \<Rightarrow> 'b response \<times> playlist_world" where
  "json_body b k w = (case b of None \<Rightarrow> (Problem 400 CodeBadRequest [], w) | Some j \<Rightarrow> k j w)"

section \<open>Routes\<close>

definition post_playlist :: "uuid option \<Rightarrow> string option \<Rightarrow> playlist_world \<Rightarrow> playlist_info response \<times> playlist_world" where
  "post_playlist user body = playlist_user user (\<lambda>u. json_body body (\<lambda>title.
     playlist_reply 201 info_of (create_playlist u title)))"

definition get_mine :: "uuid option \<Rightarrow> playlist_world \<Rightarrow> playlist_info list response \<times> playlist_world" where
  "get_mine user = playlist_user user (\<lambda>u. playlist_reply 200 (map info_of) (my_playlists u))"

definition get_one :: "uuid option \<Rightarrow> playlist_world \<Rightarrow> (playlist_info \<times> track_info list) response \<times> playlist_world" where
  "get_one i = path_uuid i (\<lambda>i. playlist_reply 200 (\<lambda>(p, ts). (info_of p, map track_info_of ts)) (get_playlist i))"

definition post_track :: "uuid option \<Rightarrow> uuid option \<Rightarrow> uuid option option \<Rightarrow> playlist_world \<Rightarrow> unit response \<times> playlist_world" where
  "post_track user i body = playlist_user user (\<lambda>u. path_uuid i (\<lambda>i. json_body body (\<lambda>track w.
     case track of
       None \<Rightarrow> (Problem 422 CodeValidation [(''trackId'', ''must be a track ID'')], w)
     | Some t \<Rightarrow> playlist_reply 204 id (add_track u i t) w)))"

definition delete_track_route :: "uuid option \<Rightarrow> uuid option \<Rightarrow> uuid option \<Rightarrow> playlist_world \<Rightarrow> unit response \<times> playlist_world" where
  "delete_track_route user i track = playlist_user user (\<lambda>u. path_uuid i (\<lambda>i. path_uuid track (\<lambda>t.
     playlist_reply 204 id (remove_track u i t))))"

definition patch_playlist :: "uuid option \<Rightarrow> uuid option \<Rightarrow> string option \<Rightarrow> playlist_world \<Rightarrow> playlist_info response \<times> playlist_world" where
  "patch_playlist user i body = playlist_user user (\<lambda>u. path_uuid i (\<lambda>i. json_body body (\<lambda>title.
     playlist_reply 200 info_of (rename_playlist u i title))))"

definition delete_playlist_route :: "uuid option \<Rightarrow> uuid option \<Rightarrow> playlist_world \<Rightarrow> unit response \<times> playlist_world" where
  "delete_playlist_route user i = playlist_user user (\<lambda>u. path_uuid i (\<lambda>i.
     playlist_reply 204 id (delete_playlist u i)))"

text \<open>The list may be missing (\<open>null\<close>); each entry parses or does not.\<close>

definition patch_order :: "uuid option \<Rightarrow> uuid option \<Rightarrow> uuid option list option option \<Rightarrow> playlist_world \<Rightarrow> unit response \<times> playlist_world" where
  "patch_order user i body = playlist_user user (\<lambda>u. path_uuid i (\<lambda>i. json_body body (\<lambda>ids w.
     case ids of
       None \<Rightarrow> (Problem 422 CodeValidation [(''trackIds'', ''must list the track IDs of the playlist'')], w)
     | Some ids \<Rightarrow>
         if MaxOrder < length ids then (Problem 422 CodeValidation [(''trackIds'', ''must list the track IDs of the playlist'')], w)
         else if None \<in> set ids then (Problem 422 CodeValidation [(''trackIds'', ''must be track IDs'')], w)
         else playlist_reply 204 id (reorder_tracks u i (map the ids)) w)))"

text \<open>\<open>after\<close> and \<open>limit\<close> of the query: \<open>after\<close> may be absent, and may not parse.\<close>

definition get_all :: "uuid option option \<Rightarrow> string \<Rightarrow> playlist_world \<Rightarrow> (playlist_info list \<times> uuid option) response \<times> playlist_world" where
  "get_all after limit w =
     (if after = Some None then (Problem 400 CodeBadRequest [], w)
      else let from = (case after of Some (Some i) \<Rightarrow> i | _ \<Rightarrow> uuid_Nil); n = atoi limit in
        if limit \<noteq> [] \<and> (n = None \<or> the n < 1) then (Problem 400 CodeBadRequest [], w)
        else playlist_reply 200 (\<lambda>ps. (map info_of ps, if ps = [] then None else Some (pl_id (last ps))))
          (all_playlists from (case n of Some k \<Rightarrow> k | None \<Rightarrow> 0)) w)"

section \<open>Answers of use cases\<close>

lemma playlist_reply_run:
  "playlist_reply s f m w = (r, w1) \<Longrightarrow> (\<exists>e. m w = (Inl e, w1) \<and> r = playlist_fail e) \<or> (\<exists>x. m w = (Inr x, w1) \<and> r = Reply s (f x))"
  by (auto simp: playlist_reply_def split: prod.splits sum.splits)

lemma playlist_fail_not_reply [simp]: "playlist_fail e \<noteq> Reply s b" "Reply s b \<noteq> playlist_fail e"
  by (cases e rule: playlist_fail.cases; simp)+

lemma commits_reply:
  assumes "commits m R" "\<And>x d l d1 l1. R x d l d1 l1 \<Longrightarrow> \<not> P d" "P (db w)" "playlist_reply s f m w = (r, w1)"
  shows "same_state w w1 \<and> (\<exists>e. r = playlist_fail e)"
proof -
  note c = assms(1) [unfolded commits_def, rule_format, of w]
  from playlist_reply_run [OF assms(4)] show ?thesis
  proof (elim disjE exE conjE)
    fix e assume e: "m w = (Inl e, w1)" "r = playlist_fail e"
    have "same_state w w1 \<or> (\<exists>x. R x (db w) (log w) (db w1) (log w1))" using c unfolding e(1) by simp
    then show ?thesis using assms(2,3) e(2) by blast
  next
    fix x assume x: "m w = (Inr x, w1)"
    have "R x (db w) (log w) (db w1) (log w1)" using c unfolding x by simp
    then show ?thesis using assms(2,3) by blast
  qed
qed

section \<open>Playlists too long to reorder\<close>

text \<open>
  Adding a track has no bound, the list of a reorder has one of 10,000 entries and has to name
  every track: once a playlist is longer, no request reorders it any more.
\<close>

lemma order_matches_length: "order_matches i order d \<Longrightarrow> length order = length (rows_of i d)"
  unfolding order_matches_def by (metis length_map size_mset)

text \<open>A playlist of more than 10,000 tracks, which nothing keeps from growing, can never be
  reordered: every request of anyone, whatever it lists, is refused and changes nothing.\<close>

theorem long_playlist_never_reordered:
  assumes "MaxOrder < length (rows_of i (db w))" "patch_order user (Some i) body w = (r, w1)"
  shows "same_state w w1 \<and> (\<exists>s c fs. r = Problem s c fs)"
proof -
  have refused: "same_state w w1 \<and> (\<exists>s c fs. r = Problem s c fs)"
    if ids: "length ids \<le> MaxOrder" and run: "playlist_reply 204 id (reorder_tracks u i (map the ids)) w = (r, w1)" for u ids
  proof -
    have "same_state w w1 \<and> (\<exists>e. r = playlist_fail e)"
    proof (rule commits_reply [OF commits_reorder_tracks, where P = "\<lambda>d. MaxOrder < length (rows_of i d)"])
      fix x d l d1 l1
      assume "owner_of i d = Some u \<and> (\<exists>p. pl_id p = i \<and> pl_owner p = u \<and> (\<exists>now. reorder_effect p i (map the ids) now x d l d1 l1))"
      then have "length (map the ids) = length (rows_of i d)" by (auto simp: reorder_effect_def dest: order_matches_length)
      then show "\<not> MaxOrder < length (rows_of i d)" using ids by simp
    qed (use assms(1) run in auto)
    moreover have "\<exists>s c fs. playlist_fail e = Problem s c fs" for e by (cases e rule: playlist_fail.cases) simp_all
    ultimately show ?thesis by blast
  qed
  have "r = Problem 401 CodeUnauthenticated [] \<and> w1 = w \<or> (\<exists>c fs. r = Problem 400 c fs \<and> w1 = w) \<or> (\<exists>c fs. r = Problem 422 c fs \<and> w1 = w) \<or>
      (\<exists>u ids. length ids \<le> MaxOrder \<and> playlist_reply 204 id (reorder_tracks u i (map the ids)) w = (r, w1))"
    using assms(2) by (auto simp: patch_order_def playlist_user_def path_uuid_def json_body_def split: option.splits if_splits)
  then show ?thesis using refused by (elim disjE exE conjE) blast+
qed

text \<open>A playlist of 10,001 tracks, and its owner.\<close>

definition long_rows :: "track_row list" where
  "long_rows = map (\<lambda>n. \<lparr>pt_playlist = 1, pt_track = of_nat n, pt_position = int n, pt_added_by = 5, pt_added_at = 0\<rparr>) [1..<10002]"

definition long_world :: playlist_world where
  "long_world = sample_world\<lparr>db := (db sample_world)\<lparr>playlist_tracks := long_rows\<rparr>\<rparr>"

theorem long_playlist_never_reordered_witness:
  "\<exists>w1 s c fs. patch_order (Some 5) (Some 1) (Some (Some (map (\<lambda>r. Some (pt_track r)) long_rows))) long_world = (Problem s c fs, w1) \<and>
     same_state long_world w1"
proof -
  have "rows_of 1 (db long_world) = long_rows"
    by (simp add: rows_of_def long_world_def long_rows_def filter_map comp_def)
  then have n: "MaxOrder < length (rows_of 1 (db long_world))" by (simp add: long_rows_def)
  obtain r w1 where run: "patch_order (Some 5) (Some 1) (Some (Some (map (\<lambda>r. Some (pt_track r)) long_rows))) long_world = (r, w1)" by fastforce
  from long_playlist_never_reordered [OF n run] run show ?thesis by blast
qed

end
