(* ===== verification/CatalogHttp.thy ===== *)
theory CatalogHttp
  imports Catalog Http
begin

text \<open>
  The routes of the Catalog (\<^verbatim>\<open>adapters/http\<close>): what each request has to look like, which use case it
  reaches and how every outcome is answered. Identifiers, dates and cursors arrive parsed, or as
  \<open>None\<close> where they do not parse; a date is its midnight. A body that is no JSON is \<open>None\<close>.
  Whether a failure outside the domain was the deadline of the request is a parameter.
\<close>

section \<open>Errors\<close>

definition missing_code :: "catalog_error \<Rightarrow> string option" where
  "missing_code e =
     (case e of
        ArtistNotFound \<Rightarrow> Some ''ARTIST_NOT_FOUND''
      | AlbumNotFound \<Rightarrow> Some ''ALBUM_NOT_FOUND''
      | TrackNotFound \<Rightarrow> Some ''TRACK_NOT_FOUND''
      | GenreNotFound \<Rightarrow> Some ''GENRE_NOT_FOUND''
      | _ \<Rightarrow> None)"

text \<open>\<open>writeError\<close>; a reference to something that is no missing entity falls through to the end.\<close>

fun catalog_fail :: "bool \<Rightarrow> catalog_error failure \<Rightarrow> 'b response" where
  "catalog_fail late Infra = (if late then Problem 503 ''REQUEST_TIMEOUT'' [] else Problem 500 CodeInternal [])"
| "catalog_fail late (Domain (CatalogInvalid fs)) = Problem 422 CodeValidation fs"
| "catalog_fail late (Domain (ReferenceError f e)) =
     (case missing_code e of Some c \<Rightarrow> Problem 422 c [(''field'', f)] | None \<Rightarrow> Problem 500 CodeInternal [])"
| "catalog_fail late (Domain InvalidStatusTransition) = Problem 422 ''INVALID_STATUS_TRANSITION'' []"
| "catalog_fail late (Domain TrackDeleted) = Problem 422 ''TRACK_DELETED'' []"
| "catalog_fail late (Domain TrackPositionTaken) = Problem 409 ''TRACK_POSITION_TAKEN'' []"
| "catalog_fail late (Domain e) =
     (case missing_code e of Some c \<Rightarrow> Problem 404 c [] | None \<Rightarrow> Problem 500 CodeInternal [])"

type_synonym 'b catalog_route = "catalog_world \<Rightarrow> 'b response \<times> catalog_world"

definition catalog_reply :: "bool \<Rightarrow> nat \<Rightarrow> ('a \<Rightarrow> 'b) \<Rightarrow> 'a catalog_act \<Rightarrow> 'b catalog_route" where
  "catalog_reply late s f m w = (case m w of (Inl e, w1) \<Rightarrow> (catalog_fail late e, w1) | (Inr x, w1) \<Rightarrow> (Reply s (f x), w1))"

definition refuse :: "nat \<Rightarrow> string \<Rightarrow> fields \<Rightarrow> 'b catalog_route" where
  "refuse s c fs w = (Problem s c fs, w)"

text \<open>\<open>decode\<close>: another content type is refused before the body is read.\<close>

definition decode_body :: "string \<Rightarrow> 'j option \<Rightarrow> ('j \<Rightarrow> 'b catalog_route) \<Rightarrow> 'b catalog_route" where
  "decode_body ct b k =
     (if ct \<noteq> [] \<and> take 16 ct \<noteq> ''application/json'' then refuse 415 ''UNSUPPORTED_MEDIA_TYPE'' []
      else case b of None \<Rightarrow> refuse 400 CodeBadRequest [] | Some j \<Rightarrow> k j)"

definition catalog_path :: "uuid option \<Rightarrow> (uuid \<Rightarrow> 'b catalog_route) \<Rightarrow> 'b catalog_route" where
  "catalog_path i k = (case i of None \<Rightarrow> refuse 400 CodeBadRequest [] | Some j \<Rightarrow> k j)"

text \<open>\<open>parseIDs\<close>: the identifiers, and the problem of the field when one does not parse.\<close>

definition parse_id_list :: "string \<Rightarrow> uuid option list \<Rightarrow> fields \<Rightarrow> uuid list \<times> fields" where
  "parse_id_list field ids fs =
     (if None \<in> set ids then ([], set_field field ''must contain UUIDs only'' fs) else (map the ids, fs))"

section \<open>Answers\<close>

record song_info =
  sn_id :: uuid
  sn_album :: uuid
  sn_artists :: "uuid list"
  sn_title :: string
  sn_ms :: int
  sn_number :: int
  sn_disc :: int
  sn_explicit :: bool
  sn_isrc :: "string option"
  sn_status :: track_status
  sn_created :: time
  sn_updated :: time

definition song_info_of :: "track \<Rightarrow> song_info" where
  "song_info_of t = \<lparr>sn_id = tk_id t, sn_album = tk_album t, sn_artists = tk_artists t, sn_title = tk_title t,
     sn_ms = milliseconds (tk_duration t), sn_number = tk_number t, sn_disc = tk_disc t, sn_explicit = tk_explicit t,
     sn_isrc = (if tk_isrc t = [] then None else Some (tk_isrc t)), sn_status = tk_status t,
     sn_created = tk_created t, sn_updated = tk_updated t\<rparr>"

text \<open>Artists, albums and genres go out with the fields they have; a page says where it goes on.\<close>

section \<open>Routes\<close>

definition post_artist :: "bool \<Rightarrow> string \<Rightarrow> string option \<Rightarrow> artist catalog_route" where
  "post_artist late ct body = decode_body ct body (\<lambda>name. catalog_reply late 201 id (create_artist name))"

definition get_artist_route :: "bool \<Rightarrow> uuid option \<Rightarrow> artist catalog_route" where
  "get_artist_route late i = catalog_path i (\<lambda>i. catalog_reply late 200 id (get_artist i))"

text \<open>\<open>None\<close>: no \<open>ids\<close> in the query.\<close>

definition get_artists_route :: "bool \<Rightarrow> uuid option list option \<Rightarrow> artist list catalog_route" where
  "get_artists_route late ids =
     (case ids of
        None \<Rightarrow> refuse 422 CodeValidation [(''ids'', ''comma-separated artist IDs are required'')]
      | Some ids \<Rightarrow> (case parse_id_list ''ids'' ids [] of (ids, fs) \<Rightarrow>
          if fs \<noteq> [] then refuse 422 CodeValidation fs else catalog_reply late 200 id (list_artists ids)))"

definition get_tracks_route :: "bool \<Rightarrow> uuid option list option \<Rightarrow> song_info list catalog_route" where
  "get_tracks_route late ids =
     (case ids of
        None \<Rightarrow> refuse 422 CodeValidation [(''ids'', ''comma-separated track IDs are required'')]
      | Some ids \<Rightarrow> (case parse_id_list ''ids'' ids [] of (ids, fs) \<Rightarrow>
          if fs \<noteq> [] then refuse 422 CodeValidation fs else catalog_reply late 200 (map song_info_of) (list_tracks ids)))"

text \<open>\<open>pageParams\<close>: a cursor is absent, malformed or a position.\<close>

definition with_page :: "string \<Rightarrow> album_cursor option option \<Rightarrow> (int \<Rightarrow> album_cursor option \<Rightarrow> 'b catalog_route) \<Rightarrow> 'b catalog_route" where
  "with_page limit cur k =
     (case limit_param limit MaxPageSize of (n, fs) \<Rightarrow>
        if fs \<noteq> [] then refuse 422 CodeValidation fs
        else if cur = Some None then refuse 400 ''INVALID_CURSOR'' []
        else k n (case cur of Some c \<Rightarrow> c | None \<Rightarrow> None))"

definition get_artist_albums_route :: "bool \<Rightarrow> uuid option \<Rightarrow> string \<Rightarrow> album_cursor option option \<Rightarrow> (album list \<times> album_cursor option) catalog_route" where
  "get_artist_albums_route late i limit cur = catalog_path i (\<lambda>i. with_page limit cur (\<lambda>n after.
     catalog_reply late 200 id (list_artist_albums i after n)))"

definition get_albums_route :: "bool \<Rightarrow> string \<Rightarrow> album_cursor option option \<Rightarrow> (album list \<times> album_cursor option) catalog_route" where
  "get_albums_route late limit cur = with_page limit cur (\<lambda>n after. catalog_reply late 200 id (list_albums after n))"

record album_request =
  aq_title :: string
  aq_type :: string
  aq_release :: "time option"
  aq_artists :: "uuid option list"
  aq_genres :: "uuid option list"

definition post_album :: "(string \<Rightarrow> string) \<Rightarrow> bool \<Rightarrow> string \<Rightarrow> album_request option \<Rightarrow> album catalog_route" where
  "post_album upper late ct body = decode_body ct body (\<lambda>q.
     let fs0 = (if aq_release q = None then [(''releaseDate'', ''must be a date in YYYY-MM-DD format'')] else []);
         (ars, fs1) = parse_id_list ''artistIds'' (aq_artists q) fs0;
         (gs, fs2) = parse_id_list ''genreIds'' (aq_genres q) fs1 in
     if fs2 \<noteq> [] then refuse 422 CodeValidation fs2
     else catalog_reply late 201 id (create_album (aq_title q) (upper (aq_type q)) (the (aq_release q)) ars gs))"

definition get_album_route :: "bool \<Rightarrow> uuid option \<Rightarrow> album catalog_route" where
  "get_album_route late i = catalog_path i (\<lambda>i. catalog_reply late 200 id (get_album i))"

definition get_album_tracks_route :: "bool \<Rightarrow> uuid option \<Rightarrow> song_info list catalog_route" where
  "get_album_tracks_route late i = catalog_path i (\<lambda>i. catalog_reply late 200 (map song_info_of) (list_album_tracks i))"

record track_request =
  tq_album :: "uuid option"
  tq_artists :: "uuid option list"
  tq_title :: string
  tq_ms :: "64 word"
  tq_number :: int
  tq_disc :: int
  tq_explicit :: bool
  tq_isrc :: string

definition post_song :: "(string \<Rightarrow> string) \<Rightarrow> bool \<Rightarrow> string \<Rightarrow> track_request option \<Rightarrow> song_info catalog_route" where
  "post_song upper late ct body = decode_body ct body (\<lambda>q.
     let fs0 = (if tq_album q = None then [(''albumId'', ''must be a UUID'')] else []);
         (ars, fs1) = parse_id_list ''artistIds'' (tq_artists q) fs0 in
     if fs1 \<noteq> [] then refuse 422 CodeValidation fs1
     else catalog_reply late 201 song_info_of (create_track upper (the (tq_album q))
       \<lparr>np_artists = ars, np_title = tq_title q, np_duration = request_duration (tq_ms q), np_number = tq_number q,
        np_disc = tq_disc q, np_explicit = tq_explicit q, np_isrc = tq_isrc q\<rparr>))"

definition get_song :: "bool \<Rightarrow> uuid option \<Rightarrow> song_info catalog_route" where
  "get_song late i = catalog_path i (\<lambda>i. catalog_reply late 200 song_info_of (get_track i))"

definition patch_song :: "(string \<Rightarrow> string) \<Rightarrow> bool \<Rightarrow> uuid option \<Rightarrow> string \<Rightarrow> track_changes option \<Rightarrow> song_info catalog_route" where
  "patch_song upper late i ct body = catalog_path i (\<lambda>i. decode_body ct body (\<lambda>c.
     let st = map_option upper (ch_status c) in
     if st \<noteq> None \<and> \<not> status_valid (the st) then
       refuse 422 CodeValidation [(''status'', ''must be one of DRAFT, PROCESSING, READY, BLOCKED, DELETED'')]
     else catalog_reply late 200 song_info_of (update_track i (c\<lparr>ch_status := st\<rparr>))))"

definition get_genres_route :: "(genre list \<Rightarrow> genre list) \<Rightarrow> bool \<Rightarrow> genre list catalog_route" where
  "get_genres_route by_name late = catalog_reply late 200 id (list_genres by_name)"

section \<open>What was created is what is read\<close>

lemma many_artists_refused:
  "MaxBatchIDs < length ids \<Longrightarrow> None \<notin> set ids \<Longrightarrow>
     \<exists>w1. get_artists_route late (Some ids) w = (Problem 422 CodeValidation [(''ids'', ''at most 100 IDs per request'')], w1)"
  by (simp add: get_artists_route_def parse_id_list_def list_artists_def catalog_reply_def fail_def)

lemma catalog_fail_not_reply [simp]: "catalog_fail late e \<noteq> Reply s b" "Reply s b \<noteq> catalog_fail late e"
  by (cases "(late, e)" rule: catalog_fail.cases; simp split: option.splits)+

lemma from_sum_Inr: "from_sum r w = (Inr x, w1) \<longleftrightarrow> r = Inr x \<and> w1 = w"
  by (cases r) (auto simp: from_sum_def fail_def ret_def)

lemma store_track_Inr:
  assumes "store (track_create t) [TrackCreated t] w = (Inr u, w1)"
  shows "announced (track_payload t) (db w) (log w) (db w1) (log w1)"
  using stores_track [of t, unfolded commits_def, rule_format, of w] assms by simp

lemma new_track_draft: "new_track upper i album p now = Inr t \<Longrightarrow> tk_status t = TrackStatusDraft"
  by (auto simp: new_track_def Let_def split: sum.splits)

lemma reads_album_get: "reads_only (album_get i)"
  unfolding album_get_def by (intro reads) (auto intro: reads split: list.splits option.splits)

lemma create_track_Inr:
  assumes "create_track upper album p w = (Inr t, w1)"
  shows "tk_status t = TrackStatusDraft \<and> announced (track_payload t) (db w) (log w) (db w1) (log w1)"
proof -
  obtain r wa where a: "album_get album w = (r, wa)" by fastforce
  from reads_onlyD [OF reads_album_get a] have same: "db wa = db w" "log wa = log w" by simp_all
  obtain al where r: "r = Inr al"
    using assms a by (cases r) (auto simp: create_track_def act_inv)
  define p1 where "p1 = (if np_artists p = [] then p\<lparr>np_artists := al_artists al\<rparr> else p)"
  from assms a r obtain i wb u wc where run: "wb = advance (advance wa)"
    "new_track upper i (al_id al) p1 (clock (advance wa) (tick (advance wa))) = Inr t"
    "store (track_create t) [TrackCreated t] wb = (Inr u, wc)" "w1 = wc"
    by (auto simp: create_track_def act_inv from_sum_Inr p1_def Let_def)
  have "db wb = db w" "log wb = log w" using same run(1) by (simp_all add: log_def)
  with store_track_Inr [OF run(3)] new_track_draft [OF run(2)] run(4) show ?thesis by simp
qed

text \<open>What an answer shows besides the stamps, which the table keeps to the microsecond.\<close>

definition unstamped :: "song_info \<Rightarrow> song_info" where
  "unstamped s = s\<lparr>sn_created := 0, sn_updated := 0\<rparr>"

lemma same_view_answer: "view_track t = view_track q \<Longrightarrow> tk_id t = tk_id q \<Longrightarrow> unstamped (song_info_of t) = unstamped (song_info_of q)"
  by (simp add: unstamped_def song_info_of_def view_track_def)

lemma payload_view: "cv_tracks (apply_catalog (track_payload t) v) (tk_id t) = Some (view_track t)"
  by (simp add: track_payload_def view_track_def)

text \<open>C35: a track that was created through the API is a draft, and reads back, as long as nobody changes
  the tables, exactly as the answer to its creation showed it: normalized, with the artists of the
  album where the request names none, and with its stamps cut to the microsecond.\<close>

theorem created_track_reads_back:
  assumes "catalog_ok (db w)" "post_song upper late ct body w = (Reply s b, w1)" "db w2 = db w1"
    "get_song late2 (Some (sn_id b)) w2 = (Reply s2 c, w3)"
  shows "unstamped c = unstamped b \<and> sn_status c = TrackStatusDraft"
proof -
  from assms(2) obtain album p t where t: "create_track upper album p w = (Inr t, w1)" "b = song_info_of t"
    by (auto simp: post_song_def decode_body_def refuse_def catalog_reply_def Let_def
        split: if_splits option.splits prod.splits sum.splits)
  from assms(4) obtain q where q: "get_track (sn_id b) w2 = (Inr q, w3)" "c = song_info_of q"
    by (auto simp: get_song_def catalog_path_def catalog_reply_def split: prod.splits sum.splits)
  from create_track_Inr [OF t(1)] assms(1) have draft: "tk_status t = TrackStatusDraft"
    and abs: "catalog_abs (db w1) = apply_catalog (track_payload t) (catalog_abs (db w))" by (auto simp: announced_def)
  from track_get_Inr [OF q(1) [unfolded get_track_def]] obtain r where r: "row_with tw_id (sn_id b) (songs (db w1)) = Some r"
    "q = scan_track_row (db w1) r" using assms(3) by auto
  have i: "sn_id b = tk_id t" by (simp add: t(2) song_info_of_def)
  have "cv_tracks (catalog_abs (db w1)) (tk_id t) = Some (view_track q)"
    using r by (simp add: catalog_abs_def i)
  then have v: "view_track q = view_track t" unfolding abs payload_view by simp
  have "tk_id q = tk_id t" using r row_with_SomeD [OF r(1)] by (simp add: scan_track_row_def i)
  with v have "unstamped c = unstamped b" unfolding q(2) t(2) by (rule same_view_answer)
  moreover have "tk_status q = TrackStatusDraft" using v draft by (simp add: view_track_def)
  ultimately show ?thesis by (simp add: q(2) song_info_of_def)
qed

text \<open>A second track of the sample album, without artists of its own.\<close>

definition sample_request :: track_request where
  "sample_request = \<lparr>tq_album = Some 2, tq_artists = [], tq_title = ''U'', tq_ms = 1500, tq_number = 2, tq_disc = 0,
     tq_explicit = False, tq_isrc = ''''\<rparr>"

definition sample_new :: track_params where
  "sample_new = \<lparr>np_artists = [1], np_title = ''U'', np_duration = 1500000000, np_number = 2, np_disc = 0,
     np_explicit = False, np_isrc = ''''\<rparr>"

definition second_song :: track where
  "second_song = \<lparr>tk_id = 1, tk_album = 2, tk_artists = [1], tk_title = ''U'', tk_duration = 1500000000, tk_number = 2,
     tk_disc = 1, tk_explicit = False, tk_isrc = '''', tk_status = TrackStatusDraft, tk_created = 2000, tk_updated = 2000\<rparr>"

lemma second_new: "new_track id 1 2 sample_new 2000 = Inr second_song"
  by code_simp

lemma second_stored: "\<exists>w1. store (track_create second_song) [TrackCreated second_song] (advance (advance (advance sample_catalog))) = (Inr (), w1)"
proof -
  have "\<not> isl (fst (store (track_create second_song) [TrackCreated second_song] (advance (advance (advance sample_catalog)))))"
    by code_simp
  then show ?thesis
    by (cases "store (track_create second_song) [TrackCreated second_song] (advance (advance (advance sample_catalog)))")
      (metis fst_conv old.unit.exhaust sum.collapse(2))
qed

lemma sample_album_read: "\<exists>al. album_get 2 sample_catalog = (Inr al, advance sample_catalog) \<and> al_id al = 2 \<and> al_artists al = [1]"
  by (simp add: album_get_def bnd_def query_def stmt_def ret_def sample_catalog_def catalog_start_def sample_tables_def
      sample_album_def scan_album_def credits_of_def row_with_Cons order_by_def)

lemma second_created: "\<exists>w1. create_track id 2 (sample_new\<lparr>np_artists := []\<rparr>) sample_catalog = (Inr second_song, w1)"
proof -
  obtain al where al: "album_get 2 sample_catalog = (Inr al, advance sample_catalog)" "al_id al = 2" "al_artists al = [1]"
    using sample_album_read by blast
  have p: "(sample_new\<lparr>np_artists := []\<rparr>)\<lparr>np_artists := [1]\<rparr> = sample_new" by (simp add: sample_new_def)
  have w: "fresh sample_catalog (Suc (tick sample_catalog)) = Some 1" "clock sample_catalog (Suc (Suc (tick sample_catalog))) = 2000"
    by (simp_all add: sample_catalog_def catalog_start_def)
  from second_stored obtain w1 where "store (track_create second_song) [TrackCreated second_song] (advance (advance (advance sample_catalog))) = (Inr (), w1)" by blast
  then have "create_track id 2 (sample_new\<lparr>np_artists := []\<rparr>) sample_catalog = (Inr second_song, w1)"
    by (simp add: create_track_def attempt_def al p w second_new bnd_def new_uuid_def now_utc_def from_sum_def ret_def)
  then show ?thesis by blast
qed

theorem created_track_reads_back_witness:
  "\<exists>b c w1 w3. post_song id False [] (Some sample_request) sample_catalog = (Reply 201 b, w1) \<and>
     get_song False (Some (sn_id b)) (sample_catalog\<lparr>db := db w1\<rparr>) = (Reply 200 c, w3) \<and>
     sn_artists c = [1] \<and> sn_title c = ''U'' \<and> sn_status c = ''DRAFT''"
proof -
  obtain w1 where t: "create_track id 2 (sample_new\<lparr>np_artists := []\<rparr>) sample_catalog = (Inr second_song, w1)"
    using second_created by blast
  have d: "request_duration 1500 = 1500000000" by (simp add: request_duration_def)
  have post: "post_song id False [] (Some sample_request) sample_catalog = (Reply 201 (song_info_of second_song), w1)"
    using t by (simp add: post_song_def decode_body_def sample_request_def parse_id_list_def catalog_reply_def d sample_new_def)
  have ok: "catalog_ok (db sample_catalog)" using sample_catalog_ok by (simp add: sample_catalog_def)
  from create_track_Inr [OF t] ok have "catalog_abs (db w1) = apply_catalog (track_payload second_song) (catalog_abs (db sample_catalog))"
    by (auto simp: announced_def)
  then have "cv_tracks (catalog_abs (db w1)) (tk_id second_song) = Some (view_track second_song)" by (simp add: payload_view)
  then obtain r where r: "row_with tw_id (tk_id second_song) (songs (db w1)) = Some r" by (auto simp: catalog_abs_def)
  then obtain rs where "filter (\<lambda>r. tw_id r = tk_id second_song) (songs (db w1)) = r # rs"
    by (auto simp: row_with_filter split: list.splits)
  then have "\<exists>c w3. get_song False (Some (sn_id (song_info_of second_song))) (sample_catalog\<lparr>db := db w1\<rparr>) = (Reply 200 c, w3)"
    by (simp add: get_song_def catalog_path_def catalog_reply_def get_track_def track_get_def bnd_def query_def stmt_def ret_def
        song_info_of_def sample_catalog_def catalog_start_def)
  then obtain c w3 where get: "get_song False (Some (sn_id (song_info_of second_song))) (sample_catalog\<lparr>db := db w1\<rparr>) = (Reply 200 c, w3)"
    by blast
  from created_track_reads_back [OF ok post _ get] have "unstamped c = unstamped (song_info_of second_song)" "sn_status c = TrackStatusDraft" by simp_all
  then have "sn_artists c = [1] \<and> sn_title c = ''U'' \<and> sn_status c = ''DRAFT''"
    by (cases c) (simp add: unstamped_def song_info_of_def second_song_def)
  with post get show ?thesis by blast
qed

end
