(* ===== verification/Analytics.thy ===== *)
theory Analytics
  imports Playback Indexer "HOL-Library.AList" "HOL-Library.Multiset"
begin

text \<open>
  The Analytics Worker (\<^verbatim>\<open>workers/analytics\<close>): batches of \<open>playback.events\<close> enriched from the
  Catalog through a cache and inserted into ClickHouse, the daily aggregates recomputed from the
  raw rows, and the report. The tables are those of \<^verbatim>\<open>libs/contracts/analytics\<close>: of the rows of a
  \<open>ReplacingMergeTree\<close> with the same key the last one inserted counts (\<open>FINAL\<close>), and an insert
  under a token that is among the last thousand is dropped. Retention is left out. What the
  Catalog answers, and SHA-256, are parameters; counters are natural numbers.
\<close>

section \<open>Events\<close>

record an_event =
  ae_id :: uuid
  ae_type :: string
  ae_playback :: uuid
  ae_user :: uuid
  ae_track :: uuid
  ae_album :: uuid
  ae_artists :: "uuid list"
  ae_source :: string
  ae_duration :: "64 word"
  ae_listened :: "64 word"
  ae_at :: time

abbreviation an_started :: string where "an_started \<equiv> ''playback.started''"
abbreviation an_finished :: string where "an_finished \<equiv> ''playback.finished''"
abbreviation an_skipped :: string where "an_skipped \<equiv> ''playback.skipped''"

datatype 'a an_decoded = AnEvent 'a | AnUnknownType | AnMalformed string

definition from_envelope :: "playback_payload option envelope \<Rightarrow> an_event an_decoded" where
  "from_envelope env =
     (if env_type env \<notin> {an_started, an_finished, an_skipped} then AnUnknownType
      else if env_version env \<noteq> 1 then AnMalformed ''unsupported version''
      else case env_payload env of
          None \<Rightarrow> AnMalformed ''payload''
        | Some p \<Rightarrow> (case (pp_playback p, pp_user p, pp_track p) of
              (Some i, Some u, Some t) \<Rightarrow>
                if pp_at p = 0 \<or> sint (pp_duration p) < 0 \<or> sint (pp_listened p) < 0
                then AnMalformed ''missing time or negative durations''
                else AnEvent \<lparr>ae_id = env_id env, ae_type = env_type env, ae_playback = i, ae_user = u, ae_track = t,
                  ae_album = uuid_Nil, ae_artists = [], ae_source = pp_source p, ae_duration = pp_duration p,
                  ae_listened = pp_listened p, ae_at = pp_at p\<rparr>
            | _ \<Rightarrow> AnMalformed ''malformed IDs''))"

text \<open>\<open>Decode\<close>: unknown types are skipped, whatever else does not decode goes to the dead letters.\<close>

definition an_decode :: "playback_payload wire krecord \<Rightarrow> an_event decoded" where
  "an_decode r =
     (case decode_envelope (rec_value r) of
        None \<Rightarrow> Undecodable (bad_record ''envelope'')
      | Some env \<Rightarrow> (case from_envelope env of
            AnEvent e \<Rightarrow> Item e
          | AnUnknownType \<Rightarrow> Skip
          | AnMalformed msg \<Rightarrow> Undecodable (bad_record msg)))"

type_synonym track_facts = "uuid \<times> uuid list"

definition enrich :: "track_facts \<Rightarrow> an_event \<Rightarrow> an_event" where
  "enrich t e = e\<lparr>ae_album := fst t, ae_artists := snd t\<rparr>"

section \<open>Tables\<close>

record an_row =
  aw_event :: uuid
  aw_type :: string
  aw_playback :: uuid
  aw_user :: uuid
  aw_track :: uuid
  aw_album :: uuid
  aw_artists :: "uuid list"
  aw_source :: string
  aw_duration :: nat
  aw_listened :: nat
  aw_at :: time

record an_stats =
  as_plays :: nat
  as_completions :: nat
  as_skips :: nat
  as_unique :: nat
  as_listened :: nat

text \<open>An aggregate of a day: for a track, for an artist, or for everything.\<close>

record 'k day_row =
  dr_day :: int
  dr_key :: 'k
  dr_stats :: an_stats

record an_db =
  raw_events :: "an_row list"
  insert_tokens :: "string list"
  track_days :: "uuid day_row list"
  artist_days :: "uuid day_row list"
  total_days :: "unit day_row list"

text \<open>\<open>FINAL\<close>: the last row of every key.\<close>

fun final_rows :: "('r \<Rightarrow> 'k) \<Rightarrow> 'r list \<Rightarrow> 'r list" where
  "final_rows key [] = []"
| "final_rows key (r # rs) = (if key r \<in> key ` set rs then final_rows key rs else r # final_rows key rs)"

definition day_number :: "time \<Rightarrow> int" where
  "day_number t = t div (86400 * second)"

definition raw_key :: "an_row \<Rightarrow> int \<times> uuid \<times> uuid" where
  "raw_key r = (day_number (aw_at r), aw_track r, aw_event r)"

definition day_key :: "'k day_row \<Rightarrow> int \<times> 'k" where
  "day_key r = (dr_day r, dr_key r)"

section \<open>Ingestion\<close>

text \<open>
  Outside: what the Catalog answers to one lookup (nothing, or its tracks with identifiers that
  parse or do not), and the cache in the worker's memory.
\<close>

record an_entry =
  en_facts :: track_facts
  en_known :: bool
  en_expires :: time

record an_ext =
  an_catalog :: "uuid list \<Rightarrow> (uuid option \<times> uuid option \<times> uuid option list) list option"
  an_cache :: "(uuid \<times> an_entry) list"

type_synonym 'a an_act = "(an_db, an_ext, unit, unit, 'a) act"
type_synonym an_world = "(an_db, an_ext, unit) world"

text \<open>\<open>Client.Tracks\<close>: a track whose own identifier does not parse fails the lookup.\<close>

fun track_answers :: "(uuid option \<times> uuid option \<times> uuid option list) list \<Rightarrow> (uuid \<times> track_facts) list option" where
  "track_answers [] = Some []"
| "track_answers ((i, album, as') # ts) =
     (case (i, track_answers ts) of
        (Some j, Some m) \<Rightarrow> Some ((j, (case album of Some a \<Rightarrow> a | None \<Rightarrow> uuid_Nil), List.map_filter id as') # m)
      | _ \<Rightarrow> None)"

fun catalog_chunks :: "uuid list list \<Rightarrow> (uuid \<times> track_facts) list an_act" where
  "catalog_chunks [] = ret []"
| "catalog_chunks (c # cs) =
     bnd (call (\<lambda>x. case Option.bind (an_catalog x c) track_answers of None \<Rightarrow> Inl Infra | Some m \<Rightarrow> Inr (m, x))) (\<lambda>m.
     bnd (catalog_chunks cs) (\<lambda>ms. ret (m @ ms)))"

definition catalog_lookup :: "uuid list \<Rightarrow> (uuid \<times> track_facts) list an_act" where
  "catalog_lookup ids = catalog_chunks (chunks_of 100 ids)"

record an_config =
  ac_ttl :: duration
  ac_max :: nat

definition cache_fresh :: "time \<Rightarrow> an_ext \<Rightarrow> uuid \<Rightarrow> an_entry option" where
  "cache_fresh now x i = (case map_of (an_cache x) i of
     None \<Rightarrow> None | Some e \<Rightarrow> if en_expires e < now then None else Some e)"

text \<open>A later answer of a lookup replaces an earlier one.\<close>

definition fact_of :: "(uuid \<times> track_facts) list \<Rightarrow> uuid \<Rightarrow> track_facts option" where
  "fact_of m i = map_of (rev m) i"

definition cache_store :: "an_config \<Rightarrow> time \<Rightarrow> uuid list \<Rightarrow> (uuid \<times> track_facts) list \<Rightarrow> an_ext \<Rightarrow> an_ext" where
  "cache_store c now missing found x =
     (let base = (if ac_max c < length (an_cache x) + length missing then [] else an_cache x) in
      x\<lparr>an_cache := fold (\<lambda>i. AList.update i (case fact_of found i of
          Some f \<Rightarrow> \<lparr>en_facts = f, en_known = True, en_expires = now + ac_ttl c\<rparr>
        | None \<Rightarrow> \<lparr>en_facts = (uuid_Nil, []), en_known = False, en_expires = now + ac_ttl c\<rparr>)) missing base\<rparr>)"

text \<open>Memory of the worker is no call that can be lost.\<close>

definition in_memory :: "(an_ext \<Rightarrow> 'a \<times> an_ext) \<Rightarrow> 'a an_act" where
  "in_memory f w = (case f (ext w) of (y, x) \<Rightarrow> (Inr y, w\<lparr>ext := x\<rparr>))"

text \<open>\<open>TrackCache.Tracks\<close>: what is cached, and what the Catalog says of the rest.\<close>

definition cached_facts :: "an_config \<Rightarrow> uuid list \<Rightarrow> (uuid \<Rightarrow> track_facts option) an_act" where
  "cached_facts c ids = bnd now_utc (\<lambda>now.
     bnd (in_memory (\<lambda>x. ((filter (\<lambda>i. cache_fresh now x i = None) ids,
       \<lambda>i. case cache_fresh now x i of Some e \<Rightarrow> if en_known e then Some (en_facts e) else None | None \<Rightarrow> None), x))) (\<lambda>(missing, known).
     if missing = [] then ret known
     else bnd (catalog_lookup missing) (\<lambda>found.
       bnd (in_memory (\<lambda>x. ((), cache_store c now missing found x))) (\<lambda>_.
       ret (\<lambda>i. if i \<in> set missing then fact_of found i else known i)))))"

definition source_kind :: "string \<Rightarrow> string" where
  "source_kind s = takeWhile (\<lambda>ch. ch \<noteq> CHR '':'') s"

definition row_of_event :: "an_event \<Rightarrow> an_row" where
  "row_of_event e = \<lparr>aw_event = ae_id e, aw_type = ae_type e, aw_playback = ae_playback e, aw_user = ae_user e,
     aw_track = ae_track e, aw_album = ae_album e, aw_artists = ae_artists e, aw_source = source_kind (ae_source e),
     aw_duration = clamp_ms (ae_duration e), aw_listened = clamp_ms (ae_listened e),
     aw_at = time_truncate millisecond (ae_at e)\<rparr>"

text \<open>One insert under a deduplication token, in a window of a thousand inserts.\<close>

definition put_block :: "an_event list \<Rightarrow> string \<Rightarrow> an_db \<Rightarrow> an_db" where
  "put_block es token d =
     (if token \<in> set (insert_tokens d) then d
      else d\<lparr>raw_events := raw_events d @ map row_of_event es,
             insert_tokens := take 1000 (token # insert_tokens d)\<rparr>)"

definition insert_events :: "an_event list \<Rightarrow> string \<Rightarrow> unit an_act" where
  "insert_events es token = stmt (\<lambda>d. Inr ((), put_block es token d))"

definition dedup_token :: "(uuid list \<Rightarrow> string) \<Rightarrow> an_event list \<Rightarrow> string" where
  "dedup_token sha es = sha (map ae_id es)"

definition ingest :: "an_config \<Rightarrow> (uuid list \<Rightarrow> string) \<Rightarrow> an_event list \<Rightarrow> unit an_act" where
  "ingest c sha es =
     (if es = [] then ret ()
      else bnd (cached_facts c (dedupe_from [] (map ae_track es))) (\<lambda>tracks.
        insert_events (map (\<lambda>e. enrich (case tracks (ae_track e) of Some t \<Rightarrow> t | None \<Rightarrow> (uuid_Nil, [])) e) es)
          (dedup_token sha es)))"

section \<open>Aggregation\<close>

definition stats_of :: "an_row list \<Rightarrow> an_stats" where
  "stats_of rs = \<lparr>as_plays = length (filter (\<lambda>r. aw_type r = an_started) rs),
     as_completions = length (filter (\<lambda>r. aw_type r = an_finished) rs),
     as_skips = length (filter (\<lambda>r. aw_type r = an_skipped) rs),
     as_unique = length (remdups (map aw_user rs)),
     as_listened = sum_list (map aw_listened (filter (\<lambda>r. aw_type r \<noteq> an_started) rs))\<rparr>"

definition rows_of_day :: "int \<Rightarrow> an_db \<Rightarrow> an_row list" where
  "rows_of_day d t = filter (\<lambda>r. day_number (aw_at r) = d) (final_rows raw_key (raw_events t))"

definition group_stats :: "int \<Rightarrow> ('k \<times> an_row) list \<Rightarrow> 'k day_row list" where
  "group_stats d ps = map (\<lambda>k. \<lparr>dr_day = d, dr_key = k, dr_stats = stats_of (map snd (filter (\<lambda>p. fst p = k) ps))\<rparr>)
     (dedupe_from [] (map fst ps))"

definition recompute_tracks :: "int \<Rightarrow> unit an_act" where
  "recompute_tracks d = stmt (\<lambda>t. Inr ((), t\<lparr>track_days := track_days t @
     group_stats d (map (\<lambda>r. (aw_track r, r)) (rows_of_day d t))\<rparr>))"

definition recompute_artists :: "int \<Rightarrow> unit an_act" where
  "recompute_artists d = stmt (\<lambda>t. Inr ((), t\<lparr>artist_days := artist_days t @
     group_stats d (concat (map (\<lambda>r. map (\<lambda>a. (a, r)) (aw_artists r)) (rows_of_day d t)))\<rparr>))"

definition recompute_totals :: "int \<Rightarrow> unit an_act" where
  "recompute_totals d = stmt (\<lambda>t. Inr ((), t\<lparr>total_days := total_days t @
     (if rows_of_day d t = [] then [] else [\<lparr>dr_day = d, dr_key = (), dr_stats = stats_of (rows_of_day d t)\<rparr>])\<rparr>))"

definition recompute_day :: "int \<Rightarrow> unit an_act" where
  "recompute_day d = bnd (recompute_tracks d) (\<lambda>_. bnd (recompute_artists d) (\<lambda>_. recompute_totals d))"

text \<open>\<open>Recompute\<close>: every day of the range, the failed ones reported together at the end.\<close>

fun recompute_days :: "int list \<Rightarrow> int list an_act" where
  "recompute_days [] = ret []"
| "recompute_days (d # ds) = bnd (attempt (recompute_day d)) (\<lambda>r.
     bnd (recompute_days ds) (\<lambda>failed. ret (case r of Inl _ \<Rightarrow> d # failed | Inr _ \<Rightarrow> failed)))"

definition recompute :: "time \<Rightarrow> time \<Rightarrow> unit an_act" where
  "recompute from to =
     (if day_number to < day_number from then raise Infra
      else bnd (recompute_days [day_number from..day_number to]) (\<lambda>failed.
        if failed \<noteq> [] then raise Infra else ret ()))"

definition recompute_recent :: "int \<Rightarrow> unit an_act" where
  "recompute_recent lookback = bnd now_utc (\<lambda>now.
     recompute (now - max lookback 0 * 86400 * second) now)"

section \<open>The report\<close>

definition add_stats :: "an_stats list \<Rightarrow> an_stats" where
  "add_stats ss = \<lparr>as_plays = sum_list (map as_plays ss), as_completions = sum_list (map as_completions ss),
     as_skips = sum_list (map as_skips ss), as_unique = 0, as_listened = sum_list (map as_listened ss)\<rparr>"

definition completion_rate :: "an_stats \<Rightarrow> float64" where
  "completion_rate s = (let ended = as_completions s + as_skips s in
     if ended = 0 then 0 else float_div (float64 (of_nat (as_completions s))) (float64 (of_nat ended)))"

record chart_entry =
  rk_id :: uuid
  rk_stats :: an_stats
  rk_rate :: float64

record an_report =
  ar_totals :: an_stats
  ar_rate :: float64
  ar_daily :: float64
  ar_tracks :: "chart_entry list"
  ar_top_artists :: "chart_entry list"

definition in_days :: "int \<Rightarrow> int \<Rightarrow> 'k day_row list \<Rightarrow> 'k day_row list" where
  "in_days from to rs = filter (\<lambda>r. from \<le> dr_day r \<and> dr_day r \<le> to) (final_rows day_key rs)"

definition raw_in_days :: "int \<Rightarrow> int \<Rightarrow> an_db \<Rightarrow> an_row list" where
  "raw_in_days from to t = filter (\<lambda>r. from \<le> day_number (aw_at r) \<and> day_number (aw_at r) \<le> to) (raw_events t)"

text \<open>\<open>avg\<close>; over no rows it is no number, which the decoder leaves at zero.\<close>

definition mean :: "nat list \<Rightarrow> float64" where
  "mean ns = (if ns = [] then 0 else float_div (float64 (of_nat (sum_list ns))) (float64 (of_nat (length ns))))"

text \<open>ClickHouse orders identifiers by their second half first.\<close>

definition uuid_rank :: "uuid \<Rightarrow> nat" where
  "uuid_rank u = unat (word_rotr 64 u)"

definition chart_rows :: "int \<Rightarrow> int \<Rightarrow> nat \<Rightarrow> uuid day_row list \<Rightarrow> (uuid \<times> an_stats) list" where
  "chart_rows from to limit rs =
     (let ps = in_days from to rs in
      take limit (order_by (\<lambda>p. (- int (as_plays (snd p)), uuid_rank (fst p)))
        (map (\<lambda>k. (k, add_stats (map dr_stats (filter (\<lambda>r. dr_key r = k) ps)))) (dedupe_from [] (map dr_key ps)))))"

definition listeners_of :: "('r \<Rightarrow> uuid list) \<Rightarrow> ('r \<Rightarrow> uuid) \<Rightarrow> 'r list \<Rightarrow> uuid \<Rightarrow> nat" where
  "listeners_of keys user rs k = length (remdups (map user (filter (\<lambda>r. k \<in> set (keys r)) rs)))"

definition ranked_of :: "(uuid \<Rightarrow> nat) \<Rightarrow> uuid \<times> an_stats \<Rightarrow> chart_entry" where
  "ranked_of uniq p = (let s = (snd p)\<lparr>as_unique := uniq (fst p)\<rparr> in
     \<lparr>rk_id = fst p, rk_stats = s, rk_rate = completion_rate s\<rparr>)"

definition chart :: "(an_db \<Rightarrow> uuid day_row list) \<Rightarrow> (an_row \<Rightarrow> uuid list) \<Rightarrow> int \<Rightarrow> int \<Rightarrow> nat \<Rightarrow> chart_entry list an_act" where
  "chart table keys from to limit = bnd (query (\<lambda>t. chart_rows from to limit (table t))) (\<lambda>rows.
     if rows = [] then ret []
     else bnd (query (\<lambda>t. listeners_of keys aw_user (raw_in_days from to t))) (\<lambda>uniq. ret (map (ranked_of uniq) rows)))"

definition report_days :: "int \<Rightarrow> int \<Rightarrow> nat \<Rightarrow> an_report an_act" where
  "report_days from to limit =
     bnd (query (\<lambda>t. in_days from to (total_days t))) (\<lambda>days.
     bnd (query (\<lambda>t. length (remdups (map aw_user (raw_in_days from to t))))) (\<lambda>uniq.
     bnd (chart track_days (\<lambda>r. [aw_track r]) from to limit) (\<lambda>tracks.
     bnd (chart artist_days aw_artists from to limit) (\<lambda>ars.
     let totals = (add_stats (map dr_stats days))\<lparr>as_unique := uniq\<rparr> in
     ret \<lparr>ar_totals = totals, ar_rate = completion_rate totals, ar_daily = mean (map (as_unique \<circ> dr_stats) days),
          ar_tracks = tracks, ar_top_artists = ars\<rparr>))))"

section \<open>Every event counts once\<close>

text \<open>
  A run of the worker: batches, repeated as the consumer repeats them, and recomputations of days,
  in any order. It gives the events of the batches that were accepted.
\<close>

datatype an_step = DoIngest "an_event list" | DoRecompute int

fun run_an :: "an_config \<Rightarrow> (uuid list \<Rightarrow> string) \<Rightarrow> an_step list \<Rightarrow> an_world \<Rightarrow> an_event list \<times> an_world" where
  "run_an c sha [] w = ([], w)"
| "run_an c sha (DoIngest es # ss) w =
     (case ingest c sha es w of (r, w1) \<Rightarrow> (case run_an c sha ss w1 of (acc, w2) \<Rightarrow> ((if isl r then [] else es) @ acc, w2)))"
| "run_an c sha (DoRecompute d # ss) w = run_an c sha ss (snd (recompute_day d w))"

fun step_batches :: "an_step list \<Rightarrow> an_event list list" where
  "step_batches [] = []"
| "step_batches (DoIngest es # ss) = es # step_batches ss"
| "step_batches (DoRecompute d # ss) = step_batches ss"

lemma set_final_rows: "set (final_rows key rs) \<subseteq> set rs"
  by (induction rs) auto

lemma keys_final_rows: "key ` set (final_rows key rs) = key ` set rs"
  by (induction rs) auto

lemma distinct_final_rows: "distinct (map key (final_rows key rs))"
  by (induction rs) (auto simp: keys_final_rows)

lemma final_rows_append_new: "row_with key k (final_rows key (rs @ [r])) = (if key r = k then Some r else row_with key k (final_rows key rs))"
proof (induction rs)
  case Nil
  show ?case by (simp add: row_with_Cons)
next
  case (Cons a rs)
  have "row_with key k (final_rows key rs) = None" if "k \<notin> key ` set rs"
    using that by (simp add: row_with_None_iff keys_final_rows)
  then show ?case using Cons by (auto simp: row_with_Cons)
qed

text \<open>An event's row without what the Catalog adds.\<close>

definition bare :: "an_row \<Rightarrow> an_row" where
  "bare r = r\<lparr>aw_album := uuid_Nil, aw_artists := []\<rparr>"

definition bare_event :: "an_event \<Rightarrow> an_row" where
  "bare_event e = bare (row_of_event e)"

lemma bare_enrich [simp]: "bare (row_of_event (enrich t e)) = bare_event e"
  by (simp add: bare_def bare_event_def row_of_event_def enrich_def)

lemma bare_simps [simp]: "aw_type (bare r) = aw_type r" "aw_user (bare r) = aw_user r" "aw_listened (bare r) = aw_listened r"
  "aw_event (bare r) = aw_event r" "aw_at (bare r) = aw_at r" "aw_track (bare r) = aw_track r" "raw_key (bare r) = raw_key r"
  by (simp_all add: bare_def raw_key_def)

lemma stats_of_bare: "stats_of (map bare rs) = stats_of rs"
  by (simp add: stats_of_def filter_map comp_def)

lemma stats_of_mset: assumes "mset rs = mset qs" shows "stats_of rs = stats_of qs"
proof -
  have f: "mset (filter p rs) = mset (filter p qs)" for p using assms by simp
  have "length (filter p rs) = length (filter p qs)" for p using f by (metis size_mset)
  moreover have "length (remdups (map aw_user rs)) = length (remdups (map aw_user qs))"
    unfolding length_remdups_card_conv using assms by (metis mset_map set_mset_mset)
  moreover have "sum_list (map aw_listened (filter p rs)) = sum_list (map aw_listened (filter p qs))" for p
    using f by (metis mset_map sum_mset_sum_list)
  ultimately show ?thesis by (simp add: stats_of_def)
qed

text \<open>What the tables know of a evs of events with distinct identifiers.\<close>

definition raw_of :: "an_event list \<Rightarrow> an_db \<Rightarrow> bool" where
  "raw_of evs d \<longleftrightarrow> (\<forall>r\<in>set (raw_events d). \<exists>e\<in>set evs. \<exists>t. r = row_of_event (enrich t e))"

definition stored_in :: "an_db \<Rightarrow> an_event \<Rightarrow> bool" where
  "stored_in d e \<longleftrightarrow> ae_id e \<in> aw_event ` set (raw_events d)"

definition event_day :: "an_event \<Rightarrow> int" where
  "event_day e = day_number (time_truncate millisecond (ae_at e))"

lemma rows_of_day_events:
  assumes "raw_of evs t" "distinct (map ae_id evs)"
  shows "mset (map bare (rows_of_day d t)) = mset (map bare_event (filter (\<lambda>e. stored_in t e \<and> event_day e = d) evs))"
proof -
  have ev: "aw_event (bare_event e) = ae_id e" "aw_at (bare_event e) = time_truncate millisecond (ae_at e)" for e
    by (simp_all add: bare_event_def row_of_event_def)
  have inj: "e = f" if "e \<in> set evs" "f \<in> set evs" "ae_id e = ae_id f" for e f
    using assms(2) that by (auto simp: distinct_map inj_on_def)
  have "distinct (map raw_key (final_rows raw_key (raw_events t)))" by (rule distinct_final_rows)
  then have "distinct (map raw_key (rows_of_day d t))" unfolding rows_of_day_def by (simp add: distinct_map_filter)
  then have "distinct (map raw_key (map bare (rows_of_day d t)))" by (simp add: comp_def)
  then have d1: "distinct (map bare (rows_of_day d t))" by (rule distinct_map [THEN iffD1, THEN conjunct1])
  have "distinct (map aw_event (map bare_event (filter (\<lambda>e. stored_in t e \<and> event_day e = d) evs)))"
    using assms(2) by (simp add: comp_def ev distinct_map_filter)
  then have d2: "distinct (map bare_event (filter (\<lambda>e. stored_in t e \<and> event_day e = d) evs))" by (rule distinct_map [THEN iffD1, THEN conjunct1])
  have "set (map bare (rows_of_day d t)) = set (map bare_event (filter (\<lambda>e. stored_in t e \<and> event_day e = d) evs))"
  proof (intro equalityI subsetI)
    fix x assume "x \<in> set (map bare (rows_of_day d t))"
    then obtain r where r: "x = bare r" "r \<in> set (final_rows raw_key (raw_events t))" "day_number (aw_at r) = d"
      unfolding rows_of_day_def set_map set_filter by blast
    from r(2) have mem: "r \<in> set (raw_events t)" by (rule subsetD [OF set_final_rows])
    with assms(1) obtain e u where e: "e \<in> set evs" "r = row_of_event (enrich u e)" unfolding raw_of_def by blast
    have x: "x = bare_event e" unfolding r(1) e(2) by simp
    have "aw_event r = ae_id e" "day_number (aw_at r) = event_day e" unfolding e(2) by (simp_all add: row_of_event_def enrich_def event_day_def)
    then have "stored_in t e \<and> event_day e = d" using mem r(3) by (auto simp: stored_in_def intro!: rev_image_eqI)
    then show "x \<in> set (map bare_event (filter (\<lambda>e. stored_in t e \<and> event_day e = d) evs))" using e(1) x by auto
  next
    fix x assume "x \<in> set (map bare_event (filter (\<lambda>e. stored_in t e \<and> event_day e = d) evs))"
    then obtain e where e: "x = bare_event e" "e \<in> set evs" "stored_in t e" "event_day e = d" unfolding set_map set_filter by blast
    from e(3) have "ae_id e \<in> aw_event ` set (raw_events t)" by (simp add: stored_in_def)
    then obtain r where r: "r \<in> set (raw_events t)" "aw_event r = ae_id e" by (elim imageE) simp
    have "raw_key r \<in> raw_key ` set (final_rows raw_key (raw_events t))" unfolding keys_final_rows using r(1) by simp
    then obtain q where q: "q \<in> set (final_rows raw_key (raw_events t))" "raw_key q = raw_key r" by (elim imageE) simp
    from q(1) have "q \<in> set (raw_events t)" by (rule subsetD [OF set_final_rows])
    with assms(1) obtain f u where f: "f \<in> set evs" "q = row_of_event (enrich u f)" unfolding raw_of_def by blast
    have "aw_event q = ae_id f" unfolding f(2) by (simp add: row_of_event_def enrich_def)
    moreover have "aw_event q = aw_event r" using q(2) by (simp add: raw_key_def)
    ultimately have "ae_id f = ae_id e" using r(2) by simp
    then have fe: "f = e" by (rule inj [OF f(1) e(2)])
    have "day_number (aw_at q) = d" using e(4) unfolding f(2) fe by (simp add: row_of_event_def enrich_def event_day_def)
    then have "q \<in> set (rows_of_day d t)" using q(1) by (simp add: rows_of_day_def)
    moreover have "bare q = x" unfolding f(2) fe e(1) by simp
    ultimately show "x \<in> set (map bare (rows_of_day d t))" unfolding set_map by (metis imageI)
  qed
  then show ?thesis using set_eq_iff_mset_eq_distinct [OF d1 d2] by blast
qed

text \<open>The calls before the insert touch neither the tables nor the outbox.\<close>

lemma reads_in_memory [reads]: "reads_only (in_memory f)"
  by (auto simp: reads_only_def in_memory_def split: prod.splits)

lemma reads_catalog_chunks [reads]: "reads_only (catalog_chunks cs)"
  by (induction cs) (auto intro!: reads)

lemma reads_cached_facts [reads]: "reads_only (cached_facts c ids)"
  unfolding cached_facts_def catalog_lookup_def
  by (intro reads) (auto intro!: reads split: prod.splits)

lemma stmt_put: "stmt (\<lambda>d. Inr ((), f d)) w = (r, w1) \<Longrightarrow> db w1 = db w \<and> isl r \<or> db w1 = f (db w)"
  by (auto simp: stmt_def split: fate.splits)

lemma ingest_db:
  assumes "ingest c sha es w = (r, w1)"
  shows "db w1 = db w \<and> (isl r \<or> es = []) \<or>
     (\<exists>f. db w1 = put_block (map (\<lambda>e. enrich (f e) e) es) (dedup_token sha es) (db w))"
proof (cases "es = []")
  case True
  then show ?thesis using assms by (auto simp: ingest_def ret_def)
next
  case False
  let ?ids = "dedupe_from [] (map ae_track es)"
  obtain q w2 where q: "cached_facts c ?ids w = (q, w2)" by fastforce
  from reads_onlyD [OF reads_cached_facts q] have same: "db w2 = db w" by simp
  show ?thesis
  proof (cases q)
    case (Inl e)
    then show ?thesis using assms q False same by (auto simp: ingest_def bnd_def)
  next
    case (Inr tracks)
    let ?f = "\<lambda>e. case tracks (ae_track e) of Some t \<Rightarrow> t | None \<Rightarrow> (uuid_Nil, [])"
    have "insert_events (map (\<lambda>e. enrich (?f e) e) es) (dedup_token sha es) w2 = (r, w1)"
      using assms q False Inr by (simp add: ingest_def bnd_def)
    from stmt_put [OF this [unfolded insert_events_def]] same show ?thesis by auto
  qed
qed

text \<open>
  The invariant: rows are of events of the log, every remembered token is of a batch whose events
  are stored, and every aggregate is of a day that has rows.
\<close>

definition an_inv :: "(uuid list \<Rightarrow> string) \<Rightarrow> an_event list \<Rightarrow> an_event list list \<Rightarrow> an_db \<Rightarrow> bool" where
  "an_inv sha evs bs d \<longleftrightarrow> raw_of evs d \<and>
     (\<forall>tok\<in>set (insert_tokens d). \<exists>es\<in>set bs. tok = dedup_token sha es \<and> list_all (stored_in d) es) \<and>
     (\<forall>e\<in>set evs. stored_in d e \<longrightarrow> e \<in> set (concat bs)) \<and>
     (\<forall>r\<in>set (total_days d). rows_of_day (dr_day r) d \<noteq> []) \<and>
     (\<forall>r\<in>set (track_days d). dr_key r \<in> aw_track ` set (rows_of_day (dr_day r) d))"

lemma day_track_rows: "(n, k) \<in> (\<lambda>r. (day_number (aw_at r), aw_track r)) ` set (raw_events d) \<longleftrightarrow> k \<in> aw_track ` set (rows_of_day n d)"
proof
  assume "(n, k) \<in> (\<lambda>r. (day_number (aw_at r), aw_track r)) ` set (raw_events d)"
  then obtain r where r: "r \<in> set (raw_events d)" "day_number (aw_at r) = n" "aw_track r = k" by auto
  have "raw_key r \<in> raw_key ` set (final_rows raw_key (raw_events d))" unfolding keys_final_rows using r(1) by simp
  then obtain q where q: "q \<in> set (final_rows raw_key (raw_events d))" "raw_key q = raw_key r" by force
  then have "q \<in> set (rows_of_day n d)" "aw_track q = k" using r by (auto simp: rows_of_day_def raw_key_def)
  then show "k \<in> aw_track ` set (rows_of_day n d)" by force
next
  assume "k \<in> aw_track ` set (rows_of_day n d)"
  then show "(n, k) \<in> (\<lambda>r. (day_number (aw_at r), aw_track r)) ` set (raw_events d)"
    using set_final_rows [of raw_key "raw_events d"] by (auto simp: rows_of_day_def)
qed

lemma rows_of_day_ne: "rows_of_day n d \<noteq> [] \<longleftrightarrow> (\<exists>k. k \<in> aw_track ` set (rows_of_day n d))"
  by (metis image_is_empty set_empty ex_in_conv)

lemma rows_grow:
  assumes "set (raw_events d) \<subseteq> set (raw_events d1)"
  shows "aw_track ` set (rows_of_day n d) \<subseteq> aw_track ` set (rows_of_day n d1)"
  unfolding subset_iff day_track_rows [symmetric] using assms by auto

lemma stored_grow: "set (raw_events d) \<subseteq> set (raw_events d1) \<Longrightarrow> stored_in d e \<Longrightarrow> stored_in d1 e"
  by (auto simp: stored_in_def)

lemma put_block_stored:
  assumes inv: "an_inv sha evs bs d"
    and es: "es \<in> set bs" and sha: "inj_on sha (map ae_id ` set bs)"
    and d1: "d1 = put_block (map (\<lambda>e. enrich (f e) e) es) (dedup_token sha es) d"
  shows "list_all (stored_in d1) es"
proof (cases "dedup_token sha es \<in> set (insert_tokens d)")
  case True
  then obtain es2 where e2: "es2 \<in> set bs" "dedup_token sha es = dedup_token sha es2" "list_all (stored_in d) es2"
    using inv unfolding an_inv_def by blast
  have "map ae_id es = map ae_id es2" using sha es e2(1,2) by (auto simp: dedup_token_def inj_on_def)
  then have "ae_id ` set es = ae_id ` set es2" by (metis set_map)
  moreover have "ae_id ` set es2 \<subseteq> aw_event ` set (raw_events d)" using e2(3) unfolding list_all_iff stored_in_def by blast
  ultimately have "stored_in d e" if "e \<in> set es" for e
    unfolding stored_in_def using that by blast
  then show ?thesis using True by (simp add: d1 put_block_def list_all_iff)
next
  case False
  have "ae_id e \<in> aw_event ` set (map row_of_event (map (\<lambda>e. enrich (f e) e) es))" if "e \<in> set es" for e
    unfolding set_map image_image by (rule image_eqI [OF _ that]) (simp add: row_of_event_def enrich_def)
  then show ?thesis using False by (auto simp: d1 put_block_def list_all_iff stored_in_def simp del: set_map)
qed

lemma put_block_inv:
  assumes inv: "an_inv sha evs bs d" and es: "es \<in> set bs" "set es \<subseteq> set evs" and evs: "distinct (map ae_id evs)"
    and sha: "inj_on sha (map ae_id ` set bs)"
    and d1: "d1 = put_block (map (\<lambda>e. enrich (f e) e) es) (dedup_token sha es) d"
  shows "an_inv sha evs bs d1 \<and> set (raw_events d) \<subseteq> set (raw_events d1)"
proof (cases "dedup_token sha es \<in> set (insert_tokens d)")
  case True
  then show ?thesis using inv by (simp add: d1 put_block_def)
next
  case False
  let ?new = "map row_of_event (map (\<lambda>e. enrich (f e) e) es)"
  have r1: "raw_events d1 = raw_events d @ ?new" "insert_tokens d1 = take 1000 (dedup_token sha es # insert_tokens d)"
    "total_days d1 = total_days d" "track_days d1 = track_days d" using False by (simp_all add: d1 put_block_def)
  have grow: "set (raw_events d) \<subseteq> set (raw_events d1)" unfolding r1 by simp
  have raw: "raw_of evs d1" unfolding raw_of_def
  proof
    fix r assume "r \<in> set (raw_events d1)"
    then consider "r \<in> set (raw_events d)" | e where "e \<in> set es" "r = row_of_event (enrich (f e) e)" unfolding r1 by auto
    then show "\<exists>e\<in>set evs. \<exists>t. r = row_of_event (enrich t e)"
    proof cases
      case 1
      then show ?thesis using inv unfolding an_inv_def raw_of_def by blast
    next
      case 2
      then show ?thesis using es(2) by blast
    qed
  qed
  have stored: "list_all (stored_in d1) es" by (rule put_block_stored [OF inv es(1) sha d1])
  have tokens: "\<exists>qs\<in>set bs. tok = dedup_token sha qs \<and> list_all (stored_in d1) qs" if "tok \<in> set (insert_tokens d1)" for tok
  proof (cases "tok = dedup_token sha es")
    case True
    then show ?thesis using es(1) stored by blast
  next
    case False
    then have "tok \<in> set (insert_tokens d)" using that unfolding r1 by (auto dest: in_set_takeD)
    then obtain qs where "qs \<in> set bs" "tok = dedup_token sha qs" "list_all (stored_in d) qs" using inv unfolding an_inv_def by blast
    then show ?thesis using stored_grow [OF grow] unfolding list_all_iff by blast
  qed
  have new_ids: "aw_event ` set ?new = ae_id ` set es" by (simp add: image_image row_of_event_def enrich_def)
  have only: "e \<in> set (concat bs)" if "e \<in> set evs" "stored_in d1 e" for e
  proof (cases "stored_in d e")
    case True
    then show ?thesis using inv that(1) unfolding an_inv_def by blast
  next
    case False
    then have "ae_id e \<in> ae_id ` set es" using that(2) new_ids unfolding stored_in_def r1 set_append image_Un by blast
    then obtain q where "q \<in> set es" "ae_id q = ae_id e" by force
    then have "e \<in> set es" using evs that(1) es(2) by (auto simp: distinct_map inj_on_def)
    then show ?thesis using es(1) by auto
  qed
  have tot: "rows_of_day (dr_day r) d1 \<noteq> []" if "r \<in> set (total_days d1)" for r
  proof -
    have "r \<in> set (total_days d)" using that unfolding r1 .
    then have "rows_of_day (dr_day r) d \<noteq> []" using inv unfolding an_inv_def by blast
    then show ?thesis using rows_grow [OF grow, of "dr_day r"] unfolding rows_of_day_ne by blast
  qed
  have trk: "dr_key r \<in> aw_track ` set (rows_of_day (dr_day r) d1)" if "r \<in> set (track_days d1)" for r
  proof -
    have "r \<in> set (track_days d)" using that unfolding r1 .
    then have "dr_key r \<in> aw_track ` set (rows_of_day (dr_day r) d)" using inv unfolding an_inv_def by blast
    then show ?thesis by (rule subsetD [OF rows_grow [OF grow]])
  qed
  show ?thesis unfolding an_inv_def using raw tokens only tot trk grow by blast
qed

lemma group_stats_keys: "dr_key ` set (group_stats d ps) = fst ` set ps" "\<forall>r\<in>set (group_stats d ps). dr_day r = d"
  by (simp_all add: group_stats_def image_image set_dedupe_from)

lemma rows_of_day_cong: "raw_events d1 = raw_events d \<Longrightarrow> rows_of_day n d1 = rows_of_day n d"
  by (simp add: rows_of_day_def)

definition same_raw :: "an_db \<Rightarrow> an_db \<Rightarrow> bool" where
  "same_raw d d1 \<longleftrightarrow> raw_events d1 = raw_events d \<and> insert_tokens d1 = insert_tokens d"

lemma an_inv_aggregates:
  assumes "an_inv sha evs bs d" "same_raw d d1"
    "\<forall>r\<in>set (total_days d1). r \<in> set (total_days d) \<or> rows_of_day (dr_day r) d \<noteq> []"
    "\<forall>r\<in>set (track_days d1). r \<in> set (track_days d) \<or> dr_key r \<in> aw_track ` set (rows_of_day (dr_day r) d)"
  shows "an_inv sha evs bs d1"
proof -
  have e: "raw_events d1 = raw_events d" "insert_tokens d1 = insert_tokens d" using assms(2) by (simp_all add: same_raw_def)
  note rows = rows_of_day_cong [OF e(1)]
  have st: "stored_in d1 = stored_in d" by (simp add: fun_eq_iff stored_in_def e)
  have raw: "raw_of evs d1 = raw_of evs d" by (simp add: raw_of_def e)
  show ?thesis using assms(1,3,4) unfolding an_inv_def rows st raw e by blast
qed

definition put_tracks :: "int \<Rightarrow> an_db \<Rightarrow> an_db" where
  "put_tracks d t = t\<lparr>track_days := track_days t @ group_stats d (map (\<lambda>r. (aw_track r, r)) (rows_of_day d t))\<rparr>"

definition put_artists :: "int \<Rightarrow> an_db \<Rightarrow> an_db" where
  "put_artists d t = t\<lparr>artist_days := artist_days t @
     group_stats d (concat (map (\<lambda>r. map (\<lambda>a. (a, r)) (aw_artists r)) (rows_of_day d t)))\<rparr>"

definition put_totals :: "int \<Rightarrow> an_db \<Rightarrow> an_db" where
  "put_totals d t = t\<lparr>total_days := total_days t @
     (if rows_of_day d t = [] then [] else [\<lparr>dr_day = d, dr_key = (), dr_stats = stats_of (rows_of_day d t)\<rparr>])\<rparr>"

lemma put_inv: "an_inv sha evs bs t \<Longrightarrow> an_inv sha evs bs (put_tracks d t)"
  "an_inv sha evs bs t \<Longrightarrow> an_inv sha evs bs (put_artists d t)" "an_inv sha evs bs t \<Longrightarrow> an_inv sha evs bs (put_totals d t)"
proof -
  assume i: "an_inv sha evs bs t"
  show "an_inv sha evs bs (put_tracks d t)"
  proof (rule an_inv_aggregates [OF i])
    show "\<forall>r\<in>set (track_days (put_tracks d t)). r \<in> set (track_days t) \<or> dr_key r \<in> aw_track ` set (rows_of_day (dr_day r) t)"
    proof
      fix r assume "r \<in> set (track_days (put_tracks d t))"
      then consider "r \<in> set (track_days t)" | "r \<in> set (group_stats d (map (\<lambda>r. (aw_track r, r)) (rows_of_day d t)))"
        unfolding put_tracks_def by auto
      then show "r \<in> set (track_days t) \<or> dr_key r \<in> aw_track ` set (rows_of_day (dr_day r) t)"
      proof cases
        case 2
        then have "dr_day r = d" by (rule bspec [OF group_stats_keys(2)])
        moreover have "dr_key r \<in> fst ` set (map (\<lambda>r. (aw_track r, r)) (rows_of_day d t))"
          using imageI [OF 2, of dr_key] unfolding group_stats_keys(1) .
        ultimately show ?thesis by (simp add: image_image)
      qed simp
    qed
  qed (simp_all add: same_raw_def put_tracks_def)
  show "an_inv sha evs bs (put_artists d t)"
    by (rule an_inv_aggregates [OF i]) (simp_all add: same_raw_def put_artists_def)
  show "an_inv sha evs bs (put_totals d t)"
    by (rule an_inv_aggregates [OF i]) (auto simp: same_raw_def put_totals_def)
qed

lemma recompute_puts: "recompute_tracks d = stmt (\<lambda>t. Inr ((), put_tracks d t))"
  "recompute_artists d = stmt (\<lambda>t. Inr ((), put_artists d t))" "recompute_totals d = stmt (\<lambda>t. Inr ((), put_totals d t))"
  by (simp_all add: recompute_tracks_def recompute_artists_def recompute_totals_def put_tracks_def put_artists_def put_totals_def)

lemma recompute_inv:
  assumes "an_inv sha evs bs (db w)"
  shows "an_inv sha evs bs (db (snd (recompute_day d w)))"
proof -
  have k: "an_inv sha evs bs (db w2)" if "an_inv sha evs bs (db w1)" "stmt (\<lambda>t. Inr ((), f t)) w1 = (r, w2)"
    "\<And>t. an_inv sha evs bs t \<Longrightarrow> an_inv sha evs bs (f t)" for f r and w1 w2 :: an_world
    using stmt_put [OF that(2)] that(1,3) by auto
  obtain r1 w1 where a: "recompute_tracks d w = (r1, w1)" by fastforce
  have i1: "an_inv sha evs bs (db w1)" by (rule k [OF assms a [unfolded recompute_puts] put_inv(1)])
  obtain r2 w2 where b: "recompute_artists d w1 = (r2, w2)" by fastforce
  have i2: "an_inv sha evs bs (db w2)" by (rule k [OF i1 b [unfolded recompute_puts] put_inv(2)])
  obtain r3 w3 where c: "recompute_totals d w2 = (r3, w3)" by fastforce
  have i3: "an_inv sha evs bs (db w3)" by (rule k [OF i2 c [unfolded recompute_puts] put_inv(3)])
  show ?thesis using i1 i2 i3 by (cases r1; cases r2) (simp_all add: recompute_day_def bnd_def a b c)
qed

lemma recompute_Inr:
  assumes "recompute_day d w = (Inr (), w1)"
  shows "db w1 = put_totals d (put_artists d (put_tracks d (db w)))"
  using assms by (auto simp: recompute_day_def recompute_puts act_inv)

lemma recompute_raw: "raw_events (db (snd (recompute_day d w))) = raw_events (db w)"
proof -
  have k: "raw_events (db w2) = raw_events (db w1)" if "stmt (\<lambda>t. Inr ((), f t)) w1 = (r, w2)"
    "\<And>t. raw_events (f t) = raw_events t" for f r and w1 w2 :: an_world
    using stmt_put [OF that(1)] that(2) by auto
  have p: "raw_events (put_tracks d t) = raw_events t" "raw_events (put_artists d t) = raw_events t" "raw_events (put_totals d t) = raw_events t" for t
    by (simp_all add: put_tracks_def put_artists_def put_totals_def)
  obtain r1 w1 where a: "recompute_tracks d w = (r1, w1)" by fastforce
  obtain r2 w2 where b: "recompute_artists d w1 = (r2, w2)" by fastforce
  obtain r3 w3 where c: "recompute_totals d w2 = (r3, w3)" by fastforce
  note e = k [OF a [unfolded recompute_puts] p(1)] k [OF b [unfolded recompute_puts] p(2)] k [OF c [unfolded recompute_puts] p(3)]
  show ?thesis using e by (cases r1; cases r2) (simp_all add: recompute_day_def bnd_def a b c)
qed

text \<open>The aggregate of a key and a day, as a reader finds it.\<close>

definition final_stats :: "'k \<Rightarrow> int \<Rightarrow> 'k day_row list \<Rightarrow> an_stats option" where
  "final_stats k d rs = map_option dr_stats (row_with day_key (d, k) (final_rows day_key rs))"

definition an_empty :: an_db where
  "an_empty = \<lparr>raw_events = [], insert_tokens = [], track_days = [], artist_days = [], total_days = []\<rparr>"

lemma final_lookup: "row_with key k (final_rows key rs) =
   (if k \<in> key ` set rs then Some (last (filter (\<lambda>r. key r = k) rs)) else None)"
proof (induction rs rule: rev_induct)
  case (snoc r rs)
  then show ?case unfolding final_rows_append_new by auto
qed simp

lemma filter_eq_distinct: "distinct ks \<Longrightarrow> filter (\<lambda>x. x = k) ks = (if k \<in> set ks then [k] else [])"
  by (induction ks) auto

lemma group_stats_filter: "filter (\<lambda>r. day_key r = (d, k)) (group_stats d ps) =
   (if k \<in> fst ` set ps then [\<lparr>dr_day = d, dr_key = k, dr_stats = stats_of (map snd (filter (\<lambda>p. fst p = k) ps))\<rparr>] else [])"
  unfolding group_stats_def filter_map comp_def day_key_def
  by (simp add: filter_eq_distinct distinct_dedupe_from set_dedupe_from)

lemma final_stats_group: "final_stats k d (rs @ group_stats d ps) =
   (if k \<in> fst ` set ps then Some (stats_of (map snd (filter (\<lambda>p. fst p = k) ps))) else final_stats k d rs)"
proof (cases "k \<in> fst ` set ps")
  case True
  then have f: "filter (\<lambda>r. day_key r = (d, k)) (rs @ group_stats d ps) \<noteq> []" by (simp add: group_stats_filter)
  then have "(d, k) \<in> day_key ` set (rs @ group_stats d ps)" unfolding filter_empty_conv by force
  then have "final_stats k d (rs @ group_stats d ps) = Some (dr_stats (last (filter (\<lambda>r. day_key r = (d, k)) (rs @ group_stats d ps))))"
    by (simp only: final_stats_def final_lookup if_True option.map)
  then show ?thesis using True by (simp add: group_stats_filter)
next
  case False
  then have f: "filter (\<lambda>r. day_key r = (d, k)) (group_stats d ps) = []" by (simp add: group_stats_filter)
  then have "(d, k) \<notin> day_key ` set (group_stats d ps)" unfolding filter_empty_conv by auto
  then show ?thesis using False f by (simp add: final_stats_def final_lookup image_Un)
qed

lemma final_stats_totals: "final_stats () d (rs @ [\<lparr>dr_day = d, dr_key = (), dr_stats = s\<rparr>]) = Some s"
  by (simp add: final_stats_def final_rows_append_new day_key_def)

lemma final_stats_None: "\<forall>r\<in>set rs. day_key r \<noteq> (d, k) \<Longrightarrow> final_stats k d rs = None"
  by (auto simp: final_stats_def final_lookup)

lemma run_an_inv:
  assumes "an_inv sha evs bs (db w)" "set (step_batches ss) \<subseteq> set bs" "distinct (map ae_id evs)"
    "set (concat bs) \<subseteq> set evs" "inj_on sha (map ae_id ` set bs)" "run_an c sha ss w = (acc, w1)"
  shows "an_inv sha evs bs (db w1) \<and> set (raw_events (db w)) \<subseteq> set (raw_events (db w1)) \<and> list_all (stored_in (db w1)) acc"
  using assms(1,2,6)
proof (induction ss arbitrary: w acc)
  case Nil
  then show ?case by simp
next
  case (Cons st ss)
  show ?case
  proof (cases st)
    case (DoRecompute d)
    have i: "an_inv sha evs bs (db (snd (recompute_day d w)))" using Cons.prems(1) by (rule recompute_inv)
    have raw: "raw_events (db (snd (recompute_day d w))) = raw_events (db w)" by (rule recompute_raw)
    show ?thesis using Cons.IH [OF i] Cons.prems(2,3) unfolding DoRecompute raw by simp
  next
    case (DoIngest es)
    obtain r wa where a: "ingest c sha es w = (r, wa)" by fastforce
    obtain acc2 wb where b: "run_an c sha ss wa = (acc2, wb)" by fastforce
    have out: "acc = (if isl r then [] else es) @ acc2" "w1 = wb" using Cons.prems(3) a b by (auto simp: DoIngest)
    have es: "es \<in> set bs" "set es \<subseteq> set evs" using Cons.prems(2) assms(4) by (auto simp: DoIngest)
    have "an_inv sha evs bs (db wa) \<and> set (raw_events (db w)) \<subseteq> set (raw_events (db wa)) \<and>
        (isl r \<or> list_all (stored_in (db wa)) es)"
      using ingest_db [OF a]
    proof
      assume "db wa = db w \<and> (isl r \<or> es = [])"
      then show ?thesis using Cons.prems(1) by auto
    next
      assume "\<exists>f. db wa = put_block (map (\<lambda>e. enrich (f e) e) es) (dedup_token sha es) (db w)"
      then obtain f where f: "db wa = put_block (map (\<lambda>e. enrich (f e) e) es) (dedup_token sha es) (db w)" by blast
      show ?thesis using put_block_inv [OF Cons.prems(1) es assms(3,5) f] put_block_stored [OF Cons.prems(1) es(1) assms(5) f] by blast
    qed
    moreover from this have "an_inv sha evs bs (db wb) \<and> set (raw_events (db wa)) \<subseteq> set (raw_events (db wb)) \<and> list_all (stored_in (db wb)) acc2"
      using Cons.IH [of wa acc2] Cons.prems(2) b by (simp add: DoIngest out(2))
    ultimately show ?thesis unfolding out using stored_grow [of "db wa" "db wb"] by (auto simp: list_all_iff)
  qed
qed

lemma filter_bare: "filter p (map bare_event (filter q evs)) = map bare_event (filter (\<lambda>e. q e \<and> p (bare_event e)) evs)"
  by (induction evs) auto

lemma filter_map_Nil: "filter p (map f xs) = [] \<longleftrightarrow> filter (\<lambda>x. p (f x)) xs = []"
  by (induction xs) auto

lemma map_bare_event: "map bare (map row_of_event es) = map bare_event es"
  by (simp add: bare_event_def)

lemma day_stats:
  assumes "raw_of evs t" "distinct (map ae_id evs)"
  shows "stats_of (filter (\<lambda>r. p (bare r)) (rows_of_day d t)) =
     stats_of (map row_of_event (filter (\<lambda>e. stored_in t e \<and> event_day e = d \<and> p (bare_event e)) evs))"
proof -
  have "stats_of (filter (\<lambda>r. p (bare r)) (rows_of_day d t)) = stats_of (filter p (map bare (rows_of_day d t)))"
    unfolding filter_map comp_def by (simp add: stats_of_bare)
  also have "\<dots> = stats_of (filter p (map bare_event (filter (\<lambda>e. stored_in t e \<and> event_day e = d) evs)))"
    by (rule stats_of_mset) (simp only: mset_filter rows_of_day_events [OF assms])
  also have "filter p (map bare_event (filter (\<lambda>e. stored_in t e \<and> event_day e = d) evs)) =
      map bare (map row_of_event (filter (\<lambda>e. stored_in t e \<and> event_day e = d \<and> p (bare_event e)) evs))"
    unfolding filter_bare map_bare_event conj_assoc ..
  also have "stats_of \<dots> = stats_of (map row_of_event (filter (\<lambda>e. stored_in t e \<and> event_day e = d \<and> p (bare_event e)) evs))"
    by (rule stats_of_bare)
  finally show ?thesis .
qed

lemma day_events_Nil:
  assumes "raw_of evs t" "distinct (map ae_id evs)"
  shows "filter (\<lambda>e. stored_in t e \<and> event_day e = d \<and> p (bare_event e)) evs = [] \<longleftrightarrow> filter (\<lambda>r. p (bare r)) (rows_of_day d t) = []"
proof -
  have "filter p (map bare (rows_of_day d t)) = [] \<longleftrightarrow> filter p (map bare_event (filter (\<lambda>e. stored_in t e \<and> event_day e = d) evs)) = []"
  proof -
    have "mset (filter p (map bare (rows_of_day d t))) = mset (filter p (map bare_event (filter (\<lambda>e. stored_in t e \<and> event_day e = d) evs)))"
      by (simp only: mset_filter rows_of_day_events [OF assms])
    then have "length (filter p (map bare (rows_of_day d t))) = length (filter p (map bare_event (filter (\<lambda>e. stored_in t e \<and> event_day e = d) evs)))"
      by (rule mset_eq_length)
    then show ?thesis by (simp only: length_0_conv [symmetric])
  qed
  then show ?thesis unfolding filter_bare filter_map_Nil conj_assoc map_is_Nil_conv by blast
qed

lemma put_tracks_eq: "track_days (put_tracks d t) = track_days t @ group_stats d (map (\<lambda>r. (aw_track r, r)) (rows_of_day d t))"
  by (simp add: put_tracks_def)

text \<open>C36: whatever batches of playback events are ingested, retried, redelivered or lost on the way, and
  however recomputations run in between, a completed recomputation of a day leaves the totals of the
  day and the figures of every track as counted over the distinct events of that day that reached the
  warehouse: all of the accepted batches, each once, and none that was in no batch. The tokens of
  different batches differ, and an event redelivered is the event that was delivered.\<close>

theorem every_event_counts_once:
  assumes evs: "distinct (map ae_id evs)" "set (concat (step_batches ss)) \<subseteq> set evs"
    and sha: "inj_on sha (map ae_id ` set (step_batches ss))" and start: "db w = an_empty"
    and run: "run_an c sha ss w = (acc, w1)" and rec: "recompute_day d w1 = (Inr (), w2)"
  shows "\<exists>E. set acc \<subseteq> set E \<and> set E \<subseteq> set (concat (step_batches ss)) \<and> distinct (map ae_id E) \<and>
     final_stats () d (total_days (db w2)) =
       (case filter (\<lambda>e. event_day e = d) E of [] \<Rightarrow> None | es \<Rightarrow> Some (stats_of (map row_of_event es))) \<and>
     (\<forall>k. final_stats k d (track_days (db w2)) =
       (case filter (\<lambda>e. event_day e = d \<and> ae_track e = k) E of [] \<Rightarrow> None | es \<Rightarrow> Some (stats_of (map row_of_event es))))"
proof -
  let ?bs = "step_batches ss" and ?t = "db w1"
  define E where "E = filter (stored_in ?t) evs"
  have "an_inv sha evs ?bs (db w)" unfolding start
    by (simp add: an_inv_def an_empty_def raw_of_def stored_in_def)
  from run_an_inv [OF this order_refl evs sha run] have inv: "an_inv sha evs ?bs ?t" and acc: "list_all (stored_in ?t) acc" by simp_all
  have raw: "raw_of evs ?t" using inv by (simp add: an_inv_def)
  have "set acc \<subseteq> set (concat ?bs)" using run
  proof (induction ss arbitrary: w acc)
    case (Cons st ss)
    then show ?case by (cases st) (fastforce split: prod.splits if_splits)+
  qed simp
  then have accE: "set acc \<subseteq> set E" using acc evs(2) unfolding E_def list_all_iff by auto
  have only: "set E \<subseteq> set (concat ?bs)" using inv unfolding E_def an_inv_def by auto
  have dist: "distinct (map ae_id E)" using evs(1) unfolding E_def by (rule distinct_map_filter)
  have db2: "total_days (db w2) = total_days (put_totals d ?t)" "track_days (db w2) = track_days (put_tracks d ?t)"
    unfolding recompute_Inr [OF rec] by (simp_all add: put_totals_def put_artists_def put_tracks_def rows_of_day_def)
  have flt: "filter (\<lambda>e. stored_in ?t e \<and> event_day e = d \<and> p (bare_event e)) evs = filter (\<lambda>e. event_day e = d \<and> p (bare_event e)) E" for p
    unfolding E_def by simp
  have totals: "final_stats () d (total_days (db w2)) =
      (case filter (\<lambda>e. event_day e = d) E of [] \<Rightarrow> None | es \<Rightarrow> Some (stats_of (map row_of_event es)))"
  proof (cases "rows_of_day d ?t = []")
    case True
    then have "filter (\<lambda>e. event_day e = d) E = []"
      using day_events_Nil [OF raw evs(1), of d "\<lambda>_. True"] flt [of "\<lambda>_. True"] by simp
    moreover have "\<forall>r\<in>set (total_days ?t). day_key r \<noteq> (d, ())" using inv True unfolding an_inv_def day_key_def by auto
    ultimately show ?thesis using True unfolding db2 by (simp add: put_totals_def final_stats_None)
  next
    case False
    then have "filter (\<lambda>e. event_day e = d) E \<noteq> []"
      using day_events_Nil [OF raw evs(1), of d "\<lambda>_. True"] flt [of "\<lambda>_. True"] by simp
    moreover have "stats_of (rows_of_day d ?t) = stats_of (map row_of_event (filter (\<lambda>e. event_day e = d) E))"
      using day_stats [OF raw evs(1), of "\<lambda>_. True" d] flt [of "\<lambda>_. True"] by simp
    ultimately show ?thesis using False unfolding db2 by (simp add: put_totals_def final_stats_totals split: list.splits)
  qed
  have tracks: "final_stats k d (track_days (db w2)) =
      (case filter (\<lambda>e. event_day e = d \<and> ae_track e = k) E of [] \<Rightarrow> None | es \<Rightarrow> Some (stats_of (map row_of_event es)))" for k
  proof -
    have tr: "aw_track (bare_event e) = ae_track e" for e by (simp add: bare_event_def row_of_event_def)
    let ?p = "\<lambda>r. aw_track r = k"
    have nil: "filter (\<lambda>e. event_day e = d \<and> ae_track e = k) E = [] \<longleftrightarrow> filter (\<lambda>r. aw_track r = k) (rows_of_day d ?t) = []"
      using day_events_Nil [OF raw evs(1), of d ?p] flt [of ?p] by (simp add: tr)
    have st: "stats_of (filter (\<lambda>r. aw_track r = k) (rows_of_day d ?t)) = stats_of (map row_of_event (filter (\<lambda>e. event_day e = d \<and> ae_track e = k) E))"
      using day_stats [OF raw evs(1), of ?p d] flt [of ?p] by (simp add: tr)
    have mem: "k \<in> fst ` set (map (\<lambda>r. (aw_track r, r)) (rows_of_day d ?t)) \<longleftrightarrow> filter (\<lambda>r. aw_track r = k) (rows_of_day d ?t) \<noteq> []"
      by (auto simp: filter_empty_conv image_iff)
    have grp: "map snd (filter (\<lambda>p. fst p = k) (map (\<lambda>r. (aw_track r, r)) (rows_of_day d ?t))) = filter (\<lambda>r. aw_track r = k) (rows_of_day d ?t)"
      by (simp add: filter_map comp_def)
    show ?thesis
    proof (cases "filter (\<lambda>r. aw_track r = k) (rows_of_day d ?t) = []")
      case True
      then have no: "k \<notin> aw_track ` set (rows_of_day d ?t)" by (auto simp: filter_empty_conv)
      have "\<forall>r\<in>set (track_days ?t). day_key r \<noteq> (d, k)" using inv no unfolding an_inv_def day_key_def by auto
      then show ?thesis using True nil mem unfolding db2 put_tracks_eq final_stats_group by (simp add: final_stats_None)
    next
      case False
      then have "final_stats k d (track_days (db w2)) = Some (stats_of (filter (\<lambda>r. aw_track r = k) (rows_of_day d ?t)))"
        using mem grp unfolding db2 put_tracks_eq final_stats_group by simp
      moreover have "filter (\<lambda>e. event_day e = d \<and> ae_track e = k) E \<noteq> []" using nil False by simp
      ultimately show ?thesis unfolding st by (simp split: list.splits)
    qed
  qed
  show ?thesis using accE only dist totals tracks by blast
qed

section \<open>The mean of the days\<close>

lemma report_daily: "report_days from to limit w = (Inr rep, w1) \<Longrightarrow>
    ar_daily rep = mean (map (as_unique \<circ> dr_stats) (in_days from to (total_days (db w))))"
  by (auto simp: report_days_def act_inv Let_def)

text \<open>Days without plays have no row and are left out of the mean of daily active listeners: a report
  over a range in which only one day had plays gives the listeners of that day, however long the range.\<close>

theorem idle_days_are_left_out:
  assumes "report_days from to limit w = (Inr rep, w1)" "in_days from to (total_days (db w)) = [r]"
    "as_unique (dr_stats r) < 2 ^ 53"
  shows "ar_daily rep = of_nat (as_unique (dr_stats r))"
proof -
  have f: "float64 (of_nat n) = of_nat n" if "n < 2 ^ 53" for n
  proof -
    have "\<bar>int n\<bar> < 2 ^ 53" using that by (simp add: of_nat_less_numeral_power_cancel_iff)
    from float64_of_int [OF this] show ?thesis by simp
  qed
  have "float64 (of_nat 1) = 1" using f [of 1] by simp
  then show ?thesis unfolding report_daily [OF assms(1)] assms(2) using f [OF assms(3)]
    by (simp add: mean_def float_div_def)
qed

section \<open>Concrete runs\<close>

definition an_e1 :: an_event where
  "an_e1 = \<lparr>ae_id = 1, ae_type = an_started, ae_playback = 10, ae_user = 7, ae_track = 3, ae_album = 0, ae_artists = [],
     ae_source = ''album:x'', ae_duration = 1000, ae_listened = 0, ae_at = 5000000\<rparr>"

definition an_e2 :: an_event where
  "an_e2 = an_e1\<lparr>ae_id := 2, ae_type := an_skipped, ae_listened := 400, ae_at := 6000000\<rparr>"

definition an_config0 :: an_config where
  "an_config0 = \<lparr>ac_ttl = second, ac_max = 10\<rparr>"

definition an_world0 :: an_world where
  "an_world0 = \<lparr>tick = 0, fates = (\<lambda>_. Fine), clock = (\<lambda>_. 1), fresh = (\<lambda>_. None), db = an_empty, outbox = [],
     next_row = 0, ext = \<lparr>an_catalog = (\<lambda>_. Some []), an_cache = []\<rparr>\<rparr>"

definition an_sha :: "uuid list \<Rightarrow> string" where
  "an_sha us = (if length us = 2 then ''a'' else ''b'')"

definition an_steps :: "an_step list" where
  "an_steps = [DoIngest [an_e1, an_e2], DoIngest [an_e2]]"

lemma an_run: "fst (run_an an_config0 an_sha an_steps an_world0) = [an_e1, an_e2, an_e2]"
  by code_simp

lemma an_recomputed: "\<not> isl (fst (recompute_day 0 (snd (run_an an_config0 an_sha an_steps an_world0))))"
  by code_simp

theorem every_event_counts_once_witness:
  "\<exists>E w2. set E = {an_e1, an_e2} \<and> distinct (map ae_id E) \<and>
     recompute_day 0 (snd (run_an an_config0 an_sha an_steps an_world0)) = (Inr (), w2) \<and>
     final_stats () 0 (total_days (db w2)) = Some (stats_of (map row_of_event E))"
proof -
  obtain w2 where rec: "recompute_day 0 (snd (run_an an_config0 an_sha an_steps an_world0)) = (Inr (), w2)"
    using an_recomputed by (cases "recompute_day 0 (snd (run_an an_config0 an_sha an_steps an_world0))")
      (metis fst_conv old.unit.exhaust sum.collapse(2))
  have run: "run_an an_config0 an_sha an_steps an_world0 = ([an_e1, an_e2, an_e2], snd (run_an an_config0 an_sha an_steps an_world0))"
    using an_run by (metis prod.collapse)
  have ids: "distinct (map ae_id [an_e1, an_e2])" by (simp add: an_e1_def an_e2_def)
  have sub: "set (concat (step_batches an_steps)) \<subseteq> set [an_e1, an_e2]" by (auto simp: an_steps_def)
  have sha: "inj_on an_sha (map ae_id ` set (step_batches an_steps))" by (auto simp: an_steps_def an_sha_def inj_on_def)
  have w: "db an_world0 = an_empty" by (simp add: an_world0_def)
  from every_event_counts_once [OF ids sub sha w run rec] obtain E where E: "set [an_e1, an_e2, an_e2] \<subseteq> set E"
    "set E \<subseteq> set (concat (step_batches an_steps))" "distinct (map ae_id E)"
    "final_stats () 0 (total_days (db w2)) = (case filter (\<lambda>e. event_day e = 0) E of [] \<Rightarrow> None | es \<Rightarrow> Some (stats_of (map row_of_event es)))"
    by blast
  have s: "set E = {an_e1, an_e2}" using E(1,2) sub by auto
  have "event_day an_e1 = 0" "event_day an_e2 = 0" by (simp_all add: event_day_def day_number_def time_truncate_def an_e1_def an_e2_def)
  then have "filter (\<lambda>e. event_day e = 0) E = E" using s by (auto simp: filter_id_conv)
  moreover have "E \<noteq> []" using s by auto
  ultimately have "final_stats () 0 (total_days (db w2)) = Some (stats_of (map row_of_event E))"
    using E(4) by (simp split: list.splits)
  with s E(3) rec show ?thesis by blast
qed

definition one_day :: an_db where
  "one_day = an_empty\<lparr>total_days := [\<lparr>dr_day = 5, dr_key = (), dr_stats = \<lparr>as_plays = 9, as_completions = 1, as_skips = 1, as_unique = 3, as_listened = 0\<rparr>\<rparr>]\<rparr>"

theorem idle_days_are_left_out_witness:
  "\<exists>rep w1. report_days 0 9 10 (an_world0\<lparr>db := one_day\<rparr>) = (Inr rep, w1) \<and> ar_daily rep = 3"
proof -
  have "\<exists>rep w1. report_days 0 9 10 (an_world0\<lparr>db := one_day\<rparr>) = (Inr rep, w1)"
    by (simp add: report_days_def chart_def chart_rows_def bnd_def query_def stmt_def ret_def Let_def an_world0_def one_day_def an_empty_def
        in_days_def order_by_def)
  then obtain rep w1 where r: "report_days 0 9 10 (an_world0\<lparr>db := one_day\<rparr>) = (Inr rep, w1)" by blast
  have d: "in_days 0 9 (total_days (db (an_world0\<lparr>db := one_day\<rparr>))) =
      [\<lparr>dr_day = 5, dr_key = (), dr_stats = \<lparr>as_plays = 9, as_completions = 1, as_skips = 1, as_unique = 3, as_listened = 0\<rparr>\<rparr>]"
    by (simp add: in_days_def one_day_def)
  from idle_days_are_left_out [OF r d] r show ?thesis by simp
qed

end
