(* ===== verification/Search.thy ===== *)
theory Search
  imports Bff "HOL-Library.Multiset"
begin

text \<open>
  The Search Service (\<^verbatim>\<open>services/search\<close>): queries, the requests it sends to OpenSearch, what it
  makes of the answers, and its routes. What the engine answers and how it decodes are
  parameters (\<open>search_deps\<close>), as are Unicode lowering and folding; an answer is a function of the
  request within one call of the service. Of a document only the fields the service reads are
  kept. Cover URLs, which are never set, are left out of the views.
\<close>

section \<open>Requests to the engine\<close>

datatype json = JText string | JNum rat | JBool bool | JList "json list" | JObj "(string \<times> json) list"

record schema =
  sc_alias :: string
  sc_primary :: string
  sc_secondary :: "string list"
  sc_recency :: string

definition schema_tracks :: schema where
  "schema_tracks = \<lparr>sc_alias = AliasTracks, sc_primary = ''title'', sc_secondary = [''artistNames'', ''albumTitle''],
     sc_recency = ''releaseDate''\<rparr>"

definition schema_artists :: schema where
  "schema_artists = \<lparr>sc_alias = AliasArtists, sc_primary = ''name'', sc_secondary = [], sc_recency = ''updatedAt''\<rparr>"

definition schema_albums :: schema where
  "schema_albums = \<lparr>sc_alias = AliasAlbums, sc_primary = ''title'', sc_secondary = [''artistNames''],
     sc_recency = ''releaseDate''\<rparr>"

definition schema_playlists :: schema where
  "schema_playlists = \<lparr>sc_alias = AliasPlaylists, sc_primary = ''title'', sc_secondary = [''ownerName''],
     sc_recency = ''updatedAt''\<rparr>"

record doc_track =
  qt_id :: string
  qt_title :: string
  qt_names :: "string list"
  qt_album :: string
  qt_album_title :: string
  qt_ms :: "64 word"
  qt_explicit :: bool
  qt_available :: bool

record doc_artist =
  qr_id :: string
  qr_name :: string
  qr_verified :: bool

record doc_album =
  ql_id :: string
  ql_title :: string
  ql_type :: string
  ql_names :: "string list"
  ql_release :: string

record doc_playlist =
  qp_id :: string
  qp_title :: string
  qp_owner :: string
  qp_count :: int

text \<open>One answer of a multi-search: an error, or the total and the hits, each a source with its score.\<close>

datatype 's query_answer = QueryFailed | QueryHits int "('s \<times> rat) list"

text \<open>One word of the text as the term suggester saw it: offset, length and the options for it.\<close>

type_synonym fix_entry = "nat \<times> nat \<times> string list"

record 's search_deps =
  search_lower :: "string \<Rightarrow> string"
  equal_fold :: "string \<Rightarrow> string \<Rightarrow> bool"
  engine_prefix :: string
  ask_msearch :: "(string \<times> json) list \<Rightarrow> 's query_answer list option"
  ask_fix :: "string \<Rightarrow> json \<Rightarrow> fix_entry list option"
  as_track :: "'s \<Rightarrow> doc_track option"
  as_artist :: "'s \<Rightarrow> doc_artist option"
  as_album :: "'s \<Rightarrow> doc_album option"
  as_playlist :: "'s \<Rightarrow> doc_playlist option"

definition query_of :: "'s search_deps \<Rightarrow> schema \<Rightarrow> string \<Rightarrow> json" where
  "query_of k s q =
     (let fields = map JText ((sc_primary s @ ''^3'') # sc_secondary s);
          auto_fields = map JText ((sc_primary s @ ''.autocomplete^2'') # map (\<lambda>f. f @ ''.autocomplete'') (sc_secondary s));
          lowered = JText (search_lower k q);
          matching = JObj [(''bool'', JObj
            [(''should'', JList
               [JObj [(''multi_match'', JObj [(''query'', JText q), (''fields'', JList fields),
                  (''type'', JText ''cross_fields''), (''operator'', JText ''and'')])],
                JObj [(''multi_match'', JObj [(''query'', JText q), (''fields'', JList fields),
                  (''fuzziness'', JText ''AUTO''), (''prefix_length'', JNum 1), (''operator'', JText ''and'')])],
                JObj [(''multi_match'', JObj [(''query'', JText q), (''fields'', JList auto_fields),
                  (''type'', JText ''cross_fields''), (''operator'', JText ''and''), (''boost'', JNum (1 / 2))])]]),
             (''minimum_should_match'', JNum 1)])];
          boosts = JList
            [JObj [(''term'', JObj [(sc_primary s @ ''.keyword'', JObj [(''value'', lowered), (''boost'', JNum 10)])])],
             JObj [(''prefix'', JObj [(sc_primary s @ ''.keyword'', JObj [(''value'', lowered), (''boost'', JNum 4)])])],
             JObj [(''match_phrase'', JObj [(sc_primary s, JObj [(''query'', JText q), (''boost'', JNum 2)])])]] in
      JObj [(''function_score'', JObj
        [(''query'', JObj [(''bool'', JObj [(''must'', matching), (''should'', boosts)])]),
         (''functions'', JList
           [JObj [(''field_value_factor'', JObj [(''field'', JText ''popularity''), (''modifier'', JText ''log2p''),
              (''missing'', JNum 0)])],
            JObj [(''gauss'', JObj [(sc_recency s, JObj [(''origin'', JText ''now''), (''offset'', JText ''30d''),
              (''scale'', JText ''365d''), (''decay'', JNum (1 / 2))])]), (''weight'', JNum (1 / 4))]]),
         (''score_mode'', JText ''sum''), (''boost_mode'', JText ''multiply'')])])"

datatype search_error = InvalidQuery | EngineFailed

fun answered :: "'s query_answer list \<Rightarrow> search_error + (int \<times> ('s \<times> rat) list) list" where
  "answered [] = Inr []"
| "answered (QueryFailed # xs) = Inl EngineFailed"
| "answered (QueryHits n hs # xs) = (case answered xs of Inl e \<Rightarrow> Inl e | Inr rs \<Rightarrow> Inr ((n, hs) # rs))"

definition msearch :: "'s search_deps \<Rightarrow> json list \<Rightarrow> schema list \<Rightarrow> search_error + (int \<times> ('s \<times> rat) list) list" where
  "msearch k bodies targets =
     (case ask_msearch k (zip (map (\<lambda>s. engine_prefix k @ sc_alias s) targets) bodies) of
        None \<Rightarrow> Inl EngineFailed
      | Some xs \<Rightarrow> if length xs \<noteq> length targets then Inl EngineFailed else answered xs)"

fun decode_hits :: "('s \<Rightarrow> 'd option) \<Rightarrow> ('s \<times> rat) list \<Rightarrow> search_error + ('d \<times> rat) list" where
  "decode_hits f [] = Inr []"
| "decode_hits f ((x, score) # hs) =
     (case f x of
        None \<Rightarrow> Inl EngineFailed
      | Some d \<Rightarrow> (case decode_hits f hs of Inl e \<Rightarrow> Inl e | Inr ds \<Rightarrow> Inr ((d, score) # ds)))"

section \<open>Pages of hits\<close>

record page_sizes =
  sz_tracks :: int
  sz_artists :: int
  sz_albums :: int
  sz_playlists :: int

record hit_page =
  hg_tracks :: "(doc_track \<times> rat) list"
  hg_artists :: "(doc_artist \<times> rat) list"
  hg_albums :: "(doc_album \<times> rat) list"
  hg_playlists :: "(doc_playlist \<times> rat) list"
  hg_counts :: page_sizes

definition total_matches :: "page_sizes \<Rightarrow> int" where
  "total_matches c = sz_tracks c + sz_artists c + sz_albums c + sz_playlists c"

definition search_body :: "'s search_deps \<Rightarrow> string \<Rightarrow> schema \<Rightarrow> int \<Rightarrow> json" where
  "search_body k q s n = JObj [(''query'', query_of k s q), (''size'', JNum (of_int n)), (''track_total_hits'', JBool True)]"

definition engine_search :: "'s search_deps \<Rightarrow> string \<Rightarrow> page_sizes \<Rightarrow> search_error + hit_page" where
  "engine_search k q z =
     (case msearch k [search_body k q schema_tracks (sz_tracks z), search_body k q schema_artists (sz_artists z),
          search_body k q schema_albums (sz_albums z), search_body k q schema_playlists (sz_playlists z)]
        [schema_tracks, schema_artists, schema_albums, schema_playlists] of
        Inl e \<Rightarrow> Inl e
      | Inr rs \<Rightarrow>
          (case (decode_hits (as_track k) (snd (rs ! 0)), decode_hits (as_artist k) (snd (rs ! 1)),
              decode_hits (as_album k) (snd (rs ! 2)), decode_hits (as_playlist k) (snd (rs ! 3))) of
             (Inr ts, Inr rs', Inr ls, Inr ps) \<Rightarrow> Inr \<lparr>hg_tracks = ts, hg_artists = rs', hg_albums = ls, hg_playlists = ps,
               hg_counts = \<lparr>sz_tracks = fst (rs ! 0), sz_artists = fst (rs ! 1), sz_albums = fst (rs ! 2), sz_playlists = fst (rs ! 3)\<rparr>\<rparr>
           | _ \<Rightarrow> Inl EngineFailed))"

section \<open>Autocomplete\<close>

record suggestion =
  su_kind :: string
  su_id :: string
  su_text :: string
  su_subtitle :: string
  su_score :: rat

definition suggest_body :: "'s search_deps \<Rightarrow> string \<Rightarrow> int \<Rightarrow> schema \<Rightarrow> json" where
  "suggest_body k q n s = JObj
     [(''size'', JNum (of_int n)),
      (''query'', JObj [(''function_score'', JObj
        [(''query'', JObj [(''bool'', JObj
           [(''must'', JObj [(''match'', JObj [(sc_primary s @ ''.autocomplete'',
               JObj [(''query'', JText q), (''operator'', JText ''and'')])])]),
            (''should'', JObj [(''prefix'', JObj [(sc_primary s @ ''.keyword'',
               JObj [(''value'', JText (search_lower k q)), (''boost'', JNum 3)])])])])]),
         (''field_value_factor'', JObj [(''field'', JText ''popularity''), (''modifier'', JText ''log2p''),
            (''missing'', JNum 0)]),
         (''boost_mode'', JText ''multiply'')])])]"

definition of_artist :: "doc_artist \<times> rat \<Rightarrow> suggestion" where
  "of_artist h = \<lparr>su_kind = ''artist'', su_id = qr_id (fst h), su_text = qr_name (fst h), su_subtitle = ''Artist'', su_score = snd h\<rparr>"

definition of_album :: "doc_album \<times> rat \<Rightarrow> suggestion" where
  "of_album h = \<lparr>su_kind = ''album'', su_id = ql_id (fst h), su_text = ql_title (fst h),
     su_subtitle = join '', '' (ql_names (fst h)), su_score = snd h\<rparr>"

definition of_track :: "doc_track \<times> rat \<Rightarrow> suggestion" where
  "of_track h = \<lparr>su_kind = ''track'', su_id = qt_id (fst h), su_text = qt_title (fst h),
     su_subtitle = join '', '' (qt_names (fst h)), su_score = snd h\<rparr>"

definition of_playlist :: "doc_playlist \<times> rat \<Rightarrow> suggestion" where
  "of_playlist h = \<lparr>su_kind = ''playlist'', su_id = qp_id (fst h), su_text = qp_title (fst h),
     su_subtitle = qp_owner (fst h), su_score = snd h\<rparr>"

text \<open>All hits in the order artists, albums, tracks, playlists.\<close>

definition suggest_hits :: "'s search_deps \<Rightarrow> string \<Rightarrow> int \<Rightarrow> search_error + suggestion list" where
  "suggest_hits k q n =
     (let targets = [schema_artists, schema_albums, schema_tracks, schema_playlists] in
      case msearch k (map (suggest_body k q n) targets) targets of
        Inl e \<Rightarrow> Inl e
      | Inr rs \<Rightarrow>
          (case (decode_hits (as_artist k) (snd (rs ! 0)), decode_hits (as_album k) (snd (rs ! 1)),
              decode_hits (as_track k) (snd (rs ! 2)), decode_hits (as_playlist k) (snd (rs ! 3))) of
             (Inr rs', Inr ls, Inr ts, Inr ps) \<Rightarrow>
               Inr (map of_artist rs' @ map of_album ls @ map of_track ts @ map of_playlist ps)
           | _ \<Rightarrow> Inl EngineFailed))"

text \<open>\<open>slices.SortStableFunc\<close> by score, highest first; scores are numbers, never NaN.\<close>

definition best_first :: "suggestion list \<Rightarrow> suggestion list" where
  "best_first xs = sort_key (\<lambda>s. - su_score s) xs"

definition engine_suggest :: "'s search_deps \<Rightarrow> string \<Rightarrow> int \<Rightarrow> search_error + suggestion list" where
  "engine_suggest k q n = (case suggest_hits k q n of Inl e \<Rightarrow> Inl e | Inr xs \<Rightarrow> Inr (take (nat n) (best_first xs)))"

section \<open>Spelling\<close>

text \<open>\<open>[]rune(q)\<close>, each rune by its encoding: an ill-formed byte becomes U+FFFD.\<close>

definition rune_text :: "string \<Rightarrow> string" where
  "rune_text c = (if length c = 1 \<and> 128 \<le> byte (hd c) then [CHR 0xEF, CHR 0xBF, CHR 0xBD] else c)"

definition runes :: "string \<Rightarrow> string list" where
  "runes q = map rune_text (chunks q)"

text \<open>The loop over the entries: what was written, up to which rune, and whether a word changed.\<close>

fun splice :: "string list \<Rightarrow> nat \<Rightarrow> fix_entry list \<Rightarrow> string \<times> nat \<times> bool" where
  "splice rs pos [] = ([], pos, False)"
| "splice rs pos ((off, len, options) # es) =
     (if off < pos \<or> length rs < off + len then splice rs pos es
      else let (written, last_pos, changed) = splice rs (off + len) es in
        (concat (drop pos (take off rs)) @
           (case options of w # _ \<Rightarrow> w | [] \<Rightarrow> concat (take len (drop off rs))) @ written,
         last_pos, options \<noteq> [] \<or> changed))"

definition fix_body :: "string \<Rightarrow> json" where
  "fix_body q = JObj
     [(''size'', JNum 0),
      (''suggest'', JObj
        [(''text'', JText q),
         (''fix'', JObj [(''term'', JObj [(''field'', JText ''suggest''), (''suggest_mode'', JText ''missing''),
            (''min_word_length'', JNum 3), (''sort'', JText ''score'')])])])]"

definition fix_path :: "'s search_deps \<Rightarrow> string" where
  "fix_path k = ''/'' @ join '','' (map (\<lambda>a. engine_prefix k @ a) Aliases) @ ''/_search''"

definition correct :: "'s search_deps \<Rightarrow> string \<Rightarrow> search_error + string" where
  "correct k q =
     (case ask_fix k (fix_path k) (fix_body q) of
        None \<Rightarrow> Inl EngineFailed
      | Some es \<Rightarrow>
          (case splice (runes q) 0 es of (written, pos, changed) \<Rightarrow>
             Inr (if changed then written @ concat (drop pos (runes q)) else [])))"

section \<open>The use cases\<close>

datatype search_type = TypeAll | TypeTracks | TypeArtists | TypeAlbums | TypePlaylists

definition parse_type :: "string \<Rightarrow> search_type option" where
  "parse_type s =
     (if s = '''' \<or> s = ''all'' then Some TypeAll else if s = ''tracks'' then Some TypeTracks
      else if s = ''artists'' then Some TypeArtists else if s = ''albums'' then Some TypeAlbums
      else if s = ''playlists'' then Some TypePlaylists else None)"

abbreviation MaxQueryLength :: nat where "MaxQueryLength \<equiv> 200"
abbreviation MaxHits :: int where "MaxHits \<equiv> 50"

definition normalize_query :: "string \<Rightarrow> string option" where
  "normalize_query q0 =
     (let q = join '' '' (split_fields q0) in if q = [] \<or> MaxQueryLength < rune_count q then None else Some q)"

fun sizes_for :: "search_type \<Rightarrow> int \<Rightarrow> page_sizes" where
  "sizes_for TypeAll n = \<lparr>sz_tracks = min 4 n, sz_artists = min 6 n, sz_albums = min 6 n, sz_playlists = min 6 n\<rparr>"
| "sizes_for TypeTracks n = \<lparr>sz_tracks = n, sz_artists = 0, sz_albums = 0, sz_playlists = 0\<rparr>"
| "sizes_for TypeArtists n = \<lparr>sz_tracks = 0, sz_artists = n, sz_albums = 0, sz_playlists = 0\<rparr>"
| "sizes_for TypeAlbums n = \<lparr>sz_tracks = 0, sz_artists = 0, sz_albums = n, sz_playlists = 0\<rparr>"
| "sizes_for TypePlaylists n = \<lparr>sz_tracks = 0, sz_artists = 0, sz_albums = 0, sz_playlists = n\<rparr>"

datatype top_kind = NoTop | TopArtist | TopAlbum | TopPlaylist

definition better :: "(rat \<times> top_kind) \<Rightarrow> ('d \<times> rat) list \<Rightarrow> top_kind \<Rightarrow> rat \<times> top_kind" where
  "better best hs t = (case hs of (d, score) # _ \<Rightarrow> if fst best < score then (score, t) else best | [] \<Rightarrow> best)"

definition strong_match :: "'s search_deps \<Rightarrow> string \<Rightarrow> string \<Rightarrow> bool" where
  "strong_match k q s = (take (length (search_lower k q)) (search_lower k s) = search_lower k q)"

definition top_result :: "'s search_deps \<Rightarrow> string \<Rightarrow> hit_page \<Rightarrow> top_kind" where
  "top_result k q p =
     (if hg_artists p \<noteq> [] \<and> strong_match k q (qr_name (fst (hd (hg_artists p)))) then TopArtist
      else if hg_albums p \<noteq> [] \<and> strong_match k q (ql_title (fst (hd (hg_albums p)))) then TopAlbum
      else snd (better (better (better (- 1, NoTop) (hg_artists p) TopArtist) (hg_albums p) TopAlbum) (hg_playlists p) TopPlaylist))"

record search_result =
  rs_query :: string
  rs_type :: search_type
  rs_page :: hit_page
  rs_top :: top_kind
  rs_fix :: string

definition search_hits :: "'s search_deps \<Rightarrow> string \<Rightarrow> search_type \<Rightarrow> int \<Rightarrow> search_error + search_result" where
  "search_hits k raw t limit =
     (case normalize_query raw of
        None \<Rightarrow> Inl InvalidQuery
      | Some q \<Rightarrow>
          (case engine_search k q (sizes_for t (max 1 (min limit MaxHits))) of
             Inl e \<Rightarrow> Inl e
           | Inr p \<Rightarrow> Inr \<lparr>rs_query = q, rs_type = t, rs_page = p,
               rs_top = (if t = TypeAll then top_result k q p else NoTop),
               rs_fix = (if total_matches (hg_counts p) = 0
                 then (case correct k q of Inr c \<Rightarrow> if equal_fold k c q then [] else c | Inl e \<Rightarrow> [])
                 else [])\<rparr>))"

definition suggest_for :: "'s search_deps \<Rightarrow> string \<Rightarrow> int \<Rightarrow> search_error + suggestion list" where
  "suggest_for k raw limit =
     (case normalize_query raw of None \<Rightarrow> Inl InvalidQuery | Some q \<Rightarrow> engine_suggest k q (max 1 (min limit 20)))"

section \<open>Views and routes\<close>

record album_result =
  lv_id :: string
  lv_title :: string
  lv_artist :: string
  lv_year :: "int option"
  lv_type :: string
  lv_art :: nat

record artist_result =
  rv_id :: string
  rv_name :: string
  rv_art :: nat

record playlist_result =
  pv_id :: string
  pv_title :: string
  pv_owner :: string
  pv_count :: int
  pv_art :: nat

datatype top_view = ArtistView artist_result bool | AlbumView album_result | PlaylistView playlist_result

record search_response =
  sv_query :: string
  sv_type :: search_type
  sv_counts :: page_sizes
  sv_top :: "top_view option"
  sv_tracks :: "track_line list"
  sv_artists :: "artist_result list"
  sv_albums :: "album_result list"
  sv_playlists :: "playlist_result list"
  sv_fix :: "string option"

definition search_art :: "string \<Rightarrow> nat" where
  "search_art i = unat (fnv32a i mod 8)"

definition release_year :: "string \<Rightarrow> int option" where
  "release_year d = (if length d < 4 then None else atoi (take 4 d))"

definition whole_seconds :: "64 word \<Rightarrow> int" where
  "whole_seconds ms = \<lfloor>float_round (float_div (float64 (of_int (sint ms))) 1000)\<rfloor>"

definition found_track :: "doc_track \<Rightarrow> track_line" where
  "found_track t = \<lparr>bv_id = qt_id t, bv_title = qt_title t, bv_artist = join '', '' (qt_names t), bv_album = qt_album t,
     bv_album_title = qt_album_title t, bv_seconds = whole_seconds (qt_ms t), bv_explicit = qt_explicit t,
     bv_art = search_art (qt_album t), bv_liked = False, bv_available = qt_available t\<rparr>"

definition found_artist :: "doc_artist \<Rightarrow> artist_result" where
  "found_artist a = \<lparr>rv_id = qr_id a, rv_name = qr_name a, rv_art = search_art (qr_id a)\<rparr>"

definition found_album :: "doc_album \<Rightarrow> album_result" where
  "found_album a = \<lparr>lv_id = ql_id a, lv_title = ql_title a, lv_artist = join '', '' (ql_names a),
     lv_year = release_year (ql_release a), lv_type = ql_type a, lv_art = search_art (ql_id a)\<rparr>"

definition found_playlist :: "doc_playlist \<Rightarrow> playlist_result" where
  "found_playlist p = \<lparr>pv_id = qp_id p, pv_title = qp_title p, pv_owner = qp_owner p, pv_count = qp_count p,
     pv_art = search_art (qp_id p)\<rparr>"

text \<open>\<open>p.Artists[0]\<close> and the like: with nothing there the handler would panic, which is \<open>None\<close>.\<close>

definition first_of :: "('d \<times> rat) list \<Rightarrow> 'd option" where
  "first_of hs = (case hs of [] \<Rightarrow> None | (d, s) # _ \<Rightarrow> Some d)"

fun top_of :: "top_kind \<Rightarrow> hit_page \<Rightarrow> top_view option option" where
  "top_of NoTop p = Some None"
| "top_of TopArtist p = map_option (\<lambda>a. Some (ArtistView (found_artist a) (qr_verified a))) (first_of (hg_artists p))"
| "top_of TopAlbum p = map_option (\<lambda>a. Some (AlbumView (found_album a))) (first_of (hg_albums p))"
| "top_of TopPlaylist p = map_option (\<lambda>a. Some (PlaylistView (found_playlist a))) (first_of (hg_playlists p))"

definition to_response :: "search_result \<Rightarrow> search_response option" where
  "to_response r = map_option (\<lambda>top.
     \<lparr>sv_query = rs_query r, sv_type = rs_type r, sv_counts = hg_counts (rs_page r), sv_top = top,
      sv_tracks = map (found_track \<circ> fst) (hg_tracks (rs_page r)),
      sv_artists = map (found_artist \<circ> fst) (hg_artists (rs_page r)),
      sv_albums = map (found_album \<circ> fst) (hg_albums (rs_page r)),
      sv_playlists = map (found_playlist \<circ> fst) (hg_playlists (rs_page r)),
      sv_fix = (if rs_fix r = [] then None else Some (rs_fix r))\<rparr>) (top_of (rs_top r) (rs_page r))"

text \<open>\<open>limitParam\<close>: its number counts only when no field is refused.\<close>

definition hits_limit :: "string \<Rightarrow> int \<Rightarrow> fields \<Rightarrow> int \<times> fields" where
  "hits_limit raw dflt fs =
     (if raw = '''' then (dflt, fs)
      else case atoi raw of
          None \<Rightarrow> (0, set_field ''limit'' ''must be a positive integer'' fs)
        | Some n \<Rightarrow> (n, require (1 \<le> n) ''limit'' ''must be a positive integer'' fs))"

fun search_fail :: "search_error \<Rightarrow> 'b response" where
  "search_fail InvalidQuery = Problem 422 CodeValidation [(''q'', ''must be 1-200 characters'')]"
| "search_fail EngineFailed = Problem 503 CodeUnavailable []"

text \<open>The routes; \<open>None\<close> would be a panic.\<close>

definition search_route :: "'s search_deps \<Rightarrow> string \<Rightarrow> string \<Rightarrow> string \<Rightarrow> search_response response option" where
  "search_route k q raw_type raw_limit =
     (let t = parse_type raw_type;
          (n, fs) = hits_limit raw_limit 20 (require (t \<noteq> None) ''type'' ''must be one of all, tracks, artists, albums, playlists'' []) in
      if fs \<noteq> [] then Some (Problem 422 CodeValidation fs)
      else case search_hits k q (the t) n of
          Inl e \<Rightarrow> Some (search_fail e)
        | Inr r \<Rightarrow> map_option (Reply 200) (to_response r))"

definition suggest_route :: "'s search_deps \<Rightarrow> string \<Rightarrow> string \<Rightarrow> (string \<times> (string \<times> string \<times> string \<times> string) list) response" where
  "suggest_route k q raw_limit =
     (case hits_limit raw_limit 8 [] of (n, fs) \<Rightarrow>
        if fs \<noteq> [] then Problem 422 CodeValidation fs
        else case suggest_for k q n of
            Inl e \<Rightarrow> search_fail e
          | Inr xs \<Rightarrow> Reply 200 (q, map (\<lambda>s. (su_kind s, su_id s, su_text s, su_subtitle s)) xs))"

section \<open>What a search answers\<close>

lemma better_cases: "better best hs t = best \<or> snd (better best hs t) = t \<and> hs \<noteq> []"
  by (auto simp: better_def split: list.splits prod.splits)

lemma top_result_shown:
  "top_result k q p = TopArtist \<Longrightarrow> hg_artists p \<noteq> []"
  "top_result k q p = TopAlbum \<Longrightarrow> hg_albums p \<noteq> []"
  "top_result k q p = TopPlaylist \<Longrightarrow> hg_playlists p \<noteq> []"
  using better_cases [of "(- 1, NoTop)" "hg_artists p" TopArtist]
    better_cases [of "better (- 1, NoTop) (hg_artists p) TopArtist" "hg_albums p" TopAlbum]
    better_cases [of "better (better (- 1, NoTop) (hg_artists p) TopArtist) (hg_albums p) TopAlbum" "hg_playlists p" TopPlaylist]
  by (auto simp: top_result_def split: if_splits)

lemma first_of_Cons: "hs \<noteq> [] \<Longrightarrow> first_of hs \<noteq> None"
  by (cases hs) (auto simp: first_of_def)

lemma top_of_result: "top_of (top_result k q p) p \<noteq> None"
  by (cases "top_result k q p") (auto dest: top_result_shown first_of_Cons)

lemma search_hits_top:
  assumes "search_hits k q t n = Inr r"
  shows "top_of (rs_top r) (rs_page r) \<noteq> None"
proof -
  have "rs_top r = NoTop \<or> (\<exists>q'. rs_top r = top_result k q' (rs_page r))"
    using assms by (auto simp: search_hits_def split: option.splits sum.splits if_splits)
  then show ?thesis using top_of_result by (elim disjE exE) simp_all
qed

text \<open>Every request of a search gets an answer: the handler never indexes past the hits.\<close>

theorem search_never_panics: "search_route k q raw_type raw_limit \<noteq> None"
proof -
  have ok: "\<exists>v. to_response r = Some v" if "search_hits k q t n = Inr r" for t n r
    using search_hits_top [OF that] by (cases "top_of (rs_top r) (rs_page r)") (simp_all add: to_response_def)
  have "(case X of (n, fs) \<Rightarrow> if fs \<noteq> [] then Some (Problem 422 CodeValidation fs)
      else case search_hits k q t n of Inl e \<Rightarrow> Some (search_fail e) | Inr r \<Rightarrow> map_option (Reply 200) (to_response r)) \<noteq> None" for X t
  proof (cases "search_hits k q t (fst X)")
    case (Inl e)
    then show ?thesis by (cases X) simp
  next
    case (Inr r)
    then show ?thesis using ok [OF Inr] by (cases X) auto
  qed
  then show ?thesis unfolding search_route_def Let_def .
qed

text \<open>The engine is asked for at most fifty hits of a kind, and for at least one of some kind.\<close>

lemma sizes_bounded:
  assumes "z = sizes_for t (max 1 (min n MaxHits))" "m \<in> {sz_tracks z, sz_artists z, sz_albums z, sz_playlists z}"
  shows "0 \<le> m \<and> m \<le> 50"
  using assms by (cases t) auto

text \<open>A correction is offered only where nothing matched, and it differs from the query.\<close>

lemma search_correction:
  assumes "search_hits k raw t n = Inr r" "rs_fix r \<noteq> []"
  shows "total_matches (hg_counts (rs_page r)) = 0 \<and> correct k (rs_query r) = Inr (rs_fix r) \<and> \<not> equal_fold k (rs_fix r) (rs_query r)"
  using assms by (auto simp: search_hits_def split: option.splits sum.splits if_splits)
subsection \<open>Autocomplete\<close>

lemma sorted_best_first: "sorted_wrt (\<lambda>a b. su_score b \<le> su_score a) (best_first xs)"
proof -
  have "sorted (map (\<lambda>s. - su_score s) (best_first xs))" by (simp add: best_first_def)
  then show ?thesis by (simp add: sorted_map)
qed

lemma mset_best_first [simp]: "mset (best_first xs) = mset xs"
  by (simp add: best_first_def)

text \<open>An answered autocomplete lists the best hits: at most twenty, best first, and no hit that is
  left out scores higher than one that is shown.\<close>

theorem suggestions_are_best:
  assumes "suggest_for k raw n = Inr xs"
  shows "\<exists>q hits left_out. normalize_query raw = Some q \<and> suggest_hits k q (max 1 (min n 20)) = Inr hits \<and>
     mset hits = mset xs + mset left_out \<and> length xs = min (nat (max 1 (min n 20))) (length hits) \<and>
     sorted_wrt (\<lambda>a b. su_score b \<le> su_score a) (xs @ left_out)"
proof -
  let ?n = "max 1 (min n 20)"
  obtain q hits where q: "normalize_query raw = Some q" "suggest_hits k q ?n = Inr hits"
    and xs: "xs = take (nat ?n) (best_first hits)"
    using assms by (auto simp: suggest_for_def engine_suggest_def split: option.splits sum.splits)
  let ?out = "drop (nat ?n) (best_first hits)"
  have split: "xs @ ?out = best_first hits" by (simp add: xs)
  then have "mset hits = mset xs + mset ?out" by (metis mset_append mset_best_first)
  moreover have "length xs = min (nat ?n) (length hits)"
    using mset_eq_length [OF mset_best_first, of hits] by (simp add: xs min.commute)
  ultimately show ?thesis using q split sorted_best_first by metis
qed

subsection \<open>Spelling\<close>

text \<open>
  A text as the suggester sees it: gaps and words with their options. It counts offsets in
  UTF-16 code units, two for a rune outside the Basic Multilingual Plane.
\<close>

datatype piece = Gap "string list" | Word "string list" "string list"

fun piece_runes :: "piece \<Rightarrow> string list" where
  "piece_runes (Gap g) = g"
| "piece_runes (Word w options) = w"

fun corrected :: "piece \<Rightarrow> string" where
  "corrected (Gap g) = concat g"
| "corrected (Word w options) = (case options of [] \<Rightarrow> concat w | v # _ \<Rightarrow> v)"

fun has_option :: "piece \<Rightarrow> bool" where
  "has_option (Gap g) = False"
| "has_option (Word w options) = (options \<noteq> [])"

definition utf16_units :: "string list \<Rightarrow> nat" where
  "utf16_units rs = (\<Sum>c\<leftarrow>rs. if length c = 4 then 2 else 1)"

fun entries_of :: "nat \<Rightarrow> piece list \<Rightarrow> fix_entry list" where
  "entries_of n [] = []"
| "entries_of n (Gap g # ps) = entries_of (n + utf16_units g) ps"
| "entries_of n (Word w options # ps) = (n, utf16_units w, options) # entries_of (n + utf16_units w) ps"

lemma utf16_units_bmp: "\<forall>c\<in>set rs. length c \<noteq> 4 \<Longrightarrow> utf16_units rs = length rs"
  by (induction rs) (simp_all add: utf16_units_def)

lemma splice_pieces:
  assumes "rs = front @ g @ concat (map piece_runes ps)" "\<forall>c\<in>set rs. length c \<noteq> 4"
  shows "case splice rs (length front) (entries_of (length front + length g) ps) of (written, pos, changed) \<Rightarrow>
     written @ concat (drop pos rs) = concat g @ concat (map corrected ps) \<and> changed = list_ex has_option ps"
  using assms
proof (induction ps arbitrary: front g)
  case Nil
  then show ?case by simp
next
  case (Cons p ps)
  show ?case
  proof (cases p)
    case (Gap h)
    then have "utf16_units h = length h" using Cons.prems by (intro utf16_units_bmp) auto
    then show ?thesis using Cons.IH [of front "g @ h"] Cons.prems Gap by (simp add: add.assoc)
  next
    case (Word w options)
    then have "utf16_units w = length w" using Cons.prems by (intro utf16_units_bmp) auto
    moreover have "length (front @ g @ w) \<le> length rs" using Cons.prems Word by simp
    ultimately show ?thesis using Cons.IH [of "front @ g @ w" "[]"] Cons.prems Word
      by (auto simp: add.assoc split: prod.splits list.splits)
  qed
qed

text \<open>C37: for a query within the Basic Multilingual Plane the suggested spelling is the query with
  each word replaced by the suggester's first option, and nothing else changed; without an
  option for any word there is no suggestion.\<close>

theorem words_are_corrected:
  assumes "ask_fix k (fix_path k) (fix_body q) = Some (entries_of 0 ps)"
    and "runes q = concat (map piece_runes ps)" "\<forall>c\<in>set (runes q). length c \<noteq> 4"
  shows "correct k q = Inr (if list_ex has_option ps then concat (map corrected ps) else [])"
  using splice_pieces [of "runes q" "[]" "[]" ps] assms by (auto simp: correct_def split: prod.splits)

text \<open>Behind a rune outside the Basic Multilingual Plane the offsets are one too high, and the
  suggested spelling keeps the first letter of the wrong word and loses what follows the word.\<close>

theorem correction_garbled_beyond_bmp:
  assumes "ask_fix k (fix_path k) (fix_body q) = Some (entries_of 0 [Gap [c, b], Word (a # w) (v # vs), Gap (r # rs)])"
    and "runes q = [c, b] @ (a # w) @ r # rs" "length c = 4" "\<forall>x\<in>set (b # a # w). length x \<noteq> 4"
  shows "correct k q = Inr (c @ b @ a @ v @ concat rs)"
proof -
  have units: "utf16_units [c, b] = 3" "utf16_units (a # w) = Suc (length w)"
    using assms(3,4) utf16_units_bmp [of "a # w"] by (simp_all add: utf16_units_def)
  have rs: "drop (Suc (Suc (Suc (Suc (length w))))) (runes q) = rs" using assms(2) by simp
  have sp: "splice (runes q) 0 [(3, Suc (length w), v # vs)] = (c @ b @ a @ v, Suc (Suc (Suc (Suc (length w)))), True)"
    using assms(2) by (simp add: numeral_3_eq_3)
  have e: "entries_of 0 [Gap [c, b], Word (a # w) (v # vs), Gap (r # rs)] = [(3, Suc (length w), v # vs)]"
    by (simp add: units)
  show ?thesis unfolding correct_def assms(1) e option.case sp prod.case if_True rs by simp
qed

subsection \<open>The same row as on a page\<close>

lemma whole_seconds_ms:
  assumes "0 \<le> sint ms" "sint ms < 2 ^ 50"
  shows "whole_seconds ms = (sint ms + 500) div 1000"
proof -
  define n s k where "n = sint ms" and "s = n div 1000" and "k = n mod 1000"
  have n: "n = 1000 * s + k" "0 \<le> k" "k < 1000" "0 \<le> s" "s < 2 ^ 41" "\<bar>n\<bar> < 2 ^ 53"
    using assms by (simp_all add: n_def s_def k_def)
  let ?x = "float64 (of_int n / 1000)"
  have x: "whole_seconds ms = \<lfloor>float_round ?x\<rfloor>"
    using float64_of_int [OF n(6)] by (simp add: whole_seconds_def n_def float_div_def)
  have "(2::rat) powi (-11) = 1 / 2048" by (simp add: power_int_minus)
  then have dyadic: "float64 (of_int i / 2048) = of_int i / 2048" if "\<bar>i\<bar> < 2 ^ 53" for i
    using float64_exact [OF that, of "-11"] by simp
  have grid: "?x \<le> of_int i / 2048" if "of_int n / 1000 \<le> (of_int i / 2048 :: rat)" "\<bar>i\<bar> < 2 ^ 53" for i
    using float64_mono [OF _ that(1)] dyadic [OF that(2)] n(1,2,4) by simp
  have grid': "of_int i / 2048 \<le> ?x" if "of_int i / 2048 \<le> (of_int n / 1000 :: rat)" "\<bar>i\<bar> < 2 ^ 53" "0 \<le> i" for i
    using float64_mono [OF _ that(1)] dyadic [OF that(2)] that(3) by simp
  show ?thesis
  proof (cases "k < 500")
    case True
    have "of_int (2048 * s) / 2048 \<le> ?x" by (rule grid') (use n in \<open>simp_all add: field_simps\<close>)
    moreover have "?x \<le> of_int (2048 * s + 1023) / 2048"
      by (rule grid) (use n True in \<open>simp_all add: field_simps\<close>)
    ultimately have b: "of_int s \<le> ?x" "?x \<le> of_int s + 1023 / 2048" by (simp_all add: add_divide_distrib)
    have "\<lfloor>?x + 1 / 2\<rfloor> = s" by (rule floor_unique) (use b in linarith)+
    moreover have "(n + 500) div 1000 = s" using True n by simp
    moreover have "0 \<le> ?x" using b(1) n(4) by (meson of_int_0_le_iff order_trans)
    ultimately show ?thesis by (simp add: x float_round_def n_def)
  next
    case False
    have "of_int (2048 * s + 1024) / 2048 \<le> ?x" by (rule grid') (use n False in \<open>simp_all add: field_simps\<close>)
    moreover have "?x \<le> of_int (2048 * s + 2048) / 2048"
      by (rule grid) (use n in \<open>simp_all add: field_simps\<close>)
    ultimately have b: "of_int s + 1 / 2 \<le> ?x" "?x \<le> of_int s + 1" by (simp_all add: add_divide_distrib)
    have "\<lfloor>?x + 1 / 2\<rfloor> = s + 1" by (rule floor_unique) (use b in simp_all)
    moreover have "(n + 500) div 1000 = s + 1" using False n by simp
    moreover have "0 \<le> ?x" using b(1) n(4)
      by (meson add_nonneg_nonneg of_int_0_le_iff order_trans zero_le_divide_1_iff zero_le_numeral)
    ultimately show ?thesis by (simp add: x float_round_def n_def)
  qed
qed

text \<open>A track found by a search shows the same row as on a page of the BFF, the separator of the
  artists and the heart apart: seconds are rounded the same way, covers fall back to the same art.\<close>

lemma search_art_page: "search_art = art_index"
  by (simp add: fun_eq_iff search_art_def art_index_def)

theorem search_row_matches_page:
  assumes "0 \<le> sint (td_ms d)" "sint (td_ms d) * 1000000 < 2 ^ 63"
    and "qt_id x = td_id d" "qt_title x = td_title d" "qt_ms x = td_ms d" "qt_explicit x = td_explicit d"
    and "qt_available x = (td_status d = ''READY'')"
  shows "found_track x = (make_track_view (to_bff_track d) (qt_album x) (qt_album_title x) ns False)\<lparr>bv_artist := join '', '' (qt_names x)\<rparr>"
proof -
  have "sint (bt_duration (to_bff_track d)) = sint (td_ms d) * 1000000"
    using total_duration_ms [of "[d]"] assms(1,2) by (simp add: total_duration_def)
  from round_seconds_ms [OF assms(1,2) this]
  have "round_seconds (bt_duration (to_bff_track d)) = whole_seconds (td_ms d)"
    using whole_seconds_ms [of "td_ms d"] assms(1,2) by simp
  then show ?thesis using assms(3-7)
    by (simp add: found_track_def make_track_view_def search_art_page to_bff_track_def)
qed

section \<open>Witnesses\<close>

definition fixing_engine :: "fix_entry list \<Rightarrow> unit search_deps" where
  "fixing_engine es = \<lparr>search_lower = id, equal_fold = (=), engine_prefix = [], ask_msearch = (\<lambda>_. None),
     ask_fix = (\<lambda>p b. Some es), as_track = (\<lambda>_. None), as_artist = (\<lambda>_. None), as_album = (\<lambda>_. None),
     as_playlist = (\<lambda>_. None)\<rparr>"

definition misspelt :: "piece list" where
  "misspelt = [Word [''n'', ''v'', ''o'', ''a''] [''nova''], Gap ['' ''], Word [''h'', ''a'', ''l'', ''e''] []]"

lemma words_are_corrected_witness:
  "correct (fixing_engine (entries_of 0 misspelt)) ''nvoa hale'' = Inr ''nova hale''"
proof -
  have "runes ''nvoa hale'' = concat (map piece_runes misspelt)" "list_all (\<lambda>c. length c \<noteq> 4) (runes ''nvoa hale'')"
    "list_ex has_option misspelt" "concat (map corrected misspelt) = ''nova hale''" by code_simp+
  then show ?thesis using words_are_corrected [of "fixing_engine (entries_of 0 misspelt)" "''nvoa hale''" misspelt]
    by (simp add: fixing_engine_def list_all_iff)
qed

definition grin :: string where
  "grin = [CHR 0xF0, CHR 0x9F, CHR 0x98, CHR 0x80]"

lemma correction_garbled_beyond_bmp_witness:
  "correct (fixing_engine (entries_of 0 [Gap [grin, '' ''], Word [''n'', ''v'', ''o'', ''a''] [''nova''], Gap ['' '', ''x'']]))
     (grin @ '' nvoa x'') = Inr (grin @ '' nnovax'')"
proof -
  have "runes (grin @ '' nvoa x'') = [grin, '' ''] @ [''n'', ''v'', ''o'', ''a''] @ ['' '', ''x'']" by code_simp
  then show ?thesis
    using correction_garbled_beyond_bmp
      [of "fixing_engine (entries_of 0 [Gap [grin, '' ''], Word [''n'', ''v'', ''o'', ''a''] [''nova''], Gap ['' '', ''x'']])"
        "grin @ '' nvoa x''" grin "'' ''" "''n''" "[''v'', ''o'', ''a'']" "''nova''" "[]" "'' ''" "[''x'']"]
    by (simp add: fixing_engine_def grin_def)
qed

end
