(* ===== verification/Dsp.thy ===== *)
theory Dsp
  imports Complex_Main
begin

text \<open>
  The measurements of the Audio Analysis Worker (\<^verbatim>\<open>workers/audio-analysis/internal/dsp\<close>): the
  radix-2 transform, the stream of samples with its onset envelope, and the tempo. The operations
  on \<open>float64\<close> are a parameter (\<open>arith\<close>): what is proved of the control flow holds for any,
  what is proved of the numbers is proved for exact arithmetic on the reals. Samples are counted
  without a bound.
\<close>

record 'f arith =
  f_lit :: "rat \<Rightarrow> 'f"
  f_pi :: 'f
  f_add :: "'f \<Rightarrow> 'f \<Rightarrow> 'f"
  f_sub :: "'f \<Rightarrow> 'f \<Rightarrow> 'f"
  f_mul :: "'f \<Rightarrow> 'f \<Rightarrow> 'f"
  f_div :: "'f \<Rightarrow> 'f \<Rightarrow> 'f"
  f_lt :: "'f \<Rightarrow> 'f \<Rightarrow> bool"
  f_le :: "'f \<Rightarrow> 'f \<Rightarrow> bool"
  f_eq :: "'f \<Rightarrow> 'f \<Rightarrow> bool"
  f_max :: "'f \<Rightarrow> 'f \<Rightarrow> 'f"
  f_min :: "'f \<Rightarrow> 'f \<Rightarrow> 'f"
  f_round :: "'f \<Rightarrow> 'f"
  f_trunc :: "'f \<Rightarrow> int"
  f_sqrt :: "'f \<Rightarrow> 'f"
  f_cos :: "'f \<Rightarrow> 'f"
  f_sin :: "'f \<Rightarrow> 'f"
  f_exp :: "'f \<Rightarrow> 'f"
  f_log2 :: "'f \<Rightarrow> 'f"
  f_log1p :: "'f \<Rightarrow> 'f"
  f_hypot :: "'f \<Rightarrow> 'f \<Rightarrow> 'f"
  f_bits :: "string \<Rightarrow> 'f"
  f_finite :: "'f \<Rightarrow> bool"

definition f_count :: "'f arith \<Rightarrow> nat \<Rightarrow> 'f" where
  "f_count ar n = f_lit ar (of_nat n)"

section \<open>The transform\<close>

record 'f fft =
  ft_n :: nat
  ft_rev :: "nat list"
  ft_cos :: "'f list"
  ft_sin :: "'f list"

function bits_from :: "nat \<Rightarrow> nat \<Rightarrow> nat" where
  "bits_from n b = (if 2 ^ b < n then bits_from n (Suc b) else b)"
  by pat_completeness auto
termination
  by (relation "measure (\<lambda>(n, b). n - b)") (auto intro: diff_less_mono2 less_trans [OF less_exp])

declare bits_from.simps [simp del]

definition reversed_bits :: "nat \<Rightarrow> nat \<Rightarrow> nat" where
  "reversed_bits bits i = foldl (\<lambda>r b. or r (push_bit (bits - 1 - b) (and (drop_bit b i) 1))) 0 [0..<bits]"

definition new_fft :: "'f arith \<Rightarrow> nat \<Rightarrow> 'f fft" where
  "new_fft ar n =
     (let bits = bits_from n 0;
          angle = (\<lambda>i. f_div ar (f_mul ar (f_mul ar (f_lit ar (- 2)) (f_pi ar)) (f_count ar i)) (f_count ar n)) in
      \<lparr>ft_n = n, ft_rev = map (reversed_bits bits) [0..<n],
       ft_cos = map (\<lambda>i. f_cos ar (angle i)) [0..<n div 2], ft_sin = map (\<lambda>i. f_sin ar (angle i)) [0..<n div 2]\<rparr>)"

definition swap :: "nat \<Rightarrow> nat \<Rightarrow> 'f list \<Rightarrow> 'f list" where
  "swap i j xs = xs[i := xs ! j, j := xs ! i]"

definition reorder_bits :: "'f fft \<Rightarrow> 'f list \<times> 'f list \<Rightarrow> 'f list \<times> 'f list" where
  "reorder_bits f z = foldl (\<lambda>(re, im) i. let j = ft_rev f ! i in
     if i < j then (swap i j re, swap i j im) else (re, im)) z [0..<length (ft_rev f)]"

definition butterfly :: "'f arith \<Rightarrow> 'f fft \<Rightarrow> nat \<Rightarrow> nat \<Rightarrow> nat \<Rightarrow> 'f list \<times> 'f list \<Rightarrow> nat \<Rightarrow> 'f list \<times> 'f list" where
  "butterfly ar f half step start z k =
     (let (re, im) = z; wr = ft_cos f ! (k * step); wi = ft_sin f ! (k * step);
          a = start + k; b = start + k + half;
          tr = f_sub ar (f_mul ar (re ! b) wr) (f_mul ar (im ! b) wi);
          ti = f_add ar (f_mul ar (re ! b) wi) (f_mul ar (im ! b) wr);
          re1 = re[b := f_sub ar (re ! a) tr]; im1 = im[b := f_sub ar (im ! a) ti] in
      (re1[a := f_add ar (re1 ! a) tr], im1[a := f_add ar (im1 ! a) ti]))"

text \<open>The starts of the blocks: 0, \<open>size\<close>, and so on below \<open>n\<close>.\<close>

definition block_starts :: "nat \<Rightarrow> nat \<Rightarrow> nat list" where
  "block_starts n w = map (\<lambda>i. i * w) [0..<(n + w - 1) div w]"

definition fft_stage :: "'f arith \<Rightarrow> 'f fft \<Rightarrow> nat \<Rightarrow> 'f list \<times> 'f list \<Rightarrow> 'f list \<times> 'f list" where
  "fft_stage ar f w z = (let half = w div 2; step = ft_n f div w in
     foldl (\<lambda>z start. foldl (butterfly ar f half step start) z [0..<half]) z (block_starts (ft_n f) w))"

function fft_stages :: "'f arith \<Rightarrow> 'f fft \<Rightarrow> nat \<Rightarrow> 'f list \<times> 'f list \<Rightarrow> 'f list \<times> 'f list" where
  "fft_stages ar f w z = (if 0 < w \<and> w \<le> ft_n f then fft_stages ar f (2 * w) (fft_stage ar f w z) else z)"
  by pat_completeness auto
termination
  by (relation "measure (\<lambda>(ar, f, w, z). Suc (ft_n f) - w)") auto

declare fft_stages.simps [simp del]

definition fft_transform :: "'f arith \<Rightarrow> 'f fft \<Rightarrow> 'f list \<times> 'f list \<Rightarrow> 'f list \<times> 'f list" where
  "fft_transform ar f z = fft_stages ar f 2 (reorder_bits f z)"

section \<open>Reversing bits\<close>

fun brev :: "nat \<Rightarrow> nat \<Rightarrow> nat" where
  "brev 0 i = 0"
| "brev (Suc m) i = (i mod 2) * 2 ^ m + brev m (i div 2)"

lemma brev_less: "brev m i < 2 ^ m"
proof (induction m arbitrary: i)
  case (Suc m)
  have "(i mod 2) * 2 ^ m \<le> 2 ^ m" using mult_le_mono1 [of "i mod 2" 1 "2 ^ m"] by simp
  then show ?case using Suc [of "i div 2"] unfolding brev.simps power_Suc by linarith
qed simp

lemma brev_high: "j < 2 ^ m \<Longrightarrow> brev (Suc m) (a * 2 ^ m + j) = a mod 2 + 2 * brev m j"
proof (induction m arbitrary: j)
  case 0
  then show ?case by simp
next
  case (Suc m)
  have "a * 2 ^ Suc m + j = j + 2 * (a * 2 ^ m)" by simp
  then have "(a * 2 ^ Suc m + j) div 2 = a * 2 ^ m + j div 2" "(a * 2 ^ Suc m + j) mod 2 = j mod 2"
    by (metis div_mult_self2 zero_neq_numeral add.commute, metis mod_mult_self2)
  then show ?case using Suc.IH [of "j div 2"] Suc.prems by (simp add: brev.simps(2) [of "Suc m"] del: brev.simps(2)) simp
qed

lemma brev_brev: "i < 2 ^ m \<Longrightarrow> brev m (brev m i) = i"
proof (induction m arbitrary: i)
  case (Suc m)
  have "brev (Suc m) (brev (Suc m) i) = (i mod 2) mod 2 + 2 * brev m (brev m (i div 2))"
    using brev_high [OF brev_less] by simp
  then show ?case using Suc by simp
qed simp

lemma brev_sum: "brev m i = (\<Sum>b<m. (i div 2 ^ b mod 2) * 2 ^ (m - 1 - b))"
proof (induction m arbitrary: i)
  case (Suc m)
  show ?case unfolding sum.lessThan_Suc_shift by (simp add: Suc div_mult2_eq)
qed simp

lemma or_disjoint: "or (a * 2 ^ Suc k) (c mod 2 * 2 ^ k) = a * 2 ^ Suc k + c mod 2 * (2 ^ k :: nat)"
proof -
  have "or (a * 2 ^ Suc k) (c mod 2 * 2 ^ k) = push_bit k (or (2 * a) (c mod 2))"
    by (simp only: push_bit_or) (simp add: push_bit_eq_mult ac_simps)
  also have "or (2 * a) (c mod 2) = 2 * a + c mod 2"
    by (cases "even c") (simp_all add: mod_2_eq_odd or_one_eq or.commute [of "2 * a"] flip: One_nat_def)
  finally show ?thesis by (simp add: push_bit_eq_mult algebra_simps)
qed

lemma reversed_bits: "reversed_bits bits i = brev bits i"
proof -
  have step: "or r (push_bit (bits - 1 - b) (and (drop_bit b i) 1)) = r + (i div 2 ^ b mod 2) * 2 ^ (bits - 1 - b)"
    if low: "b < bits" and dv: "2 ^ (bits - b) dvd r" for r b
  proof -
    have "Suc (bits - 1 - b) = bits - b" using low by simp
    then obtain a where "r = a * 2 ^ Suc (bits - 1 - b)" using dv by (metis dvdE mult.commute)
    then show ?thesis using or_disjoint [of a "bits - 1 - b" "i div 2 ^ b"]
      by (simp add: push_bit_eq_mult drop_bit_eq_div and_one_eq)
  qed
  have "foldl (\<lambda>r b. or r (push_bit (bits - 1 - b) (and (drop_bit b i) 1))) 0 [0..<n] =
      (\<Sum>b<n. (i div 2 ^ b mod 2) * 2 ^ (bits - 1 - b))" if "n \<le> bits" for n
    using that
  proof (induction n)
    case (Suc n)
    have "2 ^ (bits - n) dvd (\<Sum>b<n. (i div 2 ^ b mod 2) * 2 ^ (bits - 1 - b))"
      using Suc.prems by (intro dvd_sum dvd_mult le_imp_power_dvd) auto
    then show ?case using Suc step by simp
  qed simp
  then show ?thesis by (simp add: reversed_bits_def brev_sum)
qed

lemma bits_from_pow: "b \<le> m \<Longrightarrow> bits_from (2 ^ m) b = m"
proof (induction "m - b" arbitrary: b)
  case 0
  then show ?case by (subst bits_from.simps) simp
next
  case (Suc d)
  then have "b < m" by simp
  then show ?case using Suc(1) [of "Suc b"] Suc(2) by (subst bits_from.simps) simp
qed

section \<open>The transform in exact arithmetic\<close>

definition exact :: "(string \<Rightarrow> real) \<Rightarrow> real arith" where
  "exact d = \<lparr>f_lit = of_rat, f_pi = pi, f_add = (+), f_sub = (-), f_mul = (*), f_div = (/), f_lt = (<), f_le = (\<le>), f_eq = (=),
     f_max = max, f_min = min, f_round = (\<lambda>x. if 0 \<le> x then of_int \<lfloor>x + 1 / 2\<rfloor> else - of_int \<lfloor>1 / 2 - x\<rfloor>),
     f_trunc = (\<lambda>x. if 0 \<le> x then \<lfloor>x\<rfloor> else \<lceil>x\<rceil>), f_sqrt = sqrt, f_cos = cos, f_sin = sin, f_exp = exp,
     f_log2 = Transcendental.log 2, f_log1p = (\<lambda>x. ln (1 + x)), f_hypot = (\<lambda>x y. sqrt (x ^ 2 + y ^ 2)),
     f_bits = d, f_finite = (\<lambda>x. True)\<rparr>"

definition pt :: "real list \<times> real list \<Rightarrow> nat \<Rightarrow> complex" where
  "pt z i = Complex (fst z ! i) (snd z ! i)"

definition sized :: "nat \<Rightarrow> real list \<times> real list \<Rightarrow> bool" where
  "sized n z \<longleftrightarrow> length (fst z) = n \<and> length (snd z) = n"

text \<open>The discrete Fourier transform of \<open>n\<close> points.\<close>

definition dft :: "nat \<Rightarrow> (nat \<Rightarrow> complex) \<Rightarrow> nat \<Rightarrow> complex" where
  "dft n x k = (\<Sum>t<n. x t * cis (- 2 * pi * t * k / n))"

subsection \<open>The permutation\<close>

lemma swap_pt:
  assumes "sized n (re, im)" "i < n" "j < n"
  shows "pt (swap i j re, swap i j im) p = (if p = j then pt (re, im) i else if p = i then pt (re, im) j else pt (re, im) p)"
  using assms by (auto simp: pt_def swap_def sized_def nth_list_update)

lemma reorder_pt:
  assumes rev: "\<And>i. i < n \<Longrightarrow> r i < n" "\<And>i. i < n \<Longrightarrow> r (r i) = i" and z: "sized n z"
    and f: "ft_rev f = map r [0..<n]" and p: "p < n"
  shows "sized n (reorder_bits f z) \<and> pt (reorder_bits f z) p = pt z (r p)"
proof -
  let ?step = "\<lambda>(re, im) i. let j = ft_rev f ! i in if i < j then (swap i j re, swap i j im) else (re, im)"
  have "sized n (foldl ?step z [0..<t]) \<and> (\<forall>p<n. pt (foldl ?step z [0..<t]) p = (if p < t \<or> r p < t then pt z (r p) else pt z p))"
    if "t \<le> n" for t
    using that
  proof (induction t)
    case 0
    then show ?case using z by simp
  next
    case (Suc t)
    obtain re im where zt: "foldl ?step z [0..<t] = (re, im)" by fastforce
    have fit: "sized n (re, im)" and old: "\<And>p. p < n \<Longrightarrow> pt (re, im) p = (if p < t \<or> r p < t then pt z (r p) else pt z p)"
      using Suc zt by simp_all
    have tn: "t < n" and j: "ft_rev f ! t = r t" using Suc.prems by (simp_all add: f)
    have next_z: "foldl ?step z [0..<Suc t] = (if t < r t then (swap t (r t) re, swap t (r t) im) else (re, im))"
      by (simp only: upt_Suc le0 if_True foldl_append foldl.simps zt) (simp add: j Let_def)
    have eq: "r q = t \<longleftrightarrow> q = r t" if "q < n" for q using rev(2) that tn by metis
    show ?case
    proof (cases "t < r t")
      case True
      have fit1: "sized n (swap t (r t) re, swap t (r t) im)" using fit by (simp add: sized_def swap_def)
      have "pt (swap t (r t) re, swap t (r t) im) q = (if q < Suc t \<or> r q < Suc t then pt z (r q) else pt z q)" if q: "q < n" for q
      proof -
        have "pt (re, im) t = pt z t" "pt (re, im) (r t) = pt z (r t)" using old [OF tn] old [OF rev(1) [OF tn]] rev(2) [OF tn] True by simp_all
        then show ?thesis using swap_pt [OF fit tn rev(1) [OF tn], of q] old [OF q] eq [OF q] rev(2) [OF tn] True
          by (auto simp: less_Suc_eq)
      qed
      then show ?thesis using fit1 True next_z by simp
    next
      case False
      have "pt (re, im) q = (if q < Suc t \<or> r q < Suc t then pt z (r q) else pt z q)" if q: "q < n" for q
        using old [OF q] eq [OF q] rev(2) [OF tn] False by (auto simp: less_Suc_eq)
      then show ?thesis using fit False next_z by simp
    qed
  qed
  from this [of n] show ?thesis using p by (simp add: reorder_bits_def f)
qed

subsection \<open>One stage\<close>

definition twiddle :: "real fft \<Rightarrow> nat \<Rightarrow> complex" where
  "twiddle f i = Complex (ft_cos f ! i) (ft_sin f ! i)"

lemma butterfly_pt:
  assumes "sized n z" "start + k + h < n" "0 < h"
  shows "sized n (butterfly (exact d) f h step start z k) \<and>
     pt (butterfly (exact d) f h step start z k) i =
       (if i = start + k then pt z i + twiddle f (k * step) * pt z (i + h)
        else if i = start + k + h then pt z (i - h) - twiddle f (k * step) * pt z i else pt z i)"
  using assms
  by (cases z) (auto simp: butterfly_def Let_def sized_def pt_def exact_def twiddle_def nth_list_update complex_eq_iff algebra_simps)

lemma block_pt:
  assumes "sized n z" "start + 2 * h \<le> n" "t \<le> h"
  shows "sized n (foldl (butterfly (exact d) f h step start) z [0..<t]) \<and>
     (\<forall>i. pt (foldl (butterfly (exact d) f h step start) z [0..<t]) i =
       (if start \<le> i \<and> i < start + t then pt z i + twiddle f ((i - start) * step) * pt z (i + h)
        else if start + h \<le> i \<and> i < start + h + t then pt z (i - h) - twiddle f ((i - start - h) * step) * pt z i else pt z i))"
  using assms(3)
proof (induction t)
  case 0
  then show ?case using assms(1) by auto
next
  case (Suc t)
  let ?z = "foldl (butterfly (exact d) f h step start) z [0..<t]"
  have fit: "sized n ?z" and old: "\<And>i. pt ?z i =
       (if start \<le> i \<and> i < start + t then pt z i + twiddle f ((i - start) * step) * pt z (i + h)
        else if start + h \<le> i \<and> i < start + h + t then pt z (i - h) - twiddle f ((i - start - h) * step) * pt z i else pt z i)"
    using Suc by simp_all
  have b: "start + t + h < n" "0 < h" using Suc.prems assms(2) by simp_all
  have "pt ?z (start + t) = pt z (start + t)" "pt ?z (start + t + h) = pt z (start + t + h)"
    using Suc.prems by (simp_all add: old)
  then show ?case using butterfly_pt [OF fit b, of d f step] Suc.prems old by (auto simp: less_Suc_eq)
qed

lemma stage_pt:
  assumes n: "ft_n f = n" "n = blocks * (2 * h)" "0 < h" and z: "sized n z"
  shows "sized n (fft_stage (exact d) f (2 * h) z)"
    and "\<lbrakk>b < blocks; k < h\<rbrakk> \<Longrightarrow> pt (fft_stage (exact d) f (2 * h) z) (b * (2 * h) + k) =
       pt z (b * (2 * h) + k) + twiddle f (k * blocks) * pt z (b * (2 * h) + k + h)"
    and "\<lbrakk>b < blocks; k < h\<rbrakk> \<Longrightarrow> pt (fft_stage (exact d) f (2 * h) z) (b * (2 * h) + k + h) =
       pt z (b * (2 * h) + k) - twiddle f (k * blocks) * pt z (b * (2 * h) + k + h)"
proof -
  let ?w = "2 * h"
  let ?block = "\<lambda>z b. foldl (butterfly (exact d) f h blocks (b * ?w)) z [0..<h]"
  have "n + ?w - 1 = (?w - 1) + blocks * ?w" using n(2,3) by simp
  moreover have "((?w - 1) + blocks * ?w) div ?w = blocks + (?w - 1) div ?w" by (rule div_mult_self1) (use n(3) in simp)
  ultimately have steps: "n div ?w = blocks" "(n + ?w - 1) div ?w = blocks"
    using n(2,3) by simp_all
  have run: "fft_stage (exact d) f ?w z = foldl ?block z [0..<blocks]"
    unfolding fft_stage_def Let_def block_starts_def n(1) steps foldl_map by simp
  have "sized n (foldl ?block z [0..<c]) \<and> (\<forall>b k. k < h \<longrightarrow>
      pt (foldl ?block z [0..<c]) (b * ?w + k) = (if b < c then pt z (b * ?w + k) + twiddle f (k * blocks) * pt z (b * ?w + k + h) else pt z (b * ?w + k)) \<and>
      pt (foldl ?block z [0..<c]) (b * ?w + k + h) = (if b < c then pt z (b * ?w + k) - twiddle f (k * blocks) * pt z (b * ?w + k + h) else pt z (b * ?w + k + h)))"
    if "c \<le> blocks" for c
    using that
  proof (induction c)
    case 0
    then show ?case using z by simp
  next
    case (Suc c)
    let ?z = "foldl ?block z [0..<c]"
    have "(c + 1) * ?w \<le> blocks * ?w" using Suc.prems by (intro mult_le_mono1) simp
    then have room: "c * ?w + 2 * h \<le> n" using n(2) by simp
    have fit: "sized n ?z" and old: "\<And>b k. k < h \<Longrightarrow>
      pt ?z (b * ?w + k) = (if b < c then pt z (b * ?w + k) + twiddle f (k * blocks) * pt z (b * ?w + k + h) else pt z (b * ?w + k)) \<and>
      pt ?z (b * ?w + k + h) = (if b < c then pt z (b * ?w + k) - twiddle f (k * blocks) * pt z (b * ?w + k + h) else pt z (b * ?w + k + h))"
      using Suc by simp_all
    note new = block_pt [OF fit room order_refl, of d f blocks]
    have other: "b * ?w + 2 * h \<le> c * ?w \<or> c * ?w + 2 * h \<le> b * ?w" if "b \<noteq> c" for b
    proof (cases "b < c")
      case True
      then have "(b + 1) * ?w \<le> c * ?w" by (intro mult_le_mono1) simp
      then show ?thesis by simp
    next
      case False
      then have "(c + 1) * ?w \<le> b * ?w" using that by (intro mult_le_mono1) simp
      then show ?thesis by simp
    qed
    have "pt (foldl ?block z [0..<Suc c]) (b * ?w + k) = (if b < Suc c then pt z (b * ?w + k) + twiddle f (k * blocks) * pt z (b * ?w + k + h) else pt z (b * ?w + k)) \<and>
      pt (foldl ?block z [0..<Suc c]) (b * ?w + k + h) = (if b < Suc c then pt z (b * ?w + k) - twiddle f (k * blocks) * pt z (b * ?w + k + h) else pt z (b * ?w + k + h))"
      if k: "k < h" for b k
    proof (cases "b = c")
      case True
      then show ?thesis using new old [OF k, of c] k by simp
    next
      case False
      have "pt (foldl ?block z [0..<Suc c]) i = pt ?z i" if "i = b * ?w + k \<or> i = b * ?w + k + h" for i
      proof -
        have "\<not> (c * ?w \<le> i \<and> i < c * ?w + h)" "\<not> (c * ?w + h \<le> i \<and> i < c * ?w + h + h)"
          using other [OF False] k that by linarith+
        then have "pt (foldl (butterfly (exact d) f h blocks (c * ?w)) ?z [0..<h]) i = pt ?z i"
          using spec [OF conjunct2 [OF new], of i] by (simp only: if_False)
        then show ?thesis by simp
      qed
      then show ?thesis using old [OF k, of b] False by (simp add: less_Suc_eq del: upt_Suc)
    qed
    then show ?case using new by simp
  qed
  note all = this [OF order_refl]
  show "sized n (fft_stage (exact d) f ?w z)" using all unfolding run by blast
  show "pt (fft_stage (exact d) f ?w z) (b * ?w + k) = pt z (b * ?w + k) + twiddle f (k * blocks) * pt z (b * ?w + k + h)"
    if "b < blocks" "k < h" using all that unfolding run by simp
  show "pt (fft_stage (exact d) f ?w z) (b * ?w + k + h) = pt z (b * ?w + k) - twiddle f (k * blocks) * pt z (b * ?w + k + h)"
    if "b < blocks" "k < h" using all that unfolding run by simp
qed

subsection \<open>All stages\<close>

lemma sum_pairs: "(\<Sum>t<2 * n. g t) = (\<Sum>u<n. g (2 * u) + g (2 * u + 1))" for g :: "nat \<Rightarrow> complex"
  by (induction n) (simp_all add: add.assoc)

lemma dft_split:
  assumes "0 < h"
  shows "dft (2 * h) x k = dft h (\<lambda>u. x (2 * u)) k + cis (- 2 * pi * k / (2 * h)) * dft h (\<lambda>u. x (2 * u + 1)) k"
proof -
  have even: "cis (- 2 * pi * real (2 * u) * k / real (2 * h)) = cis (- 2 * pi * u * k / h)" for u
    by (rule arg_cong [of _ _ cis]) (use assms in \<open>simp add: field_simps\<close>)
  have odd: "cis (- 2 * pi * real (2 * u + 1) * k / real (2 * h)) = cis (- 2 * pi * k / (2 * h)) * cis (- 2 * pi * u * k / h)" for u
    unfolding cis_mult by (rule arg_cong [of _ _ cis]) (use assms in \<open>simp add: field_simps\<close>)
  show ?thesis unfolding dft_def sum_pairs even odd
    by (simp add: sum.distrib sum_distrib_left ac_simps)
qed

lemma dft_period:
  assumes "0 < h"
  shows "dft h x (k + h) = dft h x k"
proof -
  have "cis (- 2 * pi * t * real (k + h) / h) = cis (- 2 * pi * t * k / h)" for t :: nat
  proof -
    have "- 2 * pi * t * real (k + h) / h = - 2 * pi * t * k / h + 2 * pi * (- real t)"
      using assms by (simp add: field_simps)
    moreover have "cis (2 * pi * (- real t)) = 1" by (rule cis_multiple_2pi) simp
    ultimately show ?thesis by (metis cis_mult mult.right_neutral)
  qed
  then show ?thesis by (simp only: dft_def)
qed

lemma cis_half_turn:
  assumes "0 < h"
  shows "cis (- 2 * pi * real (k + h) / (2 * real h)) = - cis (- 2 * pi * k / (2 * real h))"
proof -
  have "- 2 * pi * real (k + h) / (2 * real h) = - 2 * pi * k / (2 * real h) + (- pi)" using assms by (simp add: field_simps)
  moreover have "cis (- pi) = - 1" by (simp add: complex_eq_iff)
  ultimately show ?thesis by (metis cis_mult mult_minus_right mult.right_neutral)
qed

lemma new_fft_tables:
  "ft_n (new_fft ar (2 ^ m)) = 2 ^ m" "ft_rev (new_fft ar (2 ^ m)) = map (brev m) [0..<2 ^ m]"
  by (simp_all add: new_fft_def Let_def bits_from_pow reversed_bits)

lemma new_fft_twiddle:
  assumes "i < n div 2"
  shows "twiddle (new_fft (exact d) n) i = cis (- 2 * pi * i / n)"
  using assms by (simp add: twiddle_def new_fft_def Let_def exact_def f_count_def complex_eq_iff of_rat_minus)

definition transformed :: "nat \<Rightarrow> (nat \<Rightarrow> complex) \<Rightarrow> nat \<Rightarrow> real list \<times> real list \<Rightarrow> bool" where
  "transformed m y s z \<longleftrightarrow> sized (2 ^ m) z \<and>
     (\<forall>b < 2 ^ (m - s). \<forall>k < 2 ^ s. pt z (b * 2 ^ s + k) = dft (2 ^ s) (\<lambda>t. y (b * 2 ^ s + brev s t)) k)"

lemma stage_transforms:
  assumes s: "s < m" and z: "transformed m y s z"
  shows "transformed m y (Suc s) (fft_stage (exact d) (new_fft (exact d) (2 ^ m)) (2 ^ Suc s) z)"
proof -
  let ?f = "new_fft (exact d) (2 ^ m)" and ?h = "2 ^ s :: nat" and ?c = "2 ^ (m - Suc s) :: nat"
  have m: "2 ^ m = ?c * (2 * ?h)" "m - s = Suc (m - Suc s)" using s by (simp_all flip: power_add power_Suc)
  note stage = stage_pt [where f = ?f and n = "2 ^ m" and h = ?h and blocks = ?c and d = d and z = z, OF new_fft_tables(1) m(1)]
  have fit: "sized (2 ^ m) z" using z by (simp add: transformed_def)
  have old: "pt z (b * ?h + k) = dft ?h (\<lambda>t. y (b * ?h + brev s t)) k" if "b < 2 * ?c" "k < ?h" for b k
    using z that m(2) by (simp add: transformed_def)
  have tw: "twiddle ?f (k * ?c) = cis (- 2 * pi * k / (2 * real ?h))" if "k < ?h" for k
  proof -
    have "k * ?c < ?h * ?c" using that by simp
    then have "k * ?c < 2 ^ m div 2" using m(1) by (simp add: mult.commute)
    moreover have "real (2 ^ m) = real ?c * (2 * real ?h)" using m(1) by (metis of_nat_mult of_nat_numeral)
    ultimately show ?thesis using new_fft_twiddle [of "k * ?c" "2 ^ m" d] by simp
  qed
  have block: "dft (2 * ?h) (\<lambda>t. y (b * (2 * ?h) + brev (Suc s) t)) k =
      dft ?h (\<lambda>t. y (2 * b * ?h + brev s t)) k + cis (- 2 * pi * k / (2 * real ?h)) * dft ?h (\<lambda>t. y ((2 * b + 1) * ?h + brev s t)) k" for b k
  proof -
    have "brev (Suc s) (2 * u) = brev s u" "brev (Suc s) (2 * u + 1) = ?h + brev s u" for u
      by (simp_all add: mod_Suc)
    then show ?thesis by (subst dft_split) (simp_all add: algebra_simps del: brev.simps)
  qed
  have low: "pt (fft_stage (exact d) ?f (2 * ?h) z) (b * (2 * ?h) + k) = dft (2 * ?h) (\<lambda>t. y (b * (2 * ?h) + brev (Suc s) t)) k"
    if "b < ?c" "k < ?h" for b k
  proof -
    have "pt z (b * (2 * ?h) + k + ?h) = pt z ((2 * b + 1) * ?h + k)" "pt z (b * (2 * ?h) + k) = pt z (2 * b * ?h + k)"
      by (simp_all add: algebra_simps)
    then show ?thesis using stage(2) [OF _ fit that] old [of "2 * b" k] old [of "2 * b + 1" k] that tw block by simp
  qed
  have high: "pt (fft_stage (exact d) ?f (2 * ?h) z) (b * (2 * ?h) + (k + ?h)) = dft (2 * ?h) (\<lambda>t. y (b * (2 * ?h) + brev (Suc s) t)) (k + ?h)"
    if "b < ?c" "k < ?h" for b k
  proof -
    have "pt z (b * (2 * ?h) + k + ?h) = pt z ((2 * b + 1) * ?h + k)" "pt z (b * (2 * ?h) + k) = pt z (2 * b * ?h + k)"
      by (simp_all add: algebra_simps)
    moreover have "cis (- 2 * pi * real (k + ?h) / (2 * real ?h)) = - cis (- 2 * pi * k / (2 * real ?h))"
      by (rule cis_half_turn) simp
    ultimately show ?thesis
      using stage(3) [OF _ fit that] old [of "2 * b" k] old [of "2 * b + 1" k] that tw
      unfolding block by (simp add: dft_period add.assoc del: of_nat_add)
  qed
  have "pt (fft_stage (exact d) ?f (2 * ?h) z) (b * (2 * ?h) + k) = dft (2 * ?h) (\<lambda>t. y (b * (2 * ?h) + brev (Suc s) t)) k"
    if "b < ?c" "k < 2 * ?h" for b k
  proof (cases "k < ?h")
    case True
    with low that show ?thesis by blast
  next
    case False
    then have "k - ?h < ?h" "k - ?h + ?h = k" using that by simp_all
    with high [OF that(1), of "k - ?h"] show ?thesis by simp
  qed
  then show ?thesis using stage(1) [OF _ fit] by (simp add: transformed_def del: brev.simps)
qed

lemma stages_transform:
  assumes "s \<le> m" "transformed m y s z"
  shows "transformed m y m (fft_stages (exact d) (new_fft (exact d) (2 ^ m)) (2 ^ Suc s) z)"
  using assms
proof (induction "m - s" arbitrary: s z)
  case 0
  then have "s = m" by simp
  then show ?case using 0 by (subst fft_stages.simps) (simp add: new_fft_tables)
next
  case (Suc n)
  then have s: "s < m" by simp
  have "(2::nat) ^ Suc s \<le> 2 ^ m" using s by (intro power_increasing) auto
  moreover have "(0::nat) < 2 ^ Suc s" by simp
  ultimately have "fft_stages (exact d) (new_fft (exact d) (2 ^ m)) (2 ^ Suc s) z =
      fft_stages (exact d) (new_fft (exact d) (2 ^ m)) (2 ^ Suc (Suc s)) (fft_stage (exact d) (new_fft (exact d) (2 ^ m)) (2 ^ Suc s) z)"
    by (subst fft_stages.simps) (simp add: new_fft_tables)
  then show ?case using Suc.hyps(1) [of "Suc s"] stage_transforms [OF s Suc.prems(2)] Suc.hyps(2) s by simp
qed

text \<open>C39: in exact arithmetic the transform computes the discrete Fourier transform: the swaps by
  reversed bits and the butterflies of all stages, in place, leave at every index the sum of the
  definition.\<close>

theorem transform_is_dft:
  assumes "sized (2 ^ m) z" "k < 2 ^ m"
  shows "pt (fft_transform (exact d) (new_fft (exact d) (2 ^ m)) z) k = dft (2 ^ m) (pt z) k"
proof -
  let ?f = "new_fft (exact d) (2 ^ m)"
  let ?z = "reorder_bits ?f z"
  have perm: "sized (2 ^ m) ?z \<and> pt ?z i = pt z (brev m i)" if "i < 2 ^ m" for i
    by (rule reorder_pt [OF brev_less brev_brev assms(1) new_fft_tables(2) that])
  have "transformed m (pt ?z) 0 ?z" using perm [of 0] by (simp add: transformed_def dft_def)
  then have "transformed m (pt ?z) m (fft_transform (exact d) ?f z)"
    using stages_transform [of 0 m] by (simp add: fft_transform_def)
  then have "pt (fft_transform (exact d) ?f z) k = dft (2 ^ m) (\<lambda>t. pt ?z (brev m t)) k"
    using assms(2) by (auto simp: transformed_def)
  also have "\<dots> = dft (2 ^ m) (pt z) k"
    unfolding dft_def by (rule sum.cong) (use perm brev_less brev_brev in auto)
  finally show ?thesis .
qed

section \<open>The stream of samples\<close>

abbreviation SampleRate :: nat where "SampleRate \<equiv> 11025"
abbreviation frame_size :: nat where "frame_size \<equiv> 1024"
abbreviation hop_size :: nat where "hop_size \<equiv> 128"

record 'f analyzer =
  dz_frame :: "'f list"
  dz_hop :: "'f list"
  dz_prev :: "'f list"
  dz_env :: "'f list"
  dz_hops :: nat
  dz_silent :: nat
  dz_samples :: nat
  dz_rest :: string

definition new_analyzer :: "'f arith \<Rightarrow> 'f analyzer" where
  "new_analyzer ar = \<lparr>dz_frame = replicate frame_size (f_lit ar 0), dz_hop = [],
     dz_prev = replicate (frame_size div 2 + 1) (f_lit ar 0), dz_env = [], dz_hops = 0, dz_silent = 0, dz_samples = 0, dz_rest = []\<rparr>"

definition hann :: "'f arith \<Rightarrow> 'f list" where
  "hann ar = map (\<lambda>i. f_sub ar (f_lit ar (1 / 2)) (f_mul ar (f_lit ar (1 / 2))
     (f_cos ar (f_div ar (f_mul ar (f_mul ar (f_lit ar 2) (f_pi ar)) (f_count ar i)) (f_count ar frame_size))))) [0..<frame_size]"

text \<open>The positive change of the log-magnitudes of the frame, and the magnitudes.\<close>

definition flux :: "'f arith \<Rightarrow> 'f analyzer \<Rightarrow> 'f \<times> 'f list" where
  "flux ar st =
     (let (re, im) = fft_transform ar (new_fft ar frame_size) (map2 (f_mul ar) (dz_frame st) (hann ar), replicate frame_size (f_lit ar 0));
          mags = map (\<lambda>k. f_log1p ar (f_mul ar (f_lit ar 100) (f_hypot ar (re ! k) (im ! k)))) [0..<length (dz_prev st)] in
      (foldl (\<lambda>total (mag, prev). let d = f_sub ar mag prev in
          if f_lt ar (f_lit ar 0) d \<and> dz_env st \<noteq> [] then f_add ar total d else total) (f_lit ar 0) (zip mags (dz_prev st)), mags))"

definition count_silence :: "'f arith \<Rightarrow> 'f list \<Rightarrow> 'f analyzer \<Rightarrow> 'f analyzer" where
  "count_silence ar hop st =
     (let total = foldl (\<lambda>s x. f_add ar s (f_mul ar x x)) (f_lit ar 0) hop;
          silent = f_lt ar (f_sqrt ar (f_div ar total (f_count ar (length hop)))) (f_lit ar (1 / 1000)) in
      st\<lparr>dz_hops := Suc (dz_hops st), dz_silent := (if silent then Suc (dz_silent st) else dz_silent st)\<rparr>)"

definition end_hop :: "'f arith \<Rightarrow> 'f analyzer \<Rightarrow> 'f analyzer" where
  "end_hop ar st =
     (let st1 = (count_silence ar (dz_hop st) st)\<lparr>dz_frame := drop hop_size (dz_frame st) @ dz_hop st, dz_hop := []\<rparr>;
          (x, mags) = flux ar st1 in
      st1\<lparr>dz_prev := mags, dz_env := dz_env st1 @ [x]\<rparr>)"

definition take_sample :: "'f arith \<Rightarrow> 'f \<Rightarrow> 'f analyzer \<Rightarrow> 'f analyzer" where
  "take_sample ar v st =
     (let x = (if f_finite ar v then v else f_lit ar 0);
          st1 = st\<lparr>dz_samples := Suc (dz_samples st), dz_hop := dz_hop st @ [x]\<rparr> in
      if length (dz_hop st1) = hop_size then end_hop ar st1 else st1)"

function write_words :: "'f arith \<Rightarrow> string \<Rightarrow> 'f analyzer \<Rightarrow> 'f analyzer" where
  "write_words ar p st = (if 4 \<le> length p then write_words ar (drop 4 p) (take_sample ar (f_bits ar (take 4 p)) st)
     else st\<lparr>dz_rest := dz_rest st @ p\<rparr>)"
  by pat_completeness auto
termination
  by (relation "measure (\<lambda>(ar, p, st). length p)") auto

declare write_words.simps [simp del]

definition write_bytes :: "'f arith \<Rightarrow> string \<Rightarrow> 'f analyzer \<Rightarrow> 'f analyzer" where
  "write_bytes ar p st =
     (if dz_rest st = [] then write_words ar p st
      else let need = 4 - length (dz_rest st) in
        if length p < need then st\<lparr>dz_rest := dz_rest st @ p\<rparr>
        else write_words ar (drop need p) ((take_sample ar (f_bits ar (dz_rest st @ take need p)) st)\<lparr>dz_rest := []\<rparr>))"

section \<open>The tempo\<close>

abbreviation MinBPM :: rat where "MinBPM \<equiv> 60"
abbreviation MaxBPM :: rat where "MaxBPM \<equiv> 200"
abbreviation frames_per_second :: rat where "frames_per_second \<equiv> 11025 / 128"

definition min_lag :: nat where "min_lag = nat \<lfloor>60 * frames_per_second / MaxBPM\<rfloor>"
definition max_lag :: nat where "max_lag = nat \<lceil>60 * frames_per_second / MinBPM\<rceil>"

fun prefix_sums :: "'f arith \<Rightarrow> 'f \<Rightarrow> 'f list \<Rightarrow> 'f list" where
  "prefix_sums ar x [] = [x]"
| "prefix_sums ar x (v # vs) = x # prefix_sums ar (f_add ar x v) vs"

definition onsets :: "'f arith \<Rightarrow> 'f list \<Rightarrow> 'f list" where
  "onsets ar env =
     (let half = SampleRate div hop_size div 4; prefix = prefix_sums ar (f_lit ar 0) env;
          out = map (\<lambda>i. let lo = i - half; hi = min (length env) (i + half + 1) in
            f_max ar (f_lit ar 0) (f_sub ar (env ! i) (f_div ar (f_sub ar (prefix ! hi) (prefix ! lo)) (f_count ar (hi - lo))))) [0..<length env];
          mean = f_div ar (foldl (f_add ar) (f_lit ar 0) out) (f_count ar (length out)) in
      map (\<lambda>v. f_sub ar v mean) out)"

definition tempo_prior :: "'f arith \<Rightarrow> 'f \<Rightarrow> 'f" where
  "tempo_prior ar bpm = (let x = f_div ar (f_log2 ar (f_div ar bpm (f_lit ar 120))) (f_lit ar 1) in
     f_exp ar (f_mul ar (f_mul ar (f_lit ar (- 1 / 2)) x) x))"

definition parabolic :: "'f arith \<Rightarrow> 'f \<Rightarrow> 'f \<Rightarrow> 'f \<Rightarrow> 'f" where
  "parabolic ar l c r =
     (let d = f_add ar (f_sub ar l (f_mul ar (f_lit ar 2) c)) r in
      if f_le ar (f_lit ar 0) d then f_lit ar 0
      else f_max ar (f_lit ar (- 1 / 2)) (f_min ar (f_lit ar (1 / 2)) (f_div ar (f_mul ar (f_lit ar (1 / 2)) (f_sub ar l r)) d)))"

text \<open>The normalized autocorrelation at the lags that are filled; other slots of the array stay zero.\<close>

definition acf_at :: "'f arith \<Rightarrow> 'f list \<Rightarrow> 'f \<Rightarrow> nat \<Rightarrow> 'f" where
  "acf_at ar e r0 lag =
     (if lag < min_lag - 1 \<or> max_lag + 1 < lag then f_lit ar 0
      else let s = foldl (\<lambda>s i. f_add ar s (f_mul ar (e ! i) (e ! (i + lag)))) (f_lit ar 0) [0..<length e - lag];
               n = f_count ar (length e) in
        f_div ar (f_mul ar (f_div ar s (f_sub ar n (f_count ar lag))) n) r0)"

definition beat_of :: "'f arith \<Rightarrow> nat \<Rightarrow> 'f" where
  "beat_of ar lag = f_div ar (f_lit ar (60 * frames_per_second)) (f_count ar lag)"

definition best_lag :: "'f arith \<Rightarrow> (nat \<Rightarrow> 'f) \<Rightarrow> nat \<times> 'f" where
  "best_lag ar acf = foldl (\<lambda>(best, score) lag. let bpm = beat_of ar lag in
     if f_lt ar bpm (f_lit ar MinBPM) \<or> f_lt ar (f_lit ar MaxBPM) bpm \<or> f_le ar (acf lag) (f_lit ar 0) then (best, score)
     else let s = f_mul ar (acf lag) (tempo_prior ar bpm) in if f_lt ar score s then (lag, s) else (best, score))
     (0, f_lit ar 0) [min_lag..<max_lag + 1]"

definition faster_octave :: "'f arith \<Rightarrow> (nat \<Rightarrow> 'f) \<Rightarrow> nat \<Rightarrow> nat" where
  "faster_octave ar acf best =
     (let half = nat (f_trunc ar (f_round ar (f_div ar (f_count ar best) (f_lit ar 2)))) in
      if min_lag \<le> half \<and> f_le ar (f_mul ar (f_lit ar (95 / 100)) (acf best)) (acf half) then half else best)"

definition tempo :: "'f arith \<Rightarrow> 'f list \<Rightarrow> 'f \<times> 'f" where
  "tempo ar env =
     (let zero = f_lit ar 0 in
      if length env < 6 * SampleRate div hop_size \<or> length env < 2 * (max_lag + 1) then (zero, zero)
      else let e = onsets ar env; r0 = foldl (\<lambda>s v. f_add ar s (f_mul ar v v)) zero e in
        if f_eq ar r0 zero then (zero, zero)
        else let acf = acf_at ar e r0; first = fst (best_lag ar acf) in
          if first = 0 \<or> f_lt ar (acf first) (f_lit ar (1 / 10)) then (zero, zero)
          else let best = faster_octave ar acf first;
                   lag = f_add ar (f_count ar best) (parabolic ar (acf (best - 1)) (acf best) (acf (best + 1)));
                   bpm = f_min ar (f_max ar (f_div ar (f_lit ar (60 * frames_per_second)) lag) (f_lit ar MinBPM)) (f_lit ar MaxBPM) in
            (f_div ar (f_round ar (f_mul ar bpm (f_lit ar 10))) (f_lit ar 10), f_min ar (acf best) (f_lit ar 1)))"

record 'f rhythm =
  ry_bpm :: 'f
  ry_confidence :: 'f
  ry_silence :: 'f
  ry_samples :: nat

definition measure_stream :: "'f arith \<Rightarrow> 'f analyzer \<Rightarrow> 'f rhythm" where
  "measure_stream ar st0 =
     (let st = (if dz_hop st0 = [] then st0 else (count_silence ar (dz_hop st0) st0)\<lparr>dz_hop := []\<rparr>);
          (bpm, confidence) = tempo ar (dz_env st) in
      \<lparr>ry_bpm = bpm, ry_confidence = confidence,
       ry_silence = (if 0 < dz_hops st then f_div ar (f_count ar (dz_silent st)) (f_count ar (dz_hops st)) else f_lit ar 0),
       ry_samples = dz_samples st\<rparr>)"

definition duration_ms :: "'f rhythm \<Rightarrow> nat" where
  "duration_ms r = ry_samples r * 1000 div SampleRate"

section \<open>Any chunks give the same measurement\<close>

lemma take_sample_rest: "take_sample ar v (st\<lparr>dz_rest := r\<rparr>) = (take_sample ar v st)\<lparr>dz_rest := r\<rparr>"
  by (simp add: take_sample_def end_hop_def count_silence_def flux_def Let_def split: prod.split)

lemma dz_rest_take_sample [simp]: "dz_rest (take_sample ar v st) = dz_rest st"
  using take_sample_rest [of ar v "dz_rest st" st] by (metis analyzer.surjective analyzer.update_convs(8) analyzer.select_convs(8))

lemma write_bytes_words:
  assumes "length (dz_rest st) < 4"
  shows "write_bytes ar p st = write_words ar (dz_rest st @ p) (st\<lparr>dz_rest := []\<rparr>)"
proof (cases "dz_rest st = []")
  case True
  then have "st\<lparr>dz_rest := []\<rparr> = st" by simp
  then show ?thesis by (simp only: write_bytes_def True append.left_neutral simp_thms if_True)
next
  case False
  show ?thesis
  proof (cases "length p < 4 - length (dz_rest st)")
    case True
    then have "write_words ar (dz_rest st @ p) (st\<lparr>dz_rest := []\<rparr>) = st\<lparr>dz_rest := dz_rest st @ p\<rparr>"
      by (subst write_words.simps) simp
    with True False show ?thesis by (simp add: write_bytes_def Let_def)
  next
    case long: False
    have "write_words ar (dz_rest st @ p) (st\<lparr>dz_rest := []\<rparr>) =
        write_words ar (drop 4 (dz_rest st @ p)) (take_sample ar (f_bits ar (take 4 (dz_rest st @ p))) (st\<lparr>dz_rest := []\<rparr>))"
      using long assms by (subst write_words.simps) simp
    then show ?thesis using long False assms by (simp add: write_bytes_def Let_def take_sample_rest)
  qed
qed

lemma rest_write_words: "dz_rest st = [] \<Longrightarrow> length (dz_rest (write_words ar p st)) < 4"
proof (induction ar p st rule: write_words.induct)
  case (1 ar p st)
  then show ?case by (subst write_words.simps) simp
qed

lemma rest_write_bytes: "length (dz_rest st) < 4 \<Longrightarrow> length (dz_rest (write_bytes ar p st)) < 4"
  by (simp add: write_bytes_words rest_write_words)

lemma write_words_append: "dz_rest st = [] \<Longrightarrow> write_bytes ar q (write_words ar p st) = write_words ar (p @ q) st"
proof (induction ar p st rule: write_words.induct)
  case (1 ar p st)
  show ?case
  proof (cases "4 \<le> length p")
    case True
    then have "write_words ar (p @ q) st = write_words ar (drop 4 p @ q) (take_sample ar (f_bits ar (take 4 p)) st)"
      by (subst write_words.simps) simp
    moreover have "write_words ar p st = write_words ar (drop 4 p) (take_sample ar (f_bits ar (take 4 p)) st)"
      using True by (subst write_words.simps) simp
    ultimately show ?thesis using 1(1) [OF True] 1(2) by simp
  next
    case False
    then have "write_words ar p st = st\<lparr>dz_rest := p\<rparr>" using 1(2) by (subst write_words.simps) simp
    moreover have "st\<lparr>dz_rest := []\<rparr> = st" using 1(2) by simp
    ultimately show ?thesis using False by (simp add: write_bytes_words)
  qed
qed

lemma write_bytes_append:
  "length (dz_rest st) < 4 \<Longrightarrow> write_bytes ar q (write_bytes ar p st) = write_bytes ar (p @ q) st"
  by (simp add: write_bytes_words [of st] write_words_append)

text \<open>However the decoder's output is cut into writes, inside of a sample too, the analyzer ends in
  the same state: it measures the stream.\<close>

theorem chunks_do_not_matter:
  "foldl (\<lambda>st p. write_bytes ar p st) (new_analyzer ar) ps = write_bytes ar (concat ps) (new_analyzer ar)"
proof (induction ps rule: rev_induct)
  case Nil
  show ?case by (simp add: new_analyzer_def write_bytes_def, subst write_words.simps, simp)
next
  case (snoc p ps)
  then show ?case by (simp add: write_bytes_append new_analyzer_def)
qed

section \<open>Ranges\<close>

definition hops_ok :: "'f analyzer \<Rightarrow> bool" where
  "hops_ok st \<longleftrightarrow> dz_silent st \<le> dz_hops st"

lemma hops_ok_rest [simp]: "hops_ok (st\<lparr>dz_rest := r\<rparr>) = hops_ok st" "hops_ok (st\<lparr>dz_hop := h\<rparr>) = hops_ok st"
  by (simp_all add: hops_ok_def)

lemma hops_ok_silence: "hops_ok st \<Longrightarrow> hops_ok (count_silence ar hop st)"
  by (simp add: hops_ok_def count_silence_def Let_def)

lemma hops_ok_sample: "hops_ok st \<Longrightarrow> hops_ok (take_sample ar v st)"
  by (simp add: take_sample_def end_hop_def Let_def hops_ok_def count_silence_def split: prod.split)

lemma hops_ok_words: "hops_ok st \<Longrightarrow> hops_ok (write_words ar p st)"
proof (induction ar p st rule: write_words.induct)
  case (1 ar p st)
  then show ?case by (subst write_words.simps) (simp add: hops_ok_sample)
qed

lemma hops_ok_bytes: "hops_ok st \<Longrightarrow> hops_ok (write_bytes ar p st)"
  by (simp add: write_bytes_def Let_def hops_ok_words hops_ok_sample)

lemma min_lag [simp]: "min_lag = 25"
proof -
  have "\<lfloor>60 * frames_per_second / MaxBPM\<rfloor> = 25" by (simp add: floor_eq_iff)
  then show ?thesis by (simp only: min_lag_def nat_numeral)
qed

lemma max_lag [simp]: "max_lag = 87"
proof -
  have "\<lceil>60 * frames_per_second / MinBPM\<rceil> = 87" by (simp add: ceiling_eq_iff)
  then show ?thesis by (simp only: max_lag_def nat_numeral)
qed

lemma exact_lit [simp]: "f_lit (exact d) q = of_rat q" "f_count (exact d) n = real n"
  by (simp_all add: exact_def f_count_def)

lemma exact_ops [simp]:
  "f_div (exact d) x y = x / y" "f_mul (exact d) x y = x * y" "f_min (exact d) x y = min x y" "f_max (exact d) x y = max x y"
  "f_lt (exact d) x y = (x < y)" "f_le (exact d) x y = (x \<le> y)" "f_eq (exact d) x y = (x = y)"
  by (simp_all add: exact_def)

lemma best_lag_range:
  fixes acf :: "nat \<Rightarrow> real"
  assumes "fst (best_lag (exact d) acf) \<noteq> 0"
  shows "min_lag \<le> fst (best_lag (exact d) acf) \<and> fst (best_lag (exact d) acf) \<le> max_lag \<and> 0 < acf (fst (best_lag (exact d) acf))"
proof -
  let ?step = "\<lambda>(best, score) lag. let bpm = beat_of (exact d) lag in
     if f_lt (exact d) bpm (f_lit (exact d) MinBPM) \<or> f_lt (exact d) (f_lit (exact d) MaxBPM) bpm \<or> f_le (exact d) (acf lag) (f_lit (exact d) 0)
     then (best, score)
     else let s = f_mul (exact d) (acf lag) (tempo_prior (exact d) bpm) in if f_lt (exact d) score s then (lag, s) else (best, score)"
  have one: "fst (?step z lag) = fst z \<or> fst (?step z lag) = lag \<and> 0 < acf lag" for z lag
    by (cases z) (auto simp: Let_def not_le)
  have "fst (foldl ?step z lags) = fst z \<or> (fst (foldl ?step z lags) \<in> set lags \<and> 0 < acf (fst (foldl ?step z lags)))" for z lags
  proof (induction lags arbitrary: z)
    case (Cons l ls)
    from Cons [of "?step z l"] one [of z l] show ?case by auto
  qed simp
  note this [of "(0, f_lit (exact d) 0)" "[min_lag..<max_lag + 1]", folded best_lag_def, unfolded set_upt]
  then show ?thesis using assms by auto
qed

lemma rounded_tenths:
  fixes b :: real
  assumes "60 \<le> b" "b \<le> 200"
  shows "60 \<le> f_round (exact d) (b * 10) / 10 \<and> f_round (exact d) (b * 10) / 10 \<le> 200"
proof -
  have "600 \<le> \<lfloor>b * 10 + 1 / 2\<rfloor>" "\<lfloor>b * 10 + 1 / 2\<rfloor> \<le> 2000" using assms by (simp_all add: le_floor_iff floor_le_iff)
  then have "600 \<le> real_of_int \<lfloor>b * 10 + 1 / 2\<rfloor>" "real_of_int \<lfloor>b * 10 + 1 / 2\<rfloor> \<le> 2000" by linarith+
  then show ?thesis using assms by (simp add: exact_def)
qed

lemma tempo_range:
  assumes "tempo (exact d) env = (bpm, confidence)"
  shows "(bpm = 0 \<or> 60 \<le> bpm \<and> bpm \<le> 200) \<and> 0 \<le> confidence \<and> confidence \<le> 1"
proof -
  define e where "e = onsets (exact d) env"
  define r0 where "r0 = foldl (\<lambda>s v. f_add (exact d) s (f_mul (exact d) v v)) (f_lit (exact d) 0) e"
  define acf where "acf = acf_at (exact d) e r0"
  define first where "first = fst (best_lag (exact d) acf)"
  define best where "best = faster_octave (exact d) acf first"
  show ?thesis
  proof (cases "(bpm, confidence) = (0, 0)")
    case True
    then show ?thesis by simp
  next
    case False
    have run: "first \<noteq> 0" "\<exists>b. bpm = f_round (exact d) (min (max b 60) 200 * 10) / 10" "confidence = min (acf best) 1"
      using assms False unfolding tempo_def Let_def e_def [symmetric] r0_def [symmetric] acf_def [symmetric] first_def [symmetric]
        best_def [symmetric]
      by (auto simp: of_rat_divide split: if_splits) metis+
    have pos: "0 < acf first" using best_lag_range [of d acf] run(1) by (simp add: first_def)
    have "0 \<le> acf best"
    proof (cases "best = first")
      case True
      then show ?thesis using pos by simp
    next
      case False
      then have "of_rat (95 / 100) * acf first \<le> acf best"
        unfolding best_def by (auto simp: faster_octave_def Let_def split: if_splits)
      moreover have "0 < of_rat (95 / 100) * acf first" using pos by (simp add: of_rat_divide)
      ultimately show ?thesis by linarith
    qed
    moreover have "60 \<le> bpm \<and> bpm \<le> 200" using run(2) rounded_tenths by fastforce
    ultimately show ?thesis using run(3) by simp
  qed
qed

text \<open>What a stream measures lies in its ranges: no tempo or one between 60 and 200, a confidence and
  a share of silence between 0 and 1.\<close>

theorem measurement_in_range:
  assumes "r = measure_stream (exact d) (foldl (\<lambda>st p. write_bytes (exact d) p st) (new_analyzer (exact d)) ps)"
  shows "(ry_bpm r = 0 \<or> 60 \<le> ry_bpm r \<and> ry_bpm r \<le> 200) \<and> 0 \<le> ry_confidence r \<and> ry_confidence r \<le> 1 \<and>
     0 \<le> ry_silence r \<and> ry_silence r \<le> 1"
proof -
  define st0 where "st0 = write_bytes (exact d) (concat ps) (new_analyzer (exact d))"
  let ?st = "if dz_hop st0 = [] then st0 else (count_silence (exact d) (dz_hop st0) st0)\<lparr>dz_hop := []\<rparr>"
  have "hops_ok st0" unfolding st0_def by (rule hops_ok_bytes) (simp add: hops_ok_def new_analyzer_def)
  then have "hops_ok ?st" using hops_ok_silence [of st0 "exact d" "dz_hop st0"] by (cases "dz_hop st0 = []") simp_all
  then have silence: "0 < dz_hops ?st \<Longrightarrow> real (dz_silent ?st) / real (dz_hops ?st) \<le> 1" by (simp add: hops_ok_def)
  obtain bpm confidence where t: "tempo (exact d) (dz_env ?st) = (bpm, confidence)" by fastforce
  have r: "r = \<lparr>ry_bpm = bpm, ry_confidence = confidence,
       ry_silence = (if 0 < dz_hops ?st then f_div (exact d) (f_count (exact d) (dz_silent ?st)) (f_count (exact d) (dz_hops ?st)) else f_lit (exact d) 0),
       ry_samples = dz_samples ?st\<rparr>"
    using assms t unfolding chunks_do_not_matter st0_def [symmetric] measure_stream_def Let_def by (simp del: exact_lit)
  have "ry_silence r = (if 0 < dz_hops ?st then real (dz_silent ?st) / real (dz_hops ?st) else 0)"
    unfolding r by (simp add: exact_def f_count_def)
  then show ?thesis using tempo_range [OF t] silence unfolding r by simp
qed

section \<open>Witness\<close>

lemma transform_is_dft_witness:
  "pt (fft_transform (exact (\<lambda>_. 0)) (new_fft (exact (\<lambda>_. 0)) (2 ^ 1)) ([1, 3], [0, 0])) 1 = - 2"
proof -
  have "pt (fft_transform (exact (\<lambda>_. 0)) (new_fft (exact (\<lambda>_. 0)) (2 ^ 1)) ([1, 3], [0, 0])) 1 = dft (2 ^ 1) (pt ([1, 3], [0, 0])) 1"
    by (rule transform_is_dft) (simp_all add: sized_def)
  also have "\<dots> = - 2" by (simp add: dft_def pt_def numeral_2_eq_2 lessThan_Suc complex_eq_iff)
  finally show ?thesis .
qed

end
