(* ===== verification/Extract.thy ===== *)
theory Extract
  imports Transcode GoFloat Dsp
begin

text \<open>
  The workers that measure uploaded masters: the Metadata Worker (\<^verbatim>\<open>workers/metadata\<close>) with
  ffprobe, and the Audio Analysis Worker (\<^verbatim>\<open>workers/audio-analysis\<close>) with FFmpeg and the
  measurements of \<open>Dsp\<close>. Both handle \<open>track.uploaded\<close> once per upload: a row and its event commit
  together. What the external programs print, and what is in the bucket, is outside. An upload
  whose identifiers do not parse has none (\<open>job\<close> of \<open>Transcode\<close>); log lines and metrics are left out.
\<close>

section \<open>Rows that are inserted once\<close>

text \<open>\<open>INSERT ... ON CONFLICT DO NOTHING\<close>: a row the table refuses is an error, one that is there
  counts no row.\<close>

definition insert_once :: "('r \<Rightarrow> uuid) \<Rightarrow> ('r \<Rightarrow> bool) \<Rightarrow> 'r \<Rightarrow> 'r list \<Rightarrow> 'e failure + nat \<times> 'r list" where
  "insert_once key ok r rs =
     (if \<not> ok r then Inl Infra else if has_row key (key r) rs then Inr (0, rs) else Inr (1, rs @ [r]))"

text \<open>The state both workers promise: the rows and the events of the same measurements, one for each upload.\<close>

definition rows_announced :: "('r \<Rightarrow> 's) \<Rightarrow> ('r \<Rightarrow> 'p) \<Rightarrow> ('r \<Rightarrow> uuid) \<Rightarrow> ('r \<Rightarrow> uuid) \<Rightarrow> 's list \<Rightarrow> 'p message list \<Rightarrow> bool" where
  "rows_announced row event upload track d l \<longleftrightarrow>
     (\<exists>ms. d = map row ms \<and> map (\<lambda>m. (msg_key m, env_payload (msg_value m))) l = map (\<lambda>m. (track m, event m)) ms \<and>
        distinct (map upload ms))"

text \<open>
  Everything that can happen to the store of such a worker: whole handlers, transactions of a
  delivery that passed its check elsewhere, and steps of the world around it.
\<close>

inductive worker_run ::
  "('r \<Rightarrow> ('s list, 'x, 'p, 'e, bool) act) \<Rightarrow> ('j \<Rightarrow> ('s list, 'x, 'p, 'e, string) act) \<Rightarrow>
   ('s list, 'x, 'p) world \<Rightarrow> ('s list, 'x, 'p) world \<Rightarrow> bool"
  for save handle w0 where
  start: "worker_run save handle w0 w0"
| handled: "worker_run save handle w0 w \<Longrightarrow> worker_run save handle w0 (snd (handle j w))"
| saved: "worker_run save handle w0 w \<Longrightarrow> worker_run save handle w0 (snd (save m w))"
| elsewhere: "worker_run save handle w0 w \<Longrightarrow> same_state w w1 \<Longrightarrow> worker_run save handle w0 w1"

locale announces_once =
  fixes save :: "'r \<Rightarrow> ('s list, 'x, 'p, 'e, bool) act" and handle :: "'j \<Rightarrow> ('s list, 'x, 'p, 'e, string) act"
    and row :: "'r \<Rightarrow> 's" and event :: "'r \<Rightarrow> 'p" and upload :: "'r \<Rightarrow> uuid" and track :: "'r \<Rightarrow> uuid"
  assumes save_keeps: "keeps_inv (rows_announced row event upload track) (save m)"
    and handle_keeps: "keeps_inv (rows_announced row event upload track) (handle j)"
begin

lemma run_announced:
  assumes "worker_run save handle w0 w" "rows_announced row event upload track (db w0) (World.log w0)"
  shows "rows_announced row event upload track (db w) (World.log w)"
  using assms
proof (induction rule: worker_run.induct)
  case (handled w j)
  then show ?case using handle_keeps [of j] by (cases "handle j w") (auto dest: keeps_invD)
next
  case (saved w m)
  then show ?case using save_keeps [of m] by (cases "save m w") (auto dest: keeps_invD)
next
  case (elsewhere w w1)
  then show ?case by (simp add: World.log_def)
qed

lemma run_from_empty:
  assumes "worker_run save handle w0 w" "db w0 = []" "outbox w0 = []"
  shows "rows_announced row event upload track (db w) (World.log w)"
  using run_announced [OF assms(1)] assms(2,3) by (simp add: rows_announced_def World.log_def)

end

text \<open>The one proof behind both workers: a row is stored with its event, or neither.\<close>

lemma insert_announces:
  assumes key: "\<And>m. key (row m) = upload m"
    and w: "rows_announced row event upload track (db w) (World.log w)" and msg: "msg_key x = track m" "env_payload (msg_value x) = event m"
    and run: "bnd (stmt (insert_once key ok (row m))) (\<lambda>n. if n = 0 then ret False else bnd (write_row x) (\<lambda>_. ret True)) w = (Inr b, w1)"
  shows "rows_announced row event upload track (db w1) (World.log w1)"
proof -
  obtain ms where ms: "db w = map row ms" "distinct (map upload ms)"
    "map (\<lambda>m. (msg_key m, env_payload (msg_value m))) (World.log w) = map (\<lambda>m. (track m, event m)) ms"
    using w by (auto simp: rows_announced_def)
  show ?thesis
  proof (cases "has_row key (upload m) (db w)")
    case True
    then have "db w1 = db w \<and> World.log w1 = World.log w"
      using run by (auto simp: act_inv insert_once_def key split: if_splits)
    then show ?thesis using w by simp
  next
    case False
    then have new: "db w1 = map row (ms @ [m]) \<and> World.log w1 = World.log w @ [x]"
      using run ms(1) by (auto simp: act_inv insert_once_def key World.log_def split: if_splits)
    have "upload m \<notin> set (map upload ms)" using False ms(1) by (auto simp: has_row_iff image_iff key)
    then show ?thesis unfolding rows_announced_def using new ms(2,3) msg by (intro exI [of _ "ms @ [m]"]) simp
  qed
qed

lemma save_announces:
  fixes track :: "'r \<Rightarrow> uuid" and event :: "'r \<Rightarrow> 'p"
  assumes key: "\<And>m. key (row m) = upload m"
    and enc: "keeps_inv (rows_announced row event upload track) enc_act"
    and msg: "\<And>x w w1. enc_act w = (Inr x, w1) \<Longrightarrow> msg_key x = track m \<and> env_payload (msg_value x) = event m"
  shows "keeps_inv (rows_announced row event upload track) (bnd enc_act (\<lambda>x. in_tx (\<lambda>_. True)
     (bnd (stmt (insert_once key ok (row m))) (\<lambda>n. if n = 0 then ret False else bnd (write_row x) (\<lambda>_. ret True)))))"
proof (rule keeps_bnd_when [OF enc msg])
  fix x :: "'p message"
  assume x: "msg_key x = track m \<and> env_payload (msg_value x) = event m"
  show "keeps_inv (rows_announced row event upload track) (in_tx (\<lambda>_. True)
     (bnd (stmt (insert_once key ok (row m))) (\<lambda>n. if n = 0 then ret False else bnd (write_row x) (\<lambda>_. ret True))))"
  proof (rule pg.keeps_tx, rule body_keepsI)
    fix w b w1
    assume I: "rows_announced row event upload track (db w) (World.log w)"
      and run: "bnd (stmt (insert_once key ok (row m))) (\<lambda>n. if n = 0 then ret False else bnd (write_row x) (\<lambda>_. ret True)) w = (Inr b, w1)"
    show "rows_announced row event upload track (db w1) (World.log w1)"
      by (rule insert_announces [OF key I _ _ run]) (simp_all add: x)
  qed
qed

lemma insert_served:
  assumes "\<And>n. fates v n = Fine" "\<not> has_row key (key r) (db v)" "ok r"
  shows "\<exists>v1. in_tx (\<lambda>_. True) (bnd (stmt (insert_once key ok r)) (\<lambda>n. if n = 0 then ret False else bnd (write_row x) (\<lambda>_. ret True))) v =
     (Inr True, v1) \<and> db v1 = db v @ [r] \<and> World.log v1 = World.log v @ [x]"
  using assms by (simp add: in_tx_def bnd_def stmt_def insert_once_def write_row_def ret_def Let_def World.log_def)

section \<open>The Metadata Worker\<close>

record probe =
  pb_container :: string
  pb_codec :: string
  pb_duration :: int
  pb_bitrate :: int
  pb_rate :: int
  pb_channels :: int

definition probe_valid :: "probe \<Rightarrow> bool" where
  "probe_valid p \<longleftrightarrow> \<not> (pb_container p = [] \<or> pb_codec p = [] \<or> pb_duration p \<le> 0 \<or> pb_bitrate p < 0 \<or>
     pb_rate p \<le> 0 \<or> pb_channels p \<le> 0)"

subsection \<open>What ffprobe prints\<close>

record probe_stream =
  ps_type :: string
  ps_codec :: string
  ps_rate :: string
  ps_channels :: int
  ps_duration :: string
  ps_bitrate :: string

record probe_output =
  po_streams :: "probe_stream list"
  po_format :: string
  po_duration :: string
  po_bitrate :: string

fun first_set :: "string list \<Rightarrow> string" where
  "first_set [] = []"
| "first_set (v # vs) = (if v \<noteq> [] \<and> v \<noteq> ''N/A'' then v else first_set vs)"

text \<open>
  \<open>strconv.ParseFloat\<close> is a parameter: \<open>None\<close> for what does not parse, infinities and NaN. A
  product beyond 64 bits becomes the smallest integer, as on amd64.
\<close>

definition millis :: "(string \<Rightarrow> float64 option) \<Rightarrow> string \<Rightarrow> int" where
  "millis parse secs =
     (case parse secs of
        None \<Rightarrow> 0
      | Some f \<Rightarrow> if f \<le> 0 then 0
          else let n = \<lfloor>float_round (float_mult f 1000)\<rfloor> in if n < 2 ^ 63 then n else - (2 ^ 63))"

definition whole_number :: "string \<Rightarrow> int" where
  "whole_number s = (case atoi s of None \<Rightarrow> 0 | Some n \<Rightarrow> if n < 0 then 0 else n)"

fun parse_streams :: "(string \<Rightarrow> float64 option) \<Rightarrow> probe_output \<Rightarrow> probe_stream list \<Rightarrow> probe option" where
  "parse_streams parse out [] = None"
| "parse_streams parse out (s # ss) =
     (if ps_type s \<noteq> ''audio'' then parse_streams parse out ss
      else let p = \<lparr>pb_container = takeWhile (\<lambda>c. c \<noteq> CHR '','') (po_format out), pb_codec = ps_codec s,
          pb_duration = millis parse (first_set [ps_duration s, po_duration out]),
          pb_bitrate = whole_number (first_set [ps_bitrate s, po_bitrate out]),
          pb_rate = whole_number (ps_rate s), pb_channels = ps_channels s\<rparr> in
        if pb_duration p \<le> 0 then None else Some p)"

definition parse_probe :: "(string \<Rightarrow> float64 option) \<Rightarrow> probe_output \<Rightarrow> probe option" where
  "parse_probe parse out = parse_streams parse out (po_streams out)"

subsection \<open>The job\<close>

record metadata =
  md_upload :: uuid
  md_track :: uuid
  md_sha :: string
  md_probe :: probe
  md_uploaded :: time
  md_extracted :: time

text \<open>Outside: which masters there are, and what the program prints about one, if it accepts it.\<close>

record 'o master_ext =
  in_bucket :: "string \<Rightarrow> object_key \<Rightarrow> bool"
  program :: "string \<times> object_key \<Rightarrow> 'o option"

type_synonym metadata_world = "(metadata list, probe_output master_ext, metadata) world"
type_synonym 'a metadata_act = "(metadata list, probe_output master_ext, metadata, transcode_error, 'a) act"

definition stored_metadata :: "metadata \<Rightarrow> metadata" where
  "stored_metadata m = m\<lparr>md_uploaded := pg_time (md_uploaded m), md_extracted := pg_time (md_extracted m)\<rparr>"

text \<open>The column types and checks of \<open>track_metadata\<close>.\<close>

definition metadata_fits :: "metadata \<Rightarrow> bool" where
  "metadata_fits m \<longleftrightarrow> (let p = md_probe m in
     text_ok (pb_container p) \<and> text_ok (pb_codec p) \<and> text_ok (md_sha m) \<and>
     0 < pb_duration p \<and> pb_duration p < 2 ^ 63 \<and> 0 \<le> pb_bitrate p \<and> pb_bitrate p < 2 ^ 63 \<and>
     0 < pb_rate p \<and> pb_rate p < 2 ^ 31 \<and> 0 < pb_channels p \<and> pb_channels p < 2 ^ 15)"

definition metadata_exists :: "uuid \<Rightarrow> bool metadata_act" where
  "metadata_exists u = query (has_row md_upload u)"

definition metadata_message :: "metadata \<Rightarrow> metadata message metadata_act" where
  "metadata_message m = bnd (new_envelope ''media.metadata_extracted'' 1 ''metadata'' (md_extracted m) m) (\<lambda>env.
     ret \<lparr>msg_topic = ''media.events'', msg_key = md_track m, msg_value = env,
       msg_headers = [(''event-type'', ''media.metadata_extracted''), (''event-version'', ''1''), (''content-type'', ''application/json'')]\<rparr>)"

definition save_metadata :: "metadata \<Rightarrow> bool metadata_act" where
  "save_metadata m = bnd (metadata_message m) (\<lambda>x.
     in_tx (\<lambda>_. True) (bnd (stmt (insert_once md_upload metadata_fits (stored_metadata m)))
       (\<lambda>n. if n = 0 then ret False else bnd (write_row x) (\<lambda>_. ret True))))"

text \<open>\<open>Source.URL\<close>: the master has to be there; the URL is signed without asking anyone.\<close>

definition master_url :: "string \<Rightarrow> object_key \<Rightarrow> (('s list, 'o master_ext, 'p, transcode_error, string \<times> object_key) act)" where
  "master_url bucket k = call (\<lambda>x. if in_bucket x bucket k then Inr ((bucket, k), x) else Inl (Domain SourceMissing))"

definition probe_url :: "(string \<Rightarrow> float64 option) \<Rightarrow> string \<times> object_key \<Rightarrow> probe metadata_act" where
  "probe_url parse url = call (\<lambda>x. case Option.bind (program x url) (parse_probe parse) of
     None \<Rightarrow> Inl (Domain Undecodable) | Some p \<Rightarrow> Inr (p, x))"

abbreviation OutcomeExtracted :: string where "OutcomeExtracted \<equiv> ''extracted''"
abbreviation OutcomeMissing :: string where "OutcomeMissing \<equiv> ''missing''"
abbreviation OutcomeUndecodable :: string where "OutcomeUndecodable \<equiv> ''undecodable''"

definition store_probe :: "job \<Rightarrow> uuid \<Rightarrow> uuid \<Rightarrow> probe \<Rightarrow> string metadata_act" where
  "store_probe j u track p = bnd now_utc (\<lambda>now.
     bnd (save_metadata \<lparr>md_upload = u, md_track = track, md_sha = jb_sha j, md_probe = p, md_uploaded = jb_at j, md_extracted = now\<rparr>)
       (\<lambda>saved. ret (if saved then OutcomeExtracted else OutcomeDuplicate)))"

definition extract_metadata :: "(string \<Rightarrow> float64 option) \<Rightarrow> job \<Rightarrow> string metadata_act" where
  "extract_metadata parse j =
     (case (jb_upload j, jb_track j, jb_key j) of
        (Some u, Some track, Some k) \<Rightarrow>
          if jb_bucket j = '''' then fail InvalidJob
          else bnd (metadata_exists u) (\<lambda>stored.
            if stored then ret OutcomeDuplicate
            else bnd (attempt (master_url (jb_bucket j) k)) (\<lambda>r. case r of
                Inl f \<Rightarrow> if f = Domain SourceMissing then ret OutcomeMissing else raise f
              | Inr url \<Rightarrow> bnd (attempt (probe_url parse url)) (\<lambda>r. case r of
                    Inl f \<Rightarrow> if f = Domain Undecodable then ret OutcomeUndecodable else raise f
                  | Inr p \<Rightarrow> if probe_valid p then store_probe j u track p else ret OutcomeUndecodable)))
      | _ \<Rightarrow> fail InvalidJob)"

text \<open>The handler of \<open>media.events\<close>, with what it runs for a job.\<close>

definition handle_master :: "(job \<Rightarrow> ('d, 'x, 'p, transcode_error, string) act) \<Rightarrow> job wire krecord \<Rightarrow>
    ('d, 'x, 'p) world \<Rightarrow> herr option \<times> ('d, 'x, 'p) world" where
  "handle_master run rec w =
     (case decode_envelope (rec_value rec) of
        None \<Rightarrow> (Some \<lparr>permanent = True, herr_text = ''envelope''\<rparr>, w)
      | Some env \<Rightarrow>
          if env_type env \<noteq> ''track.uploaded'' then (None, w)
          else if env_version env \<noteq> 1 then (Some \<lparr>permanent = True, herr_text = ''unsupported version''\<rparr>, w)
          else (case env_payload env of
              None \<Rightarrow> (Some \<lparr>permanent = True, herr_text = ''payload''\<rparr>, w)
            | Some j \<Rightarrow> (case run j w of
                (Inr outcome, w1) \<Rightarrow> (None, w1)
              | (Inl f, w1) \<Rightarrow> (Some \<lparr>permanent = (f = Domain InvalidJob), herr_text = ''job''\<rparr>, w1))))"

definition handle_metadata :: "(string \<Rightarrow> float64 option) \<Rightarrow> job wire krecord \<Rightarrow> metadata_world \<Rightarrow> herr option \<times> metadata_world" where
  "handle_metadata parse = handle_master (extract_metadata parse)"

subsection \<open>One row and one event for each upload\<close>

lemma stored_upload [simp]: "md_upload (stored_metadata m) = md_upload m"
  by (simp add: stored_metadata_def)

lemma save_metadata_keeps: "keeps_inv (rows_announced stored_metadata id md_upload md_track) (save_metadata m)"
  unfolding save_metadata_def
proof (rule save_announces [where key = md_upload and row = stored_metadata and event = id and upload = md_upload and track = md_track])
  show "md_upload (stored_metadata m) = md_upload m" for m by simp
  show "keeps_inv (rows_announced stored_metadata id md_upload md_track) (metadata_message m)"
    unfolding metadata_message_def new_envelope_def by (intro keeps)
  show "msg_key x = md_track m \<and> env_payload (msg_value x) = id m" if "metadata_message m w = (Inr x, w1)" for x w w1
    using that by (auto simp: metadata_message_def act_inv)
qed

lemma extract_metadata_keeps: "keeps_inv (rows_announced stored_metadata id md_upload md_track) (extract_metadata parse j)"
proof -
  let ?I = "rows_announced stored_metadata id md_upload md_track"
  have reads: "keeps_inv ?I (metadata_exists u)" "keeps_inv ?I (attempt (master_url b k))" "keeps_inv ?I (attempt (probe_url parse url))" for u b k url
    unfolding metadata_exists_def master_url_def probe_url_def by (rule keeps_query keeps_attempt keeps_call)+
  have store: "keeps_inv ?I (store_probe j u t p)" for u t p
    unfolding store_probe_def by (intro keeps save_metadata_keeps)
  have probed: "keeps_inv ?I (case r of Inl f \<Rightarrow> if f = Domain Undecodable then ret OutcomeUndecodable else raise f
      | Inr p \<Rightarrow> if probe_valid p then store_probe j u t p else ret OutcomeUndecodable)" for r u t
    by (cases r) (simp_all only: sum.case, (intro keeps store)+)
  have found: "keeps_inv ?I (case r of Inl f \<Rightarrow> if f = Domain SourceMissing then ret OutcomeMissing else raise f
      | Inr url \<Rightarrow> bnd (attempt (probe_url parse url)) (\<lambda>r. case r of Inl f \<Rightarrow> if f = Domain Undecodable then ret OutcomeUndecodable else raise f
          | Inr p \<Rightarrow> if probe_valid p then store_probe j u t p else ret OutcomeUndecodable))" for r u t
    by (cases r) (simp_all only: sum.case, (intro keeps reads probed)+)
  show ?thesis unfolding extract_metadata_def
    by (cases "jb_upload j"; cases "jb_track j"; cases "jb_key j"; simp only: option.case prod.case; (intro keeps reads found))
qed

interpretation metadata_worker: announces_once save_metadata "extract_metadata parse" stored_metadata id md_upload md_track for parse
  by unfold_locales (rule save_metadata_keeps, rule extract_metadata_keeps)

text \<open>C38: whatever calls are lost and however deliveries of uploads repeat and overlap, the stored
  metadata and the events in the outbox are the same measurements, one for each upload, in the
  same order; the events carry what was measured, under the key of the track.\<close>

theorem metadata_announced_once:
  assumes "worker_run save_metadata (extract_metadata parse) w0 w" "db w0 = []" "outbox w0 = []"
  shows "\<exists>ms. db w = map stored_metadata ms \<and> distinct (map md_upload ms) \<and>
     map (\<lambda>m. (msg_key m, env_payload (msg_value m))) (World.log w) = map (\<lambda>m. (md_track m, m)) ms"
  using metadata_worker.run_from_empty [OF assms] by (auto simp: rows_announced_def)

text \<open>A probe that passes validation has a row the table takes, as long as its numbers and texts fit.\<close>

lemma valid_probe_fits:
  assumes "probe_valid (md_probe m)" "text_ok (pb_container (md_probe m))" "text_ok (pb_codec (md_probe m))" "text_ok (md_sha m)"
    and "pb_duration (md_probe m) < 2 ^ 63" "pb_bitrate (md_probe m) < 2 ^ 63" "pb_rate (md_probe m) < 2 ^ 31" "pb_channels (md_probe m) < 2 ^ 15"
  shows "metadata_fits (stored_metadata m)"
  using assms by (auto simp: metadata_fits_def probe_valid_def stored_metadata_def Let_def)

text \<open>What ffprobe is read as is positive where validation asks for it, but for rate and channels.\<close>

lemma atoi_bounds: "atoi s = Some n \<Longrightarrow> - (2 ^ 63) \<le> n \<and> n < 2 ^ 63"
  by (auto simp: atoi_def Let_def split: option.splits if_splits)

lemma parse_streams_range: "parse_streams parse out ss = Some p \<Longrightarrow> 0 < pb_duration p \<and> pb_duration p < 2 ^ 63 \<and>
    0 \<le> pb_bitrate p \<and> pb_bitrate p < 2 ^ 63 \<and> 0 \<le> pb_rate p"
proof (induction ss)
  case (Cons s ss)
  have w: "0 \<le> whole_number t" "whole_number t < 2 ^ 63" for t
    using atoi_bounds [of t] by (auto simp: whole_number_def split: option.splits)
  have m: "millis parse t < 2 ^ 63" for t by (auto simp: millis_def Let_def split: option.splits)
  show ?case
  proof (cases "ps_type s = ''audio''")
    case True
    then show ?thesis using Cons.prems w m by (auto simp: Let_def split: if_splits)
  next
    case False
    then show ?thesis using Cons by simp
  qed
qed simp

text \<open>A redelivered upload changes nothing; a first delivery whose calls are served stores the row and the event.\<close>

theorem redelivery_is_duplicate:
  assumes "jb_upload j = Some u" "jb_track j \<noteq> None" "jb_key j \<noteq> None" "jb_bucket j \<noteq> ''''" "has_row md_upload u (db w)"
    and "fates w (tick w) = Fine"
  shows "extract_metadata parse j w = (Inr OutcomeDuplicate, advance w)"
  using assms by (auto simp: extract_metadata_def metadata_exists_def bnd_def query_def stmt_def ret_def)

theorem first_delivery_stores:
  assumes job: "jb_upload j = Some u" "jb_track j = Some t" "jb_key j = Some k" "jb_bucket j \<noteq> ''''" "\<not> has_row md_upload u (db w)"
    and served: "\<And>n. fates w n = Fine" "\<And>n. fresh w n \<noteq> None"
    and master: "in_bucket (ext w) (jb_bucket j) k" "program (ext w) (jb_bucket j, k) = Some out" "parse_probe parse out = Some p" "probe_valid p"
    and m: "m = \<lparr>md_upload = u, md_track = t, md_sha = jb_sha j, md_probe = p, md_uploaded = jb_at j, md_extracted = clock w (tick w + 3)\<rparr>"
    and fits: "metadata_fits (stored_metadata m)"
  shows "\<exists>w1. extract_metadata parse j w = (Inr OutcomeExtracted, w1) \<and> db w1 = db w @ [stored_metadata m] \<and>
     (\<exists>x. World.log w1 = World.log w @ [x] \<and> msg_key x = t \<and> env_payload (msg_value x) = m)"
proof -
  let ?w = "advance (advance (advance w))"
  have pre: "extract_metadata parse j w = store_probe j u t p ?w"
    using job served master by (simp add: extract_metadata_def metadata_exists_def master_url_def probe_url_def bnd_def query_def stmt_def
      attempt_def call_def)
  obtain i where i: "fresh w (Suc (Suc (Suc (Suc (tick w))))) = Some i" using served(2) by blast
  let ?now = "clock w (Suc (Suc (Suc (tick w))))"
  have m': "\<lparr>md_upload = u, md_track = t, md_sha = jb_sha j, md_probe = p, md_uploaded = jb_at j, md_extracted = ?now\<rparr> = m"
    using m by (simp add: eval_nat_numeral)
  have new: "\<not> has_row md_upload (md_upload (stored_metadata m)) (db w)" using job(5) m by simp
  let ?x = "\<lparr>msg_topic = ''media.events'', msg_key = md_track m,
     msg_value = \<lparr>env_id = i, env_type = ''media.metadata_extracted'', env_version = 1, env_at = md_extracted m,
       env_producer = ''metadata'', env_payload = m\<rparr>,
     msg_headers = [(''event-type'', ''media.metadata_extracted''), (''event-version'', ''1''), (''content-type'', ''application/json'')]\<rparr>"
  have msg: "metadata_message m (advance ?w) = (Inr ?x, advance (advance ?w))"
    using i by (simp add: metadata_message_def bnd_def new_envelope_def new_uuid_def ret_def)
  have "\<exists>v1. in_tx (\<lambda>_. True) (bnd (stmt (insert_once md_upload metadata_fits (stored_metadata m)))
      (\<lambda>n. if n = 0 then ret False else bnd (write_row ?x) (\<lambda>_. ret True))) (advance (advance ?w)) =
     (Inr True, v1) \<and> db v1 = db w @ [stored_metadata m] \<and> World.log v1 = World.log w @ [?x]"
    using insert_served [where v = "advance (advance ?w)" and key = md_upload and ok = metadata_fits and r = "stored_metadata m" and x = ?x]
      served(1) new fits by simp
  then obtain w1 where w1: "save_metadata m (advance ?w) = (Inr True, w1)" "db w1 = db w @ [stored_metadata m]" "World.log w1 = World.log w @ [?x]"
    by (elim exE conjE) (simp only: save_metadata_def bnd_def [of "metadata_message m"] msg prod.case sum.case)
  have "store_probe j u t p ?w = (Inr OutcomeExtracted, w1)"
    using w1(1) m' by (simp add: store_probe_def bnd_def now_utc_def ret_def)
  then show ?thesis using pre w1(2,3) m by (intro exI [of _ w1]) simp
qed

section \<open>The Audio Analysis Worker\<close>

record 'f measured =
  fe_bpm :: 'f
  fe_confidence :: 'f
  fe_lufs :: 'f
  fe_range :: 'f
  fe_peak :: 'f
  fe_silence :: 'f
  fe_ms :: int

abbreviation level_floor :: rat where "level_floor \<equiv> - 70"

definition features_valid :: "'f arith \<Rightarrow> 'f measured \<Rightarrow> bool" where
  "features_valid ar f \<longleftrightarrow>
     (let lt = f_lt ar; lit = f_lit ar in
      list_all (f_finite ar) [fe_bpm f, fe_confidence f, fe_lufs f, fe_range f, fe_peak f, fe_silence f] \<and>
      \<not> (\<not> f_eq ar (fe_bpm f) (lit 0) \<and> (lt (fe_bpm f) (lit MinBPM) \<or> lt (lit MaxBPM) (fe_bpm f)) \<or>
         lt (fe_confidence f) (lit 0) \<or> lt (lit 1) (fe_confidence f) \<or>
         lt (fe_lufs f) (lit level_floor) \<or> lt (fe_peak f) (lit level_floor) \<or> lt (fe_range f) (lit 0) \<or>
         lt (fe_silence f) (lit 0) \<or> lt (lit 1) (fe_silence f) \<or> fe_ms f \<le> 0))"

subsection \<open>What FFmpeg prints\<close>

text \<open>\<open>strings.Cut\<close>: what follows the first occurrence.\<close>

fun cut_after :: "string \<Rightarrow> string \<Rightarrow> string option" where
  "cut_after sep [] = (if sep = [] then Some [] else None)"
| "cut_after sep (c # cs) = (if take (length sep) (c # cs) = sep then Some (drop (length sep) (c # cs)) else cut_after sep cs)"

definition blank :: "char \<Rightarrow> bool" where
  "blank c \<longleftrightarrow> byte c \<in> {9, 10, 12, 13, 32}"

text \<open>The regular expressions \<^verbatim>\<open>(?m)^\s*LABEL:\s+(\S+) UNIT\<close>: a match from one line start, and the first.\<close>

definition level_at :: "string \<Rightarrow> string \<Rightarrow> string \<Rightarrow> string option" where
  "level_at label un s =
     (let r = dropWhile blank s in
      if take (length label) r \<noteq> label then None
      else let r1 = drop (length label) r; r2 = dropWhile blank r1; v = takeWhile (Not \<circ> blank) r2; r3 = drop (length v) r2 in
        if r1 \<noteq> r2 \<and> v \<noteq> [] \<and> take (Suc (length un)) r3 = CHR '' '' # un then Some v else None)"

fun find_level :: "string \<Rightarrow> string \<Rightarrow> bool \<Rightarrow> string \<Rightarrow> string option" where
  "find_level label un line_start [] = None"
| "find_level label un line_start (c # cs) =
     (case (if line_start then level_at label un (c # cs) else None) of
        Some v \<Rightarrow> Some v
      | None \<Rightarrow> find_level label un (byte c = 10) cs)"

record 'f loudness =
  lo_integrated :: 'f
  lo_range :: 'f
  lo_peak :: 'f

definition floor_level :: "'f arith \<Rightarrow> 'f \<Rightarrow> 'f" where
  "floor_level ar v = (if \<not> f_eq ar v v \<or> f_lt ar v (f_lit ar level_floor) then f_lit ar level_floor else v)"

text \<open>\<open>parse\<close> is \<open>strconv.ParseFloat\<close>.\<close>

definition parse_loudness :: "'f arith \<Rightarrow> (string \<Rightarrow> 'f option) \<Rightarrow> string \<Rightarrow> 'f loudness option" where
  "parse_loudness ar parse text =
     (case cut_after ''Summary:'' text of
        None \<Rightarrow> None
      | Some s \<Rightarrow>
          let level = (\<lambda>label un. Option.bind (find_level label un True s) parse) in
          (case (level ''I:'' ''LUFS'', level ''LRA:'' ''LU'', level ''Peak:'' ''dBFS'') of
             (Some i, Some r, Some p) \<Rightarrow> Some \<lparr>lo_integrated = floor_level ar i,
               lo_range = (if f_lt ar r (f_lit ar 0) \<or> \<not> f_eq ar r r then f_lit ar 0 else r), lo_peak = floor_level ar p\<rparr>
           | _ \<Rightarrow> None))"

definition round_digits :: "'f arith \<Rightarrow> 'f \<Rightarrow> nat \<Rightarrow> 'f" where
  "round_digits ar v n = (let p = f_lit ar (10 ^ n) in f_div ar (f_round ar (f_mul ar v p)) p)"

text \<open>\<open>tail\<close>: the last \<open>n\<close> bytes of the log.\<close>

definition tail_write :: "nat \<Rightarrow> string \<Rightarrow> string \<Rightarrow> string" where
  "tail_write n buf p = drop (length (buf @ p) - n) (buf @ p)"

text \<open>What a run of FFmpeg that ends well writes: chunks of its log and of samples.\<close>

type_synonym ffmpeg_output = "string list \<times> string list"

definition analyze :: "'f arith \<Rightarrow> (string \<Rightarrow> 'f option) \<Rightarrow> ffmpeg_output \<Rightarrow> 'f measured option" where
  "analyze ar parse out =
     (case parse_loudness ar parse (foldl (tail_write 16384) [] (fst out)) of
        None \<Rightarrow> None
      | Some l \<Rightarrow>
          let r = measure_stream ar (foldl (\<lambda>st p. write_bytes ar p st) (new_analyzer ar) (snd out)) in
          if ry_samples r = 0 then None
          else Some \<lparr>fe_bpm = ry_bpm r, fe_confidence = round_digits ar (ry_confidence r) 3, fe_lufs = lo_integrated l,
            fe_range = lo_range l, fe_peak = lo_peak l, fe_silence = round_digits ar (ry_silence r) 4, fe_ms = int (duration_ms r)\<rparr>)"

subsection \<open>The job\<close>

record 'f analysis =
  az_upload :: uuid
  az_track :: uuid
  az_sha :: string
  az_features :: "'f measured"
  az_version :: string
  az_uploaded :: time
  az_analyzed :: time

text \<open>The columns of \<open>track_features\<close>, which are the fields of the event; no tempo is \<open>None\<close>.\<close>

record 'f audio_features =
  af_upload :: uuid
  af_track :: uuid
  af_bpm :: "'f option"
  af_confidence :: 'f
  af_lufs :: 'f
  af_range :: 'f
  af_peak :: 'f
  af_silence :: 'f
  af_ms :: int
  af_version :: string
  af_sha :: string
  af_uploaded :: time
  af_analyzed :: time

definition analysis_payload :: "'f arith \<Rightarrow> 'f analysis \<Rightarrow> 'f audio_features" where
  "analysis_payload ar a = (let f = az_features a in
     \<lparr>af_upload = az_upload a, af_track = az_track a, af_bpm = (if f_eq ar (fe_bpm f) (f_lit ar 0) then None else Some (fe_bpm f)),
      af_confidence = fe_confidence f, af_lufs = fe_lufs f, af_range = fe_range f, af_peak = fe_peak f, af_silence = fe_silence f,
      af_ms = fe_ms f, af_version = az_version a, af_sha = az_sha a, af_uploaded = az_uploaded a, af_analyzed = az_analyzed a\<rparr>)"

definition analysis_row :: "'f arith \<Rightarrow> 'f analysis \<Rightarrow> 'f audio_features" where
  "analysis_row ar a = (let f = az_features a in
     \<lparr>af_upload = az_upload a, af_track = az_track a, af_bpm = (if f_eq ar (fe_bpm f) (f_lit ar 0) then None else Some (fe_bpm f)),
      af_confidence = fe_confidence f, af_lufs = fe_lufs f, af_range = fe_range f, af_peak = fe_peak f, af_silence = fe_silence f,
      af_ms = fe_ms f, af_version = az_version a, af_sha = az_sha a, af_uploaded = pg_time (az_uploaded a),
      af_analyzed = pg_time (az_analyzed a)\<rparr>)"

definition features_fit :: "'f arith \<Rightarrow> 'f audio_features \<Rightarrow> bool" where
  "features_fit ar r \<longleftrightarrow>
     (let between = (\<lambda>x a b. f_le ar (f_lit ar a) x \<and> f_le ar x (f_lit ar b)) in
      (case af_bpm r of None \<Rightarrow> True | Some b \<Rightarrow> between b MinBPM MaxBPM) \<and> between (af_confidence r) 0 1 \<and>
      f_le ar (f_lit ar level_floor) (af_lufs r) \<and> f_le ar (f_lit ar 0) (af_range r) \<and> f_le ar (f_lit ar level_floor) (af_peak r) \<and>
      between (af_silence r) 0 1 \<and> 0 < af_ms r \<and> af_ms r < 2 ^ 63 \<and> text_ok (af_version r) \<and> text_ok (af_sha r))"

type_synonym ('f, 'a) analysis_act = "('f audio_features list, ffmpeg_output master_ext, 'f audio_features, transcode_error, 'a) act"
type_synonym 'f analysis_world = "('f audio_features list, ffmpeg_output master_ext, 'f audio_features) world"

definition features_exist :: "uuid \<Rightarrow> ('f, bool) analysis_act" where
  "features_exist u = query (has_row af_upload u)"

definition analysis_message :: "'f arith \<Rightarrow> 'f analysis \<Rightarrow> ('f, 'f audio_features message) analysis_act" where
  "analysis_message ar a = bnd (new_envelope ''audio.features_extracted'' 1 ''audio-analysis'' (az_analyzed a) (analysis_payload ar a)) (\<lambda>env.
     ret \<lparr>msg_topic = ''media.events'', msg_key = az_track a, msg_value = env,
       msg_headers = [(''event-type'', ''audio.features_extracted''), (''event-version'', ''1''), (''content-type'', ''application/json'')]\<rparr>)"

definition save_analysis :: "'f arith \<Rightarrow> 'f analysis \<Rightarrow> ('f, bool) analysis_act" where
  "save_analysis ar a = bnd (analysis_message ar a) (\<lambda>x.
     in_tx (\<lambda>_. True) (bnd (stmt (insert_once af_upload (features_fit ar) (analysis_row ar a)))
       (\<lambda>n. if n = 0 then ret False else bnd (write_row x) (\<lambda>_. ret True))))"

definition analyze_url :: "'f arith \<Rightarrow> (string \<Rightarrow> 'f option) \<Rightarrow> string \<times> object_key \<Rightarrow> ('f, 'f measured) analysis_act" where
  "analyze_url ar parse url = call (\<lambda>x. case Option.bind (program x url) (analyze ar parse) of
     None \<Rightarrow> Inl (Domain Undecodable) | Some f \<Rightarrow> Inr (f, x))"

abbreviation OutcomeAnalyzed :: string where "OutcomeAnalyzed \<equiv> ''analyzed''"
abbreviation AnalyzerVersion :: string where "AnalyzerVersion \<equiv> ''1''"

definition store_features :: "'f arith \<Rightarrow> job \<Rightarrow> uuid \<Rightarrow> uuid \<Rightarrow> 'f measured \<Rightarrow> ('f, string) analysis_act" where
  "store_features ar j u track f = bnd now_utc (\<lambda>now.
     bnd (save_analysis ar \<lparr>az_upload = u, az_track = track, az_sha = jb_sha j, az_features = f, az_version = AnalyzerVersion,
        az_uploaded = jb_at j, az_analyzed = now\<rparr>)
       (\<lambda>saved. ret (if saved then OutcomeAnalyzed else OutcomeDuplicate)))"

definition analyze_master :: "'f arith \<Rightarrow> (string \<Rightarrow> 'f option) \<Rightarrow> job \<Rightarrow> ('f, string) analysis_act" where
  "analyze_master ar parse j =
     (case (jb_upload j, jb_track j, jb_key j) of
        (Some u, Some track, Some k) \<Rightarrow>
          if jb_bucket j = '''' then fail InvalidJob
          else bnd (features_exist u) (\<lambda>stored.
            if stored then ret OutcomeDuplicate
            else bnd (attempt (master_url (jb_bucket j) k)) (\<lambda>r. case r of
                Inl f \<Rightarrow> if f = Domain SourceMissing then ret OutcomeMissing else raise f
              | Inr url \<Rightarrow> bnd (attempt (analyze_url ar parse url)) (\<lambda>r. case r of
                    Inl f \<Rightarrow> if f = Domain Undecodable then ret OutcomeUndecodable else raise f
                  | Inr fs \<Rightarrow> if features_valid ar fs then store_features ar j u track fs else ret OutcomeUndecodable)))
      | _ \<Rightarrow> fail InvalidJob)"

definition handle_analysis :: "'f arith \<Rightarrow> (string \<Rightarrow> 'f option) \<Rightarrow> job wire krecord \<Rightarrow> 'f analysis_world \<Rightarrow> herr option \<times> 'f analysis_world" where
  "handle_analysis ar parse = handle_master (analyze_master ar parse)"

lemma row_upload [simp]: "af_upload (analysis_row ar a) = az_upload a"
  by (simp add: analysis_row_def Let_def)

lemma save_analysis_keeps: "keeps_inv (rows_announced (analysis_row ar) (analysis_payload ar) az_upload az_track) (save_analysis ar a)"
  unfolding save_analysis_def
proof (rule save_announces [where key = af_upload and row = "analysis_row ar" and event = "analysis_payload ar" and upload = az_upload and track = az_track])
  show "af_upload (analysis_row ar a) = az_upload a" for a by simp
  show "keeps_inv (rows_announced (analysis_row ar) (analysis_payload ar) az_upload az_track) (analysis_message ar a)"
    unfolding analysis_message_def new_envelope_def by (intro keeps)
  show "msg_key x = az_track a \<and> env_payload (msg_value x) = analysis_payload ar a" if "analysis_message ar a w = (Inr x, w1)" for x w w1
    using that by (auto simp: analysis_message_def act_inv)
qed

lemma analyze_master_keeps: "keeps_inv (rows_announced (analysis_row ar) (analysis_payload ar) az_upload az_track) (analyze_master ar parse j)"
proof -
  let ?I = "rows_announced (analysis_row ar) (analysis_payload ar) az_upload az_track"
  have reads: "keeps_inv ?I (features_exist u)" "keeps_inv ?I (attempt (master_url b k))" "keeps_inv ?I (attempt (analyze_url ar parse url))" for u b k url
    unfolding features_exist_def master_url_def analyze_url_def by (rule keeps_query keeps_attempt keeps_call)+
  have store: "keeps_inv ?I (store_features ar j u t f)" for u t f
    unfolding store_features_def by (intro keeps save_analysis_keeps)
  have probed: "keeps_inv ?I (case r of Inl f \<Rightarrow> if f = Domain Undecodable then ret OutcomeUndecodable else raise f
      | Inr fs \<Rightarrow> if features_valid ar fs then store_features ar j u t fs else ret OutcomeUndecodable)" for r u t
    by (cases r) (simp_all only: sum.case, (intro keeps store)+)
  have found: "keeps_inv ?I (case r of Inl f \<Rightarrow> if f = Domain SourceMissing then ret OutcomeMissing else raise f
      | Inr url \<Rightarrow> bnd (attempt (analyze_url ar parse url)) (\<lambda>r. case r of Inl f \<Rightarrow> if f = Domain Undecodable then ret OutcomeUndecodable else raise f
          | Inr fs \<Rightarrow> if features_valid ar fs then store_features ar j u t fs else ret OutcomeUndecodable))" for r u t
    by (cases r) (simp_all only: sum.case, (intro keeps reads probed)+)
  show ?thesis unfolding analyze_master_def
    by (cases "jb_upload j"; cases "jb_track j"; cases "jb_key j"; simp only: option.case prod.case; (intro keeps reads found))
qed

interpretation analysis_worker: announces_once "save_analysis ar" "analyze_master ar parse" "analysis_row ar" "analysis_payload ar" az_upload az_track for ar parse
  by unfold_locales (rule save_analysis_keeps, rule analyze_master_keeps)

text \<open>The same promise for the Audio Analysis Worker.\<close>

theorem analysis_announced_once:
  assumes "worker_run (save_analysis ar) (analyze_master ar parse) w0 w" "db w0 = []" "outbox w0 = []"
  shows "\<exists>xs. db w = map (analysis_row ar) xs \<and> distinct (map az_upload xs) \<and>
     map (\<lambda>m. (msg_key m, env_payload (msg_value m))) (World.log w) = map (\<lambda>a. (az_track a, analysis_payload ar a)) xs"
  using analysis_worker.run_from_empty [OF assms] by (auto simp: rows_announced_def)

subsection \<open>What is measured is valid\<close>

lemma exact_finite [simp]: "f_finite (exact d) x"
  by (simp add: exact_def)

lemma rounded_share:
  fixes v :: real
  assumes "0 \<le> v" "v \<le> 1"
  shows "0 \<le> round_digits (exact d) v n \<and> round_digits (exact d) v n \<le> 1"
proof -
  have p: "of_rat (10 ^ n) = (10 ^ n :: real)" by (simp add: of_rat_power)
  have le: "v * 10 ^ n \<le> 10 ^ n" using assms mult_right_mono [of v 1 "10 ^ n"] by simp
  have "0 \<le> v * 10 ^ n" using assms by simp
  then have "0 \<le> \<lfloor>v * 10 ^ n + 1 / 2\<rfloor>" by simp
  moreover have "\<lfloor>v * 10 ^ n + 1 / 2\<rfloor> \<le> 10 ^ n"
  proof -
    have "v * 10 ^ n + 1 / 2 < real_of_int (10 ^ n) + 1" using le unfolding of_int_power of_int_numeral by linarith
    then show ?thesis by (simp only: floor_le_iff)
  qed
  then have "real_of_int \<lfloor>v * 10 ^ n + 1 / 2\<rfloor> \<le> real_of_int (10 ^ n)" by (rule of_int_le_iff [THEN iffD2])
  ultimately show ?thesis using \<open>0 \<le> v * 10 ^ n\<close>
    by (simp add: round_digits_def Let_def p exact_def)
qed

lemma floored: "- 70 \<le> floor_level (exact d) v"
  by (simp add: floor_level_def of_rat_minus not_less)

text \<open>In exact arithmetic what the analysis measures on a stream of at least twelve samples passes
  validation, and its row passes the checks of the table: a valid master is never dropped.\<close>

theorem measured_is_valid:
  assumes "analyze (exact d) parse out = Some f" "0 < fe_ms f"
  shows "features_valid (exact d) f"
proof -
  obtain l where l: "parse_loudness (exact d) parse (foldl (tail_write 16384) [] (fst out)) = Some l"
    using assms(1) by (auto simp: analyze_def split: option.splits)
  define r where "r = measure_stream (exact d) (foldl (\<lambda>st p. write_bytes (exact d) p st) (new_analyzer (exact d)) (snd out))"
  have f: "f = \<lparr>fe_bpm = ry_bpm r, fe_confidence = round_digits (exact d) (ry_confidence r) 3, fe_lufs = lo_integrated l,
      fe_range = lo_range l, fe_peak = lo_peak l, fe_silence = round_digits (exact d) (ry_silence r) 4, fe_ms = int (duration_ms r)\<rparr>"
    using assms(1) unfolding analyze_def l r_def [symmetric] Let_def by (simp split: if_splits)
  have "- 70 \<le> lo_integrated l \<and> 0 \<le> lo_range l \<and> - 70 \<le> lo_peak l"
    using l by (auto simp: parse_loudness_def Let_def floored split: option.splits)
  moreover note range = measurement_in_range [OF r_def]
  moreover have "0 \<le> fe_confidence f" "fe_confidence f \<le> 1" "0 \<le> fe_silence f" "fe_silence f \<le> 1"
    using range rounded_share [of "ry_confidence r" d 3] rounded_share [of "ry_silence r" d 4] by (simp_all add: f)
  ultimately show ?thesis using assms(2) by (auto simp: features_valid_def Let_def f of_rat_minus)
qed

lemma valid_features_fit:
  assumes "features_valid (exact d) (az_features a)" "fe_ms (az_features a) < 2 ^ 63" "text_ok (az_version a)" "text_ok (az_sha a)"
  shows "features_fit (exact d) (analysis_row (exact d) a)"
  using assms by (auto simp: features_fit_def features_valid_def analysis_row_def Let_def not_less)

section \<open>Witness\<close>

definition sample_output :: probe_output where
  "sample_output = \<lparr>po_streams = [\<lparr>ps_type = ''audio'', ps_codec = ''flac'', ps_rate = ''44100'', ps_channels = 2,
     ps_duration = ''N/A'', ps_bitrate = []\<rparr>], po_format = ''flac'', po_duration = ''3'', po_bitrate = ''800000''\<rparr>"

definition upload_job :: job where
  "upload_job = \<lparr>jb_upload = Some 1, jb_track = Some 2, jb_bucket = ''masters'', jb_key = Some (AudioKey 2 320), jb_sha = ''ab'', jb_at = 5000\<rparr>"

definition quiet_world :: metadata_world where
  "quiet_world = \<lparr>tick = 0, fates = \<lambda>_. Fine, clock = \<lambda>_. 7000, fresh = \<lambda>n. Some (of_nat n), db = [], outbox = [], next_row = 0,
     ext = \<lparr>in_bucket = \<lambda>_ _. True, program = \<lambda>_. Some sample_output\<rparr>\<rparr>"

text \<open>An upload handled twice.\<close>

lemma metadata_announced_once_witness:
  "\<exists>ms. db (snd (extract_metadata (\<lambda>_. Some 3) upload_job (snd (extract_metadata (\<lambda>_. Some 3) upload_job quiet_world)))) = map stored_metadata ms \<and>
     distinct (map md_upload ms) \<and>
     map (\<lambda>m. (msg_key m, env_payload (msg_value m)))
       (World.log (snd (extract_metadata (\<lambda>_. Some 3) upload_job (snd (extract_metadata (\<lambda>_. Some 3) upload_job quiet_world))))) =
     map (\<lambda>m. (md_track m, m)) ms"
proof -
  have run: "worker_run save_metadata (extract_metadata (\<lambda>_. Some 3)) quiet_world
      (snd (extract_metadata (\<lambda>_. Some 3) upload_job (snd (extract_metadata (\<lambda>_. Some 3) upload_job quiet_world))))"
    by (rule worker_run.handled, rule worker_run.handled, rule worker_run.start)
  show ?thesis by (rule metadata_announced_once [OF run]) (simp_all add: quiet_world_def)
qed

end
