(* ===== verification/AuthHttp.thy ===== *)
theory AuthHttp
  imports Auth Http GoFloat "HOL-Library.Signed_Division"
begin

text \<open>
  The routes of the Auth service (\<^verbatim>\<open>services/auth/internal/adapters/http\<close>), with the refresh
  cookie. A body is what it decodes into, or \<open>None\<close>; the principal of a request is what the
  verifier found, its identifiers parsed or not. The key set route, which answers a constant, and
  headers other than \<^verbatim>\<open>Set-Cookie\<close> are left out.
\<close>

type_synonym auth_world = "(auth_db, auth_redis, auth_payload) world"

section \<open>Answers and cookies\<close>

text \<open>What \<^verbatim>\<open>Set-Cookie\<close> asks of the client: a value with its \<^verbatim>\<open>Max-Age\<close>, or to drop the cookie.\<close>

datatype cookie_change = KeepCookie | SetCookie string int | DropCookie

type_synonym 'b auth_answer = "'b response \<times> cookie_change"

text \<open>The jar of a browser after an answer; a negative age drops the cookie.\<close>

fun jar_after :: "string option \<Rightarrow> cookie_change \<Rightarrow> string option" where
  "jar_after jar KeepCookie = jar"
| "jar_after jar (SetCookie v age) = (if age < 0 then None else Some v)"
| "jar_after jar DropCookie = None"

record user_info =
  ui_id :: uuid
  ui_email :: string
  ui_roles :: "string list"

record token_info =
  tk_access :: string
  tk_expires_in :: int
  tk_expires_at :: time
  tk_user :: user_info

record session_info =
  si_id :: uuid
  si_agent :: string
  si_created :: time
  si_last_used :: time
  si_expires :: time
  si_current :: bool

text \<open>\<open>int(d.Seconds())\<close>.\<close>

definition seconds_of :: "duration \<Rightarrow> int" where
  "seconds_of d =
     (let x = float_add (float64 (of_int (d sdiv second))) (float_div (float64 (of_int (d smod second))) 1000000000) in
      if 0 \<le> x then \<lfloor>x\<rfloor> else \<lceil>x\<rceil>)"

fun auth_fail :: "auth_error failure \<Rightarrow> 'b response" where
  "auth_fail (Domain (ValidationError fs)) = Problem 422 CodeValidation fs"
| "auth_fail (Domain EmailTaken) = Problem 409 ''EMAIL_TAKEN'' []"
| "auth_fail (Domain InvalidCredentials) = Problem 401 ''INVALID_CREDENTIALS'' []"
| "auth_fail (Domain TooManyAttempts) = Problem 429 ''TOO_MANY_ATTEMPTS'' []"
| "auth_fail (Domain InvalidRefresh) = Problem 401 ''SESSION_EXPIRED'' []"
| "auth_fail (Domain SessionInactive) = Problem 401 ''SESSION_EXPIRED'' []"
| "auth_fail (Domain RefreshReuse) = Problem 401 ''SESSION_EXPIRED'' []"
| "auth_fail (Domain ConcurrentUpdate) = Problem 401 ''SESSION_EXPIRED'' []"
| "auth_fail (Domain SessionNotFound) = Problem 404 ''SESSION_NOT_FOUND'' []"
| "auth_fail (Domain AccountNotFound) = Problem 500 CodeInternal []"
| "auth_fail Infra = Problem 500 CodeInternal []"

text \<open>\<open>writeTokens\<close> reads the clock for the age of the cookie and for that of the access token.\<close>

definition write_tokens :: "nat \<Rightarrow> auth_result \<Rightarrow> auth_world \<Rightarrow> token_info auth_answer \<times> auth_world" where
  "write_tokens status res w =
     (let now1 = clock w (tick w); w1 = advance w; now2 = clock w1 (tick w1); w2 = advance w1; a = rs_account res in
      ((Reply status \<lparr>tk_access = rs_access res, tk_expires_in = seconds_of (rs_access_until res - now2),
          tk_expires_at = rs_access_until res, tk_user = \<lparr>ui_id = ac_id a, ui_email = ac_email a, ui_roles = ac_roles a\<rparr>\<rparr>,
        SetCookie (rs_refresh res) (seconds_of (rs_refresh_until res - now1))), w2))"

text \<open>\<open>refreshToken\<close>: the cookie, else what a native client sent in the body.\<close>

definition refresh_token :: "string option \<Rightarrow> string option \<Rightarrow> string" where
  "refresh_token cookie body =
     (if cookie \<noteq> None \<and> cookie \<noteq> Some '''' then the cookie else case body of Some t \<Rightarrow> t | None \<Rightarrow> '''')"

section \<open>Routes\<close>

definition post_register :: "auth_deps \<Rightarrow> string \<Rightarrow> (string \<times> string) option \<Rightarrow> auth_world \<Rightarrow> token_info auth_answer \<times> auth_world" where
  "post_register k agent body w =
     (case body of
        None \<Rightarrow> ((Problem 400 CodeBadRequest [], KeepCookie), w)
      | Some (email, password) \<Rightarrow> (case register k email password agent w of
          (Inl e, w1) \<Rightarrow> ((auth_fail e, KeepCookie), w1)
        | (Inr res, w1) \<Rightarrow> write_tokens 201 res w1))"

definition post_login :: "auth_deps \<Rightarrow> string \<Rightarrow> (string \<times> string) option \<Rightarrow> auth_world \<Rightarrow> token_info auth_answer \<times> auth_world" where
  "post_login k agent body w =
     (case body of
        None \<Rightarrow> ((Problem 400 CodeBadRequest [], KeepCookie), w)
      | Some (email, password) \<Rightarrow> (case login k email password agent w of
          (Inl e, w1) \<Rightarrow> ((auth_fail e, KeepCookie), w1)
        | (Inr res, w1) \<Rightarrow> write_tokens 200 res w1))"

definition post_refresh :: "auth_deps \<Rightarrow> string option \<Rightarrow> string option \<Rightarrow> auth_world \<Rightarrow> token_info auth_answer \<times> auth_world" where
  "post_refresh k cookie body w =
     (case refresh k (refresh_token cookie body) w of
        (Inl e, w1) \<Rightarrow> ((auth_fail e, DropCookie), w1)
      | (Inr res, w1) \<Rightarrow> write_tokens 200 res w1)"

definition post_logout :: "auth_deps \<Rightarrow> string option \<Rightarrow> string option \<Rightarrow> auth_world \<Rightarrow> unit auth_answer \<times> auth_world" where
  "post_logout k cookie body w =
     (case logout k (refresh_token cookie body) w of
        (Inl e, w1) \<Rightarrow> ((auth_fail e, KeepCookie), w1)
      | (Inr res, w1) \<Rightarrow> ((Reply 204 (), DropCookie), w1))"

text \<open>Behind \<open>verifier.Required\<close>: without a principal there is no handler.\<close>

definition with_principal :: "access_claims option \<Rightarrow> (access_claims \<Rightarrow> auth_world \<Rightarrow> 'b auth_answer \<times> auth_world) \<Rightarrow>
    auth_world \<Rightarrow> 'b auth_answer \<times> auth_world" where
  "with_principal p h w = (case p of None \<Rightarrow> ((Problem 401 CodeUnauthenticated [], KeepCookie), w) | Some c \<Rightarrow> h c w)"

definition session_info_of :: "uuid \<Rightarrow> auth_session \<Rightarrow> session_info" where
  "session_info_of current s = \<lparr>si_id = se_id s, si_agent = se_agent s, si_created = se_created s, si_last_used = se_last_used s,
     si_expires = se_expires s, si_current = (se_id s = current)\<rparr>"

definition get_sessions :: "access_claims option \<Rightarrow> auth_world \<Rightarrow> session_info list auth_answer \<times> auth_world" where
  "get_sessions p = with_principal p (\<lambda>c w. case active_sessions (cl_subject c) w of
     (Inl e, w1) \<Rightarrow> ((auth_fail e, KeepCookie), w1)
   | (Inr ss, w1) \<Rightarrow> ((Reply 200 (map (session_info_of (cl_session c)) ss), KeepCookie), w1))"

definition delete_session :: "auth_deps \<Rightarrow> access_claims option \<Rightarrow> uuid option \<Rightarrow> auth_world \<Rightarrow> unit auth_answer \<times> auth_world" where
  "delete_session k p sid = with_principal p (\<lambda>c w. case sid of
     None \<Rightarrow> ((Problem 404 ''SESSION_NOT_FOUND'' [], KeepCookie), w)
   | Some i \<Rightarrow> (case revoke_session k (cl_subject c) i w of
        (Inl e, w1) \<Rightarrow> ((auth_fail e, KeepCookie), w1)
      | (Inr u, w1) \<Rightarrow> ((Reply 204 (), KeepCookie), w1)))"

section \<open>What the routes promise\<close>

text \<open>An answer with tokens hands out a refresh token in the cookie only, the one of the session.\<close>

lemma auth_fail_problem [simp]: "auth_fail e \<noteq> Reply s b"
  by (cases e rule: auth_fail.cases) simp_all

lemma refresh_cookie:
  assumes "post_refresh k cookie body w = ((Reply s t, c), w1)"
  shows "s = 200 \<and> (\<exists>res age. c = SetCookie (rs_refresh res) age \<and> fst (refresh k (refresh_token cookie body) w) = Inr res)"
  using assms by (auto simp: post_refresh_def write_tokens_def Let_def split: prod.splits sum.splits)

lemma refresh_without_token: "refresh_token jar None = '''' \<Longrightarrow>
    post_refresh k jar None w = ((Problem 401 ''SESSION_EXPIRED'' [], DropCookie), w)"
  by (simp add: post_refresh_def refresh_def fail_def)

text \<open>A sign-in answers the same whether the account is unknown or the password wrong.\<close>

lemma credentials_answer:
  assumes "login k email password agent w = (Inl (Domain InvalidCredentials), w1)"
  shows "post_login k agent (Some (email, password)) w = ((Problem 401 ''INVALID_CREDENTIALS'' [], KeepCookie), w1)"
  using assms by (simp add: post_login_def)

text \<open>C40: a refresh whose look-up of the session is lost changes nothing in the service, but its answer
  drops the browser's cookie: every later refresh from that browser is refused, though the
  session is still there.\<close>

theorem lost_lookup_signs_out:
  assumes "t \<noteq> ''''" "fates w (Suc (tick w)) \<noteq> Fine"
  shows "\<exists>w1. post_refresh k (Some t) None w = ((Problem 500 CodeInternal [], DropCookie), w1) \<and> same_state w w1 \<and>
     post_refresh k (jar_after (Some t) DropCookie) None w2 = ((Problem 401 ''SESSION_EXPIRED'' [], DropCookie), w2)"
proof -
  have "by_refresh_hash h (advance w) = (Inl Infra, advance (advance w))" for h
    using assms(2) by (cases "fates w (Suc (tick w))") (simp_all add: by_refresh_hash_def query_def bnd_def stmt_def)
  then have "refresh k t w = (Inl Infra, advance (advance w))"
    using assms(1) by (simp add: refresh_def Let_def bnd_def now_utc_def attempt_def raise_def)
  then have "post_refresh k (Some t) None w = ((Problem 500 CodeInternal [], DropCookie), advance (advance w))"
    using assms(1) by (simp add: post_refresh_def refresh_token_def)
  moreover have "post_refresh k (jar_after (Some t) DropCookie) None w2 = ((Problem 401 ''SESSION_EXPIRED'' [], DropCookie), w2)"
    by (rule refresh_without_token) (simp add: refresh_token_def)
  ultimately show ?thesis by simp
qed

lemma lost_lookup_signs_out_witness:
  "\<exists>w1. post_refresh sample_deps (Some sample_first_token) None (sample_auth\<lparr>fates := \<lambda>_. Dropped\<rparr>) =
       ((Problem 500 CodeInternal [], DropCookie), w1) \<and> same_state (sample_auth\<lparr>fates := \<lambda>_. Dropped\<rparr>) w1 \<and>
     post_refresh sample_deps (jar_after (Some sample_first_token) DropCookie) None sample_auth =
       ((Problem 401 ''SESSION_EXPIRED'' [], DropCookie), sample_auth)"
proof -
  have "sample_first_token \<noteq> ''''" by code_simp
  then show ?thesis by (rule lost_lookup_signs_out) simp
qed

end
