(* ===== verification/Spec2Isabelle.thy ===== *)
theory Spec2Isabelle
  imports Playlist Relay Consumer Auth Catalog Playback Media Transcode Stream Indexer Recommend Profiles Bff PlaylistHttp CatalogHttp Analytics Search Extract AuthHttp
begin

text \<open>
  A verification library for icyre, a music streaming platform in Go: microservices under
  \<^verbatim>\<open>services/\<close>, workers under \<^verbatim>\<open>workers/\<close>, and what they share under \<^verbatim>\<open>libs/\<close>. Services keep
  their state in PostgreSQL, announce every change as an event through a transactional outbox,
  and workers consume the events of Kafka topics; the Web BFF puts pages together from the
  answers of the services. The model follows that structure.

  The world. \<^verbatim>\<open>World\<close> has the state of a process: the service's tables, its outbox, what is
  outside (Redis, object storage, other services), and an environment that is arbitrary: which
  calls are served, lost, or served with the reply lost, what the clock reads, and which
  identifiers are drawn. A use case is an action on such a world with an error or a value as its
  result, in the order of the calls of the code. So a theorem about all worlds is one about
  all failures. \<open>in_tx\<close> is \<^verbatim>\<open>libs/platform/postgres/tx.go\<close>; the locale \<open>unit_of_work\<close> says
  what a transaction promises, and \<open>in_tx\<close> is its instance. \<^verbatim>\<open>Outside\<close> has relations on what is
  outside. \<^verbatim>\<open>GoStrings\<close>, \<^verbatim>\<open>GoFloat\<close>, \<^verbatim>\<open>GoCodec\<close> and \<^verbatim>\<open>Http\<close> model what the code uses of Go's
  strings, floating point numbers, encodings and HTTP edges; strings are lists of bytes.
  \<^verbatim>\<open>Prelude\<close> has lemmas on rows and replay.

  Shared machinery. \<^verbatim>\<open>Paging\<close>: keyset pagination as a locale; whoever follows the cursors gets
  every row once. \<^verbatim>\<open>Delivery\<close>: the logs at-least-once delivery makes of a list of events, and
  the locales of consumers that absorb them; \<^verbatim>\<open>Latest\<close>: consumers that keep the newest event of a
  key. \<^verbatim>\<open>Relay\<close>: \<^verbatim>\<open>libs/platform/outbox\<close> with several replicas and crashes, up to what a consumer
  reads. \<^verbatim>\<open>Consumer\<close>: \<^verbatim>\<open>libs/platform/kafka\<close>, a consumer and a batch consumer with retries, dead
  letters, crashes and committed offsets. \<^verbatim>\<open>Cache\<close>: the Redis cache with expiry, and a locale for
  how stale a value may be.

  Services. \<^verbatim>\<open>Playlist\<close>, \<^verbatim>\<open>Auth\<close> (with the token verifier of \<^verbatim>\<open>libs/platform/authn\<close>), \<^verbatim>\<open>Catalog\<close>,
  \<^verbatim>\<open>Social\<close>, \<^verbatim>\<open>Library\<close> and \<^verbatim>\<open>Profiles\<close> (\<^verbatim>\<open>services/user-profile\<close>): from validation over the
  statements on their tables to the events they publish. \<^verbatim>\<open>Playback\<close> (Playback and Listening
  History), \<^verbatim>\<open>Media\<close> (Media Ingest), \<^verbatim>\<open>Stream\<close> (Stream Authorization with its caches), \<^verbatim>\<open>Search\<close> (the
  Search service) and \<^verbatim>\<open>Bff\<close> (clients and pages of the Web BFF). \<^verbatim>\<open>PlaylistHttp\<close>, \<^verbatim>\<open>CatalogHttp\<close> and
  \<^verbatim>\<open>AuthHttp\<close> have the routes; those of the other services are in the theories of the services.

  Workers. \<^verbatim>\<open>Transcode\<close> (the Transcoder), \<^verbatim>\<open>Indexer\<close> (the Search Indexer: documents by version,
  generations of indices, rebuilds), \<^verbatim>\<open>Taste\<close>, \<^verbatim>\<open>Scoring\<close> and \<^verbatim>\<open>Recommend\<close> (the Recommendation
  Worker from the events it consumes to the sets the Recommendation service reads),
  \<^verbatim>\<open>Analytics\<close> (ingest, daily aggregates and the report), \<^verbatim>\<open>Dsp\<close> and \<^verbatim>\<open>Extract\<close> (the Audio Analysis
  and the Metadata Worker). Records are the structs and table rows of the code, one definition
  stands for one function or statement, and an error is a value of the service's error type.

  What the theorems show. The committed events of Playlist, Auth, Catalog and Profiles, replayed,
  rebuild the committed tables under any interleaving and any failures; counters, signals,
  rows of measurements and settled uploads agree with the events. The outbox loses nothing and
  keeps the order of a stream; what a consumer gets is at-least-once and in order, and the
  consumers of the Catalog, the History, the Indexer, the Recommendation and the Analytics Worker
  end where reading each event once ends. Safety of the use cases: ownership, token rotation,
  sessions of uploads, provenance of variants, playability, what may be recommended. The
  transform of the audio analysis is the discrete Fourier transform in exact arithmetic, and a
  suggested spelling changes the misspelt words only. Findings: where a wrap, a truncation, an
  expiry, a batch size or an error path makes the code differ from what it documents or means,
  as theorems about the model.

  Bounds. Kafka runs, relay passes and page walks take fuel or lists of steps; the theorems say
  how much is enough. Times are nanoseconds as integers; \<open>int64\<close> products and float comparisons
  are modelled at their width where values can reach the limits. \<open>float64\<close> values are the
  rationals they are, rounded after every operation (\<^verbatim>\<open>GoFloat\<close>): fused multiply-add, which Go
  permits on some machines, infinities and NaN are left out there. \<^verbatim>\<open>Dsp\<close> takes the operations on
  \<open>float64\<close> as a parameter.

  Not modelled: the wire (JSON texts of payloads are values, a payload that does not decode is
  \<open>None\<close>), SQL texts, log lines, metrics and traces; configuration, process wiring, health checks
  and HTTP middleware, which keep no state of the domain; the clients of PostgreSQL, Redis,
  ClickHouse, OpenSearch and the object store beyond what a call does; the Catalog's optional
  cache, an instance of the cache in \<^verbatim>\<open>Cache\<close>; FFmpeg and ffprobe themselves; the web client,
  which is not Go. Third-party code (UUID parsing, password hashing, JWT, SHA-256, Unicode
  tables, the search engine) is a parameter of the definitions that use it.
\<close>

end
